(* ===== verification/Prelude.thy ===== *)
theory Prelude
  imports Main "HOL-Library.AList"
begin

text \<open>
  Shared vocabulary of the development. JavaScript's \<open>Map\<close> keeps insertion order and
  \<open>set\<close> on a present key keeps its position, which is what an association list does under
  \<open>AList.update\<close>; a \<open>Set\<close> is a list without repetition. JavaScript's \<open>Array.prototype.sort\<close>
  is stable, as \<open>sort_key\<close> is. Strings are lists of code units below 256 (\<open>char\<close>), so
  \<open>length\<close> counts what the source's \<open>.length\<close> counts on them; only the registry theories let a
  \<open>char\<close> stand for a whole character and count JavaScript's units with \<open>jsLength\<close>.

  The locales are the interfaces several components rely on: an insertion-ordered map
  (\<open>js_map_ops\<close>), a machine with an invariant (\<open>invariant_machine\<close>) and a byte codec
  (\<open>byte_codec\<close>). Each is interpreted where its provider is defined.
\<close>

section \<open>Maps and sets\<close>

type_synonym ('k, 'v) js_map = "('k \<times> 'v) list"
type_synonym 'a js_set = "'a list"

abbreviation js_get :: "('k, 'v) js_map \<Rightarrow> 'k \<Rightarrow> 'v option" where
  "js_get \<equiv> map_of"

abbreviation js_put :: "'k \<Rightarrow> 'v \<Rightarrow> ('k, 'v) js_map \<Rightarrow> ('k, 'v) js_map" where
  "js_put \<equiv> AList.update"

abbreviation js_remove :: "'k \<Rightarrow> ('k, 'v) js_map \<Rightarrow> ('k, 'v) js_map" where
  "js_remove \<equiv> AList.delete"

definition js_has :: "('k, 'v) js_map \<Rightarrow> 'k \<Rightarrow> bool" where
  "js_has m k \<longleftrightarrow> map_of m k \<noteq> None"

definition js_keys :: "('k, 'v) js_map \<Rightarrow> 'k list" where
  "js_keys m = map fst m"

definition js_add :: "'a \<Rightarrow> 'a js_set \<Rightarrow> 'a js_set" where
  "js_add x xs = (if x \<in> set xs then xs else xs @ [x])"

definition js_set_of :: "'a list \<Rightarrow> 'a js_set" where
  "js_set_of xs = fold js_add xs []"

lemma set_js_add [simp]: "set (js_add x xs) = insert x (set xs)"
  by (auto simp: js_add_def)

lemma distinct_js_add [simp]: "distinct (js_add x xs) = distinct xs"
  by (simp add: js_add_def)

lemma set_fold_js_add [simp]: "set (fold js_add xs ys) = set xs \<union> set ys"
  by (induction xs arbitrary: ys) auto

lemma distinct_fold_js_add [simp]: "distinct (fold js_add xs ys) = distinct ys"
  by (induction xs arbitrary: ys) auto

lemma set_js_set_of [simp]: "set (js_set_of xs) = set xs"
  by (simp add: js_set_of_def)

lemma distinct_js_set_of [simp]: "distinct (js_set_of xs)"
  by (simp add: js_set_of_def)

lemma js_get_put [simp]: "js_get (js_put k v m) k' = (if k' = k then Some v else js_get m k')"
  by (simp add: update_conv')

lemma js_get_remove [simp]: "js_get (js_remove k m) k' = (if k' = k then None else js_get m k')"
  by (simp add: delete_conv')

lemma js_has_iff: "js_has m k \<longleftrightarrow> k \<in> fst ` set m"
  by (simp add: js_has_def map_of_eq_None_iff)

lemma js_get_filter_key:
  "js_get (filter (\<lambda>(k, v). P k) m) k = (if P k then js_get m k else None)"
  by (induction m) auto

lemma js_get_filter_distinct:
  "distinct (map fst m) \<Longrightarrow>
   js_get (filter (\<lambda>(k, v). P k v) m) k =
     (case js_get m k of None \<Rightarrow> None | Some v \<Rightarrow> if P k v then Some v else None)"
  by (induction m) (auto simp: image_iff split: option.splits if_splits dest: map_of_SomeD)

lemma distinct_fst_filter: "distinct (map fst m) \<Longrightarrow> distinct (map fst (filter P m))"
  by (induction m) auto

text \<open>The interface of an insertion-ordered map, as the components use it.\<close>

locale js_map_ops =
  fixes get :: "'m \<Rightarrow> 'k \<Rightarrow> 'v option"
    and put :: "'k \<Rightarrow> 'v \<Rightarrow> 'm \<Rightarrow> 'm"
    and remove :: "'k \<Rightarrow> 'm \<Rightarrow> 'm"
  assumes get_put: "get (put k v m) k' = (if k' = k then Some v else get m k')"
    and get_remove: "get (remove k m) k' = (if k' = k then None else get m k')"
begin

definition modify :: "'k \<Rightarrow> ('v option \<Rightarrow> 'v option) \<Rightarrow> 'm \<Rightarrow> 'm" where
  "modify k f m = (case f (get m k) of None \<Rightarrow> remove k m | Some v \<Rightarrow> put k v m)"

lemma get_modify: "get (modify k f m) k' = (if k' = k then f (get m k) else get m k')"
  by (auto simp: modify_def get_put get_remove split: option.splits)

lemma put_frame: "k' \<noteq> k \<Longrightarrow> get (put k v m) k' = get m k'"
  by (simp add: get_put)

lemma remove_frame: "k' \<noteq> k \<Longrightarrow> get (remove k m) k' = get m k'"
  by (simp add: get_remove)

end

interpretation jsm: js_map_ops "js_get :: ('k, 'v) js_map \<Rightarrow> 'k \<Rightarrow> 'v option" js_put js_remove
  by unfold_locales simp_all

section \<open>Strings\<close>

fun split_on :: "char \<Rightarrow> string \<Rightarrow> string list" where
  "split_on c [] = [[]]"
| "split_on c (x # xs) =
     (if x = c then [] # split_on c xs
      else (case split_on c xs of [] \<Rightarrow> [[x]] | s # ss \<Rightarrow> (x # s) # ss))"

lemma split_on_not_Nil [simp]: "split_on c xs \<noteq> []"
  by (induction xs) (auto split: list.splits)

lemma length_split_on: "length (split_on c xs) = Suc (count_list xs c)"
  by (induction xs) (auto split: list.splits)

definition last_index_of :: "char \<Rightarrow> string \<Rightarrow> int" where
  "last_index_of c s =
     (if c \<in> set s then int (length s) - 1 - int (length (takeWhile (\<lambda>x. x \<noteq> c) (rev s)))
      else -1)"

definition starts_with :: "string \<Rightarrow> string \<Rightarrow> bool" where
  "starts_with p s \<longleftrightarrow> take (length p) s = p"

text \<open>JavaScript's \<open>toLowerCase\<close> on code units below 256: the ASCII letters and the
  Latin-1 letters \<open>U+00C0\<close>--\<open>U+00DE\<close>, the multiplication sign excepted.\<close>

definition lower_char :: "char \<Rightarrow> char" where
  "lower_char c =
     (let n = of_char c :: nat in
      if (65 \<le> n \<and> n \<le> 90) \<or> (192 \<le> n \<and> n \<le> 222 \<and> n \<noteq> 215) then char_of (n + 32) else c)"

definition to_lower_case :: "string \<Rightarrow> string" where
  "to_lower_case = map lower_char"

lemma length_to_lower_case [simp]: "length (to_lower_case s) = length s"
  by (simp add: to_lower_case_def)

text \<open>\<open>String.prototype.trim\<close> on code units below 256.\<close>

definition js_space :: "char \<Rightarrow> bool" where
  "js_space c \<longleftrightarrow> (let n = of_char c :: nat in (9 \<le> n \<and> n \<le> 13) \<or> n = 32 \<or> n = 160)"

definition js_trim :: "string \<Rightarrow> string" where
  "js_trim s = rev (dropWhile js_space (rev (dropWhile js_space s)))"

section \<open>Machines with an invariant\<close>

text \<open>A component with state: a step function over its events. Every run of a machine
  whose steps keep an invariant keeps it, whatever the events.\<close>

locale invariant_machine =
  fixes step :: "'e \<Rightarrow> 's \<Rightarrow> 's"
    and inv :: "'s \<Rightarrow> bool"
  assumes step_inv: "inv s \<Longrightarrow> inv (step e s)"
begin

lemma run_inv: "inv s \<Longrightarrow> inv (fold step es s)"
  by (induction es arbitrary: s) (auto intro: step_inv)

lemma run_append_inv: "inv (fold step es s) \<Longrightarrow> inv (fold step (es @ fs) s)"
  by (simp add: run_inv)

end

section \<open>Byte codecs\<close>

text \<open>A codec writes a value as bytes and reads it back: decoding what was encoded gives
  the value, for every value the writer accepts.\<close>

locale byte_codec =
  fixes encode :: "'a \<Rightarrow> 'b list option"
    and decode :: "'b list \<Rightarrow> 'a option"
  assumes decode_encode: "encode x = Some bs \<Longrightarrow> decode bs = Some x"
begin

lemma encode_inj: "encode x = Some bs \<Longrightarrow> encode y = Some bs \<Longrightarrow> x = y"
  by (metis decode_encode option.inject)

end

text \<open>A strict reader refuses bytes after the end of what it read; then what is cut short is
  refused too.\<close>

locale strict_codec = byte_codec +
  assumes no_trailing: "decode bs = Some x \<Longrightarrow> q \<noteq> [] \<Longrightarrow> decode (bs @ q) = None"
begin

lemma truncated_refused:
  assumes "encode x = Some bs" "n < length bs"
  shows "decode (take n bs) = None"
proof (rule ccontr)
  assume "decode (take n bs) \<noteq> None"
  then obtain y where "decode (take n bs) = Some y" by blast
  then have "decode (take n bs @ drop n bs) = None" by (rule no_trailing) (use assms(2) in simp)
  then show False using decode_encode [OF assms(1)] by simp
qed

end

section \<open>Folds\<close>

lemma fold_invariant_mem:
  "P s \<Longrightarrow> (\<And>x s. x \<in> set xs \<Longrightarrow> P s \<Longrightarrow> P (f x s)) \<Longrightarrow> P (fold f xs s)"
  by (induction xs arbitrary: s) auto

lemma fold_measure_eq:
  "(\<And>x s. x \<in> set xs \<Longrightarrow> g (f x s) = g s) \<Longrightarrow> g (fold f xs s) = g s"
  by (induction xs arbitrary: s) auto

end
