(* ===== verification/Inbound.thy ===== *)
theory Inbound
  imports Prelude
begin

text \<open>
  The desktop's inbound planner (\<open>desktop/src/lib/sync/inbound.ts\<close>, with
  \<open>desktop/src/lib/pathIdentity.ts\<close>): what to change on disk because the server's folder and
  note structure moved. The planner is pure; \<open>planInbound\<close> is the composition of its phases in
  the source's order, each phase a definition: folders to create, folders moved, deleted and
  revoked, the note loop, the tree binaries, the circuit breakers.

  \<open>nfc\<close> is Unicode normalisation (\<open>String.prototype.normalize("NFC")\<close>), a table of the
  JavaScript runtime; every result holds for any such function. The sentence of a rejection is
  a constructor of \<open>reject_reason\<close> carrying the values the sentence shows.
\<close>

section \<open>Path identity\<close>

definition pathKey :: "(string \<Rightarrow> string) \<Rightarrow> string \<Rightarrow> string" where
  "pathKey nfc path = to_lower_case (nfc path)"

definition samePathKey :: "(string \<Rightarrow> string) \<Rightarrow> string \<Rightarrow> string \<Rightarrow> bool" where
  "samePathKey nfc a b \<longleftrightarrow> a = b \<or> pathKey nfc a = pathKey nfc b"

definition samePath :: "(string \<Rightarrow> string) \<Rightarrow> string \<Rightarrow> string \<Rightarrow> bool" where
  "samePath nfc a b = samePathKey nfc a b"

lemma samePath_iff [simp]: "samePath nfc a b \<longleftrightarrow> pathKey nfc a = pathKey nfc b"
  by (auto simp: samePath_def samePathKey_def)

section \<open>Path safety\<close>

definition IGNORED_DIRS :: "string list" where
  "IGNORED_DIRS = [''.context'', ''.git'']"

definition DENIED_DIRS :: "string list" where
  "DENIED_DIRS = [''node_modules'', ''dist'', ''build'', ''target'', ''vendor'',
                  ''__pycache__'', ''venv'']"

definition NOTE_EXTS :: "string list" where
  "NOTE_EXTS = [''md'', ''markdown'', ''mdx'', ''txt'', ''html'', ''htm'', ''canvas'', ''url'',
                ''webloc'']"

definition MAX_SEGMENT_BYTES :: nat where "MAX_SEGMENT_BYTES = 255"
definition MAX_PATH_BYTES :: nat where "MAX_PATH_BYTES = 1024"

definition control_char :: "char \<Rightarrow> bool" where
  "control_char c \<longleftrightarrow> (of_char c :: nat) < 32 \<or> (of_char c :: nat) = 127"

definition segmentOk :: "string \<Rightarrow> bool" where
  "segmentOk seg \<longleftrightarrow>
     seg \<noteq> [] \<and> seg \<noteq> ''.'' \<and> seg \<noteq> ''..'' \<and> \<not> starts_with ''.'' seg \<and>
     seg \<notin> set IGNORED_DIRS \<and> seg \<notin> set DENIED_DIRS \<and> length seg \<le> MAX_SEGMENT_BYTES"

definition segmentsOk :: "string \<Rightarrow> bool" where
  "segmentsOk path \<longleftrightarrow>
     (if path = [] \<or> length path > MAX_PATH_BYTES then False
      else if starts_with ''/'' path \<or> CHR 0x5C \<in> set path then False
      else if list_ex control_char path then False
      else list_all segmentOk (split_on (CHR ''/'') path))"

definition isSafeNotePath :: "string \<Rightarrow> bool" where
  "isSafeNotePath path \<longleftrightarrow>
     (if \<not> segmentsOk path then False
      else let i = last_index_of (CHR ''.'') path in
        if i \<le> 0 then False
        else to_lower_case (drop (nat (i + 1)) path) \<in> set NOTE_EXTS)"

definition isSafeTreeBinaryPath :: "string \<Rightarrow> bool" where
  "isSafeTreeBinaryPath path \<longleftrightarrow>
     (if \<not> segmentsOk path then False
      else let i = last_index_of (CHR ''.'') path in
        if i \<le> 0 then False
        else to_lower_case (drop (nat (i + 1)) path) \<notin> set NOTE_EXTS)"

definition isSafeFolderPath :: "string \<Rightarrow> bool" where
  "isSafeFolderPath path = segmentsOk path"

section \<open>Input and plan\<close>

text \<open>An absent optional field and a \<open>null\<close> one are both \<open>None\<close>: the planner tests them for
  truth only. \<open>inTombstones = None\<close> is "the server did not answer".\<close>

record inbound_input =
  inServer :: "(string, string) js_map"
  inTombstones :: "string js_set option"
  inBaseline :: "(string, string) js_map"
  inLocal :: "(string, string) js_map"
  inServerFolders :: "string js_set"
  inLocalFolders :: "string js_set"
  inFolderTombstones :: "string js_set option"
  inLocalFolderIds :: "(string, string) js_map option"
  inServerFolderIds :: "(string, string) js_map option"
  inAuthoritative :: bool
  inAuthoritativeRevoked :: "string js_set option"
  inLocalFiles :: "(string, string) js_map option"

record inbound_rename =
  rnDocId :: string
  rnFrom :: string
  rnTo :: string

datatype trash_reason = Deleted | Revoked

record inbound_trash =
  trDocId :: string
  trPath :: string
  trReason :: trash_reason
  trBinary :: bool

datatype reject_kind = RejRename | RejTrash | RejFolder

datatype reject_reason =
    UnsafeFolderPathFromServer
  | UnsafeLocalFolderPath
  | UnsafePathFromServer
  | DestinationOccupied string string
  | UnsafeLocalPath
  | OverFolderLimit nat nat
  | OverTrashLimit nat trash_reason nat
  | OverMoveLimit nat nat

record inbound_rejection =
  rjKind :: reject_kind
  rjPath :: string
  rjDocId :: "string option"
  rjReason :: reject_reason

record inbound_plan =
  createFolders :: "string list"
  removeFolders :: "string list"
  renames :: "inbound_rename list"
  trash :: "inbound_trash list"
  suppress :: "string js_set"
  stubs :: "string list"
  releaseClaims :: "string list"
  needsAccessCheck :: "string list"
  rejected :: "inbound_rejection list"

definition empty_plan :: inbound_plan where
  "empty_plan = \<lparr>createFolders = [], removeFolders = [], renames = [], trash = [],
     suppress = [], stubs = [], releaseClaims = [], needsAccessCheck = [], rejected = []\<rparr>"

definition reject :: "reject_kind \<Rightarrow> string \<Rightarrow> string option \<Rightarrow> reject_reason
    \<Rightarrow> inbound_plan \<Rightarrow> inbound_plan" where
  "reject kind path docId reason plan =
     plan\<lparr>rejected := rejected plan @
       [\<lparr>rjKind = kind, rjPath = path, rjDocId = docId, rjReason = reason\<rparr>]\<rparr>"

section \<open>Circuit breakers\<close>

text \<open>\<open>Math.ceil(mapped * 0.2)\<close>, \<open>0.5\<close> and \<open>0.3\<close> in double precision agree with the exact
  ceilings for every count a vault can have: the rounding error of the product stays below half
  a unit in the last place where the exact product is an integer, and elsewhere the product is
  at least a tenth away from one.\<close>

definition trashCap :: "nat \<Rightarrow> nat" where
  "trashCap mapped = max 5 ((mapped + 4) div 5)"

definition revokeCap :: "nat \<Rightarrow> nat" where
  "revokeCap mapped = max 20 ((mapped + 1) div 2)"

definition renameCap :: "nat \<Rightarrow> nat" where
  "renameCap mapped = max 20 ((3 * mapped + 9) div 10)"

definition depth :: "string \<Rightarrow> nat" where
  "depth p = length (split_on (CHR ''/'') p)"

section \<open>Folders\<close>

definition createFolderStep :: "(string \<Rightarrow> string) \<Rightarrow> inbound_input \<Rightarrow> string
    \<Rightarrow> inbound_plan \<Rightarrow> inbound_plan" where
  "createFolderStep nfc inp path plan =
     (if pathKey nfc path \<in> pathKey nfc ` set (inLocalFolders inp) then plan
      else if \<not> isSafeFolderPath path
      then reject RejFolder path None UnsafeFolderPathFromServer plan
      else plan\<lparr>createFolders := createFolders plan @ [path]\<rparr>)"

definition planCreateFolders :: "(string \<Rightarrow> string) \<Rightarrow> inbound_input \<Rightarrow> inbound_plan
    \<Rightarrow> inbound_plan" where
  "planCreateFolders nfc inp plan =
     (let p = fold (createFolderStep nfc inp) (inServerFolders inp) plan
      in p\<lparr>createFolders := sort_key depth (createFolders p)\<rparr>)"

definition movedFolderStep :: "(string \<Rightarrow> string) \<Rightarrow> inbound_input \<Rightarrow> (string, string) js_map
    \<Rightarrow> string \<times> string \<Rightarrow> inbound_plan \<Rightarrow> inbound_plan" where
  "movedFolderStep nfc inp serverIds = (\<lambda>(path, id) plan.
     case js_get serverIds id of
       None \<Rightarrow> plan
     | Some now \<Rightarrow>
         if samePath nfc now path then plan
         else if pathKey nfc path \<notin> pathKey nfc ` set (inLocalFolders inp) then plan
         else if pathKey nfc path \<in> pathKey nfc ` set (inServerFolders inp) then plan
         else if \<not> isSafeFolderPath path then plan
         else plan\<lparr>removeFolders := removeFolders plan @ [path]\<rparr>)"

definition planMovedFolders :: "(string \<Rightarrow> string) \<Rightarrow> inbound_input \<Rightarrow> inbound_plan
    \<Rightarrow> inbound_plan" where
  "planMovedFolders nfc inp plan =
     (case (inServerFolderIds inp, inLocalFolderIds inp) of
        (Some serverIds, Some localIds) \<Rightarrow> fold (movedFolderStep nfc inp serverIds) localIds plan
      | _ \<Rightarrow> plan)"

definition deletedFolderStep :: "(string \<Rightarrow> string) \<Rightarrow> inbound_input \<Rightarrow> string js_set
    \<Rightarrow> string \<times> string \<Rightarrow> inbound_plan \<Rightarrow> inbound_plan" where
  "deletedFolderStep nfc inp dead = (\<lambda>(path, id) plan.
     if id \<notin> set dead then plan
     else if pathKey nfc path \<notin> pathKey nfc ` set (inLocalFolders inp) then plan
     else if pathKey nfc path \<in> pathKey nfc ` set (inServerFolders inp) then plan
     else if \<not> isSafeFolderPath path
     then reject RejFolder path None UnsafeLocalFolderPath plan
     else plan\<lparr>removeFolders := removeFolders plan @ [path]\<rparr>)"

definition planDeletedFolders :: "(string \<Rightarrow> string) \<Rightarrow> inbound_input \<Rightarrow> inbound_plan
    \<Rightarrow> inbound_plan" where
  "planDeletedFolders nfc inp plan =
     (case (inFolderTombstones inp, inLocalFolderIds inp) of
        (Some dead, Some localIds) \<Rightarrow> fold (deletedFolderStep nfc inp dead) localIds plan
      | _ \<Rightarrow> plan)"

definition revokedFolderStep :: "(string \<Rightarrow> string) \<Rightarrow> inbound_input \<Rightarrow> string js_set
    \<Rightarrow> (string, string) js_map \<Rightarrow> string \<times> string \<Rightarrow> string list \<times> inbound_plan
    \<Rightarrow> string list \<times> inbound_plan" where
  "revokedFolderStep nfc inp dead serverIds = (\<lambda>(path, id) (revoked, plan).
     if js_has serverIds id then (revoked, plan)
     else if id \<in> set dead then (revoked, plan)
     else if pathKey nfc path \<notin> pathKey nfc ` set (inLocalFolders inp) then (revoked, plan)
     else if pathKey nfc path \<in> pathKey nfc ` set (inServerFolders inp) then (revoked, plan)
     else if \<not> isSafeFolderPath path
     then (revoked, reject RejFolder path None UnsafeLocalFolderPath plan)
     else (revoked @ [path], plan))"

definition planRevokedFolders :: "(string \<Rightarrow> string) \<Rightarrow> inbound_input \<Rightarrow> inbound_plan
    \<Rightarrow> inbound_plan" where
  "planRevokedFolders nfc inp plan =
     (case (inFolderTombstones inp, inServerFolderIds inp, inLocalFolderIds inp) of
        (Some dead, Some serverIds, Some localIds) \<Rightarrow>
          (let (revoked, p) = fold (revokedFolderStep nfc inp dead serverIds) localIds ([], plan);
               cap = revokeCap (length localIds);
               folderLift = inAuthoritative inp
           in if \<not> folderLift \<and> length revoked > cap
              then fold (\<lambda>path. reject RejFolder path None (OverFolderLimit (length revoked) cap))
                     revoked p
              else p\<lparr>removeFolders := removeFolders p @ revoked\<rparr>)
      | _ \<Rightarrow> plan)"

definition planFolders :: "(string \<Rightarrow> string) \<Rightarrow> inbound_input \<Rightarrow> inbound_plan \<Rightarrow> inbound_plan" where
  "planFolders nfc inp plan =
     (let p = planRevokedFolders nfc inp
                (planDeletedFolders nfc inp
                  (planMovedFolders nfc inp (planCreateFolders nfc inp plan)))
      in p\<lparr>removeFolders := sort_key (\<lambda>path. - int (depth path)) (removeFolders p)\<rparr>)"

section \<open>Notes\<close>

definition pushRename :: "(string \<Rightarrow> string) \<Rightarrow> string set \<Rightarrow> string \<Rightarrow> string \<Rightarrow> string
    \<Rightarrow> inbound_plan \<Rightarrow> inbound_plan" where
  "pushRename nfc localPaths docId from to plan =
     (if from = to then plan
      else if \<not> isSafeNotePath to then reject RejRename to (Some docId) UnsafePathFromServer plan
      else if pathKey nfc to \<in> localPaths
      then reject RejRename to (Some docId) (DestinationOccupied to from) plan
      else plan\<lparr>renames := renames plan @ [\<lparr>rnDocId = docId, rnFrom = from, rnTo = to\<rparr>]\<rparr>)"

definition pushTrash :: "string \<Rightarrow> string \<Rightarrow> trash_reason \<Rightarrow> bool \<Rightarrow> inbound_plan \<Rightarrow> inbound_plan" where
  "pushTrash docId path reason binary plan =
     (if \<not> (if binary then isSafeTreeBinaryPath path else isSafeNotePath path)
      then reject RejTrash path (Some docId) UnsafeLocalPath plan
      else plan\<lparr>trash := trash plan @
             [\<lparr>trDocId = docId, trPath = path, trReason = reason, trBinary = binary\<rparr>]\<rparr>)"

definition addSuppress :: "string \<Rightarrow> inbound_plan \<Rightarrow> inbound_plan" where
  "addSuppress path plan = plan\<lparr>suppress := js_add path (suppress plan)\<rparr>"

definition localPathKeys :: "(string \<Rightarrow> string) \<Rightarrow> inbound_input \<Rightarrow> string set" where
  "localPathKeys nfc inp = pathKey nfc ` snd ` set (inLocal inp)"

definition livePathKeys :: "(string \<Rightarrow> string) \<Rightarrow> inbound_input \<Rightarrow> string set" where
  "livePathKeys nfc inp =
     (\<lambda>(docId, path). pathKey nfc path) `
       set (filter (\<lambda>(docId, path). case js_get (inServer inp) docId of
                      None \<Rightarrow> False | Some srv \<Rightarrow> samePath nfc srv path) (inLocal inp))"

definition candidateDocIds :: "inbound_input \<Rightarrow> string js_set" where
  "candidateDocIds inp =
     (let ids = js_set_of (js_keys (inBaseline inp) @ js_keys (inServer inp)) in
      case inTombstones inp of
        None \<Rightarrow> ids
      | Some dead \<Rightarrow> fold js_add (filter (\<lambda>docId. docId \<in> set dead) (js_keys (inLocal inp))) ids)"

definition isDead :: "inbound_input \<Rightarrow> string \<Rightarrow> bool" where
  "isDead inp docId = (case inTombstones inp of None \<Rightarrow> False | Some dead \<Rightarrow> docId \<in> set dead)"

definition planNote :: "(string \<Rightarrow> string) \<Rightarrow> inbound_input \<Rightarrow> string \<Rightarrow> inbound_plan
    \<Rightarrow> inbound_plan" where
  "planNote nfc inp docId plan =
     (let prev = js_get (inBaseline inp) docId;
          srv = js_get (inServer inp) docId;
          loc = js_get (inLocal inp) docId;
          dead = isDead inp docId
      in case srv of
        Some s \<Rightarrow>
          (case loc of
             None \<Rightarrow> plan
           | Some l \<Rightarrow>
               if samePath nfc l s then plan
               else (case prev of
                 None \<Rightarrow> plan
               | Some p \<Rightarrow>
                   if samePath nfc l p then pushRename nfc (localPathKeys nfc inp) docId l s plan
                   else if samePath nfc s p then plan
                   else pushRename nfc (localPathKeys nfc inp) docId l s plan))
      | None \<Rightarrow>
          (case prev of
             None \<Rightarrow>
               (case loc of
                  Some l \<Rightarrow> if dead then pushTrash docId l Deleted False (addSuppress l plan) else plan
                | None \<Rightarrow> plan)
           | Some p \<Rightarrow>
               if dead then
                 (case loc of
                    None \<Rightarrow>
                      if pathKey nfc p \<in> livePathKeys nfc inp
                      then plan\<lparr>releaseClaims := releaseClaims plan @ [docId]\<rparr>
                      else if pathKey nfc p \<in> localPathKeys nfc inp
                      then (addSuppress p plan)\<lparr>stubs := stubs plan @ [p]\<rparr>
                      else plan
                  | Some l \<Rightarrow> pushTrash docId l Deleted False (addSuppress l plan))
               else
                 (case loc of
                    None \<Rightarrow> plan
                  | Some l \<Rightarrow>
                      if inTombstones inp \<noteq> None
                      then pushTrash docId l Revoked False (addSuppress l plan)
                      else addSuppress l plan)))"

definition planNotes :: "(string \<Rightarrow> string) \<Rightarrow> inbound_input \<Rightarrow> inbound_plan \<Rightarrow> inbound_plan" where
  "planNotes nfc inp plan = fold (planNote nfc inp) (candidateDocIds inp) plan"

section \<open>Tree binaries\<close>

definition planBinary :: "string js_set \<Rightarrow> string \<times> string \<Rightarrow> inbound_plan \<Rightarrow> inbound_plan" where
  "planBinary named = (\<lambda>(docId, relPath) plan.
     if docId \<notin> set named then plan else pushTrash docId relPath Revoked True plan)"

definition planBinaries :: "inbound_input \<Rightarrow> inbound_plan \<Rightarrow> inbound_plan" where
  "planBinaries inp plan =
     (if inAuthoritative inp then
        (case (inAuthoritativeRevoked inp, inLocalFiles inp) of
           (Some named, Some files) \<Rightarrow> fold (planBinary named) files plan
         | _ \<Rightarrow> plan)
      else plan)"

section \<open>Applying the breakers\<close>

definition exempt :: "bool \<Rightarrow> string js_set option \<Rightarrow> inbound_trash \<Rightarrow> bool" where
  "exempt authoritative namedRevoked t =
     (if authoritative then
        (case namedRevoked of
           None \<Rightarrow> trReason t = Revoked
         | Some named \<Rightarrow> trReason t = Revoked \<and> trDocId t \<in> set named)
      else False)"

definition capTrash :: "(inbound_trash \<Rightarrow> bool) \<Rightarrow> trash_reason \<Rightarrow> nat \<Rightarrow> inbound_plan
    \<Rightarrow> inbound_plan" where
  "capTrash ex reason cap plan =
     (let group = filter (\<lambda>t. trReason t = reason \<and> \<not> ex t) (trash plan) in
      if length group \<le> cap then plan
      else
        (let p = fold (\<lambda>t. reject RejTrash (trPath t) (Some (trDocId t))
                          (OverTrashLimit (length group) reason cap)) group plan
         in p\<lparr>trash := filter (\<lambda>t. \<not> (trReason t = reason \<and> \<not> ex t)) (trash plan)\<rparr>))"

definition flagAccessChecks :: "nat \<Rightarrow> nat \<Rightarrow> inbound_plan \<Rightarrow> inbound_plan" where
  "flagAccessChecks allRevoked mapped plan =
     (let revokedIds = map trDocId (filter (\<lambda>t. trReason t = Revoked) (trash plan));
          needs = (if allRevoked > revokeCap mapped then revokedIds else needsAccessCheck plan);
          owed = fold (\<lambda>t owed. if trBinary t \<and> trReason t = Revoked
                                then js_add (trDocId t) owed else owed)
                   (trash plan) (js_set_of needs)
      in plan\<lparr>needsAccessCheck := owed\<rparr>)"

definition capRenames :: "nat \<Rightarrow> inbound_plan \<Rightarrow> inbound_plan" where
  "capRenames mapped plan =
     (let rCap = renameCap mapped in
      if length (renames plan) > rCap
      then (fold (\<lambda>r. reject RejRename (rnTo r) (Some (rnDocId r))
                        (OverMoveLimit (length (renames plan)) rCap)) (renames plan) plan)
             \<lparr>renames := []\<rparr>
      else plan)"

definition applyBreakers :: "nat \<Rightarrow> bool \<Rightarrow> string js_set option \<Rightarrow> inbound_plan \<Rightarrow> inbound_plan" where
  "applyBreakers mapped authoritative namedRevoked plan =
     (let allRevoked = length (filter (\<lambda>t. trReason t = Revoked) (trash plan));
          ex = exempt authoritative namedRevoked
      in capRenames mapped
           (flagAccessChecks allRevoked mapped
             (capTrash ex Revoked (revokeCap mapped)
               (capTrash ex Deleted (trashCap mapped) plan))))"

definition planDraft :: "(string \<Rightarrow> string) \<Rightarrow> inbound_input \<Rightarrow> inbound_plan" where
  "planDraft nfc inp =
     (let p = planBinaries inp (planNotes nfc inp (planFolders nfc inp empty_plan))
      in p\<lparr>trash := sort_key (\<lambda>t. - int (depth (trPath t))) (trash p)\<rparr>)"

definition planInbound :: "(string \<Rightarrow> string) \<Rightarrow> inbound_input \<Rightarrow> inbound_plan" where
  "planInbound nfc inp =
     applyBreakers (length (inBaseline inp)) (inAuthoritative inp) (inAuthoritativeRevoked inp)
       (planDraft nfc inp)"

end
