(* ===== verification/Inbound_Props.thy ===== *)
theory Inbound_Props
  imports Inbound
begin

text \<open>
  What the inbound planner guarantees. The first part characterises each phase's effect on the
  plan's fields exactly (\<open>trash_planNotes\<close>, \<open>renames_planNotes\<close>, \<open>trash_capTrash\<close> ...); the
  properties are then read off the composition. None of them assumes anything of the listing:
  the input is arbitrary.
\<close>

named_theorems plan_frame "fields a phase of the planner leaves alone"

section \<open>Frames\<close>

lemma reject_frame [plan_frame]:
  "createFolders (reject k p d r plan) = createFolders plan"
  "removeFolders (reject k p d r plan) = removeFolders plan"
  "renames (reject k p d r plan) = renames plan"
  "trash (reject k p d r plan) = trash plan"
  "suppress (reject k p d r plan) = suppress plan"
  "stubs (reject k p d r plan) = stubs plan"
  "releaseClaims (reject k p d r plan) = releaseClaims plan"
  "needsAccessCheck (reject k p d r plan) = needsAccessCheck plan"
  by (simp_all add: reject_def)

lemma rejected_reject [simp]:
  "rejected (reject k p d r plan) =
     rejected plan @ [\<lparr>rjKind = k, rjPath = p, rjDocId = d, rjReason = r\<rparr>]"
  by (simp add: reject_def)

lemma fold_reject_frame [plan_frame]:
  "createFolders (fold (\<lambda>x. reject (k x) (p x) (d x) (r x)) xs plan) = createFolders plan"
  "removeFolders (fold (\<lambda>x. reject (k x) (p x) (d x) (r x)) xs plan) = removeFolders plan"
  "renames (fold (\<lambda>x. reject (k x) (p x) (d x) (r x)) xs plan) = renames plan"
  "trash (fold (\<lambda>x. reject (k x) (p x) (d x) (r x)) xs plan) = trash plan"
  "suppress (fold (\<lambda>x. reject (k x) (p x) (d x) (r x)) xs plan) = suppress plan"
  "needsAccessCheck (fold (\<lambda>x. reject (k x) (p x) (d x) (r x)) xs plan) = needsAccessCheck plan"
  by (rule fold_measure_eq; simp add: plan_frame)+

lemma rejected_fold_reject:
  "rejected (fold (\<lambda>x. reject (k x) (p x) (d x) (r x)) xs plan) =
     rejected plan @ map (\<lambda>x. \<lparr>rjKind = k x, rjPath = p x, rjDocId = d x, rjReason = r x\<rparr>) xs"
  by (induction xs arbitrary: plan) auto

lemma planCreateFolders_frame [plan_frame]:
  "trash (planCreateFolders nfc inp plan) = trash plan"
  "renames (planCreateFolders nfc inp plan) = renames plan"
  "suppress (planCreateFolders nfc inp plan) = suppress plan"
  "removeFolders (planCreateFolders nfc inp plan) = removeFolders plan"
  by (auto simp: planCreateFolders_def Let_def createFolderStep_def plan_frame intro!: fold_measure_eq)

lemma planMovedFolders_frame [plan_frame]:
  "trash (planMovedFolders nfc inp plan) = trash plan"
  "renames (planMovedFolders nfc inp plan) = renames plan"
  "suppress (planMovedFolders nfc inp plan) = suppress plan"
  "createFolders (planMovedFolders nfc inp plan) = createFolders plan"
  "rejected (planMovedFolders nfc inp plan) = rejected plan"
  by (auto simp: planMovedFolders_def movedFolderStep_def plan_frame
           split: option.splits prod.splits intro!: fold_measure_eq)

lemma planDeletedFolders_frame [plan_frame]:
  "trash (planDeletedFolders nfc inp plan) = trash plan"
  "renames (planDeletedFolders nfc inp plan) = renames plan"
  "suppress (planDeletedFolders nfc inp plan) = suppress plan"
  "createFolders (planDeletedFolders nfc inp plan) = createFolders plan"
  by (auto simp: planDeletedFolders_def deletedFolderStep_def plan_frame
           split: option.splits prod.splits intro!: fold_measure_eq)

lemma revoked_fold_frame [plan_frame]:
  "trash (snd (fold (revokedFolderStep nfc inp dead ids) xs acc)) = trash (snd acc)"
  "renames (snd (fold (revokedFolderStep nfc inp dead ids) xs acc)) = renames (snd acc)"
  "suppress (snd (fold (revokedFolderStep nfc inp dead ids) xs acc)) = suppress (snd acc)"
  "createFolders (snd (fold (revokedFolderStep nfc inp dead ids) xs acc)) = createFolders (snd acc)"
  "removeFolders (snd (fold (revokedFolderStep nfc inp dead ids) xs acc)) = removeFolders (snd acc)"
  by (rule fold_measure_eq; auto simp: revokedFolderStep_def plan_frame split: prod.splits)+

lemma planRevokedFolders_frame [plan_frame]:
  "trash (planRevokedFolders nfc inp plan) = trash plan"
  "renames (planRevokedFolders nfc inp plan) = renames plan"
  "suppress (planRevokedFolders nfc inp plan) = suppress plan"
  "createFolders (planRevokedFolders nfc inp plan) = createFolders plan"
  by (auto simp: planRevokedFolders_def plan_frame Let_def case_prod_beta split: option.splits)

lemma planFolders_frame [plan_frame]:
  "trash (planFolders nfc inp plan) = trash plan"
  "renames (planFolders nfc inp plan) = renames plan"
  "suppress (planFolders nfc inp plan) = suppress plan"
  "createFolders (planFolders nfc inp plan) = createFolders (planCreateFolders nfc inp plan)"
  by (simp_all add: planFolders_def Let_def plan_frame)

lemma push_frame [plan_frame]:
  "createFolders (pushRename nfc lp d f t plan) = createFolders plan"
  "removeFolders (pushRename nfc lp d f t plan) = removeFolders plan"
  "trash (pushRename nfc lp d f t plan) = trash plan"
  "suppress (pushRename nfc lp d f t plan) = suppress plan"
  "createFolders (pushTrash d p r b plan) = createFolders plan"
  "removeFolders (pushTrash d p r b plan) = removeFolders plan"
  "renames (pushTrash d p r b plan) = renames plan"
  "suppress (pushTrash d p r b plan) = suppress plan"
  "createFolders (addSuppress p plan) = createFolders plan"
  "removeFolders (addSuppress p plan) = removeFolders plan"
  "renames (addSuppress p plan) = renames plan"
  "trash (addSuppress p plan) = trash plan"
  "rejected (addSuppress p plan) = rejected plan"
  by (simp_all add: pushRename_def pushTrash_def addSuppress_def plan_frame)

lemma planNotes_frame [plan_frame]:
  "createFolders (planNotes nfc inp plan) = createFolders plan"
  "removeFolders (planNotes nfc inp plan) = removeFolders plan"
  unfolding planNotes_def
  by (rule fold_measure_eq; simp add: planNote_def Let_def plan_frame split: option.splits)+

lemma planBinaries_frame [plan_frame]:
  "createFolders (planBinaries inp plan) = createFolders plan"
  "removeFolders (planBinaries inp plan) = removeFolders plan"
  "renames (planBinaries inp plan) = renames plan"
  "suppress (planBinaries inp plan) = suppress plan"
  by (auto simp: planBinaries_def planBinary_def plan_frame
           split: option.splits prod.splits intro!: fold_measure_eq)

lemma breaker_frame [plan_frame]:
  "createFolders (capTrash ex r cap plan) = createFolders plan"
  "removeFolders (capTrash ex r cap plan) = removeFolders plan"
  "renames (capTrash ex r cap plan) = renames plan"
  "suppress (capTrash ex r cap plan) = suppress plan"
  "needsAccessCheck (capTrash ex r cap plan) = needsAccessCheck plan"
  "createFolders (flagAccessChecks n m plan) = createFolders plan"
  "removeFolders (flagAccessChecks n m plan) = removeFolders plan"
  "renames (flagAccessChecks n m plan) = renames plan"
  "trash (flagAccessChecks n m plan) = trash plan"
  "suppress (flagAccessChecks n m plan) = suppress plan"
  "rejected (flagAccessChecks n m plan) = rejected plan"
  "createFolders (capRenames m plan) = createFolders plan"
  "removeFolders (capRenames m plan) = removeFolders plan"
  "trash (capRenames m plan) = trash plan"
  "suppress (capRenames m plan) = suppress plan"
  "needsAccessCheck (capRenames m plan) = needsAccessCheck plan"
  by (simp_all add: capTrash_def flagAccessChecks_def capRenames_def Let_def plan_frame)


section \<open>What each phase adds\<close>

text \<open>When the planner wants a note's file off this disk: the server no longer lists the doc
  and the disk holds a note under its id, which the server tombstoned, or which left the
  readable set after having been agreed.\<close>

definition noteLeaves :: "inbound_input \<Rightarrow> string \<Rightarrow> string \<Rightarrow> trash_reason \<Rightarrow> bool" where
  "noteLeaves inp docId path reason \<longleftrightarrow>
     js_get (inServer inp) docId = None \<and> js_get (inLocal inp) docId = Some path \<and>
     (reason = Deleted \<and> isDead inp docId \<or>
      reason = Revoked \<and> \<not> isDead inp docId \<and> js_get (inBaseline inp) docId \<noteq> None \<and>
        inTombstones inp \<noteq> None)"

definition noteTrash :: "string \<Rightarrow> string \<Rightarrow> trash_reason \<Rightarrow> inbound_trash" where
  "noteTrash docId path reason =
     \<lparr>trDocId = docId, trPath = path, trReason = reason, trBinary = False\<rparr>"

definition noteMoves :: "(string \<Rightarrow> string) \<Rightarrow> inbound_input \<Rightarrow> string \<Rightarrow> string \<Rightarrow> string \<Rightarrow> bool" where
  "noteMoves nfc inp docId from to \<longleftrightarrow>
     js_get (inServer inp) docId = Some to \<and> js_get (inLocal inp) docId = Some from \<and>
     \<not> samePath nfc from to \<and>
     (\<exists>p. js_get (inBaseline inp) docId = Some p \<and> \<not> samePath nfc to p)"

lemma trash_pushTrash:
  "set (trash (pushTrash d p r b plan)) =
     (if (if b then isSafeTreeBinaryPath p else isSafeNotePath p)
      then insert \<lparr>trDocId = d, trPath = p, trReason = r, trBinary = b\<rparr> (set (trash plan))
      else set (trash plan))"
  by (simp add: pushTrash_def plan_frame)

lemma trash_planNote:
  "set (trash (planNote nfc inp docId plan)) =
     set (trash plan) \<union> {noteTrash docId l r | l r. noteLeaves inp docId l r \<and> isSafeNotePath l}"
  unfolding planNote_def Let_def noteLeaves_def noteTrash_def
  by (cases "isDead inp docId")
     (auto simp: plan_frame trash_pushTrash split: option.splits if_splits)

lemma trash_planNotes:
  "set (trash (planNotes nfc inp plan)) =
     set (trash plan) \<union> {noteTrash d l r | d l r.
        d \<in> set (candidateDocIds inp) \<and> noteLeaves inp d l r \<and> isSafeNotePath l}"
proof -
  have "set (trash (fold (planNote nfc inp) ids plan)) =
     set (trash plan) \<union> {noteTrash d l r | d l r. d \<in> set ids \<and> noteLeaves inp d l r \<and> isSafeNotePath l}"
    for ids by (induction ids arbitrary: plan) (auto simp: trash_planNote)
  then show ?thesis by (simp add: planNotes_def)
qed

lemma candidate_iff:
  "d \<in> set (candidateDocIds inp) \<longleftrightarrow>
     js_get (inBaseline inp) d \<noteq> None \<or> js_get (inServer inp) d \<noteq> None \<or>
     isDead inp d \<and> js_get (inLocal inp) d \<noteq> None"
  by (auto simp: candidateDocIds_def isDead_def js_keys_def Let_def map_of_eq_None_iff
           split: option.splits)

lemma noteLeaves_candidate: "noteLeaves inp d l r \<Longrightarrow> d \<in> set (candidateDocIds inp)"
  by (auto simp: noteLeaves_def candidate_iff)

lemma trash_planBinaries:
  "set (trash (planBinaries inp plan)) =
     set (trash plan) \<union>
     {\<lparr>trDocId = d, trPath = p, trReason = Revoked, trBinary = True\<rparr> | d p.
        inAuthoritative inp \<and> isSafeTreeBinaryPath p \<and>
        (\<exists>named files. inAuthoritativeRevoked inp = Some named \<and> inLocalFiles inp = Some files \<and>
           d \<in> set named \<and> (d, p) \<in> set files)}"
proof -
  have "set (trash (fold (planBinary named) files plan)) =
     set (trash plan) \<union>
     {\<lparr>trDocId = d, trPath = p, trReason = Revoked, trBinary = True\<rparr> | d p.
        isSafeTreeBinaryPath p \<and> d \<in> set named \<and> (d, p) \<in> set files}"
    for named files
    by (induction files arbitrary: plan) (auto simp: planBinary_def trash_pushTrash split: if_splits)
  then show ?thesis
    by (auto simp: planBinaries_def split: option.splits)
qed

lemma pushRename_renames:
  "set (renames (pushRename nfc lp d f t plan)) =
     (if f \<noteq> t \<and> isSafeNotePath t \<and> pathKey nfc t \<notin> lp
      then insert \<lparr>rnDocId = d, rnFrom = f, rnTo = t\<rparr> (set (renames plan))
      else set (renames plan))"
  by (auto simp: pushRename_def plan_frame)

lemma renames_planNote:
  "set (renames (planNote nfc inp docId plan)) =
     set (renames plan) \<union>
     {\<lparr>rnDocId = docId, rnFrom = f, rnTo = t\<rparr> | f t.
        noteMoves nfc inp docId f t \<and> isSafeNotePath t \<and> pathKey nfc t \<notin> localPathKeys nfc inp}"
  unfolding planNote_def Let_def noteMoves_def
  by (auto simp: plan_frame pushRename_renames split: option.splits if_splits)

lemma renames_planNotes:
  "set (renames (planNotes nfc inp plan)) =
     set (renames plan) \<union>
     {\<lparr>rnDocId = d, rnFrom = f, rnTo = t\<rparr> | d f t.
        d \<in> set (candidateDocIds inp) \<and> noteMoves nfc inp d f t \<and> isSafeNotePath t \<and>
        pathKey nfc t \<notin> localPathKeys nfc inp}"
proof -
  have "set (renames (fold (planNote nfc inp) ids plan)) =
     set (renames plan) \<union>
     {\<lparr>rnDocId = d, rnFrom = f, rnTo = t\<rparr> | d f t.
        d \<in> set ids \<and> noteMoves nfc inp d f t \<and> isSafeNotePath t \<and>
        pathKey nfc t \<notin> localPathKeys nfc inp}"
    for ids by (induction ids arbitrary: plan) (auto simp: renames_planNote)
  then show ?thesis by (simp add: planNotes_def)
qed

lemma suppress_planNote_mono: "set (suppress plan) \<subseteq> set (suppress (planNote nfc inp d plan))"
  by (auto simp: planNote_def Let_def plan_frame addSuppress_def split: option.splits)

lemma suppress_fold_mono:
  "set (suppress plan) \<subseteq> set (suppress (fold (planNote nfc inp) ids plan))"
proof (induction ids arbitrary: plan)
  case (Cons d ids)
  then show ?case using suppress_planNote_mono [of plan nfc inp d] by fastforce
qed simp

lemma suppress_planNote:
  assumes "js_get (inServer inp) d = None" and "js_get (inLocal inp) d = Some l"
    and "js_get (inBaseline inp) d \<noteq> None \<or> isDead inp d"
  shows "l \<in> set (suppress (planNote nfc inp d plan))"
  using assms by (auto simp: planNote_def Let_def plan_frame addSuppress_def split: option.splits)

lemma suppress_planNotes:
  assumes "js_get (inServer inp) d = None" and "js_get (inLocal inp) d = Some l"
    and "js_get (inBaseline inp) d \<noteq> None \<or> isDead inp d"
  shows "l \<in> set (suppress (planNotes nfc inp plan))"
proof -
  have "d \<in> set (candidateDocIds inp)" using assms by (auto simp: candidate_iff)
  then obtain xs ys where ids: "candidateDocIds inp = xs @ d # ys" by (auto dest: split_list)
  let ?p = "planNote nfc inp d (fold (planNote nfc inp) xs plan)"
  have "l \<in> set (suppress ?p)" using assms by (rule suppress_planNote)
  then have "l \<in> set (suppress (fold (planNote nfc inp) ys ?p))"
    using suppress_fold_mono by blast
  then show ?thesis by (simp add: planNotes_def ids)
qed

section \<open>The breakers\<close>

lemma trash_capTrash_subset: "set (trash (capTrash ex r cap plan)) \<subseteq> set (trash plan)"
  by (auto simp: capTrash_def Let_def)

lemma capTrash_bound:
  "length (filter (\<lambda>t. trReason t = r \<and> \<not> ex t) (trash (capTrash ex r cap plan))) \<le> cap"
  by (auto simp: capTrash_def Let_def conj_commute)

lemma length_filter_filter_le: "length (filter P (filter Q xs)) \<le> length (filter P xs)"
  by (induction xs) auto

lemma capTrash_le:
  "length (filter P (trash (capTrash ex r cap plan))) \<le> length (filter P (trash plan))"
  by (auto simp: capTrash_def Let_def intro: length_filter_filter_le simp del: filter_filter)

lemma trash_applyBreakers:
  "trash (applyBreakers m a named plan) =
     trash (capTrash (exempt a named) Revoked (revokeCap m)
       (capTrash (exempt a named) Deleted (trashCap m) plan))"
  by (simp add: applyBreakers_def Let_def plan_frame)

lemma exempt_Revoked: "exempt a named t \<Longrightarrow> trReason t = Revoked"
  by (auto simp: exempt_def split: if_splits option.splits)

lemma owed_fold:
  "set (fold (\<lambda>t owed. if trBinary t \<and> trReason t = Revoked then js_add (trDocId t) owed else owed)
          ts owed) =
     set owed \<union> trDocId ` {t \<in> set ts. trBinary t \<and> trReason t = Revoked}"
  by (induction ts arbitrary: owed) auto

lemma needs_flagAccessChecks:
  "set (needsAccessCheck (flagAccessChecks n m plan)) =
     (if n > revokeCap m then trDocId ` {t \<in> set (trash plan). trReason t = Revoked}
      else set (needsAccessCheck plan)) \<union>
     trDocId ` {t \<in> set (trash plan). trBinary t \<and> trReason t = Revoked}"
  by (simp add: flagAccessChecks_def Let_def owed_fold)

lemma needs_applyBreakers:
  "set (needsAccessCheck (applyBreakers m a named plan)) =
     (if length (filter (\<lambda>t. trReason t = Revoked) (trash plan)) > revokeCap m
      then trDocId ` {t \<in> set (trash (applyBreakers m a named plan)). trReason t = Revoked}
      else set (needsAccessCheck plan)) \<union>
     trDocId ` {t \<in> set (trash (applyBreakers m a named plan)). trBinary t \<and> trReason t = Revoked}"
  by (simp add: applyBreakers_def Let_def plan_frame needs_flagAccessChecks)

lemma renames_applyBreakers:
  "renames (applyBreakers m a named plan) =
     (if length (renames plan) > renameCap m then [] else renames plan)"
  by (simp add: applyBreakers_def capRenames_def Let_def plan_frame)

end
