(* ===== verification/Inbound_Complete.thy ===== *)
theory Inbound_Complete
  imports Inbound_Props
begin

text \<open>
  Nothing the planner decides is dropped silently: every phase only ever appends to the
  rejections (\<open>rejected_mono\<close>), and an entry that a breaker removes leaves a rejection
  naming it (\<open>capTrash_or_rejected\<close>).
\<close>

definition rejects_trash :: "inbound_plan \<Rightarrow> string \<Rightarrow> bool" where
  "rejects_trash plan d \<longleftrightarrow> (\<exists>r \<in> set (rejected plan). rjKind r = RejTrash \<and> rjDocId r = Some d)"

definition settled_trash :: "inbound_plan \<Rightarrow> string \<Rightarrow> bool" where
  "settled_trash plan d \<longleftrightarrow> (\<exists>t \<in> set (trash plan). trDocId t = d) \<or> rejects_trash plan d"

definition grows :: "inbound_plan \<Rightarrow> inbound_plan \<Rightarrow> bool" where
  "grows p q \<longleftrightarrow> set (trash p) \<subseteq> set (trash q) \<and> set (rejected p) \<subseteq> set (rejected q)"

lemma grows_refl [simp]: "grows p p"
  by (simp add: grows_def)

lemma grows_trans: "grows p q \<Longrightarrow> grows q r \<Longrightarrow> grows p r"
  by (auto simp: grows_def)

lemma settled_grows: "settled_trash p d \<Longrightarrow> grows p q \<Longrightarrow> settled_trash q d"
  by (auto simp: settled_trash_def rejects_trash_def grows_def)

lemma grows_pushTrash: "grows plan (pushTrash d p r b plan)"
  by (auto simp: grows_def pushTrash_def plan_frame)

lemma grows_planNote: "grows plan (planNote nfc inp d plan)"
  by (auto simp: grows_def planNote_def Let_def plan_frame pushRename_def pushTrash_def addSuppress_def
           split: option.splits)

lemma grows_fold: "(\<And>x p. grows p (f x p)) \<Longrightarrow> grows p (fold f xs p)"
proof (induction xs arbitrary: p)
  case (Cons x xs)
  then show ?case using grows_trans [of p "f x p"] by simp
qed simp

lemma grows_planBinaries: "grows plan (planBinaries inp plan)"
  by (auto simp: planBinaries_def planBinary_def grows_pushTrash split: option.splits intro!: grows_fold)

lemma settled_pushTrash: "settled_trash (pushTrash d p r b plan) d"
  by (auto simp: settled_trash_def rejects_trash_def pushTrash_def)

lemma settled_planNote:
  assumes "noteLeaves inp d l r"
  shows "settled_trash (planNote nfc inp d plan) d"
  using assms
  by (auto simp: noteLeaves_def planNote_def Let_def settled_pushTrash split: option.splits)

lemma settled_planNotes:
  assumes "noteLeaves inp d l r"
  shows "settled_trash (planNotes nfc inp plan) d"
proof -
  obtain xs ys where ids: "candidateDocIds inp = xs @ d # ys"
    using noteLeaves_candidate [OF assms] by (auto dest: split_list)
  have "grows (planNote nfc inp d (fold (planNote nfc inp) xs plan)) (planNotes nfc inp plan)"
    by (simp add: planNotes_def ids grows_fold grows_planNote)
  then show ?thesis using settled_planNote [OF assms] settled_grows by blast
qed

lemma settled_capTrash:
  assumes "settled_trash plan d"
  shows "settled_trash (capTrash ex r cap plan) d"
  using assms
  by (force simp: settled_trash_def rejects_trash_def capTrash_def Let_def rejected_fold_reject)

lemma settled_applyBreakers:
  assumes "settled_trash plan d"
  shows "settled_trash (applyBreakers m a named plan) d"
proof -
  let ?p = "capTrash (exempt a named) Revoked (revokeCap m)
      (capTrash (exempt a named) Deleted (trashCap m) plan)"
  have "settled_trash ?p d" by (intro settled_capTrash assms)
  moreover have "trash (flagAccessChecks n m ?p) = trash ?p"
    "rejected (flagAccessChecks n m ?p) = rejected ?p" for n by (simp_all add: plan_frame)
  ultimately show ?thesis
    by (auto simp: settled_trash_def rejects_trash_def applyBreakers_def capRenames_def Let_def
          plan_frame rejected_fold_reject)
qed

lemma settled_planDraft:
  "noteLeaves inp d l r \<Longrightarrow> settled_trash (planDraft nfc inp) d"
  using settled_grows [OF settled_planNotes grows_planBinaries]
  by (force simp: planDraft_def Let_def settled_trash_def rejects_trash_def)

section \<open>Folders\<close>

lemma createFolders_reject_fold:
  "createFolders (fold (createFolderStep nfc inp) xs plan) =
     createFolders plan @
     filter (\<lambda>p. pathKey nfc p \<notin> pathKey nfc ` set (inLocalFolders inp) \<and> isSafeFolderPath p) xs"
  by (induction xs arbitrary: plan) (auto simp: createFolderStep_def plan_frame)

lemma createFolders_planInbound:
  "createFolders (planInbound nfc inp) =
     sort_key depth
       (filter (\<lambda>p. pathKey nfc p \<notin> pathKey nfc ` set (inLocalFolders inp) \<and> isSafeFolderPath p)
         (inServerFolders inp))"
  by (simp add: planInbound_def applyBreakers_def planDraft_def Let_def plan_frame
        planCreateFolders_def createFolders_reject_fold empty_plan_def)

text \<open>Why a folder may be removed: the disk holds it under its server identity, no live server
  folder occupies its path, and the server moved it, deleted it or stopped listing it.\<close>

definition folderGoes :: "(string \<Rightarrow> string) \<Rightarrow> inbound_input \<Rightarrow> string \<Rightarrow> bool" where
  "folderGoes nfc inp path \<longleftrightarrow>
     isSafeFolderPath path \<and>
     pathKey nfc path \<in> pathKey nfc ` set (inLocalFolders inp) \<and>
     pathKey nfc path \<notin> pathKey nfc ` set (inServerFolders inp) \<and>
     (\<exists>ids id. inLocalFolderIds inp = Some ids \<and> (path, id) \<in> set ids \<and>
        (inServerFolderIds inp \<noteq> None \<and> \<comment> \<open>moved\<close>
           (\<exists>now. js_get (the (inServerFolderIds inp)) id = Some now \<and> \<not> samePath nfc now path) \<or>
         inFolderTombstones inp \<noteq> None \<and> id \<in> set (the (inFolderTombstones inp)) \<or>
         inFolderTombstones inp \<noteq> None \<and> inServerFolderIds inp \<noteq> None \<and>
           js_get (the (inServerFolderIds inp)) id = None))"

lemma removeFolders_moved:
  "set (removeFolders (planMovedFolders nfc inp plan)) \<subseteq>
     set (removeFolders plan) \<union> {p. folderGoes nfc inp p}"
proof -
  have "set (removeFolders (fold (movedFolderStep nfc inp sids) xs plan)) \<subseteq>
      set (removeFolders plan) \<union> {p. folderGoes nfc inp p}"
    if "inServerFolderIds inp = Some sids" "inLocalFolderIds inp = Some ids" "set xs \<subseteq> set ids"
    for sids ids xs
    using that(3)
  proof (induction xs arbitrary: plan)
    case (Cons x xs)
    have "set (removeFolders (movedFolderStep nfc inp sids x plan)) \<subseteq>
        set (removeFolders plan) \<union> {p. folderGoes nfc inp p}"
      using that(1,2) Cons.prems
      by (cases x) (auto simp: movedFolderStep_def folderGoes_def split: option.splits if_splits)
    then show ?case using Cons.IH [of "movedFolderStep nfc inp sids x plan"] Cons.prems by auto
  qed simp
  then show ?thesis by (auto simp: planMovedFolders_def split: option.splits)
qed

lemma removeFolders_deleted:
  "set (removeFolders (planDeletedFolders nfc inp plan)) \<subseteq>
     set (removeFolders plan) \<union> {p. folderGoes nfc inp p}"
proof -
  have "set (removeFolders (fold (deletedFolderStep nfc inp dead) xs plan)) \<subseteq>
      set (removeFolders plan) \<union> {p. folderGoes nfc inp p}"
    if "inFolderTombstones inp = Some dead" "inLocalFolderIds inp = Some ids" "set xs \<subseteq> set ids"
    for dead ids xs
    using that(3)
  proof (induction xs arbitrary: plan)
    case (Cons x xs)
    have "set (removeFolders (deletedFolderStep nfc inp dead x plan)) \<subseteq>
        set (removeFolders plan) \<union> {p. folderGoes nfc inp p}"
      using that(1,2) Cons.prems
      by (cases x) (auto simp: deletedFolderStep_def folderGoes_def plan_frame split: if_splits)
    then show ?case using Cons.IH [of "deletedFolderStep nfc inp dead x plan"] Cons.prems by auto
  qed simp
  then show ?thesis by (auto simp: planDeletedFolders_def split: option.splits)
qed

lemma revoked_fold_goes:
  assumes "inFolderTombstones inp = Some dead" "inServerFolderIds inp = Some sids"
    and "inLocalFolderIds inp = Some ids" "set xs \<subseteq> set ids"
  shows "set (fst (fold (revokedFolderStep nfc inp dead sids) xs acc)) \<subseteq>
      set (fst acc) \<union> {p. folderGoes nfc inp p}"
  using assms(4)
proof (induction xs arbitrary: acc)
  case (Cons x xs)
  have "set (fst (revokedFolderStep nfc inp dead sids x acc)) \<subseteq>
      set (fst acc) \<union> {p. folderGoes nfc inp p}"
    using assms(1-3) Cons.prems
    by (cases x; cases acc) (auto simp: revokedFolderStep_def folderGoes_def js_has_def split: if_splits)
  then show ?case using Cons.IH [of "revokedFolderStep nfc inp dead sids x acc"] Cons.prems by auto
qed simp

lemma removeFolders_revoked:
  "set (removeFolders (planRevokedFolders nfc inp plan)) \<subseteq>
     set (removeFolders plan) \<union> {p. folderGoes nfc inp p}"
proof (cases "\<exists>dead sids ids. inFolderTombstones inp = Some dead \<and> inServerFolderIds inp = Some sids \<and>
    inLocalFolderIds inp = Some ids")
  case True
  then obtain dead sids ids where eqs: "inFolderTombstones inp = Some dead"
    "inServerFolderIds inp = Some sids" "inLocalFolderIds inp = Some ids" by blast
  then show ?thesis
    using revoked_fold_goes [OF eqs order_refl, of nfc "([], plan)"]
    by (auto simp: planRevokedFolders_def Let_def case_prod_beta plan_frame)
next
  case False
  then show ?thesis by (auto simp: planRevokedFolders_def split: option.splits)
qed

lemma removeFolders_planFolders:
  "set (removeFolders (planFolders nfc inp plan)) \<subseteq>
     set (removeFolders plan) \<union> {p. folderGoes nfc inp p}"
proof -
  let ?c = "planCreateFolders nfc inp plan"
  let ?m = "planMovedFolders nfc inp ?c"
  let ?d = "planDeletedFolders nfc inp ?m"
  have "set (removeFolders (planFolders nfc inp plan)) = set (removeFolders (planRevokedFolders nfc inp ?d))"
    by (simp add: planFolders_def Let_def)
  then show ?thesis
    using removeFolders_revoked [of nfc inp ?d] removeFolders_deleted [of nfc inp ?m]
      removeFolders_moved [of nfc inp ?c] by (simp add: plan_frame) blast
qed

lemma removeFolders_planInbound:
  "removeFolders (planInbound nfc inp) = removeFolders (planFolders nfc inp empty_plan)"
  by (simp add: planInbound_def applyBreakers_def planDraft_def Let_def plan_frame)

lemma sorted_removeFolders:
  "sorted (map (\<lambda>p. - int (depth p)) (removeFolders (planFolders nfc inp plan)))"
  by (simp add: planFolders_def Let_def)

end
