(* ===== verification/Inbound_Safety.thy ===== *)
theory Inbound_Safety
  imports Inbound_Complete
begin

text \<open>
  The safety properties of the inbound planner: how much one pass may remove or move, what may
  be removed at all, and what the outbound half is told not to register again.
\<close>

lemma noteTrash_sel [simp]:
  "trDocId (noteTrash d p r) = d" "trPath (noteTrash d p r) = p"
  "trReason (noteTrash d p r) = r" "trBinary (noteTrash d p r) = False"
  by (simp_all add: noteTrash_def)

text \<open>Why an entry of the draft is there: a note that leaves, or a binary the server named.\<close>

definition binaryLeaves :: "inbound_input \<Rightarrow> string \<Rightarrow> string \<Rightarrow> bool" where
  "binaryLeaves inp docId path \<longleftrightarrow>
     inAuthoritative inp \<and>
     (\<exists>named files. inAuthoritativeRevoked inp = Some named \<and> inLocalFiles inp = Some files \<and>
        docId \<in> set named \<and> (docId, path) \<in> set files)"

lemma trash_planDraft:
  "t \<in> set (trash (planDraft nfc inp)) \<longleftrightarrow>
     \<not> trBinary t \<and> noteLeaves inp (trDocId t) (trPath t) (trReason t) \<and> isSafeNotePath (trPath t) \<or>
     trBinary t \<and> trReason t = Revoked \<and> binaryLeaves inp (trDocId t) (trPath t) \<and>
       isSafeTreeBinaryPath (trPath t)"
  by (cases t)
     (auto simp: planDraft_def Let_def trash_planBinaries trash_planNotes plan_frame
        empty_plan_def noteTrash_def binaryLeaves_def intro: noteLeaves_candidate)

lemma planInbound_trash_subset: "set (trash (planInbound nfc inp)) \<subseteq> set (trash (planDraft nfc inp))"
  unfolding planInbound_def trash_applyBreakers
  by (meson order_trans trash_capTrash_subset)

lemmas planInbound_trashD = subsetD [OF planInbound_trash_subset, unfolded trash_planDraft]

definition removals :: "trash_reason \<Rightarrow> inbound_plan \<Rightarrow> inbound_trash list" where
  "removals reason plan = filter (\<lambda>t. trReason t = reason) (trash plan)"

section \<open>Bounds\<close>

lemma capped_deletions:
  "length (filter (\<lambda>t. trReason t = Deleted) (trash (applyBreakers m a named plan))) \<le> trashCap m"
proof -
  let ?q = "capTrash (exempt a named) Deleted (trashCap m) plan"
  have "\<not> exempt a named t" if "trReason t = Deleted" for t
    using that exempt_Revoked [of a named t] by auto
  then have "filter (\<lambda>t. trReason t = Deleted \<and> \<not> exempt a named t) (trash ?q) =
      filter (\<lambda>t. trReason t = Deleted) (trash ?q)"
    by (intro filter_cong) auto
  then have "length (filter (\<lambda>t. trReason t = Deleted) (trash ?q)) \<le> trashCap m"
    using capTrash_bound [of Deleted "exempt a named" "trashCap m" plan] by simp
  then show ?thesis
    using capTrash_le [of "\<lambda>t. trReason t = Deleted" "exempt a named" Revoked "revokeCap m" ?q]
    by (simp add: trash_applyBreakers)
qed

text \<open>C1: One pass never plans more deletions than the deletion ceiling of the agreed baseline
  (a fifth of it, at least five), whatever the server, the disk and the announcements say.\<close>

theorem inbound_deletions_capped:
  "length (removals Deleted (planInbound nfc inp)) \<le> trashCap (length (inBaseline inp))"
  by (simp add: removals_def planInbound_def capped_deletions)

text \<open>Access removals beyond the revocation ceiling happen only on an authoritative pass, and
  then only for docs the server named (or, when the server names nothing, for all): the
  removals that are not covered by such an announcement stay under the ceiling.\<close>

theorem inbound_unannounced_revocations_capped:
  "length (filter (\<lambda>t. \<not> exempt (inAuthoritative inp) (inAuthoritativeRevoked inp) t)
             (removals Revoked (planInbound nfc inp))) \<le> revokeCap (length (inBaseline inp))"
  unfolding removals_def planInbound_def trash_applyBreakers filter_filter
  by (rule capTrash_bound)

lemma unchecked_revoked:
  "length (filter (\<lambda>t. trReason t = Revoked \<and>
              trDocId t \<notin> set (needsAccessCheck (applyBreakers m a named plan)))
             (trash (applyBreakers m a named plan))) \<le> revokeCap m"
proof (cases "length (filter (\<lambda>t. trReason t = Revoked) (trash plan)) > revokeCap m")
  case True
  then have "filter (\<lambda>t. trReason t = Revoked \<and>
              trDocId t \<notin> set (needsAccessCheck (applyBreakers m a named plan)))
             (trash (applyBreakers m a named plan)) = []"
    by (auto simp: filter_empty_conv needs_applyBreakers)
  then show ?thesis by simp
next
  case False
  let ?t = "trash (applyBreakers m a named plan)"
  have "length (filter (\<lambda>t. trReason t = Revoked) ?t)
      \<le> length (filter (\<lambda>t. trReason t = Revoked) (trash plan))"
    unfolding trash_applyBreakers by (meson capTrash_le order_trans)
  moreover have "length (filter (\<lambda>t. trReason t = Revoked \<and> Q t) ?t)
      \<le> length (filter (\<lambda>t. trReason t = Revoked) ?t)" for Q
    using length_filter_filter_le [of Q "\<lambda>t. trReason t = Revoked" ?t]
    by (metis (no_types, lifting) filter_cong filter_filter length_filter_le)
  ultimately show ?thesis using False by (meson not_less order_trans)
qed

text \<open>C2: A removal that skips the second opinion is bounded: the access removals that are not in
  \<open>needsAccessCheck\<close> never exceed the revocation ceiling, even on an authoritative pass, and no
  tree binary is ever among them.\<close>

theorem inbound_uncorroborated_revocations_bounded:
  "length (filter (\<lambda>t. trDocId t \<notin> set (needsAccessCheck (planInbound nfc inp)))
             (removals Revoked (planInbound nfc inp))) \<le> revokeCap (length (inBaseline inp)) \<and>
   trDocId ` {t. t \<in> set (trash (planInbound nfc inp)) \<and> trBinary t}
     \<subseteq> set (needsAccessCheck (planInbound nfc inp))"
proof
  show "length (filter (\<lambda>t. trDocId t \<notin> set (needsAccessCheck (planInbound nfc inp)))
             (removals Revoked (planInbound nfc inp))) \<le> revokeCap (length (inBaseline inp))"
    by (simp add: removals_def planInbound_def unchecked_revoked)
next
  have "trReason t = Revoked" if "t \<in> set (trash (planInbound nfc inp))" "trBinary t" for t
    using planInbound_trashD [OF that(1)] that(2) by simp
  then show "trDocId ` {t. t \<in> set (trash (planInbound nfc inp)) \<and> trBinary t}
     \<subseteq> set (needsAccessCheck (planInbound nfc inp))"
    by (auto simp: planInbound_def needs_applyBreakers)
qed

section \<open>What may be removed or moved\<close>

definition gone_from_server :: "inbound_input" where
  "gone_from_server =
     \<lparr>inServer = [], inTombstones = Some [''d1''], inBaseline = [(''d1'', ''a.md''), (''d2'', ''b.md'')],
      inLocal = [(''d1'', ''a.md''), (''d2'', ''b.md'')], inServerFolders = [], inLocalFolders = [],
      inFolderTombstones = None, inLocalFolderIds = None, inServerFolderIds = None,
      inAuthoritative = False, inAuthoritativeRevoked = None, inLocalFiles = None\<rparr>"

lemma gone_from_server_trash:
  "trash (planInbound id gone_from_server) = [noteTrash ''d1'' ''a.md'' Deleted, noteTrash ''d2'' ''b.md'' Revoked]"
  by code_simp

text \<open>C3: A note is removed from disk only when the server no longer lists its doc, the file is the
  one the disk holds under that doc's id, its path is a safe note path, and either the server
  tombstoned the doc, or it answered without tombstoning a doc the two sides had agreed on.\<close>

theorem inbound_note_removals_justified:
  assumes "t \<in> set (trash (planInbound nfc inp))" and "\<not> trBinary t"
  shows "js_get (inServer inp) (trDocId t) = None \<and>
    js_get (inLocal inp) (trDocId t) = Some (trPath t) \<and>
    isSafeNotePath (trPath t) \<and>
    (\<exists>dead. inTombstones inp = Some dead \<and>
       (if trReason t = Deleted then trDocId t \<in> set dead
        else trDocId t \<notin> set dead \<and> js_get (inBaseline inp) (trDocId t) \<noteq> None))"
  using planInbound_trashD [OF assms(1)] assms(2)
  by (auto simp: noteLeaves_def isDead_def split: option.splits)

theorem inbound_note_removals_justified_witness:
  "js_get (inLocal gone_from_server) ''d2'' = Some ''b.md''"
  using inbound_note_removals_justified [of "noteTrash ''d2'' ''b.md'' Revoked" id gone_from_server]
  by (simp add: gone_from_server_trash)

text \<open>While the server has not answered which docs it tombstoned, no note leaves the disk: the
  only removals such a pass can plan are tree binaries the server named on an authoritative
  pass, at the path the disk holds them.\<close>

theorem inbound_unanswered_removes_no_note:
  "set (trash (planInbound nfc (inp\<lparr>inTombstones := None\<rparr>))) \<subseteq>
     {t. trBinary t \<and> trReason t = Revoked \<and> inAuthoritative inp \<and> isSafeTreeBinaryPath (trPath t) \<and>
         (\<exists>named files. inAuthoritativeRevoked inp = Some named \<and> inLocalFiles inp = Some files \<and>
            trDocId t \<in> set named \<and> (trDocId t, trPath t) \<in> set files)}"
  by (auto simp: noteLeaves_def isDead_def binaryLeaves_def dest!: planInbound_trashD)

text \<open>C26: Every planned move takes a note from the path the disk holds to the path the server
  lists, both under its doc id, the server's path being a genuine move away from the agreed
  one and not a respelling of the disk's; the destination is safe and no note of the disk
  occupies it; and one pass moves at most the rename ceiling.\<close>

theorem inbound_renames_sound:
  "set (renames (planInbound nfc inp)) \<subseteq>
     {r. js_get (inServer inp) (rnDocId r) = Some (rnTo r) \<and>
         js_get (inLocal inp) (rnDocId r) = Some (rnFrom r) \<and>
         pathKey nfc (rnFrom r) \<noteq> pathKey nfc (rnTo r) \<and>
         (\<exists>p. js_get (inBaseline inp) (rnDocId r) = Some p \<and> pathKey nfc p \<noteq> pathKey nfc (rnTo r)) \<and>
         isSafeNotePath (rnTo r) \<and>
         pathKey nfc (rnTo r) \<notin> pathKey nfc ` snd ` set (inLocal inp)} \<and>
   length (renames (planInbound nfc inp)) \<le> renameCap (length (inBaseline inp))"
proof
  have draft: "r \<in> set (renames (planDraft nfc inp))" if "r \<in> set (renames (planInbound nfc inp))" for r
    using that by (simp add: planInbound_def renames_applyBreakers split: if_splits)
  have "noteMoves nfc inp (rnDocId r) (rnFrom r) (rnTo r) \<and> isSafeNotePath (rnTo r) \<and>
      pathKey nfc (rnTo r) \<notin> localPathKeys nfc inp"
    if "r \<in> set (renames (planInbound nfc inp))" for r
    using draft [OF that]
    by (auto simp: planDraft_def Let_def plan_frame renames_planNotes empty_plan_def)
  then show "set (renames (planInbound nfc inp)) \<subseteq>
     {r. js_get (inServer inp) (rnDocId r) = Some (rnTo r) \<and>
         js_get (inLocal inp) (rnDocId r) = Some (rnFrom r) \<and>
         pathKey nfc (rnFrom r) \<noteq> pathKey nfc (rnTo r) \<and>
         (\<exists>p. js_get (inBaseline inp) (rnDocId r) = Some p \<and> pathKey nfc p \<noteq> pathKey nfc (rnTo r)) \<and>
         isSafeNotePath (rnTo r) \<and>
         pathKey nfc (rnTo r) \<notin> pathKey nfc ` snd ` set (inLocal inp)}"
    unfolding noteMoves_def localPathKeys_def samePath_iff by (intro subsetI CollectI) metis
next
  show "length (renames (planInbound nfc inp)) \<le> renameCap (length (inBaseline inp))"
    by (simp add: planInbound_def renames_applyBreakers)
qed

text \<open>The ghost-note guard: a note on disk whose doc the server no longer lists, and which was
  agreed before or is tombstoned, is always in \<open>suppress\<close>, so the outbound half never registers
  it again, whether or not the pass also removes it.\<close>

theorem inbound_ghosts_suppressed:
  assumes "js_get (inServer inp) docId = None" and "js_get (inLocal inp) docId = Some path"
    and "js_get (inBaseline inp) docId \<noteq> None \<or>
         (\<exists>dead. inTombstones inp = Some dead \<and> docId \<in> set dead)"
  shows "path \<in> set (suppress (planInbound nfc inp))"
proof -
  have "js_get (inBaseline inp) docId \<noteq> None \<or> isDead inp docId"
    using assms(3) by (auto simp: isDead_def)
  then show ?thesis
    using suppress_planNotes [OF assms(1,2), of nfc]
    by (simp add: planInbound_def applyBreakers_def planDraft_def Let_def plan_frame)
qed

theorem inbound_ghosts_suppressed_witness:
  "''b.md'' \<in> set (suppress (planInbound id gone_from_server))"
  by (rule inbound_ghosts_suppressed [of _ "''d2''"]) (simp_all add: gone_from_server_def)

text \<open>C27: No removal is lost silently: a note that a deletion or a revocation takes off this disk
  is either removed by the plan or reported in its rejections under its doc id.\<close>

theorem inbound_removals_accounted:
  assumes "js_get (inServer inp) docId = None" and "js_get (inLocal inp) docId = Some path"
    and "inTombstones inp = Some dead"
    and "docId \<in> set dead \<or> js_get (inBaseline inp) docId \<noteq> None"
  shows "(\<exists>t \<in> set (trash (planInbound nfc inp)). trDocId t = docId) \<or>
    (\<exists>r \<in> set (rejected (planInbound nfc inp)). rjKind r = RejTrash \<and> rjDocId r = Some docId)"
proof -
  have "\<exists>r. noteLeaves inp docId path r"
    using assms by (auto simp: noteLeaves_def isDead_def)
  then have "settled_trash (planInbound nfc inp) docId"
    by (auto simp: planInbound_def intro: settled_applyBreakers settled_planDraft)
  then show ?thesis by (simp add: settled_trash_def rejects_trash_def)
qed

theorem inbound_removals_accounted_witness:
  "(\<exists>t \<in> set (trash (planInbound id gone_from_server)). trDocId t = ''d1'') \<or>
   (\<exists>r \<in> set (rejected (planInbound id gone_from_server)). rjKind r = RejTrash \<and> rjDocId r = Some ''d1'')"
  by (rule inbound_removals_accounted [of _ _ "''a.md''" "[''d1'']"]) (simp_all add: gone_from_server_def)

text \<open>Folder plans: parents are created before their children, folders are created exactly for
  the safe server folders the disk lacks; removals run deepest first, and every removed folder is a safe
  path of the disk, held under its server identity, whose spelling no live server folder has
  and which the server moved, tombstoned or stopped listing.\<close>

theorem inbound_folders_sound:
  "sorted (map depth (createFolders (planInbound nfc inp))) \<and>
   set (createFolders (planInbound nfc inp)) =
     {p \<in> set (inServerFolders inp). isSafeFolderPath p \<and>
        pathKey nfc p \<notin> pathKey nfc ` set (inLocalFolders inp)} \<and>
   sorted (map (\<lambda>p. - int (depth p)) (removeFolders (planInbound nfc inp))) \<and>
   set (removeFolders (planInbound nfc inp)) \<subseteq> {p. folderGoes nfc inp p}"
proof -
  have "removeFolders empty_plan = []" by (simp add: empty_plan_def)
  then have "set (removeFolders (planInbound nfc inp)) \<subseteq> {p. folderGoes nfc inp p}"
    using removeFolders_planFolders [of nfc inp empty_plan] by (simp add: removeFolders_planInbound)
  moreover have "set (createFolders (planInbound nfc inp)) =
     {p \<in> set (inServerFolders inp). isSafeFolderPath p \<and>
        pathKey nfc p \<notin> pathKey nfc ` set (inLocalFolders inp)}"
    unfolding createFolders_planInbound set_sort set_filter by (intro Collect_cong) blast
  moreover have "sorted (map depth (createFolders (planInbound nfc inp)))"
    unfolding createFolders_planInbound by (rule sorted_sort_key)
  moreover have "sorted (map (\<lambda>p. - int (depth p)) (removeFolders (planInbound nfc inp)))"
    unfolding removeFolders_planInbound by (rule sorted_removeFolders)
  ultimately show ?thesis by blast
qed

section \<open>A settled vault\<close>

text \<open>A vault is settled when the disk and the server list the same docs at the same places up
  to case and normal form, and the same folders.\<close>

definition settled :: "(string \<Rightarrow> string) \<Rightarrow> inbound_input \<Rightarrow> bool" where
  "settled nfc inp \<longleftrightarrow>
     (\<forall>d. case js_get (inServer inp) d of
            Some s \<Rightarrow> (\<exists>l. js_get (inLocal inp) d = Some l \<and> samePath nfc l s)
          | None \<Rightarrow> js_get (inLocal inp) d = None) \<and>
     distinct (map fst (inLocal inp)) \<and>
     pathKey nfc ` set (inServerFolders inp) = pathKey nfc ` set (inLocalFolders inp)"

lemma settled_paths_live:
  assumes "settled nfc inp" shows "livePathKeys nfc inp = localPathKeys nfc inp"
proof -
  have "case js_get (inServer inp) d of None \<Rightarrow> False | Some srv \<Rightarrow> samePath nfc srv l"
    if "(d, l) \<in> set (inLocal inp)" for d l
  proof -
    have "js_get (inLocal inp) d = Some l" using assms that by (simp add: settled_def)
    moreover have "case js_get (inServer inp) d of
        Some s \<Rightarrow> (\<exists>l. js_get (inLocal inp) d = Some l \<and> samePath nfc l s)
      | None \<Rightarrow> js_get (inLocal inp) d = None" using assms by (simp only: settled_def)
    ultimately show ?thesis by (simp split: option.splits)
  qed
  then have "filter (\<lambda>(docId, path). case js_get (inServer inp) docId of
      None \<Rightarrow> False | Some srv \<Rightarrow> samePath nfc srv path) (inLocal inp) = inLocal inp"
    by (intro filter_True) auto
  then show ?thesis by (simp add: livePathKeys_def localPathKeys_def image_image case_prod_beta)
qed

lemma quiet_planNote:
  assumes "settled nfc inp"
  shows "\<exists>rc. planNote nfc inp d plan = plan\<lparr>releaseClaims := rc\<rparr>"
proof -
  have same: "\<exists>rc. plan = plan\<lparr>releaseClaims := rc\<rparr>"
    by (rule exI [of _ "releaseClaims plan"]) simp
  show ?thesis
  proof (cases "js_get (inServer inp) d")
    case None
    then have "js_get (inLocal inp) d = None"
      using assms by (auto simp: settled_def dest!: spec [of _ d])
    then show ?thesis using None same settled_paths_live [OF assms]
      by (auto simp: planNote_def Let_def split: option.splits)
  next
    case (Some s)
    then obtain l where "js_get (inLocal inp) d = Some l" "samePath nfc l s"
      using assms by (auto simp: settled_def dest!: spec [of _ d])
    then show ?thesis using Some same by (simp add: planNote_def)
  qed
qed

lemma quiet_planNotes:
  assumes "settled nfc inp"
  shows "\<exists>rc. planNotes nfc inp plan = plan\<lparr>releaseClaims := rc\<rparr>"
  unfolding planNotes_def
proof (rule fold_invariant_mem)
  show "\<exists>rc. plan = plan\<lparr>releaseClaims := rc\<rparr>"
    by (rule exI [of _ "releaseClaims plan"]) simp
next
  fix d p assume "\<exists>rc. p = plan\<lparr>releaseClaims := rc\<rparr>"
  then show "\<exists>rc. planNote nfc inp d p = plan\<lparr>releaseClaims := rc\<rparr>"
    using quiet_planNote [OF assms, of d p] by auto
qed

lemma fold_idle: "(\<And>x s. x \<in> set xs \<Longrightarrow> f x s = s) \<Longrightarrow> fold f xs s = s"
  by (induction xs arbitrary: s) auto

lemma quiet_planFolders:
  assumes "settled nfc inp" shows "planFolders nfc inp empty_plan = empty_plan"
proof -
  have keys: "pathKey nfc ` set (inServerFolders inp) = pathKey nfc ` set (inLocalFolders inp)"
    using assms by (simp add: settled_def)
  then have "fold (createFolderStep nfc inp) (inServerFolders inp) empty_plan = empty_plan"
    by (intro fold_idle) (auto simp: createFolderStep_def)
  then have "planCreateFolders nfc inp empty_plan = empty_plan"
    by (simp add: planCreateFolders_def Let_def empty_plan_def)
  moreover have "planMovedFolders nfc inp plan = plan" "planDeletedFolders nfc inp plan = plan" for plan
    using keys by (auto simp: planMovedFolders_def movedFolderStep_def planDeletedFolders_def
      deletedFolderStep_def split: option.splits intro!: fold_idle)
  moreover have "fold (revokedFolderStep nfc inp dead sids) xs acc = acc" for dead sids xs acc
    using keys by (intro fold_idle) (auto simp: revokedFolderStep_def)
  then have "planRevokedFolders nfc inp plan = plan" for plan
    by (auto simp: planRevokedFolders_def Let_def split: option.splits)
  ultimately show ?thesis by (simp add: planFolders_def Let_def empty_plan_def)
qed

definition settled_vault :: inbound_input where
  "settled_vault =
     \<lparr>inServer = [(''d1'', ''Docs/A.md'')], inTombstones = Some [''d9''], inBaseline = [(''d1'', ''Old/a.md'')],
      inLocal = [(''d1'', ''docs/a.md'')], inServerFolders = [''Docs''], inLocalFolders = [''docs''],
      inFolderTombstones = Some [], inLocalFolderIds = Some [(''docs'', ''f1'')],
      inServerFolderIds = Some [(''f1'', ''Docs'')],
      inAuthoritative = False, inAuthoritativeRevoked = None, inLocalFiles = None\<rparr>"

text \<open>Planning is quiet on a settled vault: when disk and server list the same docs and
  folders up to case and Unicode normal form (whatever the baseline, the ids and the
  tombstones say), a pass plans no creation, removal, move, suppression, stub or rejection; at
  most it releases name claims of tombstoned docs.\<close>

theorem inbound_settled_is_quiet:
  assumes "settled nfc inp" and "\<not> inAuthoritative inp"
  shows "\<exists>rc. planInbound nfc inp = empty_plan\<lparr>releaseClaims := rc\<rparr>"
proof -
  obtain rc where rc: "planNotes nfc inp empty_plan = empty_plan\<lparr>releaseClaims := rc\<rparr>"
    using quiet_planNotes [OF assms(1)] by blast
  then have "planDraft nfc inp = empty_plan\<lparr>releaseClaims := rc\<rparr>"
    using quiet_planFolders [OF assms(1)] assms(2)
    by (simp add: planDraft_def planBinaries_def empty_plan_def)
  then have "planInbound nfc inp = empty_plan\<lparr>releaseClaims := rc\<rparr>"
    by (simp add: planInbound_def applyBreakers_def capTrash_def flagAccessChecks_def capRenames_def
          empty_plan_def js_set_of_def)
  then show ?thesis ..
qed

lemma respelled:
  "pathKey id ''docs/a.md'' = pathKey id ''Docs/A.md''" "pathKey id ''docs'' = pathKey id ''Docs''"
  by code_simp+

lemma settled_vault_settled: "settled id settled_vault"
  by (simp add: settled_def settled_vault_def respelled)

theorem inbound_settled_is_quiet_witness:
  "\<exists>rc. planInbound id settled_vault = empty_plan\<lparr>releaseClaims := rc\<rparr>"
  by (rule inbound_settled_is_quiet [OF settled_vault_settled]) (simp add: settled_vault_def)

end
