(* ===== verification/Database.thy ===== *)
theory Database
  imports Prelude
begin

text \<open>
  The server's tables, as far as the modelled code reads or writes them
  (\<open>server/migrations\<close>): a table is the list of its rows in the order the database returns them
  when a query states no \<open>ORDER BY\<close>; \<open>LIMIT 1\<close> takes the first. A column with a \<open>CHECK\<close>
  constraint is a datatype, any other text column a string, a nullable column an option and a
  timestamp an integer. \<open>dbLower\<close> is the database's \<open>lower\<close> and \<open>dbMd5\<close> its \<open>md5\<close>: both stay
  uninterpreted functions. The column \<open>org_id\<close> of a share row is \<open>dbShareOrg\<close> of the row: one query filters on it,
  and rows are unique, so a function of the row gives every content of that column.

  The constraints the migrations declare are predicates here (\<open>unique_shares\<close>, ...): a theorem
  that needs one names it as a hypothesis.
\<close>

datatype resource_type = RFile | RFolder | RVault
datatype principal_type = PUser | POrg
datatype stored_permission = SView | SEdit | SLocked | SDenied | SReadonly
datatype join_mode = MPrivate | MReadonly | MOpen

record share_row =
  srResourceType :: resource_type
  srResourceId :: string
  srPrincipalType :: principal_type
  srPrincipalId :: string
  srPermission :: stored_permission
  srRevision :: int

record vault_row =
  vtId :: string
  vtOrg :: string

record folder_row =
  fdId :: string
  fdParent :: "string option"
  fdVault :: string
  fdCreatedBy :: "string option"
  fdCreatedAt :: int

record note_row =
  ntId :: string
  ntVault :: string
  ntFolder :: "string option"
  ntCreatedBy :: "string option"
  ntCreatedAt :: int
  ntDeletedAt :: "int option"

record file_row =
  flId :: string
  flVault :: string
  flFolder :: "string option"
  flCreatedBy :: "string option"
  flCreatedAt :: int

record user_row =
  usId :: string
  usEmail :: string

record member_row =
  mbId :: string
  mbOrg :: string
  mbUser :: string
  mbRole :: string
  mbCreatedAt :: int

record snapshot_row =
  msOrg :: string
  msUser :: string
  msMode :: join_mode
  msRevision :: int
  msAt :: int

record invitation_row =
  ivOrg :: string
  ivEmail :: string
  ivStatus :: string
  ivExpiresAt :: int

record account_table_row =
  baId :: string
  baOwner :: string
  baFreePeople :: "int option"
  baFreeVaults :: "int option"
  baOverride :: "string option"
  baComplimentaryUntil :: "int option"

record account_org_row =
  aoOrg :: string
  aoAccount :: string
  aoAttachedAt :: int
  aoAttachedBy :: "string option"

record subscription_row =
  sbOrg :: "string option"
  sbAccount :: "string option"
  sbStatus :: string
  sbSeats :: "int option"
  sbPeriodEnd :: "int option"
  sbCancelAtEnd :: bool
  sbCustomer :: "string option"
  sbSubscription :: "string option"
  sbInterval :: "string option"
  sbAmount :: "int option"
  sbCurrency :: "string option"

record entitlement_row =
  enUser :: string
  enVaultLimit :: int

record database =
  organizations :: "string list"
  users :: "user_row list"
  members :: "member_row list"
  memberSnapshots :: "snapshot_row list"
  invitations :: "invitation_row list"
  vaults :: "vault_row list"
  folders :: "folder_row list"
  noteRows :: "note_row list"
  fileRows :: "file_row list"
  shares :: "share_row list"
  billingAccounts :: "account_table_row list"
  accountOrgs :: "account_org_row list"
  subscriptions :: "subscription_row list"
  accountEntitlements :: "entitlement_row list"
  dbNow :: int
  dbLower :: "string \<Rightarrow> string"
  dbMd5 :: "string \<Rightarrow> string"
  dbShareOrg :: "share_row \<Rightarrow> string"

text \<open>\<open>LIMIT 1\<close>, and \<open>rows[0] ?? null\<close>.\<close>

definition first_row :: "('a \<Rightarrow> bool) \<Rightarrow> 'a list \<Rightarrow> 'a option" where
  "first_row P rows = find P rows"

lemma first_row_Some: "first_row P rows = Some r \<Longrightarrow> r \<in> set rows \<and> P r"
  by (auto simp: first_row_def find_Some_iff)

lemma first_row_None: "first_row P rows = None \<longleftrightarrow> (\<forall>r \<in> set rows. \<not> P r)"
  by (auto simp: first_row_def find_None_iff)

lemma first_row_append:
  "first_row P (xs @ ys) = (case first_row P xs of None \<Rightarrow> first_row P ys | Some r \<Rightarrow> Some r)"
  by (induction xs) (auto simp: first_row_def)

text \<open>With a uniqueness constraint it does not matter which rows a query returns, or in which
  order, as long as it returns the one that matters.\<close>

lemma first_row_unique:
  assumes "r \<in> set rows" and "P r" and "\<And>r'. r' \<in> set rows \<Longrightarrow> P r' \<Longrightarrow> r' = r"
  shows "first_row P rows = Some r"
proof (cases "first_row P rows")
  case None
  then have "\<forall>r \<in> set rows. \<not> P r" by (simp only: first_row_None)
  then show ?thesis using assms(1,2) by blast
next
  case (Some r')
  then have "r' \<in> set rows" "P r'" by (auto dest: first_row_Some)
  then show ?thesis using Some assms(3) by simp
qed

lemma first_row_eqI:
  assumes "\<And>r r'. r \<in> set xs \<union> set ys \<Longrightarrow> r' \<in> set xs \<union> set ys \<Longrightarrow> P r \<Longrightarrow> P r' \<Longrightarrow> r = r'"
    and "\<And>r. P r \<Longrightarrow> r \<in> set xs \<longleftrightarrow> r \<in> set ys"
  shows "first_row P xs = first_row P ys"
proof (cases "first_row P xs")
  case None
  then have "first_row P ys = None" using assms(2) by (auto simp: first_row_None)
  then show ?thesis using None by simp
next
  case (Some r)
  then have r: "r \<in> set xs" "P r" by (auto dest: first_row_Some)
  have "first_row P ys = Some r"
  proof (rule first_row_unique)
    show "r \<in> set ys" "P r" using r assms(2) by blast+
    show "r' = r" if "r' \<in> set ys" "P r'" for r' using assms(1) r that by blast
  qed
  then show ?thesis using Some by simp
qed

text \<open>The condition \<open>if (x)\<close> on a nullable string: neither null nor empty.\<close>

definition truthy :: "string option \<Rightarrow> bool" where
  "truthy s \<longleftrightarrow> s \<noteq> None \<and> s \<noteq> Some []"

section \<open>Constraints\<close>

definition share_key :: "share_row \<Rightarrow> resource_type \<times> string \<times> principal_type \<times> string" where
  "share_key r = (srResourceType r, srResourceId r, srPrincipalType r, srPrincipalId r)"

definition unique_shares :: "database \<Rightarrow> bool" where
  "unique_shares db \<longleftrightarrow> distinct (map share_key (shares db))"

definition unique_folders :: "database \<Rightarrow> bool" where
  "unique_folders db \<longleftrightarrow> distinct (map fdId (folders db))"

definition unique_vaults :: "database \<Rightarrow> bool" where
  "unique_vaults db \<longleftrightarrow> distinct (map vtId (vaults db))"

lemma unique_shares_eq:
  "unique_shares db \<Longrightarrow> r \<in> set (shares db) \<Longrightarrow> r' \<in> set (shares db) \<Longrightarrow> share_key r = share_key r' \<Longrightarrow> r = r'"
  unfolding unique_shares_def by (metis distinct_map inj_on_def)

end
