(* ===== verification/Billing.thy ===== *)
theory Billing
  imports Database
begin

text \<open>
  The plan resolver and the seat gates (\<open>server/src/billing/plan.ts\<close>), the entitlement helpers
  (\<open>entitlements.ts\<close>), account attachment (\<open>accounts.ts\<close>), the lapse verdict and its fan-out
  (\<open>lapse.ts\<close>) and the note quota (\<open>note-quota.ts\<close>). The deployment's settings
  (\<open>config.ts\<close>, \<open>deployment-policy.ts\<close>) are the record \<open>deployment\<close>; the clock is the
  database's \<open>now()\<close>, which also stands for \<open>new Date()\<close> in \<open>planFromRow\<close>.
\<close>

record deployment =
  requiresCloudPlan :: bool
  billingEnabled :: bool
  billingTeam :: bool
  abuseMaxNotes :: int
  abuseMaxStorageMb :: int
  freeMaxVaults :: int
  freeMaxMembers :: int
  freeMaxStorageMb :: int

datatype plan_name = Free | Team
datatype plan_status = StNone | StActive | StPastDue | StCanceled

record plan_limits =
  plPeople :: "int option"
  plVaults :: "int option"
  plStorageBytes :: "int option"
  plNotesPerVault :: "int option"
  plFileSync :: bool

record account_plan =
  apAccountId :: "string option"
  apPlan :: plan_name
  apStatus :: plan_status
  apSeatsPurchased :: "int option"
  apSeatsUsed :: nat
  apSeatsReserved :: nat
  apVaultsAttached :: nat
  apLapsed :: bool
  apLimits :: plan_limits

datatype plan_target = OrgTarget string | AccountTarget string | UserTarget string

definition ACTIVE :: "string list" where
  "ACTIVE = [''active'', ''past_due'']"

definition FREE_PEOPLE_DEFAULT :: int where "FREE_PEOPLE_DEFAULT = 2"
definition FREE_VAULTS_DEFAULT :: int where "FREE_VAULTS_DEFAULT = 1"
definition LEGACY_FREE_NOTE_LIMIT :: int where "LEGACY_FREE_NOTE_LIMIT = 20000"

definition planEnforced :: "deployment \<Rightarrow> bool" where
  "planEnforced env \<longleftrightarrow> requiresCloudPlan env \<and> billingEnabled env"

definition teamModel :: "deployment \<Rightarrow> bool" where
  "teamModel env = billingTeam env"

definition lapseEnforced :: "deployment \<Rightarrow> bool" where
  "lapseEnforced env \<longleftrightarrow> teamModel env \<and> planEnforced env"

definition UNLIMITED :: plan_limits where
  "UNLIMITED = \<lparr>plPeople = None, plVaults = None, plStorageBytes = None, plNotesPerVault = None,
     plFileSync = True\<rparr>"

definition normalizeStatus :: "string option \<Rightarrow> plan_status" where
  "normalizeStatus status =
     (if status = Some ''active'' then StActive
      else if status = Some ''past_due'' then StPastDue
      else if status = Some ''canceled'' then StCanceled
      else StNone)"

definition accountIdForOrg :: "database \<Rightarrow> string \<Rightarrow> string option" where
  "accountIdForOrg db orgId =
     map_option aoAccount (first_row (\<lambda>r. aoOrg r = orgId) (accountOrgs db))"

definition accountIdFor :: "database \<Rightarrow> plan_target \<Rightarrow> string option" where
  "accountIdFor db target =
     (case target of
        AccountTarget a \<Rightarrow> Some a
      | OrgTarget o' \<Rightarrow> map_option aoAccount (first_row (\<lambda>r. aoOrg r = o') (accountOrgs db))
      | UserTarget u \<Rightarrow> map_option baId (first_row (\<lambda>r. baOwner r = u) (billingAccounts db)))"

section \<open>One account's row\<close>

record account_row =
  arFreePeople :: "int option"
  arFreeVaults :: "int option"
  arOverride :: "string option"
  arComplimentaryUntil :: "int option"
  arVaults :: nat
  arPeople :: nat
  arReserved :: nat
  arSubStatus :: "string option"
  arSubSeats :: "int option"
  arSubPeriodEnd :: "int option"

definition attachedOrgs :: "database \<Rightarrow> string \<Rightarrow> string list" where
  "attachedOrgs db accountId =
     map aoOrg (filter (\<lambda>r. aoAccount r = accountId) (accountOrgs db))"

text \<open>\<open>SELECT DISTINCT m."userId", lower(u.email)\<close> over the members of the given vaults.\<close>

definition peopleOf :: "database \<Rightarrow> string list \<Rightarrow> (string \<times> string) list" where
  "peopleOf db orgs =
     remdups (concat (map (\<lambda>m.
       map (\<lambda>u. (mbUser m, dbLower db (usEmail u)))
         (filter (\<lambda>u. usId u = mbUser m) (users db)))
       (filter (\<lambda>m. mbOrg m \<in> set orgs) (members db))))"

definition pendingInvite :: "database \<Rightarrow> invitation_row \<Rightarrow> bool" where
  "pendingInvite db i \<longleftrightarrow> ivStatus i = ''pending'' \<and> ivExpiresAt i > dbNow db"

definition reservedEmails :: "database \<Rightarrow> string list \<Rightarrow> string list" where
  "reservedEmails db orgs =
     remdups (map (\<lambda>i. dbLower db (ivEmail i))
       (filter (\<lambda>i. ivOrg i \<in> set orgs \<and> pendingInvite db i \<and>
                    dbLower db (ivEmail i) \<notin> snd ` set (peopleOf db orgs)) (invitations db)))"

text \<open>\<open>ORDER BY (status = ANY(ACTIVE)) DESC, current_period_end DESC NULLS LAST LIMIT 1\<close>.\<close>

definition byPeriodEndDesc :: "subscription_row list \<Rightarrow> subscription_row list" where
  "byPeriodEndDesc subs =
     sort_key (\<lambda>s. - the (sbPeriodEnd s)) (filter (\<lambda>s. sbPeriodEnd s \<noteq> None) subs) @
     filter (\<lambda>s. sbPeriodEnd s = None) subs"

definition bestSubscription :: "subscription_row list \<Rightarrow> subscription_row option" where
  "bestSubscription subs =
     (let sorted = byPeriodEndDesc (filter (\<lambda>s. sbStatus s \<in> set ACTIVE) subs) @
                   byPeriodEndDesc (filter (\<lambda>s. sbStatus s \<notin> set ACTIVE) subs)
      in first_row (\<lambda>_. True) sorted)"

definition loadAccount :: "database \<Rightarrow> string \<Rightarrow> account_row option" where
  "loadAccount db accountId =
     (case first_row (\<lambda>a. baId a = accountId) (billingAccounts db) of
        None \<Rightarrow> None
      | Some ba \<Rightarrow>
          (let orgs = attachedOrgs db accountId;
               s = bestSubscription (filter (\<lambda>s. sbAccount s = Some (baId ba)) (subscriptions db))
           in Some
             \<lparr>arFreePeople = baFreePeople ba,
              arFreeVaults = baFreeVaults ba,
              arOverride = baOverride ba,
              arComplimentaryUntil = baComplimentaryUntil ba,
              arVaults = length orgs,
              arPeople = length (peopleOf db orgs),
              arReserved = length (reservedEmails db orgs),
              arSubStatus = map_option sbStatus s,
              arSubSeats = Option.bind s sbSeats,
              arSubPeriodEnd = Option.bind s sbPeriodEnd\<rparr>))"

definition abuseMaxStorageBytes :: "deployment \<Rightarrow> int" where
  "abuseMaxStorageBytes env = abuseMaxStorageMb env * 1024 * 1024"

definition planFromRow :: "deployment \<Rightarrow> string option \<Rightarrow> account_row option \<Rightarrow> bool \<Rightarrow> int
    \<Rightarrow> account_plan" where
  "planFromRow env accountId row enforced now =
     (let seatsUsed = (case row of None \<Rightarrow> 0 | Some r \<Rightarrow> arPeople r);
          seatsReserved = (case row of None \<Rightarrow> 0 | Some r \<Rightarrow> arReserved r);
          vaultsAttached = (case row of None \<Rightarrow> 0 | Some r \<Rightarrow> arVaults r);
          status = normalizeStatus (Option.bind row arSubStatus);
          periodLive = (case Option.bind row arSubPeriodEnd of None \<Rightarrow> False | Some t \<Rightarrow> t > now);
          subscribed = (status = StActive \<or> status = StPastDue \<or> (status = StCanceled \<and> periodLive));
          complimentary = (case row of
              None \<Rightarrow> False
            | Some r \<Rightarrow> arOverride r = Some ''team'' \<and>
                (case arComplimentaryUntil r of None \<Rightarrow> True | Some t \<Rightarrow> t > now));
          plan = (if subscribed \<or> complimentary then Team else Free);
          seatsPurchased = (if subscribed then Option.bind row arSubSeats else None);
          freePeople = (case Option.bind row arFreePeople of None \<Rightarrow> FREE_PEOPLE_DEFAULT | Some n \<Rightarrow> n);
          freeVaults = (case Option.bind row arFreeVaults of None \<Rightarrow> FREE_VAULTS_DEFAULT | Some n \<Rightarrow> n);
          lapsed = (enforced \<and> plan = Free \<and> Option.bind row arSubStatus \<noteq> None \<and>
                    (int seatsUsed > freePeople \<or> int vaultsAttached > freeVaults));
          limits = (if \<not> enforced then UNLIMITED
                    else if plan = Team then UNLIMITED\<lparr>plPeople := seatsPurchased\<rparr>
                    else \<lparr>plPeople = Some freePeople, plVaults = Some freeVaults,
                          plStorageBytes = Some (abuseMaxStorageBytes env),
                          plNotesPerVault = Some (abuseMaxNotes env), plFileSync = False\<rparr>)
      in \<lparr>apAccountId = accountId, apPlan = plan, apStatus = status,
          apSeatsPurchased = seatsPurchased, apSeatsUsed = seatsUsed,
          apSeatsReserved = seatsReserved, apVaultsAttached = vaultsAttached,
          apLapsed = lapsed, apLimits = limits\<rparr>)"

section \<open>The per-vault model\<close>

definition orgHasActiveSubscription :: "database \<Rightarrow> string \<Rightarrow> bool" where
  "orgHasActiveSubscription db orgId =
     (case first_row (\<lambda>s. sbOrg s = Some orgId) (subscriptions db) of
        None \<Rightarrow> False
      | Some s \<Rightarrow> sbStatus s \<in> set ACTIVE)"

definition legacyStorageLimitBytes :: "deployment \<Rightarrow> database \<Rightarrow> string \<Rightarrow> int option" where
  "legacyStorageLimitBytes env db orgId =
     (if \<not> billingEnabled env then None
      else if orgHasActiveSubscription db orgId then None
      else Some (freeMaxStorageMb env * 1024 * 1024))"

definition legacyCanSyncAttachments :: "deployment \<Rightarrow> database \<Rightarrow> string \<Rightarrow> bool" where
  "legacyCanSyncAttachments env db orgId =
     (if \<not> billingEnabled env then True else orgHasActiveSubscription db orgId)"

definition memberCount :: "database \<Rightarrow> string \<Rightarrow> nat" where
  "memberCount db orgId = length (filter (\<lambda>m. mbOrg m = orgId) (members db))"

definition pendingCount :: "database \<Rightarrow> string \<Rightarrow> nat" where
  "pendingCount db orgId =
     length (filter (\<lambda>i. ivOrg i = orgId \<and> pendingInvite db i) (invitations db))"

definition legacyPlan :: "deployment \<Rightarrow> database \<Rightarrow> plan_target \<Rightarrow> account_plan" where
  "legacyPlan env db target =
     (let enforced = billingEnabled env;
          orgId = (case target of OrgTarget o' \<Rightarrow> Some o' | _ \<Rightarrow> None);
          orgTruthy = truthy orgId;
          active = (if orgTruthy then orgHasActiveSubscription db (the orgId) else False);
          seatsUsed = (if orgTruthy then memberCount db (the orgId) else 0);
          seatsReserved = (if orgTruthy then pendingCount db (the orgId) else 0);
          noteCap = (if requiresCloudPlan env \<and> \<not> active then Some LEGACY_FREE_NOTE_LIMIT else None);
          limits = (if \<not> enforced then UNLIMITED\<lparr>plNotesPerVault := noteCap\<rparr>
                    else \<lparr>plPeople = (if active then None else Some (freeMaxMembers env)),
                          plVaults = (if active then None else Some (freeMaxVaults env)),
                          plStorageBytes = (if orgTruthy then legacyStorageLimitBytes env db (the orgId)
                                            else None),
                          plNotesPerVault = noteCap,
                          plFileSync = (if orgTruthy then legacyCanSyncAttachments env db (the orgId)
                                        else False)\<rparr>)
      in \<lparr>apAccountId = None, apPlan = (if active then Team else Free),
          apStatus = (if active then StActive else StNone), apSeatsPurchased = None,
          apSeatsUsed = seatsUsed, apSeatsReserved = seatsReserved,
          apVaultsAttached = (if orgTruthy then 1 else 0), apLapsed = False, apLimits = limits\<rparr>)"

section \<open>The resolver\<close>

definition unattachedRow :: "database \<Rightarrow> string \<Rightarrow> account_row" where
  "unattachedRow db orgId =
     \<lparr>arFreePeople = None, arFreeVaults = None, arOverride = None, arComplimentaryUntil = None,
      arVaults = 1, arPeople = memberCount db orgId,
      arReserved = length (remdups (map (\<lambda>i. dbLower db (ivEmail i))
        (filter (\<lambda>i. ivOrg i = orgId \<and> pendingInvite db i) (invitations db)))),
      arSubStatus = None, arSubSeats = None, arSubPeriodEnd = None\<rparr>"

definition resolveAccountPlan :: "deployment \<Rightarrow> database \<Rightarrow> plan_target \<Rightarrow> account_plan" where
  "resolveAccountPlan env db target =
     (if \<not> teamModel env then legacyPlan env db target
      else
        (let enforced = planEnforced env;
             accountId = accountIdFor db target
         in if \<not> truthy accountId
            then planFromRow env None
                   (case target of OrgTarget o' \<Rightarrow> Some (unattachedRow db o') | _ \<Rightarrow> None)
                   enforced (dbNow db)
            else planFromRow env accountId (loadAccount db (the accountId)) enforced (dbNow db)))"

section \<open>Seat gates\<close>

datatype seat_refusal =
    AccountReadOnly
  | MemberLimitReached int
  | SeatLimitReached int nat nat

record who =
  whoEmail :: "string option"
  whoUserId :: "string option"

text \<open>The vaults of the account a vault is attached to, that vault included.\<close>

definition accountScope :: "database \<Rightarrow> string \<Rightarrow> string set" where
  "accountScope db orgId =
     insert orgId {aoOrg r | r. r \<in> set (accountOrgs db) \<and> Some (aoAccount r) = accountIdForOrg db orgId}"

definition inAccountScope :: "database \<Rightarrow> string \<Rightarrow> string \<Rightarrow> bool" where
  "inAccountScope db orgId o' \<longleftrightarrow>
     o' = orgId \<or>
     list_ex (\<lambda>r. aoOrg r = o' \<and> Some (aoAccount r) = accountIdForOrg db orgId) (accountOrgs db)"

lemma inAccountScope_iff: "inAccountScope db orgId o' \<longleftrightarrow> o' \<in> accountScope db orgId"
  by (auto simp: inAccountScope_def accountScope_def list_ex_iff)

definition alreadyOnAccount :: "database \<Rightarrow> string \<Rightarrow> who \<Rightarrow> bool" where
  "alreadyOnAccount db orgId w =
     (if \<not> truthy (whoEmail w) \<and> \<not> truthy (whoUserId w) then False
      else list_ex (\<lambda>m. inAccountScope db orgId (mbOrg m) \<and>
             list_ex (\<lambda>u. usId u = mbUser m \<and>
                (whoUserId w = Some (usId u) \<or>
                 (case whoEmail w of None \<Rightarrow> False
                  | Some e \<Rightarrow> dbLower db (usEmail u) = dbLower db e))) (users db)) (members db))"

definition alreadyReserved :: "database \<Rightarrow> string \<Rightarrow> string \<Rightarrow> bool" where
  "alreadyReserved db orgId email =
     list_ex (\<lambda>i. pendingInvite db i \<and> dbLower db (ivEmail i) = dbLower db email \<and>
        inAccountScope db orgId (ivOrg i)) (invitations db)"

definition refusal :: "account_plan \<Rightarrow> int \<Rightarrow> seat_refusal" where
  "refusal plan cap =
     (if apPlan plan = Team then SeatLimitReached cap (apSeatsUsed plan) (apSeatsReserved plan)
      else MemberLimitReached cap)"

definition checkInviteSeat :: "deployment \<Rightarrow> database \<Rightarrow> string \<Rightarrow> string option
    \<Rightarrow> account_plan option \<Rightarrow> seat_refusal option" where
  "checkInviteSeat env db orgId email plan =
     (let p = (case plan of Some p \<Rightarrow> p | None \<Rightarrow> resolveAccountPlan env db (OrgTarget orgId)) in
      if apLapsed p then Some AccountReadOnly
      else case plPeople (apLimits p) of
        None \<Rightarrow> None
      | Some cap \<Rightarrow>
          if truthy email \<and>
             (alreadyOnAccount db orgId \<lparr>whoEmail = email, whoUserId = None\<rparr> \<or>
              alreadyReserved db orgId (the email))
          then None
          else if int (apSeatsUsed p) + int (apSeatsReserved p) + 1 > cap then Some (refusal p cap)
          else None)"

definition checkJoinSeat :: "deployment \<Rightarrow> database \<Rightarrow> string \<Rightarrow> who
    \<Rightarrow> account_plan option \<Rightarrow> seat_refusal option" where
  "checkJoinSeat env db orgId w plan =
     (let p = (case plan of Some p \<Rightarrow> p | None \<Rightarrow> resolveAccountPlan env db (OrgTarget orgId)) in
      if apLapsed p then Some AccountReadOnly
      else case plPeople (apLimits p) of
        None \<Rightarrow> None
      | Some cap \<Rightarrow>
          if alreadyOnAccount db orgId w then None
          else if int (apSeatsUsed p) + 1 > cap then Some (refusal p cap)
          else None)"

end
