(* ===== verification/Accounts.thy ===== *)
theory Accounts
  imports Billing "HOL-Library.List_Lexorder" "HOL-Library.Char_ord"
begin

text \<open>
  What stands on the plan resolver: the entitlement questions (\<open>billing/entitlements.ts\<close>), the
  note quota (\<open>billing/note-quota.ts\<close>), lazily created billing accounts
  (\<open>billing/accounts.ts\<close>) and the lapse verdict with its memory and its notifications
  (\<open>billing/lapse.ts\<close>). \<open>ORDER BY\<close> on text columns is taken bytewise.
\<close>

section \<open>Entitlements\<close>

datatype billing_interval = Month | Year
datatype entitlement_plan = PlanFree | PlanPro

record entitlement =
  etPlan :: entitlement_plan
  etStatus :: plan_status
  etPeriodEnd :: "int option"
  etCancelAtEnd :: bool
  etCustomer :: "string option"
  etSubscription :: "string option"
  etActive :: bool
  etInterval :: "billing_interval option"
  etAmount :: "int option"
  etCurrency :: "string option"

definition normalizeStatusForApi :: "string \<Rightarrow> plan_status" where
  "normalizeStatusForApi status =
     (if status = ''active'' then StActive
      else if status = ''past_due'' then StPastDue
      else if status = ''canceled'' then StCanceled
      else StNone)"

definition normalizeIntervalForApi :: "string option \<Rightarrow> billing_interval option" where
  "normalizeIntervalForApi interval =
     (if interval = Some ''month'' then Some Month
      else if interval = Some ''year'' then Some Year
      else None)"

definition getEntitlement :: "database \<Rightarrow> string \<Rightarrow> entitlement" where
  "getEntitlement db orgId =
     (case first_row (\<lambda>s. sbOrg s = Some orgId) (subscriptions db) of
        None \<Rightarrow>
          \<lparr>etPlan = PlanFree, etStatus = StNone, etPeriodEnd = None, etCancelAtEnd = False,
           etCustomer = None, etSubscription = None, etActive = False, etInterval = None,
           etAmount = None, etCurrency = None\<rparr>
      | Some row \<Rightarrow>
          (let active = sbStatus row \<in> set ACTIVE in
           \<lparr>etPlan = (if active then PlanPro else PlanFree),
            etStatus = normalizeStatusForApi (sbStatus row),
            etPeriodEnd = sbPeriodEnd row, etCancelAtEnd = sbCancelAtEnd row,
            etCustomer = sbCustomer row, etSubscription = sbSubscription row, etActive = active,
            etInterval = normalizeIntervalForApi (sbInterval row), etAmount = sbAmount row,
            etCurrency = sbCurrency row\<rparr>))"

definition countOwnedUnsubscribedOrgs :: "database \<Rightarrow> string \<Rightarrow> nat" where
  "countOwnedUnsubscribedOrgs db userId =
     sum_list (map (\<lambda>m.
       let subs = filter (\<lambda>s. sbOrg s = Some (mbOrg m)) (subscriptions db)
       in if subs = [] then 1 else length (filter (\<lambda>s. sbStatus s \<notin> set ACTIVE) subs))
       (filter (\<lambda>m. mbUser m = userId \<and> mbRole m = ''owner'') (members db)))"

definition seatCount :: "database \<Rightarrow> string \<Rightarrow> nat \<times> nat" where
  "seatCount db orgId = (memberCount db orgId, pendingCount db orgId)"

definition storageLimitBytes :: "deployment \<Rightarrow> database \<Rightarrow> string \<Rightarrow> int option" where
  "storageLimitBytes env db orgId =
     (if teamModel env
      then plStorageBytes (apLimits (resolveAccountPlan env db (OrgTarget orgId)))
      else legacyStorageLimitBytes env db orgId)"

definition accountEntitlement :: "database \<Rightarrow> string \<Rightarrow> int option" where
  "accountEntitlement db userId =
     map_option enVaultLimit (first_row (\<lambda>e. enUser e = userId) (accountEntitlements db))"

definition freeVaultLimitForUser :: "deployment \<Rightarrow> database \<Rightarrow> string \<Rightarrow> int" where
  "freeVaultLimitForUser env db userId =
     (if \<not> billingEnabled env then freeMaxVaults env
      else case accountEntitlement db userId of None \<Rightarrow> freeMaxVaults env | Some n \<Rightarrow> n)"

definition canSyncAttachments :: "deployment \<Rightarrow> database \<Rightarrow> string \<Rightarrow> bool" where
  "canSyncAttachments env db orgId =
     (if teamModel env
      then plFileSync (apLimits (resolveAccountPlan env db (OrgTarget orgId)))
      else legacyCanSyncAttachments env db orgId)"

definition canCreateOrganization :: "deployment \<Rightarrow> database \<Rightarrow> string \<Rightarrow> bool \<times> int" where
  "canCreateOrganization env db userId =
     (if teamModel env then
        (let plan = resolveAccountPlan env db (UserTarget userId);
             cap = plVaults (apLimits plan)
         in (case cap of None \<Rightarrow> True | Some c \<Rightarrow> int (apVaultsAttached plan) < c,
             case cap of None \<Rightarrow> int (apVaultsAttached plan) + 1 | Some c \<Rightarrow> c))
      else if \<not> billingEnabled env then (True, freeMaxVaults env)
      else
        (let limit = freeVaultLimitForUser env db userId
         in (int (countOwnedUnsubscribedOrgs db userId) < limit, limit)))"

definition canAddMember :: "deployment \<Rightarrow> database \<Rightarrow> string \<Rightarrow> bool \<times> int" where
  "canAddMember env db orgId =
     (if teamModel env then
        (case checkInviteSeat env db orgId None None of
           None \<Rightarrow> (True, freeMaxMembers env)
         | Some refused \<Rightarrow>
             (False, case refused of
                SeatLimitReached seats _ _ \<Rightarrow> seats
              | MemberLimitReached limit \<Rightarrow> limit
              | AccountReadOnly \<Rightarrow> freeMaxMembers env))
      else if \<not> billingEnabled env then (True, freeMaxMembers env)
      else if orgHasActiveSubscription db orgId then (True, freeMaxMembers env)
      else
        (let (mems, pend) = seatCount db orgId
         in (int mems + int pend < freeMaxMembers env, freeMaxMembers env)))"

section \<open>The note quota\<close>

definition FREE_NOTE_LIMIT :: int where "FREE_NOTE_LIMIT = 20000"

definition liveNotes :: "database \<Rightarrow> string \<Rightarrow> nat" where
  "liveNotes db vaultId =
     length (filter (\<lambda>n. ntVault n = vaultId \<and> ntDeletedAt n = None) (noteRows db))"

text \<open>The arguments \<open>withNoteQuota\<close> hands to its work under the vault's advisory lock: how many
  notes may still be added (\<open>None\<close>: no cap), and the cap.\<close>

definition noteQuota :: "deployment \<Rightarrow> database \<Rightarrow> string \<Rightarrow> int option \<times> int" where
  "noteQuota env db vaultId =
     (if \<not> requiresCloudPlan env then (None, FREE_NOTE_LIMIT)
      else
        (let row = first_row (\<lambda>v. vtId v = vaultId) (vaults db);
             remaining = (\<lambda>cap. max 0 (cap - int (liveNotes db vaultId)))
         in if teamModel env then
              (case Option.bind row (\<lambda>v. plNotesPerVault (apLimits
                       (resolveAccountPlan env db (OrgTarget (vtOrg v))))) of
                 None \<Rightarrow> (None, FREE_NOTE_LIMIT)
               | Some cap \<Rightarrow> (Some (remaining cap), cap))
            else if (case row of None \<Rightarrow> False | Some v \<Rightarrow> orgHasActiveSubscription db (vtOrg v))
            then (None, FREE_NOTE_LIMIT)
            else (Some (remaining FREE_NOTE_LIMIT), FREE_NOTE_LIMIT)))"

section \<open>Accounts\<close>

definition accountOfOwner :: "database \<Rightarrow> string \<Rightarrow> string option" where
  "accountOfOwner db userId = map_option baId (first_row (\<lambda>a. baOwner a = userId) (billingAccounts db))"

text \<open>\<open>INSERT ... SELECT ... ON CONFLICT DO NOTHING\<close>: both the primary key and the unique owner
  make a conflict.\<close>

definition ensureAccountForUser :: "database \<Rightarrow> string \<Rightarrow> database \<times> string option" where
  "ensureAccountForUser db userId =
     (let newId = ''ba_'' @ dbMd5 db userId;
          row = \<lparr>baId = newId, baOwner = userId, baFreePeople = None, baFreeVaults = None,
                 baOverride = None, baComplimentaryUntil = None\<rparr>;
          db' = (if list_ex (\<lambda>u. usId u = userId) (users db) \<and>
                    \<not> list_ex (\<lambda>a. baId a = newId \<or> baOwner a = userId) (billingAccounts db)
                 then db\<lparr>billingAccounts := billingAccounts db @ [row]\<rparr> else db)
      in (db', accountOfOwner db' userId))"

definition ownerOf :: "database \<Rightarrow> string \<Rightarrow> string option" where
  "ownerOf db orgId =
     map_option mbUser (first_row (\<lambda>_. True)
       (sort_key mbCreatedAt (sort_key mbId
         (filter (\<lambda>m. mbOrg m = orgId \<and> mbOrg m \<in> set (organizations db) \<and> mbRole m = ''owner'')
           (members db)))))"

definition ensureAccountForOrg :: "database \<Rightarrow> string \<Rightarrow> database \<times> string option" where
  "ensureAccountForOrg db orgId =
     (let existing = accountIdForOrg db orgId in
      if truthy existing then (db, existing)
      else
        (let ownerId = ownerOf db orgId in
         if \<not> truthy ownerId then (db, None)
         else
           (let (db1, accountId) = ensureAccountForUser db (the ownerId) in
            if \<not> truthy accountId then (db1, None)
            else
              (let row = \<lparr>aoOrg = orgId, aoAccount = the accountId, aoAttachedAt = dbNow db1,
                          aoAttachedBy = ownerId\<rparr>;
                   db2 = (if orgId \<in> set (organizations db1) \<and>
                             \<not> list_ex (\<lambda>r. aoOrg r = orgId) (accountOrgs db1)
                          then db1\<lparr>accountOrgs := accountOrgs db1 @ [row]\<rparr> else db1)
               in (db2, accountIdForOrg db2 orgId)))))"

definition orgIdsForAccount :: "database \<Rightarrow> string \<Rightarrow> string list" where
  "orgIdsForAccount db accountId =
     map aoOrg (sort_key aoAttachedAt (sort_key aoOrg
       (filter (\<lambda>r. aoAccount r = accountId) (accountOrgs db))))"

definition countAccountPeople :: "database \<Rightarrow> string \<Rightarrow> nat" where
  "countAccountPeople db accountId =
     length (remdups (map mbUser
       (filter (\<lambda>m. mbOrg m \<in> set (attachedOrgs db accountId)) (members db))))"

definition countPendingInvites :: "database \<Rightarrow> string \<Rightarrow> nat" where
  "countPendingInvites db accountId =
     (let orgs = attachedOrgs db accountId in
      length (remdups (map (\<lambda>i. dbLower db (ivEmail i))
        (filter (\<lambda>i. ivOrg i \<in> set orgs \<and> pendingInvite db i \<and>
           \<not> list_ex (\<lambda>m. mbOrg m \<in> set orgs \<and>
                list_ex (\<lambda>u. usId u = mbUser m \<and> dbLower db (usEmail u) = dbLower db (ivEmail i))
                  (users db)) (members db))
          (invitations db)))))"

section \<open>The lapse verdict\<close>

text \<open>\<open>lastVerdict\<close> is the module's memory; \<open>notified\<close> the vault ids handed to the notifier, in
  order (nothing is recorded while no notifier is set).\<close>

record lapse_state =
  lastVerdict :: "(string, bool) js_map"
  hasNotifier :: bool
  notified :: "string list"

definition fanOut :: "database \<Rightarrow> string \<Rightarrow> lapse_state \<Rightarrow> lapse_state" where
  "fanOut db accountId st =
     (if \<not> hasNotifier st then st
      else
        (let orgIds = orgIdsForAccount db accountId in
         if orgIds = [] then st
         else st\<lparr>notified := notified st @
                map vtId (filter (\<lambda>v. vtOrg v \<in> set orgIds) (vaults db))\<rparr>))"

definition isLapsed :: "deployment \<Rightarrow> database \<Rightarrow> string \<Rightarrow> bool" where
  "isLapsed env db accountId = apLapsed (resolveAccountPlan env db (AccountTarget accountId))"

definition recheckAccount :: "deployment \<Rightarrow> database \<Rightarrow> string \<Rightarrow> lapse_state \<Rightarrow> lapse_state \<times> bool" where
  "recheckAccount env db accountId st =
     (let now = isLapsed env db accountId;
          before = js_get (lastVerdict st) accountId;
          st1 = st\<lparr>lastVerdict := js_put accountId now (lastVerdict st)\<rparr>;
          st2 = (if before \<noteq> Some now \<and> (before \<noteq> None \<or> now) then fanOut db accountId st1 else st1)
      in (st2, now))"

definition isAccountReadOnly :: "deployment \<Rightarrow> database \<Rightarrow> string \<Rightarrow> bool" where
  "isAccountReadOnly env db orgId =
     (if \<not> lapseEnforced env then False
      else apLapsed (resolveAccountPlan env db (OrgTarget orgId)))"

definition recheckTarget :: "deployment \<Rightarrow> database \<Rightarrow> string option \<Rightarrow> string option \<Rightarrow> lapse_state
    \<Rightarrow> lapse_state" where
  "recheckTarget env db accountId orgId st =
     (let id = (case accountId of Some a \<Rightarrow> Some a
               | None \<Rightarrow> if truthy orgId then accountIdForOrg db (the orgId) else None)
      in if truthy id then fst (recheckAccount env db (the id) st) else st)"

definition onMembershipTrimmed :: "deployment \<Rightarrow> database \<Rightarrow> string \<Rightarrow> string option \<Rightarrow> lapse_state
    \<Rightarrow> lapse_state" where
  "onMembershipTrimmed env db orgId accountId st =
     (let id = (case accountId of Some a \<Rightarrow> Some a | None \<Rightarrow> accountIdForOrg db orgId)
      in if truthy id then fst (recheckAccount env db (the id) st) else st)"

definition TWO_HOURS :: int where "TWO_HOURS = 2 * 60 * 60 * 1000"

definition expiredAccounts :: "database \<Rightarrow> string list" where
  "expiredAccounts db =
     remdups (map (\<lambda>s. the (sbAccount s))
       (filter (\<lambda>s. sbAccount s \<noteq> None \<and> sbStatus s \<notin> set ACTIVE \<and>
          (case sbPeriodEnd s of None \<Rightarrow> False | Some t \<Rightarrow> t \<le> dbNow db \<and> t > dbNow db - TWO_HOURS))
         (subscriptions db)))"

definition tickIds :: "database \<Rightarrow> lapse_state \<Rightarrow> string js_set" where
  "tickIds db st =
     fold js_add (map fst (filter snd (lastVerdict st))) (js_set_of (expiredAccounts db))"

definition tickStep :: "deployment \<Rightarrow> database \<Rightarrow> string \<Rightarrow> lapse_state \<times> nat \<Rightarrow> lapse_state \<times> nat" where
  "tickStep env db accId = (\<lambda>(st, flipped).
     let before = js_get (lastVerdict st) accId;
         (st1, now) = recheckAccount env db accId st
     in (st1, if before \<noteq> Some now then flipped + 1 else flipped))"

definition lapseTick :: "deployment \<Rightarrow> database \<Rightarrow> lapse_state \<Rightarrow> lapse_state \<times> nat" where
  "lapseTick env db st = fold (tickStep env db) (tickIds db st) (st, 0)"

definition resetLapseMemory :: "lapse_state \<Rightarrow> lapse_state" where
  "resetLapseMemory st = st\<lparr>lastVerdict := []\<rparr>"

end
