(* ===== verification/Billing_Props.thy ===== *)
theory Billing_Props
  imports Accounts
begin

text \<open>
  What the billing side guarantees: which accounts lapse, that the join gate keeps an account
  within its people limit, that a lapse tick reaches a fixpoint, and that lazy account creation
  keeps one account per owner and never moves an attached vault (\<open>acc\<close>, an
  \<open>invariant_machine\<close>).
\<close>

section \<open>People and seats\<close>

lemma set_peopleOf:
  "set (peopleOf db orgs) =
     {(mbUser m, dbLower db (usEmail u)) | m u.
        m \<in> set (members db) \<and> mbOrg m \<in> set orgs \<and> u \<in> set (users db) \<and> usId u = mbUser m}"
  unfolding peopleOf_def by auto

lemma length_peopleOf: "length (peopleOf db orgs) = card (set (peopleOf db orgs))"
  by (simp add: peopleOf_def length_remdups_card_conv)

definition add_member :: "member_row \<Rightarrow> database \<Rightarrow> database" where
  "add_member m db = db\<lparr>members := members db @ [m]\<rparr>"

lemma add_member_sel [simp]:
  "members (add_member m db) = members db @ [m]" "users (add_member m db) = users db"
  "invitations (add_member m db) = invitations db" "accountOrgs (add_member m db) = accountOrgs db"
  "billingAccounts (add_member m db) = billingAccounts db"
  "subscriptions (add_member m db) = subscriptions db"
  "dbNow (add_member m db) = dbNow db" "dbLower (add_member m db) = dbLower db"
  by (simp_all add: add_member_def)

lemma people_add_member:
  assumes "distinct (map usId (users db))"
  shows "length (peopleOf (add_member m db) orgs) \<le> Suc (length (peopleOf db orgs))"
proof -
  let ?new = "{(mbUser m, dbLower db (usEmail u)) | u. u \<in> set (users db) \<and> usId u = mbUser m}"
  have one: "\<exists>x. ?new \<subseteq> {x}"
  proof (cases "?new = {}")
    case False
    then obtain x where x: "x \<in> ?new" by blast
    have "u = u'" if "u \<in> set (users db)" "u' \<in> set (users db)" "usId u = usId u'" for u u'
      using assms that by (metis distinct_map inj_on_def)
    obtain u where u: "u \<in> set (users db)" "usId u = mbUser m" "x = (mbUser m, dbLower db (usEmail u))"
      using x by blast
    have "y = x" if "y \<in> ?new" for y
      using that u \<open>\<And>u u'. u \<in> set (users db) \<Longrightarrow> u' \<in> set (users db) \<Longrightarrow> usId u = usId u' \<Longrightarrow> u = u'\<close>
      by force
    then show ?thesis by blast
  next
    case True
    then show ?thesis by (metis empty_subsetI)
  qed
  then obtain x where x: "?new \<subseteq> {x}" by blast
  have "set (peopleOf (add_member m db) orgs) \<subseteq> set (peopleOf db orgs) \<union> ?new"
    by (auto simp: set_peopleOf)
  also have "\<dots> \<subseteq> insert x (set (peopleOf db orgs))" using x by blast
  finally have "card (set (peopleOf (add_member m db) orgs)) \<le> card (insert x (set (peopleOf db orgs)))"
    by (intro card_mono) simp_all
  also have "\<dots> \<le> Suc (card (set (peopleOf db orgs)))" by (simp add: card_insert_if)
  finally show ?thesis by (simp add: length_peopleOf)
qed

lemma people_add_known:
  assumes "m' \<in> set (members db)" "mbOrg m' \<in> set orgs" "mbUser m' = mbUser m"
  shows "length (peopleOf (add_member m db) orgs) = length (peopleOf db orgs)"
proof -
  have "set (peopleOf (add_member m db) orgs) = set (peopleOf db orgs)"
  proof
    show "set (peopleOf (add_member m db) orgs) \<subseteq> set (peopleOf db orgs)"
    proof
      fix p assume "p \<in> set (peopleOf (add_member m db) orgs)"
      then obtain k u where k: "k \<in> set (members db) \<or> k = m" "mbOrg k \<in> set orgs"
        "u \<in> set (users db)" "usId u = mbUser k" "p = (mbUser k, dbLower db (usEmail u))"
        by (auto simp: set_peopleOf)
      have "\<exists>k' \<in> set (members db). mbOrg k' \<in> set orgs \<and> mbUser k' = mbUser k"
        using k(1,2) assms by auto
      then show "p \<in> set (peopleOf db orgs)"
        unfolding set_peopleOf using k(3-5) by (intro CollectI) (metis (no_types))
    qed
    show "set (peopleOf db orgs) \<subseteq> set (peopleOf (add_member m db) orgs)"
      unfolding set_peopleOf add_member_sel by auto
  qed
  then show ?thesis by (simp add: length_peopleOf)
qed

lemma limits_planFromRow [simp]:
  "apLimits (planFromRow env a (Some (r\<lparr>arPeople := n\<rparr>)) e now) = apLimits (planFromRow env a (Some r) e now)"
  "apLimits (planFromRow env a (Some (r\<lparr>arPeople := n, arReserved := k\<rparr>)) e now) =
     apLimits (planFromRow env a (Some r) e now)"
  by (simp_all add: planFromRow_def Let_def)

lemma seats_planFromRow:
  "apSeatsUsed (planFromRow env a row e now) = (case row of None \<Rightarrow> 0 | Some r \<Rightarrow> arPeople r)"
  "apSeatsReserved (planFromRow env a row e now) = (case row of None \<Rightarrow> 0 | Some r \<Rightarrow> arReserved r)"
  by (simp_all add: planFromRow_def Let_def)

lemma attachedOrgs_add [simp]: "attachedOrgs (add_member m db) a = attachedOrgs db a"
  by (simp add: attachedOrgs_def)

lemma accountIdForOrg_add [simp]: "accountIdForOrg (add_member m db) a = accountIdForOrg db a"
  by (simp add: accountIdForOrg_def)

lemma loadAccount_add:
  "loadAccount (add_member m db) a =
     map_option (\<lambda>r. r\<lparr>arPeople := length (peopleOf (add_member m db) (attachedOrgs db a)),
                      arReserved := length (reservedEmails (add_member m db) (attachedOrgs db a))\<rparr>)
       (loadAccount db a)"
  by (auto simp: loadAccount_def Let_def split: option.splits)

lemma loadAccount_people:
  "loadAccount db a = Some r \<Longrightarrow> arPeople r = length (peopleOf db (attachedOrgs db a))"
  by (auto simp: loadAccount_def Let_def split: option.splits)

lemma attached_scope:
  "accountIdForOrg db orgId = Some a \<Longrightarrow> inAccountScope db orgId o' \<longleftrightarrow> o' \<in> set (attachedOrgs db a)"
  by (force simp: inAccountScope_def list_ex_iff attachedOrgs_def accountIdForOrg_def
        dest: first_row_Some)

lemma unattached_scope:
  "accountIdForOrg db orgId = None \<Longrightarrow> inAccountScope db orgId o' \<longleftrightarrow> o' = orgId"
  by (auto simp: inAccountScope_def list_ex_iff)

lemma plan_of_org:
  assumes "teamModel env" "accountIdForOrg db orgId \<noteq> Some []"
  shows "resolveAccountPlan env db (OrgTarget orgId) =
     planFromRow env (accountIdForOrg db orgId)
       (case accountIdForOrg db orgId of None \<Rightarrow> Some (unattachedRow db orgId)
        | Some a \<Rightarrow> loadAccount db a) (planEnforced env) (dbNow db)"
  using assms
  by (auto simp: resolveAccountPlan_def Let_def accountIdFor_def truthy_def
        simp flip: accountIdForOrg_def split: option.splits)

lemma unattached_add:
  "unattachedRow (add_member m db) orgId =
     (unattachedRow db orgId)\<lparr>arPeople := memberCount (add_member m db) orgId\<rparr>"
  by (simp add: unattachedRow_def pendingInvite_def)

lemma limits_add_member:
  assumes "teamModel env" "accountIdForOrg db orgId \<noteq> Some []"
  shows "apLimits (resolveAccountPlan env (add_member m db) (OrgTarget orgId)) =
     apLimits (resolveAccountPlan env db (OrgTarget orgId))"
proof (cases "accountIdForOrg db orgId")
  case None
  then show ?thesis using assms by (simp add: plan_of_org unattached_add)
next
  case (Some a)
  then show ?thesis using assms by (cases "loadAccount db a") (simp_all add: plan_of_org loadAccount_add)
qed

lemma known_person:
  "alreadyOnAccount db orgId \<lparr>whoEmail = None, whoUserId = Some u\<rparr> \<Longrightarrow>
   \<exists>m \<in> set (members db). inAccountScope db orgId (mbOrg m) \<and> mbUser m = u"
  by (auto simp: alreadyOnAccount_def list_ex_iff split: if_splits)

lemma seats_add_member:
  assumes "teamModel env" "accountIdForOrg db orgId \<noteq> Some []"
    and "distinct (map usId (users db))"
    and "mbOrg m = orgId" "\<forall>m' \<in> set (members db). \<not> (mbOrg m' = orgId \<and> mbUser m' = mbUser m)"
  shows "apSeatsUsed (resolveAccountPlan env (add_member m db) (OrgTarget orgId)) \<le>
     apSeatsUsed (resolveAccountPlan env db (OrgTarget orgId)) +
     (if alreadyOnAccount db orgId \<lparr>whoEmail = None, whoUserId = Some (mbUser m)\<rparr> then 0 else 1)"
proof (cases "accountIdForOrg db orgId")
  case None
  have "\<not> alreadyOnAccount db orgId \<lparr>whoEmail = None, whoUserId = Some (mbUser m)\<rparr>"
    using assms(5) None by (auto dest!: known_person simp: unattached_scope)
  then show ?thesis
    using assms(1,2,4) None
    by (simp add: plan_of_org seats_planFromRow unattachedRow_def memberCount_def)
next
  case (Some a)
  show ?thesis
  proof (cases "loadAccount db a")
    case None
    then show ?thesis using assms(1,2) Some
      by (simp add: plan_of_org seats_planFromRow loadAccount_add)
  next
    case row: (Some r)
    let ?known = "alreadyOnAccount db orgId \<lparr>whoEmail = None, whoUserId = Some (mbUser m)\<rparr>"
    have "length (peopleOf (add_member m db) (attachedOrgs db a)) \<le>
        length (peopleOf db (attachedOrgs db a)) + (if ?known then 0 else 1)"
    proof (cases ?known)
      case True
      then obtain m' where "m' \<in> set (members db)" "mbOrg m' \<in> set (attachedOrgs db a)"
        "mbUser m' = mbUser m"
        using known_person attached_scope [OF Some] by blast
      then show ?thesis using people_add_known True by simp
    next
      case False
      then show ?thesis using people_add_member [OF assms(3)] by simp
    qed
    then show ?thesis using assms(1,2) Some row
      by (simp add: plan_of_org seats_planFromRow loadAccount_add loadAccount_people)
  qed
qed

section \<open>The lapse tick\<close>

lemma recheck_memory:
  "lastVerdict (fst (recheckAccount env db a st)) = js_put a (isLapsed env db a) (lastVerdict st)"
  by (simp add: recheckAccount_def Let_def fanOut_def)

lemma recheck_settled:
  "js_get (lastVerdict st) a = Some (isLapsed env db a) \<Longrightarrow> fst (recheckAccount env db a st) = st"
  by (simp add: recheckAccount_def Let_def update_triv)

lemma snd_recheck: "snd (recheckAccount env db a st) = isLapsed env db a"
  by (simp add: recheckAccount_def Let_def)

lemma tick_memory:
  "js_get (lastVerdict (fst (fold (tickStep env db) ids (st, n)))) a =
     (if a \<in> set ids then Some (isLapsed env db a) else js_get (lastVerdict st) a)"
proof (induction ids arbitrary: st n)
  case (Cons i ids)
  have "fst (tickStep env db i (st, n)) = fst (recheckAccount env db i st)"
    by (simp add: tickStep_def Let_def case_prod_beta)
  then show ?case
    using Cons.IH [of "fst (recheckAccount env db i st)" "snd (tickStep env db i (st, n))"]
    by (cases "tickStep env db i (st, n)") (auto simp: recheck_memory)
qed simp

lemma tick_distinct:
  "distinct (map fst (lastVerdict st)) \<Longrightarrow>
   distinct (map fst (lastVerdict (fst (fold (tickStep env db) ids (st, n)))))"
proof (induction ids arbitrary: st n)
  case (Cons i ids)
  have "distinct (map fst (lastVerdict (fst (recheckAccount env db i st))))"
    using Cons.prems by (simp add: recheck_memory distinct_update)
  then show ?case
    using Cons.IH [of "fst (recheckAccount env db i st)"]
    by (simp add: tickStep_def Let_def case_prod_beta)
qed simp

lemma tick_settled:
  assumes "\<forall>a \<in> set ids. js_get (lastVerdict st) a = Some (isLapsed env db a)"
  shows "fold (tickStep env db) ids (st, n) = (st, n)"
  using assms
  by (induction ids) (auto simp: tickStep_def Let_def case_prod_beta recheck_settled snd_recheck)

lemma set_tickIds:
  assumes "distinct (map fst (lastVerdict st))"
  shows "set (tickIds db st) = set (expiredAccounts db) \<union> {a. js_get (lastVerdict st) a = Some True}"
  using assms by (force simp: tickIds_def)

section \<open>Accounts\<close>

definition accounts_inv :: "database \<Rightarrow> bool" where
  "accounts_inv db \<longleftrightarrow>
     distinct (map baId (billingAccounts db)) \<and> distinct (map baOwner (billingAccounts db)) \<and>
     distinct (map aoOrg (accountOrgs db)) \<and>
     (\<forall>r \<in> set (accountOrgs db). aoAccount r \<in> baId ` set (billingAccounts db))"

lemma ensureAccountForUser_inv:
  "accounts_inv db \<Longrightarrow> accounts_inv (fst (ensureAccountForUser db u))"
  by (auto simp: ensureAccountForUser_def Let_def accounts_inv_def list_ex_iff)

lemma accountOfOwner_Some: "accountOfOwner db u = Some a \<Longrightarrow> a \<in> baId ` set (billingAccounts db)"
  by (auto simp: accountOfOwner_def dest: first_row_Some)

lemma accountOfOwner_mem:
  "snd (ensureAccountForUser db u) = Some a \<Longrightarrow> a \<in> baId ` set (billingAccounts (fst (ensureAccountForUser db u)))"
  unfolding ensureAccountForUser_def Let_def fst_conv snd_conv by (rule accountOfOwner_Some)

lemma accountOrgs_ensureUser [simp]:
  "accountOrgs (fst (ensureAccountForUser db u)) = accountOrgs db"
  "organizations (fst (ensureAccountForUser db u)) = organizations db"
  by (simp_all add: ensureAccountForUser_def Let_def)

lemma accounts_inv_attach:
  assumes "accounts_inv db" "accountOrgs db = rows" "\<not> list_ex (\<lambda>r. aoOrg r = aoOrg row) rows"
    and "aoAccount row \<in> baId ` set (billingAccounts db)"
  shows "accounts_inv (db\<lparr>accountOrgs := rows @ [row]\<rparr>)"
  using assms by (auto simp: accounts_inv_def list_ex_iff)

lemma ensureAccountForOrg_inv:
  assumes "accounts_inv db" shows "accounts_inv (fst (ensureAccountForOrg db orgId))"
proof -
  let ?e = "ensureAccountForUser db (the (ownerOf db orgId))"
  have "accounts_inv (fst ?e)" using assms by (rule ensureAccountForUser_inv)
  moreover have "the (snd ?e) \<in> baId ` set (billingAccounts (fst ?e))" if "truthy (snd ?e)"
    using that accountOfOwner_mem by (auto simp: truthy_def)
  moreover have "accounts_inv ((fst ?e)\<lparr>accountOrgs := accountOrgs db @ [row]\<rparr>)"
    if "accounts_inv (fst ?e)" "\<not> list_ex (\<lambda>r. aoOrg r = aoOrg row) (accountOrgs db)"
      "aoAccount row \<in> baId ` set (billingAccounts (fst ?e))" for row
    using that by (intro accounts_inv_attach) simp_all
  ultimately show ?thesis using assms
    by (simp add: ensureAccountForOrg_def Let_def case_prod_beta)
qed

interpretation acc: invariant_machine "\<lambda>orgId db. fst (ensureAccountForOrg db orgId)" accounts_inv
  by unfold_locales (rule ensureAccountForOrg_inv)

lemma ensureAccountForOrg_keeps:
  "accountIdForOrg db o' = Some a \<Longrightarrow> accountIdForOrg (fst (ensureAccountForOrg db orgId)) o' = Some a"
  by (auto simp: ensureAccountForOrg_def Let_def case_prod_beta accountIdForOrg_def first_row_append)

section \<open>Properties\<close>

definition office :: deployment where
  "office = \<lparr>requiresCloudPlan = True, billingEnabled = True, billingTeam = True, abuseMaxNotes = 100,
     abuseMaxStorageMb = 10, freeMaxVaults = 2, freeMaxMembers = 3, freeMaxStorageMb = 1\<rparr>"

definition team_of_two :: database where
  "team_of_two = \<lparr>organizations = [''o''], users = [\<lparr>usId = ''u1'', usEmail = ''a''\<rparr>, \<lparr>usId = ''u2'', usEmail = ''b''\<rparr>],
     members = [\<lparr>mbId = ''m1'', mbOrg = ''o'', mbUser = ''u1'', mbRole = ''owner'', mbCreatedAt = 0\<rparr>],
     memberSnapshots = [], invitations = [], vaults = [], folders = [], noteRows = [], fileRows = [],
     shares = [],
     billingAccounts = [\<lparr>baId = ''A'', baOwner = ''u1'', baFreePeople = None, baFreeVaults = None,
        baOverride = None, baComplimentaryUntil = None\<rparr>],
     accountOrgs = [\<lparr>aoOrg = ''o'', aoAccount = ''A'', aoAttachedAt = 0, aoAttachedBy = None\<rparr>],
     subscriptions = [], accountEntitlements = [], dbNow = 10, dbLower = \<lambda>s. s, dbMd5 = \<lambda>s. s, dbShareOrg = \<lambda>_. []\<rparr>"

definition newcomer :: member_row where
  "newcomer = \<lparr>mbId = ''m2'', mbOrg = ''o'', mbUser = ''u2'', mbRole = ''member'', mbCreatedAt = 10\<rparr>"

lemma team_of_two_facts:
  "teamModel office" "accountIdForOrg team_of_two ''o'' \<noteq> Some []" "distinct (map usId (users team_of_two))"
  "\<forall>m' \<in> set (members team_of_two). \<not> (mbOrg m' = ''o'' \<and> mbUser m' = mbUser newcomer)"
  "plPeople (apLimits (resolveAccountPlan office team_of_two (OrgTarget ''o''))) = Some 2"
  "apSeatsUsed (resolveAccountPlan office team_of_two (OrgTarget ''o'')) = 1"
  "apLapsed (resolveAccountPlan office team_of_two (OrgTarget ''o'')) = False"
  by code_simp+

lemma newcomer_admitted:
  "checkJoinSeat office team_of_two ''o'' \<lparr>whoEmail = None, whoUserId = Some (mbUser newcomer)\<rparr> None = None"
  by (simp add: checkJoinSeat_def Let_def team_of_two_facts)

text \<open>C28: The join gate keeps an account within its people limit (team model): when redeeming a
  join code is not refused and the account held at most its limit, then after the new member
  row is inserted the account has the same limit and still holds at most that many people,
  whether the joiner takes a new seat or is already on another vault of the account.\<close>

theorem join_gate_keeps_people_limit:
  assumes "teamModel env" and "accountIdForOrg db orgId \<noteq> Some []"
    and "distinct (map usId (users db))"
    and "mbOrg m = orgId" and "\<forall>m' \<in> set (members db). \<not> (mbOrg m' = orgId \<and> mbUser m' = mbUser m)"
    and "checkJoinSeat env db orgId \<lparr>whoEmail = None, whoUserId = Some (mbUser m)\<rparr> None = None"
    and "plPeople (apLimits (resolveAccountPlan env db (OrgTarget orgId))) = Some cap"
    and "int (apSeatsUsed (resolveAccountPlan env db (OrgTarget orgId))) \<le> cap"
  shows "plPeople (apLimits (resolveAccountPlan env (add_member m db) (OrgTarget orgId))) = Some cap \<and>
    int (apSeatsUsed (resolveAccountPlan env (add_member m db) (OrgTarget orgId))) \<le> cap"
proof -
  have "alreadyOnAccount db orgId \<lparr>whoEmail = None, whoUserId = Some (mbUser m)\<rparr> \<or>
      int (apSeatsUsed (resolveAccountPlan env db (OrgTarget orgId))) + 1 \<le> cap"
    using assms(6,7) by (auto simp: checkJoinSeat_def Let_def split: if_splits)
  then show ?thesis
    using seats_add_member [OF assms(1-5)] limits_add_member [OF assms(1,2), of m] assms(7,8)
    by (auto split: if_splits)
qed

theorem join_gate_keeps_people_limit_witness:
  "int (apSeatsUsed (resolveAccountPlan office (add_member newcomer team_of_two) (OrgTarget ''o''))) \<le> 2"
proof -
  have "plPeople (apLimits (resolveAccountPlan office (add_member newcomer team_of_two) (OrgTarget ''o''))) = Some 2 \<and>
    int (apSeatsUsed (resolveAccountPlan office (add_member newcomer team_of_two) (OrgTarget ''o''))) \<le> 2"
    by (rule join_gate_keeps_people_limit [OF team_of_two_facts(1-3) _ team_of_two_facts(4)
          newcomer_admitted]) (simp_all add: team_of_two_facts newcomer_def)
  then show ?thesis by simp
qed

definition keeps_team :: "account_row \<Rightarrow> int \<Rightarrow> bool" where
  "keeps_team row now \<longleftrightarrow>
     arSubStatus row = Some ''active'' \<or> arSubStatus row = Some ''past_due'' \<or>
     arSubStatus row = Some ''canceled'' \<and> (\<exists>t. arSubPeriodEnd row = Some t \<and> t > now) \<or>
     arOverride row = Some ''team'' \<and> (\<forall>t. arComplimentaryUntil row = Some t \<longrightarrow> t > now)"

definition overfull :: "account_row \<Rightarrow> bool" where
  "overfull row \<longleftrightarrow>
     int (arPeople row) > (case arFreePeople row of None \<Rightarrow> FREE_PEOPLE_DEFAULT | Some n \<Rightarrow> n) \<or>
     int (arVaults row) > (case arFreeVaults row of None \<Rightarrow> FREE_VAULTS_DEFAULT | Some n \<Rightarrow> n)"

lemma normalizeStatus_iff:
  "normalizeStatus s = StActive \<longleftrightarrow> s = Some ''active''"
  "normalizeStatus s = StPastDue \<longleftrightarrow> s = Some ''past_due''"
  "normalizeStatus s = StCanceled \<longleftrightarrow> s = Some ''canceled''"
  by (simp_all add: normalizeStatus_def)

lemma lapsed_planFromRow:
  "apLapsed (planFromRow env a row e now) \<longleftrightarrow>
     e \<and> (\<exists>r. row = Some r \<and> arSubStatus r \<noteq> None \<and> \<not> keeps_team r now \<and> overfull r)"
proof (cases row)
  case (Some r)
  have "(case arSubPeriodEnd r of None \<Rightarrow> False | Some t \<Rightarrow> now < t) \<longleftrightarrow> (\<exists>t. arSubPeriodEnd r = Some t \<and> t > now)"
    "(case arComplimentaryUntil r of None \<Rightarrow> True | Some t \<Rightarrow> now < t) \<longleftrightarrow>
      (\<forall>t. arComplimentaryUntil r = Some t \<longrightarrow> t > now)"
    by (simp_all split: option.splits)
  then show ?thesis
    by (simp add: Some planFromRow_def Let_def normalizeStatus_iff keeps_team_def overfull_def)
qed (simp add: planFromRow_def Let_def)

text \<open>An account is lapsed (read-only) exactly when the deployment enforces the team model, the
  target resolves to an account that ever had a subscription, nothing keeps that account on
  the Team plan any more, and it holds more people or vaults than its free allowance. In
  particular a self-hosted deployment and an account that never subscribed never lapse.\<close>

theorem lapse_exactly_when_overfull:
  "apLapsed (resolveAccountPlan env db target) \<longleftrightarrow>
     lapseEnforced env \<and>
     (\<exists>acc row. accountIdFor db target = Some acc \<and> acc \<noteq> [] \<and> loadAccount db acc = Some row \<and>
        arSubStatus row \<noteq> None \<and> \<not> keeps_team row (dbNow db) \<and> overfull row)"
proof (cases "teamModel env")
  case False
  then show ?thesis by (simp add: resolveAccountPlan_def legacyPlan_def lapseEnforced_def Let_def)
next
  case True
  show ?thesis
  proof (cases "truthy (accountIdFor db target)")
    case False
    then have "\<not> apLapsed (resolveAccountPlan env db target)"
      using True by (simp add: resolveAccountPlan_def lapsed_planFromRow unattachedRow_def Let_def
          split: plan_target.splits)
    then show ?thesis using False by (auto simp: truthy_def)
  next
    case t: True
    then obtain acc where acc: "accountIdFor db target = Some acc" "acc \<noteq> []"
      by (auto simp: truthy_def)
    have "resolveAccountPlan env db target =
        planFromRow env (Some acc) (loadAccount db acc) (planEnforced env) (dbNow db)"
      using True t acc(1) by (simp add: resolveAccountPlan_def)
    then show ?thesis using True acc by (simp add: lapsed_planFromRow lapseEnforced_def)
  qed
qed

text \<open>One lapse tick settles the memory: run again on the same database, it recomputes the same
  verdicts, flips nothing, notifies nobody and leaves the state as it is.\<close>

theorem lapse_tick_settles:
  assumes "distinct (map fst (lastVerdict st))"
  shows "lapseTick env db (fst (lapseTick env db st)) = (fst (lapseTick env db st), 0)"
proof -
  let ?s = "fst (lapseTick env db st)"
  have mem: "js_get (lastVerdict ?s) a =
      (if a \<in> set (tickIds db st) then Some (isLapsed env db a) else js_get (lastVerdict st) a)" for a
    by (simp add: lapseTick_def tick_memory)
  have "distinct (map fst (lastVerdict ?s))"
    using assms by (simp add: lapseTick_def tick_distinct)
  then have "set (tickIds db ?s) \<subseteq> set (tickIds db st)"
    using assms mem by (auto simp: set_tickIds split: if_splits)
  then show ?thesis
    unfolding lapseTick_def [of env db ?s] using mem by (intro tick_settled) auto
qed

theorem lapse_tick_settles_witness:
  "snd (lapseTick office team_of_two (fst (lapseTick office team_of_two
     \<lparr>lastVerdict = [(''A'', True)], hasNotifier = True, notified = []\<rparr>))) = 0"
  using lapse_tick_settles [of "\<lparr>lastVerdict = [(''A'', True)], hasNotifier = True, notified = []\<rparr>"
    office team_of_two] by simp

text \<open>However many vaults ask for their billing account, and in whatever order, there stays one
  account per owner and one attachment per vault, every attachment names an existing account,
  and a vault that is attached already is never moved.\<close>

theorem accounts_stay_unique:
  assumes "accounts_inv db"
  shows "accounts_inv (fold (\<lambda>orgId db. fst (ensureAccountForOrg db orgId)) orgs db) \<and>
    (accountIdForOrg db o' = Some a \<longrightarrow>
     accountIdForOrg (fold (\<lambda>orgId db. fst (ensureAccountForOrg db orgId)) orgs db) o' = Some a)"
proof
  show "accounts_inv (fold (\<lambda>orgId db. fst (ensureAccountForOrg db orgId)) orgs db)"
    using assms by (rule acc.run_inv)
  show "accountIdForOrg db o' = Some a \<longrightarrow>
     accountIdForOrg (fold (\<lambda>orgId db. fst (ensureAccountForOrg db orgId)) orgs db) o' = Some a"
    by (induction orgs arbitrary: db) (simp_all add: ensureAccountForOrg_keeps)
qed

theorem accounts_stay_unique_witness:
  "accountIdForOrg (fold (\<lambda>orgId db. fst (ensureAccountForOrg db orgId)) [''o'', ''p''] team_of_two) ''o'' = Some ''A''"
proof -
  have "accounts_inv team_of_two" by code_simp
  moreover have "accountIdForOrg team_of_two ''o'' = Some ''A''" by code_simp
  ultimately show ?thesis
    using accounts_stay_unique [where db = team_of_two and o' = "''o''" and a = "''A''"
        and orgs = "[''o'', ''p'']"] by simp
qed

end
