(* ===== verification/Acl.thy ===== *)
theory Acl
  imports Accounts
begin

text \<open>
  The rows and the questions of the permission resolver
  (\<open>server/src/permissions/resolver.ts\<close>): the verdicts computed in memory from share rows
  (\<open>rowsDenied\<close>, \<open>rowsLocked\<close>, \<open>rowsGrant\<close>, \<open>rowsPersonalVault\<close>), and the same questions asked
  of the database one query at a time (\<open>isDenied\<close>, \<open>isLocked\<close>, \<open>sharePermission\<close>,
  \<open>personalVaultLevel\<close>, ...). A \<open>JOIN\<close> on a primary key is a lookup; \<open>UNION ALL ... LIMIT 1\<close>
  takes the first branch that has a row.
\<close>

section \<open>Permissions\<close>

datatype permission = PermNone | PermView | PermEdit

fun RANK :: "permission \<Rightarrow> nat" where
  "RANK PermNone = 0"
| "RANK PermView = 1"
| "RANK PermEdit = 2"

definition maxPermission :: "permission \<Rightarrow> permission \<Rightarrow> permission" where
  "maxPermission a b = (if RANK a \<ge> RANK b then a else b)"

datatype posture = PostureEdit | PostureView | PostureSealed
type_synonym vault_posture = "posture option"

datatype personal_level = PersonalEdit | PersonalView | PersonalDenied

record member_snapshot =
  snMode :: join_mode
  snRevision :: int
  snAt :: int

record membership_facts =
  mfRole :: "string option"
  mfSnapshot :: "member_snapshot option"
  mfBaseline :: vault_posture

record doc_location =
  dlVault :: string
  dlFolder :: "string option"
  dlOrg :: string
  dlCreatedBy :: "string option"
  dlCreatedAt :: int

section \<open>Verdicts from rows\<close>

record user_item_verdict =
  uvDeny :: bool
  uvGrant :: permission
  uvCap :: bool

definition itemOrder :: "string option \<Rightarrow> string list \<Rightarrow> (resource_type \<times> string) list" where
  "itemOrder docId folderIds =
     (case docId of None \<Rightarrow> [] | Some d \<Rightarrow> [(RFile, d)]) @ map (\<lambda>f. (RFolder, f)) folderIds"

definition userRow :: "share_row list \<Rightarrow> string \<Rightarrow> resource_type \<times> string \<Rightarrow> share_row option" where
  "userRow rows userId = (\<lambda>(ty, i).
     first_row (\<lambda>x. srResourceType x = ty \<and> srResourceId x = i \<and>
                    srPrincipalType x = PUser \<and> srPrincipalId x = userId) rows)"

fun verdictLoop :: "(resource_type \<times> string \<Rightarrow> share_row option) \<Rightarrow> (resource_type \<times> string) list
    \<Rightarrow> bool \<Rightarrow> bool \<Rightarrow> user_item_verdict" where
  "verdictLoop row [] cap viewFound =
     \<lparr>uvDeny = False, uvGrant = (if viewFound then PermView else PermNone), uvCap = cap\<rparr>"
| "verdictLoop row (item # items) cap viewFound =
     (case row item of
        None \<Rightarrow> verdictLoop row items cap viewFound
      | Some r \<Rightarrow>
          if viewFound then
            (if srPermission r = SEdit then \<lparr>uvDeny = False, uvGrant = PermEdit, uvCap = cap\<rparr>
             else verdictLoop row items cap viewFound)
          else
            (case srPermission r of
               SLocked \<Rightarrow> verdictLoop row items True viewFound
             | SDenied \<Rightarrow> \<lparr>uvDeny = True, uvGrant = PermNone, uvCap = cap\<rparr>
             | SReadonly \<Rightarrow> \<lparr>uvDeny = False, uvGrant = PermView, uvCap = True\<rparr>
             | SView \<Rightarrow> verdictLoop row items cap True
             | SEdit \<Rightarrow> \<lparr>uvDeny = False, uvGrant = PermEdit, uvCap = cap\<rparr>))"

definition userItemVerdict :: "share_row list \<Rightarrow> string \<Rightarrow> string option \<Rightarrow> string list
    \<Rightarrow> user_item_verdict" where
  "userItemVerdict rows userId docId folderIds =
     verdictLoop (userRow rows userId) (itemOrder docId folderIds) False False"

definition isItemRow :: "share_row \<Rightarrow> bool" where
  "isItemRow r \<longleftrightarrow> srResourceType r = RFile \<or> srResourceType r = RFolder"

definition rowsDenied :: "share_row list \<Rightarrow> principal_type \<Rightarrow> string \<Rightarrow> string option \<Rightarrow> string list
    \<Rightarrow> bool" where
  "rowsDenied rows principalType principalId docId folderIds =
     (if principalType = PUser then uvDeny (userItemVerdict rows principalId docId folderIds)
      else list_ex (\<lambda>r. isItemRow r \<and> srPermission r = SDenied \<and> srPrincipalType r = POrg \<and>
                        srPrincipalId r = principalId) rows)"

definition rowsLocked :: "share_row list \<Rightarrow> string \<Rightarrow> string option \<Rightarrow> string list \<Rightarrow> bool" where
  "rowsLocked rows userId docId folderIds \<longleftrightarrow>
     list_ex (\<lambda>r. isItemRow r \<and> (srPermission r = SLocked \<or> srPermission r = SReadonly) \<and>
                  srPrincipalType r = POrg) rows \<or>
     uvCap (userItemVerdict rows userId docId folderIds)"

definition grantStep :: "member_snapshot option \<Rightarrow> int option \<Rightarrow> share_row \<Rightarrow> permission \<Rightarrow> permission" where
  "grantStep snapshot createdAt r best =
     (let existingAtJoin = (case (snapshot, createdAt) of
              (Some s, Some t) \<Rightarrow> t \<le> snAt s | _ \<Rightarrow> False)
      in if srPrincipalType r = POrg \<and> existingAtJoin \<and> srRevision r \<le> snRevision (the snapshot)
         then best
         else if srPermission r = SEdit then maxPermission best PermEdit
         else if srPermission r = SView \<or> srPermission r = SReadonly then maxPermission best PermView
         else best)"

definition grantFromRows :: "share_row list \<Rightarrow> member_snapshot option \<Rightarrow> int option \<Rightarrow> permission" where
  "grantFromRows rows snapshot createdAt = fold (grantStep snapshot createdAt) rows PermNone"

definition grantBase :: "string \<Rightarrow> string \<Rightarrow> bool \<Rightarrow> bool \<Rightarrow> share_row \<Rightarrow> bool" where
  "grantBase userId orgId orgClause orgVaultClause r \<longleftrightarrow>
     (srPermission r = SView \<or> srPermission r = SEdit \<or> srPermission r = SReadonly) \<and>
     ((srPrincipalType r = PUser \<and> srPrincipalId r = userId \<and>
         srResourceType r = RVault \<and> srResourceId r = orgId) \<or>
      (orgClause \<and> srPrincipalType r = POrg \<and> srPrincipalId r = orgId \<and>
         (srResourceType r = RFile \<or> srResourceType r = RFolder \<or>
          (orgVaultClause \<and> srResourceType r = RVault \<and> srResourceId r = orgId))))"

definition rowsGrant :: "share_row list \<Rightarrow> string \<Rightarrow> string option \<Rightarrow> string list \<Rightarrow> string
    \<Rightarrow> bool \<Rightarrow> bool \<Rightarrow> member_snapshot option \<Rightarrow> int option \<Rightarrow> permission" where
  "rowsGrant rows userId docId folderIds orgId orgClause orgVaultClause snapshot createdAt =
     maxPermission
       (grantFromRows (filter (grantBase userId orgId orgClause orgVaultClause) rows) snapshot createdAt)
       (uvGrant (userItemVerdict rows userId docId folderIds))"

definition personalLevelOf :: "stored_permission option \<Rightarrow> personal_level option" where
  "personalLevelOf p =
     (if p = Some SEdit then Some PersonalEdit
      else if p = Some SView \<or> p = Some SReadonly then Some PersonalView
      else if p = Some SDenied then Some PersonalDenied
      else None)"

definition personalRow :: "string \<Rightarrow> string \<Rightarrow> share_row \<Rightarrow> bool" where
  "personalRow userId orgId r \<longleftrightarrow>
     srResourceType r = RVault \<and> srResourceId r = orgId \<and>
     srPrincipalType r = PUser \<and> srPrincipalId r = userId \<and>
     (srPermission r = SEdit \<or> srPermission r = SView \<or> srPermission r = SReadonly \<or>
      srPermission r = SDenied)"

definition rowsPersonalVault :: "share_row list \<Rightarrow> string \<Rightarrow> string \<Rightarrow> personal_level option" where
  "rowsPersonalVault rows userId orgId =
     personalLevelOf (map_option srPermission (first_row (personalRow userId orgId) rows))"

definition postureOf :: "stored_permission option \<Rightarrow> vault_posture" where
  "postureOf p =
     (if p = Some SEdit then Some PostureEdit
      else if p = Some SView then Some PostureView
      else if p = Some SDenied then Some PostureSealed
      else None)"

section \<open>Queries\<close>

definition vaultOrg :: "database \<Rightarrow> string \<Rightarrow> string option" where
  "vaultOrg db vaultId = map_option vtOrg (first_row (\<lambda>v. vtId v = vaultId) (vaults db))"

text \<open>The rows of the document or of the folders (\<open>$2\<close>, \<open>$3\<close>).\<close>

definition onItem :: "string option \<Rightarrow> string list \<Rightarrow> share_row \<Rightarrow> bool" where
  "onItem docId folderIds r \<longleftrightarrow>
     (docId \<noteq> None \<and> srResourceType r = RFile \<and> Some (srResourceId r) = docId) \<or>
     (srResourceType r = RFolder \<and> srResourceId r \<in> set folderIds)"

definition docShareRows :: "database \<Rightarrow> string \<Rightarrow> string \<Rightarrow> string list \<Rightarrow> string \<Rightarrow> share_row list" where
  "docShareRows db userId docId folderIds orgId =
     filter (\<lambda>r. (onItem (Some docId) folderIds r \<or> (srResourceType r = RVault \<and> srResourceId r = orgId)) \<and>
                 (srPrincipalType r = POrg \<or> (srPrincipalType r = PUser \<and> srPrincipalId r = userId)))
       (shares db)"

definition userItemRows :: "database \<Rightarrow> string \<Rightarrow> string option \<Rightarrow> string list \<Rightarrow> share_row list" where
  "userItemRows db userId docId folderIds =
     filter (\<lambda>r. srPrincipalType r = PUser \<and> srPrincipalId r = userId \<and> onItem docId folderIds r)
       (shares db)"

definition isDenied :: "database \<Rightarrow> principal_type \<Rightarrow> string \<Rightarrow> string option \<Rightarrow> string list \<Rightarrow> bool" where
  "isDenied db principalType principalId docId folderIds =
     (if principalType = PUser
      then uvDeny (userItemVerdict (userItemRows db principalId docId folderIds)
                     principalId docId folderIds)
      else list_ex (\<lambda>r. srPermission r = SDenied \<and> srPrincipalType r = principalType \<and>
                        srPrincipalId r = principalId \<and> onItem docId folderIds r) (shares db))"

definition isLocked :: "database \<Rightarrow> string \<Rightarrow> string option \<Rightarrow> string list \<Rightarrow> bool" where
  "isLocked db userId docId folderIds =
     rowsLocked
       (filter (\<lambda>r. ((srPrincipalType r = POrg \<and> (srPermission r = SLocked \<or> srPermission r = SReadonly)) \<or>
                     (srPrincipalType r = PUser \<and> srPrincipalId r = userId)) \<and>
                    onItem docId folderIds r) (shares db))
       userId docId folderIds"

definition shareQuery :: "database \<Rightarrow> string \<Rightarrow> string option \<Rightarrow> string list \<Rightarrow> string \<Rightarrow> bool \<Rightarrow> bool
    \<Rightarrow> share_row list" where
  "shareQuery db userId docId folderIds orgId orgClause orgVaultClause =
     filter (\<lambda>r.
       (srPrincipalType r = PUser \<and> srPrincipalId r = userId \<and>
          (onItem docId folderIds r \<or>
           (srResourceType r = RVault \<and> srResourceId r = orgId \<and>
            (srPermission r = SView \<or> srPermission r = SEdit \<or> srPermission r = SReadonly)))) \<or>
       (orgClause \<and> srPrincipalType r = POrg \<and> srPrincipalId r = orgId \<and>
          (srPermission r = SView \<or> srPermission r = SEdit \<or> srPermission r = SReadonly) \<and>
          (onItem docId folderIds r \<or>
           (orgVaultClause \<and> srResourceType r = RVault \<and> srResourceId r = orgId))))
       (shares db)"

definition vaultBaseline :: "database \<Rightarrow> string \<Rightarrow> vault_posture" where
  "vaultBaseline db orgId =
     postureOf (map_option srPermission (first_row (\<lambda>r.
       srResourceType r = RVault \<and> srResourceId r = orgId \<and> srPrincipalType r = POrg \<and>
       (srPermission r = SView \<or> srPermission r = SEdit \<or> srPermission r = SDenied)) (shares db)))"

definition personalVaultLevel :: "database \<Rightarrow> string \<Rightarrow> string \<Rightarrow> personal_level option" where
  "personalVaultLevel db orgId userId =
     personalLevelOf (map_option srPermission (first_row (personalRow userId orgId) (shares db)))"

definition memberRole :: "database \<Rightarrow> string \<Rightarrow> string \<Rightarrow> string option" where
  "memberRole db orgId userId =
     map_option mbRole (first_row (\<lambda>m. mbOrg m = orgId \<and> mbUser m = userId) (members db))"

definition memberAccessSnapshot :: "database \<Rightarrow> string \<Rightarrow> string \<Rightarrow> member_snapshot option" where
  "memberAccessSnapshot db orgId userId =
     map_option (\<lambda>s. \<lparr>snMode = msMode s, snRevision = msRevision s, snAt = msAt s\<rparr>)
       (first_row (\<lambda>s. msOrg s = orgId \<and> msUser s = userId) (memberSnapshots db))"

text \<open>One statement for the three facts; its sub-selects are the three queries.\<close>

definition membershipFacts :: "database \<Rightarrow> string \<Rightarrow> string \<Rightarrow> membership_facts" where
  "membershipFacts db orgId userId =
     \<lparr>mfRole = map_option mbRole
        (first_row (\<lambda>m. mbOrg m = orgId \<and> mbUser m = userId) (members db)),
      mfSnapshot = map_option (\<lambda>s. \<lparr>snMode = msMode s, snRevision = msRevision s, snAt = msAt s\<rparr>)
        (first_row (\<lambda>s. msOrg s = orgId \<and> msUser s = userId) (memberSnapshots db)),
      mfBaseline = postureOf (map_option srPermission (first_row (\<lambda>r.
        srResourceType r = RVault \<and> srResourceId r = orgId \<and> srPrincipalType r = POrg \<and>
        (srPermission r = SView \<or> srPermission r = SEdit \<or> srPermission r = SDenied)) (shares db)))\<rparr>"

definition noteLocation :: "database \<Rightarrow> note_row \<Rightarrow> doc_location option" where
  "noteLocation db n = map_option (\<lambda>org.
     \<lparr>dlVault = ntVault n, dlFolder = ntFolder n, dlOrg = org, dlCreatedBy = ntCreatedBy n,
      dlCreatedAt = ntCreatedAt n\<rparr>) (vaultOrg db (ntVault n))"

definition fileLocation :: "database \<Rightarrow> file_row \<Rightarrow> doc_location option" where
  "fileLocation db f = map_option (\<lambda>org.
     \<lparr>dlVault = flVault f, dlFolder = flFolder f, dlOrg = org, dlCreatedBy = flCreatedBy f,
      dlCreatedAt = flCreatedAt f\<rparr>) (vaultOrg db (flVault f))"

definition locatedRows :: "database \<Rightarrow> string \<Rightarrow> bool \<Rightarrow> doc_location list" where
  "locatedRows db docId includeDeleted =
     List.map_filter (noteLocation db)
       (filter (\<lambda>n. ntId n = docId \<and> (ntDeletedAt n = None \<or> includeDeleted)) (noteRows db)) @
     List.map_filter (fileLocation db) (filter (\<lambda>f. flId f = docId) (fileRows db))"

definition locateDoc :: "database \<Rightarrow> string \<Rightarrow> bool \<Rightarrow> doc_location option" where
  "locateDoc db docId includeDeleted = first_row (\<lambda>_. True) (locatedRows db docId includeDeleted)"

section \<open>Folder ancestry\<close>

text \<open>The recursive query climbs level by level and has no cycle guard: \<open>None\<close> is a query that
  does not return. The fuel is one more than the number of folders, which is enough for every
  acyclic table (\<open>ancestorFolderIds_complete\<close>).\<close>

fun ancestorLevels :: "database \<Rightarrow> nat \<Rightarrow> folder_row list \<Rightarrow> string list option" where
  "ancestorLevels db 0 level = (if level = [] then Some [] else None)"
| "ancestorLevels db (Suc fuel) level =
     (if level = [] then Some []
      else
        (let next = concat (map (\<lambda>c. filter (\<lambda>f. Some (fdId f) = fdParent c) (folders db)) level)
         in map_option ((@) (map fdId level)) (ancestorLevels db fuel next)))"

definition ancestorFolderIds :: "database \<Rightarrow> string option \<Rightarrow> string list option" where
  "ancestorFolderIds db folderId =
     (if \<not> truthy folderId then Some []
      else ancestorLevels db (Suc (length (folders db)))
             (filter (\<lambda>f. Some (fdId f) = folderId) (folders db)))"

end
