(* ===== verification/Acl_Cache.thy ===== *)
theory Acl_Cache
  imports Acl
begin

text \<open>
  Where the resolver gets its rows from when it does not ask one query at a time: the vault's
  access index (\<open>loadAccessIndex\<close>), the prefetched documents (\<open>prefetchDocs\<close>) and the
  per-request memo (\<open>createResolverCache\<close>). A promise in a memo map is the value it resolves to.
\<close>

section \<open>Breadth-first ancestry\<close>

text \<open>One round asks for the frontier's rows and collects the parents not asked for yet; the
  state is (rows so far, asked, next frontier).\<close>

definition ancestryRow :: "folder_row \<Rightarrow> folder_row list \<times> string js_set \<times> string list
    \<Rightarrow> folder_row list \<times> string js_set \<times> string list" where
  "ancestryRow r = (\<lambda>(out, asked, next).
     case fdParent r of
       None \<Rightarrow> (out @ [r], asked, next)
     | Some p \<Rightarrow> if p \<in> set asked then (out @ [r], asked, next)
                 else (out @ [r], asked @ [p], next @ [p]))"

definition ancestryRound :: "database \<Rightarrow> string list \<Rightarrow> folder_row list \<Rightarrow> string js_set
    \<Rightarrow> folder_row list \<times> string js_set \<times> string list" where
  "ancestryRound db frontier out asked =
     fold ancestryRow (filter (\<lambda>f. fdId f \<in> set frontier) (folders db)) (out, asked, [])"

definition parentIds :: "database \<Rightarrow> string set" where
  "parentIds db = {p. \<exists>f \<in> set (folders db). fdParent f = Some p}"

lemma finite_parentIds [simp]: "finite (parentIds db)"
proof -
  have "parentIds db \<subseteq> (\<lambda>f. the (fdParent f)) ` set (folders db)" by (force simp: parentIds_def)
  then show ?thesis by (rule finite_subset) simp
qed

lemma ancestryRow_fold:
  "fold ancestryRow rows (out, asked, next) = (out', asked', next') \<Longrightarrow>
   \<exists>new. asked' = asked @ new \<and> next' = next @ new \<and> set new \<inter> set asked = {} \<and>
     set new \<subseteq> {p. \<exists>r \<in> set rows. fdParent r = Some p} \<and> out' = out @ rows"
proof (induction rows arbitrary: out asked "next")
  case (Cons r rows)
  obtain o1 a1 n1 where step: "ancestryRow r (out, asked, next) = (o1, a1, n1)" by (metis prod_cases3)
  from Cons.IH [of o1 a1 n1] Cons.prems step obtain new where
    "asked' = a1 @ new" "next' = n1 @ new" "set new \<inter> set a1 = {}"
    "set new \<subseteq> {p. \<exists>r \<in> set rows. fdParent r = Some p}" "out' = o1 @ rows" by auto
  with step show ?case
    by (auto simp: ancestryRow_def split: option.splits if_splits intro: exI [of _ new] exI [of _ "_ # new"])
qed simp

lemma ancestryRound_new:
  assumes "ancestryRound db frontier out asked = (out', asked', next)"
  shows "asked' = asked @ next" "set next \<inter> set asked = {}" "set next \<subseteq> parentIds db"
  using ancestryRow_fold [OF assms [unfolded ancestryRound_def]] by (auto simp: parentIds_def)

lemma ancestry_measure:
  assumes "ancestryRound db frontier out asked = (out', asked', next)"
  shows "next = [] \<and> asked' = asked \<or>
     card (parentIds db - set asked') < card (parentIds db - set asked)"
proof (cases "next = []")
  case False
  then obtain p where "p \<in> set next" by (cases "next") auto
  then have "p \<in> parentIds db - set asked" "p \<notin> parentIds db - set asked'"
    using ancestryRound_new [OF assms] by auto
  moreover have "parentIds db - set asked' \<subseteq> parentIds db - set asked"
    using ancestryRound_new [OF assms] by auto
  ultimately have "parentIds db - set asked' \<subset> parentIds db - set asked" by blast
  then show ?thesis by (simp add: psubset_card_mono)
qed (use ancestryRound_new [OF assms] in auto)

function ancestryLoop :: "database \<Rightarrow> folder_row list \<Rightarrow> string js_set \<Rightarrow> string list \<Rightarrow> folder_row list" where
  "ancestryLoop db out asked frontier =
     (if frontier = [] then out
      else (case ancestryRound db frontier out asked of
              (out', asked', next) \<Rightarrow> ancestryLoop db out' asked' next))"
  by pat_completeness auto

termination ancestryLoop
  by (relation "measures [\<lambda>(db, out, asked, frontier). card (parentIds db - set asked),
        \<lambda>(db, out, asked, frontier). length frontier]")
     (auto split: prod.splits dest: ancestry_measure)

declare ancestryLoop.simps [simp del]

definition folderAncestry :: "database \<Rightarrow> string list \<Rightarrow> folder_row list" where
  "folderAncestry db startIds =
     (let asked = js_set_of startIds in ancestryLoop db [] asked asked)"

section \<open>The access index\<close>

record index_folder =
  ixParent :: "string option"
  ixVault :: string
  ixCreatedAt :: int

record index_doc =
  idVault :: string
  idFolder :: "string option"
  idCreatedBy :: "string option"
  idCreatedAt :: int

record access_index =
  ixOrg :: string
  ixShares :: "(resource_type \<times> string, share_row list) js_map"
  ixFolders :: "(string, index_folder) js_map"
  ixNotes :: "(string, index_doc) js_map"
  ixFiles :: "(string, index_doc) js_map"

text \<open>\<open>new Map(entries)\<close>: a later entry for a key replaces an earlier one in place.\<close>

definition js_map_of :: "('k \<times> 'v) list \<Rightarrow> ('k, 'v) js_map" where
  "js_map_of entries = fold (\<lambda>(k, v). js_put k v) entries []"

definition addShare :: "share_row \<Rightarrow> (resource_type \<times> string, share_row list) js_map
    \<Rightarrow> (resource_type \<times> string, share_row list) js_map" where
  "addShare r m =
     (let key = (srResourceType r, srResourceId r) in
      case js_get m key of
        None \<Rightarrow> js_put key [r] m
      | Some list \<Rightarrow> js_put key (list @ [r]) m)"

definition inOrg :: "database \<Rightarrow> string \<Rightarrow> string \<Rightarrow> bool" where
  "inOrg db orgId vaultId \<longleftrightarrow> vaultOrg db vaultId = Some orgId"

definition indexShareRows :: "database \<Rightarrow> string \<Rightarrow> share_row list" where
  "indexShareRows db orgId =
     filter (\<lambda>s.
       (srResourceType s = RVault \<and> srResourceId s = orgId) \<or>
       (srResourceType s = RFolder \<and>
          list_ex (\<lambda>f. fdId f = srResourceId s \<and> inOrg db orgId (fdVault f)) (folders db)) \<or>
       (srResourceType s = RFile \<and>
          (list_ex (\<lambda>n. ntId n = srResourceId s \<and> inOrg db orgId (ntVault n)) (noteRows db) \<or>
           list_ex (\<lambda>f. flId f = srResourceId s \<and> inOrg db orgId (flVault f)) (fileRows db))))
       (shares db)"

definition loadAccessIndex :: "database \<Rightarrow> string \<Rightarrow> access_index" where
  "loadAccessIndex db orgId =
     \<lparr>ixOrg = orgId,
      ixShares = fold addShare (indexShareRows db orgId) [],
      ixFolders = js_map_of (map (\<lambda>f. (fdId f,
          \<lparr>ixParent = fdParent f, ixVault = fdVault f, ixCreatedAt = fdCreatedAt f\<rparr>))
        (filter (\<lambda>f. inOrg db orgId (fdVault f)) (folders db))),
      ixNotes = js_map_of (map (\<lambda>n. (ntId n,
          \<lparr>idVault = ntVault n, idFolder = ntFolder n, idCreatedBy = ntCreatedBy n,
           idCreatedAt = ntCreatedAt n\<rparr>))
        (filter (\<lambda>n. inOrg db orgId (ntVault n) \<and> ntDeletedAt n = None) (noteRows db))),
      ixFiles = js_map_of (map (\<lambda>f. (flId f,
          \<lparr>idVault = flVault f, idFolder = flFolder f, idCreatedBy = flCreatedBy f,
           idCreatedAt = flCreatedAt f\<rparr>))
        (filter (\<lambda>f. inOrg db orgId (flVault f)) (fileRows db)))\<rparr>"

text \<open>Climbing parents in memory, with the set of ids seen. The two loops of the source differ in
  what a missing folder means: \<open>indexedAncestors\<close> gives up, \<open>chainOf\<close> stops there.\<close>

lemma climb_measure:
  assumes "i \<in> keys" "i \<notin> set chain" "finite keys"
  shows "card (keys - set (chain @ [i])) < card (keys - set chain)"
proof -
  have "keys - set (chain @ [i]) \<subset> keys - set chain" using assms by auto
  then show ?thesis using assms(3) by (intro psubset_card_mono) simp_all
qed

function climbStrict :: "(string, index_folder) js_map \<Rightarrow> string list \<Rightarrow> string option \<Rightarrow> string list option" where
  "climbStrict m chain folderId =
     (case folderId of
        None \<Rightarrow> Some chain
      | Some i \<Rightarrow>
          (case js_get m i of
             None \<Rightarrow> None
           | Some folder \<Rightarrow> if i \<in> set chain then None
                            else climbStrict m (chain @ [i]) (ixParent folder)))"
  by pat_completeness auto

termination climbStrict
  by (relation "measure (\<lambda>(m, chain, i). card (fst ` set m - set chain))")
     (auto intro!: climb_measure simp del: set_append dest: map_of_SomeD intro: rev_image_eqI)

declare climbStrict.simps [simp del]

definition indexedAncestors :: "access_index \<Rightarrow> string option \<Rightarrow> string list option" where
  "indexedAncestors index folderId =
     (if \<not> truthy folderId then Some [] else climbStrict (ixFolders index) [] folderId)"

definition indexedRows :: "access_index \<Rightarrow> string option \<Rightarrow> string list \<Rightarrow> string option
    \<Rightarrow> share_row list" where
  "indexedRows index docId folderIds vault =
     (let rowsOf = (\<lambda>ty i. case js_get (ixShares index) (ty, i) of None \<Rightarrow> [] | Some rs \<Rightarrow> rs) in
      (case docId of None \<Rightarrow> [] | Some d \<Rightarrow> rowsOf RFile d) @
      concat (map (rowsOf RFolder) folderIds) @
      (case vault of None \<Rightarrow> [] | Some v \<Rightarrow> rowsOf RVault v))"

definition indexedPersonalVault :: "access_index \<Rightarrow> string \<Rightarrow> personal_level option" where
  "indexedPersonalVault index userId =
     rowsPersonalVault
       (case js_get (ixShares index) (RVault, ixOrg index) of None \<Rightarrow> [] | Some rs \<Rightarrow> rs)
       userId (ixOrg index)"

definition indexedIsDenied :: "access_index \<Rightarrow> principal_type \<Rightarrow> string \<Rightarrow> string option
    \<Rightarrow> string list \<Rightarrow> bool" where
  "indexedIsDenied index principalType principalId docId folderIds =
     rowsDenied (indexedRows index docId folderIds None) principalType principalId docId folderIds"

definition indexedIsLocked :: "access_index \<Rightarrow> string \<Rightarrow> string option \<Rightarrow> string list \<Rightarrow> bool" where
  "indexedIsLocked index userId docId folderIds =
     rowsLocked (indexedRows index docId folderIds None) userId docId folderIds"

definition sharePermission :: "database \<Rightarrow> string \<Rightarrow> string option \<Rightarrow> string list \<Rightarrow> string \<Rightarrow> bool
    \<Rightarrow> bool \<Rightarrow> member_snapshot option \<Rightarrow> int option \<Rightarrow> access_index option \<Rightarrow> bool \<Rightarrow> permission" where
  "sharePermission db userId docId folderIds orgId isMember orgGrantsApply snapshot createdAt index
     orgVaultClause =
     (let rows = (case index of
            Some ix \<Rightarrow> indexedRows ix docId folderIds (Some orgId)
          | None \<Rightarrow> shareQuery db userId docId folderIds orgId (isMember \<and> orgGrantsApply) orgVaultClause)
      in rowsGrant rows userId docId folderIds orgId (isMember \<and> orgGrantsApply) orgVaultClause
           snapshot createdAt)"

section \<open>Prefetched documents\<close>

record preloaded_doc =
  pdLoc :: doc_location
  pdFolderIds :: "string list"
  pdRows :: "share_row list"

function chainOf :: "(string, string option) js_map \<Rightarrow> string list \<Rightarrow> string option \<Rightarrow> string list option" where
  "chainOf parents chain folderId =
     (case folderId of
        None \<Rightarrow> Some chain
      | Some i \<Rightarrow>
          (case js_get parents i of
             None \<Rightarrow> Some chain
           | Some parent \<Rightarrow> if i \<in> set chain then None else chainOf parents (chain @ [i]) parent))"
  by pat_completeness auto

termination chainOf
  by (relation "measure (\<lambda>(m, chain, i). card (fst ` set m - set chain))")
     (auto intro!: climb_measure simp del: set_append dest: map_of_SomeD intro: rev_image_eqI)

declare chainOf.simps [simp del]

definition locatedAll :: "database \<Rightarrow> string list \<Rightarrow> (string \<times> doc_location) list" where
  "locatedAll db docIds =
     List.map_filter (\<lambda>n. map_option (\<lambda>l. (ntId n, l)) (noteLocation db n))
       (filter (\<lambda>n. ntId n \<in> set docIds \<and> ntDeletedAt n = None) (noteRows db)) @
     List.map_filter (\<lambda>f. map_option (\<lambda>l. (flId f, l)) (fileLocation db f))
       (filter (\<lambda>f. flId f \<in> set docIds) (fileRows db))"

definition uniqueLocated :: "(string \<times> doc_location) list \<Rightarrow> (string \<times> doc_location) list" where
  "uniqueLocated located =
     filter (\<lambda>(i, _). count_list (map fst located) i = 1) located"

definition preloadRows :: "(resource_type \<times> string, share_row list) js_map \<Rightarrow> string \<Rightarrow> string list
    \<Rightarrow> string \<Rightarrow> share_row list" where
  "preloadRows byResource docId chain orgId =
     (let rowsOf = (\<lambda>ty i. case js_get byResource (ty, i) of None \<Rightarrow> [] | Some rs \<Rightarrow> rs) in
      rowsOf RFile docId @ concat (map (rowsOf RFolder) chain) @ rowsOf RVault orgId)"

definition prefetchDocs :: "database \<Rightarrow> string list \<Rightarrow> (string, preloaded_doc) js_map" where
  "prefetchDocs db docIds =
     (let unique = uniqueLocated (locatedAll db docIds);
          startFolders = js_set_of (List.map_filter (\<lambda>(_, l). dlFolder l) unique);
          parents = js_map_of (map (\<lambda>r. (fdId r, fdParent r))
                      (if startFolders = [] then [] else folderAncestry db startFolders));
          docs = List.map_filter (\<lambda>(i, l). map_option (\<lambda>chain. (i, l, chain))
                   (chainOf parents [] (dlFolder l))) unique;
          folderIds = js_set_of (concat (map (\<lambda>(_, _, chain). chain) docs));
          orgIds = js_set_of (map (\<lambda>(_, l, _). dlOrg l) docs);
          shareRows = filter (\<lambda>r.
              (srResourceType r = RFile \<and> srResourceId r \<in> set (map fst docs)) \<or>
              (srResourceType r = RFolder \<and> srResourceId r \<in> set folderIds) \<or>
              (srResourceType r = RVault \<and> srResourceId r \<in> set orgIds)) (shares db);
          byResource = fold addShare shareRows []
      in if unique = [] \<or> docs = [] then []
         else js_map_of (map (\<lambda>(i, l, chain).
           (i, \<lparr>pdLoc = l, pdFolderIds = chain, pdRows = preloadRows byResource i chain (dlOrg l)\<rparr>)) docs))"

section \<open>The per-request memo\<close>

record resolver_cache =
  rcRoles :: "(string \<times> string, string option) js_map"
  rcBaselines :: "(string, vault_posture) js_map"
  rcSnapshots :: "(string \<times> string, member_snapshot option) js_map"
  rcPersonals :: "(string \<times> string, personal_level option) js_map"
  rcPlans :: "(string, account_plan) js_map"
  rcChains :: "(string, string list) js_map"
  rcMemberships :: "(string \<times> string, membership_facts) js_map"
  rcPreloaded :: "(string, preloaded_doc) js_map"

definition createResolverCache :: resolver_cache where
  "createResolverCache = \<lparr>rcRoles = [], rcBaselines = [], rcSnapshots = [], rcPersonals = [],
     rcPlans = [], rcChains = [], rcMemberships = [], rcPreloaded = []\<rparr>"

definition memo :: "('k, 'v) js_map \<Rightarrow> 'k \<Rightarrow> 'v \<Rightarrow> 'v \<times> ('k, 'v) js_map" where
  "memo m key run =
     (case js_get m key of Some hit \<Rightarrow> (hit, m) | None \<Rightarrow> (run, js_put key run m))"

definition cacheRole :: "database \<Rightarrow> string \<Rightarrow> string \<Rightarrow> resolver_cache \<Rightarrow> string option \<times> resolver_cache" where
  "cacheRole db orgId userId c =
     (let (v, m) = memo (rcRoles c) (orgId, userId) (memberRole db orgId userId)
      in (v, c\<lparr>rcRoles := m\<rparr>))"

definition cacheBaseline :: "database \<Rightarrow> string \<Rightarrow> resolver_cache \<Rightarrow> vault_posture \<times> resolver_cache" where
  "cacheBaseline db orgId c =
     (let (v, m) = memo (rcBaselines c) orgId (vaultBaseline db orgId)
      in (v, c\<lparr>rcBaselines := m\<rparr>))"

definition cacheSnapshot :: "database \<Rightarrow> string \<Rightarrow> string \<Rightarrow> resolver_cache
    \<Rightarrow> member_snapshot option \<times> resolver_cache" where
  "cacheSnapshot db orgId userId c =
     (let (v, m) = memo (rcSnapshots c) (orgId, userId) (memberAccessSnapshot db orgId userId)
      in (v, c\<lparr>rcSnapshots := m\<rparr>))"

definition cachePersonal :: "database \<Rightarrow> string \<Rightarrow> string \<Rightarrow> resolver_cache
    \<Rightarrow> personal_level option \<times> resolver_cache" where
  "cachePersonal db orgId userId c =
     (let (v, m) = memo (rcPersonals c) (orgId, userId) (personalVaultLevel db orgId userId)
      in (v, c\<lparr>rcPersonals := m\<rparr>))"

definition cachePlanFor :: "deployment \<Rightarrow> database \<Rightarrow> string \<Rightarrow> resolver_cache
    \<Rightarrow> account_plan \<times> resolver_cache" where
  "cachePlanFor env db orgId c =
     (let (v, m) = memo (rcPlans c) orgId (resolveAccountPlan env db (OrgTarget orgId))
      in (v, c\<lparr>rcPlans := m\<rparr>))"

definition cacheBillingReadOnly :: "deployment \<Rightarrow> database \<Rightarrow> string \<Rightarrow> resolver_cache
    \<Rightarrow> bool \<times> resolver_cache" where
  "cacheBillingReadOnly env db orgId c =
     (if \<not> lapseEnforced env then (False, c)
      else (let (p, c') = cachePlanFor env db orgId c in (apLapsed p, c')))"

definition cacheAncestors :: "database \<Rightarrow> string option \<Rightarrow> resolver_cache
    \<Rightarrow> (string list \<times> resolver_cache) option" where
  "cacheAncestors db folderId c =
     (case folderId of
        None \<Rightarrow> Some ([], c)
      | Some f \<Rightarrow>
          (case js_get (rcChains c) f of
             Some hit \<Rightarrow> Some (hit, c)
           | None \<Rightarrow> map_option (\<lambda>chain. (chain, c\<lparr>rcChains := js_put f chain (rcChains c)\<rparr>))
                       (ancestorFolderIds db (Some f))))"

definition putIfAbsent :: "'k \<Rightarrow> 'v \<Rightarrow> ('k, 'v) js_map \<Rightarrow> ('k, 'v) js_map" where
  "putIfAbsent k v m = (if js_has m k then m else js_put k v m)"

definition cacheMembership :: "database \<Rightarrow> string \<Rightarrow> string \<Rightarrow> resolver_cache
    \<Rightarrow> membership_facts \<times> resolver_cache" where
  "cacheMembership db orgId userId c =
     (let key = (orgId, userId) in
      case js_get (rcMemberships c) key of
        Some hit \<Rightarrow> (hit, c)
      | None \<Rightarrow>
          (let facts = membershipFacts db orgId userId;
               c1 = c\<lparr>rcRoles := putIfAbsent key (mfRole facts) (rcRoles c),
                      rcSnapshots := putIfAbsent key (mfSnapshot facts) (rcSnapshots c),
                      rcBaselines := putIfAbsent orgId (mfBaseline facts) (rcBaselines c)\<rparr>;
               v = \<lparr>mfRole = the (js_get (rcRoles c1) key),
                    mfSnapshot = the (js_get (rcSnapshots c1) key),
                    mfBaseline = the (js_get (rcBaselines c1) orgId)\<rparr>
           in (v, c1\<lparr>rcMemberships := js_put key v (rcMemberships c1)\<rparr>)))"

definition PREFETCH_CHUNK :: nat where "PREFETCH_CHUNK = 2000"

fun slices :: "nat \<Rightarrow> nat \<Rightarrow> 'a list \<Rightarrow> 'a list list" where
  "slices 0 n xs = []"
| "slices (Suc fuel) n xs =
     (if xs = [] then [] else take n xs # slices fuel n (drop n xs))"

definition cachePrefetch :: "database \<Rightarrow> string list \<Rightarrow> resolver_cache \<Rightarrow> resolver_cache" where
  "cachePrefetch db docIds c =
     (let wanted = filter (\<lambda>i. \<not> js_has (rcPreloaded c) i) (js_set_of docIds)
      in fold (\<lambda>slice c. c\<lparr>rcPreloaded :=
           fold (\<lambda>(i, doc). js_put i doc) (prefetchDocs db slice) (rcPreloaded c)\<rparr>)
           (slices (length wanted) PREFETCH_CHUNK wanted) c)"

end
