(* ===== verification/Acl_Resolve.thy ===== *)
theory Acl_Resolve
  imports Acl_Cache
begin

text \<open>
  The resolver's two entry points: \<open>effectivePermission\<close> (one user, one document) and
  \<open>resolveAccessForUser\<close> (one user against a prepared context), each with its sources of rows
  (queries, memo, prefetch, index). A result \<open>None\<close> of the outer option is a query that does
  not return (a cyclic folder table). The memo is threaded through as state.
\<close>

text \<open>The questions \<open>effectivePermissionInner\<close> asks, answered from the rows at hand or, when there
  are none, from the database (its local \<open>denied\<close>, \<open>locked\<close>, \<open>grant\<close> and \<open>personal\<close>).\<close>

definition askDenied :: "database \<Rightarrow> string \<Rightarrow> string list \<Rightarrow> share_row list option
    \<Rightarrow> principal_type \<Rightarrow> string \<Rightarrow> bool" where
  "askDenied db docId folderIds rows principalType principalId =
     (case rows of
        Some rs \<Rightarrow> rowsDenied rs principalType principalId (Some docId) folderIds
      | None \<Rightarrow> isDenied db principalType principalId (Some docId) folderIds)"

definition askLocked :: "database \<Rightarrow> string \<Rightarrow> string \<Rightarrow> string list \<Rightarrow> share_row list option \<Rightarrow> bool" where
  "askLocked db userId docId folderIds rows =
     (case rows of
        Some rs \<Rightarrow> rowsLocked rs userId (Some docId) folderIds
      | None \<Rightarrow> isLocked db userId (Some docId) folderIds)"

definition askGrant :: "database \<Rightarrow> string \<Rightarrow> string \<Rightarrow> string list \<Rightarrow> string \<Rightarrow> share_row list option
    \<Rightarrow> bool \<Rightarrow> bool \<Rightarrow> member_snapshot option \<Rightarrow> int option \<Rightarrow> bool \<Rightarrow> permission" where
  "askGrant db userId docId folderIds orgId rows isMember orgGrantsApply snapshot createdAt
     orgVaultClause =
     (case rows of
        Some rs \<Rightarrow> rowsGrant rs userId (Some docId) folderIds orgId (isMember \<and> orgGrantsApply)
                     orgVaultClause snapshot createdAt
      | None \<Rightarrow> sharePermission db userId (Some docId) folderIds orgId isMember orgGrantsApply
                  snapshot createdAt None orgVaultClause)"

definition askPersonal :: "database \<Rightarrow> string \<Rightarrow> string \<Rightarrow> share_row list option
    \<Rightarrow> personal_level option" where
  "askPersonal db userId orgId rows =
     (case rows of
        Some rs \<Rightarrow> rowsPersonalVault rs userId orgId
      | None \<Rightarrow> personalVaultLevel db orgId userId)"

definition snapshotLevel :: "join_mode \<Rightarrow> permission" where
  "snapshotLevel mode =
     (if mode = MOpen then PermEdit else if mode = MReadonly then PermView else PermNone)"

text \<open>The part of \<open>effectivePermissionInner\<close> after the per-user deny (lines 1326 to 1424), given
  the membership facts.\<close>

definition decideDoc :: "database \<Rightarrow> string \<Rightarrow> string \<Rightarrow> doc_location \<Rightarrow> string list
    \<Rightarrow> share_row list option \<Rightarrow> membership_facts \<Rightarrow> permission" where
  "decideDoc db userId docId loc folderIds rows facts =
     (let orgId = dlOrg loc;
          itemPrivate = askDenied db docId folderIds rows POrg orgId;
          role = mfRole facts;
          locked = askLocked db userId docId folderIds rows;
          grant = askGrant db userId docId folderIds orgId rows
      in case askPersonal db userId orgId rows of
           Some personal \<Rightarrow>
             (let granted = grant (role \<noteq> None) (\<not> itemPrivate \<and> personal \<noteq> PersonalDenied)
                              None None False
              in if granted \<noteq> PermNone \<and> locked then PermView else granted)
         | None \<Rightarrow>
             (let snapshot = mfSnapshot facts;
                  existingAtJoin = (case snapshot of None \<Rightarrow> False | Some s \<Rightarrow> dlCreatedAt loc \<le> snAt s)
              in if existingAtJoin then
                   (let direct = grant (role \<noteq> None) (\<not> itemPrivate) snapshot
                                   (Some (dlCreatedAt loc)) True;
                        snapped = maxPermission
                          (if itemPrivate then PermNone else snapshotLevel (snMode (the snapshot))) direct
                    in if snapped \<noteq> PermNone \<and> locked then PermView else snapped)
                 else
                   (let baseline = mfBaseline facts;
                        readOnlyVault = (baseline = Some PostureView);
                        sealedVault = (baseline = Some PostureSealed);
                        ungrantedVault = (baseline = None);
                        granted =
                          (if itemPrivate then grant False False None None True
                           else if readOnlyVault \<or> sealedVault
                           then grant (role \<noteq> None) True None None True
                           else if \<not> ungrantedVault \<and> (role = Some ''owner'' \<or> role = Some ''admin'')
                           then PermEdit
                           else if role \<noteq> None \<and> truthy (dlCreatedBy loc) \<and> dlCreatedBy loc = Some userId
                           then PermEdit
                           else grant (role \<noteq> None) True None None True)
                    in if granted \<noteq> PermNone \<and> locked then PermView else granted)))"

definition effectivePermissionInner :: "database \<Rightarrow> string \<Rightarrow> string \<Rightarrow> resolver_cache option \<Rightarrow> bool
    \<Rightarrow> (permission \<times> string option \<times> resolver_cache option) option" where
  "effectivePermissionInner db userId docId cache includeDeleted =
     (let pre = (case cache of
            Some c \<Rightarrow> if \<not> includeDeleted then js_get (rcPreloaded c) docId else None
          | None \<Rightarrow> None)
      in case (case pre of Some p \<Rightarrow> Some (pdLoc p) | None \<Rightarrow> locateDoc db docId includeDeleted) of
           None \<Rightarrow> Some (PermNone, None, cache)
         | Some loc \<Rightarrow>
             (case (case pre of
                      Some p \<Rightarrow> Some (pdFolderIds p, cache)
                    | None \<Rightarrow>
                        (case cache of
                           Some c \<Rightarrow> map_option (\<lambda>(ids, c'). (ids, Some c'))
                                       (cacheAncestors db (dlFolder loc) c)
                         | None \<Rightarrow> map_option (\<lambda>ids. (ids, None))
                                     (ancestorFolderIds db (dlFolder loc)))) of
                None \<Rightarrow> None
              | Some (folderIds, cache1) \<Rightarrow>
                  (let rows = (case pre of
                         Some p \<Rightarrow> Some (pdRows p)
                       | None \<Rightarrow>
                           if cache \<noteq> None then Some (docShareRows db userId docId folderIds (dlOrg loc))
                           else None)
                   in if askDenied db docId folderIds rows PUser userId
                      then Some (PermNone, Some (dlOrg loc), cache1)
                      else
                        (let (facts, cache2) = (case cache1 of
                               Some c \<Rightarrow> (let (f, c') = cacheMembership db (dlOrg loc) userId c
                                          in (f, Some c'))
                             | None \<Rightarrow> (\<lparr>mfRole = memberRole db (dlOrg loc) userId,
                                         mfSnapshot = memberAccessSnapshot db (dlOrg loc) userId,
                                         mfBaseline = vaultBaseline db (dlOrg loc)\<rparr>, None))
                         in Some (decideDoc db userId docId loc folderIds rows facts,
                                  Some (dlOrg loc), cache2)))))"

definition effectivePermission :: "deployment \<Rightarrow> database \<Rightarrow> string \<Rightarrow> string \<Rightarrow> resolver_cache option
    \<Rightarrow> bool \<Rightarrow> (permission \<times> resolver_cache option) option" where
  "effectivePermission env db userId docId cache includeDeleted =
     (case effectivePermissionInner db userId docId cache includeDeleted of
        None \<Rightarrow> None
      | Some (perm, orgId, cache1) \<Rightarrow>
          (if perm \<noteq> PermEdit \<or> \<not> truthy orgId then Some (perm, cache1)
           else
             (let m = (case cache1 of Some c \<Rightarrow> c | None \<Rightarrow> createResolverCache);
                  (readOnly, m') = cacheBillingReadOnly env db (the orgId) m
              in Some (if readOnly then PermView else perm, map_option (\<lambda>_. m') cache1))))"

section \<open>Access contexts\<close>

record access_context =
  cxOrg :: string
  cxDoc :: "string option"
  cxFolderIds :: "string list"
  cxCreatedBy :: "string option"
  cxCreatedAt :: int

record resolved_access =
  raPermission :: permission
  raCapped :: bool
  raDenied :: bool

datatype context_type = CtxFile | CtxFolder

text \<open>\<open>Some None\<close>: the resource does not exist. \<open>None\<close>: a query does not return.\<close>

definition contextChain :: "database \<Rightarrow> string option \<Rightarrow> resolver_cache option
    \<Rightarrow> (string list \<times> resolver_cache option) option" where
  "contextChain db folderId cache =
     (case cache of
        Some c \<Rightarrow> map_option (\<lambda>(ids, c'). (ids, Some c')) (cacheAncestors db folderId c)
      | None \<Rightarrow> map_option (\<lambda>ids. (ids, None)) (ancestorFolderIds db folderId))"

definition buildAccessContext :: "database \<Rightarrow> context_type \<Rightarrow> string \<Rightarrow> resolver_cache option
    \<Rightarrow> (access_context option \<times> resolver_cache option) option" where
  "buildAccessContext db resourceType resourceId cache =
     (case resourceType of
        CtxFile \<Rightarrow>
          (case locateDoc db resourceId False of
             None \<Rightarrow> Some (None, cache)
           | Some loc \<Rightarrow> map_option (\<lambda>(ids, cache').
               (Some \<lparr>cxOrg = dlOrg loc, cxDoc = Some resourceId, cxFolderIds = ids,
                      cxCreatedBy = dlCreatedBy loc, cxCreatedAt = dlCreatedAt loc\<rparr>, cache'))
               (contextChain db (dlFolder loc) cache))
      | CtxFolder \<Rightarrow>
          (case first_row (\<lambda>f. fdId f = resourceId \<and> vaultOrg db (fdVault f) \<noteq> None) (folders db) of
             None \<Rightarrow> Some (None, cache)
           | Some f \<Rightarrow> map_option (\<lambda>(ids, cache').
               (Some \<lparr>cxOrg = the (vaultOrg db (fdVault f)), cxDoc = None, cxFolderIds = ids,
                      cxCreatedBy = None, cxCreatedAt = fdCreatedAt f\<rparr>, cache'))
               (contextChain db (Some resourceId) cache)))"

definition buildAccessContextFromIndex :: "access_index \<Rightarrow> database \<Rightarrow> context_type \<Rightarrow> string
    \<Rightarrow> resolver_cache option \<Rightarrow> (access_context option \<times> resolver_cache option) option" where
  "buildAccessContextFromIndex index db resourceType resourceId cache =
     (case resourceType of
        CtxFile \<Rightarrow>
          (let loc = (case js_get (ixNotes index) resourceId of
                 Some n \<Rightarrow> Some n | None \<Rightarrow> js_get (ixFiles index) resourceId);
               chain = (case loc of None \<Rightarrow> None | Some l \<Rightarrow> indexedAncestors index (idFolder l))
           in case (loc, chain) of
                (Some l, Some ids) \<Rightarrow>
                  Some (Some \<lparr>cxOrg = ixOrg index, cxDoc = Some resourceId, cxFolderIds = ids,
                    cxCreatedBy = idCreatedBy l, cxCreatedAt = idCreatedAt l\<rparr>, cache)
              | _ \<Rightarrow> buildAccessContext db resourceType resourceId cache)
      | CtxFolder \<Rightarrow>
          (let folder = js_get (ixFolders index) resourceId;
               chain = (case folder of None \<Rightarrow> None | Some _ \<Rightarrow> indexedAncestors index (Some resourceId))
           in case (folder, chain) of
                (Some f, Some ids) \<Rightarrow>
                  Some (Some \<lparr>cxOrg = ixOrg index, cxDoc = None, cxFolderIds = ids,
                    cxCreatedBy = None, cxCreatedAt = ixCreatedAt f\<rparr>, cache)
              | _ \<Rightarrow> buildAccessContext db resourceType resourceId cache))"

definition capped :: "bool \<Rightarrow> permission \<Rightarrow> resolved_access" where
  "capped locked granted =
     (if locked \<and> granted = PermEdit then \<lparr>raPermission = PermView, raCapped = True, raDenied = False\<rparr>
      else if locked then \<lparr>raPermission = PermView, raCapped = False, raDenied = False\<rparr>
      else \<lparr>raPermission = granted, raCapped = False, raDenied = False\<rparr>)"

text \<open>What \<open>resolveAccessForUserInner\<close> reads: from the index when it is this vault's, else from the
  memo when there is one, else from the database.\<close>

definition matchingIndex :: "access_context \<Rightarrow> access_index option \<Rightarrow> access_index option" where
  "matchingIndex ctx accessIndex = (case accessIndex of
       Some ix \<Rightarrow> if ixOrg ix = cxOrg ctx then Some ix else None | None \<Rightarrow> None)"

definition ctxDenied :: "database \<Rightarrow> access_context \<Rightarrow> access_index option \<Rightarrow> principal_type \<Rightarrow> string \<Rightarrow> bool" where
  "ctxDenied db ctx index pt pid = (case index of
       Some ix \<Rightarrow> indexedIsDenied ix pt pid (cxDoc ctx) (cxFolderIds ctx)
     | None \<Rightarrow> isDenied db pt pid (cxDoc ctx) (cxFolderIds ctx))"

definition ctxLocked :: "database \<Rightarrow> access_context \<Rightarrow> access_index option \<Rightarrow> string \<Rightarrow> bool" where
  "ctxLocked db ctx index userId = (case index of
       Some ix \<Rightarrow> indexedIsLocked ix userId (cxDoc ctx) (cxFolderIds ctx)
     | None \<Rightarrow> isLocked db userId (cxDoc ctx) (cxFolderIds ctx))"

definition ctxGrant :: "database \<Rightarrow> access_context \<Rightarrow> access_index option \<Rightarrow> string \<Rightarrow> bool \<Rightarrow> bool
    \<Rightarrow> member_snapshot option \<Rightarrow> int option \<Rightarrow> bool \<Rightarrow> permission" where
  "ctxGrant db ctx index userId isMember orgGrantsApply snapshot createdAt orgVaultClause =
     sharePermission db userId (cxDoc ctx) (cxFolderIds ctx) (cxOrg ctx) isMember orgGrantsApply
       snapshot createdAt index orgVaultClause"

definition readPersonal :: "database \<Rightarrow> string \<Rightarrow> string \<Rightarrow> access_index option \<Rightarrow> resolver_cache option
    \<Rightarrow> personal_level option \<times> resolver_cache option" where
  "readPersonal db orgId userId index cache = (case index of
       Some ix \<Rightarrow> (indexedPersonalVault ix userId, cache)
     | None \<Rightarrow> (case cache of
           Some c \<Rightarrow> (let (v, c') = cachePersonal db orgId userId c in (v, Some c'))
         | None \<Rightarrow> (personalVaultLevel db orgId userId, None)))"

definition readSnapshot :: "database \<Rightarrow> string \<Rightarrow> string \<Rightarrow> resolver_cache option
    \<Rightarrow> member_snapshot option \<times> resolver_cache option" where
  "readSnapshot db orgId userId cache = (case cache of
       Some c \<Rightarrow> (let (v, c') = cacheSnapshot db orgId userId c in (v, Some c'))
     | None \<Rightarrow> (memberAccessSnapshot db orgId userId, None))"

definition readBaseline :: "database \<Rightarrow> string \<Rightarrow> resolver_cache option
    \<Rightarrow> vault_posture \<times> resolver_cache option" where
  "readBaseline db orgId cache = (case cache of
       Some c \<Rightarrow> (let (v, c') = cacheBaseline db orgId c in (v, Some c'))
     | None \<Rightarrow> (vaultBaseline db orgId, None))"

definition resolveAccessForUserInner :: "database \<Rightarrow> access_context \<Rightarrow> string \<Rightarrow> string option
    \<Rightarrow> resolver_cache option \<Rightarrow> access_index option \<Rightarrow> resolved_access \<times> resolver_cache option" where
  "resolveAccessForUserInner db ctx userId role cache accessIndex =
     (let index = matchingIndex ctx accessIndex;
          locked = ctxLocked db ctx index userId;
          grant = ctxGrant db ctx index userId
      in if ctxDenied db ctx index PUser userId
         then (\<lparr>raPermission = PermNone, raCapped = False, raDenied = True\<rparr>, cache)
         else
           (let itemPrivate = ctxDenied db ctx index POrg (cxOrg ctx);
                (personal, cache1) = readPersonal db (cxOrg ctx) userId index cache
            in case personal of
                 Some level \<Rightarrow>
                   (let granted = grant (role \<noteq> None) (\<not> itemPrivate \<and> level \<noteq> PersonalDenied)
                                    None None False
                    in (if granted = PermNone
                        then \<lparr>raPermission = PermNone, raCapped = False,
                              raDenied = (itemPrivate \<or> level = PersonalDenied)\<rparr>
                        else capped locked granted, cache1))
               | None \<Rightarrow>
                   (let (snapshot, cache2) = readSnapshot db (cxOrg ctx) userId cache1;
                        existingAtJoin = (case snapshot of None \<Rightarrow> False | Some s \<Rightarrow> cxCreatedAt ctx \<le> snAt s)
                    in if existingAtJoin then
                         (let direct = grant (role \<noteq> None) (\<not> itemPrivate) snapshot
                                         (Some (cxCreatedAt ctx)) True;
                              permission = maxPermission
                                (if itemPrivate then PermNone else snapshotLevel (snMode (the snapshot)))
                                direct
                          in (if permission = PermNone
                              then \<lparr>raPermission = PermNone, raCapped = False, raDenied = itemPrivate\<rparr>
                              else capped locked permission, cache2))
                       else
                         (let (baseline, cache3) = readBaseline db (cxOrg ctx) cache2;
                              isCreator = (role \<noteq> None \<and> truthy (cxCreatedBy ctx) \<and>
                                           cxCreatedBy ctx = Some userId);
                              granted =
                                (if itemPrivate then grant False False None None True
                                 else if baseline = Some PostureView \<or> baseline = Some PostureSealed
                                 then grant (role \<noteq> None) True None None True
                                 else if baseline \<noteq> None \<and> (role = Some ''owner'' \<or> role = Some ''admin'')
                                 then PermEdit
                                 else if isCreator then PermEdit
                                 else grant (role \<noteq> None) True None None True)
                          in (if granted = PermNone
                              then \<lparr>raPermission = PermNone, raCapped = False, raDenied = itemPrivate\<rparr>
                              else capped locked granted, cache3)))))"

definition resolveAccessForUser :: "deployment \<Rightarrow> database \<Rightarrow> access_context \<Rightarrow> string \<Rightarrow> string option
    \<Rightarrow> resolver_cache option \<Rightarrow> access_index option \<Rightarrow> resolved_access \<times> resolver_cache option" where
  "resolveAccessForUser env db ctx userId role cache accessIndex =
     (let (resolved, cache1) = resolveAccessForUserInner db ctx userId role cache accessIndex
      in if raPermission resolved \<noteq> PermEdit then (resolved, cache1)
         else
           (let m = (case cache1 of Some c \<Rightarrow> c | None \<Rightarrow> createResolverCache);
                (readOnly, m') = cacheBillingReadOnly env db (cxOrg ctx) m
            in (if readOnly then resolved\<lparr>raPermission := PermView\<rparr> else resolved,
                map_option (\<lambda>_. m') cache1)))"

end
