(* ===== verification/Acl_Rows.thy ===== *)
theory Acl_Rows
  imports Acl_Resolve
begin

text \<open>
  Every source of rows gives the same answers. \<open>covers\<close> says what a list of rows must hold to
  answer for a user, an item and a vault; under the table's uniqueness constraint any covering
  list gives the verdicts the single queries give, in whatever order its rows come. The
  interface is the locale \<open>share_source\<close>; it is interpreted on the document query
  (\<open>docShareRows\<close>), on the prefetched rows and on the access index.
\<close>

definition vaultRow :: "string \<Rightarrow> share_row \<Rightarrow> bool" where
  "vaultRow orgId r \<longleftrightarrow> srResourceType r = RVault \<and> srResourceId r = orgId"

definition forUser :: "string \<Rightarrow> share_row \<Rightarrow> bool" where
  "forUser userId r \<longleftrightarrow> srPrincipalType r = POrg \<or> srPrincipalType r = PUser \<and> srPrincipalId r = userId"

definition coversItem :: "database \<Rightarrow> string \<Rightarrow> string option \<Rightarrow> string list \<Rightarrow> share_row list \<Rightarrow> bool" where
  "coversItem db userId docId folderIds rows \<longleftrightarrow>
     set rows \<subseteq> set (shares db) \<and>
     (\<forall>r \<in> set rows. isItemRow r \<longrightarrow> onItem docId folderIds r) \<and>
     (\<forall>r \<in> set (shares db). forUser userId r \<and> onItem docId folderIds r \<longrightarrow> r \<in> set rows)"

definition covers :: "database \<Rightarrow> string \<Rightarrow> string option \<Rightarrow> string list \<Rightarrow> string \<Rightarrow> share_row list \<Rightarrow> bool" where
  "covers db userId docId folderIds orgId rows \<longleftrightarrow>
     coversItem db userId docId folderIds rows \<and>
     (\<forall>r \<in> set (shares db). forUser userId r \<and> vaultRow orgId r \<longrightarrow> r \<in> set rows)"

section \<open>Item verdicts\<close>

lemma verdictLoop_cong:
  "(\<And>item. item \<in> set items \<Longrightarrow> row item = row' item) \<Longrightarrow>
   verdictLoop row items cap vf = verdictLoop row' items cap vf"
  by (induction items arbitrary: cap vf) (auto split: option.splits stored_permission.splits)

lemma itemOrder_onItem:
  "(srResourceType r, srResourceId r) \<in> set (itemOrder docId folderIds) \<longleftrightarrow> onItem docId folderIds r"
  by (auto simp: itemOrder_def onItem_def split: option.splits)

lemma item_of_order: "(ty, i) \<in> set (itemOrder docId folderIds) \<Longrightarrow> ty = RFile \<or> ty = RFolder"
  by (auto simp: itemOrder_def split: option.splits)

text \<open>The normal form of the per-user verdict: over the whole table.\<close>

definition itemVerdict :: "database \<Rightarrow> string \<Rightarrow> string option \<Rightarrow> string list \<Rightarrow> user_item_verdict" where
  "itemVerdict db userId docId folderIds = userItemVerdict (shares db) userId docId folderIds"

lemma userItemVerdict_eq:
  assumes u: "unique_shares db" and sub: "set rows \<subseteq> set (shares db)"
    and full: "\<And>r. r \<in> set (shares db) \<Longrightarrow> srPrincipalType r = PUser \<Longrightarrow> srPrincipalId r = userId \<Longrightarrow>
      onItem docId folderIds r \<Longrightarrow> r \<in> set rows"
  shows "userItemVerdict rows userId docId folderIds = itemVerdict db userId docId folderIds"
  unfolding itemVerdict_def userItemVerdict_def
proof (rule verdictLoop_cong)
  fix item assume item: "item \<in> set (itemOrder docId folderIds)"
  obtain ty i where [simp]: "item = (ty, i)" by (cases item)
  have on: "onItem docId folderIds r" if "srResourceType r = ty" "srResourceId r = i" for r
    using item that by (metis \<open>item = (ty, i)\<close> itemOrder_onItem)
  show "userRow rows userId item = userRow (shares db) userId item"
    unfolding userRow_def \<open>item = (ty, i)\<close> prod.case
  proof (rule first_row_eqI)
    fix r r' :: share_row assume "r \<in> set rows \<union> set (shares db)" "r' \<in> set rows \<union> set (shares db)"
      "srResourceType r = ty \<and> srResourceId r = i \<and> srPrincipalType r = PUser \<and> srPrincipalId r = userId"
      "srResourceType r' = ty \<and> srResourceId r' = i \<and> srPrincipalType r' = PUser \<and> srPrincipalId r' = userId"
    then show "r = r'" using sub by (intro unique_shares_eq [OF u]) (auto simp: share_key_def)
  next
    fix r :: share_row assume "srResourceType r = ty \<and> srResourceId r = i \<and> srPrincipalType r = PUser \<and> srPrincipalId r = userId"
    then show "r \<in> set rows \<longleftrightarrow> r \<in> set (shares db)" using sub on full by blast
  qed
qed

lemma covers_verdict:
  assumes "unique_shares db" "coversItem db userId docId folderIds rows"
  shows "userItemVerdict rows userId docId folderIds = itemVerdict db userId docId folderIds"
  using assms(2) by (intro userItemVerdict_eq [OF assms(1)]) (auto simp: coversItem_def forUser_def)

section \<open>Denied, locked, personal level\<close>

lemma isDenied_user:
  assumes "unique_shares db"
  shows "isDenied db PUser userId docId folderIds = uvDeny (itemVerdict db userId docId folderIds)"
proof -
  have "userItemVerdict (userItemRows db userId docId folderIds) userId docId folderIds =
      itemVerdict db userId docId folderIds"
    by (rule userItemVerdict_eq [OF assms]) (auto simp: userItemRows_def)
  then show ?thesis by (simp add: isDenied_def)
qed

lemma isDenied_org:
  "isDenied db POrg orgId docId folderIds \<longleftrightarrow>
     (\<exists>r \<in> set (shares db). onItem docId folderIds r \<and> srPermission r = SDenied \<and>
        srPrincipalType r = POrg \<and> srPrincipalId r = orgId)"
  by (auto simp: isDenied_def list_ex_iff)

lemma onItem_isItemRow: "onItem docId folderIds r \<Longrightarrow> isItemRow r"
  by (auto simp: onItem_def isItemRow_def)

lemma covers_denied:
  assumes "unique_shares db" "coversItem db userId docId folderIds rows"
  shows "rowsDenied rows PUser userId docId folderIds = isDenied db PUser userId docId folderIds"
    and "rowsDenied rows POrg orgId docId folderIds = isDenied db POrg orgId docId folderIds"
proof -
  show "rowsDenied rows PUser userId docId folderIds = isDenied db PUser userId docId folderIds"
    using assms by (simp add: rowsDenied_def isDenied_user covers_verdict)
  have "(\<exists>r \<in> set rows. isItemRow r \<and> srPermission r = SDenied \<and> srPrincipalType r = POrg \<and> srPrincipalId r = orgId) \<longleftrightarrow>
      (\<exists>r \<in> set (shares db). onItem docId folderIds r \<and> srPermission r = SDenied \<and> srPrincipalType r = POrg \<and>
         srPrincipalId r = orgId)"
    using assms(2) onItem_isItemRow unfolding coversItem_def forUser_def by blast
  then show "rowsDenied rows POrg orgId docId folderIds = isDenied db POrg orgId docId folderIds"
    by (simp add: rowsDenied_def isDenied_org list_ex_iff)
qed

definition orgLocked :: "database \<Rightarrow> string option \<Rightarrow> string list \<Rightarrow> bool" where
  "orgLocked db docId folderIds \<longleftrightarrow>
     (\<exists>r \<in> set (shares db). onItem docId folderIds r \<and> (srPermission r = SLocked \<or> srPermission r = SReadonly) \<and>
        srPrincipalType r = POrg)"

lemma isLocked_iff:
  assumes "unique_shares db"
  shows "isLocked db userId docId folderIds \<longleftrightarrow>
    orgLocked db docId folderIds \<or> uvCap (itemVerdict db userId docId folderIds)"
proof -
  let ?rows = "filter (\<lambda>r. ((srPrincipalType r = POrg \<and> (srPermission r = SLocked \<or> srPermission r = SReadonly)) \<or>
                     (srPrincipalType r = PUser \<and> srPrincipalId r = userId)) \<and>
                    onItem docId folderIds r) (shares db)"
  have "userItemVerdict ?rows userId docId folderIds = itemVerdict db userId docId folderIds"
    by (rule userItemVerdict_eq [OF assms]) auto
  moreover have "list_ex (\<lambda>r. isItemRow r \<and> (srPermission r = SLocked \<or> srPermission r = SReadonly) \<and>
      srPrincipalType r = POrg) ?rows \<longleftrightarrow> orgLocked db docId folderIds"
    using onItem_isItemRow unfolding list_ex_iff orgLocked_def set_filter by blast
  ultimately show ?thesis by (simp add: isLocked_def rowsLocked_def)
qed

lemma covers_locked:
  assumes "unique_shares db" "coversItem db userId docId folderIds rows"
  shows "rowsLocked rows userId docId folderIds = isLocked db userId docId folderIds"
proof -
  have "list_ex (\<lambda>r. isItemRow r \<and> (srPermission r = SLocked \<or> srPermission r = SReadonly) \<and>
      srPrincipalType r = POrg) rows \<longleftrightarrow> orgLocked db docId folderIds"
    using assms(2) onItem_isItemRow unfolding list_ex_iff orgLocked_def coversItem_def forUser_def by blast
  then show ?thesis using assms by (simp add: rowsLocked_def isLocked_iff covers_verdict)
qed

lemma personal_eq:
  assumes "unique_shares db" "set rows \<subseteq> set (shares db)"
    and "\<And>r. r \<in> set (shares db) \<Longrightarrow> forUser userId r \<Longrightarrow> vaultRow orgId r \<Longrightarrow> r \<in> set rows"
  shows "rowsPersonalVault rows userId orgId = personalVaultLevel db orgId userId"
proof -
  have "first_row (personalRow userId orgId) rows = first_row (personalRow userId orgId) (shares db)"
  proof (rule first_row_eqI)
    fix r r' :: share_row assume "r \<in> set rows \<union> set (shares db)" "r' \<in> set rows \<union> set (shares db)"
      "personalRow userId orgId r" "personalRow userId orgId r'"
    then show "r = r'" using assms(2)
      by (intro unique_shares_eq [OF assms(1)]) (auto simp: share_key_def personalRow_def)
  next
    fix r :: share_row assume "personalRow userId orgId r"
    then show "r \<in> set rows \<longleftrightarrow> r \<in> set (shares db)"
      using assms(2,3) by (auto simp: personalRow_def forUser_def vaultRow_def)
  qed
  then show ?thesis by (simp add: rowsPersonalVault_def personalVaultLevel_def)
qed

section \<open>Grants\<close>

text \<open>An org grant that existed when the member joined is what the member's snapshot already
  answered; it does not count again.\<close>

definition liveGrant :: "member_snapshot option \<Rightarrow> int option \<Rightarrow> share_row \<Rightarrow> bool" where
  "liveGrant snapshot createdAt r \<longleftrightarrow>
     \<not> (srPrincipalType r = POrg \<and>
        (case (snapshot, createdAt) of (Some s, Some t) \<Rightarrow> t \<le> snAt s | _ \<Rightarrow> False) \<and>
        srRevision r \<le> snRevision (the snapshot))"

definition grantOf :: "(share_row \<Rightarrow> bool) \<Rightarrow> share_row set \<Rightarrow> permission" where
  "grantOf live R =
     (if \<exists>r \<in> R. live r \<and> srPermission r = SEdit then PermEdit
      else if \<exists>r \<in> R. live r \<and> (srPermission r = SView \<or> srPermission r = SReadonly) then PermView
      else PermNone)"

lemma maxPermission_simps [simp]:
  "maxPermission PermNone p = p" "maxPermission p PermNone = p" "maxPermission p p = p"
  "maxPermission PermEdit p = PermEdit" "maxPermission p PermEdit = PermEdit"
  by (cases p; simp add: maxPermission_def)+

lemma maxPermission_assoc: "maxPermission (maxPermission a b) c = maxPermission a (maxPermission b c)"
  by (cases a; cases b; cases c; simp add: maxPermission_def)

lemma maxPermission_commute: "maxPermission a b = maxPermission b a"
  by (cases a; cases b; simp add: maxPermission_def)

lemma maxPermission_eq_none [simp]: "maxPermission a b = PermNone \<longleftrightarrow> a = PermNone \<and> b = PermNone"
  by (cases a; cases b; simp add: maxPermission_def)

lemma maxPermission_eq_edit [simp]: "maxPermission a b = PermEdit \<longleftrightarrow> a = PermEdit \<or> b = PermEdit"
  by (cases a; cases b; simp add: maxPermission_def)

lemma grantStep_max: "grantStep s t r best = maxPermission best (grantStep s t r PermNone)"
  by (simp add: grantStep_def Let_def)

lemma grantStep_none: "grantStep s t r PermNone = grantOf (liveGrant s t) {r}"
  by (auto simp: grantStep_def grantOf_def liveGrant_def Let_def)

lemma grantOf_insert: "grantOf live (insert r R) = maxPermission (grantOf live {r}) (grantOf live R)"
  by (auto simp: grantOf_def maxPermission_def)

lemma grantFromRows_set:
  "fold (grantStep s t) rows best = maxPermission best (grantOf (liveGrant s t) (set rows))"
proof (induction rows arbitrary: best)
  case Nil
  then show ?case by (simp add: grantOf_def)
next
  case (Cons r rows)
  have "fold (grantStep s t) (r # rows) best =
      maxPermission (maxPermission best (grantOf (liveGrant s t) {r})) (grantOf (liveGrant s t) (set rows))"
    using Cons.IH grantStep_max [of s t r best] by (simp add: grantStep_none)
  then show ?case by (simp add: maxPermission_assoc grantOf_insert [of _ r "set rows"])
qed

lemma grantFromRows_eq: "grantFromRows rows s t = grantOf (liveGrant s t) (set rows)"
  by (simp add: grantFromRows_def grantFromRows_set)

text \<open>The grants that count, as a set over the whole table.\<close>

definition grantRows :: "database \<Rightarrow> string \<Rightarrow> string option \<Rightarrow> string list \<Rightarrow> string \<Rightarrow> bool \<Rightarrow> bool
    \<Rightarrow> share_row set" where
  "grantRows db userId docId folderIds orgId orgClause orgVaultClause =
     {r \<in> set (shares db). grantBase userId orgId orgClause orgVaultClause r \<and>
        (onItem docId folderIds r \<or> vaultRow orgId r)}"

lemma shareQuery_rows:
  "{r \<in> set (shareQuery db userId docId folderIds orgId oc ovc). grantBase userId orgId oc ovc r} =
     grantRows db userId docId folderIds orgId oc ovc"
  unfolding shareQuery_def grantRows_def grantBase_def vaultRow_def onItem_def by auto

lemma grantBase_cases:
  "grantBase userId orgId oc ovc r \<Longrightarrow> forUser userId r \<and> (isItemRow r \<or> vaultRow orgId r)"
  by (auto simp: grantBase_def forUser_def isItemRow_def vaultRow_def)

lemma covers_rows:
  assumes "covers db userId docId folderIds orgId rows"
  shows "{r \<in> set rows. grantBase userId orgId oc ovc r} = grantRows db userId docId folderIds orgId oc ovc"
proof (intro set_eqI iffI)
  fix r assume r: "r \<in> {r \<in> set rows. grantBase userId orgId oc ovc r}"
  then show "r \<in> grantRows db userId docId folderIds orgId oc ovc"
    using assms grantBase_cases [of userId orgId oc ovc r]
    unfolding covers_def coversItem_def grantRows_def by blast
next
  fix r assume "r \<in> grantRows db userId docId folderIds orgId oc ovc"
  then show "r \<in> {r \<in> set rows. grantBase userId orgId oc ovc r}"
    using assms grantBase_cases [of userId orgId oc ovc r]
    unfolding covers_def coversItem_def grantRows_def by blast
qed

definition grantNF :: "database \<Rightarrow> string \<Rightarrow> string option \<Rightarrow> string list \<Rightarrow> string \<Rightarrow> bool \<Rightarrow> bool
    \<Rightarrow> member_snapshot option \<Rightarrow> int option \<Rightarrow> permission" where
  "grantNF db userId docId folderIds orgId oc ovc s t =
     maxPermission (grantOf (liveGrant s t) (grantRows db userId docId folderIds orgId oc ovc))
       (uvGrant (itemVerdict db userId docId folderIds))"

lemma sharePermission_query:
  assumes "unique_shares db"
  shows "sharePermission db userId docId folderIds orgId isMember oga s t None ovc =
    grantNF db userId docId folderIds orgId (isMember \<and> oga) ovc s t"
proof -
  let ?rows = "shareQuery db userId docId folderIds orgId (isMember \<and> oga) ovc"
  have "userItemVerdict ?rows userId docId folderIds = itemVerdict db userId docId folderIds"
    by (rule userItemVerdict_eq [OF assms]) (auto simp: shareQuery_def)
  moreover have "grantFromRows (filter (grantBase userId orgId (isMember \<and> oga) ovc) ?rows) s t =
      grantOf (liveGrant s t) (grantRows db userId docId folderIds orgId (isMember \<and> oga) ovc)"
    unfolding grantFromRows_eq set_filter shareQuery_rows ..
  ultimately show ?thesis by (simp add: sharePermission_def rowsGrant_def grantNF_def)
qed

lemma covers_grant:
  assumes "unique_shares db" "covers db userId docId folderIds orgId rows"
  shows "rowsGrant rows userId docId folderIds orgId oc ovc s t =
    grantNF db userId docId folderIds orgId oc ovc s t"
proof -
  have "grantFromRows (filter (grantBase userId orgId oc ovc) rows) s t =
      grantOf (liveGrant s t) (grantRows db userId docId folderIds orgId oc ovc)"
    unfolding grantFromRows_eq set_filter covers_rows [OF assms(2)] ..
  moreover have "coversItem db userId docId folderIds rows" using assms(2) by (simp add: covers_def)
  ultimately show ?thesis using assms(1) by (simp add: rowsGrant_def grantNF_def covers_verdict)
qed

section \<open>Sources of rows\<close>

text \<open>What the resolver asks of a source of rows: for a doc, its chain and its vault, the rows it
  returns cover the question. \<open>valid\<close> is when the source may be asked.\<close>

locale share_source =
  fixes fetch :: "database \<Rightarrow> string \<Rightarrow> string option \<Rightarrow> string list \<Rightarrow> string \<Rightarrow> share_row list"
    and valid :: "database \<Rightarrow> string option \<Rightarrow> string list \<Rightarrow> string \<Rightarrow> bool"
  assumes fetch_covers: "valid db docId folderIds orgId \<Longrightarrow>
    covers db userId docId folderIds orgId (fetch db userId docId folderIds orgId)"
begin

lemma fetch_coversItem:
  "valid db docId folderIds orgId \<Longrightarrow> coversItem db userId docId folderIds (fetch db userId docId folderIds orgId)"
  using fetch_covers by (simp add: covers_def)

lemma fetch_denied:
  assumes "unique_shares db" "valid db docId folderIds orgId"
  shows "rowsDenied (fetch db userId docId folderIds orgId) PUser userId docId folderIds =
      isDenied db PUser userId docId folderIds"
    and "rowsDenied (fetch db userId docId folderIds orgId) POrg orgId' docId folderIds =
      isDenied db POrg orgId' docId folderIds"
  using covers_denied [OF assms(1) fetch_coversItem [OF assms(2)]] by auto

lemma fetch_locked:
  assumes "unique_shares db" "valid db docId folderIds orgId"
  shows "rowsLocked (fetch db userId docId folderIds orgId) userId docId folderIds =
      isLocked db userId docId folderIds"
  using covers_locked [OF assms(1) fetch_coversItem [OF assms(2)]] .

lemma fetch_personal:
  assumes "unique_shares db" "valid db docId folderIds orgId"
  shows "rowsPersonalVault (fetch db userId docId folderIds orgId) userId orgId =
      personalVaultLevel db orgId userId"
  using fetch_covers [OF assms(2), of userId]
  by (intro personal_eq [OF assms(1)]) (auto simp: covers_def coversItem_def)

lemma fetch_grant:
  assumes "unique_shares db" "valid db docId folderIds orgId"
  shows "rowsGrant (fetch db userId docId folderIds orgId) userId docId folderIds orgId
      (isMember \<and> oga) ovc s t =
    sharePermission db userId docId folderIds orgId isMember oga s t None ovc"
  using covers_grant [OF assms(1) fetch_covers [OF assms(2)]] sharePermission_query [OF assms(1)] by simp

end

lemma docShareRows_covers: "covers db userId (Some d) folderIds orgId (docShareRows db userId d folderIds orgId)"
  by (auto simp: covers_def coversItem_def docShareRows_def forUser_def vaultRow_def isItemRow_def)

interpretation doc_rows: share_source
  "\<lambda>db userId docId folderIds orgId. docShareRows db userId (the docId) folderIds orgId"
  "\<lambda>db docId folderIds orgId. docId \<noteq> None"
  by unfold_locales (auto simp: docShareRows_covers)

section \<open>Rows grouped by resource\<close>

definition rowsAt :: "(resource_type \<times> string, share_row list) js_map \<Rightarrow> resource_type \<Rightarrow> string
    \<Rightarrow> share_row list" where
  "rowsAt m ty i = (case js_get m (ty, i) of None \<Rightarrow> [] | Some rs \<Rightarrow> rs)"

lemma rowsAt_addShare:
  "rowsAt (addShare r m) ty i =
     rowsAt m ty i @ (if srResourceType r = ty \<and> srResourceId r = i then [r] else [])"
  by (auto simp: rowsAt_def addShare_def Let_def split: option.splits)

lemma rowsAt_fold:
  "rowsAt (fold addShare rows m) ty i =
     rowsAt m ty i @ filter (\<lambda>r. srResourceType r = ty \<and> srResourceId r = i) rows"
  by (induction rows arbitrary: m) (auto simp: rowsAt_addShare)

lemma rowsAt_grouped:
  "rowsAt (fold addShare rows []) ty i = filter (\<lambda>r. srResourceType r = ty \<and> srResourceId r = i) rows"
  using rowsAt_fold [of rows "[]"] by (simp add: rowsAt_def)

definition groupedRows :: "share_row list \<Rightarrow> string option \<Rightarrow> string list \<Rightarrow> string option \<Rightarrow> share_row list" where
  "groupedRows rows docId folderIds vault =
     (case docId of None \<Rightarrow> [] | Some d \<Rightarrow> filter (\<lambda>r. srResourceType r = RFile \<and> srResourceId r = d) rows) @
     concat (map (\<lambda>f. filter (\<lambda>r. srResourceType r = RFolder \<and> srResourceId r = f) rows) folderIds) @
     (case vault of None \<Rightarrow> [] | Some v \<Rightarrow> filter (\<lambda>r. srResourceType r = RVault \<and> srResourceId r = v) rows)"

lemma set_groupedRows:
  "set (groupedRows rows docId folderIds vault) =
     {r \<in> set rows. onItem docId folderIds r \<or> (\<exists>v. vault = Some v \<and> vaultRow v r)}"
  by (cases docId; cases vault) (auto simp: groupedRows_def onItem_def vaultRow_def)

lemma indexedRows_eq:
  "ixShares index = fold addShare rows [] \<Longrightarrow>
   indexedRows index docId folderIds vault = groupedRows rows docId folderIds vault"
  by (simp add: indexedRows_def Let_def groupedRows_def rowsAt_grouped [unfolded rowsAt_def])

lemma preloadRows_eq:
  "preloadRows (fold addShare rows []) d chain orgId = groupedRows rows (Some d) chain (Some orgId)"
  by (simp add: preloadRows_def Let_def groupedRows_def rowsAt_grouped [unfolded rowsAt_def])

lemma grouped_coversItem:
  assumes "set rows \<subseteq> set (shares db)"
    and "\<And>r. r \<in> set (shares db) \<Longrightarrow> onItem docId folderIds r \<Longrightarrow> r \<in> set rows"
  shows "coversItem db userId docId folderIds (groupedRows rows docId folderIds vault)"
  using assms unfolding coversItem_def set_groupedRows vaultRow_def isItemRow_def by auto

lemma grouped_covers:
  assumes "set rows \<subseteq> set (shares db)"
    and "\<And>r. r \<in> set (shares db) \<Longrightarrow> onItem docId folderIds r \<or> vaultRow orgId r \<Longrightarrow> r \<in> set rows"
  shows "covers db userId docId folderIds orgId (groupedRows rows docId folderIds (Some orgId))"
  using grouped_coversItem [of rows db docId folderIds userId "Some orgId"] assms
  unfolding covers_def set_groupedRows by auto

text \<open>The access index covers what belongs to its vault: the doc and every folder of the chain.\<close>

definition inIndex :: "database \<Rightarrow> string option \<Rightarrow> string list \<Rightarrow> string \<Rightarrow> bool" where
  "inIndex db docId folderIds orgId \<longleftrightarrow>
     (\<forall>d. docId = Some d \<longrightarrow>
        (\<exists>n \<in> set (noteRows db). ntId n = d \<and> inOrg db orgId (ntVault n)) \<or>
        (\<exists>f \<in> set (fileRows db). flId f = d \<and> inOrg db orgId (flVault f))) \<and>
     (\<forall>i \<in> set folderIds. \<exists>f \<in> set (folders db). fdId f = i \<and> inOrg db orgId (fdVault f))"

lemma indexShareRows_full:
  assumes "inIndex db docId folderIds orgId" "r \<in> set (shares db)"
    and on: "onItem docId folderIds r \<or> vaultRow orgId r"
  shows "r \<in> set (indexShareRows db orgId)"
proof -
  consider "srResourceType r = RFile" "docId = Some (srResourceId r)"
    | "srResourceType r = RFolder" "srResourceId r \<in> set folderIds" | "vaultRow orgId r"
    using on by (auto simp: onItem_def)
  then show ?thesis
  proof cases
    case 1
    then show ?thesis using assms(1,2) by (auto simp: indexShareRows_def inIndex_def list_ex_iff)
  next
    case 2
    then show ?thesis using assms(1,2) by (auto simp: indexShareRows_def inIndex_def list_ex_iff)
  next
    case 3
    then show ?thesis using assms(2) by (simp add: indexShareRows_def vaultRow_def)
  qed
qed

lemma indexShareRows_sub: "set (indexShareRows db orgId) \<subseteq> set (shares db)"
  by (auto simp: indexShareRows_def)

lemma loaded_indexedRows:
  "indexedRows (loadAccessIndex db orgId) docId folderIds vault =
     groupedRows (indexShareRows db orgId) docId folderIds vault"
  by (rule indexedRows_eq) (simp add: loadAccessIndex_def)

interpretation index_rows: share_source
  "\<lambda>db userId docId folderIds orgId. indexedRows (loadAccessIndex db orgId) docId folderIds (Some orgId)"
  inIndex
  by unfold_locales
     (simp add: loaded_indexedRows grouped_covers indexShareRows_sub indexShareRows_full)

lemma index_coversItem:
  "inIndex db docId folderIds orgId \<Longrightarrow>
   coversItem db userId docId folderIds (indexedRows (loadAccessIndex db orgId) docId folderIds None)"
  by (simp add: loaded_indexedRows grouped_coversItem indexShareRows_sub indexShareRows_full)

end
