(* ===== verification/Acl_Chain.thy ===== *)
theory Acl_Chain
  imports Acl_Rows
begin

text \<open>
  Folder chains. \<open>chain_from\<close> is the specification (the folder, its parent, ... up to the root,
  or up to a parent that does not exist), as an inductive relation. The recursive query, the
  prefetch's \<open>chainOf\<close> over breadth-first ancestry and the index's \<open>indexedAncestors\<close> compute
  it; the recursive query returns exactly when the chain exists, which acyclicity guarantees.
\<close>

inductive chain_from :: "database \<Rightarrow> string option \<Rightarrow> string list \<Rightarrow> bool" for db where
  chain_root: "chain_from db None []"
| chain_missing: "i \<notin> fdId ` set (folders db) \<Longrightarrow> chain_from db (Some i) []"
| chain_step: "f \<in> set (folders db) \<Longrightarrow> chain_from db (fdParent f) ids \<Longrightarrow>
    chain_from db (Some (fdId f)) (fdId f # ids)"

inductive_cases chain_noneE [elim!]: "chain_from db None ids"
inductive_cases chain_someE: "chain_from db (Some i) ids"

lemma folder_unique:
  "unique_folders db \<Longrightarrow> f \<in> set (folders db) \<Longrightarrow> g \<in> set (folders db) \<Longrightarrow> fdId f = fdId g \<Longrightarrow> f = g"
  unfolding unique_folders_def by (metis distinct_map inj_on_def)

lemma folders_with_id:
  assumes "unique_folders db"
  shows "filter (\<lambda>f. Some (fdId f) = x) (folders db) =
    (case x of None \<Rightarrow> [] | Some i \<Rightarrow>
       (case first_row (\<lambda>f. fdId f = i) (folders db) of None \<Rightarrow> [] | Some f \<Rightarrow> [f]))"
proof -
  have "distinct (map fdId fs) \<Longrightarrow> filter (\<lambda>f. fdId f = i) fs =
      (case first_row (\<lambda>f. fdId f = i) fs of None \<Rightarrow> [] | Some f \<Rightarrow> [f])" for fs :: "folder_row list" and i
  proof (induction fs)
    case (Cons a fs)
    have "filter (\<lambda>f. fdId f = fdId a) fs = []" using Cons.prems by (auto simp: filter_empty_conv image_iff)
    then show ?case using Cons by (cases "fdId a = i") (auto simp: first_row_def)
  qed (simp add: first_row_def)
  then show ?thesis using assms by (simp add: unique_folders_def split: option.split)
qed

lemma chain_from_det:
  assumes "unique_folders db" "chain_from db x ids" "chain_from db x ids'"
  shows "ids = ids'"
  using assms(2,3)
proof (induction arbitrary: ids' rule: chain_from.induct)
  case (chain_step f ids)
  have "\<exists>g js. g \<in> set (folders db) \<and> fdId g = fdId f \<and> chain_from db (fdParent g) js \<and> ids' = fdId g # js"
    using chain_step.prems chain_step.hyps(1) by (elim chain_someE) force+
  then obtain g js where g: "g \<in> set (folders db)" "fdId g = fdId f" "chain_from db (fdParent g) js"
    "ids' = fdId g # js" by blast
  then have "g = f" using folder_unique [OF assms(1)] chain_step.hyps(1) by metis
  then show ?case using g chain_step.IH by simp
qed (auto elim: chain_someE)

lemma chain_from_suffix:
  "chain_from db x ids \<Longrightarrow> i \<in> set ids \<Longrightarrow> \<exists>js. chain_from db (Some i) js \<and> length js \<le> length ids"
proof (induction rule: chain_from.induct)
  case (chain_step f ids)
  show ?case
  proof (cases "i = fdId f")
    case True
    then show ?thesis using chain_from.chain_step [OF chain_step.hyps] by (metis order_refl)
  next
    case False
    then show ?thesis using chain_step by fastforce
  qed
qed auto

lemma chain_from_distinct:
  assumes "unique_folders db" "chain_from db x ids"
  shows "distinct ids"
  using assms(2)
proof (induction rule: chain_from.induct)
  case (chain_step f ids)
  have "fdId f \<notin> set ids"
  proof
    assume "fdId f \<in> set ids"
    then obtain js where js: "chain_from db (Some (fdId f)) js" "length js \<le> length ids"
      using chain_from_suffix [OF chain_step.hyps(2)] by blast
    have "js = fdId f # ids"
      using chain_from_det [OF assms(1) js(1)] chain_from.chain_step [OF chain_step.hyps] by blast
    then show False using js(2) by simp
  qed
  then show ?case using chain_step.IH by simp
qed auto

lemma chain_from_folders: "chain_from db x ids \<Longrightarrow> set ids \<subseteq> fdId ` set (folders db)"
  by (induction rule: chain_from.induct) auto

lemma chain_from_length:
  assumes "unique_folders db" "chain_from db x ids"
  shows "length ids \<le> length (folders db)"
proof -
  have "length ids = card (set ids)" using chain_from_distinct [OF assms] by (simp add: distinct_card)
  also have "\<dots> \<le> card (fdId ` set (folders db))"
    using chain_from_folders [OF assms(2)] by (intro card_mono) simp_all
  also have "\<dots> \<le> length (folders db)" by (metis card_image_le card_length le_trans List.finite_set)
  finally show ?thesis .
qed

section \<open>The recursive query\<close>

lemma next_level:
  "concat (map (\<lambda>c. filter (\<lambda>f. Some (fdId f) = fdParent c) (folders db)) [f]) =
     filter (\<lambda>g. Some (fdId g) = fdParent f) (folders db)"
  by simp

lemma ancestorLevels_chain:
  assumes u: "unique_folders db"
  shows "chain_from db x ids \<Longrightarrow> length ids \<le> fuel \<Longrightarrow>
    ancestorLevels db fuel (filter (\<lambda>f. Some (fdId f) = x) (folders db)) = Some ids"
proof (induction arbitrary: fuel rule: chain_from.induct)
  case chain_root
  then show ?case by (cases fuel) simp_all
next
  case (chain_missing i)
  then have "filter (\<lambda>f. Some (fdId f) = Some i) (folders db) = []" by (auto simp: filter_empty_conv)
  then show ?case by (cases fuel) simp_all
next
  case (chain_step f ids)
  have "first_row (\<lambda>g. fdId g = fdId f) (folders db) = Some f"
    using folder_unique [OF u] chain_step.hyps(1) by (intro first_row_unique) auto
  then have level: "filter (\<lambda>g. Some (fdId g) = Some (fdId f)) (folders db) = [f]"
    by (simp add: folders_with_id [OF u] del: option.inject)
  obtain fuel' where "fuel = Suc fuel'" using chain_step.prems by (cases fuel) auto
  then show ?case
    using chain_step.IH [of fuel'] chain_step.prems unfolding level by simp
qed

lemma ancestorLevels_sound:
  assumes u: "unique_folders db"
  shows "ancestorLevels db fuel (filter (\<lambda>f. Some (fdId f) = x) (folders db)) = Some ids \<Longrightarrow>
    chain_from db x ids"
proof (induction fuel arbitrary: x ids)
  case 0
  then have "filter (\<lambda>f. Some (fdId f) = x) (folders db) = []" "ids = []" by (auto split: if_splits)
  then show ?case by (cases x) (auto simp: filter_empty_conv image_iff intro: chain_root chain_missing)
next
  case (Suc fuel)
  show ?case
  proof (cases x)
    case None
    then show ?thesis using Suc.prems by (auto intro: chain_root)
  next
    case (Some i)
    show ?thesis
    proof (cases "first_row (\<lambda>f. fdId f = i) (folders db)")
      case None
      then have "filter (\<lambda>f. Some (fdId f) = x) (folders db) = []"
        unfolding folders_with_id [OF u] Some by simp
      moreover have "i \<notin> fdId ` set (folders db)" using None by (auto simp: first_row_None)
      ultimately show ?thesis using Suc.prems Some by (auto intro: chain_missing)
    next
      case f: (Some f)
      then have mem: "f \<in> set (folders db)" "fdId f = i" by (auto dest: first_row_Some)
      have "filter (\<lambda>f. Some (fdId f) = x) (folders db) = [f]"
        unfolding folders_with_id [OF u] Some using f by simp
      then obtain js where "ids = fdId f # js"
        "ancestorLevels db fuel (filter (\<lambda>g. Some (fdId g) = fdParent f) (folders db)) = Some js"
        using Suc.prems by (auto simp: Let_def)
      then show ?thesis using Suc.IH mem Some by (auto intro: chain_step)
    qed
  qed
qed

text \<open>No folder has the empty id (ids are \<open>randomUUID()\<close>): \<open>if (!folderId)\<close> then only means null.\<close>

definition named_folders :: "database \<Rightarrow> bool" where
  "named_folders db \<longleftrightarrow> [] \<notin> fdId ` set (folders db)"

lemma ancestorFolderIds_iff:
  assumes "unique_folders db" "named_folders db"
  shows "ancestorFolderIds db x = Some ids \<longleftrightarrow> chain_from db x ids"
proof (cases "truthy x")
  case True
  have "ancestorLevels db (Suc (length (folders db))) (filter (\<lambda>f. Some (fdId f) = x) (folders db)) = Some ids
      \<longleftrightarrow> chain_from db x ids"
  proof
    assume "chain_from db x ids"
    then show "ancestorLevels db (Suc (length (folders db)))
        (filter (\<lambda>f. Some (fdId f) = x) (folders db)) = Some ids"
      using chain_from_length [OF assms(1)] by (intro ancestorLevels_chain [OF assms(1)]) (auto intro: le_SucI)
  qed (rule ancestorLevels_sound [OF assms(1)])
  then show ?thesis using True by (simp add: ancestorFolderIds_def del: ancestorLevels.simps)
next
  case False
  then have "x = None \<or> x = Some []" by (auto simp: truthy_def)
  moreover have "chain_from db (Some []) ids \<longleftrightarrow> ids = []"
    using assms(2) by (auto simp: named_folders_def image_iff elim: chain_someE intro: chain_missing)
  ultimately show ?thesis using False by (auto simp: ancestorFolderIds_def intro: chain_root)
qed

lemma chain_exists:
  assumes "\<forall>f \<in> set (folders db). \<forall>p. fdParent f = Some p \<longrightarrow> rank p < (rank (fdId f) :: nat)"
  shows "\<exists>ids. chain_from db x ids"
proof (cases x)
  case (Some i)
  have "\<exists>ids. chain_from db (Some i) ids"
  proof (induction "rank i" arbitrary: i rule: less_induct)
    case less
    show ?case
    proof (cases "i \<in> fdId ` set (folders db)")
      case True
      then obtain f where f: "f \<in> set (folders db)" "fdId f = i" by auto
      have "\<exists>ids. chain_from db (fdParent f) ids"
        using less assms f by (cases "fdParent f") (auto intro: chain_root)
      then show ?thesis using f by (auto intro: chain_step)
    qed (auto intro: chain_missing)
  qed
  then show ?thesis using Some by simp
qed (auto intro: chain_root)

section \<open>Climbing in memory\<close>

definition agrees :: "database \<Rightarrow> string set \<Rightarrow> (string, string option) js_map \<Rightarrow> bool" where
  "agrees db A parents \<longleftrightarrow>
     (\<forall>i \<in> A. js_get parents i = map_option fdParent (first_row (\<lambda>f. fdId f = i) (folders db))) \<and>
     (\<forall>f \<in> set (folders db). \<forall>p. fdId f \<in> A \<and> fdParent f = Some p \<longrightarrow> p \<in> A)"

lemma chainOf_chain:
  "agrees db A parents \<Longrightarrow> chainOf parents acc x = Some ids \<Longrightarrow> set_option x \<subseteq> A \<Longrightarrow>
    \<exists>js. ids = acc @ js \<and> chain_from db x js"
proof (induction parents acc x arbitrary: ids rule: chainOf.induct)
  case (1 parents acc x)
  show ?case
  proof (cases x)
    case None
    then show ?thesis using "1.prems" by (auto simp: chainOf.simps intro: chain_root)
  next
    case (Some i)
    then have get: "js_get parents i = map_option fdParent (first_row (\<lambda>f. fdId f = i) (folders db))"
      using "1.prems" by (auto simp: agrees_def)
    show ?thesis
    proof (cases "first_row (\<lambda>f. fdId f = i) (folders db)")
      case None
      then have "i \<notin> fdId ` set (folders db)" by (auto simp: first_row_None)
      then show ?thesis using Some get None "1.prems" by (auto simp: chainOf.simps intro: chain_missing)
    next
      case f: (Some f)
      then have mem: "f \<in> set (folders db)" "fdId f = i" by (auto dest: first_row_Some)
      have rec: "i \<notin> set acc" "chainOf parents (acc @ [i]) (fdParent f) = Some ids"
        using "1.prems"(2) Some get f by (auto simp: chainOf.simps [of parents acc] split: if_splits)
      have "set_option (fdParent f) \<subseteq> A" using "1.prems"(1,3) Some mem by (auto simp: agrees_def)
      then obtain js where "ids = (acc @ [i]) @ js" "chain_from db (fdParent f) js"
        using "1.IH" [OF Some _ rec(1) "1.prems"(1) rec(2)] get f by auto
      then show ?thesis using mem Some by (auto intro: chain_step)
    qed
  qed
qed

lemma climbStrict_chain:
  assumes "\<And>i fo. js_get m i = Some fo \<Longrightarrow> \<exists>f \<in> set (folders db). fdId f = i \<and> fdParent f = ixParent fo"
  shows "climbStrict m acc x = Some ids \<Longrightarrow> \<exists>js. ids = acc @ js \<and> chain_from db x js \<and> set js \<subseteq> fst ` set m"
  using assms
proof (induction m acc x arbitrary: ids rule: climbStrict.induct)
  case (1 m acc x)
  show ?case
  proof (cases x)
    case None
    then show ?thesis using "1.prems" by (auto simp: climbStrict.simps intro: chain_root)
  next
    case (Some i)
    then obtain fo where fo: "js_get m i = Some fo" "i \<notin> set acc"
      "climbStrict m (acc @ [i]) (ixParent fo) = Some ids"
      using "1.prems"(1) by (auto simp: climbStrict.simps [of m acc] split: option.splits if_splits)
    then obtain js where "ids = (acc @ [i]) @ js" "chain_from db (ixParent fo) js" "set js \<subseteq> fst ` set m"
      using "1.IH" [OF Some fo(1,2,3) "1.prems"(2)] by auto
    moreover obtain f where "f \<in> set (folders db)" "fdId f = i" "fdParent f = ixParent fo"
      using "1.prems"(2) fo(1) by blast
    moreover have "i \<in> fst ` set m" using fo(1) by (force dest: map_of_SomeD)
    ultimately have "ids = acc @ (i # js) \<and> chain_from db x (i # js) \<and> set (i # js) \<subseteq> fst ` set m"
      using Some chain_step [of f db js] by simp
    then show ?thesis by blast
  qed
qed

end
