(* ===== verification/Acl_Coherent.thy ===== *)
theory Acl_Coherent
  imports Acl_Chain
begin

text \<open>
  The memo and the prefetch change nothing about an answer. \<open>cache_ok\<close> says that every memo
  entry is what its query returns; the resolver keeps it, the prefetch establishes it for the
  documents it loads, and under it the cached, the prefetched and the uncached resolver agree.
\<close>

section \<open>Maps built from entries\<close>

lemma js_get_fold_put:
  "js_get (fold (\<lambda>(k, v). js_put k v) xs m) k =
     (case map_of (rev xs) k of None \<Rightarrow> js_get m k | Some v \<Rightarrow> Some v)"
  by (induction xs arbitrary: m) (auto simp: map_add_def split: option.splits)

lemma js_get_map_of: "js_get (js_map_of xs) k = map_of (rev xs) k"
  by (simp add: js_map_of_def js_get_fold_put split: option.splits)

lemma js_get_map_of_mem: "js_get (js_map_of xs) k = Some v \<Longrightarrow> (k, v) \<in> set xs"
  by (auto simp: js_get_map_of dest: map_of_SomeD)

lemma js_get_map_of_None: "js_get (js_map_of xs) k = None \<longleftrightarrow> k \<notin> fst ` set xs"
  by (simp add: js_get_map_of map_of_eq_None_iff)

lemma js_get_map_of_unique:
  assumes "(k, v) \<in> set xs" "\<And>v'. (k, v') \<in> set xs \<Longrightarrow> v' = v"
  shows "js_get (js_map_of xs) k = Some v"
proof (cases "js_get (js_map_of xs) k")
  case None
  then show ?thesis using assms(1) by (force simp: js_get_map_of_None)
next
  case (Some v')
  then show ?thesis using assms(2) js_get_map_of_mem [OF Some] by simp
qed

section \<open>Breadth-first ancestry is closed\<close>

lemma ancestryRow_parents:
  "fold ancestryRow rows (out, asked, nxt) = (out', asked', nxt') \<Longrightarrow>
   set asked \<subseteq> set asked' \<and> (\<forall>r \<in> set rows. \<forall>p. fdParent r = Some p \<longrightarrow> p \<in> set asked')"
proof (induction rows arbitrary: out asked nxt)
  case (Cons r rows)
  obtain o1 a1 n1 where step: "ancestryRow r (out, asked, nxt) = (o1, a1, n1)" by (metis prod_cases3)
  have "set a1 \<subseteq> set asked' \<and> (\<forall>r \<in> set rows. \<forall>p. fdParent r = Some p \<longrightarrow> p \<in> set asked')"
    using Cons.IH [of o1 a1 n1] Cons.prems step by simp
  moreover have "set asked \<subseteq> set a1" "\<And>p. fdParent r = Some p \<Longrightarrow> p \<in> set a1"
    using step by (auto simp: ancestryRow_def split: option.splits if_splits)
  ultimately show ?case by auto
qed simp

definition ancestry_inv :: "database \<Rightarrow> folder_row list \<Rightarrow> string js_set \<Rightarrow> string list \<Rightarrow> bool" where
  "ancestry_inv db out asked frontier \<longleftrightarrow>
     set out \<subseteq> set (folders db) \<and>
     (\<forall>f \<in> set (folders db). fdId f \<in> set asked - set frontier \<longrightarrow> f \<in> set out) \<and>
     (\<forall>f \<in> set out. \<forall>p. fdParent f = Some p \<longrightarrow> p \<in> set asked)"

lemma ancestryRound_inv:
  assumes inv: "ancestry_inv db out asked frontier"
    and round: "ancestryRound db frontier out asked = (out', asked', nxt)"
  shows "ancestry_inv db out' asked' nxt" "set asked \<subseteq> set asked'"
proof -
  have out': "out' = out @ filter (\<lambda>f. fdId f \<in> set frontier) (folders db)"
    using ancestryRow_fold [OF round [unfolded ancestryRound_def]] by blast
  have parents: "set asked \<subseteq> set asked'"
    "\<And>r p. r \<in> set (folders db) \<Longrightarrow> fdId r \<in> set frontier \<Longrightarrow> fdParent r = Some p \<Longrightarrow> p \<in> set asked'"
    using ancestryRow_parents [OF round [unfolded ancestryRound_def]] by auto
  have new: "set asked' - set nxt = set asked"
    using ancestryRound_new [OF round] by auto
  show "ancestry_inv db out' asked' nxt"
    using inv out' parents unfolding ancestry_inv_def new by auto
  show "set asked \<subseteq> set asked'" by (rule parents(1))
qed

lemma ancestryLoop_closed:
  "ancestry_inv db out asked frontier \<Longrightarrow>
   \<exists>A. set asked \<subseteq> A \<and> set (ancestryLoop db out asked frontier) \<subseteq> set (folders db) \<and>
     (\<forall>f \<in> set (folders db). fdId f \<in> A \<longrightarrow> f \<in> set (ancestryLoop db out asked frontier)) \<and>
     (\<forall>f \<in> set (ancestryLoop db out asked frontier). \<forall>p. fdParent f = Some p \<longrightarrow> p \<in> A)"
proof (induction db out asked frontier rule: ancestryLoop.induct)
  case (1 db out asked frontier)
  show ?case
  proof (cases "frontier = []")
    case True
    then show ?thesis using "1.prems"
      by (intro exI [of _ "set asked"]) (auto simp: ancestry_inv_def ancestryLoop.simps)
  next
    case False
    obtain out' asked' nxt where round: "ancestryRound db frontier out asked = (out', asked', nxt)"
      by (metis prod_cases3)
    have "ancestryLoop db out asked frontier = ancestryLoop db out' asked' nxt"
      using False round by (subst ancestryLoop.simps) simp
    then show ?thesis
      using "1.IH" [OF False round [symmetric] refl ancestryRound_inv(1) [OF "1.prems" round]]
        ancestryRound_inv(2) [OF "1.prems" round] by auto
  qed
qed

lemma folderAncestry_agrees:
  assumes u: "unique_folders db"
  shows "\<exists>A. set startIds \<subseteq> A \<and>
    agrees db A (js_map_of (map (\<lambda>r. (fdId r, fdParent r)) (folderAncestry db startIds)))"
proof -
  let ?out = "folderAncestry db startIds"
  have "ancestry_inv db [] (js_set_of startIds) (js_set_of startIds)" by (simp add: ancestry_inv_def)
  then obtain A where A: "set startIds \<subseteq> A" "set ?out \<subseteq> set (folders db)"
    "\<And>f. f \<in> set (folders db) \<Longrightarrow> fdId f \<in> A \<Longrightarrow> f \<in> set ?out"
    "\<And>f p. f \<in> set ?out \<Longrightarrow> fdParent f = Some p \<Longrightarrow> p \<in> A"
    using ancestryLoop_closed [of db "[]" "js_set_of startIds" "js_set_of startIds"]
    by (auto simp: folderAncestry_def Let_def)
  have get: "js_get (js_map_of (map (\<lambda>r. (fdId r, fdParent r)) ?out)) i =
      map_option fdParent (first_row (\<lambda>f. fdId f = i) (folders db))" if "i \<in> A" for i
  proof (cases "first_row (\<lambda>f. fdId f = i) (folders db)")
    case None
    then have "i \<notin> fdId ` set (folders db)" by (auto simp: first_row_None)
    then have "i \<notin> fdId ` set ?out" using A(2) by blast
    then have "js_get (js_map_of (map (\<lambda>r. (fdId r, fdParent r)) ?out)) i = None"
      unfolding js_get_map_of_None by force
    then show ?thesis using None by simp
  next
    case (Some f)
    then have f: "f \<in> set (folders db)" "fdId f = i" by (auto dest: first_row_Some)
    then have "f \<in> set ?out" using A(3) that by blast
    then have "(i, fdParent f) \<in> set (map (\<lambda>r. (fdId r, fdParent r)) ?out)" using f(2) by force
    moreover have "v = fdParent f" if "(i, v) \<in> set (map (\<lambda>r. (fdId r, fdParent r)) ?out)" for v
    proof -
      from that obtain g where g: "g \<in> set ?out" "fdId g = i" "v = fdParent g" by auto
      then have "g \<in> set (folders db)" "fdId g = fdId f" using A(2) f(2) by auto
      then have "g = f" using f(1) folder_unique [OF u] by blast
      then show ?thesis using g by simp
    qed
    ultimately have "js_get (js_map_of (map (\<lambda>r. (fdId r, fdParent r)) ?out)) i = Some (fdParent f)"
      by (rule js_get_map_of_unique)
    then show ?thesis using Some by simp
  qed
  have "p \<in> A" if "f \<in> set (folders db)" "fdId f \<in> A" "fdParent f = Some p" for f p
    using A(4) [OF A(3) [OF that(1,2)] that(3)] .
  then have "agrees db A (js_map_of (map (\<lambda>r. (fdId r, fdParent r)) ?out))"
    unfolding agrees_def using get by blast
  then show ?thesis using A(1) by blast
qed

lemma chainOf_no_start: "chainOf m acc None = Some acc"
  by (simp add: chainOf.simps)

section \<open>The prefetch\<close>

definition preloaded_ok :: "database \<Rightarrow> string \<Rightarrow> preloaded_doc \<Rightarrow> bool" where
  "preloaded_ok db d p \<longleftrightarrow>
     locateDoc db d False = Some (pdLoc p) \<and>
     ancestorFolderIds db (dlFolder (pdLoc p)) = Some (pdFolderIds p) \<and>
     (\<forall>userId. covers db userId (Some d) (pdFolderIds p) (dlOrg (pdLoc p)) (pdRows p))"

lemma located_of_id:
  assumes "d \<in> set docIds"
  shows "map snd (filter (\<lambda>(i, _). i = d) (locatedAll db docIds)) = locatedRows db d False"
proof -
  have "map snd (filter (\<lambda>(i, _). i = d) (List.map_filter (\<lambda>n. map_option (\<lambda>l. (ntId n, l)) (noteLocation db n))
       (filter (\<lambda>n. ntId n \<in> set docIds \<and> ntDeletedAt n = None) ns))) =
    List.map_filter (noteLocation db)
       (filter (\<lambda>n. ntId n = d \<and> (ntDeletedAt n = None \<or> False)) ns)" for ns
    using assms by (induction ns) (auto simp: map_filter_simps split: option.splits)
  moreover have "map snd (filter (\<lambda>(i, _). i = d) (List.map_filter (\<lambda>f. map_option (\<lambda>l. (flId f, l)) (fileLocation db f))
       (filter (\<lambda>f. flId f \<in> set docIds) fs))) =
    List.map_filter (fileLocation db) (filter (\<lambda>f. flId f = d) fs)" for fs
    using assms by (induction fs) (auto simp: map_filter_simps split: option.splits)
  ultimately show ?thesis by (simp add: locatedAll_def locatedRows_def)
qed

lemma located_ids: "(i, l) \<in> set (locatedAll db docIds) \<Longrightarrow> i \<in> set docIds"
  by (auto simp: locatedAll_def List.map_filter_def split: option.splits)

lemma count_filter_length: "count_list (map fst xs) d = length (filter (\<lambda>(i, _). i = d) xs)"
  by (induction xs) auto

lemma unique_located:
  assumes "(d, l) \<in> set (uniqueLocated (locatedAll db docIds))"
  shows "locateDoc db d False = Some l"
proof -
  have mem: "(d, l) \<in> set (locatedAll db docIds)" and one: "count_list (map fst (locatedAll db docIds)) d = 1"
    using assms by (auto simp: uniqueLocated_def)
  let ?xs = "filter (\<lambda>(i, _). i = d) (locatedAll db docIds)"
  have "length ?xs = 1" using one by (simp add: count_filter_length)
  then obtain x where x: "?xs = [x]" by (metis One_nat_def length_0_conv length_Suc_conv)
  have "(d, l) \<in> set ?xs" using mem by simp
  then have "x = (d, l)" using x by simp
  then have "locatedRows db d False = [l]"
    using located_of_id [OF located_ids [OF mem], of db] x by simp
  then show ?thesis by (simp add: locateDoc_def first_row_def)
qed

lemma prefetchDocs_ok:
  assumes u: "unique_folders db" "named_folders db"
    and get: "js_get (prefetchDocs db docIds) d = Some p"
  shows "preloaded_ok db d p"
proof -
  let ?unique = "uniqueLocated (locatedAll db docIds)"
  let ?start = "js_set_of (List.map_filter (\<lambda>(_, l). dlFolder l) ?unique)"
  let ?parents = "js_map_of (map (\<lambda>r. (fdId r, fdParent r)) (if ?start = [] then [] else folderAncestry db ?start))"
  let ?docs = "List.map_filter (\<lambda>(i, l). map_option (\<lambda>chain. (i, l, chain)) (chainOf ?parents [] (dlFolder l))) ?unique"
  let ?rows = "filter (\<lambda>r.
      (srResourceType r = RFile \<and> srResourceId r \<in> set (map fst ?docs)) \<or>
      (srResourceType r = RFolder \<and> srResourceId r \<in> set (js_set_of (concat (map (\<lambda>(_, _, chain). chain) ?docs)))) \<or>
      (srResourceType r = RVault \<and> srResourceId r \<in> set (js_set_of (map (\<lambda>(_, l, _). dlOrg l) ?docs)))) (shares db)"
  have "js_get (js_map_of (map (\<lambda>(i, l, chain).
       (i, \<lparr>pdLoc = l, pdFolderIds = chain, pdRows = preloadRows (fold addShare ?rows []) i chain (dlOrg l)\<rparr>)) ?docs)) d = Some p"
    using get by (simp add: prefetchDocs_def Let_def del: set_map split: if_splits)
  then obtain l chain where doc: "(d, l, chain) \<in> set ?docs"
    and p: "p = \<lparr>pdLoc = l, pdFolderIds = chain, pdRows = preloadRows (fold addShare ?rows []) d chain (dlOrg l)\<rparr>"
    by (auto dest!: js_get_map_of_mem)
  have uniq: "(d, l) \<in> set ?unique" and chain: "chainOf ?parents [] (dlFolder l) = Some chain"
    using doc by (auto simp: List.map_filter_def split: option.splits)
  have "chain_from db (dlFolder l) chain"
  proof (cases "dlFolder l")
    case None
    then show ?thesis using chain by (simp add: chainOf_no_start chain_root)
  next
    case (Some f)
    then have f: "f \<in> set ?start" using uniq by (force simp: List.map_filter_def)
    obtain A where A: "set ?start \<subseteq> A"
      "agrees db A (js_map_of (map (\<lambda>r. (fdId r, fdParent r)) (folderAncestry db ?start)))"
      using folderAncestry_agrees [OF u(1), of ?start] by blast
    then have "agrees db A ?parents" using f by (auto simp del: set_js_set_of)
    then show ?thesis using chainOf_chain [of db A ?parents "[]" "dlFolder l" chain] chain f A(1) Some by auto
  qed
  moreover have "covers db userId (Some d) chain (dlOrg l)
      (preloadRows (fold addShare ?rows []) d chain (dlOrg l))" for userId
    unfolding preloadRows_eq
  proof (rule grouped_covers)
    fix r assume "r \<in> set (shares db)" "onItem (Some d) chain r \<or> vaultRow (dlOrg l) r"
    then show "r \<in> set ?rows" using doc by (force simp: onItem_def vaultRow_def)
  qed auto
  ultimately show ?thesis
    using unique_located [OF uniq] u by (simp add: preloaded_ok_def p ancestorFolderIds_iff)
qed

section \<open>The memo\<close>

definition cache_ok :: "deployment \<Rightarrow> database \<Rightarrow> resolver_cache \<Rightarrow> bool" where
  "cache_ok env db c \<longleftrightarrow>
     (\<forall>o' u v. js_get (rcRoles c) (o', u) = Some v \<longrightarrow> v = memberRole db o' u) \<and>
     (\<forall>o' v. js_get (rcBaselines c) o' = Some v \<longrightarrow> v = vaultBaseline db o') \<and>
     (\<forall>o' u v. js_get (rcSnapshots c) (o', u) = Some v \<longrightarrow> v = memberAccessSnapshot db o' u) \<and>
     (\<forall>o' u v. js_get (rcPersonals c) (o', u) = Some v \<longrightarrow> v = personalVaultLevel db o' u) \<and>
     (\<forall>o' v. js_get (rcPlans c) o' = Some v \<longrightarrow> v = resolveAccountPlan env db (OrgTarget o')) \<and>
     (\<forall>f v. js_get (rcChains c) f = Some v \<longrightarrow> ancestorFolderIds db (Some f) = Some v) \<and>
     (\<forall>o' u v. js_get (rcMemberships c) (o', u) = Some v \<longrightarrow> v = membershipFacts db o' u) \<and>
     (\<forall>d p. js_get (rcPreloaded c) d = Some p \<longrightarrow> preloaded_ok db d p)"

lemma cache_ok_create: "cache_ok env db createResolverCache"
  by (simp add: cache_ok_def createResolverCache_def)

lemma memo_ok:
  assumes "\<And>v. js_get m k = Some v \<Longrightarrow> v = run"
  shows "fst (memo m k run) = run"
    and "js_get (snd (memo m k run)) k' = (if k' = k then Some run else js_get m k')"
  using assms by (auto simp: memo_def split: option.splits)

lemma cache_steps:
  assumes "cache_ok env db c"
  shows "fst (cacheRole db o' u c) = memberRole db o' u" "cache_ok env db (snd (cacheRole db o' u c))"
    and "fst (cacheBaseline db o' c) = vaultBaseline db o'" "cache_ok env db (snd (cacheBaseline db o' c))"
    and "fst (cacheSnapshot db o' u c) = memberAccessSnapshot db o' u"
      "cache_ok env db (snd (cacheSnapshot db o' u c))"
    and "fst (cachePersonal db o' u c) = personalVaultLevel db o' u"
      "cache_ok env db (snd (cachePersonal db o' u c))"
    and "fst (cachePlanFor env db o' c) = resolveAccountPlan env db (OrgTarget o')"
      "cache_ok env db (snd (cachePlanFor env db o' c))"
  using assms
  by (auto simp: cache_ok_def cacheRole_def cacheBaseline_def cacheSnapshot_def cachePersonal_def
        cachePlanFor_def Let_def case_prod_beta memo_ok split: if_splits)

lemma cacheBillingReadOnly_ok:
  assumes "cache_ok env db c"
  shows "fst (cacheBillingReadOnly env db o' c) = isAccountReadOnly env db o'"
    and "cache_ok env db (snd (cacheBillingReadOnly env db o' c))"
  using assms cache_steps(9,10) [OF assms, of o']
  by (auto simp: cacheBillingReadOnly_def isAccountReadOnly_def Let_def case_prod_beta)

lemma membershipFacts_eq:
  "membershipFacts db o' u = \<lparr>mfRole = memberRole db o' u, mfSnapshot = memberAccessSnapshot db o' u,
     mfBaseline = vaultBaseline db o'\<rparr>"
  by (simp add: membershipFacts_def memberRole_def memberAccessSnapshot_def vaultBaseline_def)

lemma js_get_putIfAbsent:
  "js_get (putIfAbsent k v m) k' =
     (if k' = k then (case js_get m k of None \<Rightarrow> Some v | Some w \<Rightarrow> Some w) else js_get m k')"
  by (auto simp: putIfAbsent_def js_has_def split: option.splits)

lemma cacheMembership_ok:
  assumes "cache_ok env db c"
  shows "fst (cacheMembership db o' u c) = membershipFacts db o' u"
    and "cache_ok env db (snd (cacheMembership db o' u c))"
  using assms
  by (auto simp: cache_ok_def cacheMembership_def Let_def membershipFacts_eq js_get_putIfAbsent
        split: option.splits if_splits)

lemma cacheAncestors_ok:
  assumes "cache_ok env db c"
  shows "map_option fst (cacheAncestors db x c) = ancestorFolderIds db x"
    and "cacheAncestors db x c = Some (ids, c') \<Longrightarrow> cache_ok env db c'"
proof -
  have chains: "js_get (rcChains c) f = Some v \<Longrightarrow> ancestorFolderIds db (Some f) = Some v" for f v
    using assms by (simp add: cache_ok_def)
  show "map_option fst (cacheAncestors db x c) = ancestorFolderIds db x"
    using chains
    by (auto simp: cacheAncestors_def ancestorFolderIds_def [of db None] truthy_def
          option.map_comp o_def option.map_ident split: option.splits)
  show "cacheAncestors db x c = Some (ids, c') \<Longrightarrow> cache_ok env db c'"
    using assms
    by (cases x; cases "js_get (rcChains c) (the x)")
       (auto simp: cacheAncestors_def cache_ok_def split: if_splits)
qed

lemma cachePrefetch_ok:
  assumes "unique_folders db" "named_folders db" "cache_ok env db c"
  shows "cache_ok env db (cachePrefetch db docIds c)"
proof -
  have slice: "cache_ok env db (c\<lparr>rcPreloaded := fold (\<lambda>(i, doc). js_put i doc) (prefetchDocs db s) (rcPreloaded c)\<rparr>)"
    if ok: "cache_ok env db c" for s c
  proof -
    have "preloaded_ok db d p"
      if "js_get (fold (\<lambda>(i, doc). js_put i doc) (prefetchDocs db s) (rcPreloaded c)) d = Some p" for d p
    proof (cases "map_of (rev (prefetchDocs db s)) d")
      case None
      then show ?thesis using that ok by (simp add: js_get_fold_put cache_ok_def)
    next
      case (Some q)
      then have "q = p" using that by (simp add: js_get_fold_put)
      have "distinct (map fst (js_map_of xs))" for xs :: "(string \<times> preloaded_doc) list"
        unfolding js_map_of_def by (rule fold_invariant_mem) (auto simp: distinct_update)
      then have "distinct (map fst (prefetchDocs db s))" by (simp add: prefetchDocs_def Let_def)
      then have "js_get (prefetchDocs db s) d = Some p"
        using Some \<open>q = p\<close> by (metis distinct_rev map_of_SomeD map_of_is_SomeI rev_map set_rev)
      then show ?thesis by (rule prefetchDocs_ok [OF assms(1,2)])
    qed
    then show ?thesis using ok by (simp add: cache_ok_def)
  qed
  show ?thesis unfolding cachePrefetch_def Let_def
    by (rule fold_invariant_mem) (use assms(3) slice in auto)
qed

section \<open>Same answers\<close>

lemma decideDoc_rows:
  assumes "unique_shares db" "covers db userId (Some docId) folderIds (dlOrg loc) rows"
  shows "decideDoc db userId docId loc folderIds (Some rows) facts = decideDoc db userId docId loc folderIds None facts"
proof -
  have item: "coversItem db userId (Some docId) folderIds rows" using assms(2) by (simp add: covers_def)
  have "askDenied db docId folderIds (Some rows) POrg (dlOrg loc) = askDenied db docId folderIds None POrg (dlOrg loc)"
    using covers_denied(2) [OF assms(1) item] by (simp add: askDenied_def)
  moreover have "askLocked db userId docId folderIds (Some rows) = askLocked db userId docId folderIds None"
    using covers_locked [OF assms(1) item] by (simp add: askLocked_def)
  moreover have "askGrant db userId docId folderIds (dlOrg loc) (Some rows) =
      askGrant db userId docId folderIds (dlOrg loc) None"
    using covers_grant [OF assms] sharePermission_query [OF assms(1)]
    by (intro ext) (simp add: askGrant_def)
  moreover have "askPersonal db userId (dlOrg loc) (Some rows) = askPersonal db userId (dlOrg loc) None"
  proof -
    have "set rows \<subseteq> set (shares db)"
      "\<And>r. r \<in> set (shares db) \<Longrightarrow> forUser userId r \<Longrightarrow> vaultRow (dlOrg loc) r \<Longrightarrow> r \<in> set rows"
      using assms(2) unfolding covers_def coversItem_def by blast+
    then have "rowsPersonalVault rows userId (dlOrg loc) = personalVaultLevel db (dlOrg loc) userId"
      by (rule personal_eq [OF assms(1)])
    then show ?thesis by (simp add: askPersonal_def)
  qed
  ultimately show ?thesis by (simp add: decideDoc_def)
qed

lemma askDenied_rows:
  assumes "unique_shares db" "covers db userId (Some docId) folderIds orgId rows"
  shows "askDenied db docId folderIds (Some rows) PUser userId = askDenied db docId folderIds None PUser userId"
  using covers_denied(1) [OF assms(1)] assms(2) by (simp add: askDenied_def covers_def)

text \<open>The uncached answer, given the location and the chain.\<close>

definition freshFacts :: "database \<Rightarrow> string \<Rightarrow> string \<Rightarrow> membership_facts" where
  "freshFacts db orgId userId = \<lparr>mfRole = memberRole db orgId userId,
     mfSnapshot = memberAccessSnapshot db orgId userId, mfBaseline = vaultBaseline db orgId\<rparr>"

definition freshDecision :: "database \<Rightarrow> string \<Rightarrow> string \<Rightarrow> doc_location \<Rightarrow> string list \<Rightarrow> permission" where
  "freshDecision db userId docId loc folderIds =
     (if isDenied db PUser userId (Some docId) folderIds then PermNone
      else decideDoc db userId docId loc folderIds None (freshFacts db (dlOrg loc) userId))"

lemma uncached_inner:
  "effectivePermissionInner db userId docId None incl =
     (case locateDoc db docId incl of
        None \<Rightarrow> Some (PermNone, None, None)
      | Some loc \<Rightarrow> map_option (\<lambda>ids. (freshDecision db userId docId loc ids, Some (dlOrg loc), None))
                      (ancestorFolderIds db (dlFolder loc)))"
  by (simp add: effectivePermissionInner_def Let_def freshDecision_def freshFacts_def askDenied_def
        split: option.split)

lemma cached_inner:
  assumes u: "unique_shares db" and ok: "cache_ok env db c"
  shows "case effectivePermissionInner db userId docId (Some c) incl of
      None \<Rightarrow> effectivePermissionInner db userId docId None incl = None
    | Some (p, orgId, c') \<Rightarrow>
        effectivePermissionInner db userId docId None incl = Some (p, orgId, None) \<and>
        (\<exists>c''. c' = Some c'' \<and> cache_ok env db c'')"
proof (cases "\<not> incl \<and> js_get (rcPreloaded c) docId \<noteq> None")
  case True
  then obtain p where p: "js_get (rcPreloaded c) docId = Some p" and "\<not> incl" by auto
  then have pok: "preloaded_ok db docId p" using ok by (simp add: cache_ok_def)
  then have cov: "covers db userId (Some docId) (pdFolderIds p) (dlOrg (pdLoc p)) (pdRows p)"
    by (simp add: preloaded_ok_def)
  show ?thesis
    using p \<open>\<not> incl\<close> pok askDenied_rows [OF u cov] decideDoc_rows [OF u cov]
      cacheMembership_ok [OF ok, of "dlOrg (pdLoc p)" userId] ok
    by (simp add: uncached_inner preloaded_ok_def effectivePermissionInner_def Let_def case_prod_beta
          freshDecision_def freshFacts_def membershipFacts_eq askDenied_def)
next
  case False
  then have pre: "(if \<not> incl then js_get (rcPreloaded c) docId else None) = None" by auto
  show ?thesis
  proof (cases "locateDoc db docId incl")
    case None
    then show ?thesis using pre ok by (simp add: uncached_inner effectivePermissionInner_def Let_def)
  next
    case (Some loc)
    show ?thesis
    proof (cases "cacheAncestors db (dlFolder loc) c")
      case None
      then have "ancestorFolderIds db (dlFolder loc) = None"
        using cacheAncestors_ok(1) [OF ok, of "dlFolder loc"] by simp
      then show ?thesis using pre Some None
        by (simp add: uncached_inner effectivePermissionInner_def Let_def)
    next
      case anc: (Some r)
      obtain ids c1 where r: "r = (ids, c1)" by (cases r)
      have ids: "ancestorFolderIds db (dlFolder loc) = Some ids"
        using cacheAncestors_ok(1) [OF ok, of "dlFolder loc"] anc r by simp
      have c1: "cache_ok env db c1" using cacheAncestors_ok(2) [OF ok] anc r by simp
      have cov: "covers db userId (Some docId) ids (dlOrg loc) (docShareRows db userId docId ids (dlOrg loc))"
        by (rule docShareRows_covers)
      show ?thesis
        using pre Some anc r ids c1 askDenied_rows [OF u cov] decideDoc_rows [OF u cov]
          cacheMembership_ok [OF c1, of "dlOrg loc" userId]
        by (simp add: uncached_inner effectivePermissionInner_def Let_def case_prod_beta
              freshDecision_def freshFacts_def membershipFacts_eq askDenied_def)
    qed
  qed
qed

lemma cached_permission:
  assumes u: "unique_shares db" and ok: "cache_ok env db c"
  shows "case effectivePermission env db userId docId (Some c) incl of
      None \<Rightarrow> effectivePermission env db userId docId None incl = None
    | Some (p, c') \<Rightarrow>
        effectivePermission env db userId docId None incl = Some (p, None) \<and>
        (\<exists>c''. c' = Some c'' \<and> cache_ok env db c'')"
proof (cases "effectivePermissionInner db userId docId (Some c) incl")
  case None
  then show ?thesis using cached_inner [OF u ok, of userId docId incl] by (simp add: effectivePermission_def)
next
  case (Some r)
  obtain p orgId c' where r: "r = (p, orgId, c')" by (metis prod_cases3)
  then obtain c'' where c'': "c' = Some c''" "cache_ok env db c''"
    and un: "effectivePermissionInner db userId docId None incl = Some (p, orgId, None)"
    using cached_inner [OF u ok, of userId docId incl] Some by auto
  show ?thesis
    using Some r c'' un cacheBillingReadOnly_ok [OF c''(2), of "the orgId"]
      cacheBillingReadOnly_ok [OF cache_ok_create [of env db], of "the orgId"]
    by (simp add: effectivePermission_def Let_def case_prod_beta)
qed

end
