(* ===== verification/Acl_Agree.thy ===== *)
theory Acl_Agree
  imports Acl_Coherent
begin

text \<open>
  \<open>resolveAccessForUser\<close> answers what \<open>effectivePermission\<close> answers, from queries, from a memo or
  from the vault's access index. The index stands on two constraints of the schema: folders and
  documents lie in one vault with their parents (\<open>same_vault\<close>).
\<close>

lemma indexed_same:
  assumes u: "unique_shares db" and i: "inIndex db docId ids orgId"
  defines "ix \<equiv> loadAccessIndex db orgId"
  shows "indexedIsDenied ix PUser userId docId ids = isDenied db PUser userId docId ids"
    and "indexedIsDenied ix POrg orgId docId ids = isDenied db POrg orgId docId ids"
    and "indexedIsLocked ix userId docId ids = isLocked db userId docId ids"
    and "indexedPersonalVault ix userId = personalVaultLevel db orgId userId"
    and "sharePermission db userId docId ids orgId isMember oga s t (Some ix) ovc =
      sharePermission db userId docId ids orgId isMember oga s t None ovc"
proof -
  have item: "coversItem db userId docId ids (indexedRows ix docId ids None)"
    unfolding ix_def by (rule index_coversItem [OF i])
  show "indexedIsDenied ix PUser userId docId ids = isDenied db PUser userId docId ids"
    "indexedIsDenied ix POrg orgId docId ids = isDenied db POrg orgId docId ids"
    "indexedIsLocked ix userId docId ids = isLocked db userId docId ids"
    using covers_denied [OF u item] covers_locked [OF u item]
    by (simp_all add: indexedIsDenied_def indexedIsLocked_def)
  have "ixOrg ix = orgId" "ixShares ix = fold addShare (indexShareRows db orgId) []"
    by (simp_all add: ix_def loadAccessIndex_def)
  then have "indexedPersonalVault ix userId =
      rowsPersonalVault (rowsAt (fold addShare (indexShareRows db orgId) []) RVault orgId) userId orgId"
    by (simp add: indexedPersonalVault_def rowsAt_def)
  also have "\<dots> = personalVaultLevel db orgId userId"
    unfolding rowsAt_grouped
    by (rule personal_eq [OF u]) (auto simp: indexShareRows_def vaultRow_def)
  finally show "indexedPersonalVault ix userId = personalVaultLevel db orgId userId" .
  show "sharePermission db userId docId ids orgId isMember oga s t (Some ix) ovc =
      sharePermission db userId docId ids orgId isMember oga s t None ovc"
    using index_rows.fetch_grant [OF u i, of userId isMember oga ovc s t]
    unfolding ix_def by (simp add: sharePermission_def [of db userId docId ids orgId isMember oga s t "Some _"])
qed

definition ok_cache :: "deployment \<Rightarrow> database \<Rightarrow> resolver_cache option \<Rightarrow> bool" where
  "ok_cache env db cache = (case cache of None \<Rightarrow> True | Some c \<Rightarrow> cache_ok env db c)"

definition ok_index :: "database \<Rightarrow> access_context \<Rightarrow> access_index option \<Rightarrow> bool" where
  "ok_index db ctx ix = (case ix of None \<Rightarrow> True | Some i \<Rightarrow>
     ixOrg i = cxOrg ctx \<longrightarrow>
       i = loadAccessIndex db (cxOrg ctx) \<and> inIndex db (cxDoc ctx) (cxFolderIds ctx) (cxOrg ctx))"

lemma perm_capped [simp]: "raPermission (capped l g) = (if l then PermView else g)"
  by (simp add: capped_def)

lemma read_facts:
  assumes "ok_cache env db cache"
  shows "fst (readPersonal db o' u None cache) = personalVaultLevel db o' u"
    "ok_cache env db (snd (readPersonal db o' u ix cache))"
    "fst (readSnapshot db o' u cache) = memberAccessSnapshot db o' u"
    "ok_cache env db (snd (readSnapshot db o' u cache))"
    "fst (readBaseline db o' cache) = vaultBaseline db o'"
    "ok_cache env db (snd (readBaseline db o' cache))"
  using assms
  by (auto simp: ok_cache_def readPersonal_def readSnapshot_def readBaseline_def Let_def case_prod_beta
        cache_steps split: option.splits)

lemma resolve_inner:
  assumes u: "unique_shares db" and c: "ok_cache env db cache"
    and ctx: "ctx = \<lparr>cxOrg = dlOrg loc, cxDoc = Some docId, cxFolderIds = ids,
      cxCreatedBy = dlCreatedBy loc, cxCreatedAt = dlCreatedAt loc\<rparr>"
    and i: "ok_index db ctx ix"
    and role: "role = memberRole db (dlOrg loc) userId"
  shows "raPermission (fst (resolveAccessForUserInner db ctx userId role cache ix)) =
      freshDecision db userId docId loc ids \<and>
    ok_cache env db (snd (resolveAccessForUserInner db ctx userId role cache ix))"
proof -
  define index where "index = matchingIndex ctx ix"
  have index: "index = None \<or> index = Some (loadAccessIndex db (dlOrg loc)) \<and> inIndex db (Some docId) ids (dlOrg loc)"
    using i by (auto simp: index_def matchingIndex_def ok_index_def ctx split: option.splits)
  have asks: "ctxDenied db ctx index PUser userId = isDenied db PUser userId (Some docId) ids"
    "ctxDenied db ctx index POrg (dlOrg loc) = isDenied db POrg (dlOrg loc) (Some docId) ids"
    "ctxLocked db ctx index userId = isLocked db userId (Some docId) ids"
    "ctxGrant db ctx index userId m oga s t ovc =
        sharePermission db userId (Some docId) ids (dlOrg loc) m oga s t None ovc" for m oga s t ovc
    using index indexed_same [OF u, of "Some docId" ids "dlOrg loc"]
    by (auto simp: ctx ctxDenied_def ctxLocked_def ctxGrant_def)
  obtain p c1 where p: "readPersonal db (dlOrg loc) userId index cache = (p, c1)" by (meson surj_pair)
  have "fst (readPersonal db (dlOrg loc) userId index cache) = personalVaultLevel db (dlOrg loc) userId"
    using index indexed_same(4) [OF u, of "Some docId" ids "dlOrg loc" userId] read_facts(1) [OF c]
    by (auto simp: readPersonal_def)
  then have p': "p = personalVaultLevel db (dlOrg loc) userId" "ok_cache env db c1"
    using p read_facts(2) [OF c, of "dlOrg loc" userId index] by auto
  obtain s c2 where s: "readSnapshot db (dlOrg loc) userId c1 = (s, c2)" by (meson surj_pair)
  have s': "s = memberAccessSnapshot db (dlOrg loc) userId" "ok_cache env db c2"
    using s read_facts(3,4) [OF p'(2), of "dlOrg loc" userId] by auto
  obtain b c3 where b: "readBaseline db (dlOrg loc) c2 = (b, c3)" by (meson surj_pair)
  have b': "b = vaultBaseline db (dlOrg loc)" "ok_cache env db c3"
    using b read_facts(5,6) [OF s'(2), of "dlOrg loc"] by auto
  have fields: "cxOrg ctx = dlOrg loc" "cxCreatedBy ctx = dlCreatedBy loc" "cxCreatedAt ctx = dlCreatedAt loc"
    by (simp_all add: ctx)
  note unfolded = resolveAccessForUserInner_def index_def [symmetric] Let_def fields asks p s b prod.case
  have fresh: "freshDecision db userId docId loc ids = (if isDenied db PUser userId (Some docId) ids then PermNone
      else decideDoc db userId docId loc ids None \<lparr>mfRole = role, mfSnapshot = s, mfBaseline = b\<rparr>)"
    by (simp add: freshDecision_def freshFacts_def role s'(1) b'(1))
  note asked = fresh decideDoc_def Let_def askDenied_def askLocked_def askGrant_def askPersonal_def
    option.case membership_facts.simps p'(1) [symmetric]
  show ?thesis
  proof (cases "isDenied db PUser userId (Some docId) ids")
    case True
    then show ?thesis using c by (simp add: unfolded fresh)
  next
    case allowed: False
    show ?thesis
    proof (cases p)
      case (Some level)
      then show ?thesis using allowed p'(2) unfolding unfolded asked by simp
    next
      case None
      show ?thesis
      proof (cases "case s of None \<Rightarrow> False | Some s \<Rightarrow> dlCreatedAt loc \<le> snAt s")
        case True
        then show ?thesis using allowed None s'(2) unfolding unfolded asked
          by (simp del: maxPermission_eq_none)
      next
        case False
        then show ?thesis using allowed None b'(2) unfolding unfolded asked
          by (cases "role = None"; cases "truthy (dlCreatedBy loc)"; cases "dlCreatedBy loc = Some userId")
             (simp_all)
      qed
    qed
  qed
qed

section \<open>Contexts of documents\<close>

text \<open>Migration 059: a folder lies in its parent's vault, a document in its folder's.\<close>

definition same_vault :: "database \<Rightarrow> bool" where
  "same_vault db \<longleftrightarrow>
     (\<forall>f \<in> set (folders db). \<forall>g \<in> set (folders db). fdParent f = Some (fdId g) \<longrightarrow> fdVault g = fdVault f) \<and>
     (\<forall>n \<in> set (noteRows db). \<forall>g \<in> set (folders db). ntFolder n = Some (fdId g) \<longrightarrow> fdVault g = ntVault n) \<and>
     (\<forall>n \<in> set (fileRows db). \<forall>g \<in> set (folders db). flFolder n = Some (fdId g) \<longrightarrow> fdVault g = flVault n)"

lemma chain_same_vault:
  assumes "same_vault db"
  shows "chain_from db x ids \<Longrightarrow>
    (\<And>g. g \<in> set (folders db) \<Longrightarrow> x = Some (fdId g) \<Longrightarrow> fdVault g = v) \<Longrightarrow>
    \<forall>i \<in> set ids. \<exists>f \<in> set (folders db). fdId f = i \<and> fdVault f = v"
proof (induction rule: chain_from.induct)
  case (chain_step f ids)
  have f: "fdVault f = v" using chain_step.prems chain_step.hyps(1) by blast
  have "fdVault g = v" if "g \<in> set (folders db)" "fdParent f = Some (fdId g)" for g
    using assms chain_step.hyps(1) that f by (auto simp: same_vault_def)
  then show ?case using chain_step.IH chain_step.hyps(1) f by auto
qed auto

lemma locateDoc_cases:
  assumes "locateDoc db d incl = Some loc"
  shows "(\<exists>n \<in> set (noteRows db). ntId n = d \<and> noteLocation db n = Some loc) \<or>
    (\<exists>f \<in> set (fileRows db). flId f = d \<and> fileLocation db f = Some loc)"
proof -
  have "loc \<in> set (locatedRows db d incl)"
    using assms by (auto simp: locateDoc_def dest: first_row_Some)
  then have "(\<exists>n. n \<in> set (noteRows db) \<and> ntId n = d \<and> noteLocation db n = Some loc) \<or>
    (\<exists>f. f \<in> set (fileRows db) \<and> flId f = d \<and> fileLocation db f = Some loc)"
    unfolding locatedRows_def List.map_filter_def set_append set_map set_filter by force
  then show ?thesis by blast
qed

lemma located_inIndex:
  assumes loc: "locateDoc db d incl = Some loc" and sv: "same_vault db"
    and chain: "chain_from db (dlFolder loc) ids"
  shows "inIndex db (Some d) ids (dlOrg loc)"
proof -
  have org: "vaultOrg db (dlVault loc) = Some (dlOrg loc)"
    using locateDoc_cases [OF loc] by (auto simp: noteLocation_def fileLocation_def)
  have folder: "fdVault g = dlVault loc" if "g \<in> set (folders db)" "dlFolder loc = Some (fdId g)" for g
    using locateDoc_cases [OF loc] sv that by (auto simp: noteLocation_def fileLocation_def same_vault_def)
  have "\<forall>i \<in> set ids. \<exists>f \<in> set (folders db). fdId f = i \<and> fdVault f = dlVault loc"
    using chain_same_vault [OF sv chain] folder by blast
  moreover have "(\<exists>n \<in> set (noteRows db). ntId n = d \<and> ntVault n = dlVault loc) \<or>
      (\<exists>f \<in> set (fileRows db). flId f = d \<and> flVault f = dlVault loc)"
    using locateDoc_cases [OF loc] by (auto simp: noteLocation_def fileLocation_def)
  ultimately show ?thesis using org unfolding inIndex_def inOrg_def by (metis option.inject)
qed

text \<open>The context of a document, however it was built (from queries or through the memo).\<close>

definition doc_context :: "database \<Rightarrow> string \<Rightarrow> doc_location \<Rightarrow> string list \<Rightarrow> access_context" where
  "doc_context db d loc ids = \<lparr>cxOrg = dlOrg loc, cxDoc = Some d, cxFolderIds = ids,
     cxCreatedBy = dlCreatedBy loc, cxCreatedAt = dlCreatedAt loc\<rparr>"

lemma build_file_context:
  assumes "ok_cache env db cache" "buildAccessContext db CtxFile d cache = Some (Some ctx, cache')"
  shows "\<exists>loc ids. locateDoc db d False = Some loc \<and> ancestorFolderIds db (dlFolder loc) = Some ids \<and>
    ctx = doc_context db d loc ids \<and> ok_cache env db cache'"
proof -
  obtain loc where loc: "locateDoc db d False = Some loc"
    using assms(2) by (auto simp: buildAccessContext_def split: option.splits)
  then obtain ids where "contextChain db (dlFolder loc) cache = Some (ids, cache')" "ctx = doc_context db d loc ids"
    using assms(2) by (auto simp: buildAccessContext_def doc_context_def)
  moreover have "ancestorFolderIds db (dlFolder loc) = Some ids \<and> ok_cache env db cache'"
  proof (cases cache)
    case None
    then show ?thesis using calculation(1) by (auto simp: contextChain_def ok_cache_def)
  next
    case (Some c)
    then obtain c' where c': "cacheAncestors db (dlFolder loc) c = Some (ids, c')" "cache' = Some c'"
      using calculation(1) by (auto simp: contextChain_def)
    then show ?thesis
      using cacheAncestors_ok [of env db c "dlFolder loc"] assms(1) Some by (auto simp: ok_cache_def)
  qed
  ultimately show ?thesis using loc by blast
qed

lemma resolve_permission:
  assumes u: "unique_shares db" "unique_folders db" "named_folders db" "same_vault db"
    and c: "ok_cache env db cache"
    and loc: "locateDoc db d False = Some loc" "ancestorFolderIds db (dlFolder loc) = Some ids"
    and org: "dlOrg loc \<noteq> []" and ix: "ix = None \<or> (\<exists>o'. ix = Some (loadAccessIndex db o'))"
  shows "effectivePermission env db userId d None False =
    Some (raPermission (fst (resolveAccessForUser env db (doc_context db d loc ids) userId
      (memberRole db (dlOrg loc) userId) cache ix)), None)"
proof -
  let ?ctx = "doc_context db d loc ids" and ?role = "memberRole db (dlOrg loc) userId"
  have "inIndex db (Some d) ids (dlOrg loc)"
    using located_inIndex [OF loc(1) u(4)] loc(2) ancestorFolderIds_iff [OF u(2,3)] by blast
  then have "ok_index db ?ctx ix"
    using ix by (auto simp: ok_index_def doc_context_def loadAccessIndex_def)
  then have inner: "raPermission (fst (resolveAccessForUserInner db ?ctx userId ?role cache ix)) =
      freshDecision db userId d loc ids"
    "ok_cache env db (snd (resolveAccessForUserInner db ?ctx userId ?role cache ix))"
    using resolve_inner [OF u(1) c doc_context_def _ refl, where ix = ix] by auto
  obtain r c1 where r: "resolveAccessForUserInner db ?ctx userId ?role cache ix = (r, c1)" by (meson surj_pair)
  have ro: "fst (cacheBillingReadOnly env db (dlOrg loc) (case c1 of Some c \<Rightarrow> c | None \<Rightarrow> createResolverCache)) =
      isAccountReadOnly env db (dlOrg loc)"
    using inner(2) r by (intro cacheBillingReadOnly_ok(1)) (auto simp: ok_cache_def cache_ok_create split: option.splits)
  have ro': "fst (cacheBillingReadOnly env db (dlOrg loc) createResolverCache) = isAccountReadOnly env db (dlOrg loc)"
    by (rule cacheBillingReadOnly_ok(1) [OF cache_ok_create])
  show ?thesis
    using inner(1) r loc ro ro' org
    by (auto simp: effectivePermission_def uncached_inner resolveAccessForUser_def Let_def case_prod_beta
          doc_context_def truthy_def)
qed

end
