(* ===== verification/Acl_Props.thy ===== *)
theory Acl_Props
  imports Acl_Agree
begin

text \<open>
  The properties of the permission resolver: that its faster paths agree with the plain one, that
  folder chains are found, and what denies, locks, postures, membership and the billing lapse
  do to an answer.
\<close>

section \<open>The plain resolver, case by case\<close>

lemma plain_permission:
  assumes "locateDoc db d incl = Some loc" "ancestorFolderIds db (dlFolder loc) = Some ids"
  shows "effectivePermission env db userId d None incl =
    Some (if freshDecision db userId d loc ids = PermEdit \<and> dlOrg loc \<noteq> [] \<and> isAccountReadOnly env db (dlOrg loc)
          then PermView else freshDecision db userId d loc ids, None)"
  using assms cacheBillingReadOnly_ok(1) [OF cache_ok_create, of env db "dlOrg loc"]
  by (simp add: effectivePermission_def uncached_inner Let_def case_prod_beta truthy_def)

lemma plain_none:
  assumes "locateDoc db d incl = Some loc" "ancestorFolderIds db (dlFolder loc) = Some ids"
    and "freshDecision db userId d loc ids = PermNone"
  shows "effectivePermission env db userId d None incl = Some (PermNone, None)"
  using plain_permission [OF assms(1,2)] assms(3) by simp

lemma locked_caps:
  assumes "unique_shares db" "isLocked db userId (Some d) ids"
  shows "freshDecision db userId d loc ids \<noteq> PermEdit"
proof -
  have lk: "askLocked db userId d ids None = True" using assms(2) by (simp add: askLocked_def)
  have cap: "(if g \<noteq> PermNone \<and> True then PermView else g) \<noteq> PermEdit" for g by simp
  have "decideDoc db userId d loc ids None facts \<noteq> PermEdit" for facts
    unfolding decideDoc_def Let_def lk
    by (cases "askPersonal db userId (dlOrg loc) None";
        cases "case mfSnapshot facts of None \<Rightarrow> False | Some s \<Rightarrow> dlCreatedAt loc \<le> snAt s")
       (simp_all only: option.case if_True if_False cap not_False_eq_True)
  then show ?thesis by (simp add: freshDecision_def)
qed

section \<open>A member's own rows\<close>

definition no_user_rows :: "database \<Rightarrow> string \<Rightarrow> bool" where
  "no_user_rows db userId \<longleftrightarrow>
     (\<forall>r \<in> set (shares db). \<not> (srPrincipalType r = PUser \<and> srPrincipalId r = userId))"

lemma userRow_none: "no_user_rows db userId \<Longrightarrow> userRow (shares db) userId item = None"
  by (cases item) (auto simp: userRow_def first_row_None no_user_rows_def)

lemma verdictLoop_none:
  "(\<And>item. row item = None) \<Longrightarrow> verdictLoop row items cap vf =
     \<lparr>uvDeny = False, uvGrant = (if vf then PermView else PermNone), uvCap = cap\<rparr>"
  by (induction items) auto

lemma itemVerdict_none:
  "no_user_rows db userId \<Longrightarrow> itemVerdict db userId docId ids =
     \<lparr>uvDeny = False, uvGrant = PermNone, uvCap = False\<rparr>"
  by (simp add: itemVerdict_def userItemVerdict_def verdictLoop_none userRow_none)

lemma personal_none: "no_user_rows db userId \<Longrightarrow> personalVaultLevel db orgId userId = None"
proof -
  assume "no_user_rows db userId"
  then have "first_row (personalRow userId orgId) (shares db) = None"
    by (auto simp: first_row_None personalRow_def no_user_rows_def)
  then show ?thesis by (simp add: personalVaultLevel_def personalLevelOf_def)
qed

lemma grantNF_none:
  assumes "no_user_rows db userId"
    and "\<And>r. oc \<Longrightarrow> r \<in> set (shares db) \<Longrightarrow> srPrincipalType r = POrg \<Longrightarrow> srPrincipalId r = orgId \<Longrightarrow>
      onItem docId ids r \<or> ovc \<and> vaultRow orgId r \<Longrightarrow>
      srPermission r \<noteq> SView \<and> srPermission r \<noteq> SEdit \<and> srPermission r \<noteq> SReadonly"
  shows "grantNF db userId docId ids orgId oc ovc s t = PermNone"
proof -
  have "grantRows db userId docId ids orgId oc ovc = {}"
    using assms by (auto simp: grantRows_def grantBase_def no_user_rows_def onItem_def vaultRow_def)
  then show ?thesis using assms(1) by (simp add: grantNF_def grantOf_def itemVerdict_none)
qed

lemma sharePermission_none:
  assumes "unique_shares db" "no_user_rows db userId"
    and "\<And>r. m \<Longrightarrow> oga \<Longrightarrow> r \<in> set (shares db) \<Longrightarrow> srPrincipalType r = POrg \<Longrightarrow> srPrincipalId r = orgId \<Longrightarrow>
      onItem docId ids r \<or> ovc \<and> vaultRow orgId r \<Longrightarrow>
      srPermission r \<noteq> SView \<and> srPermission r \<noteq> SEdit \<and> srPermission r \<noteq> SReadonly"
  shows "sharePermission db userId docId ids orgId m oga s t None ovc = PermNone"
  unfolding sharePermission_query [OF assms(1)]
  by (rule grantNF_none [OF assms(2)]) (use assms(3) in blast)

text \<open>The per-user verdict, declaratively: the walk from the document up stops at the first row
  that is not a lock; it denies when that row is a deny.\<close>

definition decisive :: "(resource_type \<times> string \<Rightarrow> share_row option) \<Rightarrow> (resource_type \<times> string) list
    \<Rightarrow> stored_permission option" where
  "decisive row items =
     map_option srPermission (first_row (\<lambda>r. srPermission r \<noteq> SLocked) (List.map_filter row items))"

lemma decisive_simps [simp]:
  "decisive row [] = None"
  "decisive row (item # items) = (case row item of
      None \<Rightarrow> decisive row items
    | Some r \<Rightarrow> if srPermission r = SLocked then decisive row items else Some (srPermission r))"
  by (auto simp: decisive_def first_row_def map_filter_simps split: option.splits)

lemma verdict_view_no_deny: "\<not> uvDeny (verdictLoop row items cap True)"
  by (induction items arbitrary: cap) (auto split: option.splits)

lemma verdict_denies: "uvDeny (verdictLoop row items cap False) \<longleftrightarrow> decisive row items = Some SDenied"
  by (induction items arbitrary: cap)
     (auto simp: verdict_view_no_deny split: option.splits stored_permission.splits)

lemma verdict_edit_grants:
  "decisive row items = Some SEdit \<Longrightarrow> uvGrant (verdictLoop row items cap False) = PermEdit"
  by (induction items arbitrary: cap) (auto split: option.splits stored_permission.splits if_splits)

lemma isDenied_decisive:
  "unique_shares db \<Longrightarrow>
   isDenied db PUser userId docId ids \<longleftrightarrow> decisive (userRow (shares db) userId) (itemOrder docId ids) = Some SDenied"
  by (simp add: isDenied_user itemVerdict_def userItemVerdict_def verdict_denies)

text \<open>Organization ids are never empty.\<close>

definition named_vaults :: "database \<Rightarrow> bool" where
  "named_vaults db \<longleftrightarrow> (\<forall>v \<in> set (vaults db). vtOrg v \<noteq> [])"

lemma located_named: "named_vaults db \<Longrightarrow> locateDoc db d incl = Some loc \<Longrightarrow> dlOrg loc \<noteq> []"
proof -
  assume n: "named_vaults db" and loc: "locateDoc db d incl = Some loc"
  have "vaultOrg db (dlVault loc) = Some (dlOrg loc)"
    using locateDoc_cases [OF loc] by (auto simp: noteLocation_def fileLocation_def)
  then show "dlOrg loc \<noteq> []" using n by (auto simp: vaultOrg_def named_vaults_def dest: first_row_Some)
qed

section \<open>A small vault\<close>

text \<open>One vault with a folder in a folder, a note by its owner in the inner one, an owner and a
  member; the share rows are the argument.\<close>

definition demo :: "share_row list \<Rightarrow> database" where
  "demo rows = \<lparr>organizations = [''o''], users = [],
     members = [\<lparr>mbId = ''m1'', mbOrg = ''o'', mbUser = ''ann'', mbRole = ''owner'', mbCreatedAt = 0\<rparr>,
                \<lparr>mbId = ''m2'', mbOrg = ''o'', mbUser = ''bob'', mbRole = ''member'', mbCreatedAt = 0\<rparr>],
     memberSnapshots = [], invitations = [], vaults = [\<lparr>vtId = ''v'', vtOrg = ''o''\<rparr>],
     folders = [\<lparr>fdId = ''f1'', fdParent = None, fdVault = ''v'', fdCreatedBy = None, fdCreatedAt = 0\<rparr>,
                \<lparr>fdId = ''f2'', fdParent = Some ''f1'', fdVault = ''v'', fdCreatedBy = None, fdCreatedAt = 0\<rparr>],
     noteRows = [\<lparr>ntId = ''n'', ntVault = ''v'', ntFolder = Some ''f2'', ntCreatedBy = Some ''ann'',
                  ntCreatedAt = 5, ntDeletedAt = None\<rparr>],
     fileRows = [], shares = rows, billingAccounts = [], accountOrgs = [], subscriptions = [],
     accountEntitlements = [], dbNow = 10, dbLower = \<lambda>s. s, dbMd5 = \<lambda>s. s, dbShareOrg = \<lambda>_. ''o''\<rparr>"

definition share :: "resource_type \<Rightarrow> string \<Rightarrow> principal_type \<Rightarrow> string \<Rightarrow> stored_permission \<Rightarrow> share_row" where
  "share ty i pt pid p = \<lparr>srResourceType = ty, srResourceId = i, srPrincipalType = pt,
     srPrincipalId = pid, srPermission = p, srRevision = 0\<rparr>"

definition demo_loc :: doc_location where
  "demo_loc = \<lparr>dlVault = ''v'', dlFolder = Some ''f2'', dlOrg = ''o'', dlCreatedBy = Some ''ann'', dlCreatedAt = 5\<rparr>"

definition self_hosted :: deployment where
  "self_hosted = \<lparr>requiresCloudPlan = False, billingEnabled = False, billingTeam = False, abuseMaxNotes = 0,
     abuseMaxStorageMb = 0, freeMaxVaults = 2, freeMaxMembers = 3, freeMaxStorageMb = 1\<rparr>"

lemma demo_sel [simp]: "shares (demo rows) = rows"
  by (simp add: demo_def)

lemma demo_located: "locateDoc (demo rows) ''n'' False = Some demo_loc"
  by (simp add: locateDoc_def locatedRows_def demo_def noteLocation_def vaultOrg_def first_row_def
        map_filter_simps demo_loc_def)

lemma demo_ancestors: "ancestorFolderIds (demo rows) (dlFolder demo_loc) = Some [''f2'', ''f1'']"
  by (simp add: ancestorFolderIds_def demo_def demo_loc_def truthy_def numeral_nat)

lemma demo_constraints:
  "unique_folders (demo rows)" "named_folders (demo rows)" "same_vault (demo rows)"
  by (simp_all add: unique_folders_def named_folders_def same_vault_def demo_def)

section \<open>Properties\<close>

text \<open>C4: The resolver's fast paths change no answer. With any coherent per-request memo, after any
  set of documents has been prefetched into it, \<open>effectivePermission\<close> with the memo returns
  exactly when the plain one does and with the same permission, and the memo stays coherent.\<close>

theorem acl_fast_paths_agree:
  assumes "unique_shares db" "unique_folders db" "named_folders db" and "cache_ok env db c"
  shows "case effectivePermission env db userId d (Some (cachePrefetch db docIds c)) incl of
      None \<Rightarrow> effectivePermission env db userId d None incl = None
    | Some (p, c') \<Rightarrow>
        effectivePermission env db userId d None incl = Some (p, None) \<and>
        (\<exists>c''. c' = Some c'' \<and> cache_ok env db c'')"
  by (rule cached_permission [OF assms(1) cachePrefetch_ok [OF assms(2-4)]])

theorem acl_fast_paths_agree_witness:
  "map_option fst (effectivePermission self_hosted (demo []) ''bob'' ''n''
     (Some (cachePrefetch (demo []) [''n''] createResolverCache)) False) =
   map_option fst (effectivePermission self_hosted (demo []) ''bob'' ''n'' None False)"
proof -
  have "unique_shares (demo [])" by (simp add: unique_shares_def)
  from acl_fast_paths_agree [OF this demo_constraints(1,2) cache_ok_create, where env = self_hosted and
      userId = "''bob''" and d = "''n''" and docIds = "[''n'']" and incl = False]
  show ?thesis by (auto split: option.splits)
qed

text \<open>C5: The access panel and the sync gate agree. For a live document, the permission
  \<open>resolveAccessForUser\<close> resolves from the document's context with the user's role is the one
  \<open>effectivePermission\<close> gives, whether its rows come from single queries, from a coherent memo
  or from the access index of any vault.\<close>

theorem acl_context_agrees:
  assumes "unique_shares db" "unique_folders db" "named_folders db" "same_vault db"
    and "ok_cache env db cache"
    and "buildAccessContext db CtxFile d cache = Some (Some ctx, cache')" "cxOrg ctx \<noteq> []"
    and "ix = None \<or> (\<exists>orgId. ix = Some (loadAccessIndex db orgId))"
  shows "effectivePermission env db userId d None False =
    Some (raPermission (fst (resolveAccessForUser env db ctx userId
      (memberRole db (cxOrg ctx) userId) cache' ix)), None)"
proof -
  obtain loc ids where "locateDoc db d False = Some loc" "ancestorFolderIds db (dlFolder loc) = Some ids"
    "ctx = doc_context db d loc ids" "ok_cache env db cache'"
    using build_file_context [OF assms(5,6)] by blast
  then show ?thesis
    using resolve_permission [OF assms(1-4), of env cache' d loc ids ix userId] assms(7,8)
    by (simp add: doc_context_def)
qed

theorem acl_context_agrees_witness:
  "effectivePermission self_hosted (demo []) ''ann'' ''n'' None False =
    Some (raPermission (fst (resolveAccessForUser self_hosted (demo []) (doc_context (demo []) ''n'' demo_loc [''f2'', ''f1'']) ''ann''
      (memberRole (demo []) ''o'' ''ann'') None (Some (loadAccessIndex (demo []) ''o'')))), None)"
proof -
  let ?ctx = "doc_context (demo []) ''n'' demo_loc [''f2'', ''f1'']"
  have build: "buildAccessContext (demo []) CtxFile ''n'' None = Some (Some ?ctx, None)"
    by (simp add: buildAccessContext_def demo_located contextChain_def demo_ancestors doc_context_def)
  have uniq: "unique_shares (demo [])" and cache: "ok_cache self_hosted (demo []) None"
    by (simp_all add: unique_shares_def ok_cache_def)
  have org: "cxOrg ?ctx = ''o''" by (simp add: doc_context_def demo_loc_def)
  show ?thesis
    using acl_context_agrees [OF uniq demo_constraints cache build,
        of "Some (loadAccessIndex (demo []) ''o'')" "''ann''"] unfolding org by blast
qed

text \<open>The recursive ancestor query, which has no cycle guard, returns on every acyclic folder
  table, the fuel of the model (one more than the number of folders) being enough; the chain it
  returns has no repetition and starts at the folder asked for when that folder exists.\<close>

theorem acl_ancestors_return:
  assumes "unique_folders db" "named_folders db"
    and "\<forall>f \<in> set (folders db). \<forall>p. fdParent f = Some p \<longrightarrow> rank p < (rank (fdId f) :: nat)"
  shows "\<exists>ids. ancestorFolderIds db folderId = Some ids \<and> distinct ids \<and>
    set ids \<subseteq> fdId ` set (folders db) \<and>
    (\<forall>f \<in> set (folders db). folderId = Some (fdId f) \<longrightarrow> hd ids = fdId f \<and> ids \<noteq> [])"
proof -
  obtain ids where c: "chain_from db folderId ids" using chain_exists [OF assms(3)] by blast
  have "hd ids = fdId f \<and> ids \<noteq> []" if "f \<in> set (folders db)" "folderId = Some (fdId f)" for f
  proof -
    obtain js where "chain_from db (fdParent f) js" using chain_exists [OF assms(3)] by blast
    then have "ids = fdId f # js" using chain_from_det [OF assms(1) c] chain_step that by metis
    then show ?thesis by simp
  qed
  then show ?thesis
    using c ancestorFolderIds_iff [OF assms(1,2)] chain_from_distinct [OF assms(1) c] chain_from_folders [OF c]
    by blast
qed

theorem acl_ancestors_return_witness:
  "\<exists>ids. ancestorFolderIds (demo []) (Some ''f2'') = Some ids \<and> hd ids = ''f2''"
proof -
  have "\<forall>f \<in> set (folders (demo [])). \<forall>p. fdParent f = Some p \<longrightarrow>
      (if p = ''f2'' then 1 else 0 :: nat) < (if fdId f = ''f2'' then 1 else 0)"
    by (simp add: demo_def)
  then show ?thesis
    using acl_ancestors_return [OF demo_constraints(1,2), where rank = "\<lambda>p. if p = ''f2'' then 1 else 0"
        and folderId = "Some ''f2''" and rows1 = "[]"]
    by (fastforce simp: demo_def)
qed

text \<open>A per-user deny is absolute where it is decisive: when the first of the user's own rows,
  walking from the document up its folders past the user's locks, is a deny, the answer is
  \<open>none\<close>, for owners, authors, grantees and outsiders alike.\<close>

theorem acl_decisive_deny_is_absolute:
  assumes "unique_shares db" "locateDoc db d incl = Some loc"
    and "ancestorFolderIds db (dlFolder loc) = Some ids"
    and "decisive (userRow (shares db) userId) (itemOrder (Some d) ids) = Some SDenied"
  shows "effectivePermission env db userId d None incl = Some (PermNone, None)"
proof (rule plain_none [OF assms(2,3)])
  have "isDenied db PUser userId (Some d) ids" using assms(1,4) by (simp only: isDenied_decisive)
  then show "freshDecision db userId d loc ids = PermNone" by (simp add: freshDecision_def)
qed

theorem acl_decisive_deny_is_absolute_witness:
  "effectivePermission self_hosted (demo [share RFolder ''f1'' PUser ''ann'' SEdit, share RFolder ''f2'' PUser ''ann'' SDenied])
     ''ann'' ''n'' None False = Some (PermNone, None)"
  by (rule acl_decisive_deny_is_absolute [OF _ demo_located demo_ancestors])
     (simp_all add: unique_shares_def share_key_def share_def itemOrder_def userRow_def first_row_def)

lemma decide_edit_grant:
  assumes "unique_shares db" "uvGrant (itemVerdict db userId (Some d) ids) = PermEdit"
  shows "decideDoc db userId d loc ids None facts \<noteq> PermNone"
proof -
  have "sharePermission db userId (Some d) ids orgId m oga s t None ovc = PermEdit" for orgId m oga s t ovc
    using assms by (simp add: sharePermission_query grantNF_def)
  then show ?thesis by (simp add: decideDoc_def Let_def askGrant_def split: option.splits)
qed

text \<open>A per-user edit grant always reaches: when the first of the user's own rows, walking up past
  the user's locks, is an edit grant, the user gets at least \<open>view\<close>, whatever the vault's
  posture, a private item, denies further up and missing membership say.\<close>

theorem acl_decisive_edit_reaches:
  assumes "unique_shares db" "locateDoc db d incl = Some loc"
    and "ancestorFolderIds db (dlFolder loc) = Some ids"
    and "decisive (userRow (shares db) userId) (itemOrder (Some d) ids) = Some SEdit"
  shows "\<exists>p. effectivePermission env db userId d None incl = Some (p, None) \<and> p \<noteq> PermNone"
proof -
  have "uvGrant (itemVerdict db userId (Some d) ids) = PermEdit"
    using assms(4) by (simp add: itemVerdict_def userItemVerdict_def verdict_edit_grants)
  moreover have "\<not> isDenied db PUser userId (Some d) ids"
    using assms(1,4) by (simp add: isDenied_decisive)
  ultimately have "freshDecision db userId d loc ids \<noteq> PermNone"
    using decide_edit_grant [OF assms(1)] by (simp add: freshDecision_def)
  then show ?thesis using plain_permission [OF assms(2,3)] by auto
qed

theorem acl_decisive_edit_reaches_witness:
  "\<exists>p. effectivePermission self_hosted (demo [share RFolder ''f1'' PUser ''eve'' SDenied, share RFile ''n'' PUser ''eve'' SEdit])
     ''eve'' ''n'' None False = Some (p, None) \<and> p \<noteq> PermNone"
  by (rule acl_decisive_edit_reaches [OF _ demo_located demo_ancestors])
     (simp_all add: unique_shares_def share_key_def share_def itemOrder_def userRow_def first_row_def)

lemma fresh_no_user_rows:
  assumes u: "unique_shares db" and n: "no_user_rows db userId"
  shows "freshDecision db userId d loc ids = decideDoc db userId d loc ids None (freshFacts db (dlOrg loc) userId)"
    and "askPersonal db userId (dlOrg loc) None = None"
  using n by (simp_all add: freshDecision_def isDenied_user [OF u] itemVerdict_none askPersonal_def personal_none)

text \<open>C9: Edit means unlocked and paid for: when the answer is \<open>edit\<close>, the document exists, no
  Everyone lock or read-only row lies on it or on a folder above it, the user has no lock of
  their own in force there, is not denied, and the vault's account is not lapsed.\<close>

theorem acl_edit_means_unlocked:
  assumes "unique_shares db" "named_vaults db"
    and "effectivePermission env db userId d None incl = Some (PermEdit, c)"
  shows "\<exists>loc ids. locateDoc db d incl = Some loc \<and> ancestorFolderIds db (dlFolder loc) = Some ids \<and>
    (\<forall>r \<in> set (shares db). onItem (Some d) ids r \<and> srPrincipalType r = POrg \<longrightarrow>
       srPermission r \<noteq> SLocked \<and> srPermission r \<noteq> SReadonly) \<and>
    \<not> isLocked db userId (Some d) ids \<and> \<not> isDenied db PUser userId (Some d) ids \<and>
    \<not> isAccountReadOnly env db (dlOrg loc)"
proof -
  obtain loc where loc: "locateDoc db d incl = Some loc"
    using assms(3) by (auto simp: effectivePermission_def uncached_inner split: option.splits)
  then obtain ids where ids: "ancestorFolderIds db (dlFolder loc) = Some ids"
    using assms(3) by (cases "ancestorFolderIds db (dlFolder loc)")
      (auto simp: effectivePermission_def uncached_inner)
  have "dlOrg loc \<noteq> []" using located_named [OF assms(2) loc] .
  then have edit: "freshDecision db userId d loc ids = PermEdit" "\<not> isAccountReadOnly env db (dlOrg loc)"
    using assms(3) plain_permission [OF loc ids, of env userId] by (auto split: if_splits)
  have lock: "\<not> isLocked db userId (Some d) ids" using locked_caps [OF assms(1)] edit(1) by blast
  have "\<not> isDenied db PUser userId (Some d) ids" using edit(1) by (auto simp: freshDecision_def)
  moreover have "\<forall>r \<in> set (shares db). onItem (Some d) ids r \<and> srPrincipalType r = POrg \<longrightarrow>
       srPermission r \<noteq> SLocked \<and> srPermission r \<noteq> SReadonly"
    using lock unfolding isLocked_iff [OF assms(1)] orgLocked_def by blast
  ultimately show ?thesis using loc ids lock edit(2) by blast
qed

theorem acl_edit_means_unlocked_witness:
  "\<not> isLocked (demo [share RFile ''n'' PUser ''eve'' SEdit]) ''eve'' (Some ''n'') [''f2'', ''f1'']"
proof -
  let ?db = "demo [share RFile ''n'' PUser ''eve'' SEdit]" and ?env = self_hosted
  have u: "unique_shares ?db" by (simp add: unique_shares_def)
  have v: "itemVerdict ?db ''eve'' (Some ''n'') [''f2'', ''f1''] =
      \<lparr>uvDeny = False, uvGrant = PermEdit, uvCap = False\<rparr>"
    by (simp add: itemVerdict_def userItemVerdict_def itemOrder_def userRow_def first_row_def share_def)
  have p: "personalVaultLevel ?db ''o'' ''eve'' = None"
    by (simp add: personalVaultLevel_def personalLevelOf_def first_row_def personalRow_def share_def)
  have lock: "\<not> orgLocked ?db (Some ''n'') [''f2'', ''f1'']"
    by (simp add: orgLocked_def share_def)
  have priv: "\<not> isDenied ?db POrg ''o'' (Some ''n'') [''f2'', ''f1'']"
    by (simp add: isDenied_org share_def)
  have base: "vaultBaseline ?db ''o'' = None" "memberRole ?db ''o'' ''eve'' = None"
    "memberAccessSnapshot ?db ''o'' ''eve'' = None"
    by (simp_all add: vaultBaseline_def postureOf_def memberRole_def memberAccessSnapshot_def first_row_def
        share_def demo_def)
  have org: "dlOrg demo_loc = ''o''" by (simp add: demo_loc_def)
  have paid: "\<not> isAccountReadOnly ?env ?db ''o''"
    by (simp add: isAccountReadOnly_def lapseEnforced_def teamModel_def self_hosted_def)
  have "freshDecision ?db ''eve'' ''n'' demo_loc [''f2'', ''f1''] = PermEdit"
    by (simp add: freshDecision_def freshFacts_def isDenied_user [OF u] v decideDoc_def Let_def askLocked_def
        isLocked_iff [OF u] lock askGrant_def sharePermission_query [OF u] grantNF_def askPersonal_def
        askDenied_def org p priv base del: demo_sel)
  then have "effectivePermission ?env ?db ''eve'' ''n'' None False = Some (PermEdit, None)"
    unfolding plain_permission [OF demo_located demo_ancestors] org using paid by simp
  moreover have "named_vaults ?db" by (simp add: named_vaults_def demo_def)
  ultimately obtain loc ids where "locateDoc ?db ''n'' False = Some loc"
    "ancestorFolderIds ?db (dlFolder loc) = Some ids" "\<not> isLocked ?db ''eve'' (Some ''n'') ids"
    using acl_edit_means_unlocked [OF u] by blast
  then show ?thesis using demo_located demo_ancestors by simp
qed

text \<open>C8: Nobody is let in by the vault alone: a user who is not a member and has no share row of
  their own gets \<open>none\<close> on every document, whatever Everyone rows exist and even for a document
  they created (a removed member's session does not outlive the removal).\<close>

theorem acl_outsider_gets_nothing:
  assumes "unique_shares db" "locateDoc db d incl = Some loc"
    and "ancestorFolderIds db (dlFolder loc) = Some ids"
    and "memberRole db (dlOrg loc) userId = None" "memberAccessSnapshot db (dlOrg loc) userId = None"
    and "no_user_rows db userId"
  shows "effectivePermission env db userId d None incl = Some (PermNone, None)"
proof (rule plain_none [OF assms(2,3)])
  have "sharePermission db userId (Some d) ids (dlOrg loc) False oga s t None ovc = PermNone" for oga s t ovc
    by (rule sharePermission_none [OF assms(1,6)]) simp
  then show "freshDecision db userId d loc ids = PermNone"
    using assms(4,5) fresh_no_user_rows [OF assms(1,6)]
    by (simp add: decideDoc_def Let_def askGrant_def freshFacts_def)
qed

theorem acl_outsider_gets_nothing_witness:
  "effectivePermission self_hosted (demo [share RVault ''o'' POrg ''o'' SEdit]) ''eve'' ''n'' None False = Some (PermNone, None)"
  by (rule acl_outsider_gets_nothing [OF _ demo_located demo_ancestors])
     (simp_all add: unique_shares_def memberRole_def memberAccessSnapshot_def demo_def demo_loc_def
        first_row_def no_user_rows_def share_def)

text \<open>An item set Private is private to its author too: an Everyone deny of the vault on the
  document or on a folder above it leaves only explicit per-user rows; a user without one gets
  \<open>none\<close>, as owner, as author and under an open join snapshot.\<close>

theorem acl_private_item_spares_nobody:
  assumes "unique_shares db" "locateDoc db d incl = Some loc"
    and "ancestorFolderIds db (dlFolder loc) = Some ids"
    and "r \<in> set (shares db)" "onItem (Some d) ids r" "srPermission r = SDenied"
    and "srPrincipalType r = POrg" "srPrincipalId r = dlOrg loc"
    and "no_user_rows db userId"
  shows "effectivePermission env db userId d None incl = Some (PermNone, None)"
proof (rule plain_none [OF assms(2,3)])
  have priv: "askDenied db d ids None POrg (dlOrg loc)"
    using assms(4-8) by (auto simp: askDenied_def isDenied_org)
  have "sharePermission db userId (Some d) ids (dlOrg loc) m False s t None ovc = PermNone" for m s t ovc
    by (rule sharePermission_none [OF assms(1,9)]) simp
  then show "freshDecision db userId d loc ids = PermNone"
    using priv fresh_no_user_rows [OF assms(1,9)]
    by (simp add: decideDoc_def Let_def askGrant_def freshFacts_def split: option.splits)
qed

theorem acl_private_item_spares_nobody_witness:
  "effectivePermission self_hosted (demo [share RFolder ''f1'' POrg ''o'' SDenied, share RVault ''o'' POrg ''o'' SEdit])
     ''ann'' ''n'' None False = Some (PermNone, None)"
  by (rule acl_private_item_spares_nobody [OF _ demo_located demo_ancestors,
        where r = "share RFolder ''f1'' POrg ''o'' SDenied"])
     (simp_all add: unique_shares_def share_key_def no_user_rows_def share_def onItem_def demo_loc_def)

text \<open>A sealed vault confers nothing: when every Everyone row of the vault is the seal and there
  is one, no Everyone row lies on the document or above it, the join snapshot does not cover
  the document, and the user has no row of their own, the answer is \<open>none\<close>, for the owner and
  for the author as well.\<close>

theorem acl_sealed_vault_confers_nothing:
  assumes "unique_shares db" "locateDoc db d incl = Some loc"
    and "ancestorFolderIds db (dlFolder loc) = Some ids"
    and "seal \<in> set (shares db)" "vaultRow (dlOrg loc) seal" "srPrincipalType seal = POrg"
    and "\<forall>r \<in> set (shares db). vaultRow (dlOrg loc) r \<and> srPrincipalType r = POrg \<longrightarrow> srPermission r = SDenied"
    and "\<forall>r \<in> set (shares db). onItem (Some d) ids r \<longrightarrow> srPrincipalType r \<noteq> POrg"
    and "memberAccessSnapshot db (dlOrg loc) userId = None \<or>
         snAt (the (memberAccessSnapshot db (dlOrg loc) userId)) < dlCreatedAt loc"
    and "no_user_rows db userId"
  shows "effectivePermission env db userId d None incl = Some (PermNone, None)"
proof (rule plain_none [OF assms(2,3)])
  let ?base = "\<lambda>r. srResourceType r = RVault \<and> srResourceId r = dlOrg loc \<and> srPrincipalType r = POrg \<and>
       (srPermission r = SView \<or> srPermission r = SEdit \<or> srPermission r = SDenied)"
  have "first_row ?base (shares db) \<noteq> None"
    using assms(4-7) by (auto simp: first_row_None vaultRow_def)
  then obtain b where b: "first_row ?base (shares db) = Some b" by blast
  then have "srPermission b = SDenied" using assms(7) by (auto simp: vaultRow_def dest!: first_row_Some)
  then have sealed: "vaultBaseline db (dlOrg loc) = Some PostureSealed"
    using b by (simp add: vaultBaseline_def postureOf_def)
  have "sharePermission db userId (Some d) ids (dlOrg loc) m oga s t None ovc = PermNone" for m oga s t ovc
    by (rule sharePermission_none [OF assms(1,10)]) (use assms(7,8) in auto)
  moreover have "\<not> (case memberAccessSnapshot db (dlOrg loc) userId of None \<Rightarrow> False | Some s \<Rightarrow> dlCreatedAt loc \<le> snAt s)"
    using assms(9) by (auto split: option.splits)
  ultimately show "freshDecision db userId d loc ids = PermNone"
    using sealed fresh_no_user_rows [OF assms(1,10)]
    by (simp add: decideDoc_def Let_def askGrant_def freshFacts_def)
qed

theorem acl_sealed_vault_confers_nothing_witness:
  "effectivePermission self_hosted (demo [share RVault ''o'' POrg ''o'' SDenied]) ''ann'' ''n'' None False = Some (PermNone, None)"
  by (rule acl_sealed_vault_confers_nothing [OF _ demo_located demo_ancestors,
        where seal = "share RVault ''o'' POrg ''o'' SDenied"])
     (simp_all add: unique_shares_def no_user_rows_def share_def onItem_def demo_loc_def vaultRow_def
        memberAccessSnapshot_def first_row_def demo_def)

end
