(* ===== verification/Shrink_Brake.thy ===== *)
theory Shrink_Brake
  imports Prelude
begin

text \<open>
  The server's brake on bursts of sharp shrinks (\<open>server/src/versions/shrink-guard.ts\<close>): what
  counts as a sharp shrink, the per-(user, vault) window and hold, the report that fires the
  hooks, the release, and the coalescer of growing counts. Time is an argument of every
  operation that reads the clock, in milliseconds; a key is the pair (vault, user).
\<close>

section \<open>Sharp shrinks\<close>

definition SHRINK_MIN_CHARS :: nat where "SHRINK_MIN_CHARS = 200"

text \<open>\<open>after <= prev * 0.2\<close>, in integers (\<open>SHRINK_KEEP_RATIO\<close> is a fifth; the double product is
  exact where it is an integer and a fifth away from one elsewhere).\<close>

definition isSharpShrink :: "string \<Rightarrow> string \<Rightarrow> bool" where
  "isSharpShrink before after =
     (let prev = length (js_trim before) in
      if prev < SHRINK_MIN_CHARS then False else 5 * length (js_trim after) \<le> prev)"

section \<open>The brake\<close>

type_synonym brake_key = "string \<times> string"

record brake_hold =
  bhUntil :: int
  bhCount :: nat

record shrink_hit =
  shDocId :: string
  shAt :: int

record shrink_brake =
  brThreshold :: int
  brWindowMs :: int
  brHoldMs :: int
  brHits :: "(brake_key, shrink_hit list) js_map"
  brHeld :: "(brake_key, brake_hold) js_map"
  brHeldDocs :: "(brake_key, string js_set) js_map"

datatype shrink_outcome = Engaged | Grew

definition newBrake :: "int \<Rightarrow> int \<Rightarrow> int \<Rightarrow> shrink_brake" where
  "newBrake threshold windowMs holdMs =
     \<lparr>brThreshold = threshold, brWindowMs = windowMs, brHoldMs = holdMs, brHits = [], brHeld = [],
      brHeldDocs = []\<rparr>"

definition configure :: "int option \<Rightarrow> int option \<Rightarrow> int option \<Rightarrow> shrink_brake \<Rightarrow> shrink_brake" where
  "configure threshold windowMs holdMs b =
     \<lparr>brThreshold = (case threshold of None \<Rightarrow> brThreshold b | Some n \<Rightarrow> n),
      brWindowMs = (case windowMs of None \<Rightarrow> brWindowMs b | Some n \<Rightarrow> n),
      brHoldMs = (case holdMs of None \<Rightarrow> brHoldMs b | Some n \<Rightarrow> n),
      brHits = [], brHeld = [], brHeldDocs = []\<rparr>"

definition brakeKey :: "string \<Rightarrow> string \<Rightarrow> brake_key" where
  "brakeKey userId vaultId = (vaultId, userId)"

text \<open>Reading a hold drops it once it has lapsed.\<close>

definition holdOf :: "int \<Rightarrow> string option \<Rightarrow> string \<Rightarrow> shrink_brake \<Rightarrow> brake_hold option \<times> shrink_brake" where
  "holdOf now userId vaultId b =
     (case userId of
        None \<Rightarrow> (None, b)
      | Some u \<Rightarrow>
          if u = [] then (None, b)
          else
            (let key = brakeKey u vaultId in
             case js_get (brHeld b) key of
               None \<Rightarrow> (None, b)
             | Some hold \<Rightarrow>
                 if now \<ge> bhUntil hold
                 then (None, b\<lparr>brHeld := js_remove key (brHeld b),
                               brHeldDocs := js_remove key (brHeldDocs b)\<rparr>)
                 else (Some hold, b)))"

definition isHeld :: "int \<Rightarrow> string option \<Rightarrow> string \<Rightarrow> shrink_brake \<Rightarrow> bool \<times> shrink_brake" where
  "isHeld now userId vaultId b = (let (h, b') = holdOf now userId vaultId b in (h \<noteq> None, b'))"

definition pruneHits :: "int \<Rightarrow> shrink_brake \<Rightarrow> shrink_brake" where
  "pruneHits t b =
     (if length (brHits b) < 1024 then b
      else b\<lparr>brHits := filter (\<lambda>(k, list). \<not> list_all (\<lambda>h. t - shAt h > brWindowMs b) list) (brHits b)\<rparr>)"

definition recordShrink :: "int \<Rightarrow> string \<Rightarrow> string \<Rightarrow> string \<Rightarrow> shrink_brake
    \<Rightarrow> shrink_outcome option \<times> shrink_brake" where
  "recordShrink now userId vaultId docId b =
     (if brThreshold b \<le> 0 then (None, b)
      else
        (let key = brakeKey userId vaultId;
             (hold, b1) = holdOf now (Some userId) vaultId b
         in case hold of
              Some h \<Rightarrow>
                (case js_get (brHeldDocs b1) key of
                   None \<Rightarrow> (None, b1)
                 | Some docs \<Rightarrow>
                     if docId \<in> set docs then (None, b1)
                     else
                       (let docs' = js_add docId docs in
                        (Some Grew, b1\<lparr>brHeldDocs := js_put key docs' (brHeldDocs b1),
                           brHeld := js_put key (h\<lparr>bhCount := length docs'\<rparr>) (brHeld b1)\<rparr>)))
            | None \<Rightarrow>
                (let recent = filter (\<lambda>h. now - shAt h \<le> brWindowMs b1 \<and> shDocId h \<noteq> docId)
                                (case js_get (brHits b1) key of None \<Rightarrow> [] | Some l \<Rightarrow> l) @
                              [\<lparr>shDocId = docId, shAt = now\<rparr>];
                     b2 = pruneHits now (b1\<lparr>brHits := js_put key recent (brHits b1)\<rparr>)
                 in if int (length recent) < brThreshold b2 then (None, b2)
                    else (Some Engaged,
                      b2\<lparr>brHeld := js_put key \<lparr>bhUntil = now + brHoldMs b2, bhCount = length recent\<rparr> (brHeld b2),
                         brHeldDocs := js_put key (js_set_of (map shDocId recent)) (brHeldDocs b2),
                         brHits := js_remove key (brHits b2)\<rparr>))))"

definition recordEngaged :: "int \<Rightarrow> string \<Rightarrow> string \<Rightarrow> string \<Rightarrow> shrink_brake \<Rightarrow> bool \<times> shrink_brake" where
  "recordEngaged now userId vaultId docId b =
     (let (r, b') = recordShrink now userId vaultId docId b in (r = Some Engaged, b'))"

definition releaseBrake :: "int \<Rightarrow> string \<Rightarrow> string \<Rightarrow> shrink_brake \<Rightarrow> bool \<times> shrink_brake" where
  "releaseBrake now userId vaultId b =
     (let (was, b1) = isHeld now (Some userId) vaultId b;
          key = brakeKey userId vaultId
      in (was, b1\<lparr>brHeld := js_remove key (brHeld b1), brHeldDocs := js_remove key (brHeldDocs b1),
                  brHits := js_remove key (brHits b1)\<rparr>))"

section \<open>Reporting\<close>

text \<open>What a report makes happen outside: the hooks that are set, called with their arguments (a
  hook that throws is caught, so the calls are the whole effect).\<close>

datatype shrink_call =
    CallShrink string string string "string option"
  | CallGrow string string brake_hold
  | CallBrake string string brake_hold
  | CallRelease string string

record shrink_hooks =
  hkShrink :: bool
  hkGrow :: bool
  hkBrake :: bool
  hkRelease :: bool

definition reportShrink :: "shrink_hooks \<Rightarrow> int \<Rightarrow> string \<Rightarrow> string \<Rightarrow> string \<Rightarrow> string \<Rightarrow> string option
    \<Rightarrow> string option \<Rightarrow> shrink_brake \<Rightarrow> shrink_call list \<times> shrink_brake" where
  "reportShrink hooks now vaultId docId before after userId source b =
     (if \<not> isSharpShrink before after then ([], b)
      else
        (let calls = (if hkShrink hooks then [CallShrink vaultId docId before userId] else []);
             named = (case userId of None \<Rightarrow> False | Some u \<Rightarrow> u \<noteq> []);
             (outcome, b1) = (if named \<and> source \<noteq> Some ''mcp''
                              then recordShrink now (the userId) vaultId docId b else (None, b))
         in if named \<and> outcome = Some Grew then
              (let (hold, b2) = holdOf now userId vaultId b1
               in (calls @ (case hold of
                     Some h \<Rightarrow> if hkGrow hooks then [CallGrow vaultId (the userId) h] else []
                   | None \<Rightarrow> []), b2))
            else if named \<and> outcome = Some Engaged \<and> hkBrake hooks then
              (let (hold, b2) = holdOf now userId vaultId b1
               in (calls @ [CallBrake vaultId (the userId)
                     (case hold of Some h \<Rightarrow> h
                      | None \<Rightarrow> \<lparr>bhUntil = now, bhCount = nat (brThreshold b2)\<rparr>)], b2))
            else (calls, b1)))"

definition releaseShrinkBrake :: "shrink_hooks \<Rightarrow> int \<Rightarrow> string \<Rightarrow> string \<Rightarrow> shrink_brake
    \<Rightarrow> bool \<times> shrink_call list \<times> shrink_brake" where
  "releaseShrinkBrake hooks now vaultId userId b =
     (let (was, b') = releaseBrake now userId vaultId b
      in (was, if hkRelease hooks then [CallRelease vaultId userId] else [], b'))"

section \<open>Coalescing the growing count\<close>

text \<open>Pending timers by key, and the flushes done, in order.\<close>

record coalescer =
  coPending :: "brake_key js_set"
  coFlushed :: "brake_key list"

datatype coalescer_event = CoGrew string string | CoFire string string | CoCancel string string

definition coalescerStep :: "coalescer_event \<Rightarrow> coalescer \<Rightarrow> coalescer" where
  "coalescerStep e c =
     (case e of
        CoGrew v u \<Rightarrow> if (v, u) \<in> set (coPending c) then c
                      else c\<lparr>coPending := coPending c @ [(v, u)]\<rparr>
      | CoFire v u \<Rightarrow> if (v, u) \<in> set (coPending c)
                      then c\<lparr>coPending := removeAll (v, u) (coPending c),
                             coFlushed := coFlushed c @ [(v, u)]\<rparr>
                      else c
      | CoCancel v u \<Rightarrow> c\<lparr>coPending := removeAll (v, u) (coPending c)\<rparr>)"

section \<open>The invariant\<close>

text \<open>Every hold names its documents: they are distinct, as many as its count and at least the
  threshold; a user's window never holds as many distinct documents as the threshold, and
  nothing while a hold is in place.\<close>

definition hold_ok :: "shrink_brake \<Rightarrow> brake_key \<Rightarrow> brake_hold \<Rightarrow> bool" where
  "hold_ok b k h \<longleftrightarrow>
     js_get (brHits b) k = None \<and> 0 < brThreshold b \<and> brThreshold b \<le> int (bhCount h) \<and>
     (case js_get (brHeldDocs b) k of None \<Rightarrow> False | Some docs \<Rightarrow> distinct docs \<and> bhCount h = length docs)"

definition hits_ok :: "shrink_brake \<Rightarrow> shrink_hit list \<Rightarrow> bool" where
  "hits_ok b l \<longleftrightarrow> l \<noteq> [] \<and> distinct (map shDocId l) \<and> int (length l) < brThreshold b"

definition brake_inv :: "shrink_brake \<Rightarrow> bool" where
  "brake_inv b \<longleftrightarrow>
     distinct (map fst (brHits b)) \<and>
     (\<forall>k h. js_get (brHeld b) k = Some h \<longrightarrow> hold_ok b k h) \<and>
     (\<forall>k l. js_get (brHits b) k = Some l \<longrightarrow> hits_ok b l)"

lemma brake_invD:
  assumes "brake_inv b"
  shows "distinct (map fst (brHits b))" "js_get (brHeld b) k = Some h \<Longrightarrow> hold_ok b k h"
    "js_get (brHits b) k = Some l \<Longrightarrow> hits_ok b l"
  using assms unfolding brake_inv_def by metis+

lemma brake_invI:
  assumes "distinct (map fst (brHits b))" "\<And>k h. js_get (brHeld b) k = Some h \<Longrightarrow> hold_ok b k h"
    "\<And>k l. js_get (brHits b) k = Some l \<Longrightarrow> hits_ok b l"
  shows "brake_inv b"
  using assms unfolding brake_inv_def by metis

datatype brake_event =
    Reported int string string string string "string option" "string option"
  | Asked int "string option" string
  | Released int string string
  | Configured "int option" "int option" "int option"

definition brakeStep :: "shrink_hooks \<Rightarrow> brake_event \<Rightarrow> shrink_brake \<Rightarrow> shrink_brake" where
  "brakeStep hooks e b = (case e of
       Reported t v d before after u src \<Rightarrow> snd (reportShrink hooks t v d before after u src b)
     | Asked t u v \<Rightarrow> snd (isHeld t u v b)
     | Released t u v \<Rightarrow> snd (releaseBrake t u v b)
     | Configured n w h \<Rightarrow> configure n w h b)"

lemma holdOf_cases:
  "holdOf t (Some u) v b =
     (if u = [] then (None, b) else
      case js_get (brHeld b) (v, u) of
        None \<Rightarrow> (None, b)
      | Some h \<Rightarrow> if t \<ge> bhUntil h
                  then (None, b\<lparr>brHeld := js_remove (v, u) (brHeld b), brHeldDocs := js_remove (v, u) (brHeldDocs b)\<rparr>)
                  else (Some h, b))"
  by (simp add: holdOf_def brakeKey_def Let_def)

lemma holdOf_fields [simp]:
  "brThreshold (snd (holdOf t u v b)) = brThreshold b" "brWindowMs (snd (holdOf t u v b)) = brWindowMs b"
  "brHoldMs (snd (holdOf t u v b)) = brHoldMs b" "brHits (snd (holdOf t u v b)) = brHits b"
  by (auto simp: holdOf_def Let_def split: option.splits)

lemma holdOf_inv: "brake_inv b \<Longrightarrow> brake_inv (snd (holdOf t u v b))"
  by (rule brake_invI)
     (auto simp: holdOf_def Let_def hold_ok_def hits_ok_def dest: brake_invD split: option.splits if_splits)

lemma snd_isHeld: "snd (isHeld t u v b) = snd (holdOf t u v b)"
  "fst (isHeld t u v b) \<longleftrightarrow> fst (holdOf t u v b) \<noteq> None"
  by (simp_all add: isHeld_def Let_def case_prod_beta)

text \<open>A live hold is what the table holds; after asking, no hold in the table means none is left.\<close>

lemma holdOf_held:
  "fst (holdOf t (Some u) v b) = Some h \<Longrightarrow>
     js_get (brHeld b) (v, u) = Some h \<and> t < bhUntil h \<and> snd (holdOf t (Some u) v b) = b"
  by (auto simp: holdOf_cases split: option.splits if_splits)

lemma holdOf_none:
  "u \<noteq> [] \<Longrightarrow> fst (holdOf t (Some u) v b) = None \<Longrightarrow>
     js_get (brHeld (snd (holdOf t (Some u) v b))) (v, u) = None"
  by (auto simp: holdOf_cases split: option.splits if_splits)

lemma holdOf_other:
  "k \<noteq> (v, u) \<Longrightarrow> js_get (brHeld (snd (holdOf t (Some u) v b))) k = js_get (brHeld b) k"
  by (auto simp: holdOf_cases split: option.splits)

lemma pruneHits_fields [simp]:
  "brThreshold (pruneHits t b) = brThreshold b" "brWindowMs (pruneHits t b) = brWindowMs b"
  "brHoldMs (pruneHits t b) = brHoldMs b" "brHeld (pruneHits t b) = brHeld b"
  "brHeldDocs (pruneHits t b) = brHeldDocs b"
  by (simp_all add: pruneHits_def)

lemma js_get_prune:
  "distinct (map fst (brHits b)) \<Longrightarrow>
   js_get (brHits (pruneHits t b)) k =
     (case js_get (brHits b) k of None \<Rightarrow> None
      | Some l \<Rightarrow> if length (brHits b) \<ge> 1024 \<and> list_all (\<lambda>h. t - shAt h > brWindowMs b) l then None else Some l)"
  by (auto simp: pruneHits_def js_get_filter_distinct split: option.splits)

lemma distinct_prune: "distinct (map fst (brHits b)) \<Longrightarrow> distinct (map fst (brHits (pruneHits t b)))"
  by (simp add: pruneHits_def distinct_fst_filter)

definition recentHits :: "int \<Rightarrow> string \<Rightarrow> brake_key \<Rightarrow> shrink_brake \<Rightarrow> shrink_hit list" where
  "recentHits now docId key b =
     filter (\<lambda>h. now - shAt h \<le> brWindowMs b \<and> shDocId h \<noteq> docId)
       (case js_get (brHits b) key of None \<Rightarrow> [] | Some l \<Rightarrow> l) @ [\<lparr>shDocId = docId, shAt = now\<rparr>]"

lemma recentHits_distinct: "brake_inv b \<Longrightarrow> distinct (map shDocId (recentHits t d k b))"
proof -
  assume "brake_inv b"
  then have "distinct (map shDocId (case js_get (brHits b) k of None \<Rightarrow> [] | Some l \<Rightarrow> l))"
    using brake_invD(3) [of b k] by (auto simp: hits_ok_def simp del: split_paired_All split: option.splits)
  then have "distinct (map shDocId (filter P (case js_get (brHits b) k of None \<Rightarrow> [] | Some l \<Rightarrow> l)))" for P
    by (rule distinct_map_filter)
  then show ?thesis by (auto simp: recentHits_def)
qed

text \<open>\<open>recordShrink\<close> by cases: with a live hold, and without one.\<close>

lemma recordShrink_held:
  assumes "brThreshold b > 0" "fst (holdOf t (Some u) v b) = Some h"
  shows "recordShrink t u v d b =
    (case js_get (brHeldDocs b) (v, u) of
       None \<Rightarrow> (None, b)
     | Some docs \<Rightarrow>
         if d \<in> set docs then (None, b)
         else (Some Grew, b\<lparr>brHeldDocs := js_put (v, u) (docs @ [d]) (brHeldDocs b),
                brHeld := js_put (v, u) (h\<lparr>bhCount := Suc (length docs)\<rparr>) (brHeld b)\<rparr>))"
proof -
  have "holdOf t (Some u) v b = (Some h, b)" using assms(2) holdOf_held by (metis prod.collapse)
  then show ?thesis using assms(1)
    by (auto simp: recordShrink_def brakeKey_def Let_def js_add_def split: option.split)
qed

lemma recordShrink_free:
  assumes "brThreshold b > 0" "holdOf t (Some u) v b = (None, b1)"
  shows "recordShrink t u v d b =
    (let recent = recentHits t d (v, u) b1;
         b2 = pruneHits t (b1\<lparr>brHits := js_put (v, u) recent (brHits b1)\<rparr>)
     in if int (length recent) < brThreshold b then (None, b2)
        else (Some Engaged,
          b2\<lparr>brHeld := js_put (v, u) \<lparr>bhUntil = t + brHoldMs b, bhCount = length recent\<rparr> (brHeld b1),
             brHeldDocs := js_put (v, u) (js_set_of (map shDocId recent)) (brHeldDocs b1),
             brHits := js_remove (v, u) (brHits b2)\<rparr>))"
  using assms holdOf_fields [of t "Some u" v b]
  by (simp add: recordShrink_def brakeKey_def Let_def recentHits_def)

lemma fold_js_add_distinct: "distinct (ys @ xs) \<Longrightarrow> fold js_add xs ys = ys @ xs"
proof (induction xs arbitrary: ys)
  case (Cons x xs)
  then have "js_add x ys = ys @ [x]" by (auto simp: js_add_def)
  then show ?case using Cons by simp
qed simp

lemma js_set_of_distinct: "distinct xs \<Longrightarrow> js_set_of xs = xs"
  by (simp add: js_set_of_def fold_js_add_distinct)

lemma recordShrink_inv:
  assumes inv: "brake_inv b" and "u \<noteq> []"
  shows "brake_inv (snd (recordShrink t u v d b))"
proof (cases "brThreshold b > 0")
  case False
  then show ?thesis using inv by (simp add: recordShrink_def)
next
  case pos: True
  show ?thesis
  proof (cases "fst (holdOf t (Some u) v b)")
    case (Some h)
    have held: "js_get (brHeld b) (v, u) = Some h" using holdOf_held [OF Some] by simp
    have "hold_ok b (v, u) h" using brake_invD(2) [OF inv held] .
    then obtain docs where docs: "js_get (brHeldDocs b) (v, u) = Some docs" "distinct docs" "bhCount h = length docs"
      "js_get (brHits b) (v, u) = None" "brThreshold b \<le> int (length docs)"
      by (auto simp: hold_ok_def split: option.splits)
    show ?thesis
    proof (cases "d \<in> set docs")
      case True
      then show ?thesis using inv docs by (simp add: recordShrink_held [OF pos Some])
    next
      case False
      let ?b' = "b\<lparr>brHeldDocs := js_put (v, u) (docs @ [d]) (brHeldDocs b),
                brHeld := js_put (v, u) (h\<lparr>bhCount := Suc (length docs)\<rparr>) (brHeld b)\<rparr>"
      have "brake_inv ?b'"
      proof (rule brake_invI)
        show "distinct (map fst (brHits ?b'))" using brake_invD(1) [OF inv] by simp
        show "hold_ok ?b' k h'" if "js_get (brHeld ?b') k = Some h'" for k h'
        proof (cases "k = (v, u)")
          case True
          then show ?thesis using that docs pos False by (auto simp: hold_ok_def)
        next
          case False
          then show ?thesis using that brake_invD(2) [OF inv, of k h'] by (simp add: hold_ok_def)
        qed
        show "hits_ok ?b' l" if "js_get (brHits ?b') k = Some l" for k l
          using brake_invD(3) [OF inv, of k l] that by (simp add: hits_ok_def)
      qed
      then show ?thesis using False docs by (simp add: recordShrink_held [OF pos Some])
    qed
  next
    case None
    define b1 where "b1 = snd (holdOf t (Some u) v b)"
    have h: "holdOf t (Some u) v b = (None, b1)" using None by (simp add: b1_def prod_eq_iff)
    have inv1: "brake_inv b1" using inv by (simp add: b1_def holdOf_inv)
    have free: "js_get (brHeld b1) (v, u) = None" using None assms(2) by (simp add: b1_def holdOf_none)
    have thr: "brThreshold b1 = brThreshold b" by (simp add: b1_def)
    let ?r = "recentHits t d (v, u) b1"
    let ?p = "b1\<lparr>brHits := js_put (v, u) ?r (brHits b1)\<rparr>"
    let ?b2 = "pruneHits t ?p"
    have dist: "distinct (map fst (brHits ?p))" using brake_invD(1) [OF inv1] by (simp add: distinct_update)
    have r: "?r \<noteq> []" "distinct (map shDocId ?r)"
      using recentHits_distinct [OF inv1] by (auto simp: recentHits_def)
    have hits: "js_get (brHits ?b2) k = Some l \<Longrightarrow> if k = (v, u) then l = ?r else js_get (brHits b1) k = Some l" for k l
      using js_get_prune [OF dist, of t k] by (auto split: option.splits if_splits)
    have nohits: "js_get (brHits b1) k = None \<Longrightarrow> k \<noteq> (v, u) \<Longrightarrow> js_get (brHits ?b2) k = None" for k
      using js_get_prune [OF dist, of t k] by auto
    have kept: "hold_ok b' k h'" if "js_get (brHeld b1) k = Some h'" "brThreshold b' = brThreshold b"
      "js_get (brHits b') k = None" "js_get (brHeldDocs b') k = js_get (brHeldDocs b1) k" for b' k h'
      using brake_invD(2) [OF inv1 that(1)] that(2-4) thr by (simp add: hold_ok_def)
    have none: "js_get (brHits b1) k = None" if "js_get (brHeld b1) k = Some h'" for k h'
      using brake_invD(2) [OF inv1 that] by (simp add: hold_ok_def)
    show ?thesis
    proof (cases "int (length ?r) < brThreshold b")
      case True
      have "brake_inv ?b2"
      proof (rule brake_invI)
        show "distinct (map fst (brHits ?b2))" by (rule distinct_prune [OF dist])
        show "hold_ok ?b2 k h'" if "js_get (brHeld ?b2) k = Some h'" for k h'
        proof -
          have k: "js_get (brHeld b1) k = Some h'" using that by simp
          then have "k \<noteq> (v, u)" using free by auto
          with nohits [OF none [OF k]] show ?thesis using thr by (intro kept [OF k]) simp_all
        qed
        show "hits_ok ?b2 l" if "js_get (brHits ?b2) k = Some l" for k l
          using hits [OF that] r True thr brake_invD(3) [OF inv1, of k l]
          by (auto simp: hits_ok_def split: if_splits)
      qed
      then show ?thesis using True by (simp add: recordShrink_free [OF pos h] Let_def)
    next
      case False
      let ?b3 = "?b2\<lparr>brHeld := js_put (v, u) \<lparr>bhUntil = t + brHoldMs b, bhCount = length ?r\<rparr> (brHeld b1),
             brHeldDocs := js_put (v, u) (map shDocId ?r) (brHeldDocs b1),
             brHits := js_remove (v, u) (brHits ?b2)\<rparr>"
      have "brake_inv ?b3"
      proof (rule brake_invI)
        show "distinct (map fst (brHits ?b3))" using distinct_prune [OF dist, of t] by (simp add: distinct_delete)
        show "hold_ok ?b3 k h'" if "js_get (brHeld ?b3) k = Some h'" for k h'
        proof (cases "k = (v, u)")
          case True
          then show ?thesis using that r False pos thr by (auto simp: hold_ok_def)
        next
          case k: False
          then have "js_get (brHeld b1) k = Some h'" using that by simp
          from nohits [OF none [OF this] k] show ?thesis using k thr \<open>js_get (brHeld b1) k = Some h'\<close>
            by (intro kept) simp_all
        qed
        show "hits_ok ?b3 l" if "js_get (brHits ?b3) k = Some l" for k l
          using that hits [of k l] thr brake_invD(3) [OF inv1, of k l]
          by (auto simp: hits_ok_def split: if_splits)
      qed
      then show ?thesis using False
        by (simp add: recordShrink_free [OF pos h] Let_def js_set_of_distinct [OF r(2)])
    qed
  qed
qed

text \<open>A hold is engaged exactly when the window reaches the threshold.\<close>

lemma recordShrink_engaged:
  assumes "brThreshold b > 0" "u \<noteq> []" "fst (recordShrink t u v d b) = Some Engaged"
  shows "js_get (brHeld (snd (recordShrink t u v d b))) (v, u) =
     Some \<lparr>bhUntil = t + brHoldMs b, bhCount = length (recentHits t d (v, u) (snd (holdOf t (Some u) v b)))\<rparr>"
proof (cases "fst (holdOf t (Some u) v b)")
  case (Some h)
  then show ?thesis using assms(3)
    by (auto simp: recordShrink_held [OF assms(1) Some] split: option.splits if_splits)
next
  case None
  define b1 where "b1 = snd (holdOf t (Some u) v b)"
  have h: "holdOf t (Some u) v b = (None, b1)" using None by (simp add: b1_def prod_eq_iff)
  show ?thesis using assms(3)
    by (auto simp: recordShrink_free [OF assms(1) h] Let_def h split: if_splits)
qed

lemma releaseBrake_inv: "brake_inv b \<Longrightarrow> brake_inv (snd (releaseBrake t u v b))"
proof -
  assume "brake_inv b"
  then have inv: "brake_inv (snd (isHeld t (Some u) v b))" by (simp add: snd_isHeld holdOf_inv)
  let ?b = "snd (isHeld t (Some u) v b)"
  have eq: "snd (releaseBrake t u v b) =
      ?b\<lparr>brHeld := js_remove (v, u) (brHeld ?b), brHeldDocs := js_remove (v, u) (brHeldDocs ?b),
         brHits := js_remove (v, u) (brHits ?b)\<rparr>"
    by (simp add: releaseBrake_def brakeKey_def case_prod_beta Let_def)
  show ?thesis unfolding eq
  proof (rule brake_invI)
    show "hold_ok (?b\<lparr>brHeld := js_remove (v, u) (brHeld ?b), brHeldDocs := js_remove (v, u) (brHeldDocs ?b),
         brHits := js_remove (v, u) (brHits ?b)\<rparr>) k h"
      if "js_get (brHeld (?b\<lparr>brHeld := js_remove (v, u) (brHeld ?b), brHeldDocs := js_remove (v, u) (brHeldDocs ?b),
         brHits := js_remove (v, u) (brHits ?b)\<rparr>)) k = Some h" for k h
      using brake_invD(2) [OF inv, of k h] that by (auto simp: hold_ok_def split: if_splits)
    show "hits_ok (?b\<lparr>brHeld := js_remove (v, u) (brHeld ?b), brHeldDocs := js_remove (v, u) (brHeldDocs ?b),
         brHits := js_remove (v, u) (brHits ?b)\<rparr>) l"
      if "js_get (brHits (?b\<lparr>brHeld := js_remove (v, u) (brHeld ?b), brHeldDocs := js_remove (v, u) (brHeldDocs ?b),
         brHits := js_remove (v, u) (brHits ?b)\<rparr>)) k = Some l" for k l
      using brake_invD(3) [OF inv, of k l] that by (auto simp: hits_ok_def split: if_splits)
  qed (use brake_invD(1) [OF inv] in \<open>simp add: distinct_delete\<close>)
qed

text \<open>What a report does to the brake: nothing, or one recorded shrink followed at most by a
  read of the hold.\<close>

lemma snd_reportShrink:
  obtains "snd (reportShrink hooks t v d x y u src b) = b"
    | u' where "u = Some u'" "u' \<noteq> []" "isSharpShrink x y" "src \<noteq> Some ''mcp''"
      "snd (reportShrink hooks t v d x y u src b) = snd (recordShrink t u' v d b) \<or>
       snd (reportShrink hooks t v d x y u src b) =
         snd (holdOf t (Some u') v (snd (recordShrink t u' v d b)))"
proof (cases "isSharpShrink x y \<and> u \<noteq> None \<and> the u \<noteq> [] \<and> src \<noteq> Some ''mcp''")
  case True
  then obtain u' where u': "u = Some u'" "u' \<noteq> []" by (cases u) simp_all
  let ?r = "recordShrink t u' v d b"
  have eq: "snd (reportShrink hooks t v d x y u src b) =
      (if fst ?r = Some Grew \<or> fst ?r = Some Engaged \<and> hkBrake hooks
       then snd (holdOf t (Some u') v (snd ?r)) else snd ?r)"
    unfolding reportShrink_def Let_def case_prod_beta using True u' by simp
  show thesis
  proof (rule that(2) [OF u'])
    show "isSharpShrink x y" "src \<noteq> Some ''mcp''" using True by simp_all
    show "snd (reportShrink hooks t v d x y u src b) = snd ?r \<or>
       snd (reportShrink hooks t v d x y u src b) = snd (holdOf t (Some u') v (snd ?r))"
      unfolding eq by simp
  qed
next
  case False
  then consider "\<not> isSharpShrink x y" | "u = None" | "u = Some []" | "src = Some ''mcp''" by fastforce
  then have "snd (reportShrink hooks t v d x y u src b) = b"
    by cases (simp_all add: reportShrink_def Let_def)
  then show thesis by (rule that(1))
qed

lemma reportShrink_inv: "brake_inv b \<Longrightarrow> brake_inv (snd (reportShrink hooks t v d x y u src b))"
  by (rule snd_reportShrink [of hooks t v d x y u src b])
     (auto simp: recordShrink_inv holdOf_inv)

lemma configure_inv: "brake_inv (configure n w h b)"
  by (rule brake_invI) (simp_all add: configure_def)

lemma brakeStep_inv: "brake_inv b \<Longrightarrow> brake_inv (brakeStep hooks e b)"
  by (cases e) (simp_all add: brakeStep_def reportShrink_inv snd_isHeld holdOf_inv releaseBrake_inv configure_inv)

interpretation brake: invariant_machine "brakeStep hooks" brake_inv
  by unfold_locales (rule brakeStep_inv)

end
