(* ===== verification/Shrink_Props.thy ===== *)
theory Shrink_Props
  imports Shrink_Brake
begin

text \<open>
  What the brake promises: a burst of sharp shrinks by one user in one vault is held whatever
  else the server records meanwhile (\<open>brake_stops_burst\<close>), and every hold was earned by that user's own
  shrinks in that vault (\<open>brake_hold_earned\<close>), so nobody's writes are held for another's.
\<close>

section \<open>Reports of one user in one vault\<close>

definition eventTime :: "brake_event \<Rightarrow> int option" where
  "eventTime e = (case e of Reported t _ _ _ _ _ _ \<Rightarrow> Some t | Asked t _ _ \<Rightarrow> Some t
                  | Released t _ _ \<Rightarrow> Some t | Configured _ _ _ \<Rightarrow> None)"

definition countedDocs :: "string \<Rightarrow> string \<Rightarrow> brake_event \<Rightarrow> string set" where
  "countedDocs u v e = (case e of
       Reported t v' d x y u' src \<Rightarrow>
         if v' = v \<and> u' = Some u \<and> isSharpShrink x y \<and> src \<noteq> Some ''mcp'' then {d} else {}
     | _ \<Rightarrow> {})"

definition burstDocs :: "string \<Rightarrow> string \<Rightarrow> brake_event list \<Rightarrow> string set" where
  "burstDocs u v es = \<Union> (set (map (countedDocs u v) es))"

lemma burstDocs_simps [simp]:
  "burstDocs u v [] = {}" "burstDocs u v (e # es) = countedDocs u v e \<union> burstDocs u v es"
  by (simp_all add: burstDocs_def)

definition undisturbed :: "string \<Rightarrow> string \<Rightarrow> brake_event \<Rightarrow> bool" where
  "undisturbed u v e = (case e of Configured _ _ _ \<Rightarrow> False | Released _ u' v' \<Rightarrow> (v', u') \<noteq> (v, u) | _ \<Rightarrow> True)"

section \<open>Frames\<close>

lemma recordShrink_frame:
  assumes "k \<noteq> (v, u)"
  shows "js_get (brHeld (snd (recordShrink t u v d b))) k = js_get (brHeld b) k"
    "js_get (brHeldDocs (snd (recordShrink t u v d b))) k = js_get (brHeldDocs b) k"
proof -
  have "js_get (brHeld (snd (recordShrink t u v d b))) k = js_get (brHeld b) k \<and>
        js_get (brHeldDocs (snd (recordShrink t u v d b))) k = js_get (brHeldDocs b) k"
  proof (cases "brThreshold b > 0")
    case False
    then show ?thesis by (simp add: recordShrink_def)
  next
    case pos: True
    have o: "js_get (brHeldDocs (snd (holdOf t (Some u) v b))) k = js_get (brHeldDocs b) k"
      using assms by (auto simp: holdOf_cases split: option.splits)
    show ?thesis
    proof (cases "fst (holdOf t (Some u) v b)")
      case (Some h)
      then show ?thesis using assms by (auto simp: recordShrink_held [OF pos Some] split: option.splits)
    next
      case None
      then have h: "holdOf t (Some u) v b = (None, snd (holdOf t (Some u) v b))" by (simp add: prod_eq_iff)
      show ?thesis using assms o holdOf_other [OF assms, of t b]
        by (simp add: recordShrink_free [OF pos h] Let_def)
    qed
  qed
  then show "js_get (brHeld (snd (recordShrink t u v d b))) k = js_get (brHeld b) k"
    "js_get (brHeldDocs (snd (recordShrink t u v d b))) k = js_get (brHeldDocs b) k" by simp_all
qed

lemma recordShrink_fields [simp]:
  "brThreshold (snd (recordShrink t u v d b)) = brThreshold b"
  "brWindowMs (snd (recordShrink t u v d b)) = brWindowMs b"
  "brHoldMs (snd (recordShrink t u v d b)) = brHoldMs b"
  using holdOf_fields [of t "Some u" v b]
  by (auto simp: recordShrink_def Let_def case_prod_beta split: option.splits)

text \<open>Another key's hits are kept, unless the sweep finds all of them outside the window.\<close>

lemma recordShrink_hits_frame:
  assumes "brake_inv b" "k \<noteq> (v, u)" "js_get (brHits b) k = Some l"
    "\<exists>h \<in> set l. t - shAt h \<le> brWindowMs b"
  shows "js_get (brHits (snd (recordShrink t u v d b))) k = Some l"
proof (cases "brThreshold b > 0")
  case False
  then show ?thesis using assms by (simp add: recordShrink_def)
next
  case pos: True
  show ?thesis
  proof (cases "fst (holdOf t (Some u) v b)")
    case (Some h)
    then show ?thesis using assms by (auto simp: recordShrink_held [OF pos Some] split: option.splits)
  next
    case None
    let ?b1 = "snd (holdOf t (Some u) v b)"
    have h: "holdOf t (Some u) v b = (None, ?b1)" using None by (simp add: prod_eq_iff)
    let ?p = "?b1\<lparr>brHits := js_put (v, u) (recentHits t d (v, u) ?b1) (brHits ?b1)\<rparr>"
    have "distinct (map fst (brHits ?p))" using brake_invD(1) [OF assms(1)] by (simp add: distinct_update)
    moreover have "\<not> list_all (\<lambda>h. t - shAt h > brWindowMs b) l" using assms(4) by (auto simp: list_all_iff not_less)
    ultimately have "js_get (brHits (pruneHits t ?p)) k = Some l"
      using js_get_prune [of ?p t k] assms(2,3) by simp
    then show ?thesis using assms(2) by (simp add: recordShrink_free [OF pos h] Let_def)
  qed
qed

text \<open>The recording key's own entry, after the call.\<close>

lemma recordShrink_own:
  assumes inv: "brake_inv b" and pos: "brThreshold b > 0" and u: "u \<noteq> []" and w: "brWindowMs b \<ge> 0"
    and none: "fst (holdOf t (Some u) v b) = None"
  shows "(\<exists>h. js_get (brHeld (snd (recordShrink t u v d b))) (v, u) = Some h \<and> bhUntil h = t + brHoldMs b) \<or>
     js_get (brHeld (snd (recordShrink t u v d b))) (v, u) = None \<and>
     js_get (brHits (snd (recordShrink t u v d b))) (v, u) = Some (recentHits t d (v, u) b)"
proof -
  let ?b1 = "snd (holdOf t (Some u) v b)"
  have h: "holdOf t (Some u) v b = (None, ?b1)" using none by (simp add: prod_eq_iff)
  have r: "recentHits t d (v, u) ?b1 = recentHits t d (v, u) b" by (simp add: recentHits_def)
  let ?p = "?b1\<lparr>brHits := js_put (v, u) (recentHits t d (v, u) b) (brHits ?b1)\<rparr>"
  have "distinct (map fst (brHits ?p))" using brake_invD(1) [OF inv] by (simp add: distinct_update)
  moreover have "\<not> list_all (\<lambda>h. t - shAt h > brWindowMs b) (recentHits t d (v, u) b)"
    using w by (auto simp: recentHits_def)
  ultimately have p: "js_get (brHits (pruneHits t ?p)) (v, u) = Some (recentHits t d (v, u) b)"
    using js_get_prune [of ?p t "(v, u)"] by simp
  show ?thesis using p holdOf_none [OF u none] by (simp add: recordShrink_free [OF pos h] Let_def r)
qed

section \<open>A burst is stopped\<close>

definition hitsOf :: "brake_key \<Rightarrow> shrink_brake \<Rightarrow> shrink_hit list" where
  "hitsOf k b = (case js_get (brHits b) k of None \<Rightarrow> [] | Some l \<Rightarrow> l)"

text \<open>During a burst that began at \<open>T\<close>: either the hold is on and lasts \<open>H\<close> from \<open>T\<close>, or every
  document of the burst is still in the window.\<close>

definition burst_state :: "int \<Rightarrow> int \<Rightarrow> int \<Rightarrow> int \<Rightarrow> string \<Rightarrow> string \<Rightarrow> string set \<Rightarrow> shrink_brake \<Rightarrow> bool" where
  "burst_state T n W H u v S b \<longleftrightarrow>
     brake_inv b \<and> brThreshold b = n \<and> brWindowMs b = W \<and> brHoldMs b = H \<and>
     ((\<exists>h. js_get (brHeld b) (v, u) = Some h \<and> T + H \<le> bhUntil h) \<or>
      (\<forall>h. js_get (brHeld b) (v, u) = Some h \<longrightarrow> bhUntil h \<le> T) \<and>
      (\<forall>d \<in> S. \<exists>h \<in> set (hitsOf (v, u) b). shDocId h = d \<and> T \<le> shAt h \<and> shAt h \<le> T + W))"

lemma burst_stateI:
  assumes "brake_inv b" "brThreshold b = n" "brWindowMs b = W" "brHoldMs b = H"
    "(\<exists>h. js_get (brHeld b) (v, u) = Some h \<and> T + H \<le> bhUntil h) \<or>
      (\<forall>h. js_get (brHeld b) (v, u) = Some h \<longrightarrow> bhUntil h \<le> T) \<and>
      (\<forall>d \<in> S. \<exists>h \<in> set (hitsOf (v, u) b). shDocId h = d \<and> T \<le> shAt h \<and> shAt h \<le> T + W)"
  shows "burst_state T n W H u v S b"
  using assms unfolding burst_state_def by blast

lemma burst_stateE:
  assumes "burst_state T n W H u v S b"
  obtains (held) h where "brake_inv b" "brThreshold b = n" "brWindowMs b = W" "brHoldMs b = H"
      "js_get (brHeld b) (v, u) = Some h" "T + H \<le> bhUntil h"
    | (free) "brake_inv b" "brThreshold b = n" "brWindowMs b = W" "brHoldMs b = H"
      "\<And>h. js_get (brHeld b) (v, u) = Some h \<Longrightarrow> bhUntil h \<le> T"
      "\<And>d. d \<in> S \<Longrightarrow> \<exists>h \<in> set (hitsOf (v, u) b). shDocId h = d \<and> T \<le> shAt h \<and> shAt h \<le> T + W"
  using assms unfolding burst_state_def by blast

lemma burst_read:
  assumes st: "burst_state T n W H u v S b" and t: "T \<le> t" "t < T + H"
  shows "burst_state T n W H u v S (snd (holdOf t u' v' b))"
  using st
proof (cases rule: burst_stateE)
  case (held h)
  have "js_get (brHeld (snd (holdOf t u' v' b))) (v, u) = Some h"
    using held(5,6) t by (auto simp: holdOf_def Let_def brakeKey_def split: option.splits)
  then show ?thesis using held by (intro burst_stateI) (simp_all add: holdOf_inv)
next
  case free
  have sub: "js_get (brHeld (snd (holdOf t u' v' b))) (v, u) = Some h \<Longrightarrow> js_get (brHeld b) (v, u) = Some h" for h
    by (auto simp: holdOf_def Let_def split: option.splits if_splits)
  show ?thesis
  proof (rule burst_stateI)
    show "(\<exists>h. js_get (brHeld (snd (holdOf t u' v' b))) (v, u) = Some h \<and> T + H \<le> bhUntil h) \<or>
      (\<forall>h. js_get (brHeld (snd (holdOf t u' v' b))) (v, u) = Some h \<longrightarrow> bhUntil h \<le> T) \<and>
      (\<forall>d \<in> S. \<exists>h \<in> set (hitsOf (v, u) (snd (holdOf t u' v' b))).
          shDocId h = d \<and> T \<le> shAt h \<and> shAt h \<le> T + W)"
      using free(5,6) sub by (simp add: hitsOf_def)
  qed (simp_all add: holdOf_inv free)
qed

text \<open>A counted document joins the window, or the hold is on.\<close>

lemma burst_count:
  assumes st: "burst_state T n W H u v S b" and t: "T \<le> t" "t \<le> T + W" "t < T + H" and n: "n > 0" and u: "u \<noteq> []"
  shows "burst_state T n W H u v (insert d S) (snd (recordShrink t u v d b))"
  using st
proof (cases rule: burst_stateE)
  case (held h)
  have "fst (holdOf t (Some u) v b) = Some h" using held(5,6) t u by (simp add: holdOf_cases)
  then have "\<exists>h'. js_get (brHeld (snd (recordShrink t u v d b))) (v, u) = Some h' \<and> bhUntil h' = bhUntil h"
    using held(2,5) n by (auto simp: recordShrink_held split: option.split)
  then show ?thesis using held u by (intro burst_stateI) (auto simp: recordShrink_inv)
next
  case free
  have none: "fst (holdOf t (Some u) v b) = None"
    using free(5) t(1) by (fastforce simp: holdOf_cases split: option.split)
  have w: "brWindowMs b \<ge> 0" using t free by simp
  have pos: "brThreshold b > 0" using n free by simp
  have new: "\<exists>h \<in> set (recentHits t d (v, u) b). shDocId h = e \<and> T \<le> shAt h \<and> shAt h \<le> T + W"
    if "e \<in> insert d S" for e
  proof (cases "e = d")
    case True
    then show ?thesis using t by (auto simp: recentHits_def)
  next
    case False
    then obtain h where h: "h \<in> set (hitsOf (v, u) b)" "shDocId h = e" "T \<le> shAt h" "shAt h \<le> T + W"
      using \<open>e \<in> insert d S\<close> free(6) by blast
    then have "t - shAt h \<le> brWindowMs b" using t free(3) by simp
    then have "h \<in> set (recentHits t d (v, u) b)" using h False by (simp add: recentHits_def hitsOf_def)
    then show ?thesis using h by blast
  qed
  show ?thesis using recordShrink_own [OF free(1) pos u w none, of d]
  proof
    assume "\<exists>h. js_get (brHeld (snd (recordShrink t u v d b))) (v, u) = Some h \<and> bhUntil h = t + brHoldMs b"
    then show ?thesis using free t(1) u by (intro burst_stateI) (auto simp: recordShrink_inv)
  next
    assume *: "js_get (brHeld (snd (recordShrink t u v d b))) (v, u) = None \<and>
     js_get (brHits (snd (recordShrink t u v d b))) (v, u) = Some (recentHits t d (v, u) b)"
    show ?thesis
      by (rule burst_stateI) (use free u new * in \<open>simp_all add: recordShrink_inv hitsOf_def\<close>)
  qed
qed

text \<open>Somebody else's shrink leaves the burst's state as it is.\<close>

lemma burst_other:
  assumes st: "burst_state T n W H u v S b" and t: "T \<le> t" "t \<le> T + W" and k: "(v, u) \<noteq> (v', u')" and u': "u' \<noteq> []"
  shows "burst_state T n W H u v S (snd (recordShrink t u' v' d b))"
  using st
proof (cases rule: burst_stateE)
  case (held h)
  then show ?thesis using recordShrink_frame(1) [OF k, of t d b] u'
    by (intro burst_stateI) (auto simp: recordShrink_inv)
next
  case free
  have "\<exists>h \<in> set (hitsOf (v, u) (snd (recordShrink t u' v' d b))). shDocId h = e \<and> T \<le> shAt h \<and> shAt h \<le> T + W"
    if "e \<in> S" for e
  proof -
    obtain h where h: "h \<in> set (hitsOf (v, u) b)" "shDocId h = e" "T \<le> shAt h" "shAt h \<le> T + W"
      using free(6) \<open>e \<in> S\<close> by blast
    then obtain l where l: "js_get (brHits b) (v, u) = Some l"
      by (cases "js_get (brHits b) (v, u)") (simp_all add: hitsOf_def)
    have "\<exists>h \<in> set l. t - shAt h \<le> brWindowMs b"
      using h l t free(3) by (intro bexI [of _ h]) (simp_all add: hitsOf_def)
    from recordShrink_hits_frame [OF free(1) k l this]
    have "hitsOf (v, u) (snd (recordShrink t u' v' d b)) = hitsOf (v, u) b"
      by (simp add: hitsOf_def l)
    then show ?thesis using h by auto
  qed
  then show ?thesis
    by (intro burst_stateI)
       (use free u' recordShrink_frame(1) [OF k, of t d b] in \<open>simp_all add: recordShrink_inv\<close>)
qed

lemma burst_report:
  assumes st: "burst_state T n W H u v S b" and t: "T \<le> t" "t \<le> T + W" "t < T + H" and n: "n > 0" and u: "u \<noteq> []"
  shows "burst_state T n W H u v (S \<union> countedDocs u v (Reported t v' d x y u' src))
     (snd (reportShrink hooks t v' d x y u' src b))"
proof (cases "isSharpShrink x y \<and> (\<exists>w. u' = Some w \<and> w \<noteq> []) \<and> src \<noteq> Some ''mcp''")
  case False
  then have "snd (reportShrink hooks t v' d x y u' src b) = b"
    by (cases hooks t v' d x y u' src b rule: snd_reportShrink) auto
  moreover have "countedDocs u v (Reported t v' d x y u' src) = {}"
    using False u by (auto simp: countedDocs_def)
  ultimately show ?thesis using st by simp
next
  case True
  then obtain w where w: "u' = Some w" "w \<noteq> []" by auto
  have rec: "burst_state T n W H u v (S \<union> countedDocs u v (Reported t v' d x y u' src)) (snd (recordShrink t w v' d b))"
  proof (cases "(v, u) = (v', w)")
    case same: True
    then have "countedDocs u v (Reported t v' d x y u' src) = {d}" using True w by (auto simp: countedDocs_def)
    then show ?thesis using burst_count [OF st t n u, of d] same by simp
  next
    case other: False
    then have "countedDocs u v (Reported t v' d x y u' src) = {}" using w by (auto simp: countedDocs_def)
    then show ?thesis using burst_other [OF st t(1,2) other w(2)] by simp
  qed
  show ?thesis
  proof (cases hooks t v' d x y u' src b rule: snd_reportShrink)
    case 1
    then show ?thesis
    proof -
      have "snd (reportShrink hooks t v' d x y u' src b) = b" by (rule 1)
      moreover have "snd (reportShrink hooks t v' d x y u' src b) = snd (recordShrink t w v' d b) \<or>
        snd (reportShrink hooks t v' d x y u' src b) = snd (holdOf t (Some w) v' (snd (recordShrink t w v' d b)))"
        using True w by (simp add: reportShrink_def Let_def case_prod_beta)
      ultimately show ?thesis using rec burst_read [OF rec t(1,3)] by metis
    qed
  next
    case (2 w')
    then show ?thesis using rec burst_read [OF rec t(1,3)] w by auto
  qed
qed

lemma burst_step:
  assumes "burst_state T n W H u v S b" "undisturbed u v e" "eventTime e = Some t"
    "T \<le> t" "t \<le> T + W" "t < T + H" "n > 0" "u \<noteq> []"
  shows "burst_state T n W H u v (S \<union> countedDocs u v e) (brakeStep hooks e b)"
proof (cases e)
  case (Reported t' v' d x y u' src)
  then show ?thesis using burst_report [OF assms(1,4,5,6,7,8)] assms(3) by (simp add: brakeStep_def eventTime_def)
next
  case (Asked t' u' v')
  then show ?thesis using burst_read [OF assms(1,4,6)] assms(3)
    by (simp add: brakeStep_def eventTime_def snd_isHeld countedDocs_def)
next
  case (Released t' u' v')
  let ?b = "snd (holdOf t (Some u') v' b)"
  have k: "(v', u') \<noteq> (v, u)" using assms(2) Released by (simp add: undisturbed_def)
  have eq: "brakeStep hooks e b =
      ?b\<lparr>brHeld := js_remove (v', u') (brHeld ?b), brHeldDocs := js_remove (v', u') (brHeldDocs ?b),
         brHits := js_remove (v', u') (brHits ?b)\<rparr>"
    using assms(3) Released
    by (simp add: brakeStep_def eventTime_def releaseBrake_def isHeld_def brakeKey_def case_prod_beta Let_def)
  have inv: "brake_inv (brakeStep hooks e b)"
    using assms(1) by (simp add: brakeStep_inv burst_state_def)
  have same: "js_get (brHeld (brakeStep hooks e b)) (v, u) = js_get (brHeld ?b) (v, u)"
    "js_get (brHits (brakeStep hooks e b)) (v, u) = js_get (brHits ?b) (v, u)"
    unfolding eq using k by auto
  have "burst_state T n W H u v S ?b" by (rule burst_read [OF assms(1,4,6)])
  then have "burst_state T n W H u v S (brakeStep hooks e b)"
    using inv same unfolding burst_state_def hitsOf_def by (simp add: eq)
  then show ?thesis using Released by (simp add: countedDocs_def)
next
  case (Configured a c d)
  then show ?thesis using assms(3) by (simp add: eventTime_def)
qed

lemma burst_run:
  assumes "burst_state T n W H u v S b" "n > 0" "u \<noteq> []" "W < H"
    "\<forall>e \<in> set es. undisturbed u v e \<and> (\<exists>t. eventTime e = Some t \<and> T \<le> t \<and> t \<le> T + W)"
  shows "burst_state T n W H u v (S \<union> burstDocs u v es) (fold (brakeStep hooks) es b)"
  using assms(1,5)
proof (induction es arbitrary: S b)
  case (Cons e es)
  then obtain t where t: "undisturbed u v e" "eventTime e = Some t" "T \<le> t" "t \<le> T + W" by auto
  have "burst_state T n W H u v (S \<union> countedDocs u v e) (brakeStep hooks e b)"
    using burst_step [OF Cons.prems(1) t] assms(2-4) t by simp
  from Cons.IH [OF this] Cons.prems(2) show ?case by (simp add: Un_assoc)
qed simp

text \<open>The window cannot hold as many documents as the threshold, so a full burst is held.\<close>

lemma burst_full_held:
  assumes st: "burst_state T n W H u v S b" and S: "finite S" "n \<le> int (card S)" "0 < n"
  shows "\<exists>h. js_get (brHeld b) (v, u) = Some h \<and> T + H \<le> bhUntil h"
  using st
proof (cases rule: burst_stateE)
  case free
  have "S \<subseteq> shDocId ` set (hitsOf (v, u) b)" using free(6) by (auto simp: image_iff)
  then have "card S \<le> card (shDocId ` set (hitsOf (v, u) b))" by (rule card_mono [rotated]) simp
  also have "\<dots> \<le> length (hitsOf (v, u) b)" by (metis card_length length_map list.set_map)
  finally have le: "card S \<le> length (hitsOf (v, u) b)" .
  have "S \<noteq> {}" using S by auto
  then obtain l where l: "js_get (brHits b) (v, u) = Some l"
    using free(6) by (cases "js_get (brHits b) (v, u)") (auto simp: hitsOf_def)
  then have "int (length (hitsOf (v, u) b)) < n"
    using brake_invD(3) [OF free(1) l] free(2) by (simp add: hitsOf_def hits_ok_def)
  then show ?thesis using le S(2) by simp
qed blast

lemma finite_burstDocs [simp]: "finite (burstDocs u v es)"
  by (auto simp: burstDocs_def countedDocs_def split: brake_event.split)

text \<open>C29: a burst is stopped. Whoever sharply shrinks, as a plain client, as many distinct
  documents of one vault as the threshold, within one window, is held in that vault until the
  hold time has passed since the window began: whatever order the reports come in, whoever else
  reports, asks or is released meanwhile, however large the table of hits grows (the sweep at
  1,024 keys never drops a hit that still counts). The brake starts with no hold on that user
  that outlives the start, and the hold time is longer than the window.\<close>

theorem brake_stops_burst:
  assumes "brake_inv b" "0 < brThreshold b" "brWindowMs b < brHoldMs b" "u \<noteq> []"
    "\<not> fst (isHeld T (Some u) v b)"
    "\<forall>e \<in> set es. undisturbed u v e \<and> (\<exists>t. eventTime e = Some t \<and> T \<le> t \<and> t \<le> T + brWindowMs b)"
    "brThreshold b \<le> int (card (burstDocs u v es))"
    "t < T + brHoldMs b"
  shows "fst (isHeld t (Some u) v (fold (brakeStep hooks) es b))"
proof -
  have "bhUntil h \<le> T" if "js_get (brHeld b) (v, u) = Some h" for h
    using assms(4,5) that by (cases "bhUntil h \<le> T") (simp_all add: snd_isHeld holdOf_cases)
  then have "burst_state T (brThreshold b) (brWindowMs b) (brHoldMs b) u v {} b"
    using assms(1) by (intro burst_stateI) simp_all
  from burst_run [OF this assms(2,4,3,6)]
  have "burst_state T (brThreshold b) (brWindowMs b) (brHoldMs b) u v (burstDocs u v es) (fold (brakeStep hooks) es b)"
    by simp
  from burst_full_held [OF this finite_burstDocs assms(7,2)] obtain h
    where "js_get (brHeld (fold (brakeStep hooks) es b)) (v, u) = Some h" "T + brHoldMs b \<le> bhUntil h" by blast
  then show ?thesis using assms(4,8) by (simp add: snd_isHeld holdOf_cases)
qed

text \<open>Two users of one vault, interleaved: with a threshold of two, the second of ada's two sharp
  shrinks holds ada, though grace reports in between.\<close>

definition demoLong :: string where "demoLong = replicate 200 (CHR ''x'')"

definition demoBurst :: "brake_event list" where
  "demoBurst =
     [Reported 1000 ''v'' ''a'' demoLong '''' (Some ''ada'') None,
      Reported 1500 ''v'' ''a'' demoLong '''' (Some ''grace'') None,
      Reported 2000 ''v'' ''b'' demoLong '''' (Some ''ada'') None]"

lemma demoLong_sharp: "isSharpShrink demoLong ''''"
  by code_simp

lemma demoBurst_docs: "burstDocs ''ada'' ''v'' demoBurst = {''a'', ''b''}"
  by (simp add: demoBurst_def countedDocs_def demoLong_sharp) auto

definition allHooks :: shrink_hooks where
  "allHooks = \<lparr>hkShrink = True, hkGrow = True, hkBrake = True, hkRelease = True\<rparr>"

lemma newBrake_inv: "brake_inv (newBrake n w h)"
  by (rule brake_invI) (simp_all add: newBrake_def)

lemma newBrake_fields [simp]:
  "brThreshold (newBrake n w h) = n" "brWindowMs (newBrake n w h) = w" "brHoldMs (newBrake n w h) = h"
  "brHits (newBrake n w h) = []" "brHeld (newBrake n w h) = []" "brHeldDocs (newBrake n w h) = []"
  by (simp_all add: newBrake_def)

theorem brake_stops_burst_witness:
  "fst (isHeld 50000 (Some ''ada'') ''v'' (fold (brakeStep allHooks) demoBurst (newBrake 2 1000 60000)))"
proof (rule brake_stops_burst [where T = 1000])
  show "brThreshold (newBrake 2 1000 60000) \<le> int (card (burstDocs ''ada'' ''v'' demoBurst))"
    by (simp add: demoBurst_docs)
qed (simp_all add: newBrake_inv snd_isHeld holdOf_def brakeKey_def demoBurst_def undisturbed_def eventTime_def)

section \<open>A hold is earned\<close>

definition earned :: "string \<Rightarrow> string \<Rightarrow> string set \<Rightarrow> shrink_brake \<Rightarrow> bool" where
  "earned u v S b \<longleftrightarrow>
     shDocId ` set (hitsOf (v, u) b) \<subseteq> S \<and>
     (\<forall>docs. js_get (brHeldDocs b) (v, u) = Some docs \<longrightarrow> set docs \<subseteq> S)"

lemma earned_read: "earned u v S b \<Longrightarrow> earned u v S (snd (holdOf t u' v' b))"
  by (auto simp: earned_def hitsOf_def holdOf_def Let_def split: option.splits if_splits)

lemma hitsOf_prune_subset:
  "distinct (map fst (brHits b)) \<Longrightarrow> set (hitsOf k (pruneHits t b)) \<subseteq> set (hitsOf k b)"
  by (auto simp: hitsOf_def js_get_prune split: option.splits if_splits)

text \<open>The hits and the held documents of a key after a recorded shrink come from what was there
  and, for the recording key, the shrunk document.\<close>

lemma recordShrink_sources:
  assumes inv: "brake_inv b" and e: "earned u v S b" and k: "(v, u) = (v', u') \<Longrightarrow> d \<in> S"
  shows "earned u v S (snd (recordShrink t u' v' d b))"
proof (cases "brThreshold b > 0")
  case False
  then show ?thesis using e by (simp add: recordShrink_def)
next
  case pos: True
  show ?thesis
  proof (cases "fst (holdOf t (Some u') v' b)")
    case (Some h)
    then show ?thesis using e k
      by (auto simp: recordShrink_held [OF pos Some] earned_def hitsOf_def split: option.split)
  next
    case None
    let ?b1 = "snd (holdOf t (Some u') v' b)"
    have h: "holdOf t (Some u') v' b = (None, ?b1)" using None by (simp add: prod_eq_iff)
    have e1: "earned u v S ?b1" by (rule earned_read [OF e])
    let ?r = "recentHits t d (v', u') ?b1"
    let ?p = "?b1\<lparr>brHits := js_put (v', u') ?r (brHits ?b1)\<rparr>"
    have r: "shDocId ` set ?r \<subseteq> insert d (shDocId ` set (hitsOf (v', u') ?b1))"
      by (auto simp: recentHits_def hitsOf_def)
    have p: "shDocId ` set (hitsOf (v, u) ?p) \<subseteq> S"
    proof (cases "(v, u) = (v', u')")
      case True
      then show ?thesis using r e1 k by (auto simp: hitsOf_def earned_def)
    next
      case False
      then have "hitsOf (v, u) ?p = hitsOf (v, u) ?b1" by (auto simp: hitsOf_def)
      then show ?thesis using e1 by (simp add: earned_def)
    qed
    have "distinct (map fst (brHits ?p))" using brake_invD(1) [OF inv] by (simp add: distinct_update)
    from hitsOf_prune_subset [OF this, of "(v, u)" t]
    have q: "shDocId ` set (hitsOf (v, u) (pruneHits t ?p)) \<subseteq> S" using p by blast
    have rS: "(v, u) = (v', u') \<Longrightarrow> shDocId ` set ?r \<subseteq> S" using r e1 k by (auto simp: earned_def)
    show ?thesis
    proof (cases "int (length ?r) < brThreshold b")
      case True
      then show ?thesis using q e1 by (simp add: recordShrink_free [OF pos h] Let_def earned_def)
    next
      case False
      then show ?thesis using q e1 rS
        by (auto simp: recordShrink_free [OF pos h] Let_def earned_def hitsOf_def)
    qed
  qed
qed

lemma earned_mono: "earned u v S b \<Longrightarrow> S \<subseteq> S' \<Longrightarrow> earned u v S' b"
  unfolding earned_def by blast

lemma earned_step:
  assumes inv: "brake_inv b" and e: "earned u v S b"
  shows "earned u v (S \<union> countedDocs u v ev) (brakeStep hooks ev b)"
proof (cases ev)
  case (Reported t v' d x y u' src)
  show ?thesis
  proof (cases hooks t v' d x y u' src b rule: snd_reportShrink)
    case 1
    then show ?thesis using earned_mono [OF e] Reported by (simp add: brakeStep_def)
  next
    case (2 w)
    have "(v, u) = (v', w) \<Longrightarrow> d \<in> S \<union> countedDocs u v ev"
      using 2 Reported by (simp add: countedDocs_def)
    then have "earned u v (S \<union> countedDocs u v ev) (snd (recordShrink t w v' d b))"
      by (intro recordShrink_sources [OF inv] earned_mono [OF e]) auto
    then show ?thesis using 2(5) Reported earned_read by (auto simp: brakeStep_def)
  qed
next
  case (Asked t u' v')
  then show ?thesis using earned_read [OF e] by (simp add: brakeStep_def snd_isHeld countedDocs_def)
next
  case (Released t u' v')
  then show ?thesis using earned_read [OF e, of t "Some u'" v']
    by (auto simp: brakeStep_def releaseBrake_def isHeld_def brakeKey_def case_prod_beta Let_def earned_def
        hitsOf_def countedDocs_def)
next
  case (Configured a c d)
  then show ?thesis by (simp add: brakeStep_def configure_def earned_def hitsOf_def countedDocs_def)
qed

lemma earned_run:
  assumes "brake_inv b" "earned u v S b"
  shows "earned u v (S \<union> burstDocs u v es) (fold (brakeStep hooks) es b)"
  using assms
proof (induction es arbitrary: S b)
  case (Cons e es)
  from Cons.IH [OF brakeStep_inv [OF Cons.prems(1)] earned_step [OF Cons.prems], of e hooks]
  show ?case by (simp add: Un_assoc)
qed simp

text \<open>C30: a hold is earned. In any run of the brake, whatever the order of reports, reads,
  releases and reconfigurations, a hold that is in force on a user in a vault names distinct
  documents that this user sharply shrank in that vault, outside the server's own tools: as many
  as its count says, and at least the threshold in force.\<close>

theorem brake_hold_earned:
  assumes "fst (holdOf t (Some u) v (fold (brakeStep hooks) es (newBrake n w m))) = Some h"
  shows "\<exists>docs. distinct docs \<and> set docs \<subseteq> burstDocs u v es \<and> length docs = bhCount h \<and>
      0 < brThreshold (fold (brakeStep hooks) es (newBrake n w m)) \<and>
      brThreshold (fold (brakeStep hooks) es (newBrake n w m)) \<le> int (bhCount h)"
proof -
  let ?b = "fold (brakeStep hooks) es (newBrake n w m)"
  have "brake_inv ?b" by (rule brake.run_inv [OF newBrake_inv])
  then have ok: "hold_ok ?b (v, u) h" using holdOf_held [OF assms] by (blast dest: brake_invD(2))
  have "earned u v {} (newBrake n w m)" by (simp add: earned_def hitsOf_def)
  from earned_run [OF newBrake_inv this, of es hooks]
  have "earned u v (burstDocs u v es) ?b" by simp
  then show ?thesis using ok by (auto simp: hold_ok_def earned_def split: option.splits)
qed

theorem brake_hold_earned_witness:
  "\<exists>docs. distinct docs \<and> set docs \<subseteq> burstDocs ''ada'' ''v'' demoBurst \<and> length docs = 2"
proof -
  let ?b = "fold (brakeStep allHooks) demoBurst (newBrake 2 1000 60000)"
  have "fst (holdOf 3000 (Some ''ada'') ''v'' ?b) = Some \<lparr>bhUntil = 62000, bhCount = 2\<rparr>" by code_simp
  from brake_hold_earned [OF this] show ?thesis by auto
qed

section \<open>Holds are separate\<close>

lemma holdOf_depends:
  assumes "js_get (brHeld b') (v, u) = js_get (brHeld b) (v, u)"
  shows "fst (holdOf t (Some u) v b') = fst (holdOf t (Some u) v b)"
  using assms by (auto simp: holdOf_cases split: option.splits)

text \<open>Holds are separate. A report about another user or another vault, and a release of
  another pair, leave the hold of this user in this vault as it is: asked at any time afterwards, the
  brake answers as it would have without them.\<close>

theorem brake_holds_separate:
  assumes "(v', u') \<noteq> (v, u)"
  shows "fst (holdOf t (Some u) v (snd (reportShrink hooks t' v' d x y (Some u') src b))) = fst (holdOf t (Some u) v b) \<and>
     fst (holdOf t (Some u) v (snd (snd (releaseShrinkBrake hooks t' v' u' b)))) = fst (holdOf t (Some u) v b)"
proof
  have k: "(v, u) \<noteq> (v', u')" using assms by auto
  show "fst (holdOf t (Some u) v (snd (reportShrink hooks t' v' d x y (Some u') src b))) = fst (holdOf t (Some u) v b)"
  proof (rule holdOf_depends, cases hooks t' v' d x y "Some u'" src b rule: snd_reportShrink)
    case (2 w)
    then show "js_get (brHeld (snd (reportShrink hooks t' v' d x y (Some u') src b))) (v, u) = js_get (brHeld b) (v, u)"
      using recordShrink_frame(1) [OF k] holdOf_other [OF k] by auto
  qed simp
  show "fst (holdOf t (Some u) v (snd (snd (releaseShrinkBrake hooks t' v' u' b)))) = fst (holdOf t (Some u) v b)"
    using holdOf_other [OF k] k
    by (intro holdOf_depends)
       (auto simp: releaseShrinkBrake_def releaseBrake_def isHeld_def brakeKey_def case_prod_beta Let_def)
qed

theorem brake_holds_separate_witness:
  "fst (holdOf 3000 (Some ''ada'') ''v''
      (snd (snd (releaseShrinkBrake allHooks 2500 ''v'' ''grace''
        (fold (brakeStep allHooks) demoBurst (newBrake 2 1000 60000)))))) =
   fst (holdOf 3000 (Some ''ada'') ''v'' (fold (brakeStep allHooks) demoBurst (newBrake 2 1000 60000)))"
  using brake_holds_separate [of "''v''" "''grace''" "''v''" "''ada''"] by simp

end
