(* ===== verification/Bytes.thy ===== *)
theory Bytes
  imports Prelude "HOL-Library.Word"
begin

text \<open>
  Bytes, the fixed-width integers of a \<open>DataView\<close>, and the standard \<open>TextEncoder\<close> and
  \<open>TextDecoder\<close> on JavaScript strings given as UTF-16 code units: an unpaired surrogate is
  encoded as U+FFFD, malformed bytes are decoded to U+FFFD as the WHATWG decoder does, and a
  leading byte order mark is dropped by the decoder.
\<close>

section \<open>Bytes and integers\<close>

type_synonym bytes = "8 word list"
type_synonym text16 = "16 word list"

definition byte :: "nat \<Rightarrow> 8 word" where
  "byte n = word_of_nat n"

lemma unat_byte: "unat (byte n) = n mod 256"
  by (simp add: byte_def unat_of_nat take_bit_eq_mod)

lemma unat_byte_small [simp]: "n < 256 \<Longrightarrow> unat (byte n) = n"
  by (simp add: unat_byte)

lemma unat_lt_256 [simp]: "unat (b :: 8 word) < 256"
  using unsigned_less [of b] by simp

lemma byte_unat [simp]: "byte (unat b) = b"
  by (simp add: byte_def)

definition putU16BE :: "nat \<Rightarrow> bytes" where
  "putU16BE n = [byte (n div 256), byte n]"

definition putU16LE :: "nat \<Rightarrow> bytes" where
  "putU16LE n = [byte n, byte (n div 256)]"

definition putU32LE :: "nat \<Rightarrow> bytes" where
  "putU32LE n = [byte n, byte (n div 256), byte (n div 65536), byte (n div 16777216)]"

text \<open>Reading at an offset the caller has checked.\<close>

definition getU16BE :: "bytes \<Rightarrow> nat \<Rightarrow> nat" where
  "getU16BE bs i = unat (bs ! i) * 256 + unat (bs ! (i + 1))"

definition getU16LE :: "bytes \<Rightarrow> nat \<Rightarrow> nat" where
  "getU16LE bs i = unat (bs ! i) + unat (bs ! (i + 1)) * 256"

definition getU32LE :: "bytes \<Rightarrow> nat \<Rightarrow> nat" where
  "getU32LE bs i = unat (bs ! i) + unat (bs ! (i + 1)) * 256 + unat (bs ! (i + 2)) * 65536 +
     unat (bs ! (i + 3)) * 16777216"

lemma length_put [simp]: "length (putU16BE n) = 2" "length (putU16LE n) = 2" "length (putU32LE n) = 4"
  by (simp_all add: putU16BE_def putU16LE_def putU32LE_def)

lemma u16_split: "n < 65536 \<Longrightarrow> (n div 256) mod 256 * 256 + n mod 256 = (n::nat)"
  by simp

lemma u32_split:
  assumes "n < 4294967296"
  shows "n mod 256 + (n div 256) mod 256 * 256 + (n div 65536) mod 256 * 65536 +
    (n div 16777216) mod 256 * 16777216 = (n::nat)"
proof -
  let ?a = "n div 256" and ?b = "n div 256 div 256" and ?c = "n div 256 div 256 div 256"
  have q: "n div 65536 = ?b" "n div 16777216 = ?c" by (simp_all add: div_mult2_eq [symmetric])
  have "?c < 256" using assms by (simp add: div_mult2_eq [symmetric])
  then have c: "?c mod 256 = ?c" by simp
  have "n = 256 * ?a + n mod 256" "?a = 256 * ?b + ?a mod 256" "?b = 256 * ?c + ?b mod 256"
    by (simp_all only: mult_div_mod_eq)
  then show ?thesis unfolding q c by linarith
qed

lemma getU16BE_put:
  "n < 65536 \<Longrightarrow> length pre = i \<Longrightarrow> getU16BE (pre @ putU16BE n @ post) i = n"
  by (simp add: getU16BE_def putU16BE_def nth_append unat_byte)

lemma getU16LE_put:
  "n < 65536 \<Longrightarrow> length pre = i \<Longrightarrow> getU16LE (pre @ putU16LE n @ post) i = n"
  by (simp add: getU16LE_def putU16LE_def nth_append unat_byte)

lemma getU32LE_put:
  "n < 4294967296 \<Longrightarrow> length pre = i \<Longrightarrow> getU32LE (pre @ putU32LE n @ post) i = n"
  using u32_split [of n] by (simp add: getU32LE_def putU32LE_def nth_append unat_byte)

section \<open>UTF-16 and code points\<close>

definition highSurrogate :: "nat \<Rightarrow> bool" where
  "highSurrogate u \<longleftrightarrow> 0xD800 \<le> u \<and> u < 0xDC00"

definition lowSurrogate :: "nat \<Rightarrow> bool" where
  "lowSurrogate u \<longleftrightarrow> 0xDC00 \<le> u \<and> u < 0xE000"

text \<open>Code points of a string; an unpaired surrogate reads as U+FFFD.\<close>

fun codePoints :: "nat list \<Rightarrow> nat list" where
  "codePoints [] = []"
| "codePoints [u] = [if highSurrogate u \<or> lowSurrogate u then 0xFFFD else u]"
| "codePoints (u # v # us) =
     (if highSurrogate u \<and> lowSurrogate v
      then (0x10000 + (u - 0xD800) * 0x400 + (v - 0xDC00)) # codePoints us
      else (if highSurrogate u \<or> lowSurrogate u then 0xFFFD else u) # codePoints (v # us))"

fun wellFormed :: "nat list \<Rightarrow> bool" where
  "wellFormed [] = True"
| "wellFormed [u] = (\<not> highSurrogate u \<and> \<not> lowSurrogate u)"
| "wellFormed (u # v # us) =
     (if highSurrogate u \<and> lowSurrogate v then wellFormed us
      else \<not> highSurrogate u \<and> \<not> lowSurrogate u \<and> wellFormed (v # us))"

definition unitsOf :: "nat \<Rightarrow> nat list" where
  "unitsOf cp = (if cp < 0x10000 then [cp]
                 else [0xD800 + (cp - 0x10000) div 0x400, 0xDC00 + (cp - 0x10000) mod 0x400])"

definition scalar :: "nat \<Rightarrow> bool" where
  "scalar cp \<longleftrightarrow> cp < 0xD800 \<or> 0xE000 \<le> cp \<and> cp < 0x110000"

lemma codePoints_scalar:
  "\<forall>u \<in> set us. u < 65536 \<Longrightarrow> \<forall>cp \<in> set (codePoints us). scalar cp"
  by (induction us rule: codePoints.induct)
     (auto simp: scalar_def highSurrogate_def lowSurrogate_def)

lemma unitsOf_pair:
  assumes "highSurrogate u" "lowSurrogate v"
  shows "unitsOf (0x10000 + (u - 0xD800) * 0x400 + (v - 0xDC00)) = [u, v]"
proof -
  obtain a b where "u = 0xD800 + a" "v = 0xDC00 + b" "a < 0x400" "b < 0x400"
    using assms by (auto simp: highSurrogate_def lowSurrogate_def nat_le_iff_add)
  then show ?thesis by (simp add: unitsOf_def)
qed

lemma units_codePoints:
  "wellFormed us \<Longrightarrow> \<forall>u \<in> set us. u < 65536 \<Longrightarrow> concat (map unitsOf (codePoints us)) = us"
proof (induction us rule: wellFormed.induct)
  case (3 u v us)
  show ?case
  proof (cases "highSurrogate u \<and> lowSurrogate v")
    case True
    then show ?thesis using 3 unitsOf_pair by simp
  next
    case False
    then show ?thesis using 3 by (auto simp: unitsOf_def)
  qed
qed (simp_all add: unitsOf_def)

lemma codePoints_hd:
  "us \<noteq> [] \<Longrightarrow> hd us \<noteq> 0xFEFF \<Longrightarrow> codePoints us \<noteq> [] \<and> hd (codePoints us) \<noteq> 0xFEFF"
  by (induction us rule: codePoints.induct)
     (auto simp: highSurrogate_def lowSurrogate_def)

section \<open>UTF-8\<close>

definition encodeCp :: "nat \<Rightarrow> nat list" where
  "encodeCp cp =
     (if cp < 0x80 then [cp]
      else if cp < 0x800 then [0xC0 + cp div 64, 0x80 + cp mod 64]
      else if cp < 0x10000 then [0xE0 + cp div 4096, 0x80 + cp div 64 mod 64, 0x80 + cp mod 64]
      else [0xF0 + cp div 262144, 0x80 + cp div 4096 mod 64, 0x80 + cp div 64 mod 64, 0x80 + cp mod 64])"

text \<open>The decoder's state: bytes still needed, the code point so far, and the range of the next byte.\<close>

datatype utf8_state = Utf8 nat nat nat nat

abbreviation utf8_start :: utf8_state where
  "utf8_start \<equiv> Utf8 0 0 0x80 0xBF"

definition utf8_lead :: "nat \<Rightarrow> nat list \<times> utf8_state" where
  "utf8_lead b =
     (if b < 0x80 then ([b], utf8_start)
      else if 0xC2 \<le> b \<and> b \<le> 0xDF then ([], Utf8 1 (b - 0xC0) 0x80 0xBF)
      else if 0xE0 \<le> b \<and> b \<le> 0xEF
        then ([], Utf8 2 (b - 0xE0) (if b = 0xE0 then 0xA0 else 0x80) (if b = 0xED then 0x9F else 0xBF))
      else if 0xF0 \<le> b \<and> b \<le> 0xF4
        then ([], Utf8 3 (b - 0xF0) (if b = 0xF0 then 0x90 else 0x80) (if b = 0xF4 then 0x8F else 0xBF))
      else ([0xFFFD], utf8_start))"

fun utf8_step :: "utf8_state \<Rightarrow> nat \<Rightarrow> nat list \<times> utf8_state" where
  "utf8_step (Utf8 need cp lo hi) b =
     (if need = 0 then utf8_lead b
      else if lo \<le> b \<and> b \<le> hi then
        (if need = 1 then ([cp * 64 + (b - 0x80)], utf8_start)
         else ([], Utf8 (need - 1) (cp * 64 + (b - 0x80)) 0x80 0xBF))
      else (let (out, st) = utf8_lead b in (0xFFFD # out, st)))"

fun utf8_decode :: "utf8_state \<Rightarrow> nat list \<Rightarrow> nat list" where
  "utf8_decode (Utf8 need cp lo hi) [] = (if need = 0 then [] else [0xFFFD])"
| "utf8_decode st (b # bs) = (let (out, st') = utf8_step st b in out @ utf8_decode st' bs)"

definition textEncode :: "text16 \<Rightarrow> bytes" where
  "textEncode s = map byte (concat (map encodeCp (codePoints (map unat s))))"

definition textDecode :: "bytes \<Rightarrow> text16" where
  "textDecode bs =
     (let cps = utf8_decode utf8_start (map unat bs);
          cps' = (case cps of [] \<Rightarrow> [] | c # cs \<Rightarrow> if c = 0xFEFF then cs else cps)
      in map word_of_nat (concat (map unitsOf cps')))"

lemma encodeCp_bytes: "scalar cp \<Longrightarrow> \<forall>b \<in> set (encodeCp cp). b < 256"
  by (auto simp: encodeCp_def scalar_def)

lemma base64_digits:
  "(cp div 4096) * 4096 + cp div 64 mod 64 * 64 + cp mod 64 = (cp::nat)"
  "(cp div 262144) * 262144 + cp div 4096 mod 64 * 4096 + cp div 64 mod 64 * 64 + cp mod 64 = (cp::nat)"
proof -
  let ?a = "cp div 64" and ?b = "cp div 64 div 64" and ?c = "cp div 64 div 64 div 64"
  have q: "cp div 4096 = ?b" "cp div 262144 = ?c" by (simp_all add: div_mult2_eq [symmetric])
  have d: "cp = 64 * ?a + cp mod 64" "?a = 64 * ?b + ?a mod 64" "?b = 64 * ?c + ?b mod 64"
    by (simp_all only: mult_div_mod_eq)
  show "(cp div 4096) * 4096 + cp div 64 mod 64 * 64 + cp mod 64 = cp"
    unfolding q using d(1,2) by linarith
  show "(cp div 262144) * 262144 + cp div 4096 mod 64 * 4096 + cp div 64 mod 64 * 64 + cp mod 64 = cp"
    unfolding q using d by linarith
qed

text \<open>A scalar value is read back from its bytes, whatever follows.\<close>

lemma decode_encodeCp:
  assumes "scalar cp"
  shows "utf8_decode utf8_start (encodeCp cp @ rest) = cp # utf8_decode utf8_start rest"
proof -
  consider "cp < 0x80" | "0x80 \<le> cp" "cp < 0x800" | "0x800 \<le> cp" "cp < 0x10000" | "0x10000 \<le> cp" by linarith
  then show ?thesis
  proof cases
    case 1
    then show ?thesis by (simp add: encodeCp_def utf8_lead_def)
  next
    case 2
    then have "2 \<le> cp div 64" "cp div 64 < 32" by auto
    then show ?thesis using 2 by (simp add: encodeCp_def utf8_lead_def)
  next
    case 3
    have q: "cp div 4096 < 16" using 3 by simp
    have lo: "cp div 4096 = 0 \<Longrightarrow> 32 \<le> cp div 64 mod 64" using 3 base64_digits(1) [of cp] by linarith
    have hi: "cp div 4096 = 13 \<Longrightarrow> cp div 64 mod 64 \<le> 31" using assms 3 base64_digits(1) [of cp] unfolding scalar_def by linarith
    have m: "cp div 64 mod 64 < 64" by simp
    have val: "((cp div 4096) * 64 + cp div 64 mod 64) * 64 + cp mod 64 = cp"
      using base64_digits(1) [of cp] by (simp add: algebra_simps)
    define q0 where "q0 = cp div 4096"
    define m1 where "m1 = cp div 64 mod 64"
    define m0 where "m0 = cp mod 64"
    have f: "q0 < 16" "q0 = 0 \<Longrightarrow> 32 \<le> m1" "q0 = 13 \<Longrightarrow> m1 \<le> 31" "m1 < 64" "m0 < 64" "(q0 * 64 + m1) * 64 + m0 = cp"
      using q lo hi m val by (simp_all add: q0_def m1_def m0_def)
    have "encodeCp cp = [0xE0 + q0, 0x80 + m1, 0x80 + m0]" using 3 by (simp add: encodeCp_def q0_def m1_def m0_def)
    moreover have "utf8_lead (0xE0 + q0) =
        ([], Utf8 2 q0 (if q0 = 0 then 0xA0 else 0x80) (if q0 = 13 then 0x9F else 0xBF))"
      using f(1) by (simp add: utf8_lead_def)
    ultimately show ?thesis using f by simp
  next
    case 4
    have q: "cp div 262144 < 5" using assms 4 by (auto simp: scalar_def)
    have lo: "cp div 262144 = 0 \<Longrightarrow> 16 \<le> cp div 4096 mod 64" using 4 base64_digits(2) [of cp] by linarith
    have hi: "cp div 262144 = 4 \<Longrightarrow> cp div 4096 mod 64 \<le> 15" using assms 4 base64_digits(2) [of cp] unfolding scalar_def by linarith
    define q0 where "q0 = cp div 262144"
    define m2 where "m2 = cp div 4096 mod 64"
    define m1 where "m1 = cp div 64 mod 64"
    define m0 where "m0 = cp mod 64"
    have f: "q0 < 5" "q0 = 0 \<Longrightarrow> 16 \<le> m2" "q0 = 4 \<Longrightarrow> m2 \<le> 15" "m2 < 64" "m1 < 64" "m0 < 64"
      using q lo hi by (simp_all add: q0_def m2_def m1_def m0_def)
    have val: "((q0 * 64 + m2) * 64 + m1) * 64 + m0 = cp"
      using base64_digits(2) [of cp] by (simp add: q0_def m2_def m1_def m0_def algebra_simps)
    have "encodeCp cp = [0xF0 + q0, 0x80 + m2, 0x80 + m1, 0x80 + m0]"
      using 4 by (simp add: encodeCp_def q0_def m2_def m1_def m0_def)
    moreover have "utf8_lead (0xF0 + q0) =
        ([], Utf8 3 q0 (if q0 = 0 then 0x90 else 0x80) (if q0 = 4 then 0x8F else 0xBF))"
      using f(1) by (simp add: utf8_lead_def)
    ultimately show ?thesis using f val by simp
  qed
qed

lemma decode_encode_points:
  "\<forall>cp \<in> set cps. scalar cp \<Longrightarrow> utf8_decode utf8_start (concat (map encodeCp cps)) = cps"
  by (induction cps) (simp_all add: decode_encodeCp)

section \<open>Text that survives a round trip\<close>

text \<open>Well-formed UTF-16 that does not begin with a byte order mark.\<close>

definition cleanText :: "text16 \<Rightarrow> bool" where
  "cleanText s \<longleftrightarrow> wellFormed (map unat s) \<and> (s = [] \<or> unat (hd s) \<noteq> 0xFEFF)"

lemma text_roundtrip:
  assumes "cleanText s"
  shows "textDecode (textEncode s) = s"
proof -
  let ?us = "map unat s"
  have u: "\<forall>u \<in> set ?us. u < 65536" by (auto intro: less_le_trans [OF unsigned_less])
  have sc: "\<forall>cp \<in> set (codePoints ?us). scalar cp" by (rule codePoints_scalar [OF u])
  have "unat (byte b) = b" if "b \<in> set (concat (map encodeCp (codePoints ?us)))" for b
    using that sc encodeCp_bytes by (intro unat_byte_small) fastforce
  then have "map unat (textEncode s) = concat (map encodeCp (codePoints ?us))"
    unfolding textEncode_def map_map by (intro map_idI) (simp only: comp_apply)
  then have dec: "utf8_decode utf8_start (map unat (textEncode s)) = codePoints ?us"
    by (simp add: decode_encode_points [OF sc])
  have "s = [] \<or> codePoints ?us \<noteq> [] \<and> hd (codePoints ?us) \<noteq> 0xFEFF"
    using codePoints_hd [of ?us] assms by (auto simp: cleanText_def hd_map)
  then have "(case codePoints ?us of [] \<Rightarrow> [] | c # cs \<Rightarrow> if c = 0xFEFF then cs else codePoints ?us) = codePoints ?us"
    by (auto split: list.splits)
  then have "textDecode (textEncode s) = map word_of_nat (concat (map unitsOf (codePoints ?us)))"
    unfolding textDecode_def dec Let_def by simp
  also have "\<dots> = map word_of_nat ?us" using units_codePoints [OF _ u] assms by (simp add: cleanText_def)
  also have "\<dots> = s" by (simp add: map_idI)
  finally show ?thesis .
qed

end
