(* ===== verification/Key_Cache.thy ===== *)
theory Key_Cache
  imports Bytes
begin

text \<open>
  The server's in-memory vault key cache (\<open>server/src/crypto/key-cache.ts\<close>). Keys are mutable
  byte buffers, so the model keeps a store of the buffers the cache allocated and entries point
  into it: zeroing a buffer is visible. The release function \<open>acquire\<close> returns closes over one
  entry object; entries carry an identity and the handle names it. Time, in milliseconds, is an
  argument of what reads the clock.
\<close>

section \<open>State\<close>


definition KEY_BYTES :: nat where "KEY_BYTES = 32"
definition KEY_CACHE_GRACE_MS :: int where "KEY_CACHE_GRACE_MS = 10 * 60 * 1000"
definition REQUEST_KEY_HOLD_MS :: int where "REQUEST_KEY_HOLD_MS = 15 * 60 * 1000"

record key_entry =
  keId :: nat
  keBuf :: nat
  keGeneration :: int
  keRefs :: nat
  keExpiresAt :: "int option"
  keHeldUntil :: int

record key_handle =
  khVault :: string
  khEntry :: nat
  khReleased :: bool

record key_cache =
  kcGraceMs :: int
  kcEntries :: "(string, key_entry) js_map"
  kcBuffers :: "bytes list"
  kcNextId :: nat
  kcHandles :: "key_handle list"
  kcListeners :: "nat js_set"
  kcQueue :: "(nat \<times> string) list"

datatype key_error = WrongKeyLength | DifferentKey

definition newKeyCache :: "int option \<Rightarrow> key_cache" where
  "newKeyCache graceMs =
     \<lparr>kcGraceMs = (case graceMs of None \<Rightarrow> KEY_CACHE_GRACE_MS | Some g \<Rightarrow> g), kcEntries = [],
      kcBuffers = [], kcNextId = 0, kcHandles = [], kcListeners = [], kcQueue = []\<rparr>"

section \<open>Operations\<close>

text \<open>\<open>Buffer.from(key)\<close> allocates; \<open>key.fill(0)\<close> overwrites in place.\<close>

definition allocKey :: "bytes \<Rightarrow> key_cache \<Rightarrow> nat \<times> key_cache" where
  "allocKey key c = (length (kcBuffers c), c\<lparr>kcBuffers := kcBuffers c @ [key]\<rparr>)"

definition zeroKey :: "nat \<Rightarrow> key_cache \<Rightarrow> key_cache" where
  "zeroKey i c = c\<lparr>kcBuffers := (kcBuffers c)[i := replicate (length (kcBuffers c ! i)) 0]\<rparr>"

definition evictKey :: "string \<Rightarrow> key_cache \<Rightarrow> key_cache" where
  "evictKey vaultId c =
     (case js_get (kcEntries c) vaultId of
        None \<Rightarrow> c
      | Some e \<Rightarrow> (let c1 = zeroKey (keBuf e) c in c1\<lparr>kcEntries := js_remove vaultId (kcEntries c1)\<rparr>))"

definition keyDue :: "int \<Rightarrow> key_entry \<Rightarrow> bool" where
  "keyDue t e \<longleftrightarrow> keRefs e = 0 \<and> (case keExpiresAt e of None \<Rightarrow> False | Some x \<Rightarrow> t \<ge> x)"

definition sweepKeys :: "int \<Rightarrow> key_cache \<Rightarrow> key_cache" where
  "sweepKeys t c = fold (\<lambda>(v, e) c. if keyDue t e then evictKey v c else c) (kcEntries c) c"

definition clearKeys :: "key_cache \<Rightarrow> key_cache" where
  "clearKeys c = fold evictKey (js_keys (kcEntries c)) c"

definition notifyKeys :: "string \<Rightarrow> key_cache \<Rightarrow> key_cache" where
  "notifyKeys vaultId c = c\<lparr>kcQueue := kcQueue c @ map (\<lambda>l. (l, vaultId)) (kcListeners c)\<rparr>"

definition newEntry :: "string \<Rightarrow> bytes \<Rightarrow> int \<Rightarrow> int option \<Rightarrow> int \<Rightarrow> key_cache \<Rightarrow> key_cache" where
  "newEntry vaultId key generation expiresAt heldUntil c =
     (let (i, c1) = allocKey key c in
      c1\<lparr>kcEntries := js_put vaultId
            \<lparr>keId = kcNextId c1, keBuf = i, keGeneration = generation, keRefs = 0, keExpiresAt = expiresAt,
             keHeldUntil = heldUntil\<rparr> (kcEntries c1),
         kcNextId := Suc (kcNextId c1)\<rparr>)"

text \<open>Rotation: the old copy is zeroed and the entry points to a copy of the new key.\<close>

definition rotateKey :: "string \<Rightarrow> key_entry \<Rightarrow> bytes \<Rightarrow> int \<Rightarrow> key_cache \<Rightarrow> key_cache" where
  "rotateKey vaultId e key generation c =
     (let (i, c1) = allocKey key (zeroKey (keBuf e) c) in
      c1\<lparr>kcEntries := js_put vaultId (e\<lparr>keBuf := i, keGeneration := generation\<rparr>) (kcEntries c1)\<rparr>)"

definition acquireKey :: "int \<Rightarrow> string \<Rightarrow> bytes \<Rightarrow> int \<Rightarrow> key_cache \<Rightarrow> (key_error + nat) \<times> key_cache" where
  "acquireKey now vaultId key generation c =
     (if length key \<noteq> KEY_BYTES then (Inl WrongKeyLength, c)
      else
        (let c1 = sweepKeys now c;
             r = (case js_get (kcEntries c1) vaultId of
                    None \<Rightarrow> Inr (newEntry vaultId key generation None 0 c1)
                  | Some e \<Rightarrow>
                      if generation > keGeneration e then Inr (rotateKey vaultId e key generation c1)
                      else if generation = keGeneration e \<and> kcBuffers c1 ! keBuf e \<noteq> key then Inl DifferentKey
                      else Inr c1)
         in case r of
              Inl err \<Rightarrow> (Inl err, c1)
            | Inr c2 \<Rightarrow>
                (let e = the (js_get (kcEntries c2) vaultId);
                     c3 = c2\<lparr>kcEntries := js_put vaultId
                               (e\<lparr>keRefs := keRefs e + 1, keExpiresAt := None\<rparr>) (kcEntries c2)\<rparr>;
                     c4 = notifyKeys vaultId c3
                 in (Inr (length (kcHandles c4)),
                     c4\<lparr>kcHandles := kcHandles c4 @ [\<lparr>khVault = vaultId, khEntry = keId e, khReleased = False\<rparr>]\<rparr>))))"

definition releaseKey :: "int \<Rightarrow> nat \<Rightarrow> key_cache \<Rightarrow> key_cache" where
  "releaseKey now i c =
     (if i < length (kcHandles c) \<and> \<not> khReleased (kcHandles c ! i) then
        (let h = kcHandles c ! i;
             c1 = c\<lparr>kcHandles := (kcHandles c)[i := h\<lparr>khReleased := True\<rparr>]\<rparr>
         in case js_get (kcEntries c1) (khVault h) of
              None \<Rightarrow> c1
            | Some held \<Rightarrow>
                if keId held \<noteq> khEntry h then c1
                else
                  (let refs = keRefs held - 1;
                       held' = held\<lparr>keRefs := refs,
                         keExpiresAt := (if refs = 0 then Some (max (now + kcGraceMs c1) (keHeldUntil held))
                                         else keExpiresAt held)\<rparr>
                   in c1\<lparr>kcEntries := js_put (khVault h) held' (kcEntries c1)\<rparr>))
      else c)"

definition holdForRequest :: "int \<Rightarrow> string \<Rightarrow> bytes \<Rightarrow> int \<Rightarrow> int \<Rightarrow> key_cache \<Rightarrow> key_cache" where
  "holdForRequest now vaultId key generation holdMs c =
     (if length key \<noteq> KEY_BYTES then c
      else
        (let c1 = sweepKeys now c; until = now + holdMs in
         case js_get (kcEntries c1) vaultId of
           None \<Rightarrow> notifyKeys vaultId (newEntry vaultId key generation (Some until) until c1)
         | Some e \<Rightarrow>
             if generation = keGeneration e \<and> kcBuffers c1 ! keBuf e \<noteq> key then c1
             else if generation < keGeneration e then c1
             else
               (let c2 = (if generation > keGeneration e
                          then notifyKeys vaultId (rotateKey vaultId e key generation c1) else c1);
                    e2 = the (js_get (kcEntries c2) vaultId)
                in c2\<lparr>kcEntries := js_put vaultId
                     (e2\<lparr>keHeldUntil := max (keHeldUntil e2) until,
                        keExpiresAt := (if keRefs e2 = 0
                          then Some (max (case keExpiresAt e2 of None \<Rightarrow> 0 | Some x \<Rightarrow> x) until)
                          else keExpiresAt e2)\<rparr>) (kcEntries c2)\<rparr>)))"

definition getKey :: "int \<Rightarrow> string \<Rightarrow> key_cache \<Rightarrow> (bytes \<times> int) option \<times> key_cache" where
  "getKey now vaultId c =
     (let c1 = sweepKeys now c in
      (case js_get (kcEntries c1) vaultId of
         None \<Rightarrow> None
       | Some e \<Rightarrow> Some (kcBuffers c1 ! keBuf e, keGeneration e), c1))"

definition hasKey :: "int \<Rightarrow> string \<Rightarrow> key_cache \<Rightarrow> bool \<times> key_cache" where
  "hasKey now vaultId c = (let c1 = sweepKeys now c in (js_has (kcEntries c1) vaultId, c1))"

definition onAcquire :: "nat \<Rightarrow> key_cache \<Rightarrow> key_cache" where
  "onAcquire l c = c\<lparr>kcListeners := js_add l (kcListeners c)\<rparr>"

definition offAcquire :: "nat \<Rightarrow> key_cache \<Rightarrow> key_cache" where
  "offAcquire l c = c\<lparr>kcListeners := removeAll l (kcListeners c)\<rparr>"

datatype key_event =
    KAcquire int string bytes int
  | KRelease int nat
  | KHold int string bytes int int
  | KGet int string
  | KHas int string
  | KSweep int
  | KEvict string
  | KClear
  | KListen nat
  | KUnlisten nat

definition keyStep :: "key_event \<Rightarrow> key_cache \<Rightarrow> key_cache" where
  "keyStep ev c = (case ev of
       KAcquire t v k g \<Rightarrow> snd (acquireKey t v k g c)
     | KRelease t i \<Rightarrow> releaseKey t i c
     | KHold t v k g m \<Rightarrow> holdForRequest t v k g m c
     | KGet t v \<Rightarrow> snd (getKey t v c)
     | KHas t v \<Rightarrow> snd (hasKey t v c)
     | KSweep t \<Rightarrow> sweepKeys t c
     | KEvict v \<Rightarrow> evictKey v c
     | KClear \<Rightarrow> clearKeys c
     | KListen l \<Rightarrow> onAcquire l c
     | KUnlisten l \<Rightarrow> offAcquire l c)"

section \<open>The invariant\<close>

definition openRefs :: "nat \<Rightarrow> key_handle list \<Rightarrow> nat" where
  "openRefs i hs = length (filter (\<lambda>h. khEntry h = i \<and> \<not> khReleased h) hs)"

definition zeroed :: "bytes \<Rightarrow> bool" where
  "zeroed b \<longleftrightarrow> (\<forall>x \<in> set b. x = 0)"

text \<open>An entry owns a key-sized buffer, counts its open handles, which all name its vault, and
  expires exactly when nobody holds it, never before a request's hold is over.\<close>

definition entry_ok :: "key_cache \<Rightarrow> string \<Rightarrow> key_entry \<Rightarrow> bool" where
  "entry_ok c v e \<longleftrightarrow>
     keBuf e < length (kcBuffers c) \<and> length (kcBuffers c ! keBuf e) = KEY_BYTES \<and> keId e < kcNextId c \<and>
     keRefs e = openRefs (keId e) (kcHandles c) \<and>
     (\<forall>h \<in> set (kcHandles c). khEntry h = keId e \<longrightarrow> khVault h = v) \<and>
     (case keExpiresAt e of None \<Rightarrow> keRefs e > 0 | Some x \<Rightarrow> keRefs e = 0 \<and> keHeldUntil e \<le> x)"

definition owned :: "key_cache \<Rightarrow> nat \<Rightarrow> bool" where
  "owned c i \<longleftrightarrow> (\<exists>v e. js_get (kcEntries c) v = Some e \<and> keBuf e = i)"

definition key_inv :: "key_cache \<Rightarrow> bool" where
  "key_inv c \<longleftrightarrow>
     distinct (map fst (kcEntries c)) \<and>
     (\<forall>v e. js_get (kcEntries c) v = Some e \<longrightarrow> entry_ok c v e) \<and>
     (\<forall>v v' e e'. js_get (kcEntries c) v = Some e \<longrightarrow> js_get (kcEntries c) v' = Some e' \<longrightarrow>
        (keBuf e = keBuf e' \<or> keId e = keId e') \<longrightarrow> v = v') \<and>
     (\<forall>i < length (kcBuffers c). owned c i \<or> zeroed (kcBuffers c ! i)) \<and>
     (\<forall>h \<in> set (kcHandles c). khEntry h < kcNextId c)"

lemma key_invD:
  assumes "key_inv c"
  shows "distinct (map fst (kcEntries c))"
    "js_get (kcEntries c) v = Some e \<Longrightarrow> entry_ok c v e"
    "js_get (kcEntries c) v = Some e \<Longrightarrow> js_get (kcEntries c) v' = Some e' \<Longrightarrow> keBuf e = keBuf e' \<Longrightarrow> v = v'"
    "js_get (kcEntries c) v = Some e \<Longrightarrow> js_get (kcEntries c) v' = Some e' \<Longrightarrow> keId e = keId e' \<Longrightarrow> v = v'"
    "i < length (kcBuffers c) \<Longrightarrow> owned c i \<or> zeroed (kcBuffers c ! i)"
    "h \<in> set (kcHandles c) \<Longrightarrow> khEntry h < kcNextId c"
  using assms unfolding key_inv_def by blast+

lemma key_invI:
  assumes "distinct (map fst (kcEntries c))"
    "\<And>v e. js_get (kcEntries c) v = Some e \<Longrightarrow> entry_ok c v e"
    "\<And>v v' e e'. js_get (kcEntries c) v = Some e \<Longrightarrow> js_get (kcEntries c) v' = Some e' \<Longrightarrow>
        keBuf e = keBuf e' \<or> keId e = keId e' \<Longrightarrow> v = v'"
    "\<And>i. i < length (kcBuffers c) \<Longrightarrow> owned c i \<or> zeroed (kcBuffers c ! i)"
    "\<And>h. h \<in> set (kcHandles c) \<Longrightarrow> khEntry h < kcNextId c"
  shows "key_inv c"
  using assms unfolding key_inv_def by blast

section \<open>Every operation keeps the invariant\<close>

lemma openRefs_append [simp]:
  "openRefs i (hs @ [h]) = openRefs i hs + (if khEntry h = i \<and> \<not> khReleased h then 1 else 0)"
  by (simp add: openRefs_def)

lemma zeroed_replicate [simp]: "zeroed (replicate n 0)"
  by (simp add: zeroed_def)

lemma entry_ok_frame:
  assumes "entry_ok c v e" "length (kcBuffers c) \<le> length (kcBuffers c')"
    "kcBuffers c' ! keBuf e = kcBuffers c ! keBuf e" "kcNextId c \<le> kcNextId c'"
    "openRefs (keId e) (kcHandles c') = openRefs (keId e) (kcHandles c)"
    "\<forall>h \<in> set (kcHandles c'). khEntry h = keId e \<longrightarrow> khVault h = v"
  shows "entry_ok c' v e"
  using assms by (auto simp: entry_ok_def)

text \<open>Installing an entry for a vault beside entries that are untouched.\<close>

lemma install_inv:
  assumes inv: "key_inv c" and ent: "kcEntries c' = js_put v e' (kcEntries c)" and ok: "entry_ok c' v e'"
    and others: "\<And>v2 e2. v2 \<noteq> v \<Longrightarrow> js_get (kcEntries c) v2 = Some e2 \<Longrightarrow>
        entry_ok c' v2 e2 \<and> keBuf e2 \<noteq> keBuf e' \<and> keId e2 \<noteq> keId e'"
    and bufs: "\<And>i. i < length (kcBuffers c') \<Longrightarrow> i \<noteq> keBuf e' \<Longrightarrow>
        (\<exists>v2 e2. v2 \<noteq> v \<and> js_get (kcEntries c) v2 = Some e2 \<and> keBuf e2 = i) \<or> zeroed (kcBuffers c' ! i)"
    and hs: "\<And>h. h \<in> set (kcHandles c') \<Longrightarrow> khEntry h < kcNextId c'"
  shows "key_inv c'"
proof (rule key_invI)
  show "distinct (map fst (kcEntries c'))" using key_invD(1) [OF inv] by (simp add: ent distinct_update)
  show "entry_ok c' v2 e2" if "js_get (kcEntries c') v2 = Some e2" for v2 e2
    using that ok others by (cases "v2 = v") (auto simp: ent)
  show "v1 = v2" if "js_get (kcEntries c') v1 = Some e1" "js_get (kcEntries c') v2 = Some e2"
    "keBuf e1 = keBuf e2 \<or> keId e1 = keId e2" for v1 v2 e1 e2
  proof (cases "v1 = v \<or> v2 = v")
    case True
    then show ?thesis using that others [of v1 e1] others [of v2 e2] by (auto simp: ent split: if_splits)
  next
    case False
    then show ?thesis using that key_invD(3,4) [OF inv, of v1 e1 v2 e2] by (auto simp: ent)
  qed
  show "owned c' i \<or> zeroed (kcBuffers c' ! i)" if "i < length (kcBuffers c')" for i
  proof (cases "i = keBuf e'")
    case True
    then show ?thesis by (auto simp: owned_def ent)
  next
    case False
    from bufs [OF that this] show ?thesis
    proof
      assume "\<exists>v2 e2. v2 \<noteq> v \<and> js_get (kcEntries c) v2 = Some e2 \<and> keBuf e2 = i"
      then obtain v2 e2 where "v2 \<noteq> v" "js_get (kcEntries c) v2 = Some e2" "keBuf e2 = i" by blast
      then have "owned c' i" unfolding owned_def ent by (intro exI [of _ v2] exI [of _ e2]) simp
      then show ?thesis ..
    qed simp
  qed
qed (rule hs)

lemma evictKey_none: "js_get (kcEntries c) v = None \<Longrightarrow> evictKey v c = c"
  by (simp add: evictKey_def)

lemma evictKey_some:
  "js_get (kcEntries c) v = Some e \<Longrightarrow> evictKey v c =
     c\<lparr>kcBuffers := (kcBuffers c)[keBuf e := replicate (length (kcBuffers c ! keBuf e)) 0],
       kcEntries := js_remove v (kcEntries c)\<rparr>"
  by (simp add: evictKey_def zeroKey_def Let_def)

lemma evictKey_fields [simp]:
  "kcHandles (evictKey v c) = kcHandles c" "kcNextId (evictKey v c) = kcNextId c"
  "kcGraceMs (evictKey v c) = kcGraceMs c" "kcListeners (evictKey v c) = kcListeners c"
  "kcQueue (evictKey v c) = kcQueue c"
  by (cases "js_get (kcEntries c) v"; simp add: evictKey_none evictKey_some)+

lemma js_get_evict: "js_get (kcEntries (evictKey v c)) v' = (if v' = v then None else js_get (kcEntries c) v')"
  by (cases "js_get (kcEntries c) v") (auto simp: evictKey_none evictKey_some)

lemma evictKey_inv:
  assumes inv: "key_inv c"
  shows "key_inv (evictKey v c)"
proof (cases "js_get (kcEntries c) v")
  case None
  then show ?thesis using inv by (simp add: evictKey_none)
next
  case (Some e)
  let ?c = "evictKey v c"
  have other: "js_get (kcEntries c) v' = Some e'" "v' \<noteq> v" "keBuf e' \<noteq> keBuf e"
    if "js_get (kcEntries ?c) v' = Some e'" for v' e'
    using that key_invD(3) [OF inv, of v' e' v e] Some by (auto simp: js_get_evict split: if_splits)
  show ?thesis
  proof (rule key_invI)
    show "distinct (map fst (kcEntries ?c))"
      using key_invD(1) [OF inv] by (simp add: evictKey_some [OF Some] distinct_delete)
    show "entry_ok ?c v' e'" if "js_get (kcEntries ?c) v' = Some e'" for v' e'
      by (rule entry_ok_frame [OF key_invD(2) [OF inv other(1) [OF that]]])
         (use other(3) [OF that] key_invD(2) [OF inv other(1) [OF that]] in
           \<open>simp_all add: evictKey_some [OF Some] entry_ok_def\<close>)
    show "v1 = v2" if "js_get (kcEntries ?c) v1 = Some e1" "js_get (kcEntries ?c) v2 = Some e2"
      "keBuf e1 = keBuf e2 \<or> keId e1 = keId e2" for v1 v2 e1 e2
      using that(3) key_invD(3,4) [OF inv other(1) [OF that(1)] other(1) [OF that(2)]] by blast
    show "owned ?c i \<or> zeroed (kcBuffers ?c ! i)" if "i < length (kcBuffers ?c)" for i
    proof (cases "i = keBuf e")
      case True
      then show ?thesis using that by (simp add: evictKey_some [OF Some])
    next
      case False
      then have z: "kcBuffers ?c ! i = kcBuffers c ! i" by (simp add: evictKey_some [OF Some])
      have "i < length (kcBuffers c)" using that by (simp add: evictKey_some [OF Some])
      from key_invD(5) [OF inv this] show ?thesis
      proof
        assume "owned c i"
        then obtain v2 e2 where "js_get (kcEntries c) v2 = Some e2" "keBuf e2 = i" by (auto simp: owned_def)
        moreover from this have "v2 \<noteq> v" using False Some by auto
        ultimately have "owned ?c i" unfolding owned_def js_get_evict by (intro exI [of _ v2] exI [of _ e2]) simp
        then show ?thesis ..
      qed (simp add: z)
    qed
    show "khEntry h < kcNextId ?c" if "h \<in> set (kcHandles ?c)" for h
      using that key_invD(6) [OF inv] by simp
  qed
qed

lemma sweepKeys_inv: "key_inv c \<Longrightarrow> key_inv (sweepKeys t c)"
  unfolding sweepKeys_def by (rule fold_invariant_mem) (auto simp: evictKey_inv split: prod.splits)

lemma clearKeys_inv: "key_inv c \<Longrightarrow> key_inv (clearKeys c)"
  unfolding clearKeys_def by (rule fold_invariant_mem) (auto simp: evictKey_inv)

text \<open>The sweep removes the entries that are due, and only those; it looks each one up as it was.\<close>

lemma fold_sweep_get:
  "distinct (map fst xs) \<Longrightarrow>
   js_get (kcEntries (fold (\<lambda>(v, e) c. if keyDue t e then evictKey v c else c) xs c)) v =
     (case js_get xs v of None \<Rightarrow> js_get (kcEntries c) v
      | Some e \<Rightarrow> if keyDue t e then None else js_get (kcEntries c) v)"
proof (induction xs arbitrary: c)
  case (Cons p xs)
  obtain w e where p: "p = (w, e)" by (cases p)
  have "w \<notin> fst ` set xs" using Cons.prems p by simp
  then have "js_get xs w = None" by (simp add: map_of_eq_None_iff)
  then show ?case using Cons by (auto simp: p js_get_evict split: option.splits)
qed simp

lemma js_get_sweep:
  "distinct (map fst (kcEntries c)) \<Longrightarrow>
   js_get (kcEntries (sweepKeys t c)) v =
     (case js_get (kcEntries c) v of None \<Rightarrow> None | Some e \<Rightarrow> if keyDue t e then None else Some e)"
  unfolding sweepKeys_def by (subst fold_sweep_get) (auto split: option.splits)

lemma sweepKeys_fields [simp]:
  "kcHandles (sweepKeys t c) = kcHandles c" "kcNextId (sweepKeys t c) = kcNextId c"
  "kcGraceMs (sweepKeys t c) = kcGraceMs c" "kcListeners (sweepKeys t c) = kcListeners c"
  "kcQueue (sweepKeys t c) = kcQueue c"
  unfolding sweepKeys_def by (rule fold_measure_eq; auto split: prod.splits)+

text \<open>What installing does to the other entries, with at most a new buffer and a new handle.\<close>

definition holderOf :: "string \<Rightarrow> nat \<Rightarrow> key_handle" where
  "holderOf v i = \<lparr>khVault = v, khEntry = i, khReleased = False\<rparr>"

lemma install_new:
  assumes inv: "key_inv c" and none: "js_get (kcEntries c) v = None" and len: "length key = KEY_BYTES"
    and "kcEntries c' = js_put v e' (kcEntries c)" "kcBuffers c' = kcBuffers c @ [key]"
    "kcNextId c' = Suc (kcNextId c)" "keId e' = kcNextId c" "keBuf e' = length (kcBuffers c)"
    and hs: "kcHandles c' = kcHandles c @ hs" "hs = [] \<and> keRefs e' = 0 \<or> hs = [holderOf v (kcNextId c)] \<and> keRefs e' = 1"
    and ex: "case keExpiresAt e' of None \<Rightarrow> keRefs e' > 0 | Some x \<Rightarrow> keRefs e' = 0 \<and> keHeldUntil e' \<le> x"
  shows "key_inv c'"
proof (rule install_inv [OF inv, of c' v e'])
  have fresh: "khEntry h \<noteq> kcNextId c" if "h \<in> set (kcHandles c)" for h
    using key_invD(6) [OF inv that] by simp
  then have z: "openRefs (kcNextId c) (kcHandles c) = 0" by (simp add: openRefs_def filter_empty_conv)
  show "entry_ok c' v e'"
    using assms(5-8) hs ex len fresh z by (auto simp: entry_ok_def holderOf_def)
  show "entry_ok c' v2 e2 \<and> keBuf e2 \<noteq> keBuf e' \<and> keId e2 \<noteq> keId e'"
    if "v2 \<noteq> v" "js_get (kcEntries c) v2 = Some e2" for v2 e2
  proof -
    have ok: "entry_ok c v2 e2" by (rule key_invD(2) [OF inv that(2)])
    then have lt: "keId e2 < kcNextId c" "keBuf e2 < length (kcBuffers c)" by (simp_all add: entry_ok_def)
    have "entry_ok c' v2 e2"
      by (rule entry_ok_frame [OF ok])
         (use assms(5,6) hs lt ok in \<open>auto simp: nth_append holderOf_def entry_ok_def openRefs_def\<close>)
    then show ?thesis using lt assms(7,8) by simp
  qed
  show "(\<exists>v2 e2. v2 \<noteq> v \<and> js_get (kcEntries c) v2 = Some e2 \<and> keBuf e2 = i) \<or> zeroed (kcBuffers c' ! i)"
    if "i < length (kcBuffers c')" "i \<noteq> keBuf e'" for i
  proof -
    have "i < length (kcBuffers c)" using that assms(5,8) by simp
    from key_invD(5) [OF inv this] show ?thesis
    proof
      assume "owned c i"
      then obtain v2 e2 where "js_get (kcEntries c) v2 = Some e2" "keBuf e2 = i" by (auto simp: owned_def)
      moreover from this have "v2 \<noteq> v" using none by auto
      ultimately show ?thesis by blast
    qed (use \<open>i < length (kcBuffers c)\<close> assms(5) in \<open>simp add: nth_append\<close>)
  qed
  show "khEntry h < kcNextId c'" if "h \<in> set (kcHandles c')" for h
    using that assms(6) hs key_invD(6) [OF inv, of h] by (auto simp: holderOf_def)
qed (use assms in simp)

text \<open>Replacing the entry of a vault, keeping its identity: the buffer stays, or is zeroed and
  exchanged for a new one.\<close>

lemma install_over:
  assumes inv: "key_inv c" and some: "js_get (kcEntries c) v = Some e"
    and ent: "kcEntries c' = js_put v e' (kcEntries c)" "kcNextId c' = kcNextId c" "keId e' = keId e"
    and bufs: "kcBuffers c' = kcBuffers c \<and> keBuf e' = keBuf e \<or>
        (\<exists>key. length key = KEY_BYTES \<and> keBuf e' = length (kcBuffers c) \<and>
           kcBuffers c' = (kcBuffers c)[keBuf e := replicate (length (kcBuffers c ! keBuf e)) 0] @ [key])"
    and hs: "keRefs e' = openRefs (keId e) (kcHandles c')"
      "\<And>i. i \<noteq> keId e \<Longrightarrow> openRefs i (kcHandles c') = openRefs i (kcHandles c)"
      "\<And>h. h \<in> set (kcHandles c') \<Longrightarrow>
         (\<exists>h0 \<in> set (kcHandles c). khEntry h = khEntry h0 \<and> khVault h = khVault h0) \<or> khEntry h = keId e \<and> khVault h = v"
    and ex: "case keExpiresAt e' of None \<Rightarrow> keRefs e' > 0 | Some x \<Rightarrow> keRefs e' = 0 \<and> keHeldUntil e' \<le> x"
  shows "key_inv c'"
proof (rule install_inv [OF inv, of c' v e'])
  have ok: "entry_ok c v e" by (rule key_invD(2) [OF inv some])
  then have lt: "keId e < kcNextId c" "keBuf e < length (kcBuffers c)" by (simp_all add: entry_ok_def)
  have hv: "khVault h = v" if "h \<in> set (kcHandles c')" "khEntry h = keId e" for h
    using hs(3) [OF that(1)] ok that(2) by (auto simp: entry_ok_def)
  show "entry_ok c' v e'"
    using bufs lt ok hs(1) hv ex ent(2,3) by (auto simp: entry_ok_def nth_append)
  show "entry_ok c' v2 e2 \<and> keBuf e2 \<noteq> keBuf e' \<and> keId e2 \<noteq> keId e'"
    if "v2 \<noteq> v" "js_get (kcEntries c) v2 = Some e2" for v2 e2
  proof -
    have ok2: "entry_ok c v2 e2" by (rule key_invD(2) [OF inv that(2)])
    have lt2: "keBuf e2 < length (kcBuffers c)" using ok2 by (simp add: entry_ok_def)
    have ne: "keBuf e2 \<noteq> keBuf e" "keId e2 \<noteq> keId e"
      using key_invD(3,4) [OF inv that(2) some] that(1) by blast+
    have hv2: "khVault h = v2" if "h \<in> set (kcHandles c')" "khEntry h = keId e2" for h
      using hs(3) [OF that(1)] ok2 that(2) ne by (auto simp: entry_ok_def)
    have "entry_ok c' v2 e2"
      by (rule entry_ok_frame [OF ok2])
         (use bufs lt2 ne ent(2) hs(2) hv2 in \<open>auto simp: nth_append\<close>)
    then show ?thesis using ne bufs ent(3) lt2 by auto
  qed
  show "(\<exists>v2 e2. v2 \<noteq> v \<and> js_get (kcEntries c) v2 = Some e2 \<and> keBuf e2 = i) \<or> zeroed (kcBuffers c' ! i)"
    if i: "i < length (kcBuffers c')" "i \<noteq> keBuf e'" for i
  proof (cases "i = keBuf e")
    case True
    then show ?thesis using bufs i lt by (auto simp: nth_append)
  next
    case False
    have il: "i < length (kcBuffers c)" using i bufs by auto
    have same: "kcBuffers c' ! i = kcBuffers c ! i" using bufs il False by (auto simp: nth_append)
    from key_invD(5) [OF inv il] show ?thesis
    proof
      assume "owned c i"
      then obtain v2 e2 where "js_get (kcEntries c) v2 = Some e2" "keBuf e2 = i" by (auto simp: owned_def)
      moreover from this have "v2 \<noteq> v" using False some by auto
      ultimately show ?thesis by blast
    qed (simp add: same)
  qed
  show "khEntry h < kcNextId c'" if "h \<in> set (kcHandles c')" for h
    using hs(3) [OF that] lt(1) key_invD(6) [OF inv] ent(2) by auto
qed (use ent in simp)

section \<open>The operations by cases\<close>

definition keyTaken :: "key_entry \<Rightarrow> key_entry" where
  "keyTaken e = e\<lparr>keRefs := keRefs e + 1, keExpiresAt := None\<rparr>"

definition keyHeld :: "int \<Rightarrow> key_entry \<Rightarrow> key_entry" where
  "keyHeld until e = e\<lparr>keHeldUntil := max (keHeldUntil e) until,
     keExpiresAt := (if keRefs e = 0 then Some (max (case keExpiresAt e of None \<Rightarrow> 0 | Some x \<Rightarrow> x) until)
                     else keExpiresAt e)\<rparr>"

definition putNew :: "string \<Rightarrow> bytes \<Rightarrow> int \<Rightarrow> int option \<Rightarrow> int \<Rightarrow> key_cache \<Rightarrow> key_entry" where
  "putNew v key g x u c = \<lparr>keId = kcNextId c, keBuf = length (kcBuffers c), keGeneration = g, keRefs = 0,
     keExpiresAt = x, keHeldUntil = u\<rparr>"

definition putRotated :: "key_entry \<Rightarrow> int \<Rightarrow> key_cache \<Rightarrow> key_entry" where
  "putRotated e g c = e\<lparr>keBuf := length (kcBuffers c), keGeneration := g\<rparr>"

lemma newEntry_eq:
  "newEntry v key g x u c = c\<lparr>kcBuffers := kcBuffers c @ [key],
     kcEntries := js_put v (putNew v key g x u c) (kcEntries c), kcNextId := Suc (kcNextId c)\<rparr>"
  by (simp add: newEntry_def allocKey_def putNew_def Let_def)

lemma rotateKey_eq:
  "rotateKey v e key g c =
     c\<lparr>kcBuffers := (kcBuffers c)[keBuf e := replicate (length (kcBuffers c ! keBuf e)) 0] @ [key],
       kcEntries := js_put v (putRotated e g c) (kcEntries c)\<rparr>"
  by (simp add: rotateKey_def allocKey_def zeroKey_def putRotated_def Let_def)

text \<open>The state an \<open>acquire\<close> or a request's hold works on, after the sweep, and what it leaves:
  refused, a new entry, a rotated one, or the one there.\<close>

lemma acquireKey_cases:
  fixes c now v key g
  defines "c1 \<equiv> sweepKeys now c"
  obtains (bad) "length key \<noteq> KEY_BYTES" "acquireKey now v key g c = (Inl WrongKeyLength, c)"
    | (new) "length key = KEY_BYTES" "js_get (kcEntries c1) v = None"
      "acquireKey now v key g c = (Inr (length (kcHandles c)),
         c1\<lparr>kcBuffers := kcBuffers c1 @ [key],
            kcEntries := js_put v (keyTaken (putNew v key g None 0 c1)) (kcEntries c1),
            kcNextId := Suc (kcNextId c1), kcHandles := kcHandles c1 @ [holderOf v (kcNextId c1)],
            kcQueue := kcQueue c1 @ map (\<lambda>l. (l, v)) (kcListeners c1)\<rparr>)"
    | (rotated) e where "length key = KEY_BYTES" "js_get (kcEntries c1) v = Some e" "g > keGeneration e"
      "acquireKey now v key g c = (Inr (length (kcHandles c)),
         c1\<lparr>kcBuffers := (kcBuffers c1)[keBuf e := replicate (length (kcBuffers c1 ! keBuf e)) 0] @ [key],
            kcEntries := js_put v (keyTaken (putRotated e g c1)) (kcEntries c1),
            kcHandles := kcHandles c1 @ [holderOf v (keId e)],
            kcQueue := kcQueue c1 @ map (\<lambda>l. (l, v)) (kcListeners c1)\<rparr>)"
    | (refused) e where "js_get (kcEntries c1) v = Some e" "g = keGeneration e" "kcBuffers c1 ! keBuf e \<noteq> key"
      "acquireKey now v key g c = (Inl DifferentKey, c1)"
    | (kept) e where "length key = KEY_BYTES" "js_get (kcEntries c1) v = Some e"
      "g < keGeneration e \<or> g = keGeneration e \<and> kcBuffers c1 ! keBuf e = key"
      "acquireKey now v key g c = (Inr (length (kcHandles c)),
         c1\<lparr>kcEntries := js_put v (keyTaken e) (kcEntries c1),
            kcHandles := kcHandles c1 @ [holderOf v (keId e)],
            kcQueue := kcQueue c1 @ map (\<lambda>l. (l, v)) (kcListeners c1)\<rparr>)"
proof (cases "length key = KEY_BYTES")
  case False
  then show thesis by (intro bad) (simp_all add: acquireKey_def)
next
  case len: True
  show thesis
  proof (cases "js_get (kcEntries c1) v")
    case None
    then show thesis
      by (intro new [OF len])
         (simp_all add: acquireKey_def len Let_def c1_def newEntry_eq notifyKeys_def keyTaken_def putNew_def holderOf_def)
  next
    case (Some e)
    consider "g > keGeneration e" | "g = keGeneration e" "kcBuffers c1 ! keBuf e \<noteq> key"
      | "g < keGeneration e \<or> g = keGeneration e \<and> kcBuffers c1 ! keBuf e = key" by linarith
    then show thesis
    proof cases
      case 1
      then show thesis using Some
        by (intro rotated [OF len Some])
           (simp_all add: acquireKey_def len Let_def c1_def rotateKey_eq notifyKeys_def keyTaken_def
              putRotated_def holderOf_def)
    next
      case 2
      then show thesis using Some
        by (intro refused [OF Some]) (simp_all add: acquireKey_def len Let_def c1_def)
    next
      case 3
      then show thesis using Some
        by (intro kept [OF len Some])
           (auto simp: acquireKey_def len Let_def c1_def notifyKeys_def keyTaken_def holderOf_def)
    qed
  qed
qed

lemma holdForRequest_cases:
  fixes c now v key g m
  defines "c1 \<equiv> sweepKeys now c"
  obtains (bad) "length key \<noteq> KEY_BYTES" "holdForRequest now v key g m c = c"
    | (new) "length key = KEY_BYTES" "js_get (kcEntries c1) v = None"
      "holdForRequest now v key g m c =
         c1\<lparr>kcBuffers := kcBuffers c1 @ [key],
            kcEntries := js_put v (putNew v key g (Some (now + m)) (now + m) c1) (kcEntries c1),
            kcNextId := Suc (kcNextId c1),
            kcQueue := kcQueue c1 @ map (\<lambda>l. (l, v)) (kcListeners c1)\<rparr>"
    | (rotated) e where "length key = KEY_BYTES" "js_get (kcEntries c1) v = Some e" "g > keGeneration e"
      "holdForRequest now v key g m c =
         c1\<lparr>kcBuffers := (kcBuffers c1)[keBuf e := replicate (length (kcBuffers c1 ! keBuf e)) 0] @ [key],
            kcEntries := js_put v (keyHeld (now + m) (putRotated e g c1)) (kcEntries c1),
            kcQueue := kcQueue c1 @ map (\<lambda>l. (l, v)) (kcListeners c1)\<rparr>"
    | (ignored) e where "js_get (kcEntries c1) v = Some e"
      "g < keGeneration e \<or> g = keGeneration e \<and> kcBuffers c1 ! keBuf e \<noteq> key"
      "holdForRequest now v key g m c = c1"
    | (kept) e where "length key = KEY_BYTES" "js_get (kcEntries c1) v = Some e"
      "g = keGeneration e" "kcBuffers c1 ! keBuf e = key"
      "holdForRequest now v key g m c = c1\<lparr>kcEntries := js_put v (keyHeld (now + m) e) (kcEntries c1)\<rparr>"
proof (cases "length key = KEY_BYTES")
  case False
  then show thesis by (intro bad) (simp_all add: holdForRequest_def)
next
  case len: True
  show thesis
  proof (cases "js_get (kcEntries c1) v")
    case None
    then show thesis
      by (intro new [OF len])
         (simp_all add: holdForRequest_def len Let_def c1_def newEntry_eq notifyKeys_def putNew_def)
  next
    case (Some e)
    consider "g > keGeneration e" | "g < keGeneration e \<or> g = keGeneration e \<and> kcBuffers c1 ! keBuf e \<noteq> key"
      | "g = keGeneration e" "kcBuffers c1 ! keBuf e = key" by linarith
    then show thesis
    proof cases
      case 1
      then show thesis using Some
        by (intro rotated [OF len Some])
           (simp_all add: holdForRequest_def len Let_def c1_def rotateKey_eq notifyKeys_def keyHeld_def
              putRotated_def)
    next
      case 2
      then show thesis using Some
        by (intro ignored [OF Some]) (auto simp: holdForRequest_def len Let_def c1_def)
    next
      case 3
      then show thesis using Some
        by (intro kept [OF len Some]) (simp_all add: holdForRequest_def len Let_def c1_def keyHeld_def)
    qed
  qed
qed

end
