(* ===== verification/Key_Cache_Props.thy ===== *)
theory Key_Cache_Props
  imports Key_Cache
begin

text \<open>
  What the key cache promises, over every run of its operations: no key material outlives the
  entry that held it; a connection's key stays available until it releases it; a request's key
  stays for its hold whatever connections do meanwhile.
\<close>

section \<open>The invariant is kept\<close>

lemma openRefs_Cons:
  "openRefs j (h # hs) = (if khEntry h = j \<and> \<not> khReleased h then 1 else 0) + openRefs j hs"
  by (simp add: openRefs_def)

lemma openRefs_replace:
  assumes "i < length hs" "khEntry h = khEntry (hs ! i)"
  shows "openRefs j (hs[i := h]) + (if khEntry h = j \<and> \<not> khReleased (hs ! i) then 1 else 0) =
    openRefs j hs + (if khEntry h = j \<and> \<not> khReleased h then 1 else 0)"
  using assms
proof (induction hs arbitrary: i)
  case (Cons a hs)
  show ?case
  proof (cases i)
    case 0
    then show ?thesis using Cons.prems by (simp add: openRefs_Cons)
  next
    case (Suc n)
    then show ?thesis using Cons.IH [of n] Cons.prems by (simp add: openRefs_Cons)
  qed
qed simp

lemma entry_expiry:
  assumes "entry_ok c v e"
  shows "keRefs e = 0 \<Longrightarrow> \<exists>x. keExpiresAt e = Some x \<and> keHeldUntil e \<le> x"
    "keRefs e > 0 \<Longrightarrow> keExpiresAt e = None"
  using assms by (auto simp: entry_ok_def split: option.splits)

lemma acquireKey_inv:
  assumes "key_inv c"
  shows "key_inv (snd (acquireKey now v key g c))"
proof (rule acquireKey_cases [where c = c and now = now and v = v and key = key and g = g], goal_cases bad new rotated refused kept)
  case new
  show ?thesis
    by (rule install_new [OF sweepKeys_inv [OF assms] new(2,1), of _ "keyTaken (putNew v key g None 0 (sweepKeys now c))"
          "[holderOf v (kcNextId (sweepKeys now c))]"])
       (simp_all add: new(3) keyTaken_def putNew_def)
next
  case (rotated e)
  have ok: "entry_ok (sweepKeys now c) v e" by (rule key_invD(2) [OF sweepKeys_inv [OF assms] rotated(2)])
  show ?thesis
    by (rule install_over [OF sweepKeys_inv [OF assms] rotated(2), of _ "keyTaken (putRotated e g (sweepKeys now c))"])
       (use ok rotated(1) in \<open>auto simp: rotated(4) keyTaken_def putRotated_def entry_ok_def holderOf_def\<close>)
next
  case (kept e)
  have ok: "entry_ok (sweepKeys now c) v e" by (rule key_invD(2) [OF sweepKeys_inv [OF assms] kept(2)])
  show ?thesis
    by (rule install_over [OF sweepKeys_inv [OF assms] kept(2), of _ "keyTaken e"])
       (use ok in \<open>auto simp: kept(4) keyTaken_def entry_ok_def holderOf_def\<close>)
qed (simp_all add: assms sweepKeys_inv)

definition expiry_ok :: "key_entry \<Rightarrow> bool" where
  "expiry_ok e \<longleftrightarrow> (case keExpiresAt e of None \<Rightarrow> keRefs e > 0 | Some x \<Rightarrow> keRefs e = 0 \<and> keHeldUntil e \<le> x)"

lemma entry_ok_expiry: "entry_ok c v e \<Longrightarrow> expiry_ok e"
  by (simp add: entry_ok_def expiry_ok_def)

lemma keyHeld_expiry: "expiry_ok e \<Longrightarrow> expiry_ok (keyHeld u e)"
  by (auto simp: expiry_ok_def keyHeld_def split: option.splits)

lemma keyHeld_fields [simp]:
  "keId (keyHeld u e) = keId e" "keBuf (keyHeld u e) = keBuf e" "keRefs (keyHeld u e) = keRefs e"
  "keGeneration (keyHeld u e) = keGeneration e" "keHeldUntil (keyHeld u e) = max (keHeldUntil e) u"
  by (simp_all add: keyHeld_def)

lemma keyTaken_fields [simp]:
  "keId (keyTaken e) = keId e" "keBuf (keyTaken e) = keBuf e" "keGeneration (keyTaken e) = keGeneration e"
  "keHeldUntil (keyTaken e) = keHeldUntil e"
  by (simp_all add: keyTaken_def)

lemma putRotated_fields [simp]:
  "keId (putRotated e g c) = keId e" "keBuf (putRotated e g c) = length (kcBuffers c)"
  "keRefs (putRotated e g c) = keRefs e" "keGeneration (putRotated e g c) = g"
  "keHeldUntil (putRotated e g c) = keHeldUntil e" "keExpiresAt (putRotated e g c) = keExpiresAt e"
  by (simp_all add: putRotated_def)

lemma holdForRequest_inv:
  assumes "key_inv c"
  shows "key_inv (holdForRequest now v key g m c)"
proof (rule holdForRequest_cases [where c = c and now = now and v = v and key = key and g = g and m = m], goal_cases bad new rotated ignored kept)
  case new
  show ?thesis
    by (rule install_new [OF sweepKeys_inv [OF assms] new(2,1), of _ "putNew v key g (Some (now + m)) (now + m) (sweepKeys now c)" "[]"])
       (simp_all add: new(3) putNew_def)
next
  case (rotated e)
  have ok: "entry_ok (sweepKeys now c) v e" by (rule key_invD(2) [OF sweepKeys_inv [OF assms] rotated(2)])
  have "expiry_ok (putRotated e g (sweepKeys now c))"
    using entry_ok_expiry [OF ok] by (auto simp: expiry_ok_def split: option.splits)
  note x = keyHeld_expiry [OF this, unfolded expiry_ok_def]
  show ?thesis
    by (rule install_over [OF sweepKeys_inv [OF assms] rotated(2),
          of _ "keyHeld (now + m) (putRotated e g (sweepKeys now c))"])
       (use ok rotated(1) x in \<open>auto simp: rotated(4) entry_ok_def\<close>)
next
  case (kept e)
  have ok: "entry_ok (sweepKeys now c) v e" by (rule key_invD(2) [OF sweepKeys_inv [OF assms] kept(2)])
  show ?thesis
    by (rule install_over [OF sweepKeys_inv [OF assms] kept(2), of _ "keyHeld (now + m) e"])
       (use ok keyHeld_expiry [OF entry_ok_expiry [OF ok], unfolded expiry_ok_def] in
          \<open>auto simp: kept(5) entry_ok_def\<close>)
qed (simp_all add: assms sweepKeys_inv)

text \<open>\<open>release\<close> by cases: it does nothing, it only marks the handle because the entry is another
  one by now, or it lets go of the entry.\<close>

definition keyLetGo :: "int \<Rightarrow> int \<Rightarrow> key_entry \<Rightarrow> key_entry" where
  "keyLetGo now grace e = e\<lparr>keRefs := keRefs e - 1,
     keExpiresAt := (if keRefs e - 1 = 0 then Some (max (now + grace) (keHeldUntil e)) else keExpiresAt e)\<rparr>"

lemma keyLetGo_fields [simp]:
  "keId (keyLetGo t g e) = keId e" "keBuf (keyLetGo t g e) = keBuf e" "keGeneration (keyLetGo t g e) = keGeneration e"
  "keHeldUntil (keyLetGo t g e) = keHeldUntil e" "keRefs (keyLetGo t g e) = keRefs e - 1"
  by (simp_all add: keyLetGo_def)

lemma releaseKey_cases:
  obtains (idle) "\<not> (i < length (kcHandles c) \<and> \<not> khReleased (kcHandles c ! i))" "releaseKey now i c = c"
    | (gone) "i < length (kcHandles c)"
      "\<And>e. js_get (kcEntries c) (khVault (kcHandles c ! i)) = Some e \<Longrightarrow> keId e \<noteq> khEntry (kcHandles c ! i)"
      "releaseKey now i c = c\<lparr>kcHandles := (kcHandles c)[i := (kcHandles c ! i)\<lparr>khReleased := True\<rparr>]\<rparr>"
    | (freed) e where "i < length (kcHandles c)" "\<not> khReleased (kcHandles c ! i)"
      "js_get (kcEntries c) (khVault (kcHandles c ! i)) = Some e" "keId e = khEntry (kcHandles c ! i)"
      "releaseKey now i c = c\<lparr>kcHandles := (kcHandles c)[i := (kcHandles c ! i)\<lparr>khReleased := True\<rparr>],
          kcEntries := js_put (khVault (kcHandles c ! i)) (keyLetGo now (kcGraceMs c) e) (kcEntries c)\<rparr>"
proof (cases "i < length (kcHandles c) \<and> \<not> khReleased (kcHandles c ! i)")
  case False
  then show thesis by (intro idle) (auto simp: releaseKey_def)
next
  case True
  show thesis
  proof (cases "\<exists>e. js_get (kcEntries c) (khVault (kcHandles c ! i)) = Some e \<and> keId e = khEntry (kcHandles c ! i)")
    case False
    then show thesis using True
      by (intro gone) (auto simp: releaseKey_def Let_def split: option.split)
  next
    case found: True
    then obtain e where e: "js_get (kcEntries c) (khVault (kcHandles c ! i)) = Some e"
      "keId e = khEntry (kcHandles c ! i)" by blast
    with True show thesis
      by (intro freed [of e]) (simp_all add: releaseKey_def Let_def keyLetGo_def)
  qed
qed

text \<open>Marking a handle released touches the count of its own entry only.\<close>

lemma openRefs_release:
  assumes "i < length hs" "\<not> khReleased (hs ! i)"
  shows "openRefs j (hs[i := (hs ! i)\<lparr>khReleased := True\<rparr>]) =
    openRefs j hs - (if khEntry (hs ! i) = j then 1 else 0)"
    "khEntry (hs ! i) = j \<Longrightarrow> openRefs j hs > 0"
  using openRefs_replace [of i hs "(hs ! i)\<lparr>khReleased := True\<rparr>" j] assms by (auto split: if_splits)

lemma released_same:
  "khReleased (hs ! i) \<Longrightarrow> i < length hs \<Longrightarrow> hs[i := (hs ! i)\<lparr>khReleased := True\<rparr>] = hs"
  by (cases "hs ! i") (simp add: list_update_same_conv)

lemma in_release:
  assumes "h \<in> set (hs[i := (hs ! i)\<lparr>khReleased := True\<rparr>])" "i < length hs"
  shows "\<exists>h0 \<in> set hs. khEntry h = khEntry h0 \<and> khVault h = khVault h0"
proof -
  from set_update_subset_insert [of hs i "(hs ! i)\<lparr>khReleased := True\<rparr>"] assms
  have "h = (hs ! i)\<lparr>khReleased := True\<rparr> \<or> h \<in> set hs" by blast
  then show ?thesis using nth_mem [OF assms(2)] by auto
qed

lemma releaseKey_inv:
  assumes inv: "key_inv c"
  shows "key_inv (releaseKey now i c)"
proof (rule releaseKey_cases [where now = now and i = i and c = c], goal_cases idle gone freed)
  case gone
  let ?h = "kcHandles c ! i"
  show ?case
  proof (cases "khReleased ?h")
    case True
    then show ?thesis using gone inv by (simp add: released_same)
  next
    case False
    have ne: "keId e \<noteq> khEntry ?h" if "js_get (kcEntries c) v = Some e" for v e
      using key_invD(2) [OF inv that] nth_mem [OF gone(1)] gone(2) that by (auto simp: entry_ok_def)
    show ?thesis unfolding gone(3)
    proof (rule key_invI, goal_cases)
      case (2 v e)
      then have e: "js_get (kcEntries c) v = Some e" by simp
      have ok: "entry_ok c v e" by (rule key_invD(2) [OF inv e])
      have hv: "khVault h = v" if "h \<in> set ((kcHandles c)[i := ?h\<lparr>khReleased := True\<rparr>])" "khEntry h = keId e" for h
        using in_release [OF that(1) gone(1)] that(2) ok by (auto simp: entry_ok_def)
      show ?case
        by (rule entry_ok_frame [OF ok]) (use hv ne [OF e] openRefs_release(1) [OF gone(1) False] in \<open>auto\<close>)
    next
      case (3 v v' e e')
      then show ?case using key_invD(3,4) [OF inv, of v e v' e'] by auto
    next
      case (4 k)
      then show ?case using key_invD(5) [OF inv, of k] by (simp add: owned_def)
    next
      case (5 h)
      then show ?case using in_release [of h "kcHandles c" i] gone(1) key_invD(6) [OF inv] by auto
    qed (use key_invD(1) [OF inv] in simp)
  qed
next
  case (freed e)
  have ok: "entry_ok c (khVault (kcHandles c ! i)) e" by (rule key_invD(2) [OF inv freed(3)])
  have refs: "keRefs e = openRefs (keId e) (kcHandles c)" using ok by (simp add: entry_ok_def)
  have pos: "keRefs e > 0" using openRefs_release(2) [OF freed(1,2) freed(4) [symmetric]] refs by simp
  have x: "expiry_ok (keyLetGo now (kcGraceMs c) e)"
    using entry_expiry(2) [OF ok pos] by (auto simp: expiry_ok_def keyLetGo_def split: option.splits)
  show ?case
  proof (rule install_over [OF inv freed(3), of _ "keyLetGo now (kcGraceMs c) e"], goal_cases)
    case 5
    then show ?case using openRefs_release(1) [OF freed(1,2), of "keId e"] refs freed(4) by (simp add: freed(5))
  next
    case (6 j)
    then show ?case using openRefs_release(1) [OF freed(1,2), of j] freed(4) by (simp add: freed(5))
  next
    case (7 h)
    then show ?case using in_release [OF _ freed(1)] by (simp add: freed(5))
  next
    case 8
    then show ?case using x by (simp add: expiry_ok_def)
  qed (simp_all add: freed(5))
qed (simp_all add: inv)

lemma listen_inv: "key_inv c \<Longrightarrow> key_inv (c\<lparr>kcListeners := ls\<rparr>)"
proof -
  have "owned (c\<lparr>kcListeners := ls\<rparr>) = owned c" by (rule ext) (simp add: owned_def)
  then show "key_inv c \<Longrightarrow> key_inv (c\<lparr>kcListeners := ls\<rparr>)" by (simp add: key_inv_def entry_ok_def)
qed

lemma keyStep_inv: "key_inv c \<Longrightarrow> key_inv (keyStep ev c)"
  by (cases ev)
     (simp_all add: keyStep_def acquireKey_inv releaseKey_inv holdForRequest_inv sweepKeys_inv evictKey_inv
        clearKeys_inv getKey_def hasKey_def Let_def onAcquire_def offAcquire_def listen_inv)

interpretation keys: invariant_machine keyStep key_inv
  by unfold_locales (rule keyStep_inv)

lemma newKeyCache_inv: "key_inv (newKeyCache g)"
  by (rule key_invI) (simp_all add: newKeyCache_def)

section \<open>No key outlives its entry\<close>

lemma clearKeys_empty: "js_get (kcEntries (clearKeys c)) v = None"
proof -
  have "js_get (kcEntries (fold evictKey ks c)) v = (if v \<in> set ks then None else js_get (kcEntries c) v)" for ks c
    by (induction ks arbitrary: c) (auto simp: js_get_evict)
  then have "js_get (kcEntries (clearKeys c)) v = (if v \<in> set (js_keys (kcEntries c)) then None else js_get (kcEntries c) v)"
    unfolding clearKeys_def .
  then show ?thesis by (auto simp: js_keys_def map_of_eq_None_iff)
qed

text \<open>C31: no key outlives its entry. In every run of the cache from empty, whatever was
  acquired, held, released, rotated, swept or evicted, each buffer the cache ever allocated is
  all zeros unless a live entry uses it; and clearing the cache leaves nothing but zeros.\<close>

theorem key_cache_leaves_no_key:
  "{i. i < length (kcBuffers (fold keyStep es (newKeyCache g))) \<and>
       \<not> zeroed (kcBuffers (fold keyStep es (newKeyCache g)) ! i)}
     \<subseteq> (keBuf \<circ> snd) ` set (kcEntries (fold keyStep es (newKeyCache g))) \<and>
   list_all zeroed (kcBuffers (clearKeys (fold keyStep es (newKeyCache g))))"
proof
  let ?c = "fold keyStep es (newKeyCache g)"
  have inv: "key_inv ?c" by (rule keys.run_inv [OF newKeyCache_inv])
  show "{i. i < length (kcBuffers ?c) \<and> \<not> zeroed (kcBuffers ?c ! i)} \<subseteq> (keBuf \<circ> snd) ` set (kcEntries ?c)"
    using key_invD(5) [OF inv] by (force simp: owned_def dest: map_of_SomeD)
  have "owned (clearKeys ?c) i \<longleftrightarrow> False" for i by (simp add: owned_def clearKeys_empty)
  then show "list_all zeroed (kcBuffers (clearKeys ?c))"
    using key_invD(5) [OF clearKeys_inv [OF inv]] by (auto simp: list_all_length)
qed

section \<open>How long an entry lives\<close>

definition keyTime :: "key_event \<Rightarrow> int option" where
  "keyTime ev = (case ev of KAcquire t _ _ _ \<Rightarrow> Some t | KHold t _ _ _ _ \<Rightarrow> Some t | KGet t _ \<Rightarrow> Some t
     | KHas t _ \<Rightarrow> Some t | KSweep t \<Rightarrow> Some t | _ \<Rightarrow> None)"

definition dropsKey :: "string \<Rightarrow> key_event \<Rightarrow> bool" where
  "dropsKey v ev = (case ev of KEvict w \<Rightarrow> w = v | KClear \<Rightarrow> True | _ \<Rightarrow> False)"

text \<open>An entry that lives on: the same one, held at least as long, under a generation that did
  not go down, with the same bytes while the generation is the same.\<close>

definition livesOn :: "key_cache \<Rightarrow> string \<Rightarrow> key_entry \<Rightarrow> key_cache \<Rightarrow> bool" where
  "livesOn c v e c' \<longleftrightarrow> (\<exists>e'. js_get (kcEntries c') v = Some e' \<and> keId e' = keId e \<and>
     keHeldUntil e \<le> keHeldUntil e' \<and> keGeneration e \<le> keGeneration e' \<and>
     (keGeneration e' = keGeneration e \<longrightarrow> kcBuffers c' ! keBuf e' = kcBuffers c ! keBuf e))"

lemma livesOnI:
  assumes "js_get (kcEntries c') v = Some e'" "keId e' = keId e" "keHeldUntil e \<le> keHeldUntil e'"
    "keGeneration e \<le> keGeneration e'"
    "keGeneration e' = keGeneration e \<Longrightarrow> kcBuffers c' ! keBuf e' = kcBuffers c ! keBuf e"
  shows "livesOn c v e c'"
  using assms unfolding livesOn_def by blast

lemma evict_other:
  assumes "key_inv c" "js_get (kcEntries c) v = Some e" "w \<noteq> v"
  shows "js_get (kcEntries (evictKey w c)) v = Some e" "kcBuffers (evictKey w c) ! keBuf e = kcBuffers c ! keBuf e"
proof -
  show "js_get (kcEntries (evictKey w c)) v = Some e" using assms by (simp add: js_get_evict)
  show "kcBuffers (evictKey w c) ! keBuf e = kcBuffers c ! keBuf e"
  proof (cases "js_get (kcEntries c) w")
    case (Some e2)
    then have "keBuf e2 \<noteq> keBuf e" using key_invD(3) [OF assms(1) Some assms(2)] assms(3) by blast
    then show ?thesis by (simp add: evictKey_some [OF Some])
  qed (simp add: evictKey_none)
qed

lemma sweep_keeps:
  assumes inv: "key_inv c" and e: "js_get (kcEntries c) v = Some e" and nd: "\<not> keyDue t e"
  shows "js_get (kcEntries (sweepKeys t c)) v = Some e \<and>
     kcBuffers (sweepKeys t c) ! keBuf e = kcBuffers c ! keBuf e"
proof -
  let ?P = "\<lambda>d. key_inv d \<and> js_get (kcEntries d) v = Some e \<and> kcBuffers d ! keBuf e = kcBuffers c ! keBuf e"
  have "?P (sweepKeys t c)" unfolding sweepKeys_def
  proof (rule fold_invariant_mem)
    fix p d assume p: "p \<in> set (kcEntries c)" and d: "?P d"
    obtain w e2 where p2: "p = (w, e2)" by (cases p)
    have "w \<noteq> v" if "keyDue t e2"
    proof -
      have "js_get (kcEntries c) w = Some e2" using map_of_is_SomeI [OF key_invD(1) [OF inv]] p p2 by simp
      then show ?thesis using that nd e by auto
    qed
    then show "?P ((case p of (v, e) \<Rightarrow> \<lambda>c. if keyDue t e then evictKey v c else c) d)"
      using d evict_other [of d v e w] evictKey_inv by (auto simp: p2)
  qed (use inv e in simp)
  then show ?thesis by blast
qed

lemma open_handle_not_due:
  assumes "key_inv c" "js_get (kcEntries c) v = Some e" "h \<in> set (kcHandles c)" "khEntry h = keId e" "\<not> khReleased h"
  shows "\<not> keyDue t e"
proof -
  have "openRefs (keId e) (kcHandles c) > 0" using assms(3-5) by (auto simp: openRefs_def filter_empty_conv)
  then show ?thesis using key_invD(2) [OF assms(1,2)] by (simp add: entry_ok_def keyDue_def)
qed

lemma held_not_due:
  assumes "key_inv c" "js_get (kcEntries c) v = Some e" "t < keHeldUntil e"
  shows "\<not> keyDue t e"
  using entry_ok_expiry [OF key_invD(2) [OF assms(1,2)]] assms(3)
  by (auto simp: expiry_ok_def keyDue_def split: option.splits)

text \<open>What \<open>acquire\<close>, a request's hold and \<open>release\<close> do to a live entry.\<close>

lemma acquire_lives:
  assumes inv: "key_inv c" and e: "js_get (kcEntries c) v = Some e" and nd: "\<not> keyDue t e"
  shows "livesOn c v e (snd (acquireKey t w key g c))"
proof -
  let ?c1 = "sweepKeys t c"
  have inv1: "key_inv ?c1" by (rule sweepKeys_inv [OF inv])
  have e1: "js_get (kcEntries ?c1) v = Some e" and b1: "kcBuffers ?c1 ! keBuf e = kcBuffers c ! keBuf e"
    using sweep_keeps [OF inv e nd] by simp_all
  have lt: "keBuf e < length (kcBuffers ?c1)" using key_invD(2) [OF inv1 e1] by (simp add: entry_ok_def)
  show ?thesis
  proof (rule acquireKey_cases [where c = c and now = t and v = w and key = key and g = g],
      goal_cases bad new rotated refused kept)
    case new
    then have "w \<noteq> v" using e1 by auto
    then show ?case using new e1 b1 lt by (intro livesOnI [of _ v e]) (simp_all add: nth_append)
  next
    case (rotated e2)
    show ?case
    proof (cases "w = v")
      case True
      then have "e2 = e" using rotated(2) e1 by simp
      then show ?thesis unfolding rotated(4) using rotated(3) True
        by (intro livesOnI [of _ v "keyTaken (putRotated e2 g ?c1)"]) simp_all
    next
      case False
      then have "keBuf e2 \<noteq> keBuf e" using key_invD(3) [OF inv1 rotated(2) e1] by blast
      then show ?thesis using False e1 b1 lt by (intro livesOnI [of _ v e]) (simp_all add: rotated(4) nth_append)
    qed
  next
    case (kept e2)
    show ?case
    proof (cases "w = v")
      case True
      then have "e2 = e" using kept(2) e1 by simp
      then show ?thesis unfolding kept(4) using True b1 by (intro livesOnI [of _ v "keyTaken e2"]) simp_all
    next
      case False
      then show ?thesis using e1 b1 by (intro livesOnI [of _ v e]) (simp_all add: kept(4))
    qed
  qed (use e e1 b1 in \<open>auto intro: livesOnI\<close>)
qed

lemma hold_lives:
  assumes inv: "key_inv c" and e: "js_get (kcEntries c) v = Some e" and nd: "\<not> keyDue t e"
  shows "livesOn c v e (holdForRequest t w key g m c)"
proof -
  let ?c1 = "sweepKeys t c"
  have inv1: "key_inv ?c1" by (rule sweepKeys_inv [OF inv])
  have e1: "js_get (kcEntries ?c1) v = Some e" and b1: "kcBuffers ?c1 ! keBuf e = kcBuffers c ! keBuf e"
    using sweep_keeps [OF inv e nd] by simp_all
  have lt: "keBuf e < length (kcBuffers ?c1)" using key_invD(2) [OF inv1 e1] by (simp add: entry_ok_def)
  show ?thesis
  proof (rule holdForRequest_cases [where c = c and now = t and v = w and key = key and g = g and m = m],
      goal_cases bad new rotated ignored kept)
    case new
    then have "w \<noteq> v" using e1 by auto
    then show ?case using new e1 b1 lt by (intro livesOnI [of _ v e]) (simp_all add: nth_append)
  next
    case (rotated e2)
    show ?case
    proof (cases "w = v")
      case True
      then have "e2 = e" using rotated(2) e1 by simp
      then show ?thesis unfolding rotated(4) using rotated(3) True
        by (intro livesOnI [of _ v "keyHeld (t + m) (putRotated e2 g ?c1)"]) simp_all
    next
      case False
      then have "keBuf e2 \<noteq> keBuf e" using key_invD(3) [OF inv1 rotated(2) e1] by blast
      then show ?thesis using False e1 b1 lt by (intro livesOnI [of _ v e]) (simp_all add: rotated(4) nth_append)
    qed
  next
    case (kept e2)
    show ?case
    proof (cases "w = v")
      case True
      then have "e2 = e" using kept(2) e1 by simp
      then show ?thesis unfolding kept(5) using True b1 by (intro livesOnI [of _ v "keyHeld (t + m) e2"]) simp_all
    next
      case False
      then show ?thesis using e1 b1 by (intro livesOnI [of _ v e]) (simp_all add: kept(5))
    qed
  qed (use e e1 b1 in \<open>auto intro: livesOnI\<close>)
qed

lemma release_lives:
  assumes "js_get (kcEntries c) v = Some e"
  shows "livesOn c v e (releaseKey t i c)"
proof (rule releaseKey_cases [where now = t and i = i and c = c], goal_cases idle gone freed)
  case (freed e2)
  show ?case
  proof (cases "khVault (kcHandles c ! i) = v")
    case True
    then have "e2 = e" using freed(3) assms by simp
    then show ?thesis using True by (intro livesOnI [of _ v "keyLetGo t (kcGraceMs c) e2"]) (simp_all add: freed(5))
  next
    case False
    then show ?thesis using assms by (intro livesOnI [of _ v e]) (simp_all add: freed(5))
  qed
qed (use assms in \<open>auto intro: livesOnI\<close>)

lemma keyStep_lives:
  assumes inv: "key_inv c" and e: "js_get (kcEntries c) v = Some e" and nodrop: "\<not> dropsKey v ev"
    and nd: "\<And>t. keyTime ev = Some t \<Longrightarrow> \<not> keyDue t e"
  shows "livesOn c v e (keyStep ev c)"
proof (cases ev)
  case (KAcquire t w k g)
  then show ?thesis using acquire_lives [OF inv e nd] by (simp add: keyStep_def keyTime_def)
next
  case (KHold t w k g m)
  then show ?thesis using hold_lives [OF inv e nd] by (simp add: keyStep_def keyTime_def)
next
  case (KRelease t i)
  then show ?thesis using release_lives [OF e] by (simp add: keyStep_def)
next
  case (KGet t w)
  then show ?thesis using sweep_keeps [OF inv e nd [of t]]
    by (intro livesOnI [of _ v e]) (simp_all add: keyStep_def keyTime_def getKey_def Let_def)
next
  case (KHas t w)
  then show ?thesis using sweep_keeps [OF inv e nd [of t]]
    by (intro livesOnI [of _ v e]) (simp_all add: keyStep_def keyTime_def hasKey_def Let_def)
next
  case (KSweep t)
  then show ?thesis using sweep_keeps [OF inv e nd [of t]]
    by (intro livesOnI [of _ v e]) (simp_all add: keyStep_def keyTime_def)
next
  case (KEvict w)
  then show ?thesis using evict_other [OF inv e, of w] nodrop
    by (intro livesOnI [of _ v e]) (simp_all add: keyStep_def dropsKey_def)
next
  case KClear
  then show ?thesis using nodrop by (simp add: dropsKey_def)
next
  case (KListen l)
  then show ?thesis using e by (intro livesOnI [of _ v e]) (simp_all add: keyStep_def onAcquire_def)
next
  case (KUnlisten l)
  then show ?thesis using e by (intro livesOnI [of _ v e]) (simp_all add: keyStep_def offAcquire_def)
qed

section \<open>A connection keeps its key\<close>

lemma clearKeys_handles [simp]: "kcHandles (clearKeys c) = kcHandles c"
  unfolding clearKeys_def by (rule fold_measure_eq) simp

lemma keyStep_handle:
  assumes i: "i < length (kcHandles c)" and nr: "\<And>s. ev \<noteq> KRelease s i"
  shows "i < length (kcHandles (keyStep ev c)) \<and> kcHandles (keyStep ev c) ! i = kcHandles c ! i"
proof (cases ev)
  case (KAcquire t w k g)
  have "i < length (kcHandles (snd (acquireKey t w k g c))) \<and> kcHandles (snd (acquireKey t w k g c)) ! i = kcHandles c ! i"
    by (rule acquireKey_cases [where c = c and now = t and v = w and key = k and g = g])
       (use i in \<open>simp_all add: nth_append\<close>)
  then show ?thesis using KAcquire by (simp add: keyStep_def)
next
  case (KHold t w k g m)
  have "kcHandles (holdForRequest t w k g m c) = kcHandles c"
    by (rule holdForRequest_cases [where c = c and now = t and v = w and key = k and g = g and m = m]) simp_all
  then show ?thesis using KHold i by (simp add: keyStep_def)
next
  case (KRelease t j)
  then have "j \<noteq> i" using nr by auto
  have "length (kcHandles (releaseKey t j c)) = length (kcHandles c) \<and> kcHandles (releaseKey t j c) ! i = kcHandles c ! i"
    by (rule releaseKey_cases [where now = t and i = j and c = c]) (use i \<open>j \<noteq> i\<close> in \<open>simp_all\<close>)
  then show ?thesis using KRelease i by (simp add: keyStep_def)
qed (use i in \<open>simp_all add: keyStep_def getKey_def hasKey_def Let_def onAcquire_def offAcquire_def\<close>)

text \<open>A key of generation at least \<open>g\<close> is there, and is \<open>key\<close> while the generation is \<open>g\<close>.\<close>

definition keyedFrom :: "string \<Rightarrow> int \<Rightarrow> bytes \<Rightarrow> key_entry \<Rightarrow> key_cache \<Rightarrow> bool" where
  "keyedFrom v g key e c \<longleftrightarrow> js_get (kcEntries c) v = Some e \<and> g \<le> keGeneration e \<and>
     (keGeneration e = g \<longrightarrow> kcBuffers c ! keBuf e = key)"

lemma keyedFrom_lives:
  assumes "keyedFrom v g key e c" "livesOn c v e c'"
  obtains e' where "keyedFrom v g key e' c'" "keId e' = keId e" "keHeldUntil e \<le> keHeldUntil e'"
proof -
  obtain e' where e': "js_get (kcEntries c') v = Some e'" "keId e' = keId e" "keHeldUntil e \<le> keHeldUntil e'"
    "keGeneration e \<le> keGeneration e'"
    "keGeneration e' = keGeneration e \<longrightarrow> kcBuffers c' ! keBuf e' = kcBuffers c ! keBuf e"
    using assms(2) unfolding livesOn_def by blast
  then have "keyedFrom v g key e' c'" using assms(1) by (auto simp: keyedFrom_def)
  then show thesis using e'(2,3) by (rule that)
qed

lemma keyedFrom_get:
  assumes "key_inv c" "keyedFrom v g key e c" "\<not> keyDue t e"
  shows "\<exists>key' g'. fst (getKey t v c) = Some (key', g') \<and> g \<le> g' \<and> (g' = g \<longrightarrow> key' = key)"
  using sweep_keeps [OF assms(1) _ assms(3)] assms(2) by (auto simp: keyedFrom_def getKey_def Let_def)

definition heldBy :: "nat \<Rightarrow> string \<Rightarrow> int \<Rightarrow> bytes \<Rightarrow> key_cache \<Rightarrow> bool" where
  "heldBy i v g key c \<longleftrightarrow> key_inv c \<and> i < length (kcHandles c) \<and> \<not> khReleased (kcHandles c ! i) \<and>
     (\<exists>e. keyedFrom v g key e c \<and> keId e = khEntry (kcHandles c ! i))"

lemma heldBy_not_due:
  assumes "heldBy i v g key c" "keyedFrom v g key e c" "keId e = khEntry (kcHandles c ! i)"
  shows "\<not> keyDue t e"
  using open_handle_not_due [of c v e "kcHandles c ! i" t] assms by (auto simp: heldBy_def keyedFrom_def)

lemma heldBy_step:
  assumes h: "heldBy i v g key c" and ev: "\<not> dropsKey v ev" "\<And>s. ev \<noteq> KRelease s i"
  shows "heldBy i v g key (keyStep ev c)"
proof -
  obtain e where inv: "key_inv c" and i: "i < length (kcHandles c)" "\<not> khReleased (kcHandles c ! i)"
    and e: "keyedFrom v g key e c" "keId e = khEntry (kcHandles c ! i)" using h by (auto simp: heldBy_def)
  have "livesOn c v e (keyStep ev c)"
    by (rule keyStep_lives [OF inv _ ev(1)]) (use e heldBy_not_due [OF h e] in \<open>auto simp: keyedFrom_def\<close>)
  then obtain e' where "keyedFrom v g key e' (keyStep ev c)" "keId e' = keId e"
    using keyedFrom_lives [OF e(1)] by blast
  then show ?thesis using keyStep_handle [OF i(1) ev(2)] i e(2) keyStep_inv [OF inv] unfolding heldBy_def by metis
qed

lemma heldBy_run:
  assumes "heldBy i v g key c" "\<forall>ev \<in> set es. \<not> dropsKey v ev \<and> (\<forall>s. ev \<noteq> KRelease s i)"
  shows "heldBy i v g key (fold keyStep es c)"
  using assms by (induction es arbitrary: c) (auto intro: heldBy_step)

lemma acquire_heldBy:
  assumes inv: "key_inv c" and acq: "acquireKey t v key g c = (Inr i, c1)"
  shows "heldBy i v g key c1"
proof -
  have inv1: "key_inv c1" using acquireKey_inv [OF inv, of t v key g] acq by simp
  show ?thesis
  proof (rule acquireKey_cases [where c = c and now = t and v = v and key = key and g = g],
      goal_cases bad new rotated refused kept)
    case new
    then have c1: "i = length (kcHandles c)" "kcHandles c1 = kcHandles c @ [holderOf v (kcNextId c)]"
      "js_get (kcEntries c1) v = Some (keyTaken (putNew v key g None 0 (sweepKeys t c)))"
      "kcBuffers c1 = kcBuffers (sweepKeys t c) @ [key]" using acq by auto
    then show ?case using inv1 unfolding heldBy_def keyedFrom_def
      by (auto simp: holderOf_def putNew_def)
  next
    case (rotated e)
    then have c1: "i = length (kcHandles c)" "kcHandles c1 = kcHandles c @ [holderOf v (keId e)]"
      "js_get (kcEntries c1) v = Some (keyTaken (putRotated e g (sweepKeys t c)))"
      "\<exists>bs. length bs = length (kcBuffers (sweepKeys t c)) \<and> kcBuffers c1 = bs @ [key]" using acq by auto
    then show ?case using inv1 unfolding heldBy_def keyedFrom_def
      by (auto simp: holderOf_def nth_append)
  next
    case (kept e)
    then have c1: "i = length (kcHandles c)" "kcHandles c1 = kcHandles c @ [holderOf v (keId e)]"
      "js_get (kcEntries c1) v = Some (keyTaken e)" "kcBuffers c1 = kcBuffers (sweepKeys t c)" using acq by auto
    then show ?case using inv1 kept(3) unfolding heldBy_def keyedFrom_def
      by (auto simp: holderOf_def)
  qed (use acq in simp_all)
qed

text \<open>a connection keeps its key. After \<open>acquire\<close> succeeded in any reachable state of the
  cache, \<open>get\<close> finds a key for that vault at every time, whatever happens to the cache in between,
  short of an explicit eviction of the vault and of the release of that very handle: releases by
  others, sweeps, requests' holds and rotations do not take it away. The generation never goes
  down, and while it is the acquired one, the bytes are the acquired key's.\<close>

theorem connection_keeps_key:
  assumes "acquireKey t v key g (fold keyStep es0 (newKeyCache grace)) = (Inr i, c1)"
    "\<forall>ev \<in> set es. \<not> dropsKey v ev \<and> (\<forall>s. ev \<noteq> KRelease s i)"
  shows "\<exists>key' g'. fst (getKey t' v (fold keyStep es c1)) = Some (key', g') \<and> g \<le> g' \<and> (g' = g \<longrightarrow> key' = key)"
proof -
  let ?c = "fold keyStep es c1"
  have "heldBy i v g key c1" by (rule acquire_heldBy [OF keys.run_inv [OF newKeyCache_inv] assms(1)])
  then have h: "heldBy i v g key ?c" using heldBy_run assms(2) by blast
  then obtain e where e: "keyedFrom v g key e ?c" "keId e = khEntry (kcHandles ?c ! i)" "key_inv ?c"
    by (auto simp: heldBy_def)
  show ?thesis by (rule keyedFrom_get [OF e(3,1) heldBy_not_due [OF h e(1,2)]])
qed

definition demoKey :: "8 word \<Rightarrow> bytes" where "demoKey x = replicate 32 x"

theorem connection_keeps_key_witness:
  "\<exists>key' g'. fst (getKey 9000000 ''v'' (fold keyStep [KAcquire 10 ''v'' (demoKey 7) 1, KRelease 20 1, KSweep 5000000]
      (snd (acquireKey 5 ''v'' (demoKey 7) 1 (fold keyStep [] (newKeyCache None)))))) = Some (key', g') \<and>
    1 \<le> g' \<and> (g' = 1 \<longrightarrow> key' = demoKey 7)"
proof (rule connection_keeps_key)
  show "acquireKey 5 ''v'' (demoKey 7) 1 (fold keyStep [] (newKeyCache None)) =
      (Inr 0, snd (acquireKey 5 ''v'' (demoKey 7) 1 (fold keyStep [] (newKeyCache None))))"
    by code_simp
qed (simp add: dropsKey_def)

section \<open>A request's hold lasts\<close>

lemma hold_run:
  assumes "key_inv c" "keyedFrom v g key e c" "u \<le> keHeldUntil e"
    "\<forall>ev \<in> set es. \<not> dropsKey v ev \<and> (\<forall>s. keyTime ev = Some s \<longrightarrow> s < u)"
  shows "key_inv (fold keyStep es c) \<and> (\<exists>e'. keyedFrom v g key e' (fold keyStep es c) \<and> u \<le> keHeldUntil e')"
  using assms
proof (induction es arbitrary: c e)
  case (Cons ev es)
  have e: "js_get (kcEntries c) v = Some e" using Cons.prems(2) by (simp add: keyedFrom_def)
  have "livesOn c v e (keyStep ev c)"
    by (rule keyStep_lives [OF Cons.prems(1) e])
       (use Cons.prems(3,4) held_not_due [OF Cons.prems(1) e] in fastforce)+
  then obtain e' where "keyedFrom v g key e' (keyStep ev c)" "keHeldUntil e \<le> keHeldUntil e'"
    using keyedFrom_lives [OF Cons.prems(2)] by blast
  then show ?case using Cons.IH [OF keyStep_inv [OF Cons.prems(1)], of e' ev] Cons.prems(3,4) by simp
qed auto

lemma hold_accepted:
  assumes inv: "key_inv c" and get: "fst (getKey t v (holdForRequest t v key g m c)) = Some (key, g)"
    and len: "length key = KEY_BYTES"
  shows "\<exists>e. keyedFrom v g key e (holdForRequest t v key g m c) \<and> t + m \<le> keHeldUntil e"
proof (rule holdForRequest_cases [where c = c and now = t and v = v and key = key and g = g and m = m],
    goal_cases bad new rotated ignored kept)
  case new
  then show ?case by (auto simp: keyedFrom_def putNew_def)
next
  case (rotated e)
  have "keyedFrom v g key (keyHeld (t + m) (putRotated e g (sweepKeys t c))) (holdForRequest t v key g m c)"
    unfolding keyedFrom_def rotated(4) by (simp add: nth_append)
  then show ?case using keyHeld_fields(5) max.cobounded2 by metis
next
  case (ignored e)
  have inv1: "key_inv (sweepKeys t c)" by (rule sweepKeys_inv [OF inv])
  have "js_get (kcEntries (sweepKeys t (sweepKeys t c))) v =
      (if keyDue t e then None else Some e)" using js_get_sweep [OF key_invD(1) [OF inv1]] ignored(1) by simp
  then have "\<not> keyDue t e \<and> keGeneration e = g \<and> kcBuffers (sweepKeys t (sweepKeys t c)) ! keBuf e = key"
    using get ignored(3) by (auto simp: getKey_def Let_def split: if_splits)
  then show ?case using ignored(2) sweep_keeps [OF inv1 ignored(1), of t] by auto
next
  case (kept e)
  then have "keyedFrom v g key (keyHeld (t + m) e) (holdForRequest t v key g m c)"
    unfolding keyedFrom_def kept(5) by simp
  then show ?case using keyHeld_fields(5) max.cobounded2 by metis
qed (use len in simp)

text \<open>A request's hold lasts. When a request's key was taken over by \<open>holdForRequest\<close>, in any
  reachable state, the vault stays keyed until the hold time is over, whatever happens in between
  short of an explicit eviction: connections that come, go and release cannot expire it sooner.\<close>

theorem request_hold_lasts:
  assumes "c = fold keyStep es0 (newKeyCache grace)" "length key = KEY_BYTES"
    "fst (getKey t v (holdForRequest t v key g m c)) = Some (key, g)"
    "\<forall>ev \<in> set es. \<not> dropsKey v ev \<and> (\<forall>s. keyTime ev = Some s \<longrightarrow> s < t + m)" "t' < t + m"
  shows "\<exists>key' g'. fst (getKey t' v (fold keyStep es (holdForRequest t v key g m c))) = Some (key', g') \<and>
     g \<le> g' \<and> (g' = g \<longrightarrow> key' = key)"
proof -
  have inv: "key_inv c" unfolding assms(1) by (rule keys.run_inv [OF newKeyCache_inv])
  obtain e where e: "keyedFrom v g key e (holdForRequest t v key g m c)" "t + m \<le> keHeldUntil e"
    using hold_accepted [OF inv assms(3,2)] by blast
  let ?c = "fold keyStep es (holdForRequest t v key g m c)"
  obtain e' where e': "key_inv ?c" "keyedFrom v g key e' ?c" "t + m \<le> keHeldUntil e'"
    using hold_run [OF holdForRequest_inv [OF inv] e assms(4)] by blast
  have "\<not> keyDue t' e'" by (rule held_not_due [OF e'(1)]) (use e' assms(5) in \<open>auto simp: keyedFrom_def\<close>)
  then show ?thesis by (rule keyedFrom_get [OF e'(1,2)])
qed

theorem request_hold_lasts_witness:
  "\<exists>key' g'. fst (getKey 899000 ''v'' (fold keyStep [KAcquire 10 ''v'' (demoKey 7) 1, KRelease 20 0, KSweep 700000]
      (holdForRequest 0 ''v'' (demoKey 7) 1 900000 (fold keyStep [] (newKeyCache None))))) = Some (key', g') \<and>
    1 \<le> g' \<and> (g' = 1 \<longrightarrow> key' = demoKey 7)"
proof (rule request_hold_lasts [OF refl])
  show "fst (getKey 0 ''v'' (holdForRequest 0 ''v'' (demoKey 7) 1 900000 (fold keyStep [] (newKeyCache None)))) =
      Some (demoKey 7, 1)" by code_simp
qed (simp_all add: dropsKey_def keyTime_def demoKey_def KEY_BYTES_def)

end
