(* ===== verification/Codecs.thy ===== *)
theory Codecs
  imports Bytes
begin

text \<open>
  The binary formats of the sync channel: the framed document update
  (\<open>server/src/sync/vault-protocol.ts\<close> writes and reads it, \<open>desktop/src/lib/sync/vaultProtocol.ts\<close>
  reads it), the voice frame's envelope, and the bootstrap page (\<open>server/src/sync/bulk-protocol.ts\<close>,
  \<open>desktop/src/lib/sync/bootstrapCodec.ts\<close>). A thrown error is the left of a sum, a null answer is None.
\<close>

section \<open>Framed updates\<close>

datatype frame_error = DocIdTooLong

definition frameDocPayload :: "text16 \<Rightarrow> bytes \<Rightarrow> frame_error + bytes" where
  "frameDocPayload docId update =
     (let i = textEncode docId in
      if length i > 0xff then Inl DocIdTooLong
      else Inr ([byte (length i div 256), byte (length i)] @ i @ update))"

definition encodeWsUpdate :: "text16 \<Rightarrow> bytes \<Rightarrow> frame_error + bytes" where
  "encodeWsUpdate docId update = frameDocPayload docId update"

definition unframeDocPayload :: "bytes \<Rightarrow> (text16 \<times> bytes) option" where
  "unframeDocPayload bs =
     (if length bs < 2 then None
      else
        (let idLen = getU16BE bs 0 in
         if length bs < 2 + idLen then None
         else Some (textDecode (take idLen (drop 2 bs)), drop (2 + idLen) bs)))"

definition decodeWsUpdate :: "bytes \<Rightarrow> (text16 \<times> bytes) option" where
  "decodeWsUpdate bs = unframeDocPayload bs"

text \<open>The desktop's reader.\<close>

definition decodeUpdateFrame :: "bytes \<Rightarrow> (text16 \<times> bytes) option" where
  "decodeUpdateFrame bs =
     (if length bs < 2 then None
      else
        (let idLen = getU16BE bs 0 in
         if length bs < 2 + idLen then None
         else Some (textDecode (take idLen (drop 2 bs)), drop (2 + idLen) bs)))"

section \<open>Voice frames\<close>

text \<open>The envelope only: the header is the JSON text the caller serialised, as bytes.\<close>

definition VOICE_FRAME :: nat where "VOICE_FRAME = 0x01"

definition encodeVoiceEnvelope :: "bytes \<Rightarrow> bytes \<Rightarrow> bytes option" where
  "encodeVoiceEnvelope h audio =
     (if length h > 0xffff then None
      else Some ([byte VOICE_FRAME, byte (length h div 256), byte (length h)] @ h @ audio))"

definition decodeVoiceEnvelope :: "bytes \<Rightarrow> (bytes \<times> bytes) option" where
  "decodeVoiceEnvelope bs =
     (if length bs < 3 \<or> unat (bs ! 0) \<noteq> VOICE_FRAME then None
      else
        (let hLen = getU16BE bs 1 in
         if length bs < 3 + hLen then None else Some (take hLen (drop 3 bs), drop (3 + hLen) bs)))"

definition isVoiceFrame :: "bytes \<Rightarrow> bool" where
  "isVoiceFrame bs \<longleftrightarrow> length bs > 0 \<and> unat (bs ! 0) = VOICE_FRAME"

section \<open>Bootstrap pages\<close>

record bootstrap_doc =
  bdDocId :: text16
  bdRelPath :: text16
  bdUpdate :: bytes

definition BOOTSTRAP_MAGIC :: nat where "BOOTSTRAP_MAGIC = 0x42444c42"
definition BOOTSTRAP_VERSION :: nat where "BOOTSTRAP_VERSION = 1"
definition BOOTSTRAP_HEADER_BYTES :: nat where "BOOTSTRAP_HEADER_BYTES = 12"
definition BOOTSTRAP_RECORD_BYTES :: nat where "BOOTSTRAP_RECORD_BYTES = 7"

datatype page_error =
    PageTruncated | BadMagic | BadVersion nat | BadFlags nat | RecordHeaderTruncated | RecordBodyTruncated
  | PageDocIdTooLong | PageRelPathTooLong
  | EmptyDocId nat | EmptyRelPath nat | TrailingBytes nat nat

definition encodedDocBytes :: "bootstrap_doc \<Rightarrow> nat" where
  "encodedDocBytes d =
     BOOTSTRAP_RECORD_BYTES + length (textEncode (bdDocId d)) + length (textEncode (bdRelPath d)) +
     length (bdUpdate d)"

definition encodeRecord :: "bootstrap_doc \<Rightarrow> bytes" where
  "encodeRecord d =
     (let i = textEncode (bdDocId d); p = textEncode (bdRelPath d) in
      [byte (length i)] @ putU16LE (length p) @ putU32LE (length (bdUpdate d)) @ i @ p @ bdUpdate d)"

fun checkRecords :: "bootstrap_doc list \<Rightarrow> page_error option" where
  "checkRecords [] = None"
| "checkRecords (d # ds) =
     (if length (textEncode (bdDocId d)) > 0xff then Some PageDocIdTooLong
      else if length (textEncode (bdRelPath d)) > 0xffff then Some PageRelPathTooLong
      else checkRecords ds)"

definition encodeBootstrapPage :: "bootstrap_doc list \<Rightarrow> page_error + bytes" where
  "encodeBootstrapPage docs =
     (case checkRecords docs of
        Some err \<Rightarrow> Inl err
      | None \<Rightarrow>
          Inr (putU32LE BOOTSTRAP_MAGIC @ [byte BOOTSTRAP_VERSION, byte 0] @ putU32LE (length docs) @
               putU16LE 0 @ concat (map encodeRecord docs)))"

text \<open>The record loop of the server's reader; \<open>rest\<close> is the page from \<open>off\<close> on.\<close>

fun decodeRecords :: "nat \<Rightarrow> bytes \<Rightarrow> page_error + bootstrap_doc list" where
  "decodeRecords 0 rest = Inr []"
| "decodeRecords (Suc n) rest =
     (if length rest < BOOTSTRAP_RECORD_BYTES then Inl RecordHeaderTruncated
      else
        (let idLen = unat (rest ! 0); pathLen = getU16LE rest 1; updLen = getU32LE rest 3;
             body = drop BOOTSTRAP_RECORD_BYTES rest
         in if length body < idLen + pathLen + updLen then Inl RecordBodyTruncated
            else
              (let d = \<lparr>bdDocId = textDecode (take idLen body),
                        bdRelPath = textDecode (take pathLen (drop idLen body)),
                        bdUpdate = take updLen (drop (idLen + pathLen) body)\<rparr>
               in case decodeRecords n (drop (idLen + pathLen + updLen) body) of
                    Inl err \<Rightarrow> Inl err
                  | Inr ds \<Rightarrow> Inr (d # ds))))"

definition decodeBootstrapPage :: "bytes \<Rightarrow> page_error + bootstrap_doc list" where
  "decodeBootstrapPage bs =
     (if length bs < BOOTSTRAP_HEADER_BYTES then Inl PageTruncated
      else if getU32LE bs 0 \<noteq> BOOTSTRAP_MAGIC then Inl BadMagic
      else if unat (bs ! 4) \<noteq> BOOTSTRAP_VERSION then Inl (BadVersion (unat (bs ! 4)))
      else if unat (bs ! 5) \<noteq> 0 then Inl (BadFlags (unat (bs ! 5)))
      else decodeRecords (getU32LE bs 6) (drop BOOTSTRAP_HEADER_BYTES bs))"

text \<open>The desktop's reader refuses empty names and trailing bytes too; \<open>i\<close> is the record's index.\<close>

definition MAGIC_BYTES :: bytes where
  "MAGIC_BYTES = [byte 0x42, byte 0x4c, byte 0x44, byte 0x42]"

fun desktopRecords :: "nat \<Rightarrow> nat \<Rightarrow> bytes \<Rightarrow> page_error + bootstrap_doc list \<times> bytes" where
  "desktopRecords i 0 rest = Inr ([], rest)"
| "desktopRecords i (Suc n) rest =
     (if length rest < BOOTSTRAP_RECORD_BYTES then Inl RecordHeaderTruncated
      else
        (let docIdLen = unat (rest ! 0); pathLen = getU16LE rest 1; updateLen = getU32LE rest 3;
             body = drop BOOTSTRAP_RECORD_BYTES rest
         in if length body < docIdLen + pathLen + updateLen then Inl RecordBodyTruncated
            else
              (let docId = textDecode (take docIdLen body);
                   relPath = textDecode (take pathLen (drop docIdLen body));
                   update = take updateLen (drop (docIdLen + pathLen) body)
               in if docId = [] then Inl (EmptyDocId i)
                  else if relPath = [] then Inl (EmptyRelPath i)
                  else case desktopRecords (Suc i) n (drop (docIdLen + pathLen + updateLen) body) of
                    Inl err \<Rightarrow> Inl err
                  | Inr (ds, left) \<Rightarrow>
                      Inr (\<lparr>bdDocId = docId, bdRelPath = relPath, bdUpdate = update\<rparr> # ds, left))))"

definition desktopDecodePage :: "bytes \<Rightarrow> page_error + bootstrap_doc list" where
  "desktopDecodePage bs =
     (if length bs < BOOTSTRAP_HEADER_BYTES then Inl PageTruncated
      else if take 4 bs \<noteq> MAGIC_BYTES then Inl BadMagic
      else if unat (bs ! 4) \<noteq> BOOTSTRAP_VERSION then Inl (BadVersion (unat (bs ! 4)))
      else if unat (bs ! 5) \<noteq> 0 then Inl (BadFlags (unat (bs ! 5)))
      else
        (let docCount = getU32LE bs 6 in
         case desktopRecords 0 docCount (drop BOOTSTRAP_HEADER_BYTES bs) of
           Inl err \<Rightarrow> Inl err
         | Inr (docs, left) \<Rightarrow>
             if left \<noteq> [] then Inl (TrailingBytes (length left) docCount) else Inr docs))"

end
