(* ===== verification/Codec_Props.thy ===== *)
theory Codec_Props
  imports Codecs
begin

text \<open>
  What one side writes the other reads: update frames and bootstrap pages round-trip between the
  server and the desktop, the two readers agree, pages cut short or with bytes left over are
  refused, and a voice frame is never taken for an update.
\<close>

section \<open>Update frames\<close>

lemma decodeUpdateFrame_eq: "decodeUpdateFrame = unframeDocPayload"
  by (rule ext) (simp add: decodeUpdateFrame_def unframeDocPayload_def)

lemma frame_shape:
  "frameDocPayload docId u = Inr bs \<longleftrightarrow>
     length (textEncode docId) \<le> 255 \<and>
     bs = [byte 0, byte (length (textEncode docId))] @ textEncode docId @ u"
  by (auto simp: frameDocPayload_def Let_def)

lemma unframe_frame:
  assumes "cleanText docId" "frameDocPayload docId u = Inr bs"
  shows "unframeDocPayload bs = Some (docId, u)"
  using assms text_roundtrip [OF assms(1)]
  by (auto simp: frame_shape unframeDocPayload_def getU16BE_def)

definition frameCodec :: "text16 \<times> bytes \<Rightarrow> bytes option" where
  "frameCodec p = (if cleanText (fst p) then
     (case encodeWsUpdate (fst p) (snd p) of Inl _ \<Rightarrow> None | Inr bs \<Rightarrow> Some bs) else None)"

lemma frameCodec_some: "frameCodec p = Some bs \<longleftrightarrow> cleanText (fst p) \<and> encodeWsUpdate (fst p) (snd p) = Inr bs"
  by (auto simp: frameCodec_def split: sum.splits)

interpretation frame: byte_codec frameCodec decodeUpdateFrame
proof unfold_locales
  fix p bs assume "frameCodec p = Some bs"
  then show "decodeUpdateFrame bs = Some p"
    using unframe_frame [of "fst p" "snd p" bs] by (simp add: frameCodec_some encodeWsUpdate_def decodeUpdateFrame_eq)
qed

text \<open>A sample document id and a sample path with a letter of two bytes, one of three, and a
  surrogate pair.\<close>

definition demoId :: text16 where
  "demoId = [0x38, 0x63, 0x2D, 0x66]"

definition demoPath :: text16 where
  "demoPath = [0xE9, 0x20AC, 0xD83D, 0xDE00]"

lemma demo_text:
  "cleanText demoId" "textEncode demoId = [0x38, 0x63, 0x2D, 0x66]"
  "cleanText demoPath" "textEncode demoPath = [0xC3, 0xA9, 0xE2, 0x82, 0xAC, 0xF0, 0x9F, 0x98, 0x80]"
  by (simp_all add: demoId_def demoPath_def cleanText_def textEncode_def highSurrogate_def lowSurrogate_def
      encodeCp_def byte_def)

section \<open>Bootstrap pages\<close>

text \<open>A document the format carries: names that are clean text and not empty, an update that fits
  its 32-bit length.\<close>

definition cleanDoc :: "bootstrap_doc \<Rightarrow> bool" where
  "cleanDoc d \<longleftrightarrow> cleanText (bdDocId d) \<and> bdDocId d \<noteq> [] \<and> cleanText (bdRelPath d) \<and> bdRelPath d \<noteq> [] \<and>
     length (bdUpdate d) < 4294967296"

lemma checkRecords_none:
  "checkRecords ds = None \<longleftrightarrow>
     (\<forall>d \<in> set ds. length (textEncode (bdDocId d)) \<le> 0xff \<and> length (textEncode (bdRelPath d)) \<le> 0xffff)"
  by (induction ds) auto

lemma record_parts:
  assumes "length (textEncode (bdDocId d)) \<le> 0xff" "length (textEncode (bdRelPath d)) \<le> 0xffff"
    "length (bdUpdate d) < 4294967296"
  shows "unat ((encodeRecord d @ post) ! 0) = length (textEncode (bdDocId d))"
    "getU16LE (encodeRecord d @ post) 1 = length (textEncode (bdRelPath d))"
    "getU32LE (encodeRecord d @ post) 3 = length (bdUpdate d)"
    "drop BOOTSTRAP_RECORD_BYTES (encodeRecord d @ post) =
       textEncode (bdDocId d) @ textEncode (bdRelPath d) @ bdUpdate d @ post"
    "length (encodeRecord d @ post) = encodedDocBytes d + length post"
proof -
  let ?i = "textEncode (bdDocId d)" and ?p = "textEncode (bdRelPath d)"
  let ?tail = "?i @ ?p @ bdUpdate d @ post"
  have eq: "encodeRecord d @ post =
      [byte (length ?i)] @ putU16LE (length ?p) @ putU32LE (length (bdUpdate d)) @ ?tail"
    by (simp add: encodeRecord_def Let_def)
  show "unat ((encodeRecord d @ post) ! 0) = length ?i" unfolding eq using assms(1) by simp
  show "getU16LE (encodeRecord d @ post) 1 = length ?p" unfolding eq
    by (rule getU16LE_put) (use assms in simp_all)
  have "getU32LE (([byte (length ?i)] @ putU16LE (length ?p)) @ putU32LE (length (bdUpdate d)) @ ?tail) 3 = length (bdUpdate d)"
    by (rule getU32LE_put) (use assms in simp_all)
  then show "getU32LE (encodeRecord d @ post) 3 = length (bdUpdate d)" unfolding eq by simp
  show "drop BOOTSTRAP_RECORD_BYTES (encodeRecord d @ post) = ?i @ ?p @ bdUpdate d @ post"
    unfolding eq by (simp add: BOOTSTRAP_RECORD_BYTES_def putU16LE_def putU32LE_def)
  show "length (encodeRecord d @ post) = encodedDocBytes d + length post"
    unfolding eq by (simp add: encodedDocBytes_def BOOTSTRAP_RECORD_BYTES_def)
qed

lemma records_roundtrip:
  assumes "\<forall>d \<in> set ds. cleanDoc d" "checkRecords ds = None"
  shows "decodeRecords (length ds) (concat (map encodeRecord ds) @ post) = Inr ds \<and>
    desktopRecords i (length ds) (concat (map encodeRecord ds) @ post) = Inr (ds, post)"
  using assms
proof (induction ds arbitrary: i)
  case (Cons d ds)
  let ?post = "concat (map encodeRecord ds) @ post"
  have d: "cleanDoc d" "length (textEncode (bdDocId d)) \<le> 0xff" "length (textEncode (bdRelPath d)) \<le> 0xffff"
    using Cons.prems unfolding checkRecords_none by simp_all
  have l: "length (bdUpdate d) < 4294967296" using d(1) by (simp add: cleanDoc_def)
  note parts = record_parts [OF d(2,3) l, of ?post]
  have t: "textDecode (textEncode (bdDocId d)) = bdDocId d" "textDecode (textEncode (bdRelPath d)) = bdRelPath d"
    "bdDocId d \<noteq> []" "bdRelPath d \<noteq> []"
    using d(1) by (simp_all add: cleanDoc_def text_roundtrip)
  have IH: "decodeRecords (length ds) ?post = Inr ds" "desktopRecords (Suc i) (length ds) ?post = Inr (ds, post)"
    using Cons.IH [of "Suc i"] Cons.prems unfolding checkRecords_none by simp_all
  have eq: "concat (map encodeRecord (d # ds)) @ post = encodeRecord d @ ?post" by simp
  have len: "\<not> length (encodeRecord d @ ?post) < BOOTSTRAP_RECORD_BYTES"
    unfolding parts(5) by (simp add: encodedDocBytes_def)
  have body: "drop (length (textEncode (bdDocId d)) + length (textEncode (bdRelPath d)) + length (bdUpdate d))
      (textEncode (bdDocId d) @ textEncode (bdRelPath d) @ bdUpdate d @ ?post) = ?post" by simp
  show ?case
    unfolding eq list.size(4) add_Suc_right add_0_right decodeRecords.simps desktopRecords.simps
      Let_def parts(1-4) body if_not_P [OF len]
    by (simp add: t IH)
qed simp

lemma page_parts:
  assumes "encodeBootstrapPage docs = Inr page" "length docs < 4294967296"
  shows "length page \<ge> 12" "getU32LE page 0 = BOOTSTRAP_MAGIC" "take 4 page = MAGIC_BYTES"
    "unat (page ! 4) = BOOTSTRAP_VERSION" "unat (page ! 5) = 0" "getU32LE page 6 = length docs"
    "drop BOOTSTRAP_HEADER_BYTES page = concat (map encodeRecord docs)"
    "checkRecords docs = None"
proof -
  let ?recs = "concat (map encodeRecord docs)"
  have page: "page = putU32LE BOOTSTRAP_MAGIC @ [byte BOOTSTRAP_VERSION, byte 0] @ putU32LE (length docs) @
      putU16LE 0 @ ?recs" and "checkRecords docs = None"
    using assms(1) by (auto simp: encodeBootstrapPage_def split: option.splits)
  then show "checkRecords docs = None" by simp
  show "length page \<ge> 12" unfolding page by simp
  show "getU32LE page 0 = BOOTSTRAP_MAGIC" unfolding page
    using getU32LE_put [of BOOTSTRAP_MAGIC "[]" 0] by (simp add: BOOTSTRAP_MAGIC_def)
  show "take 4 page = MAGIC_BYTES" unfolding page
    by (simp add: putU32LE_def BOOTSTRAP_MAGIC_def MAGIC_BYTES_def byte_def)
  show "unat (page ! 4) = BOOTSTRAP_VERSION" "unat (page ! 5) = 0" unfolding page
    by (simp_all add: nth_append BOOTSTRAP_VERSION_def)
  have "getU32LE ((putU32LE BOOTSTRAP_MAGIC @ [byte BOOTSTRAP_VERSION, byte 0]) @ putU32LE (length docs) @
      putU16LE 0 @ ?recs) 6 = length docs" by (rule getU32LE_put) (use assms(2) in simp_all)
  then show "getU32LE page 6 = length docs" unfolding page by simp
  show "drop BOOTSTRAP_HEADER_BYTES page = ?recs" unfolding page by (simp add: BOOTSTRAP_HEADER_BYTES_def)
qed

lemma page_roundtrip:
  assumes "encodeBootstrapPage docs = Inr page" "\<forall>d \<in> set docs. cleanDoc d" "length docs < 4294967296"
  shows "decodeBootstrapPage page = Inr docs \<and> desktopDecodePage page = Inr docs"
proof -
  note p = page_parts [OF assms(1,3)]
  have len: "\<not> length page < BOOTSTRAP_HEADER_BYTES" using p(1) by (simp add: BOOTSTRAP_HEADER_BYTES_def)
  have recs: "decodeRecords (length docs) (concat (map encodeRecord docs)) = Inr docs"
    "desktopRecords 0 (length docs) (concat (map encodeRecord docs)) = Inr (docs, [])"
    using records_roundtrip [OF assms(2) p(8), of "[]" 0] by simp_all
  have "decodeBootstrapPage page = Inr docs"
    unfolding decodeBootstrapPage_def p(2,4,5,6,7) recs using len by simp
  moreover have "desktopDecodePage page = Inr docs"
    unfolding desktopDecodePage_def p(3,4,5,6,7) Let_def recs using len by simp
  ultimately show ?thesis ..
qed

lemma page_length:
  assumes "encodeBootstrapPage docs = Inr page"
  shows "length page = BOOTSTRAP_HEADER_BYTES + sum_list (map encodedDocBytes docs)"
proof -
  have "length (encodeRecord d) = encodedDocBytes d" for d
    by (simp add: encodeRecord_def encodedDocBytes_def BOOTSTRAP_RECORD_BYTES_def Let_def)
  then have "length (concat (map encodeRecord docs)) = sum_list (map encodedDocBytes docs)"
    by (simp add: length_concat comp_def)
  then show ?thesis using assms
    by (auto simp: encodeBootstrapPage_def BOOTSTRAP_HEADER_BYTES_def split: option.splits)
qed

section \<open>Pages cut short, and pages with more\<close>

lemma get_append:
  "i + 1 < length bs \<Longrightarrow> getU16LE (bs @ q) i = getU16LE bs i"
  "i + 3 < length bs \<Longrightarrow> getU32LE (bs @ q) i = getU32LE bs i"
  by (simp_all add: getU16LE_def getU32LE_def nth_append)

lemma desktopRecords_append:
  "desktopRecords i n rest = Inr (ds, left) \<Longrightarrow> desktopRecords i n (rest @ q) = Inr (ds, left @ q)"
proof (induction n arbitrary: i rest ds)
  case (Suc n)
  let ?idl = "unat (rest ! 0)" and ?pl = "getU16LE rest 1" and ?ul = "getU32LE rest 3"
  let ?body = "drop BOOTSTRAP_RECORD_BYTES rest"
  let ?docId = "textDecode (take ?idl ?body)"
  let ?relPath = "textDecode (take ?pl (drop ?idl ?body))"
  have len: "\<not> length rest < BOOTSTRAP_RECORD_BYTES" "\<not> length ?body < ?idl + ?pl + ?ul"
    and names: "?docId \<noteq> []" "?relPath \<noteq> []"
    using Suc.prems by (auto simp: Let_def split: if_splits)
  obtain ds' where rec: "desktopRecords (Suc i) n (drop (?idl + ?pl + ?ul) ?body) = Inr (ds', left)"
    and ds: "ds = \<lparr>bdDocId = ?docId, bdRelPath = ?relPath, bdUpdate = take ?ul (drop (?idl + ?pl) ?body)\<rparr> # ds'"
    using Suc.prems len names by (auto simp: Let_def split: sum.splits prod.splits)
  have len7: "7 \<le> length rest" using len(1) by (simp add: BOOTSTRAP_RECORD_BYTES_def)
  have fields: "unat ((rest @ q) ! 0) = ?idl" "getU16LE (rest @ q) 1 = ?pl" "getU32LE (rest @ q) 3 = ?ul"
    using len7 get_append(1) [of 1 rest q] get_append(2) [of 3 rest q] by (auto simp: nth_append)
  have body: "drop BOOTSTRAP_RECORD_BYTES (rest @ q) = ?body @ q" using len(1) by simp
  have len': "\<not> length (rest @ q) < BOOTSTRAP_RECORD_BYTES" "\<not> length (?body @ q) < ?idl + ?pl + ?ul"
    using len by auto
  have b: "?idl + ?pl + ?ul \<le> length ?body" using len(2) by simp
  have parts: "take ?idl (?body @ q) = take ?idl ?body" "take ?pl (drop ?idl (?body @ q)) = take ?pl (drop ?idl ?body)"
    "take ?ul (drop (?idl + ?pl) (?body @ q)) = take ?ul (drop (?idl + ?pl) ?body)"
    "drop (?idl + ?pl + ?ul) (?body @ q) = drop (?idl + ?pl + ?ul) ?body @ q"
    using b by (simp_all del: drop_drop)
  show ?case
    unfolding desktopRecords.simps Let_def fields body parts if_not_P [OF len'(1)] if_not_P [OF len'(2)]
      if_not_P [OF names(1)] if_not_P [OF names(2)] Suc.IH [OF rec] ds
    by simp
qed simp

lemma desktopRecords_server:
  "desktopRecords i n rest = Inr (ds, left) \<Longrightarrow> decodeRecords n rest = Inr ds"
  by (induction n arbitrary: i rest ds)
     (auto simp: Let_def split: if_splits sum.splits prod.splits)

lemma desktop_accepts:
  "desktopDecodePage bs = Inr docs \<longleftrightarrow>
     BOOTSTRAP_HEADER_BYTES \<le> length bs \<and> take 4 bs = MAGIC_BYTES \<and> unat (bs ! 4) = BOOTSTRAP_VERSION \<and>
     unat (bs ! 5) = 0 \<and> desktopRecords 0 (getU32LE bs 6) (drop BOOTSTRAP_HEADER_BYTES bs) = Inr (docs, [])"
  by (auto simp: desktopDecodePage_def Let_def split: sum.splits prod.splits if_splits)

lemma desktop_no_trailing:
  assumes "desktopDecodePage bs = Inr docs" "q \<noteq> []"
  shows "\<exists>err. desktopDecodePage (bs @ q) = Inl err"
proof -
  note a = assms(1) [unfolded desktop_accepts]
  have len: "12 \<le> length bs" using a by (simp add: BOOTSTRAP_HEADER_BYTES_def)
  then have "getU32LE (bs @ q) 6 = getU32LE bs 6" "drop BOOTSTRAP_HEADER_BYTES (bs @ q) = drop BOOTSTRAP_HEADER_BYTES bs @ q"
    by (simp_all add: get_append BOOTSTRAP_HEADER_BYTES_def)
  then have "desktopRecords 0 (getU32LE (bs @ q) 6) (drop BOOTSTRAP_HEADER_BYTES (bs @ q)) = Inr (docs, q)"
    using desktopRecords_append a by fastforce
  then have "desktopDecodePage (bs @ q) \<noteq> Inr d" for d
    using assms(2) by (simp add: desktop_accepts)
  then show ?thesis by (cases "desktopDecodePage (bs @ q)") auto
qed

definition pageCodec :: "bootstrap_doc list \<Rightarrow> bytes option" where
  "pageCodec docs = (if list_all cleanDoc docs \<and> length docs < 4294967296 then
     (case encodeBootstrapPage docs of Inl _ \<Rightarrow> None | Inr page \<Rightarrow> Some page) else None)"

definition pageReader :: "bytes \<Rightarrow> bootstrap_doc list option" where
  "pageReader bs = (case desktopDecodePage bs of Inl _ \<Rightarrow> None | Inr docs \<Rightarrow> Some docs)"

lemma pageCodec_some:
  "pageCodec docs = Some page \<longleftrightarrow>
     (\<forall>d \<in> set docs. cleanDoc d) \<and> length docs < 4294967296 \<and> encodeBootstrapPage docs = Inr page"
  by (auto simp: pageCodec_def list_all_iff split: sum.splits)

lemma pageReader_iff:
  "pageReader bs = Some docs \<longleftrightarrow> desktopDecodePage bs = Inr docs"
  "pageReader bs = None \<longleftrightarrow> (\<exists>err. desktopDecodePage bs = Inl err)"
  by (auto simp: pageReader_def split: sum.splits)

interpretation page: strict_codec pageCodec pageReader
proof unfold_locales
  show "pageReader bs = Some docs" if "pageCodec docs = Some bs" for docs bs
    using page_roundtrip that by (simp add: pageCodec_some pageReader_iff)
  show "pageReader (bs @ q) = None" if "pageReader bs = Some docs" "q \<noteq> []" for bs docs q
    using desktop_no_trailing that by (simp add: pageReader_iff)
qed

section \<open>The properties\<close>

text \<open>C32: an update frame arrives. What the server frames for a document, the desktop reads back
  as that document and that update, and so does the server; the desktop never takes the frame for
  voice; and frames of different updates differ. Document ids are well-formed text that does not
  begin with a byte order mark (the decoder drops one).\<close>

theorem ws_update_arrives:
  assumes "cleanText docId" "encodeWsUpdate docId u = Inr frame"
  shows "decodeUpdateFrame frame = Some (docId, u) \<and> decodeWsUpdate frame = Some (docId, u) \<and>
    \<not> isVoiceFrame frame \<and>
    (\<lambda>(i, w). cleanText i \<and> encodeWsUpdate i w = Inr frame) = (\<lambda>p. p = (docId, u))"
proof -
  have c: "frameCodec (docId, u) = Some frame" using assms by (simp add: frameCodec_some)
  have "decodeUpdateFrame frame = Some (docId, u)" by (rule frame.decode_encode [OF c])
  moreover have "\<not> isVoiceFrame frame"
    using assms(2) by (auto simp: encodeWsUpdate_def frame_shape isVoiceFrame_def VOICE_FRAME_def)
  moreover have "(\<lambda>(i, w). cleanText i \<and> encodeWsUpdate i w = Inr frame) = (\<lambda>p. p = (docId, u))"
    using frame.encode_inj [OF c] c by (auto simp: fun_eq_iff frameCodec_some)
  ultimately show ?thesis by (simp add: decodeUpdateFrame_eq decodeWsUpdate_def)
qed

theorem ws_update_arrives_witness:
  "decodeUpdateFrame ([byte 0, byte 4] @ textEncode demoId @ [1, 2, 3]) = Some (demoId, [1, 2, 3])"
proof -
  have "length (textEncode demoId) = 4" by (simp add: demo_text(2))
  then have "encodeWsUpdate demoId [1, 2, 3] = Inr ([byte 0, byte 4] @ textEncode demoId @ [1, 2, 3])"
    by (simp add: encodeWsUpdate_def frameDocPayload_def Let_def)
  then show ?thesis using ws_update_arrives [OF demo_text(1)] by blast
qed

text \<open>C33: a bootstrap page arrives. The page the server encodes is exactly as long as the budgeted
  sizes of its documents and the header, and both readers give the documents back: ids, paths and
  updates, in order. Names are well-formed text, not empty and without a leading byte order mark;
  counts and updates fit their 32-bit fields.\<close>

theorem bootstrap_page_arrives:
  assumes "encodeBootstrapPage docs = Inr page" "list_all cleanDoc docs" "length docs < 4294967296"
  shows "desktopDecodePage page = Inr docs \<and> decodeBootstrapPage page = Inr docs \<and>
    length page = BOOTSTRAP_HEADER_BYTES + sum_list (map encodedDocBytes docs)"
  using page_roundtrip [OF assms(1) _ assms(3)] page_length [OF assms(1)] assms(2) by (simp add: list_all_iff)

definition demoDocs :: "bootstrap_doc list" where
  "demoDocs = [\<lparr>bdDocId = demoId, bdRelPath = demoPath, bdUpdate = [9, 8]\<rparr>]"

lemma demo_page:
  "list_all cleanDoc demoDocs" "length demoDocs < 4294967296"
  "encodeBootstrapPage demoDocs = Inr (projr (encodeBootstrapPage demoDocs))"
  "30 < length (projr (encodeBootstrapPage demoDocs))"
proof -
  show "list_all cleanDoc demoDocs" "length demoDocs < 4294967296"
    by (simp_all add: demoDocs_def cleanDoc_def demo_text(1,3)) (simp_all add: demoId_def demoPath_def)
  have "checkRecords demoDocs = None" by (simp add: demoDocs_def demo_text(2,4))
  then show "encodeBootstrapPage demoDocs = Inr (projr (encodeBootstrapPage demoDocs))"
    "30 < length (projr (encodeBootstrapPage demoDocs))"
    by (simp_all add: encodeBootstrapPage_def demoDocs_def encodeRecord_def Let_def demo_text(2,4))
qed

theorem bootstrap_page_arrives_witness:
  "desktopDecodePage (projr (encodeBootstrapPage demoDocs)) = Inr demoDocs"
  using bootstrap_page_arrives [OF demo_page(3,1,2)] by blast

text \<open>a damaged page is refused. Any page cut short, and any page with bytes after its end,
  gives the desktop no documents at all, only an error.\<close>

theorem bootstrap_damaged_page_refused:
  assumes "encodeBootstrapPage docs = Inr page" "list_all cleanDoc docs" "length docs < 4294967296"
    "n < length page" "q \<noteq> []"
  shows "(\<exists>err. desktopDecodePage (take n page) = Inl err) \<and> (\<exists>err. desktopDecodePage (page @ q) = Inl err)"
proof -
  have c: "pageCodec docs = Some page" using assms(1-3) by (simp add: pageCodec_some list_all_iff)
  show ?thesis
    using page.truncated_refused [OF c assms(4)] page.no_trailing [OF page.decode_encode [OF c] assms(5)]
    by (simp add: pageReader_iff)
qed

theorem bootstrap_damaged_page_refused_witness:
  "\<exists>err. desktopDecodePage (take 30 (projr (encodeBootstrapPage demoDocs))) = Inl err"
  using bootstrap_damaged_page_refused [OF demo_page(3,1,2,4), of "[0]"] by blast

text \<open>The desktop's reader is the stricter one. Every page the desktop accepts, the server's own
  reader accepts with the same documents, and the page is no longer than its records.\<close>

theorem bootstrap_readers_agree:
  assumes "desktopDecodePage page = Inr docs"
  shows "decodeBootstrapPage page = Inr docs"
proof -
  note a = assms [unfolded desktop_accepts]
  have len: "12 \<le> length page" using a by (simp add: BOOTSTRAP_HEADER_BYTES_def)
  have nth: "page ! i = MAGIC_BYTES ! i" if "i < 4" for i
    using a that by (metis nth_take)
  have "getU32LE page 0 = BOOTSTRAP_MAGIC"
    using nth [of 0] nth [of 1] nth [of 2] nth [of 3]
    by (simp add: getU32LE_def MAGIC_BYTES_def BOOTSTRAP_MAGIC_def numeral_2_eq_2 [symmetric])
  moreover have "decodeRecords (getU32LE page 6) (drop BOOTSTRAP_HEADER_BYTES page) = Inr docs"
    using a desktopRecords_server by blast
  ultimately show ?thesis using a by (simp add: decodeBootstrapPage_def)
qed

theorem bootstrap_readers_agree_witness:
  "decodeBootstrapPage (projr (encodeBootstrapPage demoDocs)) = Inr demoDocs"
  by (rule bootstrap_readers_agree) (use page_roundtrip [OF demo_page(3)] demo_page(1,2) in \<open>simp add: list_all_iff\<close>)

text \<open>A path that begins with a byte order mark does not survive: the decoder takes it for an
  encoding mark and drops it, so the desktop reads another path than the server wrote.\<close>

lemma text_bom_dropped:
  "textDecode (textEncode [0xFEFF, 0x61, 0x2E, 0x6D, 0x64]) = [0x61, 0x2E, 0x6D, 0x64]"
  by (simp add: textDecode_def textEncode_def encodeCp_def highSurrogate_def lowSurrogate_def utf8_lead_def
      unitsOf_def byte_def)

lemma voice_roundtrip:
  assumes "encodeVoiceEnvelope h audio = Some bs"
  shows "decodeVoiceEnvelope bs = Some (h, audio) \<and> isVoiceFrame bs"
proof -
  have bs: "bs = [byte VOICE_FRAME, byte (length h div 256), byte (length h)] @ h @ audio" "length h \<le> 65535"
    using assms by (auto simp: encodeVoiceEnvelope_def split: if_splits)
  then have "getU16BE bs 1 = length h" by (simp add: getU16BE_def unat_byte)
  then show ?thesis
    by (simp add: decodeVoiceEnvelope_def Let_def isVoiceFrame_def) (simp add: bs(1) VOICE_FRAME_def numeral_3_eq_3)
qed

end
