(* ===== verification/Bridge_Diff.thy ===== *)
theory Bridge_Diff
  imports Prelude
begin

text \<open>
  The helpers of the note bridge: diffs and their replay on a text
  (\<open>desktop/src/lib/bridge/diff.ts\<close>), and what counts as a blank file
  (\<open>desktop/src/lib/bridge/blankFile.ts\<close>). The diff itself is computed by the diff-match-patch
  package, a parameter of the definitions that use it.
\<close>

section \<open>Diffs\<close>

datatype diff_op = DEqual | DDelete | DInsert

type_synonym diff = "diff_op \<times> string"

text \<open>What a diff says of the two versions: its old text and its new text.\<close>

fun diffOld :: "diff list \<Rightarrow> string" where
  "diffOld [] = []"
| "diffOld ((op, t) # ds) = (if op = DInsert then [] else t) @ diffOld ds"

fun diffNew :: "diff list \<Rightarrow> string" where
  "diffNew [] = []"
| "diffNew ((op, t) # ds) = (if op = DDelete then [] else t) @ diffNew ds"

text \<open>The documented result of the diff package.\<close>

definition diff_correct :: "(string \<Rightarrow> string \<Rightarrow> diff list) \<Rightarrow> bool" where
  "diff_correct dmp \<longleftrightarrow> (\<forall>a b. diffOld (dmp a b) = a \<and> diffNew (dmp a b) = b)"

text \<open>\<open>changeRatio\<close> as a fraction: what changed over the size of both versions.\<close>

definition changeRatio :: "diff list \<Rightarrow> nat \<Rightarrow> nat \<Rightarrow> nat \<times> nat" where
  "changeRatio diffs oldLen newLen =
     (let changed = fold (\<lambda>(op, t) n. if op \<noteq> DEqual then n + length t else n) diffs 0;
          base = oldLen + newLen
      in if base = 0 then (0, 1) else (changed, base))"

definition ratioExceeds :: "nat \<times> nat \<Rightarrow> nat \<times> nat \<Rightarrow> bool" where
  "ratioExceeds r limit \<longleftrightarrow> fst r * snd limit > fst limit * snd r"

text \<open>Replaying a diff: insert and delete on a shared text, by position.\<close>

definition applyDiff :: "(nat \<Rightarrow> string \<Rightarrow> 'd \<Rightarrow> 'd) \<Rightarrow> (nat \<Rightarrow> nat \<Rightarrow> 'd \<Rightarrow> 'd) \<Rightarrow> diff list \<Rightarrow> 'd \<Rightarrow> 'd" where
  "applyDiff ins del diffs d =
     snd (fold (\<lambda>(op, t) (index, d).
        case op of
          DEqual \<Rightarrow> (index + length t, d)
        | DDelete \<Rightarrow> (index, del index (length t) d)
        | DInsert \<Rightarrow> (index + length t, ins index t d)) diffs (0, d))"

text \<open>\<open>String.prototype.indexOf\<close>, None for -1.\<close>

fun index_of :: "string \<Rightarrow> string \<Rightarrow> nat option" where
  "index_of s [] = (if s = [] then Some 0 else None)"
| "index_of s (c # cs) =
     (if take (length s) (c # cs) = s then Some 0 else map_option Suc (index_of s cs))"

definition MIN_STRIPPED_PULL_INSERT :: nat where "MIN_STRIPPED_PULL_INSERT = 8"

text \<open>One insert hunk against the pull's insertions; a consumed insertion becomes empty.\<close>

fun stripPulled :: "string list \<Rightarrow> string \<Rightarrow> string list \<times> string" where
  "stripPulled [] rest = ([], rest)"
| "stripPulled (s # pulled) rest =
     (if rest = [] then (s # pulled, rest)
      else if s = [] \<or> (s \<noteq> rest \<and> length s < MIN_STRIPPED_PULL_INSERT)
      then (let (p, r) = stripPulled pulled rest in (s # p, r))
      else (case index_of s rest of
              None \<Rightarrow> (let (p, r) = stripPulled pulled rest in (s # p, r))
            | Some at \<Rightarrow>
                (let (p, r) = stripPulled pulled (take at rest @ drop (at + length s) rest) in ([] # p, r))))"

fun stripHunks :: "string list \<Rightarrow> diff list \<Rightarrow> diff list" where
  "stripHunks pulled [] = []"
| "stripHunks pulled ((op, t) # ds) =
     (if op \<noteq> DInsert then (op, t) # stripHunks pulled ds
      else
        (let (pulled', rest) = stripPulled pulled t in
         (if rest \<noteq> [] then [(DInsert, rest)] else []) @ stripHunks pulled' ds))"

definition withoutPullInsertions :: "diff list \<Rightarrow> diff list \<Rightarrow> diff list \<Rightarrow> diff list" where
  "withoutPullInsertions preToFile preToLive liveToFile =
     (if \<not> list_ex (\<lambda>d. fst d = DInsert) liveToFile
      then filter (\<lambda>d. fst d \<noteq> DInsert) preToFile
      else
        (let pulled = map snd (filter (\<lambda>d. fst d = DInsert) preToLive) in
         if pulled = [] then preToFile else stripHunks pulled preToFile))"

section \<open>Blank files\<close>

definition BLANK_INGEST_MIN_CHARS :: nat where "BLANK_INGEST_MIN_CHARS = 200"

text \<open>The frontmatter expression: an opening line of three dashes, then as little as possible up
  to a line break and a closing fence, or the closing fence at once. \<open>fenceEnd\<close> is a closing
  fence at the start of its argument (what follows it), \<open>fenceSearch\<close> the first one after a line
  break. The optional byte order mark is not a code unit below 256.\<close>

definition blankChar :: "char \<Rightarrow> bool" where
  "blankChar c \<longleftrightarrow> c = CHR '' '' \<or> c = CHR 0x09"

definition lineEnd :: "string \<Rightarrow> string option" where
  "lineEnd s =
     (case s of
        c # d # r \<Rightarrow> if c = CHR 0x0D \<and> d = CHR 0x0A then Some r else if c = CHR 0x0A then Some (d # r) else None
      | [c] \<Rightarrow> if c = CHR 0x0A then Some [] else None
      | [] \<Rightarrow> None)"

definition fenceEnd :: "string \<Rightarrow> string option" where
  "fenceEnd s =
     (if take 3 s = ''---'' \<or> take 3 s = ''...'' then
        (let r = dropWhile blankChar (drop 3 s) in if r = [] then Some [] else lineEnd r)
      else None)"

fun fenceSearch :: "string \<Rightarrow> string option" where
  "fenceSearch [] = None"
| "fenceSearch (c # cs) =
     (if c = CHR 0x0A then (case fenceEnd cs of Some r \<Rightarrow> Some r | None \<Rightarrow> fenceSearch cs)
      else fenceSearch cs)"

definition noteBody :: "string \<Rightarrow> string" where
  "noteBody text =
     (if take 3 text = ''---'' then
        (case lineEnd (dropWhile blankChar (drop 3 text)) of
           None \<Rightarrow> text
         | Some rest \<Rightarrow>
             (case fenceSearch rest of
                Some body \<Rightarrow> body
              | None \<Rightarrow> (case fenceEnd rest of Some body \<Rightarrow> body | None \<Rightarrow> text)))
      else text)"

definition meaningfulLength :: "string \<Rightarrow> nat" where
  "meaningfulLength text = length (js_trim (noteBody text))"

definition isBlankTruncation :: "string \<Rightarrow> string \<Rightarrow> bool" where
  "isBlankTruncation docText fileText =
     (if meaningfulLength fileText > 0 then False else meaningfulLength docText \<ge> BLANK_INGEST_MIN_CHARS)"

section \<open>Replaying a diff gives the new text\<close>

text \<open>A shared text whose insert and delete do to its text what they do to a string.\<close>

definition text_ops :: "('d \<Rightarrow> string) \<Rightarrow> (nat \<Rightarrow> string \<Rightarrow> 'd \<Rightarrow> 'd) \<Rightarrow> (nat \<Rightarrow> nat \<Rightarrow> 'd \<Rightarrow> 'd) \<Rightarrow> bool" where
  "text_ops txt ins del \<longleftrightarrow>
     (\<forall>d i t. i \<le> length (txt d) \<longrightarrow> txt (ins i t d) = take i (txt d) @ t @ drop i (txt d)) \<and>
     (\<forall>d i n. i + n \<le> length (txt d) \<longrightarrow> txt (del i n d) = take i (txt d) @ drop (i + n) (txt d))"

lemma applyDiff_fold:
  assumes ops: "text_ops txt ins del" and "txt d = pre @ diffOld ds"
  shows "txt (snd (fold (\<lambda>(op, t) (index, d).
        case op of
          DEqual \<Rightarrow> (index + length t, d)
        | DDelete \<Rightarrow> (index, del index (length t) d)
        | DInsert \<Rightarrow> (index + length t, ins index t d)) ds (length pre, d))) = pre @ diffNew ds"
  using assms(2)
proof (induction ds arbitrary: pre d)
  case (Cons x ds)
  obtain op t where x: "x = (op, t)" by (cases x)
  show ?case
  proof (cases op)
    case DEqual
    then show ?thesis using Cons.IH [of d "pre @ t"] Cons.prems x by simp
  next
    case DDelete
    then have "txt (del (length pre) (length t) d) = pre @ diffOld ds"
      using ops Cons.prems x by (simp add: text_ops_def)
    then show ?thesis using Cons.IH [of "del (length pre) (length t) d" pre] x DDelete by simp
  next
    case DInsert
    then have "txt (ins (length pre) t d) = (pre @ t) @ diffOld ds"
      using ops Cons.prems x by (simp add: text_ops_def)
    then show ?thesis using Cons.IH [of "ins (length pre) t d" "pre @ t"] x DInsert by simp
  qed
qed simp

lemma applyDiff_text:
  assumes "text_ops txt ins del" "txt d = diffOld ds"
  shows "txt (applyDiff ins del ds d) = diffNew ds"
  using applyDiff_fold [OF assms(1), of d "[]" ds] assms(2) by (simp add: applyDiff_def)

end
