(* ===== verification/Note_Bridge.thy ===== *)
theory Note_Bridge
  imports Bridge_Diff
begin

text \<open>
  The note bridge (\<open>desktop/src/lib/bridge/noteBridge.ts\<close>): one note's shared text on one side, its
  Markdown file on the other. \<open>ingest\<close> reads the file into the text, \<open>egest\<close> writes the text to
  the file, and while a signed-in bridge waits for its first pull neither runs.

  Every stretch of code between two awaits is one step; what an await delivers (a read, a write,
  a saved copy) comes with the event that resumes it, so other programs' writes, peers' updates
  and the user's edits can fall between any two steps. The shared text is the Yjs package and the
  diff is the diff-match-patch package: both are arguments, in \<open>bridge_env\<close>, as is the digest.
  The file, the recovery copies and the history of reads and writes are part of the state.
\<close>

section \<open>The environment\<close>

record ('d, 'u, 'v) bridge_env =
  crText :: "'d \<Rightarrow> string"
  crNew :: 'd
  crEncode :: "'d \<Rightarrow> 'u"
  crVector :: "'d \<Rightarrow> 'v"
  crEncodeSince :: "'d \<Rightarrow> 'v \<Rightarrow> 'u"
  crApply :: "'u \<Rightarrow> 'd \<Rightarrow> 'd"
  crInsert :: "nat \<Rightarrow> string \<Rightarrow> 'd \<Rightarrow> 'd"
  crDelete :: "nat \<Rightarrow> nat \<Rightarrow> 'd \<Rightarrow> 'd"
  crTouched :: "'d \<Rightarrow> 'd \<Rightarrow> bool"
  dmpMain :: "string \<Rightarrow> string \<Rightarrow> diff list"
  sha256 :: "string \<Rightarrow> string"
  cfgMaxIngest :: nat
  cfgAllowTruncate :: bool
  cfgLargeRatio :: "nat \<times> nat"
  cfgPullTimeout :: nat
  ioKeeper :: bool
  ioSaveAside :: bool

section \<open>State\<close>

text \<open>Who asked for an ingest pass; what its caller does when it ends depends on it.\<close>

datatype requester = PassDebounced | PassNow | PassReconcile | PassFlush | PassStale

record 'd ingest_ctx =
  icTracking :: bool
  icFixed :: bool
  icBaseline :: "'d option"
  icHad :: bool
  icWho :: requester

text \<open>Where a pass waits: for the file, for its digest, for a copy to be kept, for a snapshot.\<close>

datatype ingest_pc = IRead | IHash string | IKeep string string | ISnap string string "diff list"

datatype 'd egest_pc =
    EGuard string
  | EHash string
  | ESave string string "string \<times> string"
  | EWrite string string "string option" "'d option"
  | EAck string string "'d option" bool

datatype seed_pc = SRead | SHash string

text \<open>
  What became of bytes the bridge saw on disk. \<open>Unproven\<close>: read at open and remembered, to be copied
  before the first write that differs (\<open>unagreedFile\<close>); \<open>LetGo\<close>: forgotten again without a copy.
\<close>

datatype verdict =
    Echo | Same | Behind | Blank | Oversize | ReadOnlyEmpty | Kept | NotKept | Unseeded | Covered
  | Merged | Dropped | Seeded | Unproven | LetGo | OwnText | Written

record ('d, 'u) bridge =
  nbDoc :: 'd
  nbSeedOnOpen :: bool
  nbReadOnly :: bool
  nbLast :: "string option"
  nbPending :: "string option"
  nbBase :: "string option"
  nbObserved :: "(string \<times> 'u option) option"
  nbBlind :: bool
  nbPrePull :: "'u option"
  nbEgestDeferred :: bool
  nbPullTimer :: bool
  nbIngestTimer :: bool
  nbEgestTimer :: bool
  nbDirty :: bool
  nbOversizeReported :: bool
  nbTruncateReported :: bool
  nbUnreported :: bool
  nbUnagreed :: "(string \<times> string) option"
  nbSnapshotTaken :: bool
  nbEverHad :: bool
  nbDestroyed :: bool
  nbFailures :: nat
  nbIngest :: "(ingest_pc \<times> 'd ingest_ctx) option"
  nbIngestQueue :: "(requester \<times> 'u option) list"
  nbEgest :: "('u egest_pc \<times> bool) option"
  nbEgestQueue :: "bool list"
  nbSeeds :: "seed_pc list"
  nbFile :: "string option"
  nbCopies :: "string list"
  nbSeen :: "(string \<times> verdict) list"
  nbReports :: "(requester \<times> bool) list"
  nbOverwrites :: "(string \<times> string \<times> string option) list"

abbreviation docText :: "('d, 'u, 'v) bridge_env \<Rightarrow> ('d, 'u) bridge \<Rightarrow> string" where
  "docText env b \<equiv> crText env (nbDoc b)"

section \<open>Small steps of the code\<close>

definition saw :: "string \<Rightarrow> verdict \<Rightarrow> ('d, 'u) bridge \<Rightarrow> ('d, 'u) bridge" where
  "saw c v b = b\<lparr>nbSeen := nbSeen b @ [(c, v)]\<rparr>"

text \<open>
  \<open>unagreedFile = null\<close>, with what becomes of its bytes when the note took in \<open>t\<close> or reads \<open>t\<close>: \<open>v\<close>
  when they are \<open>t\<close>, else they are let go, which is recorded when something else is known to be in
  their place (\<open>moved\<close>).
\<close>

definition letGo :: "verdict \<Rightarrow> bool \<Rightarrow> string \<Rightarrow> ('d, 'u) bridge \<Rightarrow> ('d, 'u) bridge" where
  "letGo v moved t b =
     (case nbUnagreed b of
        None \<Rightarrow> b
      | Some ua \<Rightarrow>
          (let b1 = b\<lparr>nbUnagreed := None\<rparr>
           in if fst ua = t then saw t v b1 else if moved then saw (fst ua) LetGo b1 else b1))"

text \<open>\<open>observe(hash)\<close> keeps the state it has for the same bytes; with a state it replaces it.\<close>

definition observe :: "string \<Rightarrow> ('d, 'u) bridge \<Rightarrow> ('d, 'u) bridge" where
  "observe h b =
     (case nbObserved b of
        Some (h', st) \<Rightarrow> if h' = h then b else b\<lparr>nbObserved := Some (h, None)\<rparr>
      | None \<Rightarrow> b\<lparr>nbObserved := Some (h, None)\<rparr>)"

definition observeState :: "string \<Rightarrow> 'u option \<Rightarrow> ('d, 'u) bridge \<Rightarrow> ('d, 'u) bridge" where
  "observeState h st b = b\<lparr>nbObserved := Some (h, st)\<rparr>"

definition stateIfText :: "('d, 'u, 'v) bridge_env \<Rightarrow> string \<Rightarrow> 'd \<Rightarrow> 'u option" where
  "stateIfText env t d = (if crText env d = t then Some (crEncode env d) else None)"

definition recordDiskBase :: "string \<Rightarrow> ('d, 'u) bridge \<Rightarrow> ('d, 'u) bridge" where
  "recordDiskBase h b = b\<lparr>nbBase := Some h\<rparr>"

definition scheduleEgest :: "('d, 'u) bridge \<Rightarrow> ('d, 'u) bridge" where
  "scheduleEgest b =
     (if nbDestroyed b then b
      else if nbPrePull b \<noteq> None then b\<lparr>nbEgestDeferred := True\<rparr>
      else b\<lparr>nbEgestTimer := True\<rparr>)"

definition scheduleEgestRetry :: "('d, 'u) bridge \<Rightarrow> ('d, 'u) bridge" where
  "scheduleEgestRetry b = (if nbDestroyed b then b else b\<lparr>nbEgestTimer := True\<rparr>)"

definition clearWriteFailure :: "('d, 'u) bridge \<Rightarrow> ('d, 'u) bridge" where
  "clearWriteFailure b = b\<lparr>nbFailures := 0\<rparr>"

text \<open>
  A transaction: a tracking pass keeps the document as it was, then the text's observers run.
  \<open>destroy\<close> takes every observer off.
\<close>

definition copyDoc :: "('d, 'u, 'v) bridge_env \<Rightarrow> 'd \<Rightarrow> 'd" where
  "copyDoc env d = crApply env (crEncode env d) (crNew env)"

definition capture :: "('d, 'u, 'v) bridge_env \<Rightarrow> ('d, 'u) bridge \<Rightarrow> ('d, 'u) bridge" where
  "capture env b =
     (case nbIngest b of
        Some (pc, ctx) \<Rightarrow>
          if icTracking ctx \<and> icBaseline ctx = None
          then b\<lparr>nbIngest := Some (pc, ctx\<lparr>icBaseline := Some (copyDoc env (nbDoc b))\<rparr>)\<rparr> else b
      | None \<Rightarrow> b)"

definition onTextChange :: "('d, 'u, 'v) bridge_env \<Rightarrow> bool \<Rightarrow> ('d, 'u) bridge \<Rightarrow> ('d, 'u) bridge" where
  "onTextChange env fromDisk b =
     (let b1 = (if docText env b \<noteq> [] then b\<lparr>nbEverHad := True\<rparr> else b)
      in if fromDisk then b1 else scheduleEgest b1)"

definition transact :: "('d, 'u, 'v) bridge_env \<Rightarrow> bool \<Rightarrow> 'd \<Rightarrow> ('d, 'u) bridge \<Rightarrow> ('d, 'u) bridge" where
  "transact env fromDisk d' b =
     (if nbDestroyed b then b\<lparr>nbDoc := d'\<rparr>
      else
        (let b1 = (capture env b)\<lparr>nbDoc := d'\<rparr>
         in if crTouched env (nbDoc b) d' then onTextChange env fromDisk b1 else b1))"

section \<open>The pull wait, requests for passes\<close>

definition drainIngest :: "requester \<Rightarrow> 'u option \<Rightarrow> ('d, 'u) bridge \<Rightarrow> ('d, 'u) bridge" where
  "drainIngest who base b = b\<lparr>nbIngestQueue := nbIngestQueue b @ [(who, base)]\<rparr>"

definition drainEgest :: "bool \<Rightarrow> ('d, 'u) bridge \<Rightarrow> ('d, 'u) bridge" where
  "drainEgest through b = b\<lparr>nbEgestQueue := nbEgestQueue b @ [through]\<rparr>"

definition beginPull :: "('d, 'u, 'v) bridge_env \<Rightarrow> ('d, 'u) bridge \<Rightarrow> ('d, 'u) bridge" where
  "beginPull env b =
     (if nbDestroyed b \<or> nbPrePull b \<noteq> None then b
      else b\<lparr>nbPrePull := Some (crEncode env (nbDoc b)), nbDirty := True, nbIngestTimer := False,
             nbEgestTimer := False, nbEgestDeferred := (nbEgestTimer b \<or> nbEgestDeferred b),
             nbPullTimer := (cfgPullTimeout env > 0 \<or> nbPullTimer b)\<rparr>)"

definition releasePull :: "('d, 'u) bridge \<Rightarrow> ('d, 'u) bridge" where
  "releasePull b = b\<lparr>nbPrePull := None, nbPullTimer := False\<rparr>"

definition reconcileAfterPull :: "requester \<Rightarrow> ('d, 'u) bridge \<Rightarrow> ('d, 'u) bridge" where
  "reconcileAfterPull who b =
     (if nbDestroyed b then b
      else case nbPrePull b of
        None \<Rightarrow> b
      | Some pre \<Rightarrow> drainIngest who (Some pre) ((releasePull b)\<lparr>nbIngestTimer := False, nbDirty := True\<rparr>))"

definition abandonPull :: "bool \<Rightarrow> ('d, 'u) bridge \<Rightarrow> ('d, 'u) bridge" where
  "abandonPull egest b =
     (if nbPrePull b = None then b
      else
        (let b1 = (releasePull b)\<lparr>nbEgestDeferred := False\<rparr>
         in if nbEgestDeferred b \<and> egest then scheduleEgest b1 else b1))"

definition ingest :: "('d, 'u) bridge \<Rightarrow> ('d, 'u) bridge" where
  "ingest b =
     (if nbDestroyed b then b
      else if nbPrePull b \<noteq> None then b\<lparr>nbDirty := True\<rparr>
      else b\<lparr>nbDirty := True, nbIngestTimer := True\<rparr>)"

definition ingestNow :: "('d, 'u) bridge \<Rightarrow> ('d, 'u) bridge" where
  "ingestNow b =
     (if nbDestroyed b then b
      else if nbPrePull b \<noteq> None then reconcileAfterPull PassReconcile b
      else drainIngest PassNow None (b\<lparr>nbIngestTimer := False, nbDirty := True\<rparr>))"

definition flushTail :: "('d, 'u) bridge \<Rightarrow> ('d, 'u) bridge" where
  "flushTail b = (if nbEgestTimer b then drainEgest False (b\<lparr>nbEgestTimer := False\<rparr>) else b)"

definition flushEgest :: "('d, 'u) bridge \<Rightarrow> ('d, 'u) bridge" where
  "flushEgest b =
     (if nbPrePull b \<noteq> None \<and> nbEgestDeferred b \<and> \<not> nbDestroyed b then reconcileAfterPull PassFlush b
      else flushTail b)"

definition cancelEgest :: "('d, 'u) bridge \<Rightarrow> ('d, 'u) bridge" where
  "cancelEgest b = b\<lparr>nbEgestDeferred := False, nbEgestTimer := False\<rparr>"

definition writeThrough :: "('d, 'u) bridge \<Rightarrow> ('d, 'u) bridge" where
  "writeThrough b =
     (if nbDestroyed b then b
      else drainEgest True ((abandonPull False b)\<lparr>nbEgestTimer := False, nbLast := None, nbBlind := True\<rparr>))"

definition destroyBridge :: "('d, 'u) bridge \<Rightarrow> ('d, 'u) bridge" where
  "destroyBridge b =
     (if nbDestroyed b then b
      else releasePull (b\<lparr>nbDestroyed := True, nbIngestTimer := False, nbEgestTimer := False\<rparr>))"

section \<open>An ingest pass\<close>

text \<open>The end of a pass, and what its caller does then: report, and release a deferred egest.\<close>

definition endIngest :: "requester \<Rightarrow> bool \<Rightarrow> ('d, 'u) bridge \<Rightarrow> ('d, 'u) bridge" where
  "endIngest who changed b =
     (let b1 = b\<lparr>nbIngest := None\<rparr>;
          b2 = (if (who = PassReconcile \<or> who = PassFlush) \<and> nbEgestDeferred b1
                then scheduleEgest (b1\<lparr>nbEgestDeferred := False\<rparr>) else b1);
          b3 = (if who = PassNow \<or> who = PassReconcile \<or> who = PassFlush
                then b2\<lparr>nbReports := nbReports b2 @ [(who, changed \<or> nbUnreported b2)], nbUnreported := False\<rparr>
                else b2)
      in if who = PassFlush then flushTail b3 else b3)"

definition judged :: "string \<Rightarrow> verdict \<Rightarrow> bool \<Rightarrow> 'd ingest_ctx \<Rightarrow> ('d, 'u) bridge \<Rightarrow> ('d, 'u) bridge" where
  "judged c v changed ctx b = endIngest (icWho ctx) changed (saw c v b)"

definition startIngest :: "('d, 'u, 'v) bridge_env \<Rightarrow> ('d, 'u) bridge \<Rightarrow> ('d, 'u) bridge" where
  "startIngest env b =
     (case (nbIngest b, nbIngestQueue b) of
        (None, (who, base) # rest) \<Rightarrow>
          (let b1 = b\<lparr>nbIngestQueue := rest\<rparr> in
           if nbDestroyed b \<or> \<not> nbDirty b then endIngest who False b1
           else
             b1\<lparr>nbDirty := False,
                nbIngest := Some (IRead,
                  (case base of
                     Some u \<Rightarrow> \<lparr>icTracking = False, icFixed = True, icBaseline = Some (crApply env u (crNew env)),
                                icHad = nbEverHad b, icWho = who\<rparr>
                   | None \<Rightarrow> \<lparr>icTracking = True, icFixed = False, icBaseline = None, icHad = nbEverHad b,
                             icWho = who\<rparr>))\<rparr>)
      | _ \<Rightarrow> b)"

definition baseDoc :: "'d ingest_ctx \<Rightarrow> ('d, 'u) bridge \<Rightarrow> 'd" where
  "baseDoc ctx b = (case icBaseline ctx of Some d \<Rightarrow> d | None \<Rightarrow> nbDoc b)"

definition oversized :: "('d, 'u, 'v) bridge_env \<Rightarrow> string \<Rightarrow> bool" where
  "oversized env c \<longleftrightarrow> cfgMaxIngest env > 0 \<and> length c > cfgMaxIngest env"

definition ingestRead :: "('d, 'u, 'v) bridge_env \<Rightarrow> bool \<Rightarrow> 'd ingest_ctx \<Rightarrow> ('d, 'u) bridge \<Rightarrow> ('d, 'u) bridge" where
  "ingestRead env ok ctx b =
     (case (if ok then nbFile b else None) of
        None \<Rightarrow> endIngest (icWho ctx) False (b\<lparr>nbObserved := None\<rparr>)
      | Some c \<Rightarrow> b\<lparr>nbOversizeReported := oversized env c, nbIngest := Some (IHash c, ctx)\<rparr>)"

text \<open>The merge proper: the diff is replayed on the base and the base's operations join the text.\<close>

definition applyMerge :: "('d, 'u, 'v) bridge_env \<Rightarrow> string \<Rightarrow> string \<Rightarrow> diff list \<Rightarrow> 'd ingest_ctx
    \<Rightarrow> ('d, 'u) bridge \<Rightarrow> ('d, 'u) bridge" where
  "applyMerge env c h diffs ctx b =
     (if nbDestroyed b then judged c Dropped False ctx b
      else if docText env b = c then judged c Same False ctx (b\<lparr>nbLast := Some h\<rparr>)
      else
        (let b1 = b\<lparr>nbIngest := None\<rparr>;
             target' = applyDiff (crInsert env) (crDelete env) diffs (baseDoc ctx b);
             b2 = (case icBaseline ctx of
                     None \<Rightarrow> observeState h (stateIfText env c target') (transact env True target' b1)
                   | Some d \<Rightarrow>
                       (let doc' = crApply env (crEncodeSince env target' (crVector env d)) (nbDoc b);
                            b3 = transact env True doc' (observeState h (stateIfText env c target') b1)
                        in if docText env b3 \<noteq> c then scheduleEgest (b3\<lparr>nbPending := Some h\<rparr>) else b3))
         in letGo Merged True c (judged c Merged True ctx (recordDiskBase h (b2\<lparr>nbUnreported := True\<rparr>)))))"

definition isBlankFile :: "string \<Rightarrow> string \<Rightarrow> bool" where
  "isBlankFile current c = (if c = [] then current \<noteq> [] else isBlankTruncation current c)"

text \<open>After the digest: the guards of \<open>mergeDiskRead\<close>, in their order.\<close>

definition mergeDiskRead :: "('d, 'u, 'v) bridge_env \<Rightarrow> string \<Rightarrow> 'd ingest_ctx \<Rightarrow> ('d, 'u) bridge \<Rightarrow> ('d, 'u) bridge" where
  "mergeDiskRead env c ctx b0 =
     (let h = sha256 env c; b = observe h b0; current = crText env (baseDoc ctx b) in
      if oversized env c then judged c Oversize False ctx b
      else if nbLast b = Some h \<or> nbPending b = Some h then judged c Echo False ctx b
      else if docText env b = c then
        judged c Same False ctx
          (observeState h (Some (crEncode env (nbDoc b))) (recordDiskBase h (b\<lparr>nbLast := Some h\<rparr>)))
      else if nbBase b = Some h then judged c Behind False ctx (scheduleEgest (b\<lparr>nbLast := Some h\<rparr>))
      else if current = c then
        judged c OwnText False ctx
          (if icBaseline ctx \<noteq> None then scheduleEgest (b\<lparr>nbLast := Some h\<rparr>) else b)
      else if isBlankFile current c \<and> \<not> cfgAllowTruncate env then
        judged c Blank False ctx (b\<lparr>nbTruncateReported := True\<rparr>)
      else
        (let b1 = b\<lparr>nbTruncateReported := False\<rparr> in
         if nbReadOnly b1 then
           (if current = [] then judged c ReadOnlyEmpty False ctx b1
            else b1\<lparr>nbIngest := Some (IKeep c h, ctx)\<rparr>)
         else if current = [] \<and> \<not> icHad ctx \<and> \<not> nbSeedOnOpen b1 then judged c Unseeded False ctx b1
         else
           (let full = dmpMain env current c;
                live = docText env b1;
                diffs = (if icFixed ctx
                         then withoutPullInsertions full (dmpMain env current live) (dmpMain env live c)
                         else full)
            in if icFixed ctx \<and> \<not> list_ex (\<lambda>d. fst d \<noteq> DEqual) diffs
               then judged c Covered False ctx (scheduleEgest (b1\<lparr>nbLast := Some h\<rparr>))
               else if ratioExceeds (changeRatio diffs (length current) (length c)) (cfgLargeRatio env)
               then b1\<lparr>nbIngest := Some (ISnap c h diffs, ctx)\<rparr>
               else applyMerge env c h diffs ctx b1)))"

definition saveAside :: "('d, 'u, 'v) bridge_env \<Rightarrow> bool \<Rightarrow> string \<Rightarrow> ('d, 'u) bridge \<Rightarrow> bool \<times> ('d, 'u) bridge" where
  "saveAside env ok c b =
     (if \<not> ioSaveAside env then (True, b)
      else if ok then (True, b\<lparr>nbCopies := nbCopies b @ [c]\<rparr>) else (False, b))"

definition keepCopy :: "('d, 'u, 'v) bridge_env \<Rightarrow> bool \<Rightarrow> string \<Rightarrow> string \<Rightarrow> 'd ingest_ctx
    \<Rightarrow> ('d, 'u) bridge \<Rightarrow> ('d, 'u) bridge" where
  "keepCopy env ok c h ctx b =
     (let (kept, b1) = (if ioKeeper env then (ok, if ok then b\<lparr>nbCopies := nbCopies b @ [c]\<rparr> else b)
                        else saveAside env ok c b);
          b2 = (if kept \<and> \<not> nbDestroyed b1 then scheduleEgest (b1\<lparr>nbLast := Some h\<rparr>) else b1)
      in judged c (if kept then Kept else NotKept) False ctx b2)"

definition ingestIO :: "('d, 'u, 'v) bridge_env \<Rightarrow> bool \<Rightarrow> ('d, 'u) bridge \<Rightarrow> ('d, 'u) bridge" where
  "ingestIO env ok b =
     (case nbIngest b of
        None \<Rightarrow> b
      | Some (IRead, ctx) \<Rightarrow> ingestRead env ok ctx b
      | Some (IHash c, ctx) \<Rightarrow> mergeDiskRead env c ctx b
      | Some (IKeep c h, ctx) \<Rightarrow> keepCopy env ok c h ctx b
      | Some (ISnap c h diffs, ctx) \<Rightarrow>
          applyMerge env c h diffs ctx (if ok then b\<lparr>nbSnapshotTaken := True\<rparr> else b))"

section \<open>An egest pass\<close>

definition endEgest :: "bool \<Rightarrow> ('d, 'u) bridge \<Rightarrow> ('d, 'u) bridge" where
  "endEgest through b = (if through then b\<lparr>nbEgest := None, nbBlind := False\<rparr> else b\<lparr>nbEgest := None\<rparr>)"

definition startEgest :: "('d, 'u, 'v) bridge_env \<Rightarrow> ('d, 'u) bridge \<Rightarrow> ('d, 'u) bridge" where
  "startEgest env b =
     (case (nbEgest b, nbEgestQueue b) of
        (None, through # rest) \<Rightarrow>
          (let b1 = b\<lparr>nbEgestQueue := rest\<rparr>; content = docText env b in
           if nbDestroyed b then endEgest through b1
           else if content = [] \<and> (\<not> nbEverHad b \<or> nbReadOnly b)
           then b1\<lparr>nbEgest := Some (EGuard content, through)\<rparr>
           else b1\<lparr>nbEgest := Some (EHash content, through)\<rparr>)
      | _ \<Rightarrow> b)"

text \<open>The compare-and-swap base is read together with the state the written bytes come from.\<close>

definition beginWrite :: "('d, 'u, 'v) bridge_env \<Rightarrow> string \<Rightarrow> string \<Rightarrow> bool \<Rightarrow> ('d, 'u) bridge \<Rightarrow> ('d, 'u) bridge" where
  "beginWrite env content h through b =
     b\<lparr>nbBlind := False,
       nbEgest := Some (EWrite content h (if nbBlind b then None else map_option fst (nbObserved b))
                          (stateIfText env content (nbDoc b)), through)\<rparr>"

definition egestHashed :: "('d, 'u, 'v) bridge_env \<Rightarrow> string \<Rightarrow> bool \<Rightarrow> ('d, 'u) bridge \<Rightarrow> ('d, 'u) bridge" where
  "egestHashed env content through b =
     (let h = sha256 env content in
      if nbLast b = Some h then endEgest through (clearWriteFailure (letGo Same True content b))
      else case nbUnagreed b of
        None \<Rightarrow> beginWrite env content h through b
      | Some ua \<Rightarrow>
          if content = fst ua then beginWrite env content h through (letGo Same False content b)
          else if map_option fst (nbObserved b) = Some (snd ua)
          then b\<lparr>nbEgest := Some (ESave content h ua, through)\<rparr>
          else beginWrite env content h through (letGo Same (map_option fst (nbObserved b) \<noteq> Some (snd ua)) content b))"

definition egestSaved :: "('d, 'u, 'v) bridge_env \<Rightarrow> bool \<Rightarrow> string \<Rightarrow> string \<Rightarrow> string \<times> string \<Rightarrow> bool
    \<Rightarrow> ('d, 'u) bridge \<Rightarrow> ('d, 'u) bridge" where
  "egestSaved env ok content h ua through b =
     (let (saved, b1) = saveAside env ok (fst ua) b in
      if \<not> saved then endEgest through b1
      else
        (let b2 = (if nbUnagreed b1 = Some ua then b1\<lparr>nbUnagreed := None\<rparr> else b1) in
         if nbDestroyed b2 \<or> docText env b2 \<noteq> content then endEgest through b2
         else beginWrite env content h through b2))"

definition fileBytes :: "('d, 'u) bridge \<Rightarrow> string" where
  "fileBytes b = (case nbFile b of None \<Rightarrow> [] | Some c \<Rightarrow> c)"

text \<open>\<open>writeFileAtomic\<close>: a missing file hashes as the empty text.\<close>

definition egestWrite :: "('d, 'u, 'v) bridge_env \<Rightarrow> bool \<Rightarrow> string \<Rightarrow> string \<Rightarrow> string option \<Rightarrow> 'u option
    \<Rightarrow> bool \<Rightarrow> ('d, 'u) bridge \<Rightarrow> ('d, 'u) bridge" where
  "egestWrite env ok content h expected st through b =
     (if \<not> ok then endEgest through (scheduleEgestRetry (b\<lparr>nbFailures := nbFailures b + 1\<rparr>))
      else if expected \<noteq> None \<and> expected \<noteq> Some (sha256 env (fileBytes b))
      then b\<lparr>nbEgest := Some (EAck content h st True, through)\<rparr>
      else (saw content Written b)\<lparr>nbFile := Some content,
             nbOverwrites := nbOverwrites b @ [(fileBytes b, content, expected)],
             nbEgest := Some (EAck content h st False, through)\<rparr>)"

definition mergeStaleFile :: "('d, 'u) bridge \<Rightarrow> ('d, 'u) bridge" where
  "mergeStaleFile b =
     (if nbDestroyed b then b
      else drainIngest PassStale (case nbObserved b of None \<Rightarrow> None | Some (h, st) \<Rightarrow> st)
             (b\<lparr>nbLast := None, nbIngestTimer := False, nbDirty := True\<rparr>))"

definition egestAcked :: "('d, 'u, 'v) bridge_env \<Rightarrow> string \<Rightarrow> string \<Rightarrow> 'u option \<Rightarrow> bool \<Rightarrow> bool
    \<Rightarrow> ('d, 'u) bridge \<Rightarrow> ('d, 'u) bridge" where
  "egestAcked env content h st stale through b =
     (if stale then endEgest through (mergeStaleFile b)
      else
        (let b1 = observeState h st (b\<lparr>nbLast := Some h, nbBase := Some h\<rparr>);
             b2 = (if docText env b1 = content then b1\<lparr>nbPending := None\<rparr> else b1)
         in endEgest through (clearWriteFailure b2)))"

definition egestIO :: "('d, 'u, 'v) bridge_env \<Rightarrow> bool \<Rightarrow> ('d, 'u) bridge \<Rightarrow> ('d, 'u) bridge" where
  "egestIO env ok b =
     (case nbEgest b of
        None \<Rightarrow> b
      | Some (EGuard content, through) \<Rightarrow>
          if (if ok then fileBytes b else []) \<noteq> [] then endEgest through b
          else b\<lparr>nbEgest := Some (EHash content, through)\<rparr>
      | Some (EHash content, through) \<Rightarrow> egestHashed env content through b
      | Some (ESave content h ua, through) \<Rightarrow> egestSaved env ok content h ua through b
      | Some (EWrite content h expected st, through) \<Rightarrow> egestWrite env ok content h expected st through b
      | Some (EAck content h st stale, through) \<Rightarrow> egestAcked env content h st stale through b)"

section \<open>Seeding an empty note\<close>

text \<open>Calls of \<open>seedFromFileIfEmpty\<close> may overlap: the \<open>k\<close>th one waiting goes on.\<close>

definition startSeed :: "('d, 'u, 'v) bridge_env \<Rightarrow> ('d, 'u) bridge \<Rightarrow> ('d, 'u) bridge" where
  "startSeed env b =
     (if nbDestroyed b \<or> docText env b \<noteq> [] then b else b\<lparr>nbSeeds := nbSeeds b @ [SRead]\<rparr>)"

definition seedRead :: "('d, 'u, 'v) bridge_env \<Rightarrow> nat \<Rightarrow> bool \<Rightarrow> ('d, 'u) bridge \<Rightarrow> ('d, 'u) bridge" where
  "seedRead env k ok b =
     (let b1 = b\<lparr>nbSeeds := take k (nbSeeds b) @ drop (Suc k) (nbSeeds b)\<rparr> in
      case (if ok then nbFile b else None) of
        None \<Rightarrow> b1
      | Some c \<Rightarrow>
          if c = [] \<or> docText env b \<noteq> [] then b1
          else letGo Seeded True c
                 ((transact env True (crInsert env 0 c (nbDoc b)) b)\<lparr>nbSeeds := (nbSeeds b)[k := SHash c]\<rparr>))"

definition seedHashed :: "('d, 'u, 'v) bridge_env \<Rightarrow> nat \<Rightarrow> string \<Rightarrow> ('d, 'u) bridge \<Rightarrow> ('d, 'u) bridge" where
  "seedHashed env k c b =
     (let h = sha256 env c;
          b1 = recordDiskBase h (b\<lparr>nbSeeds := take k (nbSeeds b) @ drop (Suc k) (nbSeeds b), nbLast := Some h\<rparr>)
      in saw c Seeded (observeState h (stateIfText env c (nbDoc b1)) b1))"

definition seedIO :: "('d, 'u, 'v) bridge_env \<Rightarrow> nat \<Rightarrow> bool \<Rightarrow> ('d, 'u) bridge \<Rightarrow> ('d, 'u) bridge" where
  "seedIO env k ok b =
     (if k < length (nbSeeds b)
      then (case nbSeeds b ! k of SRead \<Rightarrow> seedRead env k ok b | SHash c \<Rightarrow> seedHashed env k c b)
      else b)"

section \<open>Opening\<close>

definition emptyBridge :: "('d, 'u, 'v) bridge_env \<Rightarrow> bool \<Rightarrow> bool \<Rightarrow> string option \<Rightarrow> string option \<Rightarrow> ('d, 'u) bridge" where
  "emptyBridge env seed ro base file =
     \<lparr>nbDoc = crNew env, nbSeedOnOpen = seed, nbReadOnly = ro, nbLast = None, nbPending = None,
      nbBase = base,
      nbObserved = (case base of None \<Rightarrow> None | Some h \<Rightarrow> if h = [] then None else Some (h, None)),
      nbBlind = False, nbPrePull = None, nbEgestDeferred = False, nbPullTimer = False,
      nbIngestTimer = False, nbEgestTimer = False, nbDirty = False, nbOversizeReported = False,
      nbTruncateReported = False, nbUnreported = False, nbUnagreed = None, nbSnapshotTaken = False,
      nbEverHad = False, nbDestroyed = False, nbFailures = 0, nbIngest = None, nbIngestQueue = [],
      nbEgest = None, nbEgestQueue = [], nbSeeds = [], nbFile = file, nbCopies = [], nbSeen = [],
      nbReports = [], nbOverwrites = []\<rparr>"

text \<open>\<open>hydrate\<close> with a persisted document \<open>d\<close>: it describes the last session.\<close>

definition openPersisted :: "('d, 'u, 'v) bridge_env \<Rightarrow> bool \<Rightarrow> bool \<Rightarrow> string option \<Rightarrow> 'd \<Rightarrow> string option
    \<Rightarrow> ('d, 'u) bridge" where
  "openPersisted env seed ro base d file =
     (let t = crText env d;
          b = saw t OwnText ((emptyBridge env seed ro base file)
                \<lparr>nbDoc := d, nbEverHad := (t \<noteq> []), nbLast := Some (sha256 env t)\<rparr>)
      in if seed then ingest b else if t \<noteq> [] then beginPull env b else b)"

text \<open>
  \<open>hydrate\<close> without one: what the read gave (None: it failed) decides; \<open>file\<close> is what is on disk
  when \<open>open\<close> returns.
\<close>

definition openVerdict :: "bool \<Rightarrow> string \<Rightarrow> string option \<Rightarrow> string \<Rightarrow> bool \<Rightarrow> verdict" where
  "openVerdict seed c base h saved =
     (if seed \<and> c \<noteq> [] then Seeded
      else if js_trim c = [] then Blank
      else case base of
        Some hb \<Rightarrow> if hb \<noteq> h then (if saved then Kept else NotKept) else Behind
      | None \<Rightarrow> Unproven)"

definition openFresh :: "('d, 'u, 'v) bridge_env \<Rightarrow> bool \<Rightarrow> bool \<Rightarrow> string option \<Rightarrow> string option \<Rightarrow> bool
    \<Rightarrow> string option \<Rightarrow> ('d, 'u) bridge" where
  "openFresh env seed ro base read copied file =
     (let c = (case read of None \<Rightarrow> [] | Some c \<Rightarrow> c);
          h = sha256 env c;
          b0 = emptyBridge env seed ro base file;
          b1 = (if seed \<and> c \<noteq> [] then transact env True (crInsert env 0 c (nbDoc b0)) b0 else b0);
          b2 = b1\<lparr>nbLast := Some h\<rparr>;
          (saved, b3) = (if \<not> seed \<and> read \<noteq> None \<and> js_trim c \<noteq> []
                then (case nbBase b2 of
                        Some hb \<Rightarrow> if hb \<noteq> h then saveAside env copied c b2 else (False, b2)
                      | None \<Rightarrow> (False, b2\<lparr>nbUnagreed := Some (c, h)\<rparr>))
                else (False, b2));
          b4 = (if seed \<and> c \<noteq> [] \<and> docText env b3 = c then recordDiskBase h b3 else b3);
          b5 = saw c (openVerdict seed c base h saved) b4
      in if read = None then b5\<lparr>nbObserved := None\<rparr>
         else observeState h (stateIfText env c (nbDoc b5)) b5)"

text \<open>\<open>NoteBridge.open\<close>: with a persisted document or without, over the recorded disk base.\<close>

datatype 'd bridge_opening =
    Persisted bool bool 'd "string option"
  | Fresh bool bool "string option" bool "string option"

fun openBridge :: "('d, 'u, 'v) bridge_env \<Rightarrow> string option \<Rightarrow> 'd bridge_opening \<Rightarrow> ('d, 'u) bridge" where
  "openBridge env base (Persisted seed ro d file) = openPersisted env seed ro base d file"
| "openBridge env base (Fresh seed ro read copied file) = openFresh env seed ro base read copied file"

section \<open>Events\<close>

text \<open>
  Everything that can happen to a bridge: other programs write the file, the socket delivers
  updates, the user types, the sync layer calls the public methods, timers fire, passes start, and
  the awaits of a pass resolve (\<open>ok\<close>: the call succeeded).
\<close>

datatype 'u bridge_event =
    ExtWrite "string option" | Remote 'u | EditInsert nat string | EditDelete nat nat
  | SetReadOnly bool | Watch | IngestTimer | IngestNow | BeginPull | PullTimer | Reconcile
  | Abandon bool | StartSeed | WriteThrough | Flush | CancelEgest | EgestTimer | Destroy
  | IngestStart | EgestStart | IngestIO bool | EgestIO bool | SeedIO nat bool

fun bridgeStep :: "('d, 'u, 'v) bridge_env \<Rightarrow> 'u bridge_event \<Rightarrow> ('d, 'u) bridge \<Rightarrow> ('d, 'u) bridge" where
  "bridgeStep env (ExtWrite f) b = b\<lparr>nbFile := f\<rparr>"
| "bridgeStep env (Remote u) b = transact env False (crApply env u (nbDoc b)) b"
| "bridgeStep env (EditInsert i t) b = transact env False (crInsert env i t (nbDoc b)) b"
| "bridgeStep env (EditDelete i n) b = transact env False (crDelete env i n (nbDoc b)) b"
| "bridgeStep env (SetReadOnly r) b = b\<lparr>nbReadOnly := r\<rparr>"
| "bridgeStep env Watch b = ingest b"
| "bridgeStep env IngestTimer b =
     (if nbIngestTimer b then drainIngest PassDebounced None (b\<lparr>nbIngestTimer := False\<rparr>) else b)"
| "bridgeStep env IngestNow b = ingestNow b"
| "bridgeStep env BeginPull b = beginPull env b"
| "bridgeStep env PullTimer b =
     (if nbPullTimer b then reconcileAfterPull PassReconcile (b\<lparr>nbPullTimer := False\<rparr>) else b)"
| "bridgeStep env Reconcile b = reconcileAfterPull PassReconcile b"
| "bridgeStep env (Abandon e) b = abandonPull e b"
| "bridgeStep env StartSeed b = startSeed env b"
| "bridgeStep env WriteThrough b = writeThrough b"
| "bridgeStep env Flush b = flushEgest b"
| "bridgeStep env CancelEgest b = cancelEgest b"
| "bridgeStep env EgestTimer b =
     (if nbEgestTimer b then drainEgest False (b\<lparr>nbEgestTimer := False\<rparr>) else b)"
| "bridgeStep env Destroy b = destroyBridge b"
| "bridgeStep env IngestStart b = startIngest env b"
| "bridgeStep env EgestStart b = startEgest env b"
| "bridgeStep env (IngestIO ok) b = ingestIO env ok b"
| "bridgeStep env (EgestIO ok) b = egestIO env ok b"
| "bridgeStep env (SeedIO k ok) b = seedIO env k ok b"

definition bridgeRun :: "('d, 'u, 'v) bridge_env \<Rightarrow> 'u bridge_event list \<Rightarrow> ('d, 'u) bridge \<Rightarrow> ('d, 'u) bridge" where
  "bridgeRun env es b = fold (bridgeStep env) es b"

end
