(* ===== verification/Bridge_Inv.thy ===== *)
theory Bridge_Inv
  imports Note_Bridge
begin

text \<open>
  What a bridge may overwrite: every digest the bridge holds (the bytes it last saw, its echo guard,
  a merged input, the disk base, the expected bytes of a write in flight, the bytes it replaced)
  belongs to bytes whose fate is known, unless one of the refusals that leave bytes nowhere
  happened. \<open>bridgeOk\<close> says so and every event keeps it.
\<close>

section \<open>Verdicts\<close>

definition settled :: "verdict \<Rightarrow> bool" where
  "settled v \<longleftrightarrow> v \<in> {Same, Blank, Oversize, Kept, Covered, Merged, Seeded, Unproven, OwnText, Written}"

definition unheld :: "verdict \<Rightarrow> bool" where
  "unheld v \<longleftrightarrow> v \<in> {Unseeded, ReadOnlyEmpty, NotKept, Dropped}"

lemma settled_simps [simp]:
  "settled Same" "settled Blank" "settled Oversize" "settled Kept" "settled Covered" "settled Merged"
  "settled Seeded" "settled Unproven" "settled OwnText" "settled Written"
  "\<not> settled Echo" "\<not> settled Behind" "\<not> settled Unseeded" "\<not> settled ReadOnlyEmpty"
  "\<not> settled NotKept" "\<not> settled Dropped" "\<not> settled LetGo"
  by (simp_all add: settled_def)

lemma unheld_simps [simp]:
  "\<not> unheld Same" "\<not> unheld Blank" "\<not> unheld Oversize" "\<not> unheld Kept" "\<not> unheld Covered"
  "\<not> unheld Merged" "\<not> unheld Seeded" "\<not> unheld Unproven" "\<not> unheld LetGo" "\<not> unheld OwnText" "\<not> unheld Written"
  "\<not> unheld Echo" "\<not> unheld Behind" "unheld Unseeded" "unheld ReadOnlyEmpty"
  "unheld NotKept" "unheld Dropped"
  by (simp_all add: unheld_def)

definition gapped :: "(string \<times> verdict) list \<Rightarrow> bool" where
  "gapped seen \<longleftrightarrow> list_ex (\<lambda>(c, v). unheld v) seen"

definition inflight :: "('d, 'u) bridge \<Rightarrow> string \<Rightarrow> bool" where
  "inflight b c \<longleftrightarrow>
     (case map_option fst (nbIngest b) of
        Some (IKeep c' h) \<Rightarrow> c' = c
      | Some (ISnap c' h diffs) \<Rightarrow> c' = c
      | _ \<Rightarrow> False)"

definition okHash :: "('d, 'u, 'v) bridge_env \<Rightarrow> string option \<Rightarrow> ('d, 'u) bridge \<Rightarrow> string \<Rightarrow> bool" where
  "okHash env h0 b h \<longleftrightarrow>
     gapped (nbSeen b) \<or> h0 = Some h \<or>
     (\<exists>c. sha256 env c = h \<and> ((\<exists>v. settled v \<and> (c, v) \<in> set (nbSeen b)) \<or> inflight b c))"

section \<open>The invariant\<close>

definition expectedMarks :: "('d, 'u) bridge \<Rightarrow> string set" where
  "expectedMarks b = (case nbEgest b of Some (EWrite content h expected st, t) \<Rightarrow> set_option expected | _ \<Rightarrow> {})"

definition marks :: "('d, 'u) bridge \<Rightarrow> string set" where
  "marks b = set_option (map_option fst (nbObserved b)) \<union> set_option (nbLast b) \<union> set_option (nbPending b)
     \<union> set_option (nbBase b) \<union> expectedMarks b \<union> {h. \<exists>p q. (p, q, Some h) \<in> set (nbOverwrites b)}"

definition ingestOk :: "('d, 'u, 'v) bridge_env \<Rightarrow> ingest_pc \<Rightarrow> bool" where
  "ingestOk env pc \<longleftrightarrow>
     (case pc of IKeep c h \<Rightarrow> h = sha256 env c | ISnap c h diffs \<Rightarrow> h = sha256 env c | _ \<Rightarrow> True)"

definition egestOk :: "('d, 'u, 'v) bridge_env \<Rightarrow> (string \<times> verdict) list \<Rightarrow> 'u egest_pc \<Rightarrow> bool" where
  "egestOk env seen pc \<longleftrightarrow>
     (case pc of
        ESave content h ua \<Rightarrow> h = sha256 env content
      | EWrite content h expected st \<Rightarrow> h = sha256 env content
      | EAck content h st stale \<Rightarrow> h = sha256 env content \<and> (stale \<or> (content, Written) \<in> set seen)
      | _ \<Rightarrow> True)"

definition passesOk :: "('d, 'u, 'v) bridge_env \<Rightarrow> ('d, 'u) bridge \<Rightarrow> bool" where
  "passesOk env b \<longleftrightarrow>
     pred_option (ingestOk env) (map_option fst (nbIngest b)) \<and>
     pred_option (egestOk env (nbSeen b)) (map_option fst (nbEgest b))"

text \<open>What a verdict says of the bytes.\<close>

definition verdictOk :: "('d, 'u, 'v) bridge_env \<Rightarrow> string list \<Rightarrow> string \<Rightarrow> verdict \<Rightarrow> bool" where
  "verdictOk env copies c v \<longleftrightarrow>
     (v = Blank \<longrightarrow> c = [] \<or> meaningfulLength c = 0) \<and>
     (v = Oversize \<longrightarrow> oversized env c) \<and>
     (v = Kept \<longrightarrow> c \<in> set copies \<or> \<not> ioSaveAside env)"

definition historyOk :: "('d, 'u, 'v) bridge_env \<Rightarrow> ('d, 'u) bridge \<Rightarrow> bool" where
  "historyOk env b \<longleftrightarrow>
     (\<forall>c v. (c, v) \<in> set (nbSeen b) \<longrightarrow> verdictOk env (nbCopies b) c v) \<and>
     (\<forall>p q e. (p, q, e) \<in> set (nbOverwrites b) \<longrightarrow> e = None \<or> e = Some (sha256 env p))"

definition bridgeOk :: "('d, 'u, 'v) bridge_env \<Rightarrow> string option \<Rightarrow> ('d, 'u) bridge \<Rightarrow> bool" where
  "bridgeOk env h0 b \<longleftrightarrow> (\<forall>h \<in> marks b. okHash env h0 b h) \<and> passesOk env b \<and> historyOk env b"

section \<open>Steps that only narrow what is held\<close>

text \<open>What the invariant looks at, the document and the timers apart.\<close>

definition sameView :: "('d, 'u) bridge \<Rightarrow> ('d, 'u) bridge \<Rightarrow> bool" where
  "sameView b b' \<longleftrightarrow>
     marks b' \<subseteq> marks b \<and> nbSeen b' = nbSeen b \<and> nbOverwrites b' = nbOverwrites b \<and>
     map_option fst (nbIngest b') = map_option fst (nbIngest b) \<and>
     map_option fst (nbEgest b') = map_option fst (nbEgest b) \<and> set (nbCopies b) \<subseteq> set (nbCopies b')"

lemma inflight_pc:
  "map_option fst (nbIngest b') = map_option fst (nbIngest b) \<Longrightarrow> inflight b' c = inflight b c"
  by (simp add: inflight_def)

lemma verdictOk_mono: "verdictOk env cs c v \<Longrightarrow> set cs \<subseteq> set cs' \<Longrightarrow> verdictOk env cs' c v"
  by (auto simp: verdictOk_def)

lemma historyOkI:
  assumes "\<And>c v. (c, v) \<in> set (nbSeen b) \<Longrightarrow> verdictOk env (nbCopies b) c v"
    and "\<And>p q e. (p, q, e) \<in> set (nbOverwrites b) \<Longrightarrow> e = None \<or> e = Some (sha256 env p)"
  shows "historyOk env b"
  unfolding historyOk_def using assms by blast

lemma historyOk_seen: "historyOk env b \<Longrightarrow> (c, v) \<in> set (nbSeen b) \<Longrightarrow> verdictOk env (nbCopies b) c v"
  unfolding historyOk_def by fast

lemma historyOk_over:
  "historyOk env b \<Longrightarrow> (p, q, e) \<in> set (nbOverwrites b) \<Longrightarrow> e = None \<or> e = Some (sha256 env p)"
  unfolding historyOk_def by fast

lemma sameView_refl [intro!, simp]: "sameView b b"
  by (simp add: sameView_def)

lemma sameView_trans: "sameView a b \<Longrightarrow> sameView b c \<Longrightarrow> sameView a c"
  by (auto simp: sameView_def)

lemma sameViewD:
  assumes "sameView b b'"
  shows "marks b' \<subseteq> marks b" "nbSeen b' = nbSeen b" "nbOverwrites b' = nbOverwrites b"
    "map_option fst (nbIngest b') = map_option fst (nbIngest b)"
    "map_option fst (nbEgest b') = map_option fst (nbEgest b)" "set (nbCopies b) \<subseteq> set (nbCopies b')"
  using assms unfolding sameView_def by blast+

lemma sameView_ok:
  assumes "sameView b b'" "bridgeOk env h0 b"
  shows "bridgeOk env h0 b'"
proof -
  note view = sameViewD [OF assms(1)]
  have eq: "okHash env h0 b' h = okHash env h0 b h" for h
    unfolding okHash_def view(2) inflight_pc [OF view(4)] ..
  have "historyOk env b'"
    using assms(2) verdictOk_mono [OF _ view(6)]
    unfolding bridgeOk_def historyOk_def view(2,3) by blast
  moreover have "passesOk env b'"
    using assms(2) unfolding bridgeOk_def passesOk_def view by blast
  ultimately show ?thesis
    using assms(2) view(1) unfolding bridgeOk_def eq by blast
qed

lemma sameView_fields:
  assumes "map_option fst (nbObserved b') = map_option fst (nbObserved b)" "nbLast b' = nbLast b"
    "nbPending b' = nbPending b" "nbBase b' = nbBase b" "nbEgest b' = nbEgest b"
    "nbOverwrites b' = nbOverwrites b" "nbSeen b' = nbSeen b"
    "map_option fst (nbIngest b') = map_option fst (nbIngest b)" "nbCopies b' = nbCopies b"
  shows "sameView b b'"
  unfolding sameView_def marks_def expectedMarks_def assms by simp

lemma sameView_scheduleEgest: "sameView b (scheduleEgest b)"
  by (rule sameView_fields) (simp_all add: scheduleEgest_def)

lemma sameView_scheduleEgestRetry: "sameView b (scheduleEgestRetry b)"
  by (rule sameView_fields) (simp_all add: scheduleEgestRetry_def)

lemma sameView_clearWriteFailure: "sameView b (clearWriteFailure b)"
  by (rule sameView_fields) (simp_all add: clearWriteFailure_def)

lemma sameView_drainIngest: "sameView b (drainIngest who base b)"
  by (rule sameView_fields) (simp_all add: drainIngest_def)

lemma sameView_drainEgest: "sameView b (drainEgest through b)"
  by (rule sameView_fields) (simp_all add: drainEgest_def)

lemma sameView_releasePull: "sameView b (releasePull b)"
  by (rule sameView_fields) (simp_all add: releasePull_def)

lemma sameView_capture: "sameView b (capture env b)"
  by (rule sameView_fields) (simp_all add: capture_def split: option.split)

lemma sameView_doc: "sameView b (b\<lparr>nbDoc := d\<rparr>)" "sameView b (b\<lparr>nbEverHad := e\<rparr>)"
    "sameView b (b\<lparr>nbDirty := e\<rparr>)" "sameView b (b\<lparr>nbIngestTimer := e\<rparr>)"
    "sameView b (b\<lparr>nbEgestTimer := e\<rparr>)" "sameView b (b\<lparr>nbPullTimer := e\<rparr>)"
    "sameView b (b\<lparr>nbEgestDeferred := e\<rparr>)" "sameView b (b\<lparr>nbBlind := e\<rparr>)"
    "sameView b (b\<lparr>nbFile := f\<rparr>)" "sameView b (b\<lparr>nbReadOnly := e\<rparr>)"
    "sameView b (b\<lparr>nbUnagreed := ua\<rparr>)" "sameView b (b\<lparr>nbSeeds := sd\<rparr>)"
    "sameView b (b\<lparr>nbFailures := n\<rparr>)" "sameView b (b\<lparr>nbDestroyed := e\<rparr>)"
    "sameView b (b\<lparr>nbIngestQueue := q\<rparr>)" "sameView b (b\<lparr>nbEgestQueue := eq\<rparr>)"
    "sameView b (b\<lparr>nbTruncateReported := e\<rparr>)" "sameView b (b\<lparr>nbOversizeReported := e\<rparr>)"
    "sameView b (b\<lparr>nbUnreported := e\<rparr>)" "sameView b (b\<lparr>nbSnapshotTaken := e\<rparr>)"
    "sameView b (b\<lparr>nbReports := r\<rparr>)" "sameView b (b\<lparr>nbPrePull := p\<rparr>)"
  by (rule sameView_fields; simp)+

lemma sameView_forget: "sameView b (b\<lparr>nbLast := None\<rparr>)" "sameView b (b\<lparr>nbPending := None\<rparr>)"
    "sameView b (b\<lparr>nbObserved := None\<rparr>)"
  unfolding sameView_def marks_def expectedMarks_def by (simp_all add: Un_assoc) blast+

lemmas sameView_steps =
  sameView_scheduleEgest sameView_scheduleEgestRetry sameView_clearWriteFailure sameView_drainIngest
  sameView_drainEgest sameView_releasePull sameView_capture sameView_doc sameView_forget

lemmas sameView_then = sameView_steps [THEN sameView_trans [rotated]]

lemma sameView_onTextChange: "sameView b (onTextChange env d b)"
  by (auto simp: onTextChange_def Let_def intro: sameView_steps sameView_then)

lemma sameView_transact: "sameView b (transact env d d' b)"
  by (auto simp: transact_def Let_def
      intro: sameView_steps sameView_then sameView_onTextChange [THEN sameView_trans [rotated]])

lemma sameView_beginPull: "sameView b (beginPull env b)"
  by (rule sameView_fields) (simp_all add: beginPull_def)

lemma sameView_reconcile: "sameView b (reconcileAfterPull who b)"
  by (rule sameView_fields) (simp_all add: reconcileAfterPull_def releasePull_def drainIngest_def split: option.split)

lemma sameView_abandonPull: "sameView b (abandonPull e b)"
  by (auto simp: abandonPull_def Let_def intro: sameView_steps sameView_then)

lemma sameView_ingest: "sameView b (ingest b)"
  by (rule sameView_fields) (simp_all add: ingest_def)

lemma sameView_ingestNow: "sameView b (ingestNow b)"
  by (auto simp: ingestNow_def intro: sameView_steps sameView_then sameView_reconcile)

lemma sameView_flushTail: "sameView b (flushTail b)"
  by (auto simp: flushTail_def intro: sameView_steps sameView_then)

lemma sameView_flushEgest: "sameView b (flushEgest b)"
  by (auto simp: flushEgest_def intro: sameView_flushTail sameView_reconcile)

lemma sameView_cancelEgest: "sameView b (cancelEgest b)"
  by (rule sameView_fields) (simp_all add: cancelEgest_def)

lemma sameView_destroyBridge: "sameView b (destroyBridge b)"
  by (rule sameView_fields) (simp_all add: destroyBridge_def releasePull_def)

lemma sameView_startSeed: "sameView b (startSeed env b)"
  by (auto simp: startSeed_def intro: sameView_steps)

lemma sameView_writeThrough: "sameView b (writeThrough b)"
proof -
  have "sameView (abandonPull False b)
      ((abandonPull False b)\<lparr>nbEgestTimer := False, nbLast := None, nbBlind := True\<rparr>)"
    by (intro sameView_doc [THEN sameView_trans [rotated]] sameView_forget [THEN sameView_trans [rotated]]) simp
  then show ?thesis
    by (auto simp: writeThrough_def intro: sameView_trans [OF sameView_abandonPull] sameView_trans [OF _ sameView_drainEgest])
qed

section \<open>Steps of an ingest pass\<close>

lemma bridgeOk_step:
  assumes ok: "bridgeOk env h0 b"
    and seen: "nbSeen b' = nbSeen b @ new"
    and marks: "marks b' \<subseteq> marks b \<union> N"
    and new: "\<And>h. h \<in> N \<Longrightarrow> okHash env h0 b' h"
    and flight: "\<And>c. inflight b c \<Longrightarrow> inflight b' c \<or> (\<exists>v. (c, v) \<in> set new \<and> (settled v \<or> unheld v))"
    and passes: "passesOk env b'"
    and over: "\<And>p q e. (p, q, e) \<in> set (nbOverwrites b') \<Longrightarrow>
        (p, q, e) \<in> set (nbOverwrites b) \<or> e = None \<or> e = Some (sha256 env p)"
    and copies: "set (nbCopies b) \<subseteq> set (nbCopies b')"
    and verdicts: "\<And>c v. (c, v) \<in> set new \<Longrightarrow> verdictOk env (nbCopies b') c v"
  shows "bridgeOk env h0 b'"
proof -
  have mono: "okHash env h0 b' h" if h: "okHash env h0 b h" for h
  proof -
    consider (gap) "gapped (nbSeen b)" | (base) "h0 = Some h"
      | (seen) c v where "sha256 env c = h" "settled v" "(c, v) \<in> set (nbSeen b)"
      | (flight) c where "sha256 env c = h" "inflight b c"
      using h unfolding okHash_def by blast
    then show ?thesis
    proof cases
      case gap
      then show ?thesis by (simp add: okHash_def gapped_def seen)
    next
      case base
      then show ?thesis by (simp add: okHash_def)
    next
      case (seen c v)
      then show ?thesis unfolding okHash_def assms(2) by auto
    next
      case (flight c)
      from assms(5) [OF flight(2)] show ?thesis
      proof
        assume "inflight b' c"
        then show ?thesis using flight(1) unfolding okHash_def by blast
      next
        assume "\<exists>v. (c, v) \<in> set new \<and> (settled v \<or> unheld v)"
        then obtain v where v: "(c, v) \<in> set new" "settled v \<or> unheld v" by blast
        from v(2) show ?thesis
        proof
          assume "settled v"
          then show ?thesis using v(1) flight(1) unfolding okHash_def assms(2) by auto
        next
          assume "unheld v"
          then have "gapped (nbSeen b')" using v(1) unfolding gapped_def assms(2) list_ex_iff by auto
          then show ?thesis by (simp add: okHash_def)
        qed
      qed
    qed
  qed
  have "historyOk env b'"
  proof (rule historyOkI)
    have hist: "historyOk env b" using ok by (simp add: bridgeOk_def)
    show "verdictOk env (nbCopies b') c v" if "(c, v) \<in> set (nbSeen b')" for c v
      using that verdicts verdictOk_mono [OF historyOk_seen [OF hist] copies] unfolding seen by auto
    show "e = None \<or> e = Some (sha256 env p)" if "(p, q, e) \<in> set (nbOverwrites b')" for p q e
      using over [OF that] historyOk_over [OF hist] by blast
  qed
  then show ?thesis
    using ok marks mono new passes unfolding bridgeOk_def by blast
qed

text \<open>A step that may take note of one more digest.\<close>

definition gains :: "string \<Rightarrow> ('d, 'u) bridge \<Rightarrow> ('d, 'u) bridge \<Rightarrow> bool" where
  "gains h b b' \<longleftrightarrow>
     marks b' \<subseteq> insert h (marks b) \<and> nbSeen b' = nbSeen b \<and> nbOverwrites b' = nbOverwrites b \<and>
     map_option fst (nbEgest b') = map_option fst (nbEgest b) \<and> set (nbCopies b) \<subseteq> set (nbCopies b')"

lemma gains_refl [intro!, simp]: "gains h b b"
  by (auto simp: gains_def)

lemma gains_trans: "gains h a b \<Longrightarrow> gains h b c \<Longrightarrow> gains h a c"
  unfolding gains_def by (intro conjI; (elim conjE)?; simp?) blast+

lemma sameView_gains: "sameView b b' \<Longrightarrow> gains h b b'"
  by (auto simp: sameView_def gains_def)

lemma gains_last: "gains h b (b\<lparr>nbLast := Some h\<rparr>)"
  and gains_pending: "gains h b (b\<lparr>nbPending := Some h\<rparr>)"
  and gains_observeState: "gains h b (observeState h st b)"
  and gains_recordDiskBase: "gains h b (recordDiskBase h b)"
  and gains_ingest: "gains h b (b\<lparr>nbIngest := i\<rparr>)"
  and gains_copies: "gains h b (b\<lparr>nbCopies := nbCopies b @ cs\<rparr>)"
  unfolding gains_def marks_def expectedMarks_def observeState_def recordDiskBase_def
  by (simp_all add: Un_assoc) blast+

lemma gains_observe: "gains h b (observe h b)"
  using gains_observeState [of h b None]
  by (auto simp: observe_def observeState_def split: option.split)

lemmas gains_rules = gains_refl gains_last gains_pending gains_observeState gains_recordDiskBase gains_ingest
  gains_copies gains_observe sameView_steps [THEN sameView_gains] sameView_transact [THEN sameView_gains]

lemmas gains_then = gains_rules(2-) [THEN gains_trans [rotated]]

lemma sameView_if: "sameView a b \<Longrightarrow> sameView a c \<Longrightarrow> sameView a (if P then b else c)"
  by simp

lemma sameView_report: "sameView b (b\<lparr>nbReports := r, nbUnreported := u\<rparr>)"
  by (rule sameView_fields) simp_all

lemma sameView_release_deferred: "sameView b (scheduleEgest (b\<lparr>nbEgestDeferred := False\<rparr>))"
  by (rule sameView_trans [OF sameView_doc(7) sameView_scheduleEgest])

lemma endIngest_ended:
  "sameView (b\<lparr>nbIngest := None\<rparr>) (endIngest who ch b)"
  unfolding endIngest_def Let_def
  by (rule sameView_trans [OF sameView_trans
        [OF sameView_if [OF sameView_release_deferred sameView_refl] sameView_if [OF sameView_report sameView_refl]]
        sameView_if [OF sameView_flushTail sameView_refl]])

lemma judged_view:
  "sameView ((saw c v b)\<lparr>nbIngest := None\<rparr>) (judged c v ch ctx b)"
  by (simp add: judged_def endIngest_ended)

lemma passesOk_noIngest:
  assumes "passesOk env b" "nbIngest b' = None" "map_option fst (nbEgest b') = map_option fst (nbEgest b)"
    and "set (nbSeen b) \<subseteq> set (nbSeen b')"
  shows "passesOk env b'"
proof -
  have "pred_option (egestOk env (nbSeen b)) (map_option fst (nbEgest b))"
    using assms(1) unfolding passesOk_def by blast
  then have "pred_option (egestOk env (nbSeen b')) (map_option fst (nbEgest b))"
    by (rule option.pred_mono_strong) (use assms(4) in \<open>auto simp: egestOk_def split: egest_pc.splits\<close>)
  then show ?thesis
    by (simp add: passesOk_def assms(2,3))
qed

lemma judged_ok:
  assumes ok: "bridgeOk env h0 b"
    and cur: "\<forall>c'. inflight b c' \<longrightarrow> c' = c"
    and gain: "gains (sha256 env c) b b'"
    and v: "settled v \<or> unheld v \<or> okHash env h0 b (sha256 env c) \<and> (\<forall>c'. \<not> inflight b c')"
    and fact: "verdictOk env (nbCopies b') c v"
  shows "bridgeOk env h0 (judged c v ch ctx b')"
proof (rule sameView_ok [OF judged_view])
  let ?b = "(saw c v b')\<lparr>nbIngest := None\<rparr>"
  have marks: "marks ?b = marks b'"
    by (simp add: marks_def expectedMarks_def saw_def)
  have seen: "nbSeen ?b = nbSeen b @ [(c, v)]"
    using gain by (simp add: saw_def gains_def)
  show "bridgeOk env h0 ?b"
  proof (rule bridgeOk_step [OF ok seen, where N = "{sha256 env c}"])
    show "marks ?b \<subseteq> marks b \<union> {sha256 env c}"
      using gain unfolding marks gains_def by blast
    show "okHash env h0 ?b h" if "h \<in> {sha256 env c}" for h
    proof -
      have h: "h = sha256 env c" using that by simp
      from v consider "settled v" | "unheld v" | "okHash env h0 b h" "\<And>c'. \<not> inflight b c'"
        using h by blast
      then show ?thesis
      proof cases
        case 1 then show ?thesis unfolding okHash_def seen h by auto
      next
        case 2 then show ?thesis unfolding okHash_def seen gapped_def by auto
      next
        case 3 then show ?thesis unfolding okHash_def seen gapped_def by auto
      qed
    qed
    show "inflight ?b c' \<or> (\<exists>v'. (c', v') \<in> set [(c, v)] \<and> (settled v' \<or> unheld v'))" if "inflight b c'" for c'
      using cur v that by auto
    show "passesOk env ?b"
      by (rule passesOk_noIngest [of env b]) (use ok gain in \<open>auto simp: bridgeOk_def saw_def gains_def\<close>)
    show "(p, q, e) \<in> set (nbOverwrites b) \<or> e = None \<or> e = Some (sha256 env p)"
      if "(p, q, e) \<in> set (nbOverwrites ?b)" for p q e
      using that gain by (simp add: saw_def gains_def)
    show "set (nbCopies b) \<subseteq> set (nbCopies ?b)"
      using gain by (simp add: saw_def gains_def)
    show "verdictOk env (nbCopies ?b) c' v'" if "(c', v') \<in> set [(c, v)]" for c' v'
      using that fact by (simp add: saw_def)
  qed
qed

text \<open>The file's bytes are held by the pass while it waits for a copy or a snapshot.\<close>

lemma held_ok:
  assumes ok: "bridgeOk env h0 b" and none: "\<And>c'. \<not> inflight b c'"
    and gain: "gains (sha256 env c) b b'"
    and pc: "pc = IKeep c (sha256 env c) \<or> pc = ISnap c (sha256 env c) diffs"
  shows "bridgeOk env h0 (b'\<lparr>nbIngest := Some (pc, ctx)\<rparr>)"
proof -
  let ?b = "b'\<lparr>nbIngest := Some (pc, ctx)\<rparr>"
  have flight: "inflight ?b c" using pc by (auto simp: inflight_def)
  have seen: "nbSeen ?b = nbSeen b @ []" using gain by (simp add: gains_def)
  have marks: "marks ?b = marks b'" by (simp add: marks_def expectedMarks_def)
  show ?thesis
  proof (rule bridgeOk_step [OF ok seen, where N = "{sha256 env c}"])
    show "marks ?b \<subseteq> marks b \<union> {sha256 env c}"
      using gain unfolding marks gains_def by blast
    show "okHash env h0 ?b h" if "h \<in> {sha256 env c}" for h
      using that flight unfolding okHash_def by blast
    show "inflight ?b c' \<or> (\<exists>v'. (c', v') \<in> set [] \<and> (settled v' \<or> unheld v'))" if "inflight b c'" for c'
      using none that by blast
    have "ingestOk env pc" using pc by (auto simp: ingestOk_def)
    moreover have "passesOk env b" using ok by (simp add: bridgeOk_def)
    ultimately show "passesOk env ?b"
      using gain by (simp add: passesOk_def gains_def)
    show "(p, q, e) \<in> set (nbOverwrites b) \<or> e = None \<or> e = Some (sha256 env p)"
      if "(p, q, e) \<in> set (nbOverwrites ?b)" for p q e
      using that gain by (simp add: gains_def)
    show "set (nbCopies b) \<subseteq> set (nbCopies ?b)"
      using gain by (simp add: gains_def)
  qed simp
qed

lemma okIf:
  "(P \<Longrightarrow> bridgeOk env h0 x) \<Longrightarrow> (\<not> P \<Longrightarrow> bridgeOk env h0 y) \<Longrightarrow> bridgeOk env h0 (if P then x else y)"
  by simp

lemma gains_if: "gains h a b \<Longrightarrow> gains h a c \<Longrightarrow> gains h a (if P then b else c)"
  by simp

lemma observe_fields [simp]:
  "nbLast (observe h b) = nbLast b" "nbPending (observe h b) = nbPending b" "nbBase (observe h b) = nbBase b"
  "nbIngest (observe h b) = nbIngest b" "nbCopies (observe h b) = nbCopies b"
  by (auto simp: observe_def split: option.split)

lemma mark_ok: "bridgeOk env h0 b \<Longrightarrow> nbLast b = Some h \<or> nbPending b = Some h \<or> nbBase b = Some h \<Longrightarrow> okHash env h0 b h"
  by (auto simp: bridgeOk_def marks_def)

lemma blank_fact: "isBlankFile t c \<Longrightarrow> c = [] \<or> meaningfulLength c = 0"
  by (auto simp: isBlankFile_def isBlankTruncation_def split: if_splits)

lemma verdictOk_plain: "v \<noteq> Blank \<Longrightarrow> v \<noteq> Oversize \<Longrightarrow> v \<noteq> Kept \<Longrightarrow> verdictOk env cs c v"
  by (simp add: verdictOk_def)

text \<open>A step that only adds to the history.\<close>

lemma saw_ok:
  assumes ok: "bridgeOk env h0 b" and v: "verdictOk env (nbCopies b) c v"
  shows "bridgeOk env h0 (saw c v b)"
proof (rule bridgeOk_step [OF ok, where new = "[(c, v)]" and N = "{}"])
  show "passesOk env (saw c v b)"
  proof -
    have "pred_option (egestOk env (nbSeen b)) (map_option fst (nbEgest b))"
      using ok unfolding bridgeOk_def passesOk_def by blast
    then have "pred_option (egestOk env (nbSeen b @ [(c, v)])) (map_option fst (nbEgest b))"
      by (rule option.pred_mono_strong) (auto simp: egestOk_def split: egest_pc.splits)
    then show ?thesis
      using ok by (simp add: bridgeOk_def passesOk_def saw_def)
  qed
  show "verdictOk env (nbCopies (saw c v b)) c' v'" if "(c', v') \<in> set [(c, v)]" for c' v'
    using that v by (simp add: saw_def)
qed (auto simp: saw_def marks_def expectedMarks_def inflight_def)

lemma letGo_ok:
  assumes "bridgeOk env h0 b" "v \<noteq> Blank" "v \<noteq> Oversize" "v \<noteq> Kept"
  shows "bridgeOk env h0 (letGo v moved t b)"
proof -
  have "bridgeOk env h0 (b\<lparr>nbUnagreed := None\<rparr>)" by (rule sameView_ok [OF _ assms(1)]) (rule sameView_doc)
  then show ?thesis
    using assms(2-4) by (auto simp: letGo_def Let_def assms(1) verdictOk_plain intro: saw_ok split: option.split)
qed

lemma applyMerge_ok:
  assumes ok: "bridgeOk env h0 b" and cur: "\<forall>c'. inflight b c' \<longrightarrow> c' = c"
    and gain: "gains (sha256 env c) b b'"
  shows "bridgeOk env h0 (applyMerge env c (sha256 env c) diffs ctx b')"
  unfolding applyMerge_def Let_def
proof (intro okIf)
  show "bridgeOk env h0 (judged c Dropped False ctx b')"
    by (rule judged_ok [OF ok cur gain]) (simp_all add: verdictOk_def)
  show "bridgeOk env h0 (judged c Same False ctx (b'\<lparr>nbLast := Some (sha256 env c)\<rparr>))"
    by (rule judged_ok [OF ok cur gains_trans [OF gain gains_last]]) (simp_all add: verdictOk_def)
next
  let ?h = "sha256 env c"
  let ?t = "applyDiff (crInsert env) (crDelete env) diffs (baseDoc ctx b')"
  let ?m = "case icBaseline ctx of
      None \<Rightarrow> observeState ?h (stateIfText env c ?t) (transact env True ?t (b'\<lparr>nbIngest := None\<rparr>))
    | Some d \<Rightarrow>
        if docText env (transact env True (crApply env (crEncodeSince env ?t (crVector env d)) (nbDoc b'))
             (observeState ?h (stateIfText env c ?t) (b'\<lparr>nbIngest := None\<rparr>))) \<noteq> c
        then scheduleEgest ((transact env True (crApply env (crEncodeSince env ?t (crVector env d)) (nbDoc b'))
             (observeState ?h (stateIfText env c ?t) (b'\<lparr>nbIngest := None\<rparr>)))\<lparr>nbPending := Some ?h\<rparr>)
        else transact env True (crApply env (crEncodeSince env ?t (crVector env d)) (nbDoc b'))
             (observeState ?h (stateIfText env c ?t) (b'\<lparr>nbIngest := None\<rparr>))"
  have start: "gains ?h b (b'\<lparr>nbIngest := None\<rparr>)"
    by (rule gains_trans [OF gain gains_ingest])
  have "gains ?h b ?m"
  proof (cases "icBaseline ctx")
    case None
    then show ?thesis
      using gains_trans [OF gains_trans [OF start sameView_gains [OF sameView_transact]] gains_observeState]
      by simp
  next
    case (Some d)
    note step = gains_trans [OF gains_trans [OF start gains_observeState] sameView_gains [OF sameView_transact]]
    show ?thesis
      unfolding Some option.case
      by (rule gains_if [OF gains_trans [OF gains_trans [OF step gains_pending] sameView_gains [OF sameView_scheduleEgest]] step])
  qed
  from gains_trans [OF gains_trans [OF this sameView_gains [OF sameView_doc(19)]] gains_recordDiskBase]
  have "bridgeOk env h0 (judged c Merged True ctx (recordDiskBase ?h (?m\<lparr>nbUnreported := True\<rparr>)))"
    by (rule judged_ok [OF ok cur]) (rule disjI1, simp, rule verdictOk_plain, simp+)
  then show "bridgeOk env h0 (letGo Merged True c (judged c Merged True ctx (recordDiskBase ?h (?m\<lparr>nbUnreported := True\<rparr>))))"
    by (rule letGo_ok) simp_all
qed

lemma mergeDiskRead_ok:
  assumes ok: "bridgeOk env h0 b" and pc: "map_option fst (nbIngest b) = Some (IHash c)"
  shows "bridgeOk env h0 (mergeDiskRead env c ctx b)"
proof -
  let ?h = "sha256 env c"
  have none: "\<not> inflight b c'" for c'
    by (simp add: inflight_def pc)
  then have cur: "\<forall>c'. inflight b c' \<longrightarrow> c' = c"
    by simp
  have seen: "gains ?h b (observe ?h b)" and truncated: "gains ?h b ((observe ?h b)\<lparr>nbTruncateReported := t\<rparr>)" for t
    by (rule gains_observe, rule gains_trans [OF gains_observe sameView_gains], rule sameView_doc)
  have last: "gains ?h b ((observe ?h b)\<lparr>nbLast := Some ?h\<rparr>)"
    "gains ?h b ((observe ?h b)\<lparr>nbTruncateReported := t, nbLast := Some ?h\<rparr>)" for t
    using gains_trans [OF seen gains_last] gains_trans [OF truncated gains_last] by simp_all
  note egest = gains_trans [OF _ sameView_gains [OF sameView_scheduleEgest]]
  show ?thesis
    unfolding mergeDiskRead_def Let_def
  proof (intro okIf)
    show "bridgeOk env h0 (judged c Oversize False ctx (observe ?h b))" if "oversized env c"
      by (rule judged_ok [OF ok cur seen]) (simp_all add: verdictOk_def that)
    show "bridgeOk env h0 (judged c Echo False ctx (observe ?h b))"
      if "nbLast (observe ?h b) = Some ?h \<or> nbPending (observe ?h b) = Some ?h"
      by (rule judged_ok [OF ok cur seen]) (use that mark_ok [OF ok, of ?h] none in \<open>auto simp add: verdictOk_plain\<close>)
    show "bridgeOk env h0 (judged c Same False ctx (observeState ?h (Some (crEncode env (nbDoc (observe ?h b))))
        (recordDiskBase ?h ((observe ?h b)\<lparr>nbLast := Some ?h\<rparr>))))"
      by (rule judged_ok [OF ok cur gains_trans [OF gains_trans [OF last(1) gains_recordDiskBase] gains_observeState]])
        (simp_all add: verdictOk_plain)
    show "bridgeOk env h0 (judged c Behind False ctx (scheduleEgest ((observe ?h b)\<lparr>nbLast := Some ?h\<rparr>)))"
      if "nbBase (observe ?h b) = Some ?h"
      by (rule judged_ok [OF ok cur egest [OF last(1)]])
        (use that mark_ok [OF ok, of ?h] none in \<open>simp_all add: verdictOk_plain\<close>)
    show "bridgeOk env h0 (judged c OwnText False ctx
        (if icBaseline ctx \<noteq> None then scheduleEgest ((observe ?h b)\<lparr>nbLast := Some ?h\<rparr>) else observe ?h b))"
      by (rule judged_ok [OF ok cur gains_if [OF egest [OF last(1)] seen]]) (simp_all add: verdictOk_plain)
    show "bridgeOk env h0 (judged c Blank False ctx ((observe ?h b)\<lparr>nbTruncateReported := True\<rparr>))"
      if "isBlankFile (crText env (baseDoc ctx (observe ?h b))) c \<and> \<not> cfgAllowTruncate env"
      by (rule judged_ok [OF ok cur truncated]) (use that in \<open>auto simp: verdictOk_def dest: blank_fact\<close>)
    show "bridgeOk env h0 (judged c ReadOnlyEmpty False ctx ((observe ?h b)\<lparr>nbTruncateReported := False\<rparr>))"
      by (rule judged_ok [OF ok cur truncated]) (simp_all add: verdictOk_plain)
    show "bridgeOk env h0 (judged c Unseeded False ctx ((observe ?h b)\<lparr>nbTruncateReported := False\<rparr>))"
      by (rule judged_ok [OF ok cur truncated]) (simp_all add: verdictOk_plain)
    show "bridgeOk env h0 ((observe ?h b)\<lparr>nbTruncateReported := False, nbIngest := Some (IKeep c ?h, ctx)\<rparr>)"
      using held_ok [OF ok none truncated] by simp
    show "bridgeOk env h0 (judged c Covered False ctx
        (scheduleEgest ((observe ?h b)\<lparr>nbTruncateReported := False, nbLast := Some ?h\<rparr>)))"
      by (rule judged_ok [OF ok cur egest [OF last(2)]]) (simp_all add: verdictOk_plain)
    show "bridgeOk env h0 ((observe ?h b)\<lparr>nbTruncateReported := False, nbIngest := Some (ISnap c ?h diffs, ctx)\<rparr>)"
      for diffs
      using held_ok [OF ok none truncated] by simp
    show "bridgeOk env h0 (applyMerge env c ?h diffs ctx ((observe ?h b)\<lparr>nbTruncateReported := False\<rparr>))" for diffs
      by (rule applyMerge_ok [OF ok cur truncated])
  qed
qed

lemma saveAside_result:
  assumes "saveAside env ok c b = (kept, b1)"
  shows "b1 = b\<lparr>nbCopies := nbCopies b1\<rparr>" "set (nbCopies b) \<subseteq> set (nbCopies b1)"
    "kept \<Longrightarrow> c \<in> set (nbCopies b1) \<or> \<not> ioSaveAside env"
  using assms by (auto simp: saveAside_def split: if_splits)

lemma keepCopy_ok:
  assumes ok: "bridgeOk env h0 b" and pc: "map_option fst (nbIngest b) = Some (IKeep c h)"
  shows "bridgeOk env h0 (keepCopy env ok' c h ctx b)"
proof -
  have cur: "\<forall>c'. inflight b c' \<longrightarrow> c' = c"
    by (simp add: inflight_def pc)
  have h: "h = sha256 env c"
    using ok pc by (simp add: bridgeOk_def passesOk_def ingestOk_def)
  obtain kept b1 where kb: "(if ioKeeper env then (ok', if ok' then b\<lparr>nbCopies := nbCopies b @ [c]\<rparr> else b)
      else saveAside env ok' c b) = (kept, b1)"
    by fastforce
  then have b1: "b1 = b \<or> b1 = b\<lparr>nbCopies := nbCopies b @ [c]\<rparr>"
    "kept \<Longrightarrow> c \<in> set (nbCopies b1) \<or> \<not> ioSaveAside env"
    by (auto simp: saveAside_def split: if_splits)
  then have gain: "gains h b b1"
    by (auto intro: gains_copies)
  let ?b2 = "if kept \<and> \<not> nbDestroyed b1 then scheduleEgest (b1\<lparr>nbLast := Some h\<rparr>) else b1"
  have copies: "nbCopies ?b2 = nbCopies b1"
    by (simp add: scheduleEgest_def)
  have "bridgeOk env h0 (judged c (if kept then Kept else NotKept) False ctx ?b2)"
  proof (rule judged_ok [OF ok cur])
    show "gains (sha256 env c) b ?b2"
      unfolding h [symmetric]
      by (rule gains_if [OF gains_trans [OF gains_trans [OF gain gains_last] sameView_gains [OF sameView_scheduleEgest]] gain])
    show "verdictOk env (nbCopies ?b2) c (if kept then Kept else NotKept)"
      unfolding copies using b1(2) by (simp add: verdictOk_def)
  qed simp
  then show ?thesis
    unfolding keepCopy_def kb by simp
qed

lemma ingestRead_ok:
  assumes ok: "bridgeOk env h0 b" and pc: "map_option fst (nbIngest b) = Some IRead"
  shows "bridgeOk env h0 (ingestRead env ok' ctx b)"
proof -
  have none: "\<not> inflight b c'" for c'
    by (simp add: inflight_def pc)
  have plain: "bridgeOk env h0 (x\<lparr>nbIngest := i\<rparr>)"
    if "i = None \<or> (\<exists>c. i = Some (IHash c, ctx))" and x: "bridgeOk env h0 x" "nbIngest x = nbIngest b" for i x
  proof (rule bridgeOk_step [OF x(1), where new = "[]" and N = "{}"])
    show "passesOk env (x\<lparr>nbIngest := i\<rparr>)"
      using that by (auto simp: bridgeOk_def passesOk_def ingestOk_def)
  qed (use none x(2) in \<open>simp_all add: marks_def expectedMarks_def inflight_def\<close>)
  have "bridgeOk env h0 (endIngest who False (b\<lparr>nbObserved := None\<rparr>))" for who
    using sameView_ok [OF endIngest_ended plain [of None "b\<lparr>nbObserved := None\<rparr>"]]
      sameView_ok [OF sameView_forget(3) ok] by simp
  moreover have "bridgeOk env h0 (b\<lparr>nbOversizeReported := x, nbIngest := Some (IHash c, ctx)\<rparr>)" for x c
    using plain [of "Some (IHash c, ctx)" "b\<lparr>nbOversizeReported := x\<rparr>"]
      sameView_ok [OF sameView_doc(18) ok] by simp
  ultimately show ?thesis
    by (simp add: ingestRead_def split: option.split)
qed

lemma startIngest_ok:
  assumes ok: "bridgeOk env h0 b"
  shows "bridgeOk env h0 (startIngest env b)"
proof -
  have plain: "bridgeOk env h0 (x\<lparr>nbIngest := i\<rparr>)"
    if "i = None \<or> (\<exists>ctx. i = Some (IRead, ctx))" and x: "bridgeOk env h0 x" "nbIngest x = None" for i x
  proof (rule bridgeOk_step [OF x(1), where new = "[]" and N = "{}"])
    show "passesOk env (x\<lparr>nbIngest := i\<rparr>)"
      using that by (auto simp: bridgeOk_def passesOk_def ingestOk_def)
  qed (use x(2) in \<open>simp_all add: marks_def expectedMarks_def inflight_def\<close>)
  show ?thesis
  proof (cases "nbIngest b = None \<and> nbIngestQueue b \<noteq> []")
    case True
    then obtain who base rest where q: "nbIngestQueue b = (who, base) # rest"
      by (cases "nbIngestQueue b") auto
    have b1: "bridgeOk env h0 (b\<lparr>nbIngestQueue := rest\<rparr>)"
      by (rule sameView_ok [OF _ ok]) (rule sameView_doc)
    then have b2: "bridgeOk env h0 (b\<lparr>nbIngestQueue := rest, nbDirty := False\<rparr>)"
      by (rule sameView_ok [rotated]) (rule sameView_doc)
    have "bridgeOk env h0 (endIngest who False (b\<lparr>nbIngestQueue := rest\<rparr>))"
      by (rule sameView_ok [OF endIngest_ended plain]) (use b1 True in simp_all)
    moreover have "bridgeOk env h0 (b\<lparr>nbIngestQueue := rest, nbDirty := False, nbIngest := Some (IRead, ctx)\<rparr>)" for ctx
      using plain [of "Some (IRead, ctx)", OF _ b2] True by simp
    ultimately show ?thesis
      using True by (simp add: startIngest_def q Let_def)
  next
    case False
    then have "startIngest env b = b"
      by (auto simp: startIngest_def split: option.split list.split)
    then show ?thesis using ok by simp
  qed
qed

lemma ingestIO_ok:
  assumes ok: "bridgeOk env h0 b"
  shows "bridgeOk env h0 (ingestIO env ok' b)"
proof (cases "nbIngest b")
  case None
  then show ?thesis using ok by (simp add: ingestIO_def)
next
  case (Some p)
  obtain pc ctx where p: "p = (pc, ctx)" by fastforce
  then have pc: "map_option fst (nbIngest b) = Some pc" by (simp add: Some)
  show ?thesis
  proof (cases pc)
    case IRead
    then show ?thesis using ingestRead_ok [OF ok] pc by (simp add: ingestIO_def Some p)
  next
    case (IHash c)
    then show ?thesis using mergeDiskRead_ok [OF ok] pc by (simp add: ingestIO_def Some p)
  next
    case (IKeep c h)
    then show ?thesis using keepCopy_ok [OF ok] pc by (simp add: ingestIO_def Some p)
  next
    case (ISnap c h diffs)
    have cur: "\<forall>c'. inflight b c' \<longrightarrow> c' = c"
      by (simp add: inflight_def pc ISnap)
    have h: "h = sha256 env c"
      using ok pc ISnap by (simp add: bridgeOk_def passesOk_def ingestOk_def)
    have "gains h b (if ok' then b\<lparr>nbSnapshotTaken := True\<rparr> else b)"
      by (auto intro: sameView_gains sameView_doc)
    then show ?thesis
      using applyMerge_ok [OF ok cur] by (simp add: ingestIO_def Some p ISnap h)
  qed
qed

section \<open>Steps of an egest pass\<close>

text \<open>A step that leaves the ingest pass alone.\<close>

lemma egest_step:
  assumes ok: "bridgeOk env h0 b"
    and keep: "map_option fst (nbIngest b') = map_option fst (nbIngest b)"
    and seen: "nbSeen b' = nbSeen b @ new" "\<And>c v. (c, v) \<in> set new \<Longrightarrow> v = Written \<or> v = Seeded"
    and marks: "marks b' \<subseteq> marks b \<union> sha256 env ` {c. \<exists>v. settled v \<and> (c, v) \<in> set (nbSeen b')}"
    and egest: "pred_option (egestOk env (nbSeen b')) (map_option fst (nbEgest b'))"
    and over: "\<And>p q e. (p, q, e) \<in> set (nbOverwrites b') \<Longrightarrow>
        (p, q, e) \<in> set (nbOverwrites b) \<or> e = None \<or> e = Some (sha256 env p)"
    and copies: "set (nbCopies b) \<subseteq> set (nbCopies b')"
  shows "bridgeOk env h0 b'"
proof (rule bridgeOk_step [OF ok seen(1) marks])
  show "okHash env h0 b' h" if "h \<in> sha256 env ` {c. \<exists>v. settled v \<and> (c, v) \<in> set (nbSeen b')}" for h
    using that unfolding okHash_def by blast
  show "inflight b' c \<or> (\<exists>v. (c, v) \<in> set new \<and> (settled v \<or> unheld v))" if "inflight b c" for c
    using that inflight_pc [OF keep] by simp
  show "passesOk env b'"
    using ok egest unfolding bridgeOk_def passesOk_def keep by blast
  show "verdictOk env (nbCopies b') c v" if "(c, v) \<in> set new" for c v
    using seen(2) [OF that] by (auto simp: verdictOk_def)
qed (use over copies in blast)+

lemma marks_dropEgest: "marks (b\<lparr>nbEgest := None\<rparr>) \<subseteq> marks b"
  unfolding marks_def expectedMarks_def by simp blast

lemma endEgest_ok:
  assumes "bridgeOk env h0 b"
  shows "bridgeOk env h0 (endEgest through b)"
proof -
  have "bridgeOk env h0 (b\<lparr>nbEgest := None\<rparr>)"
    by (rule egest_step [OF assms, where new = "[]"]) (use marks_dropEgest in \<open>auto\<close>)
  moreover have "sameView (b\<lparr>nbEgest := None\<rparr>) (b\<lparr>nbEgest := None, nbBlind := False\<rparr>)"
    by (rule sameView_fields) simp_all
  ultimately show ?thesis
    by (simp add: endEgest_def sameView_ok)
qed

text \<open>The pass goes on to a point where it expects nothing of the file.\<close>

lemma goOn_ok:
  assumes ok: "bridgeOk env h0 b" and pc: "egestOk env (nbSeen b) pc" "\<forall>c h e st. pc \<noteq> EWrite c h e st"
  shows "bridgeOk env h0 (b\<lparr>nbEgest := Some (pc, through)\<rparr>)"
proof (rule egest_step [OF ok, where new = "[]"])
  have "expectedMarks (b\<lparr>nbEgest := Some (pc, through)\<rparr>) = {}"
    using pc(2) by (cases pc) (simp_all add: expectedMarks_def)
  then show "marks (b\<lparr>nbEgest := Some (pc, through)\<rparr>)
      \<subseteq> marks b \<union> sha256 env ` {c. \<exists>v. settled v \<and> (c, v) \<in> set (nbSeen (b\<lparr>nbEgest := Some (pc, through)\<rparr>))}"
    unfolding marks_def by auto
qed (use pc in auto)

lemma beginWrite_ok:
  assumes ok: "bridgeOk env h0 b"
  shows "bridgeOk env h0 (beginWrite env content (sha256 env content) through b)"
proof (rule egest_step [OF ok, where new = "[]"])
  let ?b = "beginWrite env content (sha256 env content) through b"
  have "expectedMarks ?b \<subseteq> set_option (map_option fst (nbObserved b))"
    by (auto simp add: expectedMarks_def beginWrite_def)
  then have "marks ?b \<subseteq> marks b"
    unfolding marks_def beginWrite_def by auto
  then show "marks ?b \<subseteq> marks b \<union> sha256 env ` {c. \<exists>v. settled v \<and> (c, v) \<in> set (nbSeen ?b)}"
    by blast
qed (auto simp: beginWrite_def egestOk_def)

lemma egestHashed_ok:
  assumes ok: "bridgeOk env h0 b"
  shows "bridgeOk env h0 (egestHashed env content through b)"
proof -
  have agreed: "bridgeOk env h0 (letGo Same moved t b)" for moved t
    by (rule letGo_ok [OF ok]) simp_all
  have "bridgeOk env h0 (b\<lparr>nbEgest := Some (ESave content (sha256 env content) ua, through)\<rparr>)" for ua
    by (rule goOn_ok [OF ok]) (simp_all add: egestOk_def)
  then show ?thesis
    using endEgest_ok [OF sameView_ok [OF sameView_clearWriteFailure agreed]]
      beginWrite_ok [OF ok] beginWrite_ok [OF agreed]
    by (simp add: egestHashed_def Let_def split: option.split)
qed

lemma saveAside_sameView:
  assumes "saveAside env ok c b = (kept, b1)"
  shows "sameView b b1"
  using assms unfolding saveAside_def sameView_def marks_def expectedMarks_def
  by (auto split: if_splits)

lemma egestSaved_ok:
  assumes ok: "bridgeOk env h0 b"
  shows "bridgeOk env h0 (egestSaved env ok' content (sha256 env content) ua through b)"
proof -
  obtain saved b1 where sv: "saveAside env ok' (fst ua) b = (saved, b1)"
    by fastforce
  have b1: "bridgeOk env h0 b1"
    by (rule sameView_ok [OF saveAside_sameView [OF sv] ok])
  have b2: "bridgeOk env h0 (if nbUnagreed b1 = Some ua then b1\<lparr>nbUnagreed := None\<rparr> else b1)"
    using b1 by (intro okIf sameView_ok [OF sameView_doc(11) b1])
  show ?thesis
    unfolding egestSaved_def sv Let_def prod.case
    by (rule okIf [OF endEgest_ok [OF b1] okIf [OF endEgest_ok [OF b2] beginWrite_ok [OF b2]]])
qed

lemma egestWrite_ok:
  assumes ok: "bridgeOk env h0 b"
    and pc: "map_option fst (nbEgest b) = Some (EWrite content h expected st)"
  shows "bridgeOk env h0 (egestWrite env ok' content h expected st through b)"
proof -
  have h: "h = sha256 env content"
    using ok pc by (simp add: bridgeOk_def passesOk_def egestOk_def)
  have fail: "bridgeOk env h0 (endEgest through (scheduleEgestRetry (b\<lparr>nbFailures := n\<rparr>)))" for n
    by (intro endEgest_ok sameView_ok [OF sameView_scheduleEgestRetry] sameView_ok [OF _ ok]) (rule sameView_doc)
  have stale: "bridgeOk env h0 (b\<lparr>nbEgest := Some (EAck content h st True, through)\<rparr>)"
    by (rule goOn_ok [OF ok]) (simp_all add: egestOk_def h)
  let ?w = "(saw content Written b)\<lparr>nbFile := Some content,
      nbOverwrites := nbOverwrites b @ [(fileBytes b, content, expected)],
      nbEgest := Some (EAck content h st False, through)\<rparr>"
  have "bridgeOk env h0 ?w" if "expected = None \<or> expected = Some (sha256 env (fileBytes b))"
  proof (rule egest_step [OF ok, where new = "[(content, Written)]"])
    have "expectedMarks b = set_option expected"
      using pc by (auto simp: expectedMarks_def split: option.splits prod.splits)
    moreover have "expectedMarks ?w = {}"
      by (simp add: expectedMarks_def)
    ultimately have "marks ?w \<subseteq> marks b"
      unfolding marks_def by (auto simp: saw_def)
    then show "marks ?w \<subseteq> marks b \<union> sha256 env ` {c. \<exists>v. settled v \<and> (c, v) \<in> set (nbSeen ?w)}"
      by blast
    show "pred_option (egestOk env (nbSeen ?w)) (map_option fst (nbEgest ?w))"
      by (simp add: egestOk_def h saw_def)
    show "(p, q, e) \<in> set (nbOverwrites b) \<or> e = None \<or> e = Some (sha256 env p)"
      if "(p, q, e) \<in> set (nbOverwrites ?w)" for p q e
      using that \<open>expected = None \<or> expected = Some (sha256 env (fileBytes b))\<close> by auto
  qed (simp_all add: saw_def)
  then show ?thesis
    using fail stale by (auto simp: egestWrite_def)
qed

lemma mergeStaleFile_sameView: "sameView b (mergeStaleFile b)"
proof -
  have "sameView (b\<lparr>nbLast := None\<rparr>) (b\<lparr>nbLast := None, nbIngestTimer := False, nbDirty := True\<rparr>)"
    by (rule sameView_fields) simp_all
  from sameView_trans [OF sameView_trans [OF sameView_forget(1) this] sameView_drainIngest]
  show ?thesis by (simp add: mergeStaleFile_def)
qed

lemma egestAcked_ok:
  assumes ok: "bridgeOk env h0 b"
    and pc: "map_option fst (nbEgest b) = Some (EAck content h st stale)"
  shows "bridgeOk env h0 (egestAcked env content h st stale through b)"
proof -
  have h: "h = sha256 env content" and written: "stale \<or> (content, Written) \<in> set (nbSeen b)"
    using ok pc by (simp_all add: bridgeOk_def passesOk_def egestOk_def)
  let ?a = "observeState h st (b\<lparr>nbLast := Some h, nbBase := Some h\<rparr>)"
  have "bridgeOk env h0 ?a" if "\<not> stale"
  proof (rule egest_step [OF ok, where new = "[]"])
    have "h \<in> sha256 env ` {c. \<exists>v. settled v \<and> (c, v) \<in> set (nbSeen b)}"
      using written that h settled_simps(10) by blast
    then show "marks ?a \<subseteq> marks b \<union> sha256 env ` {c. \<exists>v. settled v \<and> (c, v) \<in> set (nbSeen ?a)}"
      unfolding marks_def expectedMarks_def observeState_def by auto
    show "pred_option (egestOk env (nbSeen ?a)) (map_option fst (nbEgest ?a))"
      using ok by (simp add: observeState_def bridgeOk_def passesOk_def)
  qed (simp_all add: observeState_def)
  then have "bridgeOk env h0 (endEgest through (clearWriteFailure
      (if docText env ?a = content then ?a\<lparr>nbPending := None\<rparr> else ?a)))" if "\<not> stale"
    using that
    by (intro endEgest_ok sameView_ok [OF sameView_clearWriteFailure] okIf sameView_ok [OF sameView_forget(2)])
  moreover have "bridgeOk env h0 (endEgest through (mergeStaleFile b))"
    by (intro endEgest_ok sameView_ok [OF mergeStaleFile_sameView ok])
  ultimately show ?thesis
    by (simp add: egestAcked_def Let_def)
qed

lemma egestIO_ok:
  assumes ok: "bridgeOk env h0 b"
  shows "bridgeOk env h0 (egestIO env ok' b)"
proof (cases "nbEgest b")
  case None
  then show ?thesis using ok by (simp add: egestIO_def)
next
  case (Some p)
  obtain pc through where p: "p = (pc, through)" by fastforce
  then have pc: "map_option fst (nbEgest b) = Some pc" by (simp add: Some)
  show ?thesis
  proof (cases pc)
    case (EGuard content)
    have "bridgeOk env h0 (b\<lparr>nbEgest := Some (EHash content, through)\<rparr>)"
      by (rule goOn_ok [OF ok]) (simp_all add: egestOk_def)
    then show ?thesis using endEgest_ok [OF ok] by (simp add: egestIO_def Some p EGuard)
  next
    case (EHash content)
    then show ?thesis using egestHashed_ok [OF ok] by (simp add: egestIO_def Some p)
  next
    case (ESave content h ua)
    then have "h = sha256 env content"
      using ok pc by (simp add: bridgeOk_def passesOk_def egestOk_def)
    then show ?thesis using egestSaved_ok [OF ok] by (simp add: egestIO_def Some p ESave)
  next
    case (EWrite content h expected st)
    then show ?thesis using egestWrite_ok [OF ok] pc by (simp add: egestIO_def Some p)
  next
    case (EAck content h st stale)
    then show ?thesis using egestAcked_ok [OF ok] pc by (simp add: egestIO_def Some p)
  qed
qed

lemma startEgest_ok:
  assumes ok: "bridgeOk env h0 b"
  shows "bridgeOk env h0 (startEgest env b)"
proof -
  have q: "bridgeOk env h0 (b\<lparr>nbEgestQueue := rest\<rparr>)" for rest
    by (rule sameView_ok [OF _ ok]) (rule sameView_doc)
  have "bridgeOk env h0 (b\<lparr>nbEgestQueue := rest, nbEgest := Some (EGuard c, through)\<rparr>)" for rest c through
    by (rule goOn_ok [OF q]) (simp_all add: egestOk_def)
  moreover have "bridgeOk env h0 (b\<lparr>nbEgestQueue := rest, nbEgest := Some (EHash c, through)\<rparr>)" for rest c through
    by (rule goOn_ok [OF q]) (simp_all add: egestOk_def)
  ultimately show ?thesis
    using ok endEgest_ok [OF q] by (simp add: startEgest_def Let_def split: option.split list.split)
qed

section \<open>Seeding, every event, opening\<close>

lemma seedIO_ok:
  assumes ok: "bridgeOk env h0 b"
  shows "bridgeOk env h0 (seedIO env k ok' b)"
proof -
  have s: "bridgeOk env h0 (x\<lparr>nbSeeds := sd\<rparr>)" if "bridgeOk env h0 x" for x :: "('a, 'b) bridge" and sd
    by (rule sameView_ok [OF _ that]) (rule sameView_doc)
  have "bridgeOk env h0 (seedRead env k ok' b)"
    unfolding seedRead_def Let_def
    by (auto split: option.split intro!: letGo_ok s ok sameView_ok [OF sameView_transact ok])
  moreover have "bridgeOk env h0 (seedHashed env k c b)" for c
  proof (rule egest_step [OF ok, where new = "[(c, Seeded)]"])
    have "sha256 env c \<in> sha256 env ` {c'. \<exists>v. settled v \<and> (c', v) \<in> set (nbSeen (seedHashed env k c b))}"
      by (rule imageI, rule CollectI, rule exI [of _ Seeded]) (simp add: seedHashed_def Let_def recordDiskBase_def observeState_def saw_def)
    then show "marks (seedHashed env k c b)
        \<subseteq> marks b \<union> sha256 env ` {c'. \<exists>v. settled v \<and> (c', v) \<in> set (nbSeen (seedHashed env k c b))}"
      unfolding marks_def expectedMarks_def seedHashed_def Let_def recordDiskBase_def observeState_def saw_def
      by auto
    show "pred_option (egestOk env (nbSeen (seedHashed env k c b))) (map_option fst (nbEgest (seedHashed env k c b)))"
    proof -
      have "passesOk env b" using ok by (simp add: bridgeOk_def)
      then have "pred_option (egestOk env (nbSeen b)) (map_option fst (nbEgest b))"
        unfolding passesOk_def by blast
      then have "pred_option (egestOk env (nbSeen b @ [(c, Seeded)])) (map_option fst (nbEgest b))"
        by (rule option.pred_mono_strong) (auto simp: egestOk_def split: egest_pc.splits)
      then show ?thesis
        by (simp add: seedHashed_def Let_def recordDiskBase_def observeState_def saw_def)
    qed
  qed (simp_all add: seedHashed_def Let_def recordDiskBase_def observeState_def saw_def)
  ultimately show ?thesis
    using ok by (simp add: seedIO_def split: seed_pc.split)
qed

lemma bridgeStep_ok:
  assumes ok: "bridgeOk env h0 b"
  shows "bridgeOk env h0 (bridgeStep env e b)"
proof (cases e)
  case IngestTimer
  show ?thesis
    using ok sameView_ok [OF sameView_drainIngest sameView_ok [OF sameView_doc(4) ok]] by (simp add: IngestTimer)
next
  case PullTimer
  show ?thesis
    using ok sameView_ok [OF sameView_reconcile sameView_ok [OF sameView_doc(6) ok]] by (simp add: PullTimer)
next
  case EgestTimer
  show ?thesis
    using ok sameView_ok [OF sameView_drainEgest sameView_ok [OF sameView_doc(5) ok]] by (simp add: EgestTimer)
next
  case (ExtWrite f)
  show ?thesis unfolding ExtWrite bridgeStep.simps by (rule sameView_ok [OF _ ok]) (rule sameView_doc)
next
  case (SetReadOnly r)
  show ?thesis unfolding SetReadOnly bridgeStep.simps by (rule sameView_ok [OF _ ok]) (rule sameView_doc)
qed (simp_all add: sameView_ok [OF _ ok] sameView_transact sameView_ingest sameView_ingestNow sameView_beginPull
  sameView_reconcile sameView_abandonPull sameView_startSeed sameView_writeThrough sameView_flushEgest
  sameView_cancelEgest sameView_destroyBridge startIngest_ok startEgest_ok ingestIO_ok egestIO_ok seedIO_ok ok)

interpretation bridge_machine: invariant_machine "bridgeStep env" "bridgeOk env h0"
  by unfold_locales (rule bridgeStep_ok)

lemma emptyBridge_ok: "bridgeOk env base (emptyBridge env seed ro base file)"
proof -
  have "marks (emptyBridge env seed ro base file) \<subseteq> set_option base"
    unfolding marks_def expectedMarks_def emptyBridge_def by (auto split: option.splits if_splits)
  then show ?thesis
    by (auto simp: bridgeOk_def okHash_def passesOk_def historyOk_def emptyBridge_def)
qed

text \<open>Once bytes have a settled verdict their digest may be kept anywhere.\<close>

lemma gained_ok:
  assumes ok: "bridgeOk env h0 b" and seen: "(c, v) \<in> set (nbSeen b)" "settled v"
    and gain: "gains (sha256 env c) b b'" and keep: "nbIngest b' = nbIngest b"
  shows "bridgeOk env h0 b'"
proof (rule bridgeOk_step [OF ok, where new = "[]" and N = "{sha256 env c}"])
  show "okHash env h0 b' h" if "h \<in> {sha256 env c}" for h
    using that seen gain unfolding okHash_def gains_def by auto
  show "inflight b' c' \<or> (\<exists>v. (c', v) \<in> set [] \<and> (settled v \<or> unheld v))" if "inflight b c'" for c'
    using that keep by (simp add: inflight_def)
  show "passesOk env b'"
    using ok gain keep by (simp add: bridgeOk_def passesOk_def gains_def)
qed (use gain in \<open>simp_all add: gains_def, blast?\<close>)

lemma opening_ok:
  assumes "bridgeOk env h0 b"
  shows "bridgeOk env h0 (saw c OwnText (b\<lparr>nbLast := Some (sha256 env c)\<rparr>))"
proof -
  have "saw c OwnText (b\<lparr>nbLast := Some (sha256 env c)\<rparr>) = (saw c OwnText b)\<lparr>nbLast := Some (sha256 env c)\<rparr>"
    by (simp add: saw_def)
  moreover have "(c, OwnText) \<in> set (nbSeen (saw c OwnText b))"
    by (simp add: saw_def)
  ultimately show ?thesis
    using gained_ok [OF saw_ok [OF assms verdictOk_plain] _ _ gains_last] by simp
qed

lemma openPersisted_ok: "bridgeOk env base (openPersisted env seed ro base d file)"
proof -
  have "sameView (emptyBridge env seed ro base file)
      ((emptyBridge env seed ro base file)\<lparr>nbDoc := d, nbEverHad := e\<rparr>)" for e
    by (rule sameView_fields) simp_all
  from opening_ok [OF sameView_ok [OF this emptyBridge_ok]]
  show ?thesis
    unfolding openPersisted_def Let_def
    by (intro okIf sameView_ok [OF sameView_ingest] sameView_ok [OF sameView_beginPull]) simp_all
qed

lemma spaces_blank: "js_trim c = [] \<Longrightarrow> c = [] \<or> meaningfulLength c = 0"
proof -
  assume t: "js_trim c = []"
  then have "\<forall>x \<in> set c. js_space x" by (simp add: js_trim_def) (metis dropWhile_eq_Nil_conv set_rev set_dropWhileD hd_dropWhile list.set_sel(1))
  then have "take 3 c \<noteq> ''---''" by (cases c) (auto simp: js_space_def Let_def)
  then show "c = [] \<or> meaningfulLength c = 0" using t by (simp add: meaningfulLength_def noteBody_def)
qed

lemma openVerdict_cases:
  "settled (openVerdict seed c base h saved) \<or> unheld (openVerdict seed c base h saved) \<or> base = Some h"
  by (auto simp: openVerdict_def split: option.split)

lemma openVerdict_ok:
  assumes "openVerdict seed c base h saved = Kept \<Longrightarrow> saved \<Longrightarrow> c \<in> set copies \<or> \<not> ioSaveAside env"
  shows "verdictOk env copies c (openVerdict seed c base h saved)"
  using assms spaces_blank [of c] by (auto simp: openVerdict_def verdictOk_def split: option.splits if_splits)

lemma openFresh_ok: "bridgeOk env base (openFresh env seed ro base read copied file)"
proof -
  define c where "c = (case read of None \<Rightarrow> [] | Some c \<Rightarrow> c)"
  define h where "h = sha256 env c"
  define b0 where "b0 = emptyBridge env seed ro base file"
  define b1 where "b1 = (if seed \<and> c \<noteq> [] then transact env True (crInsert env 0 c (nbDoc b0)) b0 else b0)"
  define b2 where "b2 = b1\<lparr>nbLast := Some h\<rparr>"
  obtain saved b3 where b3: "(if \<not> seed \<and> read \<noteq> None \<and> js_trim c \<noteq> []
      then (case nbBase b2 of
              Some hb \<Rightarrow> if hb \<noteq> h then saveAside env copied c b2 else (False, b2)
            | None \<Rightarrow> (False, b2\<lparr>nbUnagreed := Some (c, h)\<rparr>))
      else (False, b2)) = (saved, b3)" by fastforce
  define b4 where "b4 = (if seed \<and> c \<noteq> [] \<and> docText env b3 = c then recordDiskBase h b3 else b3)"
  define v where "v = openVerdict seed c base h saved"
  have b1: "bridgeOk env base b1" "nbIngest b1 = None"
    unfolding b1_def b0_def
    by (intro okIf sameView_ok [OF sameView_transact] emptyBridge_ok)
       (simp add: transact_def Let_def capture_def onTextChange_def emptyBridge_def)
  have b3': "gains h b2 b3 \<and> nbIngest b3 = nbIngest b2 \<and> (saved \<longrightarrow> c \<in> set (nbCopies b3) \<or> \<not> ioSaveAside env)"
    using b3 by (auto simp: saveAside_def intro: gains_copies sameView_gains sameView_doc split: if_splits option.splits)
  have b4: "gains h b1 b4" "nbIngest b4 = None" "nbCopies b4 = nbCopies b3"
    using b3' b1(2) gains_trans [OF gains_last [of h b1], of b3] gains_trans [OF _ gains_recordDiskBase, of h b1 b3]
    by (auto simp: b4_def b2_def recordDiskBase_def)
  have fact: "verdictOk env (nbCopies b4) c v"
    unfolding v_def using b3' b4(3) by (intro openVerdict_ok) auto
  have step: "bridgeOk env base b'" if b': "gains h b4 (b'\<lparr>nbSeen := nbSeen b4\<rparr>)" "nbSeen b' = nbSeen b4 @ [(c, v)]" "nbIngest b' = nbIngest b4"
      "nbCopies b' = nbCopies b4" for b'
  proof (rule bridgeOk_step [OF b1(1), where new = "[(c, v)]" and N = "{h}"])
    note g = gains_trans [OF b4(1) b'(1)]
    have m: "marks (b'\<lparr>nbSeen := nbSeen b4\<rparr>) = marks b'" by (simp add: marks_def expectedMarks_def)
    show "nbSeen b' = nbSeen b1 @ [(c, v)]" using b'(2) b4(1) by (simp add: gains_def)
    show "marks b' \<subseteq> marks b1 \<union> {h}" using g unfolding gains_def m by auto
    show "okHash env base b' h'" if "h' \<in> {h}" for h'
      using that openVerdict_cases [of seed c base h saved] b'(2)
      by (auto simp: okHash_def gapped_def v_def h_def)
    show "inflight b' c' \<or> (\<exists>v'. (c', v') \<in> set [(c, v)] \<and> (settled v' \<or> unheld v'))" if "inflight b1 c'" for c'
      using that b1(2) by (simp add: inflight_def)
    show "passesOk env b'"
      by (rule passesOk_noIngest [of env b1]) (use b1 b4 b' g in \<open>auto simp: bridgeOk_def gains_def\<close>)
    show "(p, q, e) \<in> set (nbOverwrites b1) \<or> e = None \<or> e = Some (sha256 env p)" if "(p, q, e) \<in> set (nbOverwrites b')" for p q e
      using that g by (simp add: gains_def)
    show "set (nbCopies b1) \<subseteq> set (nbCopies b')" using g by (simp add: gains_def)
    show "verdictOk env (nbCopies b') c' v'" if "(c', v') \<in> set [(c, v)]" for c' v'
      using that fact b'(4) by simp
  qed
  have "bridgeOk env base ((saw c v b4)\<lparr>nbObserved := None\<rparr>)"
    by (rule step) (use sameView_gains [OF sameView_forget(3), of h b4] in \<open>simp_all add: saw_def\<close>)
  moreover have "bridgeOk env base (observeState h st (saw c v b4))" for st
    by (rule step) (use gains_observeState [of h b4 st] in \<open>simp_all add: saw_def observeState_def\<close>)
  ultimately show ?thesis
    unfolding openFresh_def Let_def c_def [symmetric] h_def [symmetric] b0_def [symmetric] b1_def [symmetric] b2_def [symmetric]
      b3 prod.case b4_def [symmetric] v_def [symmetric] by simp
qed

lemma openBridge_ok: "bridgeOk env base (openBridge env base op)"
  by (cases op) (simp_all add: openPersisted_ok openFresh_ok)

lemma bridgeRun_ok: "bridgeOk env base (bridgeRun env es (openBridge env base op))"
  unfolding bridgeRun_def by (rule bridge_machine.run_inv [OF openBridge_ok])

end
