(* ===== verification/Bridge_Open.thy ===== *)
theory Bridge_Open
  imports Bridge_Inv
begin

text \<open>
  Bytes read when a note opens without local state or a disk base (\<open>unagreedFile\<close>): until the first
  write they are remembered, and before a write goes out they are copied aside, found in the note, or
  let go because something else had taken their place.
\<close>

definition proved :: "('d, 'u) bridge \<Rightarrow> string \<Rightarrow> bool" where
  "proved b c \<longleftrightarrow> c \<in> set (nbCopies b) \<or> (\<exists>v \<in> {Same, Merged, Seeded, LetGo}. (c, v) \<in> set (nbSeen b))"

definition core :: "('d, 'u) bridge \<Rightarrow> (string \<times> string) option \<times> (string \<times> verdict) list \<times> string list
    \<times> (string \<times> string \<times> string option) list \<times> 'u egest_pc option" where
  "core b = (nbUnagreed b, nbSeen b, nbCopies b, nbOverwrites b, map_option fst (nbEgest b))"

definition egestQuiet :: "'u egest_pc option \<Rightarrow> bool" where
  "egestQuiet pc \<longleftrightarrow> (case pc of Some (EWrite c h e st) \<Rightarrow> False | Some (ESave c h ua) \<Rightarrow> False | _ \<Rightarrow> True)"

definition egestSafe :: "(string \<times> string) option \<Rightarrow> 'u egest_pc option \<Rightarrow> bool" where
  "egestSafe unagreed pc \<longleftrightarrow>
     (case pc of Some (EWrite c h e st) \<Rightarrow> unagreed = None | Some (ESave c h ua) \<Rightarrow> unagreed = None \<or> unagreed = Some ua | _ \<Rightarrow> True)"

definition unprovenOk :: "('d, 'u) bridge \<Rightarrow> bool" where
  "unprovenOk b \<longleftrightarrow>
     (\<forall>c. (c, Unproven) \<in> set (nbSeen b) \<longrightarrow> map_option fst (nbUnagreed b) = Some c \<or> proved b c) \<and>
     (nbOverwrites b \<noteq> [] \<longrightarrow> nbUnagreed b = None) \<and> egestSafe (nbUnagreed b) (map_option fst (nbEgest b))"

section \<open>Steps that leave them alone\<close>

lemma core_ok: "core b' = core b \<Longrightarrow> unprovenOk b' = unprovenOk b"
  unfolding core_def unprovenOk_def proved_def by simp

lemma core_simps [simp]:
  "core (b\<lparr>nbDoc := d\<rparr>) = core b" "core (b\<lparr>nbEverHad := x1\<rparr>) = core b" "core (b\<lparr>nbDirty := x1\<rparr>) = core b"
  "core (b\<lparr>nbIngestTimer := x1\<rparr>) = core b" "core (b\<lparr>nbEgestTimer := x1\<rparr>) = core b" "core (b\<lparr>nbPullTimer := x1\<rparr>) = core b"
  "core (b\<lparr>nbEgestDeferred := x1\<rparr>) = core b" "core (b\<lparr>nbBlind := x1\<rparr>) = core b" "core (b\<lparr>nbFile := f\<rparr>) = core b"
  "core (b\<lparr>nbReadOnly := x1\<rparr>) = core b" "core (b\<lparr>nbSeeds := sd\<rparr>) = core b" "core (b\<lparr>nbFailures := n\<rparr>) = core b"
  "core (b\<lparr>nbDestroyed := x1\<rparr>) = core b" "core (b\<lparr>nbIngestQueue := q\<rparr>) = core b" "core (b\<lparr>nbEgestQueue := eq\<rparr>) = core b"
  "core (b\<lparr>nbTruncateReported := x1\<rparr>) = core b" "core (b\<lparr>nbOversizeReported := x1\<rparr>) = core b" "core (b\<lparr>nbUnreported := x1\<rparr>) = core b"
  "core (b\<lparr>nbSnapshotTaken := x1\<rparr>) = core b" "core (b\<lparr>nbReports := r\<rparr>) = core b" "core (b\<lparr>nbPrePull := p\<rparr>) = core b"
  "core (b\<lparr>nbLast := l\<rparr>) = core b" "core (b\<lparr>nbPending := l\<rparr>) = core b" "core (b\<lparr>nbBase := l\<rparr>) = core b"
  "core (b\<lparr>nbObserved := obs\<rparr>) = core b" "core (b\<lparr>nbIngest := i\<rparr>) = core b"
  by (simp_all add: core_def)

lemma core_steps [simp]:
  "core (scheduleEgest b) = core b" "core (scheduleEgestRetry b) = core b" "core (clearWriteFailure b) = core b"
  "core (drainIngest who base b) = core b" "core (drainEgest through b) = core b" "core (releasePull b) = core b"
  "core (capture env b) = core b" "core (observe h b) = core b" "core (observeState h st b) = core b" "core (recordDiskBase h b) = core b"
  by (simp_all add: scheduleEgest_def scheduleEgestRetry_def clearWriteFailure_def drainIngest_def drainEgest_def releasePull_def
      capture_def observe_def observeState_def recordDiskBase_def split: option.split)

lemma core_more [simp]:
  "core (onTextChange env d b) = core b" "core (beginPull env b) = core b" "core (reconcileAfterPull who b) = core b"
  "core (abandonPull e b) = core b" "core (ingest b) = core b" "core (flushTail b) = core b" "core (destroyBridge b) = core b"
  "core (cancelEgest b) = core b" "core (mergeStaleFile b) = core b" "core (startSeed env b) = core b"
  by (simp_all add: onTextChange_def beginPull_def reconcileAfterPull_def abandonPull_def ingest_def flushTail_def destroyBridge_def
      cancelEgest_def mergeStaleFile_def startSeed_def Let_def split: option.split)

lemma core_last [simp]:
  "core (transact env fromDisk d b) = core b" "core (ingestNow b) = core b" "core (flushEgest b) = core b"
  "core (writeThrough b) = core b" "core (endIngest who ch b) = core b"
  by (simp_all add: transact_def ingestNow_def flushEgest_def writeThrough_def endIngest_def Let_def)

lemma core_start [simp]: "core (startIngest env b) = core b"
  by (simp add: startIngest_def Let_def split: option.split list.split)

lemma coreIf: "core x = t \<Longrightarrow> core y = t \<Longrightarrow> core (if P then x else y) = t"
  by simp

lemmas core_rules = core_simps [THEN trans] core_steps [THEN trans] core_more [THEN trans] core_last [THEN trans] coreIf refl

section \<open>Steps that add to the history or end a pass\<close>

lemma unprovenOk_saw: "unprovenOk b \<Longrightarrow> v \<noteq> Unproven \<Longrightarrow> unprovenOk (saw c v b)"
  unfolding unprovenOk_def proved_def saw_def by auto

lemma unprovenOk_copies: "unprovenOk b \<Longrightarrow> unprovenOk (b\<lparr>nbCopies := nbCopies b @ cs\<rparr>)"
  unfolding unprovenOk_def proved_def by auto

lemma unprovenOk_judged: "unprovenOk b \<Longrightarrow> v \<noteq> Unproven \<Longrightarrow> unprovenOk (judged c v ch ctx b)"
  unfolding judged_def by (simp add: core_ok [OF core_last(5)] unprovenOk_saw)

lemma unprovenOk_egest:
  "unprovenOk b \<Longrightarrow> egestSafe (nbUnagreed b) (map_option fst e) \<Longrightarrow> unprovenOk (b\<lparr>nbEgest := e\<rparr>)"
  unfolding unprovenOk_def proved_def by simp

lemma unprovenOk_endEgest: "unprovenOk b \<Longrightarrow> unprovenOk (endEgest through b)"
proof -
  assume "unprovenOk b"
  then have b: "unprovenOk (b\<lparr>nbEgest := None\<rparr>)" by (rule unprovenOk_egest) (simp add: egestSafe_def)
  have "core (b\<lparr>nbEgest := None, nbBlind := False\<rparr>) = core (b\<lparr>nbEgest := None\<rparr>)" by (simp add: core_def)
  from iffD2 [OF core_ok [OF this] b] show ?thesis using b by (simp add: endEgest_def)
qed

lemma unprovenOk_beginWrite: "unprovenOk b \<Longrightarrow> nbUnagreed b = None \<Longrightarrow> unprovenOk (beginWrite env content h through b)"
  unfolding beginWrite_def unprovenOk_def proved_def egestSafe_def by simp

lemma egestSafe_None: "egestSafe None pc"
  by (auto simp: egestSafe_def split: option.split egest_pc.split)

text \<open>Letting go needs the bytes to have another fate, or something else to be in their place.\<close>

lemma letGo_simps [simp]: "nbUnagreed (letGo v moved t b) = None" "nbOverwrites (letGo v moved t b) = nbOverwrites b"
  "nbEgest (letGo v moved t b) = nbEgest b" "nbCopies (letGo v moved t b) = nbCopies b"
  "nbDoc (letGo v moved t b) = nbDoc b" "nbEgestTimer (letGo v moved t b) = nbEgestTimer b"
  "nbIngest (letGo v moved t b) = nbIngest b" "nbReports (letGo v moved t b) = nbReports b"
  by (auto simp: letGo_def saw_def Let_def split: option.split)

lemma letGo_seen: "set (nbSeen b) \<subseteq> set (nbSeen (letGo v moved t b))"
  "set (nbSeen (letGo v moved t b)) \<subseteq> set (nbSeen b) \<union> {(t, v)} \<union> {x. snd x = LetGo}"
  by (auto simp: letGo_def saw_def Let_def split: option.split)

lemma unprovenOk_letGo:
  assumes ok: "unprovenOk b" and v: "v \<in> {Same, Merged, Seeded}"
    and moved: "\<And>ua. nbUnagreed b = Some ua \<Longrightarrow> moved \<or> fst ua = t"
  shows "unprovenOk (letGo v moved t b)"
  unfolding unprovenOk_def
proof (intro conjI allI impI disjI2)
  fix c assume "(c, Unproven) \<in> set (nbSeen (letGo v moved t b))"
  then have "(c, Unproven) \<in> set (nbSeen b)" using letGo_seen(2) [of v moved t b] v by auto
  then consider "map_option fst (nbUnagreed b) = Some c" | "proved b c" using ok unfolding unprovenOk_def by blast
  then show "proved (letGo v moved t b) c"
  proof cases
    case 1
    then obtain ua where ua: "nbUnagreed b = Some ua" "fst ua = c" by auto
    then show ?thesis using moved [OF ua(1)] v by (auto simp: letGo_def saw_def proved_def Let_def)
  next
    case 2
    then show ?thesis using letGo_seen(1) [of b v moved t] unfolding proved_def by auto
  qed
qed (simp_all add: egestSafe_None)

section \<open>Every step keeps it\<close>

lemma saveAside_core:
  "unprovenOk b \<Longrightarrow> unprovenOk (snd (saveAside env ok c b))" "nbUnagreed (snd (saveAside env ok c b)) = nbUnagreed b"
  "ioSaveAside env \<Longrightarrow> fst (saveAside env ok c b) \<Longrightarrow> c \<in> set (nbCopies (snd (saveAside env ok c b)))"
  by (auto simp: saveAside_def unprovenOk_copies)

lemma provedIf:
  "(P \<Longrightarrow> unprovenOk x) \<Longrightarrow> (\<not> P \<Longrightarrow> unprovenOk y) \<Longrightarrow> unprovenOk (if P then x else y)"
  by simp

lemma applyMerge_proved:
  assumes ok: "unprovenOk b"
  shows "unprovenOk (applyMerge env c h diffs ctx b)"
proof -
  have j: "unprovenOk (judged c v ch ctx x)" if "core x = core b" "v \<noteq> Unproven" for x v ch
    using unprovenOk_judged [OF _ that(2)] core_ok [OF that(1)] ok by blast
  have m: "unprovenOk (letGo Merged True c (judged c Merged True ctx (recordDiskBase h (x\<lparr>nbUnreported := True\<rparr>))))" if "core x = core b" for x
    by (rule unprovenOk_letGo [OF j]) (simp_all add: that)
  show ?thesis
    unfolding applyMerge_def Let_def by (intro provedIf m j) (simp_all split: option.split)
qed

lemma mergeDiskRead_proved:
  assumes ok: "unprovenOk b"
  shows "unprovenOk (mergeDiskRead env c ctx b)"
proof -
  have j: "unprovenOk (judged c v ch ctx x)" if "core x = core b" "v \<noteq> Unproven" for x v ch
    using unprovenOk_judged [OF _ that(2)] core_ok [OF that(1)] ok by blast
  have k: "unprovenOk x" if "core x = core b" for x using core_ok [OF that] ok by blast
  show ?thesis
    unfolding mergeDiskRead_def Let_def by (intro provedIf j applyMerge_proved k) (simp_all (no_asm))
qed

lemma ingestIO_proved:
  assumes ok: "unprovenOk b"
  shows "unprovenOk (ingestIO env ok' b)"
proof -
  have k: "unprovenOk x" if "core x = core b" for x using core_ok [OF that] ok by blast
  have keep: "unprovenOk (keepCopy env ok' c h ctx b)" for c h ctx
  proof -
    obtain kept b1 where kb: "(if ioKeeper env then (ok', if ok' then b\<lparr>nbCopies := nbCopies b @ [c]\<rparr> else b)
        else saveAside env ok' c b) = (kept, b1)" by fastforce
    then have "unprovenOk b1"
      using ok unprovenOk_copies [OF ok, of "[c]"] saveAside_core(1) [OF ok, of env ok' c] by (auto split: if_splits)
    then have "unprovenOk (if kept \<and> \<not> nbDestroyed b1 then scheduleEgest (b1\<lparr>nbLast := Some h\<rparr>) else b1)"
      by (rule iffD2 [OF core_ok, rotated]) (simp (no_asm))
    then show ?thesis unfolding keepCopy_def kb prod.case Let_def by (rule unprovenOk_judged) simp
  qed
  have "unprovenOk (ingestRead env ok' ctx b)" for ctx
    unfolding ingestRead_def by (auto intro!: k split: option.split)
  then show ?thesis
    unfolding ingestIO_def using ok keep mergeDiskRead_proved [OF ok] applyMerge_proved [OF ok]
      applyMerge_proved [OF k [OF core_simps(19) [of True b]]]
    by (auto split: option.split ingest_pc.split)
qed

lemma egestHashed_proved:
  assumes ok: "unprovenOk b"
  shows "unprovenOk (egestHashed env content through b)"
proof -
  have "unprovenOk (endEgest through (clearWriteFailure (letGo Same True content b)))"
    by (intro unprovenOk_endEgest) (simp add: iffD2 [OF core_ok [OF core_steps(3)]] unprovenOk_letGo [OF ok])
  moreover have "unprovenOk (beginWrite env content h through (letGo Same moved content b))"
    if "\<And>ua. nbUnagreed b = Some ua \<Longrightarrow> moved \<or> fst ua = content" for h moved
    by (rule unprovenOk_beginWrite [OF unprovenOk_letGo [OF ok _ that]]) simp_all
  moreover have "unprovenOk (b\<lparr>nbEgest := Some (ESave content h ua, through)\<rparr>)" if "nbUnagreed b = Some ua" for h ua
    by (rule unprovenOk_egest [OF ok]) (simp add: egestSafe_def that)
  ultimately show ?thesis
    unfolding egestHashed_def Let_def using unprovenOk_beginWrite [OF ok] by (auto split: option.split)
qed

lemma egestSaved_proved:
  assumes ok: "unprovenOk b" and hook: "ioSaveAside env" and pc: "map_option fst (nbEgest b) = Some (ESave content h ua)"
  shows "unprovenOk (egestSaved env ok' content h ua through b)"
proof -
  obtain saved b1 where sv: "saveAside env ok' (fst ua) b = (saved, b1)" by fastforce
  have b1: "unprovenOk b1" "nbUnagreed b1 = nbUnagreed b" "saved \<Longrightarrow> fst ua \<in> set (nbCopies b1)"
    using saveAside_core(1) [OF ok, of env ok' "fst ua"] saveAside_core(2) [of env ok' "fst ua" b]
      saveAside_core(3) [OF hook, of ok' "fst ua" b] sv by simp_all
  define b2 where "b2 = (if nbUnagreed b1 = Some ua then b1\<lparr>nbUnagreed := None\<rparr> else b1)"
  have "nbUnagreed b = None \<or> nbUnagreed b = Some ua" using ok pc by (simp add: unprovenOk_def egestSafe_def)
  then have none: "nbUnagreed b2 = None" using b1(2) by (auto simp: b2_def)
  have "unprovenOk b2" if saved
  proof (cases "nbUnagreed b1 = Some ua")
    case True
    then show ?thesis using b1(1) b1(3) [OF that] unfolding b2_def unprovenOk_def proved_def by (auto simp: egestSafe_None)
  qed (simp add: b2_def b1(1))
  then show ?thesis
    unfolding egestSaved_def sv Let_def prod.case b2_def [symmetric]
    using unprovenOk_endEgest unprovenOk_beginWrite [OF _ none] b1(1) by auto
qed

lemma egestIO_proved:
  assumes ok: "unprovenOk b" and hook: "ioSaveAside env"
  shows "unprovenOk (egestIO env ok' b)"
proof (cases "nbEgest b")
  case None
  then show ?thesis using ok by (simp add: egestIO_def)
next
  case (Some p)
  obtain pc through where p: "p = (pc, through)" by fastforce
  have k: "unprovenOk x" if "core x = core b" for x using core_ok [OF that] ok by blast
  have quiet: "unprovenOk (x\<lparr>nbEgest := Some (pc', th)\<rparr>)" if "unprovenOk x" "egestQuiet (Some pc')" for x pc' th
    by (rule unprovenOk_egest [OF that(1)]) (use that(2) in \<open>auto simp: egestSafe_def egestQuiet_def split: egest_pc.splits\<close>)
  show ?thesis
  proof (cases pc)
    case (EGuard content)
    then show ?thesis using unprovenOk_endEgest [OF ok] quiet [OF ok] by (simp add: egestIO_def Some p egestQuiet_def)
  next
    case (EHash content)
    then show ?thesis using egestHashed_proved [OF ok] by (simp add: egestIO_def Some p)
  next
    case (ESave content h ua)
    then show ?thesis using egestSaved_proved [OF ok hook] by (simp add: egestIO_def Some p)
  next
    case (EWrite content h expected st)
    have none: "nbUnagreed b = None" using ok by (simp add: unprovenOk_def egestSafe_def Some p EWrite)
    have "unprovenOk ((saw content Written b)\<lparr>nbFile := Some content, nbOverwrites := ovs, nbEgest := e\<rparr>)" for ovs e
      using unprovenOk_saw [OF ok, of Written content] none unfolding unprovenOk_def proved_def
      by (simp add: saw_def egestSafe_None)
    then show ?thesis
      using quiet [OF ok]
      by (simp add: unprovenOk_endEgest k egestIO_def Some p EWrite egestWrite_def egestQuiet_def)
  next
    case (EAck content h st stale)
    then show ?thesis
      by (simp add: unprovenOk_endEgest k egestIO_def Some p EAck egestAcked_def Let_def)
  qed
qed

lemma seedIO_proved:
  assumes ok: "unprovenOk b"
  shows "unprovenOk (seedIO env k' ok' b)"
proof -
  have k: "unprovenOk x" if "core x = core b" for x using core_ok [OF that] ok by blast
  have s: "unprovenOk (letGo Seeded True c x)" if "core x = core b" for x c
    by (rule unprovenOk_letGo [OF k [OF that]]) simp_all
  have "unprovenOk (seedRead env k' ok' b)"
  proof (cases "if ok' then nbFile b else None")
    case None
    then show ?thesis unfolding seedRead_def Let_def None option.case by (intro k) simp
  next
    case (Some c)
    show ?thesis unfolding seedRead_def Let_def Some option.case by (intro provedIf s) (simp_all add: k)
  qed
  moreover have "unprovenOk (seedHashed env k' c b)" for c
    unfolding seedHashed_def Let_def by (rule unprovenOk_saw [OF k]) simp_all
  ultimately show ?thesis using ok by (simp add: seedIO_def split: seed_pc.split)
qed

lemma startEgest_proved:
  assumes ok: "unprovenOk b"
  shows "unprovenOk (startEgest env b)"
proof -
  have q: "unprovenOk (b\<lparr>nbEgestQueue := rest\<rparr>)" for rest by (rule iffD2 [OF core_ok ok]) simp
  have "unprovenOk (b\<lparr>nbEgestQueue := rest, nbEgest := Some (pc, th)\<rparr>)" if "egestQuiet (Some pc)" for rest pc th
    by (rule unprovenOk_egest [OF q]) (use that in \<open>auto simp: egestSafe_def egestQuiet_def split: egest_pc.splits\<close>)
  then show ?thesis
    using ok unprovenOk_endEgest [OF q] by (simp add: startEgest_def Let_def egestQuiet_def split: option.split list.split)
qed

lemma bridgeStep_proved:
  assumes hook: "ioSaveAside env" and ok: "unprovenOk b"
  shows "unprovenOk (bridgeStep env e b)"
proof -
  have k: "unprovenOk x" if "core x = core b" for x using core_ok [OF that] ok by blast
  show ?thesis
  proof (cases e)
    case EgestStart
    then show ?thesis using startEgest_proved [OF ok] by simp
  next
    case (IngestIO x)
    then show ?thesis using ingestIO_proved [OF ok] by simp
  next
    case (EgestIO x)
    then show ?thesis using egestIO_proved [OF ok hook] by simp
  next
    case (SeedIO i x)
    then show ?thesis using seedIO_proved [OF ok] by simp
  qed (rule k, simp)+
qed

lemma open_proved: "unprovenOk (openBridge env base op)"
proof -
  have empty: "unprovenOk (emptyBridge env seed ro base onDisk)" for seed ro onDisk
    by (simp add: emptyBridge_def unprovenOk_def egestSafe_None)
  show ?thesis
  proof (cases op)
    case (Persisted seed ro d onDisk)
    have "unprovenOk (saw (crText env d) OwnText ((emptyBridge env seed ro base onDisk)\<lparr>nbDoc := d, nbEverHad := x, nbLast := l\<rparr>))" for x l
      by (rule unprovenOk_saw [OF iffD2 [OF core_ok empty]]) (simp_all (no_asm))
    note opened = this
    show ?thesis
      unfolding Persisted openBridge.simps openPersisted_def Let_def
      by (intro provedIf opened iffD2 [OF core_ok [OF core_more(5)] opened] iffD2 [OF core_ok [OF core_more(2)] opened])
  next
    case (Fresh seed ro read copied onDisk)
    define c where "c = (case read of None \<Rightarrow> [] | Some c \<Rightarrow> c)"
    define h where "h = sha256 env c"
    define b1 where "b1 = (if seed \<and> c \<noteq> [] then transact env True (crInsert env 0 c (nbDoc (emptyBridge env seed ro base onDisk)))
      (emptyBridge env seed ro base onDisk) else emptyBridge env seed ro base onDisk)"
    obtain saved b3 where b3: "(if \<not> seed \<and> read \<noteq> None \<and> js_trim c \<noteq> []
        then (case nbBase (b1\<lparr>nbLast := Some h\<rparr>) of
                Some hb \<Rightarrow> if hb \<noteq> h then saveAside env copied c (b1\<lparr>nbLast := Some h\<rparr>) else (False, b1\<lparr>nbLast := Some h\<rparr>)
              | None \<Rightarrow> (False, b1\<lparr>nbLast := Some h, nbUnagreed := Some (c, h)\<rparr>))
        else (False, b1\<lparr>nbLast := Some h\<rparr>)) = (saved, b3)" by fastforce
    have b1: "core b1 = (None, [], [], [], None)"
    proof -
      have "core (emptyBridge env s ro base onDisk) = (None, [], [], [], None)" for s by (simp add: core_def emptyBridge_def)
      then show ?thesis by (simp add: b1_def)
    qed
    have base: "nbBase b1 = base" by (simp add: b1_def emptyBridge_def transact_def Let_def capture_def onTextChange_def)
    have seen: "nbSeen b3 = [] \<and> nbOverwrites b3 = [] \<and> nbEgest b3 = None \<and> unprovenOk b3 \<and>
        (openVerdict seed c base h saved = Unproven \<longrightarrow> nbUnagreed b3 = Some (c, h))"
      using b3 b1 base
      by (auto simp: core_def saveAside_def openVerdict_def unprovenOk_def egestSafe_def c_def js_trim_def split: if_splits option.splits)
    have "unprovenOk (saw c (openVerdict seed c base h saved) x)" if x: "core x = core b3" for x
    proof (cases "openVerdict seed c base h saved = Unproven")
      case True
      then show ?thesis using seen x by (simp add: unprovenOk_def core_def saw_def egestSafe_def)
    next
      case False
      have "unprovenOk x" using core_ok [OF x] seen by blast
      from unprovenOk_saw [OF this False] show ?thesis .
    qed
    moreover define b4 where "b4 = (if seed \<and> c \<noteq> [] \<and> docText env b3 = c then recordDiskBase h b3 else b3)"
    have "core b4 = core b3" by (simp add: b4_def)
    ultimately have b5: "unprovenOk (saw c (openVerdict seed c base h saved) b4)" by blast
    show ?thesis
      unfolding Fresh openBridge.simps openFresh_def Let_def c_def [symmetric] h_def [symmetric] b1_def [symmetric] b3 prod.case b4_def [symmetric]
      by (intro provedIf iffD2 [OF core_ok b5] core_rules)
  qed
qed

lemma bridgeRun_proved: "ioSaveAside env \<Longrightarrow> unprovenOk (bridgeRun env es (openBridge env base op))"
proof -
  assume hook: "ioSaveAside env"
  have "unprovenOk (fold (bridgeStep env) es b)" if "unprovenOk b" for b
    using that by (induction es arbitrary: b) (simp_all add: bridgeStep_proved [OF hook])
  then show ?thesis unfolding bridgeRun_def using open_proved by blast
qed

end
