(* ===== verification/Bridge_Props.thy ===== *)
theory Bridge_Props
  imports Bridge_Open
begin

text \<open>
  Properties of the note bridge: what it overwrites is accounted for, what it refuses can be lost,
  a signed-in note waits for its pull, a file that is merely behind is written over and never merged,
  and an undisturbed ingest brings the file's text into the note.
\<close>

section \<open>A concrete environment for the runs\<close>

text \<open>A text kept as a string, where an update carries the whole text; the digest is the text itself.\<close>

definition plainEnv :: "(string, string, unit) bridge_env" where
  "plainEnv =
     \<lparr>crText = \<lambda>d. d, crNew = [], crEncode = \<lambda>d. d, crVector = \<lambda>d. (), crEncodeSince = \<lambda>d v. d,
      crApply = \<lambda>u d. u,
      crInsert = \<lambda>i t d. take i d @ t @ drop i d, crDelete = \<lambda>i n d. take i d @ drop (i + n) d,
      crTouched = \<lambda>d d'. d \<noteq> d',
      dmpMain = \<lambda>a b. [(DDelete, a), (DInsert, b)], sha256 = \<lambda>s. s, cfgMaxIngest = 0,
      cfgAllowTruncate = False, cfgLargeRatio = (1, 1), cfgPullTimeout = 4000, ioKeeper = False,
      ioSaveAside = True\<rparr>"

lemmas run_defs = bridgeRun_def plainEnv_def openPersisted_def openFresh_def emptyBridge_def Let_def saw_def
  observe_def observeState_def stateIfText_def recordDiskBase_def scheduleEgest_def scheduleEgestRetry_def
  clearWriteFailure_def copyDoc_def capture_def onTextChange_def transact_def drainIngest_def drainEgest_def
  beginPull_def releasePull_def reconcileAfterPull_def abandonPull_def ingest_def ingestNow_def flushTail_def
  flushEgest_def endIngest_def judged_def startIngest_def baseDoc_def oversized_def ingestRead_def
  applyMerge_def isBlankFile_def isBlankTruncation_def mergeDiskRead_def saveAside_def keepCopy_def
  ingestIO_def endEgest_def startEgest_def beginWrite_def egestHashed_def egestSaved_def fileBytes_def
  egestWrite_def mergeStaleFile_def egestAcked_def egestIO_def letGo_def openVerdict_def

section \<open>What is overwritten\<close>






text \<open>A run: the note waits, a peer's text arrives, the file is behind and is written.\<close>

definition pulledRun :: "string bridge_event list" where
  "pulledRun = [Remote ''ab'', Reconcile, IngestStart, IngestIO True, IngestIO True, EgestTimer, EgestStart,
     EgestIO True, EgestIO True, EgestIO True]"

lemma pulledRun_result:
  "nbOverwrites (bridgeRun plainEnv pulledRun (openBridge plainEnv None (Persisted False False ''a'' (Some ''a''))))
     = [(''a'', ''ab'', Some ''a'')]"
  "nbSeen (bridgeRun plainEnv pulledRun (openBridge plainEnv None (Persisted False False ''a'' (Some ''a''))))
     = [(''a'', OwnText), (''a'', Echo), (''ab'', Written)]"
  by (simp_all add: pulledRun_def run_defs)




text \<open>Runs in which refused bytes are lost. First: a note opened without local state over file
  \<open>F1\<close>; another program writes \<open>F2\<close> during the pull; the watcher has it ingested, which an unseeded
  note refuses, yet its digest is taken down; the pull's text is then written over \<open>F2\<close>. Second: a
  read-only note whose file another program changed; the copy fails; the next update is written
  over the changed file.\<close>

definition unseededRun :: "string bridge_event list" where
  "unseededRun = [ExtWrite (Some ''F2''), Watch, IngestTimer, IngestStart, IngestIO True, IngestIO True,
     Remote ''S'', EgestTimer, EgestStart, EgestIO True, EgestIO True]"

definition notKeptRun :: "string bridge_event list" where
  "notKeptRun = [Reconcile, ExtWrite (Some ''F2''), Watch, IngestTimer, IngestStart, IngestIO True, IngestIO True,
     IngestIO False, Remote ''S'', EgestTimer, EgestStart, EgestIO True, EgestIO True]"

text \<open>Bytes that an ingest pass refused for want of a seed, or for want of a recovery copy,
  still count as seen, so the compare-and-swap of the next write lets them be replaced: in both runs
  the file's new bytes are gone, from the file, from the note and from the recovery copies.\<close>

lemma refused_bytes_lost:
  "(nbFile (bridgeRun plainEnv unseededRun (openBridge plainEnv None (Fresh False False (Some ''F1'') True (Some ''F1''))))
      = Some ''S''
    \<and> nbCopies (bridgeRun plainEnv unseededRun (openBridge plainEnv None (Fresh False False (Some ''F1'') True (Some ''F1''))))
      = []
    \<and> nbOverwrites (bridgeRun plainEnv unseededRun (openBridge plainEnv None (Fresh False False (Some ''F1'') True (Some ''F1''))))
      = [(''F2'', ''S'', Some ''F2'')])
   \<and> (nbFile (bridgeRun plainEnv notKeptRun (openBridge plainEnv None (Persisted False True ''F1'' (Some ''F1''))))
      = Some ''S''
    \<and> nbCopies (bridgeRun plainEnv notKeptRun (openBridge plainEnv None (Persisted False True ''F1'' (Some ''F1''))))
      = []
    \<and> nbOverwrites (bridgeRun plainEnv notKeptRun (openBridge plainEnv None (Persisted False True ''F1'' (Some ''F1''))))
      = [(''F2'', ''S'', Some ''F2'')])"
  by (intro conjI) (simp_all add: unseededRun_def notKeptRun_def run_defs meaningfulLength_def noteBody_def js_trim_def js_space_def)

section \<open>Waiting for the pull\<close>

text \<open>What may happen to a waiting note without ending the wait, and what it does to text and file.\<close>

definition waitingEvent :: "'u bridge_event \<Rightarrow> bool" where
  "waitingEvent e =
     (case e of
        IngestNow \<Rightarrow> False | PullTimer \<Rightarrow> False | Reconcile \<Rightarrow> False | Abandon x \<Rightarrow> False | StartSeed \<Rightarrow> False
      | WriteThrough \<Rightarrow> False | Flush \<Rightarrow> False | Destroy \<Rightarrow> False | _ \<Rightarrow> True)"

definition docStep :: "('d, 'u, 'v) bridge_env \<Rightarrow> 'u bridge_event \<Rightarrow> 'd \<Rightarrow> 'd" where
  "docStep env e d =
     (case e of Remote u \<Rightarrow> crApply env u d | EditInsert i t \<Rightarrow> crInsert env i t d
      | EditDelete i n \<Rightarrow> crDelete env i n d | _ \<Rightarrow> d)"

definition fileStep :: "'u bridge_event \<Rightarrow> string option \<Rightarrow> string option" where
  "fileStep e f = (case e of ExtWrite f' \<Rightarrow> f' | _ \<Rightarrow> f)"

definition quiet :: "'u \<Rightarrow> string \<Rightarrow> (string \<times> verdict) list \<Rightarrow> 'd \<Rightarrow> string option \<Rightarrow> ('d, 'u) bridge \<Rightarrow> bool" where
  "quiet pre h seen d f b \<longleftrightarrow>
     nbPrePull b = Some pre \<and> \<not> nbDestroyed b \<and> \<not> nbIngestTimer b \<and> \<not> nbEgestTimer b \<and>
     nbIngestQueue b = [] \<and> nbEgestQueue b = [] \<and> nbIngest b = None \<and> nbEgest b = None \<and> nbSeeds b = [] \<and>
     nbOverwrites b = [] \<and> nbSeen b = seen \<and> nbLast b = Some h \<and> nbPending b = None \<and> nbUnagreed b = None \<and>
     \<not> nbBlind b \<and> nbDoc b = d \<and> nbFile b = f"

lemma quiet_transact:
  "quiet pre h seen d f b \<Longrightarrow> quiet pre h seen d' f (transact env False d' b)"
  by (simp add: quiet_def transact_def Let_def capture_def onTextChange_def scheduleEgest_def)

lemma quiet_step:
  "quiet pre h seen d f b \<Longrightarrow> waitingEvent e \<Longrightarrow>
     quiet pre h seen (docStep env e d) (fileStep e f) (bridgeStep env e b)"
  by (cases e)
    (simp_all add: waitingEvent_def docStep_def fileStep_def quiet_transact, simp_all add: quiet_def ingest_def beginPull_def cancelEgest_def startIngest_def
      startEgest_def ingestIO_def egestIO_def seedIO_def quiet_transact [unfolded quiet_def])

lemma quiet_run:
  "quiet pre h seen d f b \<Longrightarrow> list_all waitingEvent es \<Longrightarrow>
     quiet pre h seen (fold (docStep env) es d) (fold fileStep es f) (bridgeRun env es b)"
  unfolding bridgeRun_def
proof (induction es arbitrary: d f b)
  case (Cons e es)
  then have "quiet pre h seen (docStep env e d) (fileStep e f) (bridgeStep env e b)"
    by (auto intro: quiet_step)
  then show ?case
    using Cons.IH Cons.prems(2) by simp
qed simp

lemma quiet_open:
  "crText env d \<noteq> [] \<Longrightarrow>
     quiet (crEncode env d) (sha256 env (crText env d)) [(crText env d, OwnText)] d onDisk
       (openBridge env base (Persisted False ro d onDisk))"
  by (simp add: openPersisted_def Let_def beginPull_def saw_def emptyBridge_def quiet_def)



text \<open>After the wait: one merge pass over the file, then one write.\<close>

definition reconcileThenWrite :: "'u bridge_event list" where
  "reconcileThenWrite = [Reconcile, IngestStart, IngestIO True, IngestIO True,
     EgestTimer, EgestStart, EgestIO True, EgestIO True, EgestIO True]"

definition behind :: "string \<Rightarrow> 'd \<Rightarrow> string \<Rightarrow> ('d, 'u) bridge \<Rightarrow> bool" where
  "behind h d t b \<longleftrightarrow>
     nbPrePull b = None \<and> \<not> nbDestroyed b \<and> nbEgestTimer b \<and> nbEgestQueue b = [] \<and> nbEgest b = None \<and>
     nbOverwrites b = [] \<and> nbLast b = Some h \<and> map_option fst (nbObserved b) = Some h \<and>
     nbUnagreed b = None \<and> \<not> nbBlind b \<and> nbDoc b = d \<and> nbFile b = Some t"

lemma observe_as_update:
  "observe h b = b\<lparr>nbObserved := Some (h, case nbObserved b of Some (h', st) \<Rightarrow> if h' = h then st else None | None \<Rightarrow> None)\<rparr>"
  by (simp add: observe_def split: option.split prod.split)

lemma reconcile_behind:
  assumes "quiet pre (sha256 env t) seen d (Some t) b" "nbEgestDeferred b"
  shows "behind (sha256 env t) d t (bridgeRun env [Reconcile, IngestStart, IngestIO True, IngestIO True] b)"
  using assms
  by (simp add: quiet_def bridgeRun_def reconcileAfterPull_def releasePull_def drainIngest_def startIngest_def
     ingestIO_def ingestRead_def mergeDiskRead_def judged_def endIngest_def Let_def saw_def scheduleEgest_def
     observe_as_update behind_def)

lemma write_behind:
  assumes "behind (sha256 env t) d t b" "crText env d \<noteq> []" "sha256 env (crText env d) \<noteq> sha256 env t"
  shows "nbDoc (bridgeRun env [EgestTimer, EgestStart, EgestIO True, EgestIO True, EgestIO True] b) = d
    \<and> nbFile (bridgeRun env [EgestTimer, EgestStart, EgestIO True, EgestIO True, EgestIO True] b) = Some (crText env d)
    \<and> nbOverwrites (bridgeRun env [EgestTimer, EgestStart, EgestIO True, EgestIO True, EgestIO True] b)
        = [(t, crText env d, Some (sha256 env t))]"
  using assms
  by (simp add: behind_def bridgeRun_def drainEgest_def startEgest_def egestIO_def egestHashed_def beginWrite_def
     egestWrite_def egestAcked_def fileBytes_def saw_def observeState_def endEgest_def clearWriteFailure_def Let_def)

text \<open>C36: When the pull of a signed-in note has brought new text and the file still holds what the note
  opened with, the merge pass that follows leaves the pulled text alone (the older bytes are never
  diffed into it, so no peer's text is doubled or deleted), and the write that follows puts it in
  the file, replacing exactly those older bytes under a compare-and-swap.\<close>

theorem file_behind_pull_is_written_over:
  assumes "inj (sha256 env)" "crText env d \<noteq> []" "list_all waitingEvent es"
    and "fold fileStep es (Some (crText env d)) = Some (crText env d)"
    and "crText env (fold (docStep env) es d) \<noteq> []" "crText env (fold (docStep env) es d) \<noteq> crText env d"
    and "nbEgestDeferred (bridgeRun env es (openBridge env base (Persisted False ro d (Some (crText env d)))))"
  shows "nbDoc (bridgeRun env (es @ reconcileThenWrite) (openBridge env base (Persisted False ro d (Some (crText env d)))))
      = fold (docStep env) es d
    \<and> nbFile (bridgeRun env (es @ reconcileThenWrite) (openBridge env base (Persisted False ro d (Some (crText env d)))))
      = Some (crText env (fold (docStep env) es d))
    \<and> nbOverwrites (bridgeRun env (es @ reconcileThenWrite) (openBridge env base (Persisted False ro d (Some (crText env d)))))
      = [(crText env d, crText env (fold (docStep env) es d), Some (sha256 env (crText env d)))]"
proof -
  let ?b = "bridgeRun env es (openBridge env base (Persisted False ro d (Some (crText env d))))"
  have "quiet (crEncode env d) (sha256 env (crText env d)) [(crText env d, OwnText)] (fold (docStep env) es d)
      (Some (crText env d)) ?b"
    using quiet_run [OF quiet_open [where env = env and base = base and ro = ro, OF assms(2)] assms(3), where env = env]
      assms(4) by metis
  note behind = reconcile_behind [OF this assms(7)]
  have differ: "sha256 env (crText env (fold (docStep env) es d)) \<noteq> sha256 env (crText env d)"
    using assms(1,6) by (simp add: inj_eq)
  have "bridgeRun env (es @ reconcileThenWrite) (openBridge env base (Persisted False ro d (Some (crText env d))))
      = bridgeRun env [EgestTimer, EgestStart, EgestIO True, EgestIO True, EgestIO True]
          (bridgeRun env [Reconcile, IngestStart, IngestIO True, IngestIO True] ?b)"
    by (simp add: bridgeRun_def reconcileThenWrite_def)
  then show ?thesis
    using write_behind [OF behind assms(5) differ] by simp
qed

theorem file_behind_pull_is_written_over_witness:
  "nbFile (bridgeRun plainEnv ([Remote ''ab''] @ reconcileThenWrite)
     (openBridge plainEnv None (Persisted False False ''a'' (Some (crText plainEnv ''a''))))) = Some ''ab''"
  using file_behind_pull_is_written_over [of plainEnv "''a''" "[Remote ''ab'']" None False]
  by (simp add: plainEnv_def waitingEvent_def docStep_def fileStep_def bridgeRun_def openPersisted_def beginPull_def
      emptyBridge_def saw_def transact_def capture_def onTextChange_def scheduleEgest_def Let_def)

section \<open>An undisturbed ingest\<close>

text \<open>The note is at rest, and no guard of the merge refuses the file's bytes.\<close>

definition openToFile :: "('d, 'u, 'v) bridge_env \<Rightarrow> string \<Rightarrow> ('d, 'u) bridge \<Rightarrow> bool" where
  "openToFile env c b \<longleftrightarrow>
     nbFile b = Some c \<and> nbPrePull b = None \<and> \<not> nbDestroyed b \<and> nbIngest b = None \<and> nbIngestQueue b = [] \<and>
     \<not> nbReadOnly b \<and> \<not> oversized env c \<and> nbLast b \<noteq> Some (sha256 env c) \<and>
     nbPending b \<noteq> Some (sha256 env c) \<and> nbBase b \<noteq> Some (sha256 env c) \<and>
     (docText env b = [] \<longrightarrow> nbEverHad b \<or> nbSeedOnOpen b) \<and>
     (isBlankFile (docText env b) c \<longrightarrow> cfgAllowTruncate env)"

text \<open>The pass right after its digest: the merge itself, at once or after the snapshot.\<close>

definition merging :: "('d, 'u, 'v) bridge_env \<Rightarrow> string \<Rightarrow> bool \<Rightarrow> 'd ingest_ctx \<Rightarrow> ('d, 'u) bridge \<Rightarrow> bool" where
  "merging env c timer ctx b \<longleftrightarrow>
     \<not> nbDestroyed b \<and> icBaseline ctx = None \<and> icWho ctx = PassNow \<and> docText env b \<noteq> c \<and> nbEgestTimer b = timer"

lemma applyMerge_takes:
  assumes "text_ops (crText env) (crInsert env) (crDelete env)" "diff_correct (dmpMain env)" "merging env c timer ctx b"
  shows "docText env (applyMerge env c h (dmpMain env (docText env b) c) ctx b) = c
    \<and> nbEgestTimer (applyMerge env c h (dmpMain env (docText env b) c) ctx b) = timer
    \<and> nbIngest (applyMerge env c h (dmpMain env (docText env b) c) ctx b) = None
    \<and> nbReports (applyMerge env c h (dmpMain env (docText env b) c) ctx b) = nbReports b @ [(PassNow, True)]"
proof -
  have "crText env (applyDiff (crInsert env) (crDelete env) (dmpMain env (docText env b) c) (nbDoc b)) = c"
    using applyDiff_text [OF assms(1), of "nbDoc b" "dmpMain env (docText env b) c"] assms(2)
    by (simp add: diff_correct_def)
  then show ?thesis
    using assms(3)
    by (auto simp: applyMerge_def merging_def baseDoc_def judged_def endIngest_def saw_def recordDiskBase_def
        observeState_def transact_def capture_def onTextChange_def Let_def)
qed

lemma openToFile_hashed:
  assumes "openToFile env c b"
  shows "\<exists>b1 ctx. bridgeRun env [IngestNow, IngestStart, IngestIO True] b = b1
    \<and> nbIngest b1 = Some (IHash c, ctx) \<and> ctx = \<lparr>icTracking = True, icFixed = False, icBaseline = None,
        icHad = nbEverHad b, icWho = PassNow\<rparr>
    \<and> nbDoc b1 = nbDoc b \<and> nbReports b1 = nbReports b \<and> nbEgestTimer b1 = nbEgestTimer b \<and> openToFile env c (b1\<lparr>nbIngest := None\<rparr>)
    \<and> nbEverHad b1 = nbEverHad b \<and> nbSeedOnOpen b1 = nbSeedOnOpen b"
  using assms
  by (simp add: bridgeRun_def openToFile_def ingestNow_def drainIngest_def startIngest_def ingestIO_def ingestRead_def)

text \<open>When nothing else happens while a changed file is ingested, and no guard refuses it, the note's
  text becomes the file's text exactly, the merge is reported to the caller, and no write back to the
  file is scheduled by it.\<close>

theorem undisturbed_ingest_takes_file:
  assumes "text_ops (crText env) (crInsert env) (crDelete env)" "diff_correct (dmpMain env)"
    and "openToFile env c b" "docText env b \<noteq> c"
  shows "docText env (bridgeRun env [IngestNow, IngestStart, IngestIO True, IngestIO True, IngestIO ok] b) = c
    \<and> nbEgestTimer (bridgeRun env [IngestNow, IngestStart, IngestIO True, IngestIO True, IngestIO ok] b) = nbEgestTimer b
    \<and> nbReports (bridgeRun env [IngestNow, IngestStart, IngestIO True, IngestIO True, IngestIO ok] b)
        = nbReports b @ [(PassNow, True)]"
proof -
  obtain b1 ctx where b1: "bridgeRun env [IngestNow, IngestStart, IngestIO True] b = b1"
    and pc: "nbIngest b1 = Some (IHash c, ctx)"
    and ctx: "ctx = \<lparr>icTracking = True, icFixed = False, icBaseline = None, icHad = nbEverHad b, icWho = PassNow\<rparr>"
    and same: "nbDoc b1 = nbDoc b" "nbReports b1 = nbReports b" "nbEgestTimer b1 = nbEgestTimer b"
    and opn: "openToFile env c (b1\<lparr>nbIngest := None\<rparr>)"
    and had: "nbEverHad b1 = nbEverHad b" "nbSeedOnOpen b1 = nbSeedOnOpen b"
    using openToFile_hashed [OF assms(3)] by blast
  let ?diffs = "dmpMain env (docText env b1) c"
  let ?b2 = "(observe (sha256 env c) b1)\<lparr>nbTruncateReported := False\<rparr>"
  have differ: "docText env b1 \<noteq> c" using assms(4) same by simp
  have merging: "merging env c (nbEgestTimer b) ctx ?b2" "merging env c (nbEgestTimer b) ctx (?b2\<lparr>nbIngest := i, nbSnapshotTaken := sn\<rparr>)"
    for i sn
    using opn differ same by (simp_all add: merging_def ctx openToFile_def observe_as_update)
  have doc: "nbDoc (?b2\<lparr>nbIngest := i, nbSnapshotTaken := s\<rparr>) = nbDoc b1" "nbDoc ?b2 = nbDoc b1"
    "nbReports (?b2\<lparr>nbIngest := i, nbSnapshotTaken := s\<rparr>) = nbReports b" "nbReports ?b2 = nbReports b" for i s
    using same by (simp_all add: observe_as_update)
  have step: "mergeDiskRead env c ctx b1 =
      (if ratioExceeds (changeRatio ?diffs (length (docText env b1)) (length c)) (cfgLargeRatio env)
       then ?b2\<lparr>nbIngest := Some (ISnap c (sha256 env c) ?diffs, ctx)\<rparr>
       else applyMerge env c (sha256 env c) ?diffs ctx ?b2)"
  proof -
    have "\<not> (docText env b1 = [] \<and> \<not> icHad ctx \<and> \<not> nbSeedOnOpen b1)"
      "\<not> (isBlankFile (docText env b1) c \<and> \<not> cfgAllowTruncate env)"
      using opn had by (auto simp: openToFile_def ctx)
    then show ?thesis
      using opn differ by (auto simp: mergeDiskRead_def openToFile_def ctx baseDoc_def Let_def observe_as_update)
  qed
  have last: "bridgeRun env [IngestNow, IngestStart, IngestIO True, IngestIO True, IngestIO ok] b =
      ingestIO env ok (mergeDiskRead env c ctx b1)"
    using b1 pc by (simp add: bridgeRun_def ingestIO_def)
  show ?thesis
  proof (cases "ratioExceeds (changeRatio ?diffs (length (docText env b1)) (length c)) (cfgLargeRatio env)")
    case True
    let ?b3 = "?b2\<lparr>nbIngest := Some (ISnap c (sha256 env c) ?diffs, ctx), nbSnapshotTaken := ok \<or> nbSnapshotTaken ?b2\<rparr>"
    have "ingestIO env ok (mergeDiskRead env c ctx b1) = applyMerge env c (sha256 env c) ?diffs ctx ?b3"
      using True by (simp add: step ingestIO_def)
    then show ?thesis
      unfolding last using applyMerge_takes [OF assms(1,2) merging(2)] doc by metis
  next
    case False
    note took = applyMerge_takes [OF assms(1,2) merging(1), where h = "sha256 env c"]
    have "ingestIO env ok (mergeDiskRead env c ctx b1) = applyMerge env c (sha256 env c) ?diffs ctx ?b2"
      using False took doc by (simp add: step ingestIO_def)
    then show ?thesis
      unfolding last using took doc by simp
  qed
qed

theorem undisturbed_ingest_takes_file_witness:
  "docText plainEnv (bridgeRun plainEnv [IngestNow, IngestStart, IngestIO True, IngestIO True, IngestIO True]
     ((emptyBridge plainEnv True False None (Some ''new''))\<lparr>nbDoc := ''old''\<rparr>)) = ''new''"
proof -
  have "text_ops (crText plainEnv) (crInsert plainEnv) (crDelete plainEnv)"
    by (simp add: plainEnv_def text_ops_def)
  moreover have "diff_correct (dmpMain plainEnv)"
    by (simp add: plainEnv_def diff_correct_def)
  moreover have "openToFile plainEnv ''new'' ((emptyBridge plainEnv True False None (Some ''new''))\<lparr>nbDoc := ''old''\<rparr>)"
    by (simp add: openToFile_def plainEnv_def emptyBridge_def oversized_def isBlankFile_def isBlankTruncation_def
        meaningfulLength_def noteBody_def js_trim_def js_space_def)
  moreover have "docText plainEnv ((emptyBridge plainEnv True False None (Some ''new''))\<lparr>nbDoc := ''old''\<rparr>) \<noteq> ''new''"
    by (simp add: plainEnv_def)
  ultimately show ?thesis
    using undisturbed_ingest_takes_file by blast
qed

end
