(* ===== verification/Vault_Docs.thy ===== *)
theory Vault_Docs
  imports Acl_Resolve
begin

text \<open>
  The readable set of a vault (\<open>server/src/permissions/vault-docs.ts\<close>): the queries that compute,
  for one user and a whole vault at once, what \<open>effectivePermission\<close> answers document by document.
  A \<open>WITH RECURSIVE ... UNION\<close> stops when a round adds nothing new; the per-user decision walks
  the folder table from the roots with \<open>UNION ALL\<close> and may not return on a table with duplicate
  ids (None). The tombstone question (\<open>deleted: true\<close>) is not modelled.
\<close>

section \<open>Vault access\<close>

record vault_access =
  vaOrg :: string
  vaRole :: "string option"
  vaVaultWide :: bool
  vaPersonal :: "personal_level option"

definition isGrant :: "stored_permission \<Rightarrow> bool" where
  "isGrant p \<longleftrightarrow> p = SView \<or> p = SEdit \<or> p = SReadonly"

definition vaultAccess :: "database \<Rightarrow> string \<Rightarrow> string \<Rightarrow> vault_access option" where
  "vaultAccess db userId vaultId =
     map_option (\<lambda>v.
       (let orgId = vtOrg v;
            role = memberRole db orgId userId;
            personal = personalVaultLevel db orgId userId
        in \<lparr>vaOrg = orgId, vaRole = role,
            vaVaultWide =
              (if personal \<noteq> None then personal \<noteq> Some PersonalDenied
               else list_ex (\<lambda>r. srResourceType r = RVault \<and> srResourceId r = orgId \<and> isGrant (srPermission r) \<and>
                      ((role \<noteq> None \<and> srPrincipalType r = POrg) \<or>
                       (srPrincipalType r = PUser \<and> srPrincipalId r = userId))) (shares db)),
            vaPersonal = personal\<rparr>))
       (first_row (\<lambda>v. vtId v = vaultId) (vaults db))"

section \<open>Denies\<close>

definition anyDenyRows :: "database \<Rightarrow> principal_type \<Rightarrow> string \<Rightarrow> bool" where
  "anyDenyRows db principalType principalId =
     list_ex (\<lambda>r. srPermission r = SDenied \<and> srPrincipalType r = principalType \<and>
                  srPrincipalId r = principalId \<and>
                  (srResourceType r = RFolder \<or> srResourceType r = RFile)) (shares db)"

text \<open>\<open>LEFT JOIN\<close>: the matching rows, or one row of nulls.\<close>

definition leftJoin :: "('a \<Rightarrow> bool) \<Rightarrow> 'a list \<Rightarrow> 'a option list" where
  "leftJoin P rows = (case filter P rows of [] \<Rightarrow> [None] | rs \<Rightarrow> map Some rs)"

definition coalesce :: "'a option \<Rightarrow> 'a option \<Rightarrow> 'a option" where
  "coalesce a b = (if a = None then b else a)"

text \<open>\<open>USER_DECISION_CTE\<close>: the rows that decide for a user, and the nearest one for each folder.\<close>

definition userRowsOf :: "database \<Rightarrow> string \<Rightarrow> share_row list" where
  "userRowsOf db userId =
     filter (\<lambda>r. srPrincipalType r = PUser \<and> srPrincipalId r = userId \<and>
                 (srResourceType r = RFolder \<or> srResourceType r = RFile) \<and>
                 srPermission r \<noteq> SLocked) (shares db)"

definition decisionsOn :: "database \<Rightarrow> string \<Rightarrow> resource_type \<Rightarrow> string \<Rightarrow> stored_permission option list" where
  "decisionsOn db userId ty i =
     map (map_option srPermission)
       (leftJoin (\<lambda>r. srResourceType r = ty \<and> srResourceId r = i) (userRowsOf db userId))"

definition decRoots :: "database \<Rightarrow> string \<Rightarrow> string \<Rightarrow> (string \<times> stored_permission option) list" where
  "decRoots db userId vaultId =
     concat (map (\<lambda>f. map (\<lambda>p. (fdId f, p)) (decisionsOn db userId RFolder (fdId f)))
       (filter (\<lambda>f. fdVault f = vaultId \<and> fdParent f = None) (folders db)))"

definition decNext :: "database \<Rightarrow> string \<Rightarrow> string \<Rightarrow> (string \<times> stored_permission option) list
    \<Rightarrow> (string \<times> stored_permission option) list" where
  "decNext db userId vaultId level =
     concat (map (\<lambda>(i, perm).
       concat (map (\<lambda>f. map (\<lambda>p. (fdId f, coalesce p perm)) (decisionsOn db userId RFolder (fdId f)))
         (filter (\<lambda>f. fdParent f = Some i \<and> fdVault f = vaultId) (folders db)))) level)"

fun decLevels :: "database \<Rightarrow> string \<Rightarrow> string \<Rightarrow> nat \<Rightarrow> (string \<times> stored_permission option) list
    \<Rightarrow> (string \<times> stored_permission option) list option" where
  "decLevels db userId vaultId 0 level = (if level = [] then Some [] else None)"
| "decLevels db userId vaultId (Suc fuel) level =
     (if level = [] then Some []
      else map_option ((@) level) (decLevels db userId vaultId fuel (decNext db userId vaultId level)))"

definition userDecisions :: "database \<Rightarrow> string \<Rightarrow> string \<Rightarrow> (string \<times> stored_permission option) list option" where
  "userDecisions db userId vaultId =
     decLevels db userId vaultId (Suc (length (folders db))) (decRoots db userId vaultId)"

text \<open>A document row with its folder's decisions and its own: \<open>COALESCE(u.permission, d.perm)\<close>.\<close>

definition joinedDenied :: "database \<Rightarrow> string \<Rightarrow> (string \<times> stored_permission option) list \<Rightarrow> string
    \<Rightarrow> string option \<Rightarrow> bool" where
  "joinedDenied db userId dec i folder =
     list_ex (\<lambda>d. list_ex (\<lambda>u. coalesce u (case d of None \<Rightarrow> None | Some (_, p) \<Rightarrow> p) = Some SDenied)
         (decisionsOn db userId RFile i))
       (leftJoin (\<lambda>d. Some (fst d) = folder) dec)"

definition userDeniedDocsInVault :: "database \<Rightarrow> string \<Rightarrow> string \<Rightarrow> string list option" where
  "userDeniedDocsInVault db userId vaultId =
     map_option (\<lambda>dec.
       map ntId (filter (\<lambda>n. ntVault n = vaultId \<and> joinedDenied db userId dec (ntId n) (ntFolder n)) (noteRows db)) @
       map flId (filter (\<lambda>f. flVault f = vaultId \<and> joinedDenied db userId dec (flId f) (flFolder f)) (fileRows db)))
       (userDecisions db userId vaultId)"

text \<open>Folders of the vault under some seeds, the seeds included.\<close>

definition subtreeRound :: "database \<Rightarrow> string \<Rightarrow> string list \<Rightarrow> string list \<Rightarrow> string list" where
  "subtreeRound db vaultId acc work =
     remdups (map fdId (filter (\<lambda>f. fdVault f = vaultId \<and> fdParent f \<in> Some ` set work \<and> fdId f \<notin> set acc)
       (folders db)))"

lemma subtree_measure:
  assumes "subtreeRound db vaultId acc work \<noteq> []"
  shows "card (fdId ` set (folders db) - set (acc @ subtreeRound db vaultId acc work))
    < card (fdId ` set (folders db) - set acc)"
proof -
  obtain i where "i \<in> set (subtreeRound db vaultId acc work)" using assms by (meson last_in_set)
  then have "i \<in> fdId ` set (folders db) - set acc" by (auto simp: subtreeRound_def)
  then have "fdId ` set (folders db) - set (acc @ subtreeRound db vaultId acc work) \<subset> fdId ` set (folders db) - set acc"
    using \<open>i \<in> set (subtreeRound db vaultId acc work)\<close> by auto
  then show ?thesis by (intro psubset_card_mono) simp_all
qed

function subtreeLoop :: "database \<Rightarrow> string \<Rightarrow> string list \<Rightarrow> string list \<Rightarrow> string list" where
  "subtreeLoop db vaultId acc work =
     (let more = subtreeRound db vaultId acc work
      in if more = [] then acc else subtreeLoop db vaultId (acc @ more) more)"
  by pat_completeness auto

termination subtreeLoop
  by (relation "measure (\<lambda>(db, vaultId, acc, work). card (fdId ` set (folders db) - set acc))")
     (simp_all add: subtree_measure del: set_append)

declare subtreeLoop.simps [simp del]

definition subtreeOf :: "database \<Rightarrow> string \<Rightarrow> string list \<Rightarrow> string list" where
  "subtreeOf db vaultId seeds =
     (let start = remdups (map fdId (filter (\<lambda>f. fdVault f = vaultId \<and> fdId f \<in> set seeds) (folders db)))
      in subtreeLoop db vaultId start start)"

definition inFolders :: "string list \<Rightarrow> string option \<Rightarrow> bool" where
  "inFolders ids folder \<longleftrightarrow> (case folder of None \<Rightarrow> False | Some f \<Rightarrow> f \<in> set ids)"

definition denySeeds :: "database \<Rightarrow> resource_type \<Rightarrow> principal_type \<Rightarrow> string \<Rightarrow> string list" where
  "denySeeds db ty principalType principalId =
     map srResourceId (filter (\<lambda>r. srResourceType r = ty \<and> srPermission r = SDenied \<and>
       srPrincipalType r = principalType \<and> srPrincipalId r = principalId) (shares db))"

definition deniedDocsInVault :: "database \<Rightarrow> principal_type \<Rightarrow> string \<Rightarrow> string \<Rightarrow> string list option" where
  "deniedDocsInVault db principalType principalId vaultId =
     (if \<not> anyDenyRows db principalType principalId then Some []
      else if principalType = PUser then userDeniedDocsInVault db principalId vaultId
      else
        (let subtree = subtreeOf db vaultId (denySeeds db RFolder principalType principalId);
             files = denySeeds db RFile principalType principalId
         in Some (map ntId (filter (\<lambda>n. ntVault n = vaultId \<and>
                    (inFolders subtree (ntFolder n) \<or> ntId n \<in> set files)) (noteRows db)) @
                  map flId (filter (\<lambda>f. flVault f = vaultId \<and>
                    (inFolders subtree (flFolder f) \<or> flId f \<in> set files)) (fileRows db)))))"

section \<open>The set\<close>

text \<open>The ids a user's own rows and, if \<open>team\<close>, the Everyone rows newer than a revision grant.\<close>

definition grantSeeds :: "database \<Rightarrow> resource_type \<Rightarrow> string \<Rightarrow> string \<Rightarrow> (share_row \<Rightarrow> bool) \<Rightarrow> string list" where
  "grantSeeds db ty userId orgId team =
     map srResourceId (filter (\<lambda>r. srResourceType r = ty \<and> isGrant (srPermission r) \<and>
       ((srPrincipalType r = PUser \<and> srPrincipalId r = userId) \<or>
        (team r \<and> srPrincipalType r = POrg \<and> srPrincipalId r = orgId))) (shares db))"

definition liveNoteIds :: "database \<Rightarrow> string \<Rightarrow> (note_row \<Rightarrow> bool) \<Rightarrow> string list" where
  "liveNoteIds db vaultId P =
     map ntId (filter (\<lambda>n. ntVault n = vaultId \<and> ntDeletedAt n = None \<and> P n) (noteRows db))"

definition vaultFiles :: "database \<Rightarrow> string \<Rightarrow> (file_row \<Rightarrow> bool) \<Rightarrow> string list" where
  "vaultFiles db vaultId P = map flId (filter (\<lambda>f. flVault f = vaultId \<and> P f) (fileRows db))"

definition scopedDocs :: "database \<Rightarrow> string \<Rightarrow> string \<Rightarrow> string \<Rightarrow> bool \<Rightarrow> bool \<Rightarrow> bool \<Rightarrow> string list" where
  "scopedDocs db userId vaultId orgId isMember orgGrants creatorCounts =
     (let team = (\<lambda>_. isMember \<and> orgGrants);
          subtree = subtreeOf db vaultId (grantSeeds db RFolder userId orgId team);
          files = grantSeeds db RFile userId orgId team;
          vaultGrant = list_ex (\<lambda>r. srResourceType r = RVault \<and> srResourceId r = orgId \<and> isGrant (srPermission r) \<and>
                         srPrincipalType r = PUser \<and> srPrincipalId r = userId) (shares db)
      in liveNoteIds db vaultId (\<lambda>n.
           (isMember \<and> creatorCounts \<and> ntCreatedBy n = Some userId) \<or> inFolders subtree (ntFolder n) \<or>
           ntId n \<in> set files \<or> vaultGrant) @
         vaultFiles db vaultId (\<lambda>f.
           (isMember \<and> creatorCounts \<and> flCreatedBy f = Some userId \<and>
             \<not> list_ex (\<lambda>n. ntId n = flId f \<and> ntDeletedAt n = None) (noteRows db)) \<or>
           inFolders subtree (flFolder f) \<or> flId f \<in> set files \<or> vaultGrant))"

text \<open>What a private join snapshot lets through of the documents that existed at join.\<close>

definition snapshotAllowed :: "database \<Rightarrow> string \<Rightarrow> string \<Rightarrow> string \<Rightarrow> member_snapshot \<Rightarrow> string list" where
  "snapshotAllowed db userId vaultId orgId snapshot =
     (let team = (\<lambda>r. srRevision r > snRevision snapshot);
          subtree = subtreeOf db vaultId (grantSeeds db RFolder userId orgId team);
          files = grantSeeds db RFile userId orgId team;
          vaultGrant = grantSeeds db RVault userId orgId team
      in liveNoteIds db vaultId (\<lambda>n. ntCreatedAt n \<le> snAt snapshot \<and>
           (inFolders subtree (ntFolder n) \<or> ntId n \<in> set files \<or> orgId \<in> set vaultGrant)) @
         vaultFiles db vaultId (\<lambda>f. flCreatedAt f \<le> snAt snapshot \<and>
           (inFolders subtree (flFolder f) \<or> flId f \<in> set files \<or> orgId \<in> set vaultGrant)))"

definition withSnapshot :: "database \<Rightarrow> string \<Rightarrow> string \<Rightarrow> string \<Rightarrow> member_snapshot option \<Rightarrow> string list
    \<Rightarrow> string list" where
  "withSnapshot db userId vaultId orgId snapshot reachable =
     (case snapshot of
        None \<Rightarrow> reachable
      | Some s \<Rightarrow>
          (let existing = liveNoteIds db vaultId (\<lambda>n. ntCreatedAt n \<le> snAt s) @
                          vaultFiles db vaultId (\<lambda>f. flCreatedAt f \<le> snAt s)
           in if snMode s = MPrivate
              then filter (\<lambda>i. i \<notin> set existing) reachable @ snapshotAllowed db userId vaultId orgId s
              else reachable @ existing))"

definition listReadableDocsInVault :: "database \<Rightarrow> string \<Rightarrow> string \<Rightarrow> string list option" where
  "listReadableDocsInVault db userId vaultId =
     (case vaultAccess db userId vaultId of
        None \<Rightarrow> Some []
      | Some access \<Rightarrow>
          (let orgId = vaOrg access;
               isMember = (vaRole access \<noteq> None);
               personal = vaPersonal access
           in case (deniedDocsInVault db PUser userId vaultId, deniedDocsInVault db POrg orgId vaultId) of
                (Some userDenied, Some orgDenied) \<Rightarrow>
                  (let sealed = (personal \<noteq> None \<or> vaultBaseline db orgId = Some PostureSealed);
                       reachable =
                         (if vaVaultWide access
                          then liveNoteIds db vaultId (\<lambda>_. True) @ vaultFiles db vaultId (\<lambda>_. True)
                          else scopedDocs db userId vaultId orgId isMember (personal \<noteq> Some PersonalDenied) (\<not> sealed));
                       snapshot = (if personal \<noteq> None then None else memberAccessSnapshot db orgId userId);
                       reachable2 = withSnapshot db userId vaultId orgId snapshot reachable;
                       personally = (if orgDenied = [] then []
                                     else scopedDocs db userId vaultId orgId isMember False False)
                   in Some (filter (\<lambda>i. i \<notin> set userDenied \<and> (i \<in> set orgDenied \<longrightarrow> i \<in> set personally)) reachable2))
              | _ \<Rightarrow> None))"

end
