(* ===== verification/Vault_Agree.thy ===== *)
theory Vault_Agree
  imports Vault_Docs Acl_Props
begin

text \<open>
  The set-based queries against the resolver: what the subtree walks and the per-user decision
  compute in terms of a document's folder chain, and from there that the readable set of a vault
  holds exactly the documents \<open>effectivePermission\<close> lets the user read.
\<close>

section \<open>Subtrees\<close>

inductive below :: "database \<Rightarrow> string \<Rightarrow> string set \<Rightarrow> string \<Rightarrow> bool" for db v S where
  below_seed: "f \<in> set (folders db) \<Longrightarrow> fdVault f = v \<Longrightarrow> fdId f \<in> S \<Longrightarrow> below db v S (fdId f)"
| below_child: "f \<in> set (folders db) \<Longrightarrow> fdVault f = v \<Longrightarrow> fdParent f = Some p \<Longrightarrow> below db v S p \<Longrightarrow>
    below db v S (fdId f)"

inductive_cases belowE: "below db v S i"

lemma set_subtreeRound:
  "set (subtreeRound db v acc work) =
     {fdId f | f. f \<in> set (folders db) \<and> fdVault f = v \<and> fdParent f \<in> Some ` set work \<and> fdId f \<notin> set acc}"
  by (auto simp: subtreeRound_def)

lemma subtreeLoop_sound:
  "\<forall>i \<in> set acc \<union> set work. below db v S i \<Longrightarrow> i \<in> set (subtreeLoop db v acc work) \<Longrightarrow> below db v S i"
proof (induction db v acc work rule: subtreeLoop.induct)
  case (1 db v acc work)
  have round: "\<forall>i \<in> set (subtreeRound db v acc work). below db v S i"
    using "1.prems"(1) unfolding set_subtreeRound by (auto intro: below_child)
  show ?case
  proof (cases "subtreeRound db v acc work = []")
    case True
    then show ?thesis using "1.prems" by (simp add: subtreeLoop.simps [of db v acc work])
  next
    case False
    then show ?thesis
      using "1.IH" [OF refl False] "1.prems" round
      by (simp add: subtreeLoop.simps [of db v acc work] Let_def ball_Un)
  qed
qed

lemma subtreeLoop_complete:
  assumes "\<forall>f \<in> set (folders db). \<forall>p. fdVault f = v \<and> fdParent f = Some p \<and> p \<in> set acc \<and> p \<notin> set work \<longrightarrow> fdId f \<in> set acc"
    and "set work \<subseteq> set acc"
  shows "set acc \<subseteq> set (subtreeLoop db v acc work) \<and>
    (\<forall>f \<in> set (folders db). \<forall>p. fdVault f = v \<and> fdParent f = Some p \<and> p \<in> set (subtreeLoop db v acc work) \<longrightarrow>
      fdId f \<in> set (subtreeLoop db v acc work))"
  using assms
proof (induction db v acc work rule: subtreeLoop.induct)
  case (1 db v acc work)
  show ?case
  proof (cases "subtreeRound db v acc work = []")
    case True
    then have "set (subtreeRound db v acc work) = {}" by simp
    then have "\<forall>f \<in> set (folders db). \<forall>p. fdVault f = v \<and> fdParent f = Some p \<and> p \<in> set work \<longrightarrow> fdId f \<in> set acc"
      unfolding set_subtreeRound by blast
    then show ?thesis
      using "1.prems" True by (simp add: subtreeLoop.simps [of db v acc work]) blast
  next
    case False
    let ?more = "subtreeRound db v acc work"
    have closed: "\<forall>f \<in> set (folders db). \<forall>p. fdVault f = v \<and> fdParent f = Some p \<and> p \<in> set (acc @ ?more) \<and> p \<notin> set ?more
        \<longrightarrow> fdId f \<in> set (acc @ ?more)"
      using "1.prems"(1) unfolding set_append set_subtreeRound by blast
    have "subtreeLoop db v acc work = subtreeLoop db v (acc @ ?more) ?more"
      using False by (simp add: subtreeLoop.simps [of db v acc work] Let_def)
    then show ?thesis
      using "1.IH" [OF refl False closed] by simp
  qed
qed

lemma set_subtreeOf: "i \<in> set (subtreeOf db v seeds) \<longleftrightarrow> below db v (set seeds) i"
proof -
  define start where "start = remdups (map fdId (filter (\<lambda>f. fdVault f = v \<and> fdId f \<in> set seeds) (folders db)))"
  have sub: "subtreeOf db v seeds = subtreeLoop db v start start"
    by (simp add: subtreeOf_def start_def Let_def)
  have comp: "set start \<subseteq> set (subtreeLoop db v start start) \<and>
      (\<forall>f \<in> set (folders db). \<forall>p. fdVault f = v \<and> fdParent f = Some p \<and> p \<in> set (subtreeLoop db v start start) \<longrightarrow>
        fdId f \<in> set (subtreeLoop db v start start))"
    by (rule subtreeLoop_complete) auto
  show ?thesis
  proof
    assume "i \<in> set (subtreeOf db v seeds)"
    then show "below db v (set seeds) i"
      unfolding sub by (rule subtreeLoop_sound [rotated]) (auto simp: start_def intro: below_seed)
  next
    assume "below db v (set seeds) i"
    then have "i \<in> set (subtreeLoop db v start start)"
    proof induction
      case (below_seed f)
      then have "fdId f \<in> set start" by (auto simp: start_def)
      then show ?case using comp by blast
    next
      case (below_child f p)
      then show ?case using comp by blast
    qed
    then show "i \<in> set (subtreeOf db v seeds)" by (simp add: sub)
  qed
qed

text \<open>A folder is under the seeds iff its chain meets them.\<close>

definition folderIn :: "database \<Rightarrow> string \<Rightarrow> string option \<Rightarrow> bool" where
  "folderIn db v x \<longleftrightarrow> (\<forall>g \<in> set (folders db). x = Some (fdId g) \<longrightarrow> fdVault g = v)"

lemma folderIn_parent:
  "same_vault db \<Longrightarrow> f \<in> set (folders db) \<Longrightarrow> fdVault f = v \<Longrightarrow> folderIn db v (fdParent f)"
  by (auto simp: same_vault_def folderIn_def)

lemma inFolders_subtree:
  assumes u: "unique_folders db" and sv: "same_vault db"
  shows "chain_from db x ids \<Longrightarrow> folderIn db v x \<Longrightarrow>
    inFolders (subtreeOf db v seeds) x \<longleftrightarrow> set ids \<inter> set seeds \<noteq> {}"
proof (induction rule: chain_from.induct)
  case chain_root
  then show ?case by (simp add: inFolders_def)
next
  case (chain_missing i)
  then show ?case by (auto simp: inFolders_def set_subtreeOf elim: belowE)
next
  case (chain_step f ids)
  have v: "fdVault f = v" using chain_step.prems chain_step.hyps(1) by (simp add: folderIn_def)
  have "below db v (set seeds) (fdId f) \<longleftrightarrow> fdId f \<in> set seeds \<or> inFolders (subtreeOf db v seeds) (fdParent f)"
  proof
    assume "below db v (set seeds) (fdId f)"
    then show "fdId f \<in> set seeds \<or> inFolders (subtreeOf db v seeds) (fdParent f)"
    proof (cases rule: below.cases)
      case (below_child g p)
      then have "g = f" using folder_unique [OF u _ chain_step.hyps(1)] by metis
      then show ?thesis using below_child by (simp add: inFolders_def set_subtreeOf)
    qed auto
  next
    assume "fdId f \<in> set seeds \<or> inFolders (subtreeOf db v seeds) (fdParent f)"
    then show "below db v (set seeds) (fdId f)"
      using chain_step.hyps(1) v
      by (auto simp: inFolders_def set_subtreeOf split: option.splits intro: below_seed below_child)
  qed
  then show ?case
    using chain_step.IH [OF folderIn_parent [OF sv chain_step.hyps(1) v]]
    by (simp add: inFolders_def [of _ "Some (fdId f)"] set_subtreeOf)
qed

section \<open>The per-user decision\<close>

text \<open>The decision a user's own row makes on one item, and the nearest along a list of items.\<close>

definition ownDecision :: "database \<Rightarrow> string \<Rightarrow> resource_type \<times> string \<Rightarrow> stored_permission option" where
  "ownDecision db userId item =
     (case userRow (shares db) userId item of
        None \<Rightarrow> None
      | Some r \<Rightarrow> if srPermission r = SLocked then None else Some (srPermission r))"

lemma decisive_coalesce:
  "decisive (userRow (shares db) userId) (item # items) =
     coalesce (ownDecision db userId item) (decisive (userRow (shares db) userId) items)"
  by (simp add: ownDecision_def coalesce_def split: option.split)

definition folderDecision :: "database \<Rightarrow> string \<Rightarrow> string list \<Rightarrow> stored_permission option" where
  "folderDecision db userId ids = decisive (userRow (shares db) userId) (map (\<lambda>i. (RFolder, i)) ids)"

lemma folderDecision_simps [simp]:
  "folderDecision db userId [] = None"
  "folderDecision db userId (i # ids) =
     coalesce (ownDecision db userId (RFolder, i)) (folderDecision db userId ids)"
  by (simp_all add: folderDecision_def decisive_coalesce del: decisive_simps(2))

lemma doc_decision:
  "decisive (userRow (shares db) userId) (itemOrder (Some d) ids) =
     coalesce (ownDecision db userId (RFile, d)) (folderDecision db userId ids)"
  by (simp add: itemOrder_def decisive_coalesce folderDecision_def del: decisive_simps(2))

lemma filter_distinct_key:
  "distinct (map g xs) \<Longrightarrow> (\<forall>x \<in> set xs. \<forall>y \<in> set xs. P x \<and> P y \<longrightarrow> g x = g y) \<Longrightarrow>
     filter P xs = (case find P xs of None \<Rightarrow> [] | Some x \<Rightarrow> [x])"
proof (induction xs)
  case (Cons a xs)
  show ?case
  proof (cases "P a")
    case True
    then have "filter P xs = []" using Cons.prems by (fastforce simp: filter_empty_conv image_iff)
    then show ?thesis using True by simp
  next
    case False
    then show ?thesis using Cons by simp
  qed
qed simp

lemma decisionsOn_own:
  assumes u: "unique_shares db" and ty: "ty = RFolder \<or> ty = RFile"
  shows "decisionsOn db userId ty i = [ownDecision db userId (ty, i)]"
proof -
  let ?P = "\<lambda>r. srResourceType r = ty \<and> srResourceId r = i \<and> srPrincipalType r = PUser \<and> srPrincipalId r = userId"
  have one: "filter ?P (shares db) = (case find ?P (shares db) of None \<Rightarrow> [] | Some x \<Rightarrow> [x])"
    by (rule filter_distinct_key [OF u [unfolded unique_shares_def]]) (auto simp: share_key_def)
  have "filter (\<lambda>r. srResourceType r = ty \<and> srResourceId r = i) (userRowsOf db userId) =
      filter (\<lambda>r. srPermission r \<noteq> SLocked) (filter ?P (shares db))"
    unfolding userRowsOf_def filter_filter by (rule filter_cong) (use ty in auto)
  also have "\<dots> = (case find ?P (shares db) of None \<Rightarrow> [] | Some r \<Rightarrow> if srPermission r = SLocked then [] else [r])"
    unfolding one by (simp split: option.split)
  finally show ?thesis
    by (simp add: decisionsOn_def leftJoin_def ownDecision_def userRow_def first_row_def split: option.split)
qed

text \<open>Every parent a folder names exists (a foreign key).\<close>

definition parents_exist :: "database \<Rightarrow> bool" where
  "parents_exist db \<longleftrightarrow>
     (\<forall>f \<in> set (folders db). \<forall>p. fdParent f = Some p \<longrightarrow> p \<in> fdId ` set (folders db))"

definition decLevel :: "database \<Rightarrow> string \<Rightarrow> string \<Rightarrow> nat \<Rightarrow> (string \<times> stored_permission option) set" where
  "decLevel db userId v k =
     {(fdId f, folderDecision db userId ids) | f ids. f \<in> set (folders db) \<and> fdVault f = v \<and>
        chain_from db (Some (fdId f)) ids \<and> length ids = Suc k}"

lemma chain_cons:
  assumes "unique_folders db" "f \<in> set (folders db)"
  shows "chain_from db (Some (fdId f)) ids \<longleftrightarrow> (\<exists>js. chain_from db (fdParent f) js \<and> ids = fdId f # js)"
proof
  assume "chain_from db (Some (fdId f)) ids"
  then show "\<exists>js. chain_from db (fdParent f) js \<and> ids = fdId f # js"
  proof (cases rule: chain_from.cases)
    case (chain_step g js)
    then have "g = f" using folder_unique [OF assms(1) _ assms(2)] by metis
    then show ?thesis using chain_step by blast
  qed (use assms(2) in auto)
qed (use assms(2) in \<open>auto intro: chain_step\<close>)

lemma set_decRoots:
  assumes "unique_shares db"
  shows "set (decRoots db userId v) = {(fdId f, ownDecision db userId (RFolder, fdId f)) | f.
    f \<in> set (folders db) \<and> fdVault f = v \<and> fdParent f = None}"
  by (auto simp: decRoots_def decisionsOn_own [OF assms])

lemma set_decNext:
  assumes "unique_shares db"
  shows "set (decNext db userId v level) =
    {(fdId f, coalesce (ownDecision db userId (RFolder, fdId f)) perm) | f i perm.
       (i, perm) \<in> set level \<and> f \<in> set (folders db) \<and> fdParent f = Some i \<and> fdVault f = v}"
  unfolding decNext_def decisionsOn_own [OF assms, of RFolder, simplified] by fastforce

lemma decRoots_level:
  assumes "unique_shares db" "unique_folders db" "parents_exist db"
  shows "set (decRoots db userId v) = decLevel db userId v 0"
proof -
  have "chain_from db (Some (fdId f)) ids \<and> length ids = Suc 0 \<longleftrightarrow> fdParent f = None \<and> ids = [fdId f]"
    if f: "f \<in> set (folders db)" for f ids
  proof -
    have "chain_from db (fdParent f) [] \<longleftrightarrow> fdParent f = None"
      using assms(3) f by (cases "fdParent f") (auto simp: parents_exist_def elim: chain_someE intro: chain_root)
    then show ?thesis unfolding chain_cons [OF assms(2) f] by auto
  qed
  note one = this
  have "decLevel db userId v 0 = {(fdId f, folderDecision db userId [fdId f]) | f.
      f \<in> set (folders db) \<and> fdVault f = v \<and> fdParent f = None}" (is "?L = ?R")
  proof (intro equalityI subsetI)
    fix x assume "x \<in> ?L"
    then obtain f ids where "f \<in> set (folders db)" "fdVault f = v" "x = (fdId f, folderDecision db userId ids)"
      "chain_from db (Some (fdId f)) ids \<and> length ids = Suc 0"
      unfolding decLevel_def by blast
    moreover from this have "fdParent f = None \<and> ids = [fdId f]" using one by blast
    ultimately show "x \<in> ?R" by blast
  next
    fix x assume "x \<in> ?R"
    then obtain f where "f \<in> set (folders db)" "fdVault f = v" "fdParent f = None"
      "x = (fdId f, folderDecision db userId [fdId f])" by blast
    moreover from this have "chain_from db (Some (fdId f)) [fdId f] \<and> length [fdId f] = Suc 0" using one by blast
    ultimately show "x \<in> ?L" unfolding decLevel_def by blast
  qed
  moreover have "folderDecision db userId [i] = ownDecision db userId (RFolder, i)" for i
    by (simp add: coalesce_def)
  ultimately show ?thesis
    unfolding set_decRoots [OF assms(1)] by simp
qed

lemma decNext_level:
  assumes "unique_shares db" "unique_folders db" "parents_exist db" "same_vault db"
    and level: "set level = decLevel db userId v k"
  shows "set (decNext db userId v level) = decLevel db userId v (Suc k)"
proof (intro set_eqI iffI)
  fix x assume "x \<in> set (decNext db userId v level)"
  then obtain i perm f where ip: "(i, perm) \<in> decLevel db userId v k"
    and f: "f \<in> set (folders db)" "fdParent f = Some i" "fdVault f = v"
    and x: "x = (fdId f, coalesce (ownDecision db userId (RFolder, fdId f)) perm)"
    unfolding set_decNext [OF assms(1)] level [symmetric] by blast
  then obtain ids where ids: "chain_from db (Some i) ids" "length ids = Suc k" "perm = folderDecision db userId ids"
    unfolding decLevel_def by blast
  have "chain_from db (Some (fdId f)) (fdId f # ids)"
    using chain_step [OF f(1)] ids(1) f(2) by simp
  moreover have "coalesce (ownDecision db userId (RFolder, fdId f)) perm = folderDecision db userId (fdId f # ids)"
    "length (fdId f # ids) = Suc (Suc k)"
    using ids by simp_all
  ultimately show "x \<in> decLevel db userId v (Suc k)"
    unfolding decLevel_def x using f by blast
next
  fix x assume "x \<in> decLevel db userId v (Suc k)"
  then obtain f ids where f: "f \<in> set (folders db)" "fdVault f = v" and c: "chain_from db (Some (fdId f)) ids"
    and len: "length ids = Suc (Suc k)" and x: "x = (fdId f, folderDecision db userId ids)"
    unfolding decLevel_def by blast
  then obtain js where js: "chain_from db (fdParent f) js" "ids = fdId f # js"
    using chain_cons [OF assms(2)] by blast
  then have "js \<noteq> []" using len by auto
  then obtain p where p: "fdParent f = Some p" using js(1) by (cases "fdParent f") auto
  then obtain g where g: "g \<in> set (folders db)" "fdId g = p"
    using assms(3) f(1) unfolding parents_exist_def by blast
  then have "fdVault g = v" using assms(4) f p unfolding same_vault_def by blast
  moreover have "chain_from db (Some (fdId g)) js" "length js = Suc k" using js p g(2) len by simp_all
  ultimately have "(p, folderDecision db userId js) \<in> set level"
    unfolding level decLevel_def using g by blast
  moreover have "x = (fdId f, coalesce (ownDecision db userId (RFolder, fdId f)) (folderDecision db userId js))"
    by (simp add: x js(2))
  ultimately show "x \<in> set (decNext db userId v level)"
    unfolding set_decNext [OF assms(1)] using f p by blast
qed

lemma decLevel_bound:
  assumes "unique_folders db" "length (folders db) \<le> k"
  shows "decLevel db userId v k = {}"
  unfolding decLevel_def using chain_from_length [OF assms(1)] assms(2) by fastforce

lemma decLevels_result:
  assumes "unique_shares db" "unique_folders db" "parents_exist db" "same_vault db"
  shows "set level = decLevel db userId v k \<Longrightarrow> length (folders db) \<le> k + fuel \<Longrightarrow>
    \<exists>dec. decLevels db userId v fuel level = Some dec \<and> set dec = (\<Union>j. decLevel db userId v (k + j))"
proof (induction fuel arbitrary: level k)
  case 0
  then have "level = []" using decLevel_bound [OF assms(2), of k] by simp
  moreover have "decLevel db userId v (k + j) = {}" for j
    using decLevel_bound [OF assms(2), of "k + j"] 0 by simp
  ultimately show ?case by simp
next
  case (Suc fuel)
  have union: "(\<Union>j. decLevel db userId v (k + j)) = decLevel db userId v k \<union> (\<Union>j. decLevel db userId v (Suc k + j))"
    (is "?L = ?R")
  proof
    show "?L \<subseteq> ?R"
    proof
      fix x assume "x \<in> ?L"
      then obtain j where "x \<in> decLevel db userId v (k + j)" by blast
      then show "x \<in> ?R" by (cases j) auto
    qed
    have "decLevel db userId v k \<subseteq> ?L" by (metis UN_upper add.right_neutral UNIV_I)
    moreover have "decLevel db userId v (Suc k + j) \<subseteq> ?L" for j by (metis UN_upper UNIV_I add_Suc_right add_Suc)
    ultimately show "?R \<subseteq> ?L" by blast
  qed
  obtain dec where dec: "decLevels db userId v fuel (decNext db userId v level) = Some dec"
    "set dec = (\<Union>j. decLevel db userId v (Suc k + j))"
    using Suc.IH [OF decNext_level [OF assms Suc.prems(1)]] Suc.prems(2) by auto
  show ?case
  proof (cases "level = []")
    case True
    then have "set (decNext db userId v level) = {}" by (simp add: decNext_def)
    have empty: "decLevel db userId v (k + j) = {}" for j
    proof (induction j)
      case 0 then show ?case using True Suc.prems(1) by simp
    next
      case (Suc j)
      then have "set [] = decLevel db userId v (k + j)" by simp
      from decNext_level [OF assms this] show ?case by (simp add: decNext_def)
    qed
    then show ?thesis using True by simp
  next
    case False
    then show ?thesis unfolding union using dec Suc.prems(1) by simp
  qed
qed

lemma userDecisions_result:
  assumes "unique_shares db" "unique_folders db" "parents_exist db" "same_vault db"
  obtains dec where "userDecisions db userId v = Some dec"
    and "\<And>f ids. f \<in> set (folders db) \<Longrightarrow> fdVault f = v \<Longrightarrow> chain_from db (Some (fdId f)) ids \<Longrightarrow>
      (fdId f, folderDecision db userId ids) \<in> set dec"
    and "\<And>i p ids. (i, p) \<in> set dec \<Longrightarrow> chain_from db (Some i) ids \<Longrightarrow> p = folderDecision db userId ids"
    and "\<And>i p. (i, p) \<in> set dec \<Longrightarrow> i \<in> fdId ` set (folders db)"
proof -
  obtain dec where dec: "userDecisions db userId v = Some dec" "set dec = (\<Union>j. decLevel db userId v (0 + j))"
    using decLevels_result [OF assms decRoots_level [OF assms(1,2,3)], where fuel = "Suc (length (folders db))"]
    unfolding userDecisions_def by (metis add_0 le_SucI order_refl)
  show thesis
  proof (rule that [OF dec(1)])
    show "(fdId f, folderDecision db userId ids) \<in> set dec"
      if f: "f \<in> set (folders db)" "fdVault f = v" and c: "chain_from db (Some (fdId f)) ids" for f ids
    proof -
      obtain js where "ids = fdId f # js" using c unfolding chain_cons [OF assms(2) f(1)] by blast
      then have "length ids = Suc (length js)" by simp
      then have "(fdId f, folderDecision db userId ids) \<in> decLevel db userId v (length js)"
        unfolding decLevel_def using f c by blast
      then show ?thesis unfolding dec(2) by auto
    qed
    show "p = folderDecision db userId ids" if a: "(i, p) \<in> set dec" "chain_from db (Some i) ids" for i p ids
      using a chain_from_det [OF assms(2)] unfolding dec(2) decLevel_def by blast
    show "i \<in> fdId ` set (folders db)" if a: "(i, p) \<in> set dec" for i p
      using a unfolding dec(2) decLevel_def by blast
  qed
qed

section \<open>Documents\<close>

definition unique_docs :: "database \<Rightarrow> bool" where
  "unique_docs db \<longleftrightarrow> distinct (map ntId (noteRows db) @ map flId (fileRows db))"

text \<open>The primary keys of the two tables; an id may still be a note's and a file's at once.\<close>

definition doc_keys :: "database \<Rightarrow> bool" where
  "doc_keys db \<longleftrightarrow> distinct (map ntId (noteRows db)) \<and> distinct (map flId (fileRows db))"

definition one_kind :: "database \<Rightarrow> string \<Rightarrow> bool" where
  "one_kind db d \<longleftrightarrow> \<not> (d \<in> ntId ` set (noteRows db) \<and> d \<in> flId ` set (fileRows db))"

lemma unique_docs_keys: "unique_docs db \<longleftrightarrow> doc_keys db \<and> (\<forall>d. one_kind db d)"
  unfolding unique_docs_def doc_keys_def one_kind_def by auto

definition liveDoc :: "database \<Rightarrow> string \<Rightarrow> string \<Rightarrow> string option \<Rightarrow> string option \<Rightarrow> int \<Rightarrow> bool" where
  "liveDoc db d v x c t \<longleftrightarrow>
     (\<exists>n \<in> set (noteRows db). ntId n = d \<and> ntDeletedAt n = None \<and> ntVault n = v \<and> ntFolder n = x \<and>
        ntCreatedBy n = c \<and> ntCreatedAt n = t) \<or>
     (\<exists>f \<in> set (fileRows db). flId f = d \<and> flVault f = v \<and> flFolder f = x \<and> flCreatedBy f = c \<and>
        flCreatedAt f = t)"

lemma located_liveDoc:
  assumes "locateDoc db d False = Some loc"
  shows "liveDoc db d (dlVault loc) (dlFolder loc) (dlCreatedBy loc) (dlCreatedAt loc)"
    and "vaultOrg db (dlVault loc) = Some (dlOrg loc)"
proof -
  have "loc \<in> set (locatedRows db d False)"
    using assms by (auto simp: locateDoc_def dest: first_row_Some)
  then have "(\<exists>n. n \<in> set (noteRows db) \<and> ntId n = d \<and> ntDeletedAt n = None \<and> noteLocation db n = Some loc) \<or>
    (\<exists>f. f \<in> set (fileRows db) \<and> flId f = d \<and> fileLocation db f = Some loc)"
    unfolding locatedRows_def List.map_filter_def set_append set_map set_filter by force
  then show "liveDoc db d (dlVault loc) (dlFolder loc) (dlCreatedBy loc) (dlCreatedAt loc)"
    "vaultOrg db (dlVault loc) = Some (dlOrg loc)"
    unfolding liveDoc_def by (auto simp: noteLocation_def fileLocation_def)
qed

lemma note_key:
  "doc_keys db \<Longrightarrow> n \<in> set (noteRows db) \<Longrightarrow> m \<in> set (noteRows db) \<Longrightarrow> ntId n = ntId m \<Longrightarrow> n = m"
  unfolding doc_keys_def by (metis distinct_map inj_on_def)

lemma file_key:
  "doc_keys db \<Longrightarrow> n \<in> set (fileRows db) \<Longrightarrow> m \<in> set (fileRows db) \<Longrightarrow> flId n = flId m \<Longrightarrow> n = m"
  unfolding doc_keys_def by (metis distinct_map inj_on_def)

lemma one_kind_apart:
  "one_kind db d \<Longrightarrow> n \<in> set (noteRows db) \<Longrightarrow> ntId n = d \<Longrightarrow> f \<in> set (fileRows db) \<Longrightarrow> flId f \<noteq> d"
  unfolding one_kind_def by (metis imageI)

lemma note_id_unique:
  "unique_docs db \<Longrightarrow> n \<in> set (noteRows db) \<Longrightarrow> m \<in> set (noteRows db) \<Longrightarrow> ntId n = ntId m \<Longrightarrow> n = m"
  unfolding unique_docs_keys using note_key by blast

lemma file_id_unique:
  "unique_docs db \<Longrightarrow> n \<in> set (fileRows db) \<Longrightarrow> m \<in> set (fileRows db) \<Longrightarrow> flId n = flId m \<Longrightarrow> n = m"
  unfolding unique_docs_keys using file_key by blast

lemma note_not_file:
  "unique_docs db \<Longrightarrow> n \<in> set (noteRows db) \<Longrightarrow> f \<in> set (fileRows db) \<Longrightarrow> ntId n \<noteq> flId f"
  unfolding unique_docs_def distinct_append set_map by blast

lemma key_mem:
  "x \<in> set xs \<Longrightarrow> key x = d \<Longrightarrow> (\<And>y. y \<in> set xs \<Longrightarrow> key y = d \<Longrightarrow> y = x) \<Longrightarrow>
     d \<in> set (map key (filter X xs)) \<longleftrightarrow> X x"
proof
  assume only: "\<And>y. y \<in> set xs \<Longrightarrow> key y = d \<Longrightarrow> y = x"
  assume "d \<in> set (map key (filter X xs))"
  then obtain y where "y \<in> set xs" "key y = d" "X y" by auto
  then show "X x" using only [of y] by simp
next
  assume "x \<in> set xs" "key x = d" "X x"
  then show "d \<in> set (map key (filter X xs))" by auto
qed

lemma key_none:
  "(\<And>y. y \<in> set xs \<Longrightarrow> key y \<noteq> d) \<Longrightarrow> d \<notin> set (map key (filter X xs))"
  by auto

lemma doc_in_rows:
  assumes u: "doc_keys db" and o: "one_kind db d" and doc: "liveDoc db d v x c t"
    and P: "\<And>n. n \<in> set (noteRows db) \<Longrightarrow> ntId n = d \<Longrightarrow> P n \<longleftrightarrow> R (ntFolder n) (ntCreatedBy n) (ntCreatedAt n)"
    and Q: "\<And>f. f \<in> set (fileRows db) \<Longrightarrow> flId f = d \<Longrightarrow> Q f \<longleftrightarrow> R (flFolder f) (flCreatedBy f) (flCreatedAt f)"
  shows "d \<in> set (map ntId (filter (\<lambda>n. ntVault n = v \<and> (b \<longrightarrow> ntDeletedAt n = None) \<and> P n) (noteRows db)) @
      map flId (filter (\<lambda>f. flVault f = v \<and> Q f) (fileRows db))) \<longleftrightarrow> R x c t"
  using doc unfolding liveDoc_def
proof (elim disjE bexE conjE)
  fix n assume n: "n \<in> set (noteRows db)" "ntId n = d" "ntDeletedAt n = None" "ntVault n = v" "ntFolder n = x"
    "ntCreatedBy n = c" "ntCreatedAt n = t"
  have nts: "d \<in> set (map ntId (filter X (noteRows db))) \<longleftrightarrow> X n" for X
    by (rule key_mem [where x = n and key = ntId, OF n(1,2)]) (rule note_key [OF u _ n(1)], simp_all add: n(2))
  have fls: "d \<notin> set (map flId (filter X (fileRows db)))" for X
    by (rule key_none) (rule one_kind_apart [OF o n(1,2)])
  show ?thesis
    unfolding set_append Un_iff nts using fls n P [OF n(1,2)] by simp
next
  fix f assume f: "f \<in> set (fileRows db)" "flId f = d" "flVault f = v" "flFolder f = x" "flCreatedBy f = c" "flCreatedAt f = t"
  have fls: "d \<in> set (map flId (filter X (fileRows db))) \<longleftrightarrow> X f" for X
    by (rule key_mem [where x = f and key = flId, OF f(1,2)]) (rule file_key [OF u _ f(1)], simp_all add: f(2))
  have nts: "d \<notin> set (map ntId (filter X (noteRows db)))" for X
    by (rule key_none) (use one_kind_apart [OF o _ _ f(1)] f(2) in blast)
  show ?thesis
    unfolding set_append Un_iff fls using nts f Q [OF f(1,2)] by simp
qed

lemma live_rows:
  assumes u: "doc_keys db" and o: "one_kind db d" and doc: "liveDoc db d v x c t"
    and P: "\<And>n. n \<in> set (noteRows db) \<Longrightarrow> ntId n = d \<Longrightarrow> P n \<longleftrightarrow> R (ntFolder n) (ntCreatedBy n) (ntCreatedAt n)"
    and Q: "\<And>f. f \<in> set (fileRows db) \<Longrightarrow> flId f = d \<Longrightarrow> Q f \<longleftrightarrow> R (flFolder f) (flCreatedBy f) (flCreatedAt f)"
  shows "d \<in> set (liveNoteIds db v P @ vaultFiles db v Q) \<longleftrightarrow> R x c t"
  using doc_in_rows [OF u o doc, of P R Q True] P Q by (simp add: liveNoteIds_def vaultFiles_def)

section \<open>The pieces, on one document\<close>

text \<open>What the proofs below fix: a located document, its chain, and the constraints of the tables.\<close>

definition sound_tables :: "database \<Rightarrow> bool" where
  "sound_tables db \<longleftrightarrow> unique_shares db \<and> unique_folders db \<and> named_folders db \<and> same_vault db \<and>
     parents_exist db \<and> doc_keys db"

definition docAt :: "database \<Rightarrow> string \<Rightarrow> doc_location \<Rightarrow> string list \<Rightarrow> bool" where
  "docAt db d loc ids \<longleftrightarrow> locateDoc db d False = Some loc \<and> chain_from db (dlFolder loc) ids"

lemma docAt_live:
  assumes "docAt db d loc ids"
  shows "liveDoc db d (dlVault loc) (dlFolder loc) (dlCreatedBy loc) (dlCreatedAt loc)"
  using assms located_liveDoc by (simp add: docAt_def)

lemma docAt_folder:
  assumes "same_vault db" "docAt db d loc ids"
  shows "folderIn db (dlVault loc) (dlFolder loc)"
  using docAt_live [OF assms(2)] assms(1) unfolding liveDoc_def same_vault_def folderIn_def by fastforce

lemma list_ex_all_same: "xs \<noteq> [] \<Longrightarrow> (\<And>x. x \<in> set xs \<Longrightarrow> x = a) \<Longrightarrow> list_ex P xs \<longleftrightarrow> P a"
  unfolding list_ex_iff by (cases xs) fastforce+

lemma doc_userDenied:
  assumes t: "sound_tables db" and o: "one_kind db d" and doc: "docAt db d loc ids"
  shows "\<exists>S. deniedDocsInVault db PUser userId (dlVault loc) = Some S \<and>
    (d \<in> set S \<longleftrightarrow> isDenied db PUser userId (Some d) ids)"
proof -
  have us: "unique_shares db" and uf: "unique_folders db" and pe: "parents_exist db" and sv: "same_vault db"
    and ud: "doc_keys db" using t by (simp_all add: sound_tables_def)
  have denied: "isDenied db PUser userId (Some d) ids \<longleftrightarrow>
      coalesce (ownDecision db userId (RFile, d)) (folderDecision db userId ids) = Some SDenied"
    unfolding isDenied_decisive [OF us] doc_decision ..
  show ?thesis
  proof (cases "anyDenyRows db PUser userId")
    case False
    have "userRow (shares db) userId item = Some r \<Longrightarrow> fst item = RFolder \<or> fst item = RFile \<Longrightarrow> srPermission r \<noteq> SDenied"
      for item r
      using False by (cases item) (auto simp: anyDenyRows_def list_ex_iff userRow_def dest!: first_row_Some)
    then have own: "ownDecision db userId item \<noteq> Some SDenied" if "fst item = RFolder \<or> fst item = RFile" for item
      using that by (auto simp: ownDecision_def split: option.splits)
    have "folderDecision db userId is \<noteq> Some SDenied" for "is"
      by (induction "is") (use own in \<open>auto simp: coalesce_def\<close>)
    then have "\<not> isDenied db PUser userId (Some d) ids"
      unfolding denied using own [of "(RFile, d)"] by (simp add: coalesce_def)
    then show ?thesis using False by (simp add: deniedDocsInVault_def)
  next
    case True
    obtain dec where dec: "userDecisions db userId (dlVault loc) = Some dec"
      and in_dec: "\<And>f ids. f \<in> set (folders db) \<Longrightarrow> fdVault f = dlVault loc \<Longrightarrow> chain_from db (Some (fdId f)) ids \<Longrightarrow>
        (fdId f, folderDecision db userId ids) \<in> set dec"
      and det: "\<And>i p ids. (i, p) \<in> set dec \<Longrightarrow> chain_from db (Some i) ids \<Longrightarrow> p = folderDecision db userId ids"
      and folder: "\<And>i p. (i, p) \<in> set dec \<Longrightarrow> i \<in> fdId ` set (folders db)"
      by (rule userDecisions_result [OF us uf pe sv, of userId "dlVault loc"]) blast
    have chain: "chain_from db (dlFolder loc) ids" using doc by (simp add: docAt_def)
    have "joinedDenied db userId dec d (dlFolder loc) \<longleftrightarrow>
        coalesce (ownDecision db userId (RFile, d)) (folderDecision db userId ids) = Some SDenied"
    proof (cases "\<exists>f \<in> set (folders db). dlFolder loc = Some (fdId f)")
      case True
      then obtain f where f: "f \<in> set (folders db)" "dlFolder loc = Some (fdId f)" by blast
      have "fdVault f = dlVault loc" using docAt_folder [OF sv doc] f by (simp add: folderIn_def)
      then have mem: "(fdId f, folderDecision db userId ids) \<in> set dec" using in_dec f chain by simp
      let ?m = "filter (\<lambda>e. Some (fst e) = dlFolder loc) dec"
      have nonempty: "?m \<noteq> []" using mem f by (force simp: filter_empty_conv)
      have all: "e = (fdId f, folderDecision db userId ids)" if "e \<in> set ?m" for e
      proof -
        have e: "e \<in> set dec" "fst e = fdId f" using that f(2) by simp_all
        have "snd e = folderDecision db userId ids"
          by (rule det [of "fst e" "snd e"]) (simp_all only: prod.collapse e(1), use e(2) chain f(2) in simp)
        then show ?thesis using e(2) by (simp add: prod_eq_iff)
      qed
      have "leftJoin (\<lambda>e. Some (fst e) = dlFolder loc) dec = map Some ?m"
        using nonempty unfolding leftJoin_def by (cases ?m) simp_all
      then have "list_ex P (leftJoin (\<lambda>e. Some (fst e) = dlFolder loc) dec) \<longleftrightarrow> list_ex (\<lambda>e. P (Some e)) ?m" for P
        by (simp add: list_ex_iff)
      then have "list_ex P (leftJoin (\<lambda>e. Some (fst e) = dlFolder loc) dec) \<longleftrightarrow> P (Some (fdId f, folderDecision db userId ids))" for P
        using list_ex_all_same [OF nonempty all, of "\<lambda>e. P (Some e)"] by simp
      then show ?thesis
        by (simp add: joinedDenied_def decisionsOn_own [OF us])
    next
      case False
      from chain have "ids = []" by (cases rule: chain_from.cases) (use False in auto)
      moreover have "filter (\<lambda>e. Some (fst e) = dlFolder loc) dec = []"
        using False folder by (force simp: filter_empty_conv)
      ultimately show ?thesis
        by (simp add: joinedDenied_def decisionsOn_own [OF us] leftJoin_def)
    qed
    then have "d \<in> set (map ntId (filter (\<lambda>n. ntVault n = dlVault loc \<and> joinedDenied db userId dec (ntId n) (ntFolder n)) (noteRows db)) @
        map flId (filter (\<lambda>f. flVault f = dlVault loc \<and> joinedDenied db userId dec (flId f) (flFolder f)) (fileRows db)))
        \<longleftrightarrow> isDenied db PUser userId (Some d) ids"
      unfolding denied
      using doc_in_rows [OF ud o docAt_live [OF doc], of "\<lambda>n. joinedDenied db userId dec (ntId n) (ntFolder n)"
          "\<lambda>x c t. joinedDenied db userId dec d x" "\<lambda>f. joinedDenied db userId dec (flId f) (flFolder f)" False] by simp
    then show ?thesis
      using True dec by (simp add: deniedDocsInVault_def userDeniedDocsInVault_def)
  qed
qed

end
