(* ===== verification/Vault_Props.thy ===== *)
theory Vault_Props
  imports Vault_Agree
begin

text \<open>
  The readable set of a vault holds a document exactly when \<open>effectivePermission\<close> lets the user
  read it: the queries of \<open>Vault_Docs\<close> on one document, the resolver's decision on the same
  document, and the comparison.
\<close>

section \<open>Grants, as facts about a document\<close>

definition itemGrant :: "database \<Rightarrow> string \<Rightarrow> string \<Rightarrow> (share_row \<Rightarrow> bool) \<Rightarrow> string \<Rightarrow> string list \<Rightarrow> bool" where
  "itemGrant db userId orgId team d ids \<longleftrightarrow>
     (\<exists>r \<in> set (shares db). onItem (Some d) ids r \<and> isGrant (srPermission r) \<and>
        ((srPrincipalType r = PUser \<and> srPrincipalId r = userId) \<or>
         (team r \<and> srPrincipalType r = POrg \<and> srPrincipalId r = orgId)))"

definition vaultGrantTo :: "database \<Rightarrow> string \<Rightarrow> string \<Rightarrow> (share_row \<Rightarrow> bool) \<Rightarrow> bool" where
  "vaultGrantTo db userId orgId team \<longleftrightarrow>
     (\<exists>r \<in> set (shares db). vaultRow orgId r \<and> isGrant (srPermission r) \<and>
        ((srPrincipalType r = PUser \<and> srPrincipalId r = userId) \<or>
         (team r \<and> srPrincipalType r = POrg \<and> srPrincipalId r = orgId)))"

lemma itemGrant_split:
  "itemGrant db userId orgId team d ids \<longleftrightarrow>
     itemGrant db userId orgId (\<lambda>_. False) d ids \<or>
     (\<exists>r \<in> set (shares db). onItem (Some d) ids r \<and> isGrant (srPermission r) \<and> team r \<and>
        srPrincipalType r = POrg \<and> srPrincipalId r = orgId)"
  unfolding itemGrant_def by blast

lemma vaultGrantTo_split:
  "vaultGrantTo db userId orgId team \<longleftrightarrow>
     vaultGrantTo db userId orgId (\<lambda>_. False) \<or>
     (\<exists>r \<in> set (shares db). vaultRow orgId r \<and> isGrant (srPermission r) \<and> team r \<and>
        srPrincipalType r = POrg \<and> srPrincipalId r = orgId)"
  unfolding vaultGrantTo_def by blast

lemma set_grantSeeds:
  "set (grantSeeds db ty userId orgId team) =
     srResourceId ` {r \<in> set (shares db). srResourceType r = ty \<and> isGrant (srPermission r) \<and>
       ((srPrincipalType r = PUser \<and> srPrincipalId r = userId) \<or>
        (team r \<and> srPrincipalType r = POrg \<and> srPrincipalId r = orgId))}"
  by (simp add: grantSeeds_def)

lemma item_seeds:
  assumes "unique_folders db" "same_vault db" "docAt db d loc ids"
  shows "inFolders (subtreeOf db (dlVault loc) (grantSeeds db RFolder userId orgId team)) (dlFolder loc) \<or>
      d \<in> set (grantSeeds db RFile userId orgId team) \<longleftrightarrow> itemGrant db userId orgId team d ids"
proof -
  have chain: "chain_from db (dlFolder loc) ids" using assms(3) by (simp add: docAt_def)
  show ?thesis
    unfolding inFolders_subtree [OF assms(1,2) chain docAt_folder [OF assms(2,3)]] set_grantSeeds
      itemGrant_def onItem_def by blast
qed

lemma vault_seeds:
  "orgId \<in> set (grantSeeds db RVault userId orgId team) \<longleftrightarrow> vaultGrantTo db userId orgId team"
  unfolding set_grantSeeds vaultGrantTo_def vaultRow_def by blast

section \<open>The queries on one document\<close>

lemma doc_orgDenied:
  assumes t: "sound_tables db" and o: "one_kind db d" and doc: "docAt db d loc ids"
  shows "\<exists>S. deniedDocsInVault db POrg orgId (dlVault loc) = Some S \<and>
    (d \<in> set S \<longleftrightarrow> isDenied db POrg orgId (Some d) ids)"
proof -
  have uf: "unique_folders db" and sv: "same_vault db" and ud: "doc_keys db"
    using t by (simp_all add: sound_tables_def)
  have chain: "chain_from db (dlFolder loc) ids" using doc by (simp add: docAt_def)
  let ?sub = "subtreeOf db (dlVault loc) (denySeeds db RFolder POrg orgId)"
  have seeds: "inFolders ?sub (dlFolder loc) \<or> d \<in> set (denySeeds db RFile POrg orgId) \<longleftrightarrow>
      isDenied db POrg orgId (Some d) ids"
    unfolding inFolders_subtree [OF uf sv chain docAt_folder [OF sv doc]] isDenied_org denySeeds_def
      onItem_def set_map set_filter by blast
  show ?thesis
  proof (cases "anyDenyRows db POrg orgId")
    case False
    then have "\<not> isDenied db POrg orgId (Some d) ids"
      unfolding isDenied_org anyDenyRows_def list_ex_iff onItem_def by blast
    then show ?thesis using False by (simp add: deniedDocsInVault_def)
  next
    case True
    let ?in = "\<lambda>x i. inFolders ?sub x \<or> i \<in> set (denySeeds db RFile POrg orgId)"
    have "d \<in> set (map ntId (filter (\<lambda>n. ntVault n = dlVault loc \<and> ?in (ntFolder n) (ntId n)) (noteRows db)) @
        map flId (filter (\<lambda>f. flVault f = dlVault loc \<and> ?in (flFolder f) (flId f)) (fileRows db))) \<longleftrightarrow>
        ?in (dlFolder loc) d"
      using doc_in_rows [OF ud o docAt_live [OF doc], of "\<lambda>n. ?in (ntFolder n) (ntId n)"
          "\<lambda>x c t. ?in x d" "\<lambda>f. ?in (flFolder f) (flId f)" False] by simp
    then show ?thesis
      using True unfolding seeds by (simp add: deniedDocsInVault_def Let_def)
  qed
qed

lemma doc_scoped:
  assumes t: "sound_tables db" and o: "one_kind db d" and doc: "docAt db d loc ids"
  shows "d \<in> set (scopedDocs db userId (dlVault loc) orgId isMember orgGrants creatorCounts) \<longleftrightarrow>
    (isMember \<and> creatorCounts \<and> dlCreatedBy loc = Some userId) \<or>
    itemGrant db userId orgId (\<lambda>_. isMember \<and> orgGrants) d ids \<or> vaultGrantTo db userId orgId (\<lambda>_. False)"
proof -
  have uf: "unique_folders db" and sv: "same_vault db" and ud: "doc_keys db"
    using t by (simp_all add: sound_tables_def)
  let ?team = "\<lambda>_ :: share_row. isMember \<and> orgGrants"
  let ?sub = "subtreeOf db (dlVault loc) (grantSeeds db RFolder userId orgId ?team)"
  let ?fs = "grantSeeds db RFile userId orgId ?team"
  let ?vg = "list_ex (\<lambda>r. srResourceType r = RVault \<and> srResourceId r = orgId \<and> isGrant (srPermission r) \<and>
                         srPrincipalType r = PUser \<and> srPrincipalId r = userId) (shares db)"
  have vg: "?vg \<longleftrightarrow> vaultGrantTo db userId orgId (\<lambda>_. False)"
    unfolding list_ex_iff vaultGrantTo_def vaultRow_def by blast
  have "d \<in> set (scopedDocs db userId (dlVault loc) orgId isMember orgGrants creatorCounts) \<longleftrightarrow>
      (isMember \<and> creatorCounts \<and> dlCreatedBy loc = Some userId) \<or> inFolders ?sub (dlFolder loc) \<or> d \<in> set ?fs \<or> ?vg"
    unfolding scopedDocs_def Let_def
  proof (rule live_rows [OF ud o docAt_live [OF doc], where R = "\<lambda>x c t. (isMember \<and> creatorCounts \<and> c = Some userId) \<or>
      inFolders ?sub x \<or> d \<in> set ?fs \<or> ?vg"])
    fix f assume f: "f \<in> set (fileRows db)" "flId f = d"
    have "\<not> list_ex (\<lambda>n. ntId n = flId f \<and> ntDeletedAt n = None) (noteRows db)"
      unfolding list_ex_iff using one_kind_apart [OF o _ _ f(1)] f(2) by blast
    then show "((isMember \<and> creatorCounts \<and> flCreatedBy f = Some userId \<and>
             \<not> list_ex (\<lambda>n. ntId n = flId f \<and> ntDeletedAt n = None) (noteRows db)) \<or>
           inFolders ?sub (flFolder f) \<or> flId f \<in> set ?fs \<or> ?vg) \<longleftrightarrow>
        ((isMember \<and> creatorCounts \<and> flCreatedBy f = Some userId) \<or> inFolders ?sub (flFolder f) \<or> d \<in> set ?fs \<or> ?vg)"
      using f(2) by simp
  qed simp
  then show ?thesis using item_seeds [OF uf sv doc, of userId orgId ?team] unfolding vg by blast
qed

lemma doc_existing:
  assumes "doc_keys db" "one_kind db d" "docAt db d loc ids"
  shows "d \<in> set (liveNoteIds db (dlVault loc) (\<lambda>n. ntCreatedAt n \<le> b) @ vaultFiles db (dlVault loc) (\<lambda>f. flCreatedAt f \<le> b))
    \<longleftrightarrow> dlCreatedAt loc \<le> b"
  by (rule live_rows [OF assms(1,2) docAt_live [OF assms(3)], where R = "\<lambda>x c t. t \<le> b"]) simp_all

lemma doc_all:
  assumes "doc_keys db" "one_kind db d" "docAt db d loc ids"
  shows "d \<in> set (liveNoteIds db (dlVault loc) (\<lambda>_. True) @ vaultFiles db (dlVault loc) (\<lambda>_. True))"
  using live_rows [OF assms(1,2) docAt_live [OF assms(3)], of "\<lambda>_. True" "\<lambda>_ _ _. True" "\<lambda>_. True"] by blast

lemma doc_snapshotAllowed:
  assumes t: "sound_tables db" and o: "one_kind db d" and doc: "docAt db d loc ids"
  defines "team \<equiv> \<lambda>s r. srRevision r > snRevision s"
  shows "d \<in> set (snapshotAllowed db userId (dlVault loc) orgId s) \<longleftrightarrow>
    dlCreatedAt loc \<le> snAt s \<and>
    (itemGrant db userId orgId (team s) d ids \<or> vaultGrantTo db userId orgId (team s))"
proof -
  have uf: "unique_folders db" and sv: "same_vault db" and ud: "doc_keys db"
    using t by (simp_all add: sound_tables_def)
  let ?sub = "subtreeOf db (dlVault loc) (grantSeeds db RFolder userId orgId (team s))"
  let ?fs = "grantSeeds db RFile userId orgId (team s)"
  let ?vg = "orgId \<in> set (grantSeeds db RVault userId orgId (team s))"
  have "d \<in> set (snapshotAllowed db userId (dlVault loc) orgId s) \<longleftrightarrow>
      dlCreatedAt loc \<le> snAt s \<and> (inFolders ?sub (dlFolder loc) \<or> d \<in> set ?fs \<or> ?vg)"
    unfolding snapshotAllowed_def Let_def team_def
    by (rule live_rows [OF ud o docAt_live [OF doc], where R = "\<lambda>x c t. t \<le> snAt s \<and>
        (inFolders (subtreeOf db (dlVault loc) (grantSeeds db RFolder userId orgId (\<lambda>r. srRevision r > snRevision s))) x \<or>
         d \<in> set (grantSeeds db RFile userId orgId (\<lambda>r. srRevision r > snRevision s)) \<or>
         orgId \<in> set (grantSeeds db RVault userId orgId (\<lambda>r. srRevision r > snRevision s)))"]) simp_all
  then show ?thesis
    unfolding vault_seeds using item_seeds [OF uf sv doc, of userId orgId "team s"] by blast
qed

lemma doc_withSnapshot:
  assumes t: "sound_tables db" and o: "one_kind db d" and doc: "docAt db d loc ids"
  shows "d \<in> set (withSnapshot db userId (dlVault loc) orgId snapshot reachable) \<longleftrightarrow>
    (case snapshot of
       None \<Rightarrow> d \<in> set reachable
     | Some s \<Rightarrow>
         if dlCreatedAt loc \<le> snAt s
         then snMode s \<noteq> MPrivate \<or> itemGrant db userId orgId (\<lambda>r. srRevision r > snRevision s) d ids \<or>
              vaultGrantTo db userId orgId (\<lambda>r. srRevision r > snRevision s)
         else d \<in> set reachable)"
proof -
  have ud: "doc_keys db" using t by (simp add: sound_tables_def)
  have existing: "d \<in> set (withSnapshot db userId (dlVault loc) orgId (Some s) reachable) \<longleftrightarrow>
      (if snMode s = MPrivate
       then (d \<in> set reachable \<and> \<not> dlCreatedAt loc \<le> snAt s) \<or> d \<in> set (snapshotAllowed db userId (dlVault loc) orgId s)
       else d \<in> set reachable \<or> dlCreatedAt loc \<le> snAt s)" for s
    unfolding doc_existing [OF ud o doc, symmetric] by (simp add: withSnapshot_def Let_def)
  show ?thesis
    by (cases snapshot) (auto simp add: withSnapshot_def [of _ _ _ _ None] existing doc_snapshotAllowed [OF t o doc])
qed

section \<open>The resolver on the same document\<close>

lemma isGrant_cases: "isGrant p \<longleftrightarrow> p \<noteq> SLocked \<and> p \<noteq> SDenied"
  by (cases p) (simp_all add: isGrant_def)

lemma grantOf_none: "grantOf live R \<noteq> PermNone \<longleftrightarrow> (\<exists>r \<in> R. live r \<and> isGrant (srPermission r))"
  by (auto simp: grantOf_def isGrant_def)

lemma verdict_view_grants: "uvGrant (verdictLoop row items cap True) \<noteq> PermNone"
  by (induction items arbitrary: cap) (auto split: option.splits)

lemma verdict_grants:
  "uvGrant (verdictLoop row items cap False) \<noteq> PermNone \<longleftrightarrow> (\<exists>p. decisive row items = Some p \<and> isGrant p)"
  by (induction items arbitrary: cap)
     (auto simp: verdict_view_grants isGrant_cases split: option.splits stored_permission.splits)

lemma decisive_mem:
  "decisive row items = Some p \<Longrightarrow> \<exists>item \<in> set items. \<exists>r. row item = Some r \<and> srPermission r = p"
  by (induction items) (auto split: option.splits if_splits)

lemma decisive_first:
  "item \<in> set items \<Longrightarrow> row item = Some r \<Longrightarrow> srPermission r \<noteq> SLocked \<Longrightarrow> \<exists>p. decisive row items = Some p \<and> p \<noteq> SLocked"
  by (induction items) (auto split: option.splits)

lemma userRow_unique:
  assumes "unique_shares db" "r \<in> set (shares db)" "srPrincipalType r = PUser" "srPrincipalId r = userId"
  shows "userRow (shares db) userId (srResourceType r, srResourceId r) = Some r"
proof -
  have "first_row (\<lambda>x. srResourceType x = srResourceType r \<and> srResourceId x = srResourceId r \<and>
      srPrincipalType x = PUser \<and> srPrincipalId x = userId) (shares db) \<noteq> None"
    unfolding first_row_None using assms(2-4) by blast
  then obtain x where x: "first_row (\<lambda>x. srResourceType x = srResourceType r \<and> srResourceId x = srResourceId r \<and>
      srPrincipalType x = PUser \<and> srPrincipalId x = userId) (shares db) = Some x" by blast
  have "x = r"
    using first_row_Some [OF x] assms by (intro unique_shares_eq [OF assms(1)]) (simp_all add: share_key_def)
  then show ?thesis using x by (simp add: userRow_def)
qed

text \<open>When the user is not denied, the verdict grants iff some row of the user on the item grants.\<close>

lemma verdict_itemGrant:
  assumes u: "unique_shares db" and free: "\<not> isDenied db PUser userId (Some d) ids"
  shows "uvGrant (itemVerdict db userId (Some d) ids) \<noteq> PermNone \<longleftrightarrow> itemGrant db userId orgId (\<lambda>_. False) d ids"
proof -
  let ?row = "userRow (shares db) userId" and ?items = "itemOrder (Some d) ids"
  have grants: "uvGrant (itemVerdict db userId (Some d) ids) \<noteq> PermNone \<longleftrightarrow>
      (\<exists>p. decisive ?row ?items = Some p \<and> isGrant p)"
    by (simp add: itemVerdict_def userItemVerdict_def verdict_grants)
  show ?thesis
  proof
    assume "uvGrant (itemVerdict db userId (Some d) ids) \<noteq> PermNone"
    then obtain p where p: "decisive ?row ?items = Some p" "isGrant p" using grants by blast
    then obtain ty i r where r: "(ty, i) \<in> set ?items" "?row (ty, i) = Some r" "srPermission r = p"
      using decisive_mem [OF p(1)] by auto
    have "r \<in> set (shares db) \<and> srResourceType r = ty \<and> srResourceId r = i \<and> srPrincipalType r = PUser \<and>
        srPrincipalId r = userId"
      using r(2) by (auto simp: userRow_def dest: first_row_Some)
    then show "itemGrant db userId orgId (\<lambda>_. False) d ids"
      unfolding itemGrant_def itemOrder_onItem [symmetric] using r(1,3) p(2) by blast
  next
    assume "itemGrant db userId orgId (\<lambda>_. False) d ids"
    then obtain r where r: "r \<in> set (shares db)" "(srResourceType r, srResourceId r) \<in> set ?items"
      "isGrant (srPermission r)" "srPrincipalType r = PUser" "srPrincipalId r = userId"
      unfolding itemGrant_def itemOrder_onItem [symmetric] by blast
    have "\<exists>p. decisive ?row ?items = Some p \<and> p \<noteq> SLocked"
      by (rule decisive_first [where row = ?row, OF r(2) userRow_unique [OF u r(1,4,5)]]) (use r(3) in \<open>simp add: isGrant_cases\<close>)
    then show "uvGrant (itemVerdict db userId (Some d) ids) \<noteq> PermNone"
      unfolding grants using free isDenied_decisive [OF u] by (auto simp: isGrant_cases)
  qed
qed

lemma grantNF_grants:
  fixes oc :: bool and s :: "member_snapshot option" and t :: "int option"
  assumes u: "unique_shares db" and free: "\<not> isDenied db PUser userId (Some d) ids"
  defines "team \<equiv> \<lambda>r. oc \<and> liveGrant s t r"
  shows "grantNF db userId (Some d) ids orgId oc ovc s t \<noteq> PermNone \<longleftrightarrow>
    itemGrant db userId orgId team d ids \<or> vaultGrantTo db userId orgId (\<lambda>r. ovc \<and> team r)"
proof -
  have user: "liveGrant s t r" if "srPrincipalType r = PUser" for r using that by (simp add: liveGrant_def)
  have "grantNF db userId (Some d) ids orgId oc ovc s t \<noteq> PermNone \<longleftrightarrow>
      (\<exists>r \<in> grantRows db userId (Some d) ids orgId oc ovc. liveGrant s t r \<and> isGrant (srPermission r)) \<or>
      itemGrant db userId orgId (\<lambda>_. False) d ids"
    unfolding grantNF_def maxPermission_eq_none de_Morgan_conj grantOf_none
    using verdict_itemGrant [OF u free] by blast
  also have "(\<exists>r \<in> grantRows db userId (Some d) ids orgId oc ovc. liveGrant s t r \<and> isGrant (srPermission r)) \<longleftrightarrow>
      vaultGrantTo db userId orgId (\<lambda>r. ovc \<and> team r) \<or>
      (\<exists>r \<in> set (shares db). onItem (Some d) ids r \<and> isGrant (srPermission r) \<and> team r \<and>
        srPrincipalType r = POrg \<and> srPrincipalId r = orgId)"
    (is "?L \<longleftrightarrow> ?R")
  proof
    assume ?L
    then show ?R
      unfolding grantRows_def grantBase_def isGrant_def vaultGrantTo_def team_def vaultRow_def onItem_def by fastforce
  next
    assume ?R
    then show ?L
      unfolding grantRows_def grantBase_def isGrant_def vaultGrantTo_def team_def vaultRow_def onItem_def
      using user by fastforce
  qed
  finally show ?thesis using itemGrant_split [of db userId orgId team d ids] by blast
qed

section \<open>Who may read a document\<close>

text \<open>Everyone rows on a vault name the vault's own organization, and only members have a join
  snapshot (migration 032's foreign key).\<close>

definition everyone_own :: "database \<Rightarrow> bool" where
  "everyone_own db \<longleftrightarrow> (\<forall>r \<in> set (shares db). srResourceType r = RVault \<and> srPrincipalType r = POrg \<longrightarrow>
     srPrincipalId r = srResourceId r)"

definition snapshots_of_members :: "database \<Rightarrow> bool" where
  "snapshots_of_members db \<longleftrightarrow>
     (\<forall>s \<in> set (memberSnapshots db). \<exists>m \<in> set (members db). mbOrg m = msOrg s \<and> mbUser m = msUser s)"

text \<open>The rule, without ranks, levels or the order of the queries: own rows on the item or the vault
  always count, the Everyone side counts for a member unless the item is private, and for what
  existed when a member joined it is the join mode that counts, and later Everyone rows.\<close>

definition orgItemGrant :: "database \<Rightarrow> string \<Rightarrow> (share_row \<Rightarrow> bool) \<Rightarrow> string \<Rightarrow> string list \<Rightarrow> bool" where
  "orgItemGrant db orgId P d ids \<longleftrightarrow>
     (\<exists>r \<in> set (shares db). onItem (Some d) ids r \<and> isGrant (srPermission r) \<and> P r \<and>
        srPrincipalType r = POrg \<and> srPrincipalId r = orgId)"

definition orgVaultGrant :: "database \<Rightarrow> string \<Rightarrow> (share_row \<Rightarrow> bool) \<Rightarrow> bool" where
  "orgVaultGrant db orgId P \<longleftrightarrow>
     (\<exists>r \<in> set (shares db). vaultRow orgId r \<and> isGrant (srPermission r) \<and> P r \<and>
        srPrincipalType r = POrg \<and> srPrincipalId r = orgId)"

definition mayRead :: "database \<Rightarrow> string \<Rightarrow> string \<Rightarrow> doc_location \<Rightarrow> string list \<Rightarrow> bool" where
  "mayRead db userId d loc ids \<longleftrightarrow>
     (let org = dlOrg loc;
          isMember = (memberRole db org userId \<noteq> None);
          own = itemGrant db userId org (\<lambda>_. False) d ids;
          private = isDenied db POrg org (Some d) ids
      in \<not> isDenied db PUser userId (Some d) ids \<and>
         (case personalVaultLevel db org userId of
            Some level \<Rightarrow> own \<or> level \<noteq> PersonalDenied
          | None \<Rightarrow> own \<or> (\<not> private \<and>
              (case memberAccessSnapshot db org userId of
                 Some s \<Rightarrow>
                   if dlCreatedAt loc \<le> snAt s
                   then snMode s \<noteq> MPrivate \<or> orgItemGrant db org (\<lambda>r. srRevision r > snRevision s) d ids \<or>
                        orgVaultGrant db org (\<lambda>r. srRevision r > snRevision s)
                   else isMember \<and> (orgItemGrant db org (\<lambda>_. True) d ids \<or> orgVaultGrant db org (\<lambda>_. True) \<or>
                        (vaultBaseline db org \<noteq> Some PostureSealed \<and> dlCreatedBy loc = Some userId))
               | None \<Rightarrow> isMember \<and> (orgItemGrant db org (\<lambda>_. True) d ids \<or> orgVaultGrant db org (\<lambda>_. True) \<or>
                        (vaultBaseline db org \<noteq> Some PostureSealed \<and> dlCreatedBy loc = Some userId))))))"

lemma itemGrant_org:
  "itemGrant db userId orgId (\<lambda>r. oc \<and> P r) d ids \<longleftrightarrow>
     itemGrant db userId orgId (\<lambda>_. False) d ids \<or> oc \<and> orgItemGrant db orgId P d ids"
  unfolding itemGrant_def orgItemGrant_def by blast

lemma vaultGrantTo_org:
  "vaultGrantTo db userId orgId (\<lambda>r. oc \<and> P r) \<longleftrightarrow>
     vaultGrantTo db userId orgId (\<lambda>_. False) \<or> oc \<and> orgVaultGrant db orgId P"
  unfolding vaultGrantTo_def orgVaultGrant_def by blast

lemma personal_own:
  assumes u: "unique_shares db"
  shows "vaultGrantTo db userId orgId (\<lambda>_. False) \<longleftrightarrow>
    personalVaultLevel db orgId userId \<noteq> None \<and> personalVaultLevel db orgId userId \<noteq> Some PersonalDenied"
proof (cases "first_row (personalRow userId orgId) (shares db)")
  case None
  then have "\<not> vaultGrantTo db userId orgId (\<lambda>_. False)"
    unfolding first_row_None vaultGrantTo_def vaultRow_def isGrant_def personalRow_def by blast
  moreover have "personalVaultLevel db orgId userId = None"
    using None by (simp add: personalVaultLevel_def personalLevelOf_def)
  ultimately show ?thesis by simp
next
  case (Some p)
  have p: "p \<in> set (shares db)" "personalRow userId orgId p" using first_row_Some [OF Some] by auto
  have only: "r = p" if "r \<in> set (shares db)" "vaultRow orgId r" "srPrincipalType r = PUser" "srPrincipalId r = userId" for r
    using that p by (intro unique_shares_eq [OF u]) (simp_all add: share_key_def vaultRow_def personalRow_def)
  have "vaultGrantTo db userId orgId (\<lambda>_. False) \<longleftrightarrow> isGrant (srPermission p)"
  proof
    assume "vaultGrantTo db userId orgId (\<lambda>_. False)"
    then show "isGrant (srPermission p)" unfolding vaultGrantTo_def using only by blast
  next
    assume "isGrant (srPermission p)"
    then show "vaultGrantTo db userId orgId (\<lambda>_. False)"
      using p unfolding vaultGrantTo_def vaultRow_def personalRow_def by blast
  qed
  then show ?thesis
    using p(2) by (auto simp: personalVaultLevel_def Some personalLevelOf_def isGrant_def personalRow_def)
qed

lemma baseline_grants:
  assumes "everyone_own db" "vaultBaseline db orgId = Some p" "p \<noteq> PostureSealed"
  shows "orgVaultGrant db orgId (\<lambda>_. True)"
proof -
  let ?P = "\<lambda>r. srResourceType r = RVault \<and> srResourceId r = orgId \<and> srPrincipalType r = POrg \<and>
       (srPermission r = SView \<or> srPermission r = SEdit \<or> srPermission r = SDenied)"
  obtain r where r: "first_row ?P (shares db) = Some r" "postureOf (Some (srPermission r)) = Some p"
    using assms(2) by (cases "first_row ?P (shares db)") (auto simp: vaultBaseline_def postureOf_def)
  have mem: "r \<in> set (shares db)" "?P r" using first_row_Some [OF r(1)] by auto
  have "srPrincipalId r = orgId" using assms(1) mem by (simp add: everyone_own_def)
  moreover have "isGrant (srPermission r)"
    using r(2) assms(3) by (auto simp: postureOf_def isGrant_def split: if_splits)
  ultimately show ?thesis using mem unfolding orgVaultGrant_def vaultRow_def by blast
qed

lemma vaultAccess_of:
  assumes "everyone_own db" "vaultOrg db vaultId = Some orgId"
  shows "vaultAccess db userId vaultId = Some
    \<lparr>vaOrg = orgId, vaRole = memberRole db orgId userId,
     vaVaultWide =
       (case personalVaultLevel db orgId userId of
          Some level \<Rightarrow> level \<noteq> PersonalDenied
        | None \<Rightarrow> vaultGrantTo db userId orgId (\<lambda>_. False) \<or>
                  memberRole db orgId userId \<noteq> None \<and> orgVaultGrant db orgId (\<lambda>_. True)),
     vaPersonal = personalVaultLevel db orgId userId\<rparr>"
proof -
  obtain v where v: "first_row (\<lambda>v. vtId v = vaultId) (vaults db) = Some v" "vtOrg v = orgId"
    using assms(2) by (auto simp: vaultOrg_def)
  have "list_ex (\<lambda>r. srResourceType r = RVault \<and> srResourceId r = orgId \<and> isGrant (srPermission r) \<and>
        ((memberRole db orgId userId \<noteq> None \<and> srPrincipalType r = POrg) \<or>
         (srPrincipalType r = PUser \<and> srPrincipalId r = userId))) (shares db) \<longleftrightarrow>
      vaultGrantTo db userId orgId (\<lambda>_. False) \<or> memberRole db orgId userId \<noteq> None \<and> orgVaultGrant db orgId (\<lambda>_. True)"
    using assms(1) unfolding list_ex_iff everyone_own_def vaultGrantTo_def orgVaultGrant_def vaultRow_def by blast
  then show ?thesis
    unfolding vaultAccess_def v(1) by (simp add: Let_def v(2) split: option.split)
qed

lemma share_grants:
  assumes u: "unique_shares db" and free: "\<not> isDenied db PUser userId (Some d) ids"
  shows "sharePermission db userId (Some d) ids orgId m oga s t None ovc \<noteq> PermNone \<longleftrightarrow>
    itemGrant db userId orgId (\<lambda>_. False) d ids \<or> vaultGrantTo db userId orgId (\<lambda>_. False) \<or>
    m \<and> oga \<and> (orgItemGrant db orgId (liveGrant s t) d ids \<or> ovc \<and> orgVaultGrant db orgId (liveGrant s t))"
  unfolding sharePermission_query [OF u] grantNF_grants [OF u free] itemGrant_org
    vaultGrantTo_org [of db userId orgId ovc "\<lambda>r. (m \<and> oga) \<and> liveGrant s t r"]
  unfolding orgVaultGrant_def by blast

lemma share_none:
  assumes "unique_shares db" and "\<not> isDenied db PUser userId (Some d) ids"
  shows "sharePermission db userId (Some d) ids orgId m oga s t None ovc = PermNone \<longleftrightarrow>
    \<not> (itemGrant db userId orgId (\<lambda>_. False) d ids \<or> vaultGrantTo db userId orgId (\<lambda>_. False) \<or>
    m \<and> oga \<and> (orgItemGrant db orgId (liveGrant s t) d ids \<or> ovc \<and> orgVaultGrant db orgId (liveGrant s t)))"
  using share_grants [OF assms, of orgId m oga s t ovc] by blast

lemma liveGrant_plain [simp]: "liveGrant None t = (\<lambda>_. True)"
  by (rule ext) (simp add: liveGrant_def)

lemma org_live:
  assumes "t \<le> snAt s"
  shows "orgItemGrant db orgId (liveGrant (Some s) (Some t)) d ids = orgItemGrant db orgId (\<lambda>r. srRevision r > snRevision s) d ids"
    and "orgVaultGrant db orgId (liveGrant (Some s) (Some t)) = orgVaultGrant db orgId (\<lambda>r. srRevision r > snRevision s)"
  using assms unfolding orgItemGrant_def orgVaultGrant_def liveGrant_def by auto

lemma snapshotLevel_none: "snapshotLevel m = PermNone \<longleftrightarrow> m = MPrivate"
  by (cases m) (simp_all add: snapshotLevel_def)

lemma snapshot_member:
  assumes "snapshots_of_members db" "memberAccessSnapshot db orgId userId \<noteq> None"
  shows "memberRole db orgId userId \<noteq> None"
proof -
  obtain s where s: "first_row (\<lambda>s. msOrg s = orgId \<and> msUser s = userId) (memberSnapshots db) = Some s"
    using assms(2) by (auto simp: memberAccessSnapshot_def)
  obtain m where "m \<in> set (members db)" "mbOrg m = orgId \<and> mbUser m = userId"
    using first_row_Some [OF s] assms(1) unfolding snapshots_of_members_def by metis
  then have "first_row (\<lambda>m. mbOrg m = orgId \<and> mbUser m = userId) (members db) \<noteq> None"
    unfolding first_row_None by blast
  then show ?thesis by (simp add: memberRole_def)
qed

lemma capped_none: "(if g \<noteq> PermNone \<and> l then PermView else g) \<noteq> PermNone \<longleftrightarrow> g \<noteq> PermNone"
  by simp

lemma fresh_mayRead:
  assumes u: "unique_shares db" and eo: "everyone_own db" and sm: "snapshots_of_members db" and user: "userId \<noteq> []"
  shows "freshDecision db userId d loc ids \<noteq> PermNone \<longleftrightarrow> mayRead db userId d loc ids"
proof (cases "isDenied db PUser userId (Some d) ids")
  case True
  then show ?thesis by (simp add: freshDecision_def mayRead_def Let_def)
next
  case free: False
  let ?org = "dlOrg loc"
  let ?own = "itemGrant db userId ?org (\<lambda>_. False) d ids"
  let ?p = "isDenied db POrg ?org (Some d) ids"
  let ?role = "memberRole db ?org userId"
  note grants = share_none [OF u free, of ?org] and uv = personal_own [OF u, of userId ?org]
  have fresh: "freshDecision db userId d loc ids = decideDoc db userId d loc ids None (freshFacts db ?org userId)"
    using free by (simp add: freshDecision_def)
  note decide = fresh decideDoc_def Let_def askDenied_def askLocked_def askGrant_def askPersonal_def freshFacts_def
    option.case membership_facts.simps capped_none
  have read: "mayRead db userId d loc ids \<longleftrightarrow> (case personalVaultLevel db ?org userId of
      Some level \<Rightarrow> ?own \<or> level \<noteq> PersonalDenied
    | None \<Rightarrow> ?own \<or> (\<not> ?p \<and> (case memberAccessSnapshot db ?org userId of
         Some s \<Rightarrow> if dlCreatedAt loc \<le> snAt s
           then snMode s \<noteq> MPrivate \<or> orgItemGrant db ?org (\<lambda>r. srRevision r > snRevision s) d ids \<or>
                orgVaultGrant db ?org (\<lambda>r. srRevision r > snRevision s)
           else ?role \<noteq> None \<and> (orgItemGrant db ?org (\<lambda>_. True) d ids \<or> orgVaultGrant db ?org (\<lambda>_. True) \<or>
                (vaultBaseline db ?org \<noteq> Some PostureSealed \<and> dlCreatedBy loc = Some userId))
       | None \<Rightarrow> ?role \<noteq> None \<and> (orgItemGrant db ?org (\<lambda>_. True) d ids \<or> orgVaultGrant db ?org (\<lambda>_. True) \<or>
                (vaultBaseline db ?org \<noteq> Some PostureSealed \<and> dlCreatedBy loc = Some userId)))))"
    unfolding mayRead_def Let_def using free by (simp only: not_False_eq_True simp_thms)
  show ?thesis
  proof (cases "personalVaultLevel db ?org userId")
    case (Some level)
    then show ?thesis unfolding read decide by (auto simp: grants uv)
  next
    case None
    note uv' = uv [unfolded None, simplified]
    show ?thesis
    proof (cases "case memberAccessSnapshot db ?org userId of None \<Rightarrow> False | Some s \<Rightarrow> dlCreatedAt loc \<le> snAt s")
      case True
      then obtain s where s: "memberAccessSnapshot db ?org userId = Some s" "dlCreatedAt loc \<le> snAt s"
        by (auto split: option.splits)
      have role: "?role \<noteq> None" using snapshot_member [OF sm] s(1) by simp
      show ?thesis
        unfolding read decide None s(1) maxPermission_eq_none de_Morgan_conj
        using s(2) role
        by (simp add: grants uv' org_live [OF s(2)] snapshotLevel_none)
    next
      case False
      have baseline: "vaultBaseline db ?org \<noteq> None \<Longrightarrow> vaultBaseline db ?org \<noteq> Some PostureSealed \<Longrightarrow>
          orgVaultGrant db ?org (\<lambda>_. True)"
        using baseline_grants [OF eo, of ?org] by auto
      have truthy: "truthy (dlCreatedBy loc) \<and> dlCreatedBy loc = Some userId \<longleftrightarrow> dlCreatedBy loc = Some userId"
        using user by (auto simp: truthy_def)
      have read': "mayRead db userId d loc ids \<longleftrightarrow> ?own \<or> (\<not> ?p \<and> ?role \<noteq> None \<and>
          (orgItemGrant db ?org (\<lambda>_. True) d ids \<or> orgVaultGrant db ?org (\<lambda>_. True) \<or>
           (vaultBaseline db ?org \<noteq> Some PostureSealed \<and> dlCreatedBy loc = Some userId)))"
        using False unfolding read None by (auto split: option.splits)
      show ?thesis
      proof (cases ?p)
        case True
        then show ?thesis using False unfolding read' decide None by (simp add: grants uv')
      next
        case ip: False
        show ?thesis
        proof (cases "vaultBaseline db ?org = Some PostureView \<or> vaultBaseline db ?org = Some PostureSealed")
          case True
          then show ?thesis using False ip baseline unfolding read' decide None by (auto simp: grants uv')
        next
          case unposed: False
          show ?thesis
          proof (cases "vaultBaseline db ?org \<noteq> None \<and> (?role = Some ''owner'' \<or> ?role = Some ''admin'')")
            case True
            then show ?thesis using False ip unposed baseline unfolding read' decide None by auto
          next
            case other: False
            then show ?thesis using False ip unposed truthy unfolding read' decide None
              by (cases "?role \<noteq> None \<and> dlCreatedBy loc = Some userId") (auto simp: grants uv')
          qed
        qed
      qed
    qed
  qed
qed

lemma list_mayRead:
  assumes t: "sound_tables db" and eo: "everyone_own db" and sm: "snapshots_of_members db"
    and o: "one_kind db d" and doc: "docAt db d loc ids"
  shows "\<exists>S. listReadableDocsInVault db userId (dlVault loc) = Some S \<and> (d \<in> set S \<longleftrightarrow> mayRead db userId d loc ids)"
proof -
  let ?org = "dlOrg loc"
  have u: "unique_shares db" and ud: "doc_keys db" using t by (simp_all add: sound_tables_def)
  obtain U where U: "deniedDocsInVault db PUser userId (dlVault loc) = Some U"
    "d \<in> set U \<longleftrightarrow> isDenied db PUser userId (Some d) ids"
    using doc_userDenied [OF t o doc] by blast
  obtain G where G: "deniedDocsInVault db POrg ?org (dlVault loc) = Some G"
    "d \<in> set G \<longleftrightarrow> isDenied db POrg ?org (Some d) ids"
    using doc_orgDenied [OF t o doc] by blast
  have located: "vaultOrg db (dlVault loc) = Some ?org"
    by (rule located_liveDoc(2) [of db d]) (use doc in \<open>simp add: docAt_def\<close>)
  note access = vaultAccess_of [OF eo located, of userId]
  let ?personal = "personalVaultLevel db ?org userId"
  let ?role = "memberRole db ?org userId"
  let ?own = "itemGrant db userId ?org (\<lambda>_. False) d ids"
  have scoped: "d \<in> set (scopedDocs db userId (dlVault loc) ?org m og cc) \<longleftrightarrow>
      (m \<and> cc \<and> dlCreatedBy loc = Some userId) \<or> ?own \<or> (m \<and> og) \<and> orgItemGrant db ?org (\<lambda>_. True) d ids \<or>
      ?personal \<noteq> None \<and> ?personal \<noteq> Some PersonalDenied" for m og cc
    unfolding doc_scoped [OF t o doc] personal_own [OF u]
    using itemGrant_org [of db userId ?org "m \<and> og" "\<lambda>_. True" d ids] by simp
  note all = doc_all [OF ud o doc, unfolded set_append Un_iff]
  have newer: "itemGrant db userId ?org (\<lambda>r. srRevision r > snRevision s) d ids \<longleftrightarrow>
      ?own \<or> orgItemGrant db ?org (\<lambda>r. srRevision r > snRevision s) d ids"
    "vaultGrantTo db userId ?org (\<lambda>r. srRevision r > snRevision s) \<longleftrightarrow>
      (?personal \<noteq> None \<and> ?personal \<noteq> Some PersonalDenied) \<or> orgVaultGrant db ?org (\<lambda>r. srRevision r > snRevision s)" for s
    using itemGrant_org [of db userId ?org True "\<lambda>r. srRevision r > snRevision s" d ids]
      vaultGrantTo_org [of db userId ?org True "\<lambda>r. srRevision r > snRevision s"]
    unfolding personal_own [OF u] by simp_all
  obtain S where S: "listReadableDocsInVault db userId (dlVault loc) = Some S"
    by (simp add: listReadableDocsInVault_def access U(1) G(1) Let_def)
  let ?wide = "case ?personal of Some level \<Rightarrow> level \<noteq> PersonalDenied
        | None \<Rightarrow> vaultGrantTo db userId ?org (\<lambda>_. False) \<or> ?role \<noteq> None \<and> orgVaultGrant db ?org (\<lambda>_. True)"
  let ?sealed = "?personal \<noteq> None \<or> vaultBaseline db ?org = Some PostureSealed"
  let ?reach = "if ?wide then liveNoteIds db (dlVault loc) (\<lambda>_. True) @ vaultFiles db (dlVault loc) (\<lambda>_. True)
      else scopedDocs db userId (dlVault loc) ?org (?role \<noteq> None) (?personal \<noteq> Some PersonalDenied) (\<not> ?sealed)"
  let ?snap = "if ?personal \<noteq> None then None else memberAccessSnapshot db ?org userId"
  have mem: "d \<in> set S \<longleftrightarrow> \<not> isDenied db PUser userId (Some d) ids \<and>
      (isDenied db POrg ?org (Some d) ids \<longrightarrow> ?own \<or> ?personal \<noteq> None \<and> ?personal \<noteq> Some PersonalDenied) \<and>
      d \<in> set (withSnapshot db userId (dlVault loc) ?org ?snap ?reach)"
  proof -
    have "G \<noteq> []" if "isDenied db POrg ?org (Some d) ids" using that G(2) by auto
    then show ?thesis
      using S unfolding listReadableDocsInVault_def access option.case vault_access.simps Let_def U(1) G(1) prod.case
        option.inject
      using U(2) G(2) scoped [of "?role \<noteq> None" False False] by auto
  qed
  have reach: "d \<in> set ?reach \<longleftrightarrow> ?wide \<or>
      (?role \<noteq> None \<and> \<not> ?sealed \<and> dlCreatedBy loc = Some userId) \<or> ?own \<or>
      (?role \<noteq> None \<and> ?personal \<noteq> Some PersonalDenied) \<and> orgItemGrant db ?org (\<lambda>_. True) d ids \<or>
      ?personal \<noteq> None \<and> ?personal \<noteq> Some PersonalDenied"
    by (simp add: scoped all)
  have "d \<in> set S \<longleftrightarrow> mayRead db userId d loc ids"
  proof (cases ?personal)
    case (Some level)
    then show ?thesis unfolding mem doc_withSnapshot [OF t o doc] reach mayRead_def Let_def by auto
  next
    case None
    have uv: "\<not> vaultGrantTo db userId ?org (\<lambda>_. False)" using personal_own [OF u, of userId ?org] None by simp
    show ?thesis
      unfolding mem doc_withSnapshot [OF t o doc] reach mayRead_def Let_def newer
      unfolding None using uv by (cases "memberAccessSnapshot db ?org userId") auto
  qed
  then show ?thesis using S by blast
qed

section \<open>Properties\<close>

lemma permission_freshDecision:
  assumes t: "sound_tables db" and loc: "locateDoc db d False = Some loc"
    and p: "effectivePermission env db userId d None False = Some (p, c)"
  shows "\<exists>ids. docAt db d loc ids \<and> ancestorFolderIds db (dlFolder loc) = Some ids \<and>
    (p \<noteq> PermNone \<longleftrightarrow> freshDecision db userId d loc ids \<noteq> PermNone)"
proof -
  have uf: "unique_folders db" "named_folders db" using t by (simp_all add: sound_tables_def)
  obtain ids where ids: "ancestorFolderIds db (dlFolder loc) = Some ids"
    using p loc by (auto simp: effectivePermission_def uncached_inner split: option.splits)
  have "docAt db d loc ids"
    using loc ids ancestorFolderIds_iff [OF uf] by (simp add: docAt_def)
  moreover have "p \<noteq> PermNone \<longleftrightarrow> freshDecision db userId d loc ids \<noteq> PermNone"
    using p plain_permission [OF loc ids, of env userId] by (auto split: if_splits)
  ultimately show ?thesis using ids by blast
qed

text \<open>Nothing else is in the set: every id in it is a live document of the vault.\<close>

lemma scopedDocs_sub:
  "set (scopedDocs db userId v orgId m og cc) \<subseteq>
     set (liveNoteIds db v (\<lambda>_. True)) \<union> set (vaultFiles db v (\<lambda>_. True))"
  by (auto simp: scopedDocs_def Let_def liveNoteIds_def vaultFiles_def)

lemma withSnapshot_sub:
  "set (withSnapshot db userId v orgId snapshot reachable) \<subseteq>
     set reachable \<union> set (liveNoteIds db v (\<lambda>_. True)) \<union> set (vaultFiles db v (\<lambda>_. True))"
  by (auto simp: withSnapshot_def snapshotAllowed_def Let_def liveNoteIds_def vaultFiles_def split: option.split)

lemma list_sub:
  assumes "listReadableDocsInVault db userId v = Some S" "d \<in> set S"
  shows "d \<in> set (liveNoteIds db v (\<lambda>_. True)) \<union> set (vaultFiles db v (\<lambda>_. True))"
    and "vaultAccess db userId v \<noteq> None"
proof -
  obtain access where a: "vaultAccess db userId v = Some access"
    using assms by (cases "vaultAccess db userId v") (simp_all add: listReadableDocsInVault_def)
  then show "vaultAccess db userId v \<noteq> None" by simp
  obtain U G where "deniedDocsInVault db PUser userId v = Some U" "deniedDocsInVault db POrg (vaOrg access) v = Some G"
    using assms(1) a by (auto simp: listReadableDocsInVault_def Let_def split: option.splits)
  then obtain snapshot reachable where "d \<in> set (withSnapshot db userId v (vaOrg access) snapshot reachable)"
    "set reachable \<subseteq> set (liveNoteIds db v (\<lambda>_. True)) \<union> set (vaultFiles db v (\<lambda>_. True))"
    using assms a scopedDocs_sub [of db userId v "vaOrg access"]
    by (fastforce simp: listReadableDocsInVault_def Let_def split: if_splits)
  then show "d \<in> set (liveNoteIds db v (\<lambda>_. True)) \<union> set (vaultFiles db v (\<lambda>_. True))"
    using withSnapshot_sub [of db userId v "vaOrg access" snapshot reachable] by blast
qed

lemma live_located:
  assumes ud: "doc_keys db" and o: "one_kind db d" and org: "vaultOrg db v = Some orgId"
    and d: "d \<in> set (liveNoteIds db v (\<lambda>_. True)) \<union> set (vaultFiles db v (\<lambda>_. True))"
  shows "\<exists>loc. locateDoc db d False = Some loc \<and> dlVault loc = v"
proof -
  have "\<exists>l. l \<in> set (locatedRows db d False)"
  proof (cases "d \<in> set (liveNoteIds db v (\<lambda>_. True))")
    case True
    then obtain n where n: "n \<in> set (noteRows db)" "ntId n = d" "ntDeletedAt n = None" "ntVault n = v"
      by (auto simp: liveNoteIds_def)
    then obtain l where "noteLocation db n = Some l" using org by (simp add: noteLocation_def)
    then show ?thesis using n unfolding locatedRows_def List.map_filter_def set_append set_map set_filter by force
  next
    case False
    then obtain f where f: "f \<in> set (fileRows db)" "flId f = d" "flVault f = v" using d by (auto simp: vaultFiles_def)
    then obtain l where "fileLocation db f = Some l" using org by (simp add: fileLocation_def)
    then show ?thesis using f unfolding locatedRows_def List.map_filter_def set_append set_map set_filter by force
  qed
  then have "locateDoc db d False \<noteq> None" by (auto simp: locateDoc_def first_row_None)
  then obtain loc where loc: "locateDoc db d False = Some loc" by blast
  have live: "liveDoc db d (dlVault loc) (dlFolder loc) (dlCreatedBy loc) (dlCreatedAt loc)"
    by (rule located_liveDoc(1) [OF loc])
  have "dlVault loc = v"
  proof (cases "d \<in> set (liveNoteIds db v (\<lambda>_. True))")
    case True
    then obtain n where n: "n \<in> set (noteRows db)" "ntId n = d" "ntVault n = v" by (auto simp: liveNoteIds_def)
    show ?thesis using live unfolding liveDoc_def
      using note_key [OF ud n(1)] one_kind_apart [OF o n(1,2)] n by metis
  next
    case False
    then obtain f where f: "f \<in> set (fileRows db)" "flId f = d" "flVault f = v" using d by (auto simp: vaultFiles_def)
    show ?thesis using live unfolding liveDoc_def
      using file_key [OF ud f(1)] one_kind_apart [OF o _ _ f(1)] f by metis
  qed
  then show ?thesis using loc by blast
qed

lemma list_returns:
  assumes t: "sound_tables db"
  shows "\<exists>S. listReadableDocsInVault db userId v = Some S"
proof -
  have us: "unique_shares db" "unique_folders db" "parents_exist db" "same_vault db"
    using t by (simp_all add: sound_tables_def)
  obtain dec where "userDecisions db userId v = Some dec"
    by (rule userDecisions_result [OF us, of userId v])
  then obtain U where "deniedDocsInVault db PUser userId v = Some U"
    by (cases "anyDenyRows db PUser userId") (simp_all add: deniedDocsInVault_def userDeniedDocsInVault_def)
  moreover have "\<exists>G. deniedDocsInVault db POrg o' v = Some G" for o'
    by (simp add: deniedDocsInVault_def Let_def)
  then obtain G where "\<And>o'. deniedDocsInVault db POrg o' v = Some (G o')" by metis
  ultimately show ?thesis
    by (cases "vaultAccess db userId v") (simp_all add: listReadableDocsInVault_def Let_def)
qed

text \<open>C6: The set a vault's queries compute for a user is the set the resolver answers for: on an
  acyclic folder table \<open>listReadableDocsInVault\<close> returns; it holds only live documents of the vault; and
  among the ids that do not name a note and a file at once (ids are unique per table only) it holds exactly
  the vault's live documents on which \<open>effectivePermission\<close> answers more than \<open>none\<close>. For an id that names
  both the two differ, see \<open>shared_id_differs\<close>. It stands on the tables' primary and foreign keys, on
  Everyone rows of a vault naming their own organization, and on snapshots being members'.\<close>

theorem readable_set_is_resolver:
  assumes "sound_tables db" "everyone_own db" "snapshots_of_members db" "userId \<noteq> []"
    and "\<forall>f \<in> set (folders db). \<forall>q. fdParent f = Some q \<longrightarrow> rank q < (rank (fdId f) :: nat)"
  shows "\<exists>S. listReadableDocsInVault db userId v = Some S \<and>
    set S \<subseteq> set (liveNoteIds db v (\<lambda>_. True)) \<union> set (vaultFiles db v (\<lambda>_. True)) \<and>
    (\<forall>d. one_kind db d \<longrightarrow> d \<in> set S \<longleftrightarrow> (\<exists>loc p. locateDoc db d False = Some loc \<and> dlVault loc = v \<and>
       effectivePermission env db userId d None False = Some (p, None) \<and> p \<noteq> PermNone))"
proof -
  have u: "unique_shares db" and uf: "unique_folders db" "named_folders db" and ud: "doc_keys db"
    using assms(1) by (simp_all add: sound_tables_def)
  obtain S where S: "listReadableDocsInVault db userId v = Some S" using list_returns [OF assms(1)] by blast
  have member: "d \<in> set S \<longleftrightarrow> (\<exists>p. effectivePermission env db userId d None False = Some (p, None) \<and> p \<noteq> PermNone)"
    if one: "one_kind db d" and loc: "locateDoc db d False = Some loc" "dlVault loc = v" for d loc
  proof -
    obtain ids where chain: "chain_from db (dlFolder loc) ids" using chain_exists [OF assms(5)] by blast
    then have ids: "ancestorFolderIds db (dlFolder loc) = Some ids" using ancestorFolderIds_iff [OF uf] by simp
    have "docAt db d loc ids" using loc(1) chain by (simp add: docAt_def)
    then have "d \<in> set S \<longleftrightarrow> freshDecision db userId d loc ids \<noteq> PermNone"
      using list_mayRead [OF assms(1-3) one, of loc ids userId] fresh_mayRead [OF u assms(2-4)] S loc(2) by simp
    then show ?thesis using plain_permission [OF loc(1) ids, of env userId] by simp
  qed
  have located: "\<exists>loc. locateDoc db d False = Some loc \<and> dlVault loc = v" if one: "one_kind db d" and d: "d \<in> set S" for d
  proof -
    obtain orgId where "vaultOrg db v = Some orgId"
      using list_sub(2) [OF S d] by (auto simp: vaultAccess_def vaultOrg_def)
    then show ?thesis using live_located [OF ud one _ list_sub(1) [OF S d]] by blast
  qed
  have "d \<in> set S \<longleftrightarrow> (\<exists>loc p. locateDoc db d False = Some loc \<and> dlVault loc = v \<and>
       effectivePermission env db userId d None False = Some (p, None) \<and> p \<noteq> PermNone)" if one: "one_kind db d" for d
  proof (cases "\<exists>loc. locateDoc db d False = Some loc \<and> dlVault loc = v")
    case True
    then obtain loc where loc: "locateDoc db d False = Some loc" "dlVault loc = v" by blast
    show ?thesis unfolding member [OF one loc] using loc by simp
  next
    case False
    then show ?thesis using located [OF one] by metis
  qed
  then show ?thesis using S list_sub(1) [OF S] by auto
qed

definition demo_private :: "share_row list" where
  "demo_private = [share RFile ''n'' POrg ''o'' SDenied, share RVault ''o'' POrg ''o'' SView,
     share RFolder ''f1'' PUser ''bob'' SView]"

lemma demo_sound:
  "sound_tables (demo demo_private)" "everyone_own (demo demo_private)" "snapshots_of_members (demo demo_private)"
proof -
  have "unique_shares (demo demo_private)"
    by (simp add: unique_shares_def demo_private_def share_def share_key_def)
  then show "sound_tables (demo demo_private)"
    using demo_constraints [of demo_private]
    by (simp add: sound_tables_def parents_exist_def doc_keys_def) (simp add: demo_def)
  show "everyone_own (demo demo_private)" by (auto simp: everyone_own_def demo_private_def share_def)
  show "snapshots_of_members (demo demo_private)" by (simp add: snapshots_of_members_def demo_def)
qed

lemma demo_bob_reads:
  "effectivePermission self_hosted (demo demo_private) ''bob'' ''n'' None False = Some (PermView, None)"
proof -
  have u: "unique_shares (demo demo_private)" using demo_sound(1) by (simp add: sound_tables_def)
  have v: "itemVerdict (demo demo_private) ''bob'' (Some ''n'') [''f2'', ''f1''] =
      \<lparr>uvDeny = False, uvGrant = PermView, uvCap = False\<rparr>"
    by (simp add: itemVerdict_def userItemVerdict_def itemOrder_def userRow_def first_row_def demo_private_def share_def)
  have p: "personalVaultLevel (demo demo_private) ''o'' ''bob'' = None"
    by (simp add: personalVaultLevel_def personalLevelOf_def first_row_def personalRow_def demo_private_def share_def)
  have lock: "\<not> orgLocked (demo demo_private) (Some ''n'') [''f2'', ''f1'']"
    by (simp add: orgLocked_def demo_private_def share_def)
  have priv: "isDenied (demo demo_private) POrg ''o'' (Some ''n'') [''f2'', ''f1'']"
    by (simp add: isDenied_org demo_private_def share_def onItem_def)
  have snap: "memberAccessSnapshot (demo demo_private) ''o'' ''bob'' = None"
    by (simp add: memberAccessSnapshot_def first_row_def demo_def)
  have rows: "grantRows (demo demo_private) ''bob'' (Some ''n'') [''f2'', ''f1''] ''o'' False True = {}"
    by (auto simp: grantRows_def grantBase_def demo_private_def share_def)
  have org: "dlOrg demo_loc = ''o''" by (simp add: demo_loc_def)
  have "freshDecision (demo demo_private) ''bob'' ''n'' demo_loc [''f2'', ''f1''] = PermView"
    by (simp add: freshDecision_def freshFacts_def isDenied_user [OF u] v decideDoc_def Let_def askLocked_def
        isLocked_iff [OF u] lock askGrant_def sharePermission_query [OF u] grantNF_def grantOf_def rows askPersonal_def
        askDenied_def org p priv snap del: demo_sel)
  then show ?thesis
    unfolding plain_permission [OF demo_located demo_ancestors] by simp
qed

theorem readable_set_is_resolver_witness:
  "\<exists>S. listReadableDocsInVault (demo demo_private) ''bob'' ''v'' = Some S \<and> ''n'' \<in> set S"
proof -
  have "\<forall>f \<in> set (folders (demo demo_private)). \<forall>q. fdParent f = Some q \<longrightarrow>
      (if q = ''f2'' then 1 else 0 :: nat) < (if fdId f = ''f2'' then 1 else 0)"
    by (simp add: demo_def)
  from readable_set_is_resolver [OF demo_sound _ this, of "''bob''" "''v''" self_hosted]
  obtain S where "listReadableDocsInVault (demo demo_private) ''bob'' ''v'' = Some S"
    "\<forall>d. one_kind (demo demo_private) d \<longrightarrow> d \<in> set S \<longleftrightarrow> (\<exists>loc p. locateDoc (demo demo_private) d False = Some loc \<and> dlVault loc = ''v'' \<and>
       effectivePermission self_hosted (demo demo_private) ''bob'' d None False = Some (p, None) \<and> p \<noteq> PermNone)"
    by blast
  moreover have "dlVault demo_loc = ''v''" by (simp add: demo_loc_def)
  moreover have "one_kind (demo demo_private) ''n''" by (simp add: one_kind_def demo_def)
  ultimately show ?thesis using demo_located [of demo_private] demo_bob_reads by blast
qed

text \<open>Two rows with one id: a note at the root and a file in a folder shared with bob. The resolver reads the
  note's row first and finds no grant; the listing reaches the file's row through its folder.\<close>

definition demo_twice :: database where
  "demo_twice = (demo [share RFolder ''f1'' PUser ''bob'' SView])
     \<lparr>noteRows := [\<lparr>ntId = ''n'', ntVault = ''v'', ntFolder = None, ntCreatedBy = Some ''ann'', ntCreatedAt = 5, ntDeletedAt = None\<rparr>],
      fileRows := [\<lparr>flId = ''n'', flVault = ''v'', flFolder = Some ''f1'', flCreatedBy = Some ''ann'', flCreatedAt = 5\<rparr>]\<rparr>"

lemma shared_id_differs:
  "listReadableDocsInVault demo_twice ''bob'' ''v'' = Some [''n'']"
  "map_option fst (effectivePermission self_hosted demo_twice ''bob'' ''n'' None False) = Some PermNone"
  "doc_keys demo_twice" "\<not> one_kind demo_twice ''n''"
  by code_simp+

text \<open>C7: Who may read a document, in one rule: never someone it is denied to; otherwise who has a
  grant of their own on the document, a folder above it or the vault; and, when the document is not
  private to some, a member through an Everyone grant or as its author in a vault that is not sealed,
  or, for what existed when they joined, by their join mode and the Everyone grants since.\<close>

theorem resolver_refines_rule:
  assumes "sound_tables db" "everyone_own db" "snapshots_of_members db" "userId \<noteq> []"
    and "locateDoc db d False = Some loc" "effectivePermission env db userId d None False = Some (p, c)"
  shows "\<exists>ids. ancestorFolderIds db (dlFolder loc) = Some ids \<and> (p \<noteq> PermNone \<longleftrightarrow> mayRead db userId d loc ids)"
proof -
  obtain ids where ids: "ancestorFolderIds db (dlFolder loc) = Some ids"
    "p \<noteq> PermNone \<longleftrightarrow> freshDecision db userId d loc ids \<noteq> PermNone"
    using permission_freshDecision [OF assms(1,5,6)] by blast
  have u: "unique_shares db" using assms(1) by (simp add: sound_tables_def)
  show ?thesis using ids fresh_mayRead [OF u assms(2-4)] by blast
qed

theorem resolver_refines_rule_witness:
  "mayRead (demo demo_private) ''bob'' ''n'' demo_loc [''f2'', ''f1'']"
  using resolver_refines_rule [OF demo_sound _ demo_located demo_bob_reads] by (simp add: demo_ancestors)

end
