(* ===== verification/Reg_Tree.thy ===== *)
theory Reg_Tree
  imports Database "HOL-Library.List_Lexorder" "HOL-Library.Char_ord"
begin

text \<open>
  The folder and note tree of a vault (\<open>server/src/registry/tree-ops.ts\<close>): paths, the lookup of a
  folder by path, the resolution of a parent from a path, moves, renames and the delete cascade,
  over the tables \<open>folders\<close>, \<open>notes\<close>, \<open>files\<close>, \<open>blobs\<close>, the two tombstone tables and the pinned
  items. A thrown \<open>TreeOpError\<close> is the left of a sum; a transaction that throws leaves the tables
  as they were. \<open>vault_path_key\<close>, \<open>lower\<close> and Unicode normalisation are the environment's.
\<close>

section \<open>Tables\<close>

record tree_folder =
  tfId :: string
  tfVault :: string
  tfParent :: "string option"
  tfName :: string
  tfPath :: string
  tfColor :: "string option"
  tfSort :: int
  tfCreatedBy :: "string option"
  tfCreatedAt :: int

record tree_note =
  tnId :: string
  tnVault :: string
  tnFolder :: "string option"
  tnTitle :: "string option"
  tnPath :: string
  tnColor :: "string option"
  tnCreatedBy :: "string option"
  tnCreatedAt :: int
  tnUpdatedAt :: int
  tnDeletedAt :: "int option"
  tnDeletedBy :: "string option"
  tnPurgeAfter :: "int option"

record tree_file =
  tlId :: string
  tlVault :: string
  tlFolder :: "string option"
  tlPath :: string
  tlCreatedBy :: "string option"

record tree_blob =
  tbVault :: string
  tbDoc :: "string option"
  tbPath :: "string option"
  tbUpdatedAt :: int

record tree_tomb =
  ttId :: string
  ttVault :: string
  ttPath :: string

record tree_pin =
  tpKind :: "string option"
  tpPath :: "string option"

record tree =
  trVaults :: "vault_row list"
  trFolders :: "tree_folder list"
  trNotes :: "tree_note list"
  trFiles :: "tree_file list"
  trBlobs :: "tree_blob list"
  trFolderTombs :: "tree_tomb list"
  trFileTombs :: "tree_tomb list"
  trPins :: "(string \<times> tree_pin list option) list"
  trNow :: int

record tree_env =
  teNfc :: "string \<Rightarrow> string"
  teKey :: "string \<Rightarrow> string"
  teLower :: "string \<Rightarrow> string"
  teWide :: "char \<Rightarrow> bool"
  teRetention :: int

section \<open>Paths\<close>

definition basename :: "string \<Rightarrow> string" where
  "basename path =
     (let i = last_index_of CHR ''/'' path in if i = -1 then path else drop (nat (i + 1)) path)"

definition dirname :: "string \<Rightarrow> string" where
  "dirname path =
     (let i = last_index_of CHR ''/'' path in if i = -1 then [] else take (nat i) path)"

definition treePathKey :: "tree_env \<Rightarrow> string \<Rightarrow> string" where
  "treePathKey env path = to_lower_case (teNfc env path)"

definition treeSamePath :: "tree_env \<Rightarrow> string \<Rightarrow> string \<Rightarrow> bool" where
  "treeSamePath env a b \<longleftrightarrow> a = b \<or> treePathKey env a = treePathKey env b"

definition badSegment :: "string \<Rightarrow> bool" where
  "badSegment seg \<longleftrightarrow> seg = [] \<or> seg = ''.'' \<or> seg = ''..''"

definition badRelPath :: "string \<Rightarrow> bool" where
  "badRelPath path \<longleftrightarrow>
     length path = 0 \<or> starts_with ''/'' path \<or> starts_with ''/'' (rev path) \<or>
     list_ex badSegment (split_on CHR ''/'' path)"

definition joinPath :: "string \<Rightarrow> string \<Rightarrow> string" where
  "joinPath dir name = (if dir = [] then name else dir @ ''/'' @ name)"

text \<open>\<open>LIKE ... ESCAPE '\'\<close>: the pattern's wildcards and its escape.\<close>

definition likeEscape :: "string \<Rightarrow> string" where
  "likeEscape s = concat (map (\<lambda>ch. if ch = CHR 0x5C \<or> ch = CHR ''%'' \<or> ch = CHR ''_'' then [CHR 0x5C, ch] else [ch]) s)"

fun sqlLike :: "string \<Rightarrow> string \<Rightarrow> bool" where
  "sqlLike [] s = (s = [])"
| "sqlLike (c # p) s =
     (if c = CHR 0x5C then
        (case p of [] \<Rightarrow> False | e # p' \<Rightarrow> (case s of [] \<Rightarrow> False | x # xs \<Rightarrow> x = e \<and> sqlLike p' xs))
      else if c = CHR ''%'' then sqlLike p s \<or> (case s of [] \<Rightarrow> False | x # xs \<Rightarrow> sqlLike (c # p) xs)
      else if c = CHR ''_'' then (case s of [] \<Rightarrow> False | x # xs \<Rightarrow> sqlLike p xs)
      else (case s of [] \<Rightarrow> False | x # xs \<Rightarrow> x = c \<and> sqlLike p xs))"

definition likeUnder :: "string \<Rightarrow> string \<Rightarrow> bool" where
  "likeUnder dir path = sqlLike (likeEscape dir @ ''/%'') path"

section \<open>Lookups\<close>

datatype tree_error =
    InvalidPath string
  | UnknownFolder
  | FolderInOtherVault
  | NotInsideFolder string string
  | NoFolderAt string
  | UnknownDestination
  | DestinationInOtherVault
  | MoveInsideItself
  | FolderExistsThere
  | UnknownNote
  | NoteExistsThere

record folder_info =
  fiId :: string
  fiVault :: string
  fiPath :: string
  fiParent :: "string option"

definition folderInfo :: "tree_folder \<Rightarrow> folder_info" where
  "folderInfo f = \<lparr>fiId = tfId f, fiVault = tfVault f, fiPath = tfPath f, fiParent = tfParent f\<rparr>"

text \<open>\<open>ORDER BY created_at ASC, id ASC LIMIT 1\<close>.\<close>

definition oldestFolder :: "tree_folder list \<Rightarrow> tree_folder option" where
  "oldestFolder rows = first_row (\<lambda>f. list_all (\<lambda>g.
     tfCreatedAt f < tfCreatedAt g \<or> (tfCreatedAt f = tfCreatedAt g \<and> tfId f \<le> tfId g)) rows) rows"

definition findFolderByPath :: "tree_env \<Rightarrow> tree \<Rightarrow> string \<Rightarrow> string \<Rightarrow> folder_info option" where
  "findFolderByPath env t vaultId path =
     map_option folderInfo
       (oldestFolder (filter (\<lambda>f. tfVault f = vaultId \<and> teKey env (tfPath f) = teKey env path) (trFolders t)))"

definition findFolder :: "tree \<Rightarrow> string \<Rightarrow> folder_info option" where
  "findFolder t folderId = map_option folderInfo (first_row (\<lambda>f. tfId f = folderId) (trFolders t))"

record location =
  lcFolder :: "string option"
  lcPath :: string

text \<open>A \<open>FolderByPath\<close>: the lookup of a folder by path, with the memo it may keep.\<close>

type_synonym 's folder_lookup = "'s \<Rightarrow> string \<Rightarrow> string \<Rightarrow> folder_info option \<times> 's"

definition plainLookup :: "tree_env \<Rightarrow> tree \<Rightarrow> unit folder_lookup" where
  "plainLookup env t = (\<lambda>s vaultId path. (findFolderByPath env t vaultId path, s))"

definition resolveParentFolder :: "tree_env \<Rightarrow> tree \<Rightarrow> 's folder_lookup \<Rightarrow> 's \<Rightarrow> string \<Rightarrow> string
    \<Rightarrow> string option \<Rightarrow> (tree_error + location) \<times> 's" where
  "resolveParentFolder env t byPathLookup s vaultId relPath folderId =
     (if badRelPath relPath then (Inl (InvalidPath relPath), s)
      else
        (let dir = dirname relPath
         in case folderId of
              Some i \<Rightarrow>
                (case findFolder t i of
                   None \<Rightarrow> (Inl UnknownFolder, s)
                 | Some f \<Rightarrow>
                     if fiVault f \<noteq> vaultId then (Inl FolderInOtherVault, s)
                     else if \<not> treeSamePath env (fiPath f) dir then (Inl (NotInsideFolder relPath (fiPath f)), s)
                     else (Inr \<lparr>lcFolder = Some (fiId f), lcPath = joinPath (fiPath f) (basename relPath)\<rparr>, s))
            | None \<Rightarrow>
                if dir = [] then (Inr \<lparr>lcFolder = None, lcPath = relPath\<rparr>, s)
                else
                  (case byPathLookup s vaultId dir of
                     (None, s') \<Rightarrow> (Inl (NoFolderAt dir), s')
                   | (Some f, s') \<Rightarrow>
                       (Inr \<lparr>lcFolder = Some (fiId f), lcPath = joinPath (fiPath f) (basename relPath)\<rparr>, s'))))"

definition resolveFolderParent :: "tree_env \<Rightarrow> tree \<Rightarrow> 's folder_lookup \<Rightarrow> 's \<Rightarrow> string \<Rightarrow> string
    \<Rightarrow> string option \<Rightarrow> (tree_error + location) \<times> 's" where
  "resolveFolderParent env t byPathLookup s vaultId path parentId =
     (if badRelPath path then (Inl (InvalidPath path), s)
      else
        (let dir = dirname path
         in case parentId of
              Some i \<Rightarrow>
                (case findFolder t i of
                   None \<Rightarrow> (Inl UnknownFolder, s)
                 | Some p \<Rightarrow>
                     if fiVault p \<noteq> vaultId then (Inl FolderInOtherVault, s)
                     else if \<not> treeSamePath env (fiPath p) dir then (Inl (NotInsideFolder path (fiPath p)), s)
                     else (Inr \<lparr>lcFolder = Some (fiId p), lcPath = joinPath (fiPath p) (basename path)\<rparr>, s))
            | None \<Rightarrow>
                if dir = [] then (Inr \<lparr>lcFolder = None, lcPath = path\<rparr>, s)
                else
                  (case byPathLookup s vaultId dir of
                     (None, s') \<Rightarrow> (Inl (NoFolderAt dir), s')
                   | (Some p, s') \<Rightarrow>
                       (Inr \<lparr>lcFolder = Some (fiId p), lcPath = joinPath (fiPath p) (basename path)\<rparr>, s'))))"

section \<open>Moving a folder\<close>

text \<open>\<open>length\<close> of a JavaScript string counts UTF-16 units, two for a character outside the basic
  plane; \<open>substring\<close> and \<open>length\<close> of the database count characters.\<close>

definition jsLength :: "tree_env \<Rightarrow> string \<Rightarrow> nat" where
  "jsLength env s = length s + length (filter (teWide env) s)"

definition substringFrom :: "nat \<Rightarrow> string \<Rightarrow> string" where
  "substringFrom n path = drop (n - 1) path"

definition rewritePin :: "tree_env \<Rightarrow> string \<Rightarrow> string \<Rightarrow> tree_pin \<Rightarrow> tree_pin" where
  "rewritePin env oldPath newPath pin =
     (case (tpKind pin, tpPath pin) of
        (Some k, Some p) \<Rightarrow>
          if k = ''folder'' \<and>
             (teLower env p = teLower env oldPath \<or>
              take (length oldPath + 1) (teLower env p) = teLower env oldPath @ ''/'')
          then pin\<lparr>tpPath := Some (newPath @ substringFrom (length oldPath + 1) p)\<rparr> else pin
      | _ \<Rightarrow> pin)"

definition rewriteDescendantPaths :: "tree_env \<Rightarrow> tree \<Rightarrow> string \<Rightarrow> string \<Rightarrow> string \<Rightarrow> tree" where
  "rewriteDescendantPaths env t vaultId oldPath newPath =
     (let from = jsLength env oldPath + 1;
          rewritten = (\<lambda>path. newPath @ substringFrom from path)
      in t\<lparr>trFolders := map (\<lambda>f. if tfVault f = vaultId \<and> likeUnder oldPath (tfPath f)
           then f\<lparr>tfPath := rewritten (tfPath f)\<rparr> else f) (trFolders t),
       trNotes := map (\<lambda>n. if tnVault n = vaultId \<and> likeUnder oldPath (tnPath n)
           then n\<lparr>tnPath := rewritten (tnPath n), tnUpdatedAt := trNow t\<rparr> else n) (trNotes t),
       trFiles := map (\<lambda>f. if tlVault f = vaultId \<and> likeUnder oldPath (tlPath f)
           then f\<lparr>tlPath := rewritten (tlPath f)\<rparr> else f) (trFiles t),
       trBlobs := map (\<lambda>b. case tbPath b of
             None \<Rightarrow> b
           | Some p \<Rightarrow> if tbVault b = vaultId \<and> tbDoc b \<noteq> None \<and> likeUnder oldPath p
               then b\<lparr>tbPath := Some (rewritten p), tbUpdatedAt := trNow t\<rparr> else b) (trBlobs t),
       trPins := map (\<lambda>(org, pins).
           if map_option vtOrg (first_row (\<lambda>v. vtId v = vaultId) (trVaults t)) = Some org
           then (org, map_option (map (rewritePin env oldPath newPath)) pins) else (org, pins)) (trPins t)\<rparr>)"

text \<open>\<open>WITH RECURSIVE ... UNION\<close> over \<open>parent_id\<close>: it stops when a round adds nothing.\<close>

definition childRound :: "tree \<Rightarrow> string list \<Rightarrow> string list \<Rightarrow> string list" where
  "childRound t acc work =
     remdups (map tfId (filter (\<lambda>f. tfParent f \<in> Some ` set work \<and> tfId f \<notin> set acc) (trFolders t)))"

lemma childRound_measure:
  assumes "childRound t acc work \<noteq> []"
  shows "card (tfId ` set (trFolders t) - set (acc @ childRound t acc work)) < card (tfId ` set (trFolders t) - set acc)"
proof -
  obtain i where "i \<in> set (childRound t acc work)" using assms by (meson last_in_set)
  moreover then have "i \<in> tfId ` set (trFolders t) - set acc" by (auto simp: childRound_def)
  ultimately show ?thesis by (intro psubset_card_mono) auto
qed

function childLoop :: "tree \<Rightarrow> string list \<Rightarrow> string list \<Rightarrow> string list" where
  "childLoop t acc work =
     (let more = childRound t acc work
      in if more = [] then acc else childLoop t (acc @ more) more)"
  by pat_completeness auto

termination childLoop
  by (relation "measure (\<lambda>(t, acc, work). card (tfId ` set (trFolders t) - set acc))")
     (simp_all add: childRound_measure del: set_append)

declare childLoop.simps [simp del]

definition wouldCycle :: "tree \<Rightarrow> string \<Rightarrow> string \<Rightarrow> bool" where
  "wouldCycle t folderId candidateParentId \<longleftrightarrow>
     candidateParentId = folderId \<or>
     (let start = childRound t [] [folderId] in candidateParentId \<in> set (childLoop t start start))"

record move_folder_input =
  mfPath :: "string option"
  mfName :: "string option"
  mfParent :: "string option option"

definition planFolderMove :: "tree_env \<Rightarrow> tree \<Rightarrow> folder_info \<Rightarrow> move_folder_input
    \<Rightarrow> tree_error + (string \<times> string option)" where
  "planFolderMove env t folder input =
     (case mfPath input of
        Some path \<Rightarrow>
          (case fst (resolveFolderParent env t (plainLookup env t) () (fiVault folder) path
                  (case mfParent input of None \<Rightarrow> None | Some p \<Rightarrow> p)) of
             Inl e \<Rightarrow> Inl e
           | Inr resolved \<Rightarrow> Inr (lcPath resolved, lcFolder resolved))
      | None \<Rightarrow>
          (case mfParent input of
             Some parentId \<Rightarrow>
               (let name = (case mfName input of Some n \<Rightarrow> n | None \<Rightarrow> basename (fiPath folder))
                in case parentId of
                     None \<Rightarrow> Inr (name, None)
                   | Some i \<Rightarrow>
                       (case findFolder t i of
                          None \<Rightarrow> Inl UnknownDestination
                        | Some parent \<Rightarrow>
                            if fiVault parent \<noteq> fiVault folder then Inl DestinationInOtherVault
                            else Inr (fiPath parent @ ''/'' @ name, Some (fiId parent))))
           | None \<Rightarrow>
               (case mfName input of
                  Some n \<Rightarrow>
                    if n \<noteq> basename (fiPath folder) then
                      (let dir = dirname (fiPath folder)
                       in Inr (if dir \<noteq> [] then dir @ ''/'' @ n else n, fiParent folder))
                    else Inr (fiPath folder, fiParent folder)
                | None \<Rightarrow> Inr (fiPath folder, fiParent folder))))"

record moved_folder =
  mdId :: string
  mdVault :: string
  mdName :: string
  mdPath :: string

definition moveFolder :: "tree_env \<Rightarrow> tree \<Rightarrow> string \<Rightarrow> move_folder_input \<Rightarrow> tree_error + (tree \<times> moved_folder)" where
  "moveFolder env t folderId input =
     (case findFolder t folderId of
        None \<Rightarrow> Inl UnknownFolder
      | Some folder \<Rightarrow>
          (let oldPath = fiPath folder
           in case planFolderMove env t folder input of
                Inl e \<Rightarrow> Inl e
              | Inr (newPath, newParentId) \<Rightarrow>
                  (let newName = (case mfName input of Some n \<Rightarrow> n | None \<Rightarrow> basename newPath)
                   in if newParentId \<noteq> None \<and> newParentId \<noteq> fiParent folder \<and> wouldCycle t folderId (the newParentId)
                      then Inl MoveInsideItself
                      else if \<not> treeSamePath env newPath oldPath \<and>
                        list_ex (\<lambda>f. tfVault f = fiVault folder \<and> teKey env (tfPath f) = teKey env newPath \<and>
                          tfId f \<noteq> folderId) (trFolders t)
                      then Inl FolderExistsThere
                      else
                        (let t1 = t\<lparr>trFolders := map (\<lambda>f. if tfId f = folderId
                               then f\<lparr>tfPath := newPath, tfName := newName, tfParent := newParentId\<rparr> else f) (trFolders t)\<rparr>;
                             t2 = (if newPath \<noteq> oldPath
                                   then rewriteDescendantPaths env t1 (fiVault folder) oldPath newPath else t1)
                         in Inr (t2, \<lparr>mdId = folderId, mdVault = fiVault folder, mdName = newName, mdPath = newPath\<rparr>)))))"

section \<open>Moving a note\<close>

definition findNote :: "tree \<Rightarrow> string \<Rightarrow> tree_note option" where
  "findNote t docId = first_row (\<lambda>n. tnId n = docId \<and> tnDeletedAt n = None) (trNotes t)"

record move_note_input =
  mnPath :: "string option"
  mnTitle :: "string option option"
  mnFolder :: "string option option"

definition planNoteMove :: "tree_env \<Rightarrow> tree \<Rightarrow> tree_note \<Rightarrow> move_note_input \<Rightarrow> tree_error + location" where
  "planNoteMove env t note input =
     (case mnPath input of
        Some path \<Rightarrow>
          fst (resolveParentFolder env t (plainLookup env t) () (tnVault note) path
            (case mnFolder input of None \<Rightarrow> None | Some f \<Rightarrow> f))
      | None \<Rightarrow>
          (case mnFolder input of
             Some folderId \<Rightarrow>
               (let name = basename (tnPath note)
                in case folderId of
                     None \<Rightarrow> Inr \<lparr>lcFolder = None, lcPath = name\<rparr>
                   | Some i \<Rightarrow>
                       (case findFolder t i of
                          None \<Rightarrow> Inl UnknownDestination
                        | Some parent \<Rightarrow>
                            if fiVault parent \<noteq> tnVault note then Inl DestinationInOtherVault
                            else Inr \<lparr>lcFolder = Some (fiId parent), lcPath = fiPath parent @ ''/'' @ name\<rparr>))
           | None \<Rightarrow> Inr \<lparr>lcFolder = tnFolder note, lcPath = tnPath note\<rparr>))"

definition moveNote :: "tree_env \<Rightarrow> tree \<Rightarrow> string \<Rightarrow> move_note_input \<Rightarrow> tree_error + (tree \<times> tree_note)" where
  "moveNote env t docId input =
     (case findNote t docId of
        None \<Rightarrow> Inl UnknownNote
      | Some note \<Rightarrow>
          (let title = (case mnTitle input of None \<Rightarrow> tnTitle note | Some x \<Rightarrow> x)
           in case planNoteMove env t note input of
                Inl e \<Rightarrow> Inl e
              | Inr loc \<Rightarrow>
                  (if \<not> treeSamePath env (lcPath loc) (tnPath note) \<and>
                      list_ex (\<lambda>n. tnVault n = tnVault note \<and> teKey env (tnPath n) = teKey env (lcPath loc) \<and>
                        tnDeletedAt n = None \<and> tnId n \<noteq> docId) (trNotes t)
                   then Inl NoteExistsThere
                   else
                     (let moved = (\<lambda>n. n\<lparr>tnPath := lcPath loc, tnTitle := title, tnFolder := lcFolder loc,
                            tnUpdatedAt := trNow t\<rparr>)
                      in Inr (t\<lparr>trNotes := map (\<lambda>n. if tnId n = docId then moved n else n) (trNotes t)\<rparr>,
                              moved note)))))"

section \<open>Deleting a folder\<close>

definition folderIsEmpty :: "tree \<Rightarrow> string \<Rightarrow> bool" where
  "folderIsEmpty t folderId \<longleftrightarrow>
     length (filter (\<lambda>n. tnFolder n = Some folderId \<and> tnDeletedAt n = None) (trNotes t)) +
     length (filter (\<lambda>f. tfParent f = Some folderId) (trFolders t)) +
     length (filter (\<lambda>f. tlFolder f = Some folderId) (trFiles t)) = 0"

definition folderSubtree :: "tree \<Rightarrow> string \<Rightarrow> string list" where
  "folderSubtree t folderId =
     (let start = remdups (map tfId (filter (\<lambda>f. tfId f = folderId) (trFolders t))) in childLoop t start start)"

definition inIds :: "string list \<Rightarrow> string option \<Rightarrow> bool" where
  "inIds ids x \<longleftrightarrow> (case x of None \<Rightarrow> False | Some i \<Rightarrow> i \<in> set ids)"

text \<open>\<open>INSERT ... ON CONFLICT (id) DO NOTHING\<close>.\<close>

definition addTombs :: "tree_tomb list \<Rightarrow> tree_tomb list \<Rightarrow> tree_tomb list" where
  "addTombs new tombs = fold (\<lambda>x ts. if list_ex (\<lambda>y. ttId y = ttId x) ts then ts else ts @ [x]) new tombs"

record deleted_folder =
  dfVault :: string
  dfPath :: string
  dfNotes :: "string list"
  dfFiles :: "string list"

definition deleteFolderCascade :: "tree_env \<Rightarrow> tree \<Rightarrow> string \<Rightarrow> string option
    \<Rightarrow> tree_error + (tree \<times> deleted_folder)" where
  "deleteFolderCascade env t folderId deletedBy =
     (case findFolder t folderId of
        None \<Rightarrow> Inl UnknownFolder
      | Some folder \<Rightarrow>
          (let subtree = folderSubtree t folderId;
               hit = (\<lambda>vault fld path. vault = fiVault folder \<and>
                 (inIds subtree fld \<or> path = fiPath folder \<or> likeUnder (fiPath folder) path));
               noteHit = (\<lambda>n. tnDeletedAt n = None \<and> hit (tnVault n) (tnFolder n) (tnPath n));
               cascaded = map tnId (filter noteHit (trNotes t));
               victims = filter (\<lambda>f. hit (tlVault f) (tlFolder f) (tlPath f)) (trFiles t);
               deletedFileIds = map tlId victims;
               detach = (\<lambda>x. if inIds subtree x then None else x)
           in Inr (t\<lparr>
                trNotes := map (\<lambda>n. (if noteHit n
                    then n\<lparr>tnDeletedAt := Some (trNow t), tnDeletedBy := deletedBy,
                           tnPurgeAfter := Some (trNow t + teRetention env)\<rparr> else n)
                    \<lparr>tnFolder := detach (tnFolder n)\<rparr>) (trNotes t),
                trFolderTombs := addTombs (map (\<lambda>f. \<lparr>ttId = tfId f, ttVault = tfVault f, ttPath = tfPath f\<rparr>)
                    (filter (\<lambda>f. tfId f \<in> set subtree) (trFolders t))) (trFolderTombs t),
                trFileTombs := addTombs (map (\<lambda>f. \<lparr>ttId = tlId f, ttVault = tlVault f, ttPath = tlPath f\<rparr>)
                    (filter (\<lambda>f. tlId f \<in> set deletedFileIds) (trFiles t))) (trFileTombs t),
                trBlobs := filter (\<lambda>b. \<not> (inIds deletedFileIds (tbDoc b) \<and> tbVault b = fiVault folder)) (trBlobs t),
                trFiles := map (\<lambda>f. f\<lparr>tlFolder := detach (tlFolder f)\<rparr>)
                    (filter (\<lambda>f. \<not> (tlId f \<in> set deletedFileIds \<and> tlVault f = fiVault folder)) (trFiles t)),
                trFolders := filter (\<lambda>f. tfId f \<notin> set subtree) (trFolders t)\<rparr>,
              \<lparr>dfVault = fiVault folder, dfPath = fiPath folder, dfNotes = cascaded, dfFiles = deletedFileIds\<rparr>)))"

definition tombstoneFile :: "tree \<Rightarrow> string \<Rightarrow> tree" where
  "tombstoneFile t fileId =
     t\<lparr>trFileTombs := addTombs (map (\<lambda>f. \<lparr>ttId = tlId f, ttVault = tlVault f, ttPath = tlPath f\<rparr>)
       (filter (\<lambda>f. tlId f = fileId) (trFiles t))) (trFileTombs t)\<rparr>"

end
