(* ===== verification/Reg_Path.thy ===== *)
theory Reg_Path
  imports Reg_Tree
begin

text \<open>
  Paths of the tree: the split into directory and name, validity by segments, what the
  escaped \<open>LIKE\<close> prefix matches, and keys that work segment by segment.
\<close>

section \<open>Directory and name\<close>

lemma last_slash [simp]: "CHR ''/'' \<notin> set b \<Longrightarrow> last_index_of CHR ''/'' (d @ CHR ''/'' # b) = int (length d)"
proof -
  assume "CHR ''/'' \<notin> set b"
  then have "takeWhile (\<lambda>x. x \<noteq> CHR ''/'') (rev b @ CHR ''/'' # rev d) = rev b"
    by (subst takeWhile_append2) auto
  then show ?thesis by (simp add: last_index_of_def)
qed

lemma no_slash [simp]: "CHR ''/'' \<notin> set p \<Longrightarrow> last_index_of CHR ''/'' p = -1"
  by (simp add: last_index_of_def)

lemma dirname_join [simp]: "CHR ''/'' \<notin> set b \<Longrightarrow> dirname (d @ CHR ''/'' # b) = d"
  and basename_join [simp]: "CHR ''/'' \<notin> set b \<Longrightarrow> basename (d @ CHR ''/'' # b) = b"
  by (simp_all add: dirname_def basename_def nat_add_distrib)

lemma dirname_flat [simp]: "CHR ''/'' \<notin> set p \<Longrightarrow> dirname p = []"
  and basename_flat [simp]: "CHR ''/'' \<notin> set p \<Longrightarrow> basename p = p"
  by (simp_all add: dirname_def basename_def)

lemma path_cases:
  obtains (flat) "CHR ''/'' \<notin> set p" | (nested) d b where "p = d @ CHR ''/'' # b" "CHR ''/'' \<notin> set b"
  by (metis split_list_last)

lemma basename_no_slash [simp]: "CHR ''/'' \<notin> set (basename p)"
  by (cases p rule: path_cases) simp_all

section \<open>Valid paths\<close>

definition okName :: "string \<Rightarrow> bool" where
  "okName s \<longleftrightarrow> \<not> badSegment s \<and> CHR ''/'' \<notin> set s"

definition goodPath :: "string \<Rightarrow> bool" where
  "goodPath p \<longleftrightarrow> (\<forall>s \<in> set (split_on CHR ''/'' p). \<not> badSegment s)"

lemma split_on_flat: "c \<notin> set p \<Longrightarrow> split_on c p = [p]"
  by (induction p) auto

lemma split_on_join: "split_on c (d @ c # b) = split_on c d @ split_on c b"
  by (induction d) (auto split: list.splits)

lemma split_on_rev_Nil: "[] \<in> set (split_on c (c # p))" "[] \<in> set (split_on c (p @ [c]))"
  by (simp_all add: split_on_join [of c p "[]"])

lemma badRelPath_iff: "badRelPath p \<longleftrightarrow> \<not> goodPath p"
proof -
  have "starts_with ''/'' p \<Longrightarrow> [] \<in> set (split_on CHR ''/'' p)"
    by (cases p) (auto simp: starts_with_def)
  moreover have "starts_with ''/'' (rev p) \<Longrightarrow> [] \<in> set (split_on CHR ''/'' p)"
    by (cases p rule: rev_cases) (auto simp: starts_with_def split_on_join [of _ _ "[]", simplified])
  moreover have "length p = 0 \<Longrightarrow> [] \<in> set (split_on CHR ''/'' p)" by simp
  moreover have "badSegment []" by (simp add: badSegment_def)
  ultimately show ?thesis unfolding badRelPath_def goodPath_def list_ex_iff by blast
qed

lemma good_join [simp]: "goodPath (d @ CHR ''/'' # b) \<longleftrightarrow> goodPath d \<and> goodPath b"
  by (auto simp: goodPath_def split_on_join)

lemma good_flat: "CHR ''/'' \<notin> set p \<Longrightarrow> goodPath p \<longleftrightarrow> okName p"
  by (simp add: goodPath_def split_on_flat okName_def)

lemma okName_no_slash [dest]: "okName s \<Longrightarrow> CHR ''/'' \<notin> set s"
  by (simp add: okName_def)

lemma good_okName: "okName s \<Longrightarrow> goodPath s"
  by (simp add: good_flat okName_no_slash)

lemma good_nonempty: "goodPath p \<Longrightarrow> p \<noteq> []"
  by (rule notI) (simp add: goodPath_def badSegment_def)

lemma not_good_Nil [simp]: "\<not> goodPath []"
  using good_nonempty by blast

lemma good_basename: "goodPath p \<Longrightarrow> okName (basename p)"
  by (cases p rule: path_cases) (auto simp: good_flat)

lemma good_dirname: "goodPath p \<Longrightarrow> dirname p \<noteq> [] \<Longrightarrow> goodPath (dirname p)"
  by (cases p rule: path_cases) auto

lemma good_split:
  assumes "goodPath p"
  shows "p = joinPath (dirname p) (basename p)"
proof (cases p rule: path_cases)
  case (nested d b)
  then have "d \<noteq> []" using assms good_nonempty by auto
  then show ?thesis using nested by (simp add: joinPath_def)
qed (simp add: joinPath_def)

lemma dirname_joinPath: "CHR ''/'' \<notin> set b \<Longrightarrow> dirname (joinPath d b) = d"
  by (simp add: joinPath_def)

section \<open>Under a directory\<close>

definition under :: "string \<Rightarrow> string \<Rightarrow> bool" where
  "under d p \<longleftrightarrow> (\<exists>r. p = d @ CHR ''/'' # r)"

lemma under_join [simp]: "under d (d @ CHR ''/'' # r)"
  by (auto simp: under_def)

lemma sqlLike_any: "sqlLike ''%'' s"
  by (induction s) simp_all

lemma sqlLike_escaped: "sqlLike (likeEscape d @ q) p \<longleftrightarrow> (\<exists>r. p = d @ r \<and> sqlLike q r)"
proof (induction d arbitrary: p)
  case Nil
  then show ?case by (simp add: likeEscape_def)
next
  case (Cons c d)
  have "sqlLike (likeEscape (c # d) @ q) p \<longleftrightarrow> (case p of [] \<Rightarrow> False | x # xs \<Rightarrow> x = c \<and> sqlLike (likeEscape d @ q) xs)"
    by (simp add: likeEscape_def split: list.split)
  then show ?case by (cases p) (auto simp: Cons.IH)
qed

lemma likeUnder_iff: "likeUnder d p \<longleftrightarrow> under d p"
proof -
  have "sqlLike ''/%'' r \<longleftrightarrow> (\<exists>s. r = CHR ''/'' # s)" for r
    using sqlLike_any by (cases r) auto
  then show ?thesis by (auto simp: likeUnder_def sqlLike_escaped under_def)
qed

lemma under_longer: "under d p \<Longrightarrow> length d < length p"
  by (auto simp: under_def)

lemma under_irrefl [simp]: "\<not> under d d"
  using under_longer by blast

lemma under_trans: "under a b \<Longrightarrow> under b c \<Longrightarrow> under a c"
  by (auto simp: under_def)

lemma under_dirname:
  assumes "CHR ''/'' \<notin> set b"
  shows "under d (e @ CHR ''/'' # b) \<longleftrightarrow> d = e \<or> under d e"
proof
  assume "under d (e @ CHR ''/'' # b)"
  then obtain r where r: "e @ CHR ''/'' # b = d @ CHR ''/'' # r" by (auto simp: under_def)
  then consider us where "e = d @ us" "us @ CHR ''/'' # b = CHR ''/'' # r"
    | us where "e @ us = d" "CHR ''/'' # b = us @ CHR ''/'' # r"
    by (auto simp: append_eq_append_conv2)
  then show "d = e \<or> under d e"
  proof cases
    case 1
    then show ?thesis by (cases us) (auto simp: under_def)
  next
    case 2
    then show ?thesis using assms by (cases us) auto
  qed
qed (auto simp: under_def)

lemma under_flat: "CHR ''/'' \<notin> set p \<Longrightarrow> \<not> under d p"
  by (auto simp: under_def)

text \<open>The rewrite as it is meant: the old prefix replaced by the new.\<close>

definition moveTo :: "string \<Rightarrow> string \<Rightarrow> string \<Rightarrow> string" where
  "moveTo oldPath newPath path = newPath @ drop (length oldPath) path"

definition basic_plane :: "tree_env \<Rightarrow> string \<Rightarrow> bool" where
  "basic_plane env s \<longleftrightarrow> list_all (\<lambda>c. \<not> teWide env c) s"

lemma rewritten_prefix [simp]:
  "basic_plane env p \<Longrightarrow> q @ substringFrom (Suc (jsLength env p)) r = moveTo p q r"
  by (simp add: basic_plane_def jsLength_def substringFrom_def moveTo_def list_all_iff filter_False)

lemma moveTo_under: "moveTo d e (d @ CHR ''/'' # r) = e @ CHR ''/'' # r"
  by (simp add: moveTo_def)

section \<open>Keys by segment\<close>

text \<open>What is relied on of Unicode normalisation and of \<open>lower\<close>: neither touches a slash, so the key
  of a path is the keys of its segments; neither empties a name; and the database's key and the
  program's agree.\<close>

definition segmental :: "(string \<Rightarrow> string) \<Rightarrow> bool" where
  "segmental K \<longleftrightarrow>
     (\<forall>a b. K (a @ CHR ''/'' # b) = K a @ CHR ''/'' # K b) \<and>
     (\<forall>a. CHR ''/'' \<notin> set a \<longrightarrow> CHR ''/'' \<notin> set (K a))"

definition keys_agree :: "tree_env \<Rightarrow> bool" where
  "keys_agree env \<longleftrightarrow> segmental (teKey env) \<and> (\<forall>p. teKey env p = teKey env [] \<longrightarrow> p = []) \<and>
     (\<forall>a b. teKey env a = teKey env b \<longleftrightarrow> treePathKey env a = treePathKey env b)"

lemma segmental_join: "segmental K \<Longrightarrow> K (a @ CHR ''/'' # b) = K a @ CHR ''/'' # K b"
  by (simp add: segmental_def)

lemma segmental_flat: "segmental K \<Longrightarrow> CHR ''/'' \<notin> set a \<Longrightarrow> CHR ''/'' \<notin> set (K a)"
  by (simp add: segmental_def)

lemma same_iff: "keys_agree env \<Longrightarrow> treeSamePath env a b \<longleftrightarrow> teKey env a = teKey env b"
  by (auto simp: keys_agree_def treeSamePath_def)

lemma key_slashes:
  assumes "segmental K"
  shows "count_list (K p) CHR ''/'' = count_list p CHR ''/''"
proof (induction "length p" arbitrary: p rule: less_induct)
  case less
  show ?case
  proof (cases p rule: path_cases)
    case flat
    then show ?thesis using segmental_flat [OF assms flat] by (simp add: count_list_0_iff)
  next
    case (nested d b)
    have "count_list (K d) CHR ''/'' = count_list d CHR ''/''" using less [of d] nested by simp
    then show ?thesis
      using segmental_flat [OF assms nested(2)] nested
      by (simp add: segmental_join [OF assms] count_list_0_iff)
  qed
qed

lemma last_slash_eq:
  assumes "d @ CHR ''/'' # b = d' @ CHR ''/'' # b'" "CHR ''/'' \<notin> set b" "CHR ''/'' \<notin> set b'"
  shows "d = d' \<and> b = b'"
  using assms dirname_join basename_join by metis

text \<open>A path whose key lies under a directory's key has a prefix with that directory's key.\<close>

lemma key_prefix:
  assumes K: "segmental K"
  shows "K p = K a @ CHR ''/'' # K s \<Longrightarrow> \<exists>e r. p = e @ CHR ''/'' # r \<and> K e = K a"
proof (induction "length s" arbitrary: p s rule: less_induct)
  case less
  have "CHR ''/'' \<in> set p"
  proof (rule ccontr)
    assume "CHR ''/'' \<notin> set p"
    then have "CHR ''/'' \<notin> set (K p)" by (rule segmental_flat [OF K])
    then show False using less.prems by simp
  qed
  then obtain d b where p: "p = d @ CHR ''/'' # b" "CHR ''/'' \<notin> set b" by (metis path_cases)
  have kb: "CHR ''/'' \<notin> set (K b)" by (rule segmental_flat [OF K p(2)])
  show ?case
  proof (cases s rule: path_cases)
    case flat
    have "K d @ CHR ''/'' # K b = K a @ CHR ''/'' # K s" using less.prems p by (simp add: segmental_join [OF K])
    then have "K d = K a" using last_slash_eq kb segmental_flat [OF K flat] by blast
    then show ?thesis using p by blast
  next
    case (nested s' c)
    have "K d @ CHR ''/'' # K b = (K a @ CHR ''/'' # K s') @ CHR ''/'' # K c"
      using less.prems p nested by (simp add: segmental_join [OF K])
    then have "K d = K a @ CHR ''/'' # K s'" using last_slash_eq kb segmental_flat [OF K nested(2)] by blast
    then obtain e r where "d = e @ CHR ''/'' # r" "K e = K a" using less.hyps [of s' d] nested by auto
    then show ?thesis using p by auto
  qed
qed

end
