(* ===== verification/Reg_Inv.thy ===== *)
theory Reg_Inv
  imports Reg_Path
begin

text \<open>
  The invariant of the tree. Folders, live notes and files are seen as items (id, vault, parent,
  path); an item is placed when its path is valid and its parent is the folder at the path's
  directory, in the same vault; no two items of a kind share a path key within a vault.
  Relocating a folder with everything under it keeps all of this, whatever the kind.
\<close>

section \<open>Items\<close>

record item =
  itId :: string
  itVault :: string
  itParent :: "string option"
  itPath :: string

definition folderItem :: "tree_folder \<Rightarrow> item" where
  "folderItem f = \<lparr>itId = tfId f, itVault = tfVault f, itParent = tfParent f, itPath = tfPath f\<rparr>"

definition noteItem :: "tree_note \<Rightarrow> item" where
  "noteItem n = \<lparr>itId = tnId n, itVault = tnVault n, itParent = tnFolder n, itPath = tnPath n\<rparr>"

definition fileItem :: "tree_file \<Rightarrow> item" where
  "fileItem f = \<lparr>itId = tlId f, itVault = tlVault f, itParent = tlFolder f, itPath = tlPath f\<rparr>"

definition folderItems :: "tree \<Rightarrow> item list" where
  "folderItems t = map folderItem (trFolders t)"

definition noteItems :: "tree \<Rightarrow> item list" where
  "noteItems t = map noteItem (filter (\<lambda>n. tnDeletedAt n = None) (trNotes t))"

definition fileItems :: "tree \<Rightarrow> item list" where
  "fileItems t = map fileItem (trFiles t)"

definition placed :: "item list \<Rightarrow> string \<Rightarrow> string option \<Rightarrow> string \<Rightarrow> bool" where
  "placed F v q p \<longleftrightarrow> goodPath p \<and>
     (case q of None \<Rightarrow> dirname p = []
      | Some j \<Rightarrow> dirname p \<noteq> [] \<and> (\<exists>g \<in> set F. itId g = j \<and> itVault g = v \<and> itPath g = dirname p))"

definition items_ok :: "(string \<Rightarrow> string) \<Rightarrow> item list \<Rightarrow> item list \<Rightarrow> bool" where
  "items_ok K F X \<longleftrightarrow> distinct (map itId X) \<and>
     (\<forall>x \<in> set X. placed F (itVault x) (itParent x) (itPath x)) \<and>
     (\<forall>x \<in> set X. \<forall>y \<in> set X. itVault x = itVault y \<and> K (itPath x) = K (itPath y) \<longrightarrow> x = y)"

definition tree_ok :: "tree_env \<Rightarrow> tree \<Rightarrow> bool" where
  "tree_ok env t \<longleftrightarrow>
     items_ok (teKey env) (folderItems t) (folderItems t) \<and>
     items_ok (teKey env) (folderItems t) (noteItems t) \<and>
     items_ok (teKey env) (folderItems t) (fileItems t) \<and>
     distinct (map tnId (trNotes t))"

lemma items_placed: "items_ok K F X \<Longrightarrow> x \<in> set X \<Longrightarrow> placed F (itVault x) (itParent x) (itPath x)"
  by (simp add: items_ok_def)

lemma items_unique:
  "items_ok K F X \<Longrightarrow> x \<in> set X \<Longrightarrow> y \<in> set X \<Longrightarrow> itVault x = itVault y \<Longrightarrow> K (itPath x) = K (itPath y) \<Longrightarrow> x = y"
  by (simp add: items_ok_def)

lemma items_id: "items_ok K F X \<Longrightarrow> x \<in> set X \<Longrightarrow> y \<in> set X \<Longrightarrow> itId x = itId y \<Longrightarrow> x = y"
  unfolding items_ok_def by (metis distinct_map inj_on_def)

lemma placed_good: "placed F v q p \<Longrightarrow> goodPath p"
  by (simp add: placed_def)

lemma placed_split:
  assumes "placed F v q p"
  obtains (root) "q = None" "CHR ''/'' \<notin> set p"
    | (inside) g b where "g \<in> set F" "q = Some (itId g)" "itVault g = v" "p = itPath g @ CHR ''/'' # b" "CHR ''/'' \<notin> set b"
proof (cases p rule: path_cases)
  case flat
  then show thesis using assms root inside good_nonempty by (auto simp: placed_def split: option.splits)
next
  case (nested d b)
  then have "d \<noteq> []" using assms good_nonempty by (auto simp: placed_def)
  then show thesis using assms nested inside by (auto simp: placed_def split: option.splits)
qed

lemma prefix_folder:
  assumes F: "items_ok K F F"
  shows "placed F v q p \<Longrightarrow> under e p \<Longrightarrow> \<exists>h \<in> set F. itVault h = v \<and> itPath h = e"
proof (induction "length p" arbitrary: p q rule: less_induct)
  case less
  from less.prems(1) show ?case
  proof (cases rule: placed_split)
    case root
    then show ?thesis using less.prems(2) under_flat by blast
  next
    case (inside g b)
    from less.prems(2) consider "itPath g = e" | "under e (itPath g)"
      unfolding inside(4) under_dirname [OF inside(5)] by blast
    then show ?thesis
    proof cases
      case 1
      then show ?thesis using inside by blast
    next
      case 2
      have "placed F v (itParent g) (itPath g)" using items_placed [OF F inside(1)] inside(3) by simp
      then show ?thesis using less.hyps [OF _ _ 2] inside by simp
    qed
  qed
qed

section \<open>Relocating a folder\<close>

definition shift :: "string \<Rightarrow> string \<Rightarrow> string \<Rightarrow> string \<Rightarrow> item \<Rightarrow> item" where
  "shift v old new i x =
     (if itVault x = v \<and> under old (itPath x) then x\<lparr>itPath := moveTo old new (itPath x)\<rparr> else x)"

definition relocate :: "string \<Rightarrow> string \<Rightarrow> string \<Rightarrow> string \<Rightarrow> string option \<Rightarrow> item \<Rightarrow> item" where
  "relocate v old new i q x = (if itId x = i then x\<lparr>itPath := new, itParent := q\<rparr> else shift v old new i x)"

lemma shift_sel [simp]:
  "itId (shift v old new i x) = itId x" "itVault (shift v old new i x) = itVault x"
  "itParent (shift v old new i x) = itParent x"
  by (simp_all add: shift_def)

lemma shift_path:
  "itPath (shift v old new i x) = (if itVault x = v \<and> under old (itPath x) then moveTo old new (itPath x) else itPath x)"
  by (simp add: shift_def)

lemma relocate_sel [simp]:
  "itId (relocate v old new i q x) = itId x" "itVault (relocate v old new i q x) = itVault x"
  by (simp_all add: relocate_def)

definition newPlace :: "string \<Rightarrow> string \<Rightarrow> string \<Rightarrow> string" where
  "newPlace old new p = (if p = old then new else if under old p then moveTo old new p else p)"

lemma newPlace_child:
  assumes "CHR ''/'' \<notin> set b"
  shows "newPlace old new d @ CHR ''/'' # b =
    (if under old (d @ CHR ''/'' # b) then moveTo old new (d @ CHR ''/'' # b) else d @ CHR ''/'' # b)"
proof (cases "d = old \<or> under old d")
  case True
  then show ?thesis
    unfolding under_dirname [OF assms] by (auto simp: newPlace_def moveTo_def under_def)
next
  case False
  then show ?thesis by (auto simp: newPlace_def under_dirname [OF assms])
qed

lemma good_newPlace: "goodPath new \<Longrightarrow> goodPath p \<Longrightarrow> goodPath (newPlace old new p)"
  by (auto simp: newPlace_def under_def moveTo_def)

text \<open>What makes a move fit: the new place is valid and its parent outside the folder, and nothing
  else of the vault has its key.\<close>

definition folder_move :: "(string \<Rightarrow> string) \<Rightarrow> item list \<Rightarrow> item \<Rightarrow> string \<Rightarrow> string option \<Rightarrow> bool" where
  "folder_move K F f new q \<longleftrightarrow>
     segmental K \<and> items_ok K F F \<and> f \<in> set F \<and> placed F (itVault f) q new \<and>
     (\<forall>g \<in> set F. q = Some (itId g) \<longrightarrow> itPath g \<noteq> itPath f \<and> \<not> under (itPath f) (itPath g)) \<and>
     (K new \<noteq> K (itPath f) \<longrightarrow> (\<forall>g \<in> set F. itVault g = itVault f \<and> K (itPath g) = K new \<longrightarrow> g = f))"

abbreviation moved :: "item list \<Rightarrow> item \<Rightarrow> string \<Rightarrow> string option \<Rightarrow> item list" where
  "moved F f new q \<equiv> map (relocate (itVault f) (itPath f) new (itId f) q) F"

lemma fm_K: "folder_move K F f new q \<Longrightarrow> segmental K"
  and fm_F: "folder_move K F f new q \<Longrightarrow> items_ok K F F"
  and fm_f: "folder_move K F f new q \<Longrightarrow> f \<in> set F"
  and fm_target: "folder_move K F f new q \<Longrightarrow> placed F (itVault f) q new"
  and fm_outside: "folder_move K F f new q \<Longrightarrow> g \<in> set F \<Longrightarrow> q = Some (itId g) \<Longrightarrow>
    itPath g \<noteq> itPath f \<and> \<not> under (itPath f) (itPath g)"
  and fm_free: "folder_move K F f new q \<Longrightarrow> K new \<noteq> K (itPath f) \<Longrightarrow> g \<in> set F \<Longrightarrow> itVault g = itVault f \<Longrightarrow>
    K (itPath g) = K new \<Longrightarrow> g = f"
  unfolding folder_move_def by blast+

lemma at_new:
  assumes M: "folder_move K F f new q"
  shows "g \<in> set F \<Longrightarrow> itVault g = itVault f \<Longrightarrow> K (itPath g) = K new \<Longrightarrow> g = f"
  using fm_free [OF M] items_unique [OF fm_F [OF M] _ fm_f [OF M]] by metis

lemma relocate_path:
  assumes M: "folder_move K F f new q"
    and "g \<in> set F" "itVault g = itVault f"
  shows "itPath (relocate (itVault f) (itPath f) new (itId f) q g) = newPlace (itPath f) new (itPath g)"
proof (cases "itId g = itId f")
  case True
  then have "g = f" using items_id [OF fm_F [OF M] assms(2) fm_f [OF M]] by simp
  then show ?thesis by (simp add: relocate_def newPlace_def)
next
  case False
  then have "itPath g \<noteq> itPath f" using items_unique [OF fm_F [OF M] assms(2) fm_f [OF M]] assms(3) by auto
  then show ?thesis using False assms(3) by (simp add: relocate_def shift_def newPlace_def)
qed

lemma moved_folder:
  assumes M: "folder_move K F f new q"
    and "g \<in> set F" "itVault g = itVault f"
  shows "\<exists>g' \<in> set (moved F f new q). itId g' = itId g \<and> itVault g' = itVault f \<and> itPath g' = newPlace (itPath f) new (itPath g)"
  using assms(2,3) relocate_path [OF assms] by (intro bexI [of _ "relocate (itVault f) (itPath f) new (itId f) q g"]) simp_all

lemma other_folder:
  assumes M: "folder_move K F f new q"
    and "g \<in> set F" "itVault g \<noteq> itVault f"
  shows "g \<in> set (moved F f new q)"
proof -
  have "itId g \<noteq> itId f" using items_id [OF fm_F [OF M] assms(2) fm_f [OF M]] assms(3) by auto
  then have "relocate (itVault f) (itPath f) new (itId f) q g = g" using assms(3) by (simp add: relocate_def shift_def)
  then show ?thesis using assms(2) by (metis image_eqI list.set_map)
qed

text \<open>Where an item of the vault comes to lie, its parent unchanged.\<close>

lemma placed_shifted:
  assumes M: "folder_move K F f new q"
    and "placed F v p' p"
  shows "placed (moved F f new q) v p' (if v = itVault f \<and> under (itPath f) p then moveTo (itPath f) new p else p)"
  using assms(2)
proof (cases rule: placed_split)
  case root
  then show ?thesis using placed_good [OF assms(2)] under_flat by (simp add: placed_def)
next
  case (inside g b)
  show ?thesis
  proof (cases "v = itVault f")
    case True
    obtain g' where g': "g' \<in> set (moved F f new q)" "itId g' = itId g" "itVault g' = v" "itPath g' = newPlace (itPath f) new (itPath g)"
      using moved_folder [OF M inside(1)] unfolding inside(3) True by blast
    have good: "goodPath (newPlace (itPath f) new (itPath g) @ CHR ''/'' # b)"
      using placed_good [OF assms(2)] inside(4) placed_good [OF fm_target [OF M]] good_newPlace by simp
    have new: "newPlace (itPath f) new (itPath g) @ CHR ''/'' # b =
        (if v = itVault f \<and> under (itPath f) p then moveTo (itPath f) new p else p)"
      using newPlace_child [OF inside(5)] inside(4) True by simp
    have "itPath g' \<noteq> []"
      using g'(4) good_newPlace [OF placed_good [OF fm_target [OF M]] placed_good [OF items_placed [OF fm_F [OF M] inside(1)]]] good_nonempty by simp
    then have "placed (moved F f new q) v p' (newPlace (itPath f) new (itPath g) @ CHR ''/'' # b)"
      unfolding placed_def inside(2) using g' good inside(5) by (auto simp del: set_map)
    then show ?thesis by (simp only: new)
  next
    case False
    then have "g \<in> set (moved F f new q)" using other_folder [OF M inside(1)] inside(3) by simp
    then show ?thesis
      using False placed_good [OF assms(2)] inside by (auto simp: placed_def simp del: set_map)
  qed
qed

lemma placed_self:
  assumes M: "folder_move K F f new q"
  shows "placed (moved F f new q) (itVault f) q new"
  using fm_target [OF M]
proof (cases rule: placed_split)
  case root
  then show ?thesis using placed_good [OF fm_target [OF M]] by (simp add: placed_def)
next
  case (inside g b)
  have same: "newPlace (itPath f) new (itPath g) = itPath g" using fm_outside [OF M inside(1,2)] by (simp add: newPlace_def)
  then obtain g' where "g' \<in> set (moved F f new q)" "itId g' = itId g" "itVault g' = itVault f" "itPath g' = newPlace (itPath f) new (itPath g)"
    using moved_folder [OF M inside(1,3)] by blast
  then show ?thesis
    unfolding placed_def inside(2) using placed_good [OF fm_target [OF M]] inside(4,5) same good_nonempty [OF placed_good [OF items_placed [OF fm_F [OF M] inside(1)]]]
    by (auto simp del: set_map)
qed

text \<open>Nothing outside has a key below the new place.\<close>

lemma below_new:
  assumes M: "folder_move K F f new q"
    and "placed F (itVault f) p' p" "K p = K (new @ CHR ''/'' # r)"
  shows "under (itPath f) p"
proof -
  obtain e s where e: "p = e @ CHR ''/'' # s" "K e = K new"
    using key_prefix [OF fm_K [OF M], of p new r] assms(3) by (auto simp: segmental_join [OF fm_K [OF M]])
  then obtain h where h: "h \<in> set F" "itVault h = itVault f" "itPath h = e"
    using prefix_folder [OF fm_F [OF M] assms(2), of e] by auto
  then have "h = f" using at_new [OF M h(1,2)] e by simp
  then show ?thesis using h e by auto
qed

lemma shifted_key:
  assumes M: "folder_move K F f new q"
    and p: "placed F (itVault f) p1 p" and r: "placed F (itVault f) p2 r"
    and eq: "K (if under (itPath f) p then moveTo (itPath f) new p else p) = K (if under (itPath f) r then moveTo (itPath f) new r else r)"
  shows "K p = K r"
proof -
  have move: "\<exists>s. p = itPath f @ CHR ''/'' # s \<and> moveTo (itPath f) new p = new @ CHR ''/'' # s" if "under (itPath f) p" for p
    using that by (auto simp: under_def moveTo_def)
  show ?thesis
  proof (cases "under (itPath f) p"; cases "under (itPath f) r")
    assume u: "under (itPath f) p" "under (itPath f) r"
    obtain s s' where s: "p = itPath f @ CHR ''/'' # s" "moveTo (itPath f) new p = new @ CHR ''/'' # s"
      "r = itPath f @ CHR ''/'' # s'" "moveTo (itPath f) new r = new @ CHR ''/'' # s'"
      using move [OF u(1)] move [OF u(2)] by blast
    have "K (moveTo (itPath f) new p) = K (moveTo (itPath f) new r)" using eq u by simp
    then show ?thesis unfolding s(2,4) by (simp add: s(1,3) segmental_join [OF fm_K [OF M]])
  next
    assume u: "under (itPath f) p" "\<not> under (itPath f) r"
    obtain s where s: "moveTo (itPath f) new p = new @ CHR ''/'' # s" using move [OF u(1)] by blast
    have "K r = K (moveTo (itPath f) new p)" using eq u by simp
    then show ?thesis using below_new [OF M r, of s] u s by simp
  next
    assume u: "\<not> under (itPath f) p" "under (itPath f) r"
    obtain s where s: "moveTo (itPath f) new r = new @ CHR ''/'' # s" using move [OF u(2)] by blast
    have "K p = K (moveTo (itPath f) new r)" using eq u by simp
    then show ?thesis using below_new [OF M p, of s] u s by simp
  qed (use eq in simp)
qed

lemma items_shifted:
  assumes M: "folder_move K F f new q"
    and X: "items_ok K F X"
  shows "items_ok K (moved F f new q) (map (shift (itVault f) (itPath f) new (itId f)) X)"
proof -
  let ?s = "shift (itVault f) (itPath f) new (itId f)"
  have "placed (moved F f new q) (itVault (?s x)) (itParent (?s x)) (itPath (?s x))" if "x \<in> set X" for x
    using placed_shifted [OF M items_placed [OF X that]] by (simp add: shift_path)
  moreover have "x = y" if "x \<in> set X" "y \<in> set X" "itVault x = itVault y" "K (itPath (?s x)) = K (itPath (?s y))" for x y
  proof (cases "itVault x = itVault f")
    case True
    have "K (itPath x) = K (itPath y)"
      by (rule shifted_key [OF M, of "itParent x" _ "itParent y"])
         (use items_placed [OF X that(1)] items_placed [OF X that(2)] that(3,4) True in \<open>simp_all add: shift_path\<close>)
    then show ?thesis by (rule items_unique [OF X that(1,2,3)])
  next
    case False
    then show ?thesis using that(3,4) by (intro items_unique [OF X that(1,2,3)]) (simp add: shift_path)
  qed
  moreover have "distinct (map itId (map ?s X))" using X by (simp add: items_ok_def comp_def)
  ultimately show ?thesis unfolding items_ok_def by auto
qed

lemma items_moved:
  assumes M: "folder_move K F f new q"
  shows "items_ok K (moved F f new q) (moved F f new q)"
proof -
  let ?m = "relocate (itVault f) (itPath f) new (itId f) q"
  have shifted: "?m g = shift (itVault f) (itPath f) new (itId f) g" if "g \<in> set F" "g \<noteq> f" for g
    using items_id [OF fm_F [OF M] that(1) fm_f [OF M]] that(2) by (auto simp: relocate_def)
  have fpath: "?m f = f\<lparr>itPath := new, itParent := q\<rparr>" by (simp add: relocate_def)
  have place: "placed (moved F f new q) (itVault (?m g)) (itParent (?m g)) (itPath (?m g))" if "g \<in> set F" for g
  proof (cases "g = f")
    case True
    then show ?thesis using placed_self [OF M] by (simp add: fpath)
  next
    case False
    then show ?thesis
      using placed_shifted [OF M items_placed [OF fm_F [OF M] that]] shifted [OF that False] by (simp add: shift_path)
  qed
  have fkey: "g = f" if g: "g \<in> set F" "itVault g = itVault f" "K (itPath (?m g)) = K new" for g
  proof (rule ccontr)
    assume ne: "g \<noteq> f"
    show False
    proof (cases "under (itPath f) (itPath g)")
      case True
      then obtain s where "itPath (?m g) = new @ CHR ''/'' # s"
        using shifted [OF g(1) ne] g(2) by (auto simp: shift_def under_def moveTo_def)
      then have "count_list (K (new @ CHR ''/'' # s)) CHR ''/'' = count_list (K new) CHR ''/''" using g(3) by simp
      then show False by (simp add: key_slashes [OF fm_K [OF M]])
    next
      case False
      then have "K (itPath g) = K new" using shifted [OF g(1) ne] g by (simp add: shift_def)
      then show False using at_new [OF M g(1,2)] ne by simp
    qed
  qed
  have "x = y" if "x \<in> set F" "y \<in> set F" "itVault x = itVault y" "K (itPath (?m x)) = K (itPath (?m y))" for x y
  proof (cases "x = f \<or> y = f")
    case True
    then show ?thesis
    proof
      assume x: "x = f"
      have "K (itPath (?m y)) = K new" using that(4) unfolding x fpath by simp
      then have "y = f" by (rule fkey [OF that(2) that(3) [symmetric, unfolded x]])
      then show ?thesis using x by simp
    next
      assume y: "y = f"
      have "K (itPath (?m x)) = K new" using that(4) unfolding y fpath by simp
      then have "x = f" by (rule fkey [OF that(1) that(3) [unfolded y]])
      then show ?thesis using y by simp
    qed
  next
    case False
    let ?s = "shift (itVault f) (itPath f) new (itId f)"
    have eq: "K (itPath (?s x)) = K (itPath (?s y))" using that False shifted by simp
    show ?thesis
    proof (cases "itVault x = itVault f")
      case True
      have "K (itPath x) = K (itPath y)"
        by (rule shifted_key [OF M, of "itParent x" _ "itParent y"])
           (use items_placed [OF fm_F [OF M] that(1)] items_placed [OF fm_F [OF M] that(2)] that(3) eq True in \<open>simp_all add: shift_path\<close>)
      then show ?thesis by (rule items_unique [OF fm_F [OF M] that(1,2,3)])
    next
      case False
      then show ?thesis using that(3) eq by (intro items_unique [OF fm_F [OF M] that(1,2,3)]) (simp add: shift_path)
    qed
  qed
  moreover have "distinct (map itId (moved F f new q))" using fm_F [OF M] by (simp add: items_ok_def comp_def)
  ultimately show ?thesis using place unfolding items_ok_def by auto
qed

end
