(* ===== verification/Reg_Move.thy ===== *)
theory Reg_Move
  imports Reg_Inv
begin

text \<open>
  Moves, renames and the delete cascade keep the invariant: what the recursive queries over
  \<open>parent_id\<close> return, where a planned move lands, and the tables each operation leaves.
\<close>

section \<open>Recursive queries over the parents\<close>

lemma set_childRound:
  "set (childRound t acc work) =
     {tfId f | f. f \<in> set (trFolders t) \<and> tfParent f \<in> Some ` set work \<and> tfId f \<notin> set acc}"
  by (auto simp: childRound_def)

definition child_closed :: "tree \<Rightarrow> string set \<Rightarrow> string set \<Rightarrow> bool" where
  "child_closed t A B \<longleftrightarrow> (\<forall>f \<in> set (trFolders t). \<forall>p. tfParent f = Some p \<and> p \<in> A \<longrightarrow> tfId f \<in> B)"

lemma childLoop_closed:
  assumes "child_closed t (set acc - set work) (set acc)" "set work \<subseteq> set acc"
  shows "set acc \<subseteq> set (childLoop t acc work) \<and> child_closed t (set (childLoop t acc work)) (set (childLoop t acc work))"
  using assms
proof (induction t acc work rule: childLoop.induct)
  case (1 t acc work)
  show ?case
  proof (cases "childRound t acc work = []")
    case True
    then have "set (childRound t acc work) = {}" by simp
    then have "child_closed t (set work) (set acc)" unfolding set_childRound child_closed_def by blast
    then have "child_closed t (set acc) (set acc)" using "1.prems"(1) unfolding child_closed_def by blast
    then show ?thesis using True by (simp add: childLoop.simps [of t acc work])
  next
    case False
    let ?more = "childRound t acc work"
    have closed: "child_closed t (set (acc @ ?more) - set ?more) (set (acc @ ?more))"
      using "1.prems"(1) unfolding child_closed_def set_append set_childRound by blast
    have "childLoop t acc work = childLoop t (acc @ ?more) ?more"
      using False by (simp add: childLoop.simps [of t acc work] Let_def)
    then show ?thesis using "1.IH" [OF refl False closed] by simp
  qed
qed

lemma childLoop_start:
  "set start \<subseteq> set (childLoop t start start)"
  "child_closed t (set (childLoop t start start)) (set (childLoop t start start))"
  using childLoop_closed [of t start start] by (simp_all add: child_closed_def)

lemma folderSubtree_closed:
  "child_closed t (set (folderSubtree t i)) (set (folderSubtree t i))"
  "i \<in> tfId ` set (trFolders t) \<Longrightarrow> i \<in> set (folderSubtree t i)"
proof -
  show "child_closed t (set (folderSubtree t i)) (set (folderSubtree t i))"
    unfolding folderSubtree_def Let_def by (rule childLoop_start)
  assume "i \<in> tfId ` set (trFolders t)"
  then have "i \<in> set (remdups (map tfId (filter (\<lambda>f. tfId f = i) (trFolders t))))" by auto
  then show "i \<in> set (folderSubtree t i)" unfolding folderSubtree_def Let_def using childLoop_start(1) by blast
qed

section \<open>Folders of a well-formed tree\<close>

lemma tree_ok_parts:
  assumes "tree_ok env t"
  shows "items_ok (teKey env) (folderItems t) (folderItems t)"
    and "items_ok (teKey env) (folderItems t) (noteItems t)"
    and "items_ok (teKey env) (folderItems t) (fileItems t)"
    and "distinct (map tnId (trNotes t))"
  using assms by (simp_all add: tree_ok_def)

lemma folderItem_sel [simp]:
  "itId (folderItem f) = tfId f" "itVault (folderItem f) = tfVault f"
  "itParent (folderItem f) = tfParent f" "itPath (folderItem f) = tfPath f"
  by (simp_all add: folderItem_def)

lemma noteItem_sel [simp]:
  "itId (noteItem n) = tnId n" "itVault (noteItem n) = tnVault n"
  "itParent (noteItem n) = tnFolder n" "itPath (noteItem n) = tnPath n"
  by (simp_all add: noteItem_def)

lemma fileItem_sel [simp]:
  "itId (fileItem f) = tlId f" "itVault (fileItem f) = tlVault f"
  "itParent (fileItem f) = tlFolder f" "itPath (fileItem f) = tlPath f"
  by (simp_all add: fileItem_def)

lemma set_folderItems: "set (folderItems t) = folderItem ` set (trFolders t)"
  by (simp add: folderItems_def)

lemma folder_placed:
  "tree_ok env t \<Longrightarrow> f \<in> set (trFolders t) \<Longrightarrow> placed (folderItems t) (tfVault f) (tfParent f) (tfPath f)"
  using items_placed [OF tree_ok_parts(1)] by (force simp: set_folderItems)

lemma distinct_folder_ids: "tree_ok env t \<Longrightarrow> distinct (map tfId (trFolders t))"
  by (simp add: tree_ok_def items_ok_def folderItems_def comp_def)

lemma folder_id_eq:
  "tree_ok env t \<Longrightarrow> f \<in> set (trFolders t) \<Longrightarrow> g \<in> set (trFolders t) \<Longrightarrow> tfId f = tfId g \<Longrightarrow> f = g"
  using distinct_folder_ids unfolding distinct_map inj_on_def by blast

lemma findFolder_Some:
  "findFolder t i = Some f \<Longrightarrow> \<exists>g \<in> set (trFolders t). tfId g = i \<and> f = folderInfo g"
  by (auto simp: findFolder_def dest: first_row_Some)

lemma findFolderByPath_Some:
  "findFolderByPath env t v p = Some f \<Longrightarrow>
     \<exists>g \<in> set (trFolders t). tfVault g = v \<and> teKey env (tfPath g) = teKey env p \<and> f = folderInfo g"
  by (auto simp: findFolderByPath_def oldestFolder_def dest!: first_row_Some)

lemma folderInfo_sel [simp]:
  "fiId (folderInfo f) = tfId f" "fiVault (folderInfo f) = tfVault f"
  "fiPath (folderInfo f) = tfPath f" "fiParent (folderInfo f) = tfParent f"
  by (simp_all add: folderInfo_def)

text \<open>A folder further down is found by the walk over the parents.\<close>

lemma descendant_found:
  assumes ok: "tree_ok env t" and f: "f \<in> set (trFolders t)"
  defines "start \<equiv> childRound t [] [tfId f]"
  shows "g \<in> set (trFolders t) \<Longrightarrow> tfVault g = tfVault f \<Longrightarrow> under (tfPath f) (tfPath g) \<Longrightarrow>
    tfId g \<in> set (childLoop t start start)"
proof (induction "length (tfPath g)" arbitrary: g rule: less_induct)
  case less
  from folder_placed [OF ok less.prems(1)] show ?case
  proof (cases rule: placed_split)
    case root
    then show ?thesis using less.prems(3) under_flat by blast
  next
    case (inside h' b)
    then obtain h where h: "h \<in> set (trFolders t)" "h' = folderItem h" by (auto simp: set_folderItems)
    from less.prems(3) consider "tfPath h = tfPath f" | "under (tfPath f) (tfPath h)"
      unfolding inside(4) under_dirname [OF inside(5)] h(2) by auto
    then show ?thesis
    proof cases
      case 1
      have "folderItem h = folderItem f"
        by (rule items_unique [OF tree_ok_parts(1) [OF ok]])
           (use h f inside(3) 1 less.prems(2) in \<open>simp_all add: set_folderItems\<close>)
      then have "tfId h = tfId f" by (metis folderItem_sel(1))
      then have "tfId g \<in> set start"
        unfolding start_def set_childRound using less.prems(1) inside(2) h(2) by auto
      then show ?thesis using childLoop_start(1) by blast
    next
      case 2
      have "tfId h \<in> set (childLoop t start start)"
        by (rule less.hyps [OF _ h(1) _ 2]) (use inside(3,4) h(2) less.prems(2) in simp_all)
      then show ?thesis
        using childLoop_start(2) [of t start] less.prems(1) inside(2) h(2) unfolding child_closed_def by simp
    qed
  qed
qed

section \<open>Where a move lands\<close>

definition names_ok :: "move_folder_input \<Rightarrow> bool" where
  "names_ok input \<longleftrightarrow> (case mfName input of None \<Rightarrow> True | Some n \<Rightarrow> okName n)"

lemma placed_in_folder:
  assumes "tree_ok env t" "g \<in> set (trFolders t)" "okName b"
  shows "placed (folderItems t) (tfVault g) (Some (tfId g)) (tfPath g @ CHR ''/'' # b)"
proof -
  have "goodPath (tfPath g)" using folder_placed [OF assms(1,2)] placed_good by blast
  then show ?thesis
    using assms(2,3) by (auto simp: placed_def set_folderItems good_okName okName_no_slash)
qed

lemma placed_root: "okName b \<Longrightarrow> placed F v None b"
  by (simp add: placed_def good_okName okName_no_slash)

lemma joinPath_folder:
  assumes "tree_ok env t" "g \<in> set (trFolders t)"
  shows "joinPath (tfPath g) b = tfPath g @ CHR ''/'' # b"
proof -
  have "tfPath g \<noteq> []" using folder_placed [OF assms] placed_good good_nonempty by blast
  then show ?thesis by (simp add: joinPath_def)
qed

text \<open>The parent a resolver answers is a folder of the vault, and the path lies in it. The lookup may
  be any that answers folders of the vault.\<close>

definition lookup_ok :: "tree \<Rightarrow> 's folder_lookup \<Rightarrow> 's \<Rightarrow> bool" where
  "lookup_ok t look s \<longleftrightarrow>
     (\<forall>v p f s'. look s v p = (Some f, s') \<longrightarrow>
       (\<exists>g \<in> set (trFolders t). tfVault g = v \<and> tfId g = fiId f \<and> tfPath g = fiPath f))"

lemma plainLookup_ok: "lookup_ok t (plainLookup env t) s"
  unfolding lookup_ok_def plainLookup_def using findFolderByPath_Some by fastforce

lemma resolveParentFolder_placed:
  assumes ok: "tree_ok env t" and look: "lookup_ok t look s"
    and r: "resolveParentFolder env t look s v path fld = (Inr loc, s')"
  shows "placed (folderItems t) v (lcFolder loc) (lcPath loc)"
proof -
  have good: "goodPath path" using r by (auto simp: resolveParentFolder_def badRelPath_iff split: if_splits)
  have name: "okName (basename path)" by (rule good_basename [OF good])
  show ?thesis
  proof (cases fld)
    case (Some i)
    then obtain f where f: "findFolder t i = Some f" "fiVault f = v"
      "loc = \<lparr>lcFolder = Some (fiId f), lcPath = joinPath (fiPath f) (basename path)\<rparr>"
      using r by (auto simp: resolveParentFolder_def Let_def split: if_splits option.splits)
    obtain g where "g \<in> set (trFolders t)" "f = folderInfo g" using findFolder_Some [OF f(1)] by blast
    then show ?thesis using f(2,3) placed_in_folder [OF ok _ name] joinPath_folder [OF ok] by auto
  next
    case None
    show ?thesis
    proof (cases "dirname path = []")
      case True
      then have "loc = \<lparr>lcFolder = None, lcPath = path\<rparr>"
        using r None by (auto simp: resolveParentFolder_def Let_def split: if_splits)
      then show ?thesis using good True by (simp add: placed_def)
    next
      case False
      then obtain f where f: "look s v (dirname path) = (Some f, s')"
        "loc = \<lparr>lcFolder = Some (fiId f), lcPath = joinPath (fiPath f) (basename path)\<rparr>"
        using r None by (auto simp: resolveParentFolder_def Let_def split: if_splits option.splits prod.splits)
      obtain g where "g \<in> set (trFolders t)" "tfVault g = v" "tfId g = fiId f" "tfPath g = fiPath f"
        using look f(1) unfolding lookup_ok_def by blast
      then show ?thesis using f(2) placed_in_folder [OF ok _ name] joinPath_folder [OF ok] by force
    qed
  qed
qed

lemma resolve_same: "resolveFolderParent env t look s v path q = resolveParentFolder env t look s v path q"
  by (simp add: resolveFolderParent_def resolveParentFolder_def)

lemma placed_rename:
  assumes "tree_ok env t" "f \<in> set (trFolders t)" "okName n"
  shows "placed (folderItems t) (tfVault f) (tfParent f)
    (if dirname (tfPath f) \<noteq> [] then dirname (tfPath f) @ CHR ''/'' # n else n)"
  using folder_placed [OF assms(1,2)]
proof (cases rule: placed_split)
  case root
  then show ?thesis using placed_root [OF assms(3)] by simp
next
  case (inside g b)
  then obtain h where h: "h \<in> set (trFolders t)" "g = folderItem h" by (auto simp: set_folderItems)
  have "tfPath h \<noteq> []" using folder_placed [OF assms(1) h(1)] placed_good good_nonempty by blast
  then show ?thesis using placed_in_folder [OF assms(1) h(1) assms(3)] inside h(2) by simp
qed

lemma planFolderMove_placed:
  assumes ok: "tree_ok env t" and f: "f \<in> set (trFolders t)" and names: "names_ok input"
    and plan: "planFolderMove env t (folderInfo f) input = Inr (new, q)"
  shows "placed (folderItems t) (tfVault f) q new"
proof (cases "mfPath input")
  case (Some path)
  then obtain loc where loc: "fst (resolveParentFolder env t (plainLookup env t) () (tfVault f) path
      (case mfParent input of None \<Rightarrow> None | Some p \<Rightarrow> p)) = Inr loc" "new = lcPath loc" "q = lcFolder loc"
    using plan by (auto simp: planFolderMove_def resolve_same split: sum.splits)
  then show ?thesis
    using resolveParentFolder_placed [OF ok plainLookup_ok] by (metis prod.collapse)
next
  case None
  have base: "okName (basename (tfPath f))"
    using folder_placed [OF ok f] placed_good good_basename by blast
  define name where "name = (case mfName input of Some n \<Rightarrow> n | None \<Rightarrow> basename (tfPath f))"
  have name: "okName name" using names base by (auto simp: name_def names_ok_def split: option.splits)
  show ?thesis
  proof (cases "mfParent input")
    case (Some parentId)
    have planned: "planFolderMove env t (folderInfo f) input = (case parentId of
          None \<Rightarrow> Inr (name, None)
        | Some i \<Rightarrow> (case findFolder t i of None \<Rightarrow> Inl UnknownDestination
            | Some parent \<Rightarrow> if fiVault parent \<noteq> tfVault f then Inl DestinationInOtherVault
                else Inr (fiPath parent @ ''/'' @ name, Some (fiId parent))))"
      unfolding planFolderMove_def None Some option.case Let_def folderInfo_sel name_def ..
    show ?thesis
    proof (cases parentId)
      case None
      then show ?thesis using plan placed_root [OF name] unfolding planned by auto
    next
      case (Some i)
      then obtain p where p: "findFolder t i = Some p" "fiVault p = tfVault f" "new = fiPath p @ CHR ''/'' # name" "q = Some (fiId p)"
        using plan unfolding planned by (auto split: option.splits if_splits)
      obtain g where g: "g \<in> set (trFolders t)" "p = folderInfo g" using findFolder_Some [OF p(1)] by blast
      then show ?thesis using p(2-4) placed_in_folder [OF ok g(1) name] by simp
    qed
  next
    case noparent: None
    show ?thesis
    proof (cases "mfName input")
      case (Some n)
      then have "okName n" using names by (simp add: names_ok_def)
      then show ?thesis
        using plan None noparent Some placed_rename [OF ok f] folder_placed [OF ok f]
        by (auto simp: planFolderMove_def Let_def split: if_splits)
    qed (use plan None noparent folder_placed [OF ok f] in \<open>simp add: planFolderMove_def\<close>)
  qed
qed

section \<open>Moving keeps the invariant\<close>

lemma likeUnder_under [simp]: "likeUnder = under"
  by (intro ext) (simp add: likeUnder_iff)

lemma moveTo_id: "moveTo p p (p @ r) = p @ r"
  by (simp add: moveTo_def)

lemma shift_id: "shift v p p i x = x"
  by (auto simp: shift_def moveTo_def under_def)

lemma rewritten_items:
  assumes f: "f \<in> set (trFolders t)"
    and t1: "t1 = t\<lparr>trFolders := map (\<lambda>g. if tfId g = tfId f then g\<lparr>tfPath := new, tfName := nm, tfParent := q\<rparr> else g) (trFolders t)\<rparr>"
    and self: "\<not> under (tfPath f) new"
    and wide: "basic_plane env (tfPath f)"
    and t2: "t2 = (if new \<noteq> tfPath f then rewriteDescendantPaths env t1 (tfVault f) (tfPath f) new else t1)"
  shows "folderItems t2 = moved (folderItems t) (folderItem f) new q"
    and "noteItems t2 = map (shift (tfVault f) (tfPath f) new (tfId f)) (noteItems t)"
    and "fileItems t2 = map (shift (tfVault f) (tfPath f) new (tfId f)) (fileItems t)"
    and "map tnId (trNotes t2) = map tnId (trNotes t)"
proof -
  have unchanged: "moveTo p p r = r" if "under p r" for p r using that by (auto simp: under_def moveTo_id)
  show "folderItems t2 = moved (folderItems t) (folderItem f) new q"
    unfolding folderItems_def t2 t1 rewriteDescendantPaths_def
    by (auto simp: relocate_def shift_def folderItem_def self unchanged wide)
  show "noteItems t2 = map (shift (tfVault f) (tfPath f) new (tfId f)) (noteItems t)"
    unfolding noteItems_def t2 t1 rewriteDescendantPaths_def
    by (auto simp: shift_def noteItem_def filter_map comp_def unchanged wide if_distrib [of tnDeletedAt] cong: if_cong)
  show "fileItems t2 = map (shift (tfVault f) (tfPath f) new (tfId f)) (fileItems t)"
    unfolding fileItems_def t2 t1 rewriteDescendantPaths_def
    by (auto simp: shift_def fileItem_def unchanged wide)
  show "map tnId (trNotes t2) = map tnId (trNotes t)"
    unfolding t2 t1 rewriteDescendantPaths_def by simp
qed

lemma key_same:
  assumes "keys_agree env" shows "treeSamePath env a b \<longleftrightarrow> teKey env a = teKey env b"
  by (rule same_iff [OF assms])

lemma moveFolder_cases:
  assumes "moveFolder env t i input = Inr (t', r)"
  obtains f new q where "f \<in> set (trFolders t)" "tfId f = i" "findFolder t i = Some (folderInfo f)" "planFolderMove env t (folderInfo f) input = Inr (new, q)"
    and "q \<noteq> None \<Longrightarrow> q \<noteq> tfParent f \<Longrightarrow> \<not> wouldCycle t i (the q)"
    and "\<And>g. \<not> treeSamePath env new (tfPath f) \<Longrightarrow> g \<in> set (trFolders t) \<Longrightarrow> tfVault g = tfVault f \<Longrightarrow>
      teKey env (tfPath g) = teKey env new \<Longrightarrow> tfId g = i"
    and "t' = (let t1 = t\<lparr>trFolders := map (\<lambda>g. if tfId g = i
          then g\<lparr>tfPath := new, tfName := mdName r, tfParent := q\<rparr> else g) (trFolders t)\<rparr>
        in if new \<noteq> tfPath f then rewriteDescendantPaths env t1 (tfVault f) (tfPath f) new else t1)"
    and "mdPath r = new" "mdId r = i" "mdVault r = tfVault f"
proof -
  obtain fi where fi: "findFolder t i = Some fi" using assms by (auto simp: moveFolder_def split: option.splits)
  obtain f where f: "f \<in> set (trFolders t)" "tfId f = i" "fi = folderInfo f" using findFolder_Some [OF fi] by blast
  obtain new q where plan: "planFolderMove env t (folderInfo f) input = Inr (new, q)"
    using assms fi f(3) by (cases "planFolderMove env t (folderInfo f) input") (auto simp: moveFolder_def)
  define nm where "nm = (case mfName input of Some n \<Rightarrow> n | None \<Rightarrow> basename new)"
  note m = assms [unfolded moveFolder_def fi f(3) option.case plan sum.case prod.case Let_def folderInfo_sel, folded nm_def]
  have r: "r = \<lparr>mdId = i, mdVault = tfVault f, mdName = nm, mdPath = new\<rparr>" using m by (auto split: if_splits)
  have t': "t' = (let t1 = t\<lparr>trFolders := map (\<lambda>g. if tfId g = i
          then g\<lparr>tfPath := new, tfName := nm, tfParent := q\<rparr> else g) (trFolders t)\<rparr>
        in if new \<noteq> tfPath f then rewriteDescendantPaths env t1 (tfVault f) (tfPath f) new else t1)"
    using m unfolding Let_def by (auto split: if_splits)
  have nm: "mdName r = nm" by (simp add: r)
  show thesis
    by (rule that [OF f(1,2) fi [unfolded f(3)] plan, unfolded nm, OF _ _ t']) (use m in \<open>auto simp: r list_ex_iff split: if_splits\<close>)
qed

lemma outside_folder:
  assumes ok: "tree_ok env t" and f: "f \<in> set (trFolders t)" and g: "g \<in> set (trFolders t)"
    and q: "q = Some (tfId g)" and target: "placed (folderItems t) (tfVault f) q new"
    and cycle: "q \<noteq> tfParent f \<Longrightarrow> \<not> wouldCycle t (tfId f) (tfId g)"
  shows "tfPath g \<noteq> tfPath f \<and> \<not> under (tfPath f) (tfPath g)"
proof -
  obtain h where h: "h \<in> set (trFolders t)" "tfId h = tfId g" "tfVault h = tfVault f"
    using target q by (auto simp: placed_def set_folderItems)
  then have vault: "tfVault g = tfVault f" using folder_id_eq [OF ok h(1) g h(2)] by simp
  show ?thesis
  proof (cases "q = tfParent f")
    case True
    from folder_placed [OF ok f] have "length (tfPath g) < length (tfPath f)"
    proof (cases rule: placed_split)
      case (inside p b)
      then obtain h where h: "h \<in> set (trFolders t)" "p = folderItem h" by (auto simp: set_folderItems)
      have "tfId h = tfId g" using h(2) inside(2) True q by simp
      then have "h = g" by (rule folder_id_eq [OF ok h(1) g])
      then show ?thesis using inside h by simp
    qed (use True q in simp)
    then show ?thesis using under_longer [of "tfPath f" "tfPath g"] by auto
  next
    case False
    then have free: "tfId g \<noteq> tfId f" "tfId g \<notin> set (childLoop t (childRound t [] [tfId f]) (childRound t [] [tfId f]))"
      using cycle by (auto simp: wouldCycle_def Let_def)
    have "tfPath g \<noteq> tfPath f"
    proof
      assume "tfPath g = tfPath f"
      then have "folderItem g = folderItem f"
        by (intro items_unique [OF tree_ok_parts(1) [OF ok]]) (use f g vault in \<open>simp_all add: set_folderItems\<close>)
      then show False using free(1) by (metis folderItem_sel(1))
    qed
    then show ?thesis using descendant_found [OF ok f g vault] free(2) by blast
  qed
qed

lemma moveFolder_items:
  assumes ok: "tree_ok env t" and keys: "keys_agree env" and names: "names_ok input"
    and wide: "pred_option (\<lambda>f. basic_plane env (fiPath f)) (findFolder t i)"
    and m: "moveFolder env t i input = Inr (t', r)"
  obtains f q where "f \<in> set (trFolders t)" "tfId f = i" "folder_move (teKey env) (folderItems t) (folderItem f) (mdPath r) q"
    "folderItems t' = moved (folderItems t) (folderItem f) (mdPath r) q"
    "noteItems t' = map (shift (tfVault f) (tfPath f) (mdPath r) i) (noteItems t)"
    "fileItems t' = map (shift (tfVault f) (tfPath f) (mdPath r) i) (fileItems t)"
    "map tnId (trNotes t') = map tnId (trNotes t)"
  using m
proof (cases rule: moveFolder_cases)
  case (1 f new q)
  note f = 1(1,2) and plan = 1(4) and cycle = 1(5) and free = 1(6) and t' = 1(7)
  have plane: "basic_plane env (tfPath f)" using wide 1(3) by simp
  have target: "placed (folderItems t) (tfVault f) q new"
    by (rule planFolderMove_placed [OF ok f(1) names plan])
  have outside: "tfPath g \<noteq> tfPath f \<and> \<not> under (tfPath f) (tfPath g)"
    if "g \<in> set (trFolders t)" "q = Some (tfId g)" for g
    by (rule outside_folder [OF ok f(1) that target]) (use cycle that f(2) in simp)
  have K: "segmental (teKey env)" using keys by (simp add: keys_agree_def)
  have fm: "folder_move (teKey env) (folderItems t) (folderItem f) new q"
    unfolding folder_move_def
  proof (intro conjI impI ballI)
    fix g assume g: "g \<in> set (folderItems t)"
    then obtain h where h: "h \<in> set (trFolders t)" "g = folderItem h" by (auto simp: set_folderItems)
    show "q = Some (itId g) \<Longrightarrow> itPath g \<noteq> itPath (folderItem f)"
      "q = Some (itId g) \<Longrightarrow> \<not> under (itPath (folderItem f)) (itPath g)"
      using outside [OF h(1)] h(2) by auto
    assume ne: "teKey env new \<noteq> teKey env (itPath (folderItem f))"
      and at: "itVault g = itVault (folderItem f) \<and> teKey env (itPath g) = teKey env new"
    have "tfId h = i" by (rule free [OF _ h(1)]) (use ne at h(2) key_same [OF keys] in simp_all)
    then show "g = folderItem f" using folder_id_eq [OF ok h(1) f(1)] f(2) h(2) by simp
  qed (use K tree_ok_parts(1) [OF ok] f target in \<open>simp_all add: set_folderItems\<close>)
  have self: "\<not> under (tfPath f) new"
    using target
  proof (cases rule: placed_split)
    case root
    then show ?thesis using under_flat by blast
  next
    case (inside p b)
    then obtain h where h: "h \<in> set (trFolders t)" "p = folderItem h" by (auto simp: set_folderItems)
    then show ?thesis
      unfolding inside(4) under_dirname [OF inside(5)] using outside [OF h(1)] inside(2) by auto
  qed
  note items = rewritten_items [OF f(1) refl self plane t' [unfolded Let_def, folded f(2)]]
  show thesis
    by (rule that [OF f, of q]) (use fm items f(2) 1(8) in simp_all)
qed

lemma moveFolder_ok:
  assumes ok: "tree_ok env t" and keys: "keys_agree env" and names: "names_ok input"
    and wide: "\<And>f. findFolder t i = Some f \<Longrightarrow> basic_plane env (fiPath f)"
    and m: "moveFolder env t i input = Inr (t', r)"
  shows "tree_ok env t'"
proof -
  have "pred_option (\<lambda>f. basic_plane env (fiPath f)) (findFolder t i)" using wide by (cases "findFolder t i") auto
  from moveFolder_items [OF ok keys names this m] show ?thesis
  proof cases
    case (1 f q)
    have item: "itVault (folderItem f) = tfVault f" "itPath (folderItem f) = tfPath f" "itId (folderItem f) = tfId f"
      by simp_all
    show ?thesis
      unfolding tree_ok_def 1(4-7)
      using items_moved [OF 1(3)] items_shifted [OF 1(3) tree_ok_parts(2) [OF ok]] items_shifted [OF 1(3) tree_ok_parts(3) [OF ok]]
        tree_ok_parts(4) [OF ok]
      unfolding item 1(2) by simp
  qed
qed

end
