(* ===== verification/Reg_Delete.thy ===== *)
theory Reg_Delete
  imports Reg_Move
begin

text \<open>
  A note's move and the delete cascade of a folder keep the invariant, and what the cascade leaves
  behind: no live note, no file and no folder of the deleted subtree, and a tombstone for each of
  its folders and files.
\<close>

section \<open>Moving a note\<close>

lemma set_noteItems: "set (noteItems t) = noteItem ` {n \<in> set (trNotes t). tnDeletedAt n = None}"
  by (simp add: noteItems_def)

lemma note_placed:
  "tree_ok env t \<Longrightarrow> n \<in> set (trNotes t) \<Longrightarrow> tnDeletedAt n = None \<Longrightarrow>
     placed (folderItems t) (tnVault n) (tnFolder n) (tnPath n)"
  using items_placed [OF tree_ok_parts(2)] by (force simp: set_noteItems)

lemma findNote_Some: "findNote t i = Some n \<Longrightarrow> n \<in> set (trNotes t) \<and> tnId n = i \<and> tnDeletedAt n = None"
  by (auto simp: findNote_def dest: first_row_Some)

lemma planNoteMove_placed:
  assumes ok: "tree_ok env t" and n: "n \<in> set (trNotes t)" "tnDeletedAt n = None"
    and plan: "planNoteMove env t n input = Inr loc"
  shows "placed (folderItems t) (tnVault n) (lcFolder loc) (lcPath loc)"
proof (cases "mnPath input")
  case (Some path)
  then have "fst (resolveParentFolder env t (plainLookup env t) () (tnVault n) path
      (case mnFolder input of None \<Rightarrow> None | Some f \<Rightarrow> f)) = Inr loc"
    using plan by (simp add: planNoteMove_def)
  then show ?thesis using resolveParentFolder_placed [OF ok plainLookup_ok] by (metis prod.collapse)
next
  case None
  have name: "okName (basename (tnPath n))" using note_placed [OF ok n] placed_good good_basename by blast
  show ?thesis
  proof (cases "mnFolder input")
    case noparent: None
    then show ?thesis using plan None note_placed [OF ok n] by (auto simp: planNoteMove_def)
  next
    case (Some fld)
    have planned: "planNoteMove env t n input = (case fld of
          None \<Rightarrow> Inr \<lparr>lcFolder = None, lcPath = basename (tnPath n)\<rparr>
        | Some i \<Rightarrow> (case findFolder t i of None \<Rightarrow> Inl UnknownDestination
            | Some parent \<Rightarrow> if fiVault parent \<noteq> tnVault n then Inl DestinationInOtherVault
                else Inr \<lparr>lcFolder = Some (fiId parent), lcPath = fiPath parent @ ''/'' @ basename (tnPath n)\<rparr>))"
      unfolding planNoteMove_def None Some option.case Let_def ..
    show ?thesis
    proof (cases fld)
      case None
      then show ?thesis using plan placed_root [OF name] unfolding planned by auto
    next
      case (Some i)
      then obtain p where p: "findFolder t i = Some p" "fiVault p = tnVault n"
        "loc = \<lparr>lcFolder = Some (fiId p), lcPath = fiPath p @ CHR ''/'' # basename (tnPath n)\<rparr>"
        using plan unfolding planned by (auto split: option.splits if_splits)
      obtain g where g: "g \<in> set (trFolders t)" "p = folderInfo g" using findFolder_Some [OF p(1)] by blast
      then show ?thesis using p(2,3) placed_in_folder [OF ok g(1) name] by simp
    qed
  qed
qed

text \<open>Replacing one item by another of its id and vault, placed, whose key is free, keeps a table well formed.\<close>

lemma items_replaced:
  assumes X: "items_ok K F X" and x: "x \<in> set X" and id: "itId x' = itId x" "itVault x' = itVault x"
    and place: "placed F (itVault x') (itParent x') (itPath x')"
    and free: "\<And>y. y \<in> set X \<Longrightarrow> itVault y = itVault x \<Longrightarrow> K (itPath y) = K (itPath x') \<Longrightarrow> y = x"
  shows "items_ok K F (map (\<lambda>y. if itId y = itId x then x' else y) X)"
proof -
  let ?r = "\<lambda>y. if itId y = itId x then x' else y"
  have same: "y = x" if "y \<in> set X" "itId y = itId x" for y by (rule items_id [OF X that(1) x that(2)])
  have uniq: "?r y = ?r z" if yz: "y \<in> set X" "z \<in> set X" and v: "itVault (?r y) = itVault (?r z)"
    and k: "K (itPath (?r y)) = K (itPath (?r z))" for y z
  proof (cases "itId y = itId x"; cases "itId z = itId x")
    assume c: "itId y = itId x" "itId z \<noteq> itId x"
    then have "z = x" using free [OF yz(2)] v k id by simp
    then show ?thesis using c by simp
  next
    assume c: "itId y \<noteq> itId x" "itId z = itId x"
    then have "y = x" using free [OF yz(1)] v k id by simp
    then show ?thesis using c by simp
  next
    assume c: "itId y \<noteq> itId x" "itId z \<noteq> itId x"
    then show ?thesis using items_unique [OF X yz] v k by simp
  qed simp
  have ids: "map itId (map ?r X) = map itId X" using id by (auto simp: same)
  have place: "placed F (itVault (?r y)) (itParent (?r y)) (itPath (?r y))" if "y \<in> set X" for y
    using items_placed [OF X that] place by simp
  show ?thesis
    unfolding items_ok_def ids set_map ball_simps(9)
  proof (intro conjI ballI impI)
    show "distinct (map itId X)" using X by (simp add: items_ok_def)
    show "placed F (itVault (?r y)) (itParent (?r y)) (itPath (?r y))" if "y \<in> set X" for y by (rule place [OF that])
    show "?r y = ?r z" if "y \<in> set X" "z \<in> set X"
      "itVault (?r y) = itVault (?r z) \<and> K (itPath (?r y)) = K (itPath (?r z))" for y z
      using uniq [OF that(1,2)] that(3) by blast
  qed
qed

lemma moveNote_ok:
  assumes ok: "tree_ok env t" and keys: "keys_agree env" and m: "moveNote env t i input = Inr (t', r)"
  shows "tree_ok env t'"
proof -
  obtain n where n: "findNote t i = Some n" using m by (auto simp: moveNote_def split: option.splits)
  note n' = findNote_Some [OF n]
  obtain loc where plan: "planNoteMove env t n input = Inr loc"
    using m n by (cases "planNoteMove env t n input") (auto simp: moveNote_def)
  note m' = m [unfolded moveNote_def n option.case plan sum.case Let_def]
  define title where "title = (case mnTitle input of None \<Rightarrow> tnTitle n | Some x \<Rightarrow> x)"
  define mv where "mv = (\<lambda>x::tree_note. x\<lparr>tnPath := lcPath loc, tnTitle := title, tnFolder := lcFolder loc, tnUpdatedAt := trNow t\<rparr>)"
  have t': "t' = t\<lparr>trNotes := map (\<lambda>x. if tnId x = i then mv x else x) (trNotes t)\<rparr>"
    using m' by (auto simp: mv_def title_def split: if_splits)
  have free: "tnId y = i" if "\<not> treeSamePath env (lcPath loc) (tnPath n)" "y \<in> set (trNotes t)" "tnVault y = tnVault n"
    "teKey env (tnPath y) = teKey env (lcPath loc)" "tnDeletedAt y = None" for y
    using m' that by (auto simp: list_ex_iff split: if_splits)
  have same: "x = n" if "x \<in> set (trNotes t)" "tnId x = i" for x
    using tree_ok_parts(4) [OF ok] that n' unfolding distinct_map inj_on_def by blast
  have live: "tnDeletedAt (mv x) = tnDeletedAt x" and idm: "tnId (mv x) = tnId x" for x by (simp_all add: mv_def)
  have "noteItems t' = map (\<lambda>y. if itId y = itId (noteItem n) then noteItem (mv n) else y) (noteItems t)"
    using n' same unfolding noteItems_def t'
    by (auto simp: filter_map comp_def live if_distrib [of tnDeletedAt] cong: if_cong)
  moreover have "items_ok (teKey env) (folderItems t) (map (\<lambda>y. if itId y = itId (noteItem n) then noteItem (mv n) else y) (noteItems t))"
  proof (rule items_replaced [OF tree_ok_parts(2) [OF ok]])
    show "noteItem n \<in> set (noteItems t)" using n' by (simp add: set_noteItems)
    show "placed (folderItems t) (itVault (noteItem (mv n))) (itParent (noteItem (mv n))) (itPath (noteItem (mv n)))"
      using planNoteMove_placed [OF ok _ _ plan] n' by (simp add: mv_def)
    fix y assume y: "y \<in> set (noteItems t)" "itVault y = itVault (noteItem n)" "teKey env (itPath y) = teKey env (itPath (noteItem (mv n)))"
    then obtain x where x: "x \<in> set (trNotes t)" "tnDeletedAt x = None" "y = noteItem x" by (auto simp: set_noteItems)
    show "y = noteItem n"
    proof (cases "treeSamePath env (lcPath loc) (tnPath n)")
      case True
      then show ?thesis
        using y n' by (intro items_unique [OF tree_ok_parts(2) [OF ok]]) (simp_all add: set_noteItems key_same [OF keys] mv_def)
    next
      case False
      then have "tnId x = i" using free [OF False x(1)] y x by (simp add: mv_def)
      then show ?thesis using same [OF x(1)] x(3) by simp
    qed
  qed (simp_all add: mv_def)
  moreover have "map tnId (trNotes t') = map tnId (trNotes t)" unfolding t' by (simp add: idm)
  moreover have "folderItems t' = folderItems t" "fileItems t' = fileItems t"
    unfolding t' by (simp_all add: folderItems_def fileItems_def)
  ultimately show ?thesis using ok unfolding tree_ok_def by simp
qed


section \<open>Deleting a folder\<close>

lemma map_filter_map:
  assumes "\<And>x. x \<in> set xs \<Longrightarrow> P (u x) \<longleftrightarrow> Q x" "\<And>x. x \<in> set xs \<Longrightarrow> Q x \<Longrightarrow> f (u x) = f x"
  shows "map f (filter P (map u xs)) = map f (filter Q xs)"
  using assms by (induction xs) auto

lemma items_sub:
  assumes X: "items_ok K F X" and sub: "set X' \<subseteq> set X" and d: "distinct (map itId X')"
    and parents: "\<And>x g. x \<in> set X' \<Longrightarrow> g \<in> set F \<Longrightarrow> itParent x = Some (itId g) \<Longrightarrow> g \<in> set F'"
  shows "items_ok K F' X'"
proof -
  have "placed F' (itVault x) (itParent x) (itPath x)" if x: "x \<in> set X'" for x
    using items_placed [OF X subsetD [OF sub x]] parents [OF x] by (auto simp: placed_def split: option.splits)
  then show ?thesis using X sub d unfolding items_ok_def by blast
qed

lemma childLoop_all:
  assumes "\<And>acc work i. \<forall>j \<in> set work. P j \<Longrightarrow> i \<in> set (childRound t acc work) \<Longrightarrow> P i"
    and "\<forall>j \<in> set acc. P j" "\<forall>j \<in> set work. P j"
  shows "\<forall>j \<in> set (childLoop t acc work). P j"
  using assms
proof (induction t acc work rule: childLoop.induct)
  case (1 t acc work)
  have more: "\<forall>j \<in> set (childRound t acc work). P j" using "1.prems"(1) [OF "1.prems"(3)] by blast
  show ?case
  proof (cases "childRound t acc work = []")
    case True
    then show ?thesis using "1.prems"(2) by (simp add: childLoop.simps [of t acc work])
  next
    case False
    then have "childLoop t acc work = childLoop t (acc @ childRound t acc work) (childRound t acc work)"
      by (simp add: childLoop.simps [of t acc work] Let_def)
    moreover have "\<forall>j \<in> set (acc @ childRound t acc work). P j" using more "1.prems"(2) by auto
    ultimately show ?thesis using "1.IH" [OF refl False "1.prems"(1) _ more] by simp
  qed
qed

lemma subtree_vault:
  assumes ok: "tree_ok env t" and f: "f \<in> set (trFolders t)" and g: "g \<in> set (trFolders t)"
    and i: "tfId g \<in> set (folderSubtree t (tfId f))"
  shows "tfVault g = tfVault f"
proof -
  let ?P = "\<lambda>j. \<exists>h \<in> set (trFolders t). tfId h = j \<and> tfVault h = tfVault f"
  have child: "?P k" if w: "\<forall>j \<in> set work. ?P j" and k: "k \<in> set (childRound t acc work)" for acc work k
  proof -
    obtain x where x: "x \<in> set (trFolders t)" "tfId x = k" "tfParent x \<in> Some ` set work"
      using k unfolding set_childRound by blast
    then obtain p where p: "tfParent x = Some p" "p \<in> set work" by blast
    then obtain y where y: "y \<in> set (trFolders t)" "tfId y = p" "tfVault y = tfVault f" using w by blast
    obtain z where z: "z \<in> set (trFolders t)" "tfId z = p" "tfVault z = tfVault x"
      using folder_placed [OF ok x(1)] p(1) by (auto simp: placed_def set_folderItems)
    have "z = y" by (rule folder_id_eq [OF ok z(1) y(1)]) (simp add: z(2) y(2))
    then show ?thesis using x y z by auto
  qed
  have "\<forall>j \<in> set (folderSubtree t (tfId f)). ?P j"
    unfolding folderSubtree_def Let_def
  proof (rule childLoop_all)
    show "?P i" if "\<forall>j \<in> set work. ?P j" "i \<in> set (childRound t acc work)" for acc work i
      by (rule child [OF that])
  qed (use folder_id_eq [OF ok f] f in \<open>auto\<close>)
  then obtain h where h: "h \<in> set (trFolders t)" "tfId h = tfId g" "tfVault h = tfVault f" using i by blast
  have "h = g" by (rule folder_id_eq [OF ok h(1) g h(2)])
  then show ?thesis using h(3) by simp
qed

text \<open>What the cascade removes of the subtree at a folder.\<close>

definition cascadeHit :: "tree \<Rightarrow> folder_info \<Rightarrow> string \<Rightarrow> string option \<Rightarrow> string \<Rightarrow> bool" where
  "cascadeHit t f v fld path \<longleftrightarrow> v = fiVault f \<and>
     (inIds (folderSubtree t (fiId f)) fld \<or> path = fiPath f \<or> under (fiPath f) path)"

lemma deleteFolderCascade_cases:
  assumes "deleteFolderCascade env t i by = Inr (t', r)"
  obtains f where "f \<in> set (trFolders t)" "tfId f = i"
    "folderItems t' = map folderItem (filter (\<lambda>g. tfId g \<notin> set (folderSubtree t i)) (trFolders t))"
    "trNotes t' = map (\<lambda>n. (if tnDeletedAt n = None \<and> cascadeHit t (folderInfo f) (tnVault n) (tnFolder n) (tnPath n)
        then n\<lparr>tnDeletedAt := Some (trNow t), tnDeletedBy := by, tnPurgeAfter := Some (trNow t + teRetention env)\<rparr> else n)
        \<lparr>tnFolder := (if inIds (folderSubtree t i) (tnFolder n) then None else tnFolder n)\<rparr>) (trNotes t)"
    "trFiles t' = map (\<lambda>x. x\<lparr>tlFolder := (if inIds (folderSubtree t i) (tlFolder x) then None else tlFolder x)\<rparr>)
       (filter (\<lambda>x. \<not> (tlId x \<in> set (dfFiles r) \<and> tlVault x = tfVault f)) (trFiles t))"
    "dfFiles r = map tlId (filter (\<lambda>x. cascadeHit t (folderInfo f) (tlVault x) (tlFolder x) (tlPath x)) (trFiles t))"
    "dfNotes r = map tnId (filter (\<lambda>n. tnDeletedAt n = None \<and> cascadeHit t (folderInfo f) (tnVault n) (tnFolder n) (tnPath n)) (trNotes t))"
    "trFolderTombs t' = addTombs (map (\<lambda>f. \<lparr>ttId = tfId f, ttVault = tfVault f, ttPath = tfPath f\<rparr>)
       (filter (\<lambda>f. tfId f \<in> set (folderSubtree t i)) (trFolders t))) (trFolderTombs t)"
    "trFileTombs t' = addTombs (map (\<lambda>f. \<lparr>ttId = tlId f, ttVault = tlVault f, ttPath = tlPath f\<rparr>)
       (filter (\<lambda>f. tlId f \<in> set (dfFiles r)) (trFiles t))) (trFileTombs t)"
proof -
  obtain fi where fi: "findFolder t i = Some fi" using assms by (auto simp: deleteFolderCascade_def split: option.splits)
  obtain f where f: "f \<in> set (trFolders t)" "tfId f = i" "fi = folderInfo f" using findFolder_Some [OF fi] by blast
  note d = assms [unfolded deleteFolderCascade_def fi option.case Let_def likeUnder_under, unfolded sum.inject prod.inject]
  have hit: "(tnVault n = fiVault fi \<and> (inIds (folderSubtree t i) (tnFolder n) \<or> tnPath n = fiPath fi \<or> under (fiPath fi) (tnPath n)))
      = cascadeHit t (folderInfo f) (tnVault n) (tnFolder n) (tnPath n)" for n :: tree_note
    by (simp add: cascadeHit_def f(2,3))
  have fhit: "(tlVault n = fiVault fi \<and> (inIds (folderSubtree t i) (tlFolder n) \<or> tlPath n = fiPath fi \<or> under (fiPath fi) (tlPath n)))
      = cascadeHit t (folderInfo f) (tlVault n) (tlFolder n) (tlPath n)" for n :: tree_file
    by (simp add: cascadeHit_def f(2,3))
  note d' = d [unfolded hit fhit, THEN conjunct1, symmetric] d [unfolded hit fhit, THEN conjunct2, symmetric]
  show thesis
    by (rule that [OF f(1,2)]) (unfold d' folderItems_def, use f(3) in simp_all)
qed

text \<open>A row in the subtree by its folder is of the folder's vault.\<close>

lemma subtree_row:
  assumes ok: "tree_ok env t" and f: "f \<in> set (trFolders t)"
    and p: "placed (folderItems t) v q p" and s: "inIds (folderSubtree t (tfId f)) q"
  obtains g where "g \<in> set (trFolders t)" "tfId g \<in> set (folderSubtree t (tfId f))" "tfVault g = v" "v = tfVault f"
    "dirname p \<noteq> []" "tfPath g = dirname p"
proof -
  obtain j where j: "q = Some j" "j \<in> set (folderSubtree t (tfId f))" using s by (auto simp: inIds_def split: option.splits)
  obtain g where g: "g \<in> set (trFolders t)" "tfId g = j" "tfVault g = v" "dirname p \<noteq> []" "tfPath g = dirname p"
    using p unfolding placed_def j(1) option.case set_folderItems by force
  have "tfVault g = tfVault f" by (rule subtree_vault [OF ok f g(1)]) (simp add: g(2) j(2))
  then show thesis using j(2) g by (intro that [of g]) simp_all
qed

text \<open>What the cascade leaves.\<close>

lemma cascade_items:
  assumes ok: "tree_ok env t" and d: "deleteFolderCascade env t i by = Inr (t', r)"
  obtains f where "f \<in> set (trFolders t)" "tfId f = i"
    "folderItems t' = map folderItem (filter (\<lambda>g. tfId g \<notin> set (folderSubtree t i)) (trFolders t))"
    "noteItems t' = map noteItem (filter (\<lambda>n. tnDeletedAt n = None \<and>
      \<not> cascadeHit t (folderInfo f) (tnVault n) (tnFolder n) (tnPath n)) (trNotes t))"
    "fileItems t' = map fileItem (filter (\<lambda>x. \<not> cascadeHit t (folderInfo f) (tlVault x) (tlFolder x) (tlPath x)) (trFiles t))"
    "map tnId (trNotes t') = map tnId (trNotes t)"
  using d
proof (cases rule: deleteFolderCascade_cases)
  case (1 f)
  note f = 1(1,2) and folders = 1(3) and notes' = 1(4) and files' = 1(5) and hitIds = 1(6)
  have live: "noteItems t' = map noteItem (filter (\<lambda>n. tnDeletedAt n = None \<and>
      \<not> cascadeHit t (folderInfo f) (tnVault n) (tnFolder n) (tnPath n)) (trNotes t))"
    unfolding noteItems_def notes'
  proof (rule map_filter_map)
    fix n assume n: "n \<in> set (trNotes t)" "tnDeletedAt n = None \<and> \<not> cascadeHit t (folderInfo f) (tnVault n) (tnFolder n) (tnPath n)"
    have "\<not> inIds (folderSubtree t i) (tnFolder n)"
      using subtree_row [OF ok f(1) note_placed [OF ok n(1)]] n(2) f(2) by (auto simp: cascadeHit_def)
    then show "noteItem ((if tnDeletedAt n = None \<and> cascadeHit t (folderInfo f) (tnVault n) (tnFolder n) (tnPath n)
        then n\<lparr>tnDeletedAt := Some (trNow t), tnDeletedBy := by, tnPurgeAfter := Some (trNow t + teRetention env)\<rparr> else n)
        \<lparr>tnFolder := (if inIds (folderSubtree t i) (tnFolder n) then None else tnFolder n)\<rparr>) = noteItem n"
      using n(2) by (auto simp: noteItem_def)
  qed auto
  have filePlaced: "placed (folderItems t) (tlVault x) (tlFolder x) (tlPath x)" if "x \<in> set (trFiles t)" for x
    using items_placed [OF tree_ok_parts(3) [OF ok], of "fileItem x"] that by (simp add: fileItems_def)
  have fileId: "y = x" if "x \<in> set (trFiles t)" "y \<in> set (trFiles t)" "tlId x = tlId y" for x y
    using tree_ok_parts(3) [OF ok] that unfolding items_ok_def fileItems_def
    by (auto simp: comp_def distinct_map inj_on_def)
  have hit: "tlId x \<in> set (dfFiles r) \<and> tlVault x = tfVault f \<longleftrightarrow> cascadeHit t (folderInfo f) (tlVault x) (tlFolder x) (tlPath x)"
    if x: "x \<in> set (trFiles t)" for x
    unfolding hitIds using fileId [OF x] x by (auto simp: cascadeHit_def)
  have detached: "\<not> inIds (folderSubtree t i) (tlFolder x)"
    if "x \<in> set (trFiles t)" "\<not> cascadeHit t (folderInfo f) (tlVault x) (tlFolder x) (tlPath x)" for x
    using subtree_row [OF ok f(1) filePlaced [OF that(1)]] that f(2) by (auto simp: cascadeHit_def)
  have files: "fileItems t' = map fileItem (filter (\<lambda>x. \<not> cascadeHit t (folderInfo f) (tlVault x) (tlFolder x) (tlPath x)) (trFiles t))"
    unfolding fileItems_def files' map_map
    by (rule map_cong [OF filter_cong]) (use hit detached in \<open>auto simp: fileItem_def\<close>)
  show thesis by (rule that [OF f folders live files]) (simp add: notes')
qed

lemma deleteFolderCascade_ok:
  assumes ok: "tree_ok env t" and d: "deleteFolderCascade env t i by = Inr (t', r)"
  shows "tree_ok env t'"
  using cascade_items [OF ok d]
proof cases
  case (1 f)
  note f = 1(1,2) and folders = 1(3) and live = 1(4) and files = 1(5)
  let ?S = "set (folderSubtree t i)"
  have fset: "set (folderItems t') = {folderItem g | g. g \<in> set (trFolders t) \<and> tfId g \<notin> ?S}"
    unfolding folders by auto
  have stays: "g \<in> set (folderItems t')" if g: "g \<in> set (folderItems t)" and "itId g \<notin> ?S" for g
    using that unfolding fset by (auto simp: set_folderItems)
  have F: "items_ok (teKey env) (folderItems t') (folderItems t')"
  proof (rule items_sub [OF tree_ok_parts(1) [OF ok]])
    show "set (folderItems t') \<subseteq> set (folderItems t)" unfolding fset by (auto simp: set_folderItems)
    show "distinct (map itId (folderItems t'))"
      using distinct_folder_ids [OF ok] unfolding folders by (simp add: comp_def distinct_map_filter)
    fix x g assume x: "x \<in> set (folderItems t')" and g: "g \<in> set (folderItems t)" "itParent x = Some (itId g)"
    obtain y where y: "y \<in> set (trFolders t)" "x = folderItem y" "tfId y \<notin> ?S" using x unfolding fset by blast
    have "itId g \<notin> ?S" using folderSubtree_closed(1) [of t i] y g(2) unfolding child_closed_def by auto
    then show "g \<in> set (folderItems t')" by (rule stays [OF g(1)])
  qed
  have outside: "g \<in> set (folderItems t')"
    if x: "placed (folderItems t) v (Some (itId g)) p" "\<not> cascadeHit t (folderInfo f) v (Some (itId g)) p"
      and g: "g \<in> set (folderItems t)" for v p g
  proof -
    have "\<not> inIds (folderSubtree t i) (Some (itId g))"
      using subtree_row [OF ok f(1) x(1)] x(2) f(2) by (auto simp: cascadeHit_def)
    then show ?thesis by (intro stays [OF g]) (simp add: inIds_def)
  qed
  have N: "items_ok (teKey env) (folderItems t') (noteItems t')"
  proof (rule items_sub [OF tree_ok_parts(2) [OF ok]])
    show "set (noteItems t') \<subseteq> set (noteItems t)" unfolding live by (auto simp: set_noteItems)
    show "distinct (map itId (noteItems t'))"
      using tree_ok_parts(4) [OF ok] unfolding live by (simp add: comp_def distinct_map_filter)
    fix x g assume x: "x \<in> set (noteItems t')" and g: "g \<in> set (folderItems t)" "itParent x = Some (itId g)"
    obtain n where n: "n \<in> set (trNotes t)" "tnDeletedAt n = None"
      "\<not> cascadeHit t (folderInfo f) (tnVault n) (tnFolder n) (tnPath n)" "x = noteItem n"
      using x unfolding live by auto
    show "g \<in> set (folderItems t')"
      using outside [OF _ _ g(1)] note_placed [OF ok n(1,2)] n(3,4) g(2) by simp
  qed
  have L: "items_ok (teKey env) (folderItems t') (fileItems t')"
  proof (rule items_sub [OF tree_ok_parts(3) [OF ok]])
    show "set (fileItems t') \<subseteq> set (fileItems t)" unfolding files by (auto simp: fileItems_def)
    show "distinct (map itId (fileItems t'))"
      using tree_ok_parts(3) [OF ok] unfolding files by (simp add: items_ok_def fileItems_def comp_def distinct_map_filter)
    fix x g assume x: "x \<in> set (fileItems t')" and g: "g \<in> set (folderItems t)" "itParent x = Some (itId g)"
    obtain y where y: "y \<in> set (trFiles t)" "\<not> cascadeHit t (folderInfo f) (tlVault y) (tlFolder y) (tlPath y)" "x = fileItem y"
      using x unfolding files by auto
    have "placed (folderItems t) (tlVault y) (tlFolder y) (tlPath y)"
      using items_placed [OF tree_ok_parts(3) [OF ok], of "fileItem y"] y(1) by (simp add: fileItems_def)
    then show "g \<in> set (folderItems t')" using outside [OF _ _ g(1)] y(2,3) g(2) by simp
  qed
  show ?thesis using F N L 1(6) tree_ok_parts(4) [OF ok] unfolding tree_ok_def by simp
qed

end
