(* ===== verification/Reg_Batch.thy ===== *)
theory Reg_Batch
  imports Reg_Delete
begin

text \<open>
  Registration (\<open>server/src/registry/batch-ops.ts\<close>): the rows a client reports for its folders, notes
  and files, adopted by path or created, behind the permission gates, the frozen root and the note
  quota. The request's context is a state: the path caches, written through, and the ids created in
  this request. A gate's answer is a function of the request; ids minted by \<open>randomUUID\<close> are inputs.
\<close>

section \<open>Context\<close>

record reg_folder =
  rfId :: string
  rfParent :: "string option"
  rfName :: string
  rfPath :: string
  rfColor :: "string option"

record reg_note =
  rnId :: string
  rnFolder :: "string option"
  rnTitle :: "string option"
  rnPath :: string

record reg_file =
  rlId :: string
  rlFolder :: "string option"
  rlPath :: string

text \<open>The gates of a request: \<open>canCreateIn\<close>, the visible folders, the documents an item-level
  Private hides, the readable documents, \<open>canEditDoc\<close> and \<open>isRootFrozen\<close>.\<close>

record reg_gates =
  rgCanCreateIn :: "string option \<Rightarrow> bool"
  rgVisibleFolder :: "string \<Rightarrow> bool"
  rgHiddenDoc :: "string \<Rightarrow> bool"
  rgReadableDoc :: "string \<Rightarrow> bool"
  rgCanEditDoc :: "string \<Rightarrow> bool"
  rgRootFrozen :: bool

record reg_ctx =
  rxVault :: string
  rxUser :: string
  rxFolders :: "string \<rightharpoonup> reg_folder option"
  rxNotes :: "string \<rightharpoonup> reg_note option"
  rxFiles :: "string \<rightharpoonup> reg_file option"
  rxCreated :: "string list"

definition registerCtx :: "string \<Rightarrow> string \<Rightarrow> reg_ctx" where
  "registerCtx vaultId userId = \<lparr>rxVault = vaultId, rxUser = userId, rxFolders = Map.empty,
     rxNotes = Map.empty, rxFiles = Map.empty, rxCreated = []\<rparr>"

definition canSeeFolder :: "reg_gates \<Rightarrow> reg_ctx \<Rightarrow> string \<Rightarrow> bool" where
  "canSeeFolder g ctx folderId \<longleftrightarrow> folderId \<in> set (rxCreated ctx) \<or> rgVisibleFolder g folderId"

definition canAdoptDoc :: "reg_gates \<Rightarrow> reg_ctx \<Rightarrow> string \<Rightarrow> bool" where
  "canAdoptDoc g ctx docId \<longleftrightarrow>
     docId \<in> set (rxCreated ctx) \<or> \<not> rgHiddenDoc g docId \<or> rgReadableDoc g docId"

definition noteCreated :: "string \<Rightarrow> reg_ctx \<Rightarrow> reg_ctx" where
  "noteCreated i ctx = ctx\<lparr>rxCreated := rxCreated ctx @ [i]\<rparr>"

text \<open>\<open>color\<close> as it arrives in a request body.\<close>

datatype color_input = ColorAbsent | ColorNull | ColorString string | ColorOther

definition normalizeColor :: "tree_env \<Rightarrow> color_input \<Rightarrow> string option option" where
  "normalizeColor env v =
     (case v of
        ColorAbsent \<Rightarrow> None
      | ColorNull \<Rightarrow> Some None
      | ColorString s \<Rightarrow> if s = [] then Some None else if jsLength env s > 32 then None else Some (Some s)
      | ColorOther \<Rightarrow> None)"

datatype reg_code =
    PathFolderMismatch tree_error
  | TransientFile
  | NoWriteAccess
  | NoteLimitReached
  | RootFrozen
  | NotReadable
  | DocIdConflict
  | NoteDeleted
  | Unresolved

datatype 'r reg_result =
    Created 'r
  | Adopted 'r bool
  | Conflict reg_code string
  | Refused reg_code
  | UniqueViolation

section \<open>Folders\<close>

definition toFolder :: "tree_folder \<Rightarrow> reg_folder" where
  "toFolder f = \<lparr>rfId = tfId f, rfParent = tfParent f, rfName = tfName f, rfPath = tfPath f, rfColor = tfColor f\<rparr>"

definition folderByKey :: "tree_env \<Rightarrow> tree \<Rightarrow> string \<Rightarrow> string \<Rightarrow> reg_folder option" where
  "folderByKey env t vaultId key =
     map_option toFolder
       (oldestFolder (filter (\<lambda>f. tfVault f = vaultId \<and> teKey env (tfPath f) = key) (trFolders t)))"

definition folderByPath :: "tree_env \<Rightarrow> tree \<Rightarrow> reg_ctx \<Rightarrow> string \<Rightarrow> bool \<Rightarrow> reg_folder option \<times> reg_ctx" where
  "folderByPath env t ctx path fresh =
     (case (if fresh then None else rxFolders ctx (treePathKey env path)) of
        Some hit \<Rightarrow> (hit, ctx)
      | None \<Rightarrow>
          (let row = folderByKey env t (rxVault ctx) (teKey env path)
           in (row, ctx\<lparr>rxFolders := (rxFolders ctx)(treePathKey env path \<mapsto> row)\<rparr>)))"

definition prefetchFolders :: "tree_env \<Rightarrow> tree \<Rightarrow> reg_ctx \<Rightarrow> string list \<Rightarrow> reg_ctx" where
  "prefetchFolders env t ctx paths =
     (let wanted = filter (\<lambda>k. rxFolders ctx k = None)
            (remdups (map (treePathKey env) (filter (\<lambda>p. p \<noteq> []) paths)));
          rows = List.map_filter (folderByKey env t (rxVault ctx)) (remdups (map (teKey env) wanted));
          missed = fold (\<lambda>k m. m(k \<mapsto> None)) wanted (rxFolders ctx)
      in ctx\<lparr>rxFolders := fold (\<lambda>r m. m(treePathKey env (rfPath r) \<mapsto> Some r)) rows missed\<rparr>)"

definition cachedFolderLookup :: "tree_env \<Rightarrow> tree \<Rightarrow> reg_ctx folder_lookup" where
  "cachedFolderLookup env t = (\<lambda>ctx _ path.
     (case folderByPath env t ctx path False of
        (row, ctx') \<Rightarrow>
          (map_option (\<lambda>r. \<lparr>fiId = rfId r, fiVault = rxVault ctx, fiPath = rfPath r, fiParent = rfParent r\<rparr>) row, ctx')))"

record folder_input =
  fnPath :: string
  fnName :: string
  fnParent :: "string option"
  fnColor :: color_input
  fnSort :: "int option"

text \<open>An insert meets the unique index on the path's key within a vault.\<close>

definition insertFolder :: "tree_env \<Rightarrow> tree \<Rightarrow> tree_folder \<Rightarrow> tree option" where
  "insertFolder env t row =
     (if list_ex (\<lambda>f. tfVault f = tfVault row \<and> teKey env (tfPath f) = teKey env (tfPath row)) (trFolders t)
      then None else Some (t\<lparr>trFolders := trFolders t @ [row]\<rparr>))"

definition registerFolder :: "tree_env \<Rightarrow> reg_gates \<Rightarrow> string \<Rightarrow> folder_input \<Rightarrow> tree \<times> reg_ctx
    \<Rightarrow> reg_folder reg_result \<times> tree \<times> reg_ctx" where
  "registerFolder env g newId input s =
     (case s of (t, ctx) \<Rightarrow>
       (case folderByPath env t ctx (fnPath input) False of
          (Some existing, ctx1) \<Rightarrow>
            if \<not> canSeeFolder g ctx1 (rfId existing) then (Refused NotReadable, t, ctx1)
            else (Adopted existing False, t, ctx1)
        | (None, ctx1) \<Rightarrow>
            (case resolveFolderParent env t (cachedFolderLookup env t) ctx1 (rxVault ctx1) (fnPath input) (fnParent input) of
               (Inl e, ctx2) \<Rightarrow> (Refused (PathFolderMismatch e), t, ctx2)
             | (Inr loc, ctx2) \<Rightarrow>
                 if \<not> rgCanCreateIn g (lcFolder loc) then (Refused NoWriteAccess, t, ctx2)
                 else if lcFolder loc = None \<and> rgRootFrozen g then (Refused RootFrozen, t, ctx2)
                 else
                   (let color = (case normalizeColor env (fnColor input) of None \<Rightarrow> None | Some c \<Rightarrow> c);
                        row = \<lparr>tfId = newId, tfVault = rxVault ctx2, tfParent = lcFolder loc, tfName = fnName input,
                               tfPath = lcPath loc, tfColor = color,
                               tfSort = (case fnSort input of None \<Rightarrow> 0 | Some n \<Rightarrow> n),
                               tfCreatedBy = Some (rxUser ctx2), tfCreatedAt = trNow t\<rparr>
                    in case insertFolder env t row of
                         None \<Rightarrow>
                           (case folderByPath env t ctx2 (lcPath loc) True of
                              (Some winner, ctx3) \<Rightarrow>
                                if \<not> canSeeFolder g ctx3 (rfId winner) then (Refused NotReadable, t, ctx3)
                                else (Adopted winner False, t, ctx3)
                            | (None, ctx3) \<Rightarrow> (UniqueViolation, t, ctx3))
                       | Some t' \<Rightarrow>
                           (Created (toFolder row), t',
                            (noteCreated newId ctx2)\<lparr>rxFolders := (rxFolders ctx2)(treePathKey env (lcPath loc) \<mapsto> Some (toFolder row))\<rparr>)))))"

text \<open>\<open>pathDepth\<close>, the order of a folder batch.\<close>

definition pathDepth :: "string \<Rightarrow> int" where
  "pathDepth path = fold (\<lambda>c n. if c = CHR ''/'' then n + 1 else n) path 1"

text \<open>\<open>POST /vaults/:id/folders/batch\<close> (\<open>http/routes/bulk.ts\<close>): the valid items by depth and then by
  position, after one prefetch; the others keep \<open>invalid_body\<close>, here \<open>None\<close>.\<close>

definition folderBatchOrder :: "folder_input list \<Rightarrow> (nat \<times> folder_input) list" where
  "folderBatchOrder items =
     sort_key (\<lambda>(i, x). pathDepth (fnPath x)) (filter (\<lambda>(i, x). fnPath x \<noteq> [] \<and> fnName x \<noteq> []) (enumerate 0 items))"

fun registerFolderList :: "tree_env \<Rightarrow> reg_gates \<Rightarrow> (nat \<Rightarrow> string) \<Rightarrow> (nat \<times> folder_input) list \<Rightarrow> tree \<times> reg_ctx
    \<Rightarrow> (nat \<times> reg_folder reg_result) list \<times> tree \<times> reg_ctx" where
  "registerFolderList env g newIds [] s = ([], s)"
| "registerFolderList env g newIds ((i, x) # xs) s =
     (case registerFolder env g (newIds i) x s of
        (r, s') \<Rightarrow> (case registerFolderList env g newIds xs s' of (rs, s'') \<Rightarrow> ((i, r) # rs, s'')))"

definition foldersBatch :: "tree_env \<Rightarrow> reg_gates \<Rightarrow> (nat \<Rightarrow> string) \<Rightarrow> string \<Rightarrow> string \<Rightarrow> folder_input list \<Rightarrow> tree
    \<Rightarrow> reg_folder reg_result option list \<times> tree" where
  "foldersBatch env g newIds vaultId userId items t =
     (let ordered = folderBatchOrder (map (\<lambda>x. x\<lparr>fnParent := None, fnSort := None\<rparr>) items);
          ctx = prefetchFolders env t (registerCtx vaultId userId)
            (map (\<lambda>(i, x). fnPath x) ordered @ map (\<lambda>(i, x). dirname (fnPath x)) ordered)
      in case registerFolderList env g newIds ordered (t, ctx) of
           (rs, t', _) \<Rightarrow> (map (map_of rs) [0 ..< length items], t'))"


section \<open>Notes\<close>

definition toNote :: "tree_note \<Rightarrow> reg_note" where
  "toNote n = \<lparr>rnId = tnId n, rnFolder = tnFolder n, rnTitle = tnTitle n, rnPath = tnPath n\<rparr>"

definition oldestNote :: "tree_note list \<Rightarrow> tree_note option" where
  "oldestNote rows = first_row (\<lambda>n. list_all (\<lambda>m.
     tnCreatedAt n < tnCreatedAt m \<or> (tnCreatedAt n = tnCreatedAt m \<and> tnId n \<le> tnId m)) rows) rows"

definition liveNotesAt :: "tree_env \<Rightarrow> tree \<Rightarrow> string \<Rightarrow> string \<Rightarrow> tree_note list" where
  "liveNotesAt env t vaultId key =
     filter (\<lambda>n. tnVault n = vaultId \<and> teKey env (tnPath n) = key \<and> tnDeletedAt n = None) (trNotes t)"

definition noteByKey :: "tree_env \<Rightarrow> tree \<Rightarrow> string \<Rightarrow> string \<Rightarrow> reg_note option" where
  "noteByKey env t vaultId key = map_option toNote (oldestNote (liveNotesAt env t vaultId key))"

definition liveNoteByPath :: "tree_env \<Rightarrow> tree \<Rightarrow> reg_ctx \<Rightarrow> string \<Rightarrow> bool \<Rightarrow> reg_note option \<times> reg_ctx" where
  "liveNoteByPath env t ctx relPath fresh =
     (case (if fresh then None else rxNotes ctx (treePathKey env relPath)) of
        Some hit \<Rightarrow> (hit, ctx)
      | None \<Rightarrow>
          (let row = noteByKey env t (rxVault ctx) (teKey env relPath)
           in (row, ctx\<lparr>rxNotes := (rxNotes ctx)(treePathKey env relPath \<mapsto> row)\<rparr>)))"

definition prefetchNotes :: "tree_env \<Rightarrow> tree \<Rightarrow> reg_ctx \<Rightarrow> string list \<Rightarrow> reg_ctx" where
  "prefetchNotes env t ctx relPaths =
     (let wanted = filter (\<lambda>k. rxNotes ctx k = None)
            (remdups (map (treePathKey env) (filter (\<lambda>p. p \<noteq> []) relPaths)));
          rows = List.map_filter (noteByKey env t (rxVault ctx)) (remdups (map (teKey env) wanted));
          missed = fold (\<lambda>k m. m(k \<mapsto> None)) wanted (rxNotes ctx);
          ctx1 = ctx\<lparr>rxNotes := fold (\<lambda>r m. m(treePathKey env (rnPath r) \<mapsto> Some r)) rows missed\<rparr>
      in prefetchFolders env t ctx1 (map dirname relPaths))"

record note_input =
  niPath :: string
  niDocId :: "string option"
  niFolder :: "string option"
  niTitle :: "string option"
  niColor :: color_input

record note_plan =
  npIndex :: nat
  npId :: string
  npFolder :: "string option"
  npTitle :: "string option"
  npPath :: string
  npColor :: "string option"

definition probeIds :: "tree \<Rightarrow> string list \<Rightarrow> string list" where
  "probeIds t ids = filter (\<lambda>i. list_ex (\<lambda>n. tnId n = i) (trNotes t)) ids"

definition suppliedId :: "string option \<Rightarrow> string \<Rightarrow> string" where
  "suppliedId docId newId = (if truthy docId then the docId else newId)"

definition suppliedIds :: "note_input list \<Rightarrow> string list" where
  "suppliedIds inputs = map (\<lambda>x. the (niDocId x)) (filter (\<lambda>x. truthy (niDocId x)) inputs)"

text \<open>The loop's state: the results so far, the planned rows, the ids this batch claimed and what is
  left of the quota.\<close>

record note_loop =
  nlCtx :: reg_ctx
  nlRemaining :: "int option"
  nlKnown :: "string list"
  nlPlans :: "note_plan list"
  nlResults :: "nat \<rightharpoonup> reg_note reg_result"

definition decided :: "nat \<Rightarrow> reg_note reg_result \<Rightarrow> reg_ctx \<Rightarrow> note_loop \<Rightarrow> note_loop" where
  "decided i r ctx st = st\<lparr>nlCtx := ctx, nlResults := (nlResults st)(i \<mapsto> r)\<rparr>"

definition planned :: "tree_env \<Rightarrow> note_plan \<Rightarrow> int option \<Rightarrow> reg_ctx \<Rightarrow> note_loop \<Rightarrow> note_loop" where
  "planned env p remaining ctx st = st\<lparr>
     nlCtx := ctx\<lparr>rxNotes := (rxNotes ctx)(treePathKey env (npPath p) \<mapsto>
        Some \<lparr>rnId = npId p, rnFolder = npFolder p, rnTitle = npTitle p, rnPath = npPath p\<rparr>)\<rparr>,
     nlRemaining := remaining, nlKnown := nlKnown st @ [npId p], nlPlans := nlPlans st @ [p]\<rparr>"

definition planNoteInsert :: "tree_env \<Rightarrow> reg_gates \<Rightarrow> tree \<Rightarrow> string list \<Rightarrow> nat \<Rightarrow> string \<Rightarrow> note_input \<Rightarrow> note_loop \<Rightarrow> note_loop" where
  "planNoteInsert env g t supplied index newId input st =
     (let docId = suppliedId (niDocId input) newId
      in case liveNoteByPath env t (nlCtx st) (niPath input) False of
           (Some byPath, ctx1) \<Rightarrow>
             decided index (if canAdoptDoc g ctx1 (rnId byPath) then Adopted byPath False else Refused NotReadable) ctx1 st
         | (None, ctx1) \<Rightarrow>
             (case resolveParentFolder env t (cachedFolderLookup env t) ctx1 (rxVault ctx1) (niPath input) (niFolder input) of
                (Inl e, ctx2) \<Rightarrow> decided index (Refused (PathFolderMismatch e)) ctx2 st
              | (Inr loc, ctx2) \<Rightarrow>
                  if \<not> rgCanCreateIn g (lcFolder loc) then decided index (Refused NoWriteAccess) ctx2 st
                  else if lcFolder loc = None \<and> rgRootFrozen g \<and>
                    docId \<notin> set (probeIds t supplied) \<and> docId \<notin> set (nlKnown st)
                  then decided index (Refused RootFrozen) ctx2 st
                  else
                    (let counts = nlRemaining st \<noteq> None \<and> docId \<notin> set (probeIds t supplied) \<and> docId \<notin> set (nlKnown st)
                     in if counts \<and> the (nlRemaining st) \<le> 0
                        then decided index (Refused NoteLimitReached) ctx2 st
                        else planned env
                          \<lparr>npIndex = index, npId = docId, npFolder = lcFolder loc, npTitle = niTitle input,
                           npPath = lcPath loc,
                           npColor = (case normalizeColor env (niColor input) of None \<Rightarrow> None | Some c \<Rightarrow> c)\<rparr>
                          (if counts then Some (the (nlRemaining st) - 1) else nlRemaining st) ctx2 st)))"

fun planNoteInserts :: "tree_env \<Rightarrow> reg_gates \<Rightarrow> tree \<Rightarrow> string list \<Rightarrow> (nat \<Rightarrow> string) \<Rightarrow> nat \<Rightarrow> note_input list
    \<Rightarrow> note_loop \<Rightarrow> note_loop" where
  "planNoteInserts env g t supplied newIds i [] st = st"
| "planNoteInserts env g t supplied newIds i (x # xs) st =
     planNoteInserts env g t supplied newIds (Suc i) xs (planNoteInsert env g t supplied i (newIds i) x st)"

definition noteRow :: "tree \<Rightarrow> reg_ctx \<Rightarrow> note_plan \<Rightarrow> tree_note" where
  "noteRow t ctx p = \<lparr>tnId = npId p, tnVault = rxVault ctx, tnFolder = npFolder p, tnTitle = npTitle p,
     tnPath = npPath p, tnColor = npColor p, tnCreatedBy = Some (rxUser ctx), tnCreatedAt = trNow t,
     tnUpdatedAt = trNow t, tnDeletedAt = None, tnDeletedBy = None, tnPurgeAfter = None\<rparr>"

text \<open>\<open>INSERT ... ON CONFLICT (id) DO NOTHING\<close> against the primary key and the index on live paths.\<close>

datatype insert_outcome = Inserted tree | Skipped | Violates

definition insertNote :: "tree_env \<Rightarrow> tree \<Rightarrow> tree_note \<Rightarrow> insert_outcome" where
  "insertNote env t row =
     (if list_ex (\<lambda>n. tnId n = tnId row) (trNotes t) then Skipped
      else if liveNotesAt env t (tnVault row) (teKey env (tnPath row)) \<noteq> [] then Violates
      else Inserted (t\<lparr>trNotes := trNotes t @ [row]\<rparr>))"

text \<open>The one statement for a batch: a violation undoes it.\<close>

fun insertNotes :: "tree_env \<Rightarrow> reg_ctx \<Rightarrow> note_plan list \<Rightarrow> tree \<Rightarrow> (tree \<times> string list) option" where
  "insertNotes env ctx [] t = Some (t, [])"
| "insertNotes env ctx (p # ps) t =
     (case insertNote env t (noteRow t ctx p) of
        Inserted t' \<Rightarrow> map_option (\<lambda>(t'', ids). (t'', npId p # ids)) (insertNotes env ctx ps t')
      | Skipped \<Rightarrow> insertNotes env ctx ps t
      | Violates \<Rightarrow> None)"

text \<open>The replay one at a time; the flag says that an error was thrown on.\<close>

record replay =
  rpTree :: tree
  rpCtx :: reg_ctx
  rpInserted :: "string list"
  rpResults :: "nat \<rightharpoonup> reg_note reg_result"
  rpThrown :: bool

fun replayNotes :: "tree_env \<Rightarrow> reg_gates \<Rightarrow> note_plan list \<Rightarrow> replay \<Rightarrow> replay" where
  "replayNotes env g [] st = st"
| "replayNotes env g (p # ps) st =
     (case insertNote env (rpTree st) (noteRow (rpTree st) (rpCtx st) p) of
        Inserted t' \<Rightarrow> replayNotes env g ps (st\<lparr>rpTree := t', rpInserted := rpInserted st @ [npId p],
           rpCtx := noteCreated (npId p) (rpCtx st)\<rparr>)
      | Skipped \<Rightarrow> replayNotes env g ps st
      | Violates \<Rightarrow>
          (case liveNoteByPath env (rpTree st) (rpCtx st) (npPath p) True of
             (Some winner, ctx) \<Rightarrow>
               replayNotes env g ps (st\<lparr>
                 rpResults := (rpResults st)(npIndex p \<mapsto>
                   (if canAdoptDoc g ctx (rnId winner) then Adopted winner False else Refused NotReadable)),
                 rpCtx := ctx\<lparr>rxNotes := (rxNotes ctx)(treePathKey env (rnPath winner) \<mapsto> Some winner)\<rparr>\<rparr>)
           | (None, ctx) \<Rightarrow> st\<lparr>rpCtx := ctx, rpThrown := True\<rparr>))"

fun firstPlans :: "string list \<Rightarrow> note_plan list \<Rightarrow> note_plan list" where
  "firstPlans seen [] = []"
| "firstPlans seen (p # ps) =
     (if npId p \<in> set seen then firstPlans seen ps else p # firstPlans (npId p # seen) ps)"

definition planRow :: "note_plan \<Rightarrow> reg_note" where
  "planRow p = \<lparr>rnId = npId p, rnFolder = npFolder p, rnTitle = npTitle p, rnPath = npPath p\<rparr>"

text \<open>What \<open>DO NOTHING\<close> declined to write, told apart.\<close>

definition settlePlan :: "tree \<Rightarrow> string \<Rightarrow> nat list \<Rightarrow> note_plan \<Rightarrow> (nat \<rightharpoonup> reg_note reg_result)
    \<Rightarrow> (nat \<rightharpoonup> reg_note reg_result)" where
  "settlePlan t vaultId insertedPlans p results =
     (if results (npIndex p) \<noteq> None then results
      else if npIndex p \<in> set insertedPlans then results(npIndex p \<mapsto> Created (planRow p))
      else
        (case first_row (\<lambda>n. tnId n = npId p) (trNotes t) of
           None \<Rightarrow> results(npIndex p \<mapsto> Created (planRow p))
         | Some row \<Rightarrow>
             if tnVault row \<noteq> vaultId then results(npIndex p \<mapsto> Conflict DocIdConflict (npId p))
             else if tnDeletedAt row \<noteq> None then results(npIndex p \<mapsto> Conflict NoteDeleted (npId p))
             else if tnPath row \<noteq> npPath p
             then results(npIndex p \<mapsto> Adopted \<lparr>rnId = npId p, rnFolder = tnFolder row, rnTitle = tnTitle row, rnPath = tnPath row\<rparr> False)
             else results(npIndex p \<mapsto> Created (planRow p))))"

definition applyNoteInserts :: "tree_env \<Rightarrow> reg_gates \<Rightarrow> reg_ctx \<Rightarrow> note_plan list \<Rightarrow> (nat \<rightharpoonup> reg_note reg_result) \<Rightarrow> tree
    \<Rightarrow> (nat \<rightharpoonup> reg_note reg_result) option \<times> tree \<times> reg_ctx" where
  "applyNoteInserts env g ctx plans results t =
     (let firsts = firstPlans [] plans;
          outcome = (case insertNotes env ctx firsts t of
            Some (t', ids) \<Rightarrow> \<lparr>rpTree = t', rpCtx = fold noteCreated ids ctx, rpInserted = ids, rpResults = results, rpThrown = False\<rparr>
          | None \<Rightarrow> replayNotes env g firsts \<lparr>rpTree = t, rpCtx = ctx, rpInserted = [], rpResults = results, rpThrown = False\<rparr>);
          insertedPlans = map npIndex (filter (\<lambda>p. npId p \<in> set (rpInserted outcome)) firsts)
      in if rpThrown outcome then (None, rpTree outcome, rpCtx outcome)
         else (Some (fold (settlePlan (rpTree outcome) (rxVault ctx) insertedPlans) plans (rpResults outcome)), rpTree outcome, rpCtx outcome))"

text \<open>\<open>withNoteQuota\<close>: how many more live notes the vault may hold, under the cap of its plan.\<close>

definition noteRemaining :: "tree \<Rightarrow> string \<Rightarrow> int option \<Rightarrow> int option" where
  "noteRemaining t vaultId cap =
     map_option (\<lambda>c. max 0 (c - int (length (filter (\<lambda>n. tnVault n = vaultId \<and> tnDeletedAt n = None) (trNotes t))))) cap"

definition registerNotesWithinQuota :: "tree_env \<Rightarrow> reg_gates \<Rightarrow> (nat \<Rightarrow> string) \<Rightarrow> note_input list \<Rightarrow> int option \<Rightarrow> tree \<times> reg_ctx
    \<Rightarrow> reg_note reg_result list option \<times> tree \<times> reg_ctx" where
  "registerNotesWithinQuota env g newIds inputs remaining s =
     (case s of (t, ctx) \<Rightarrow>
       (let st = planNoteInserts env g t (suppliedIds inputs) newIds 0 inputs
              \<lparr>nlCtx = prefetchNotes env t ctx (map niPath inputs), nlRemaining = remaining, nlKnown = [],
               nlPlans = [], nlResults = Map.empty\<rparr>
        in case (if nlPlans st = [] then (Some (nlResults st), t, nlCtx st)
                 else applyNoteInserts env g (nlCtx st) (nlPlans st) (nlResults st) t) of
             (None, t', ctx') \<Rightarrow> (None, t', ctx')
           | (Some results, t', ctx') \<Rightarrow>
               (Some (map (\<lambda>i. case results i of Some r \<Rightarrow> r | None \<Rightarrow> Refused Unresolved) [0 ..< length inputs]), t', ctx')))"

definition registerNotes :: "tree_env \<Rightarrow> reg_gates \<Rightarrow> (nat \<Rightarrow> string) \<Rightarrow> note_input list \<Rightarrow> int option \<Rightarrow> tree \<times> reg_ctx
    \<Rightarrow> reg_note reg_result list option \<times> tree \<times> reg_ctx" where
  "registerNotes env g newIds inputs cap s =
     (case s of (t, ctx) \<Rightarrow>
       (case registerNotesWithinQuota env g newIds inputs (noteRemaining t (rxVault ctx) cap)
               (t, (registerCtx (rxVault ctx) (rxUser ctx))\<lparr>rxFolders := rxFolders ctx, rxFiles := rxFiles ctx\<rparr>) of
          (r, t', locked) \<Rightarrow> (r, t', ctx\<lparr>rxFolders := rxFolders locked, rxFiles := rxFiles locked\<rparr>)))"

section \<open>Files\<close>

definition transientPrefixes :: "string list" where
  "transientPrefixes = [''~$'', ''.~lock.'']"

definition isTransientFileName :: "tree_env \<Rightarrow> string \<Rightarrow> bool" where
  "isTransientFileName env name \<longleftrightarrow>
     list_ex (\<lambda>p. starts_with p name) transientPrefixes \<or>
     (starts_with ''~'' name \<and> jsLength env name > 5 \<and> starts_with (rev ''.tmp'') (rev (to_lower_case name)))"

definition isTransientPath :: "tree_env \<Rightarrow> string \<Rightarrow> bool" where
  "isTransientPath env path \<longleftrightarrow> (let name = basename path in name \<noteq> [] \<and> isTransientFileName env name)"

definition toFile :: "tree_file \<Rightarrow> reg_file" where
  "toFile f = \<lparr>rlId = tlId f, rlFolder = tlFolder f, rlPath = tlPath f\<rparr>"

definition fileByKey :: "tree_env \<Rightarrow> tree \<Rightarrow> string \<Rightarrow> string \<Rightarrow> reg_file option" where
  "fileByKey env t vaultId key =
     (let rows = filter (\<lambda>f. tlVault f = vaultId \<and> teKey env (tlPath f) = key) (trFiles t)
      in map_option toFile (first_row (\<lambda>f. list_all (\<lambda>h. tlId f \<le> tlId h) rows) rows))"

definition fileByPath :: "tree_env \<Rightarrow> tree \<Rightarrow> reg_ctx \<Rightarrow> string \<Rightarrow> bool \<Rightarrow> reg_file option \<times> reg_ctx" where
  "fileByPath env t ctx path fresh =
     (case (if fresh then None else rxFiles ctx (treePathKey env path)) of
        Some hit \<Rightarrow> (hit, ctx)
      | None \<Rightarrow>
          (let row = fileByKey env t (rxVault ctx) (teKey env path)
           in (row, ctx\<lparr>rxFiles := (rxFiles ctx)(treePathKey env path \<mapsto> row)\<rparr>)))"

definition prefetchFiles :: "tree_env \<Rightarrow> tree \<Rightarrow> reg_ctx \<Rightarrow> string list \<Rightarrow> reg_ctx" where
  "prefetchFiles env t ctx paths =
     (let wanted = filter (\<lambda>k. rxFiles ctx k = None)
            (remdups (map (treePathKey env) (filter (\<lambda>p. p \<noteq> []) paths)));
          rows = List.map_filter (fileByKey env t (rxVault ctx)) (remdups (map (teKey env) wanted));
          missed = fold (\<lambda>k m. m(k \<mapsto> None)) wanted (rxFiles ctx);
          ctx1 = ctx\<lparr>rxFiles := fold (\<lambda>r m. m(treePathKey env (rlPath r) \<mapsto> Some r)) rows missed\<rparr>
      in prefetchFolders env t ctx1 (map dirname paths))"

record file_input =
  fePath :: string
  feDocId :: "string option"
  feFolder :: "string option"

text \<open>The unique index on a file's path within its vault, met by any row but the file's own.\<close>

definition filePathTaken :: "tree_env \<Rightarrow> tree \<Rightarrow> string \<Rightarrow> string \<Rightarrow> string \<Rightarrow> bool" where
  "filePathTaken env t vaultId path fileId \<longleftrightarrow>
     list_ex (\<lambda>f. tlVault f = vaultId \<and> teKey env (tlPath f) = teKey env path \<and> tlId f \<noteq> fileId) (trFiles t)"

definition adoptPathRace :: "tree_env \<Rightarrow> reg_gates \<Rightarrow> tree \<Rightarrow> reg_ctx \<Rightarrow> string \<Rightarrow> reg_file reg_result \<times> reg_ctx" where
  "adoptPathRace env g t ctx path =
     (case fileByPath env t ctx path True of
        (None, ctx1) \<Rightarrow> (UniqueViolation, ctx1)
      | (Some winner, ctx1) \<Rightarrow>
          (let ctx2 = ctx1\<lparr>rxFiles := (rxFiles ctx1)(treePathKey env (rlPath winner) \<mapsto> Some winner)\<rparr>
           in (if \<not> canAdoptDoc g ctx2 (rlId winner) then Refused NotReadable else Adopted winner False, ctx2)))"

definition adoptFile :: "reg_gates \<Rightarrow> reg_ctx \<Rightarrow> reg_file \<Rightarrow> reg_file reg_result" where
  "adoptFile g ctx f = (if \<not> canAdoptDoc g ctx (rlId f) then Refused NotReadable else Adopted f False)"

text \<open>The last part of \<open>registerFile\<close>, once the location is resolved: a move of a known id, or an insert.\<close>

definition placeFile :: "tree_env \<Rightarrow> reg_gates \<Rightarrow> string \<Rightarrow> location \<Rightarrow> tree \<times> reg_ctx \<Rightarrow> reg_file reg_result \<times> tree \<times> reg_ctx" where
  "placeFile env g fileId loc s =
     (case s of (t, ctx) \<Rightarrow>
       (let placed = \<lparr>rlId = fileId, rlFolder = lcFolder loc, rlPath = lcPath loc\<rparr>
        in if \<not> rgCanCreateIn g (lcFolder loc) then (Refused NoWriteAccess, t, ctx)
           else case first_row (\<lambda>f. tlId f = fileId \<and> tlVault f = rxVault ctx) (trFiles t) of
             Some old \<Rightarrow>
               if \<not> rgCanEditDoc g fileId then (Refused NoWriteAccess, t, ctx)
               else if filePathTaken env t (rxVault ctx) (lcPath loc) fileId
               then (case adoptPathRace env g t ctx (lcPath loc) of (r, ctx') \<Rightarrow> (r, t, ctx'))
               else (Adopted placed True,
                 t\<lparr>trFiles := map (\<lambda>f. if tlId f = fileId then f\<lparr>tlFolder := lcFolder loc, tlPath := lcPath loc\<rparr> else f) (trFiles t)\<rparr>,
                 ctx\<lparr>rxFiles := ((rxFiles ctx)(treePathKey env (tlPath old) := None))(treePathKey env (lcPath loc) \<mapsto> Some placed)\<rparr>)
           | None \<Rightarrow>
               if lcFolder loc = None \<and> rgRootFrozen g then (Refused RootFrozen, t, ctx)
               else
                 (let known = list_ex (\<lambda>f. tlId f = fileId) (trFiles t);
                      created = (noteCreated fileId ctx)\<lparr>rxFiles := (rxFiles ctx)(treePathKey env (lcPath loc) \<mapsto> Some placed)\<rparr>
                  in if known then (Created placed, t, created)
                     else if filePathTaken env t (rxVault ctx) (lcPath loc) fileId
                     then (case adoptPathRace env g t ctx (lcPath loc) of (r, ctx') \<Rightarrow> (r, t, ctx'))
                     else (Created placed,
                       t\<lparr>trFiles := trFiles t @ [\<lparr>tlId = fileId, tlVault = rxVault ctx, tlFolder = lcFolder loc,
                          tlPath = lcPath loc, tlCreatedBy = Some (rxUser ctx)\<rparr>]\<rparr>,
                       created))))"

definition registerFile :: "tree_env \<Rightarrow> reg_gates \<Rightarrow> string \<Rightarrow> file_input \<Rightarrow> tree \<times> reg_ctx
    \<Rightarrow> reg_file reg_result \<times> tree \<times> reg_ctx" where
  "registerFile env g newId input s =
     (case s of (t, ctx) \<Rightarrow>
       (let fileId = suppliedId (feDocId input) newId
        in case fileByPath env t ctx (fePath input) False of
             (Some byPath, ctx1) \<Rightarrow> (adoptFile g ctx1 byPath, t, ctx1)
           | (None, ctx1) \<Rightarrow>
               if isTransientPath env (fePath input) then (Refused TransientFile, t, ctx1)
               else
                 (case resolveParentFolder env t (cachedFolderLookup env t) ctx1 (rxVault ctx1) (fePath input) (feFolder input) of
                    (Inl e, ctx2) \<Rightarrow> (Refused (PathFolderMismatch e), t, ctx2)
                  | (Inr loc, ctx2) \<Rightarrow>
                      (case (if treeSamePath env (lcPath loc) (fePath input) then (None, ctx2)
                             else fileByPath env t ctx2 (lcPath loc) False) of
                         (Some canonical, ctx3) \<Rightarrow> (adoptFile g ctx3 canonical, t, ctx3)
                       | (None, ctx3) \<Rightarrow> placeFile env g fileId loc (t, ctx3)))))"

end
