(* ===== verification/Reg_Cache.thy ===== *)
theory Reg_Cache
  imports Reg_Batch
begin

text \<open>
  The request's path caches are transparent: with the keys of program and database in agreement, an
  entry is what the query would answer, through prefetches, lookups and inserts, so a registration
  answers and writes what its cache-free description says.
\<close>

section \<open>The oldest row\<close>

lemma total_min:
  assumes "xs \<noteq> []" "\<And>x y. R x y \<or> R y x" "\<And>x y z. R x y \<Longrightarrow> R y z \<Longrightarrow> R x z"
  shows "\<exists>m \<in> set xs. \<forall>x \<in> set xs. R m x"
  using assms(1)
proof (induction xs rule: list_nonempty_induct)
  case (single x)
  then show ?case using assms(2) [of x x] by simp
next
  case (cons x xs)
  then obtain m where m: "m \<in> set xs" "\<forall>y \<in> set xs. R m y" by blast
  show ?case
  proof (cases "R x m")
    case True
    then have "\<forall>y \<in> set (x # xs). R x y" using m(2) assms(2) [of x x] assms(3) [OF True] by auto
    then show ?thesis by (intro bexI [of _ x]) simp_all
  next
    case False
    then have "R m x" using assms(2) by blast
    then show ?thesis using m by auto
  qed
qed

lemma oldest_exists:
  fixes created :: "'a \<Rightarrow> int" and name :: "'a \<Rightarrow> string"
  assumes "rows \<noteq> []"
  shows "first_row (\<lambda>f. list_all (\<lambda>g. created f < created g \<or> (created f = created g \<and> name f \<le> name g)) rows) rows \<noteq> None"
proof -
  have "\<exists>m \<in> set rows. \<forall>x \<in> set rows. created m < created x \<or> (created m = created x \<and> name m \<le> name x)"
    by (rule total_min [OF assms]) (auto intro: order_trans)
  then show ?thesis by (auto simp: first_row_None list_all_iff)
qed

lemma oldestFolder_None [simp]: "oldestFolder rows = None \<longleftrightarrow> rows = []"
proof
  assume none: "oldestFolder rows = None"
  show "rows = []"
  proof (rule ccontr)
    assume "rows \<noteq> []"
    from oldest_exists [OF this, of tfCreatedAt tfId] none show False unfolding oldestFolder_def by (rule notE)
  qed
qed (simp add: oldestFolder_def first_row_None)

lemma oldestFolder_in: "oldestFolder rows = Some f \<Longrightarrow> f \<in> set rows"
  unfolding oldestFolder_def by (erule first_row_Some [THEN conjunct1])

lemma oldestFolder_Nil [simp]: "oldestFolder [] = None"
  by simp

lemma oldestFolder_single [simp]: "oldestFolder [f] = Some f"
  by (simp add: oldestFolder_def first_row_def)

lemma oldestNote_None [simp]: "oldestNote rows = None \<longleftrightarrow> rows = []"
proof
  assume none: "oldestNote rows = None"
  show "rows = []"
  proof (rule ccontr)
    assume "rows \<noteq> []"
    from oldest_exists [OF this, of tnCreatedAt tnId] none show False unfolding oldestNote_def by (rule notE)
  qed
qed (simp add: oldestNote_def first_row_None)

lemma oldestNote_in: "oldestNote rows = Some n \<Longrightarrow> n \<in> set rows"
  unfolding oldestNote_def by (erule first_row_Some [THEN conjunct1])

section \<open>Folder lookups\<close>

lemma folderByKey_None:
  "folderByKey env t v k = None \<longleftrightarrow> (\<forall>f \<in> set (trFolders t). \<not> (tfVault f = v \<and> teKey env (tfPath f) = k))"
  by (auto simp: folderByKey_def filter_empty_conv)

lemma folderByKey_Some:
  "folderByKey env t v k = Some r \<Longrightarrow>
     \<exists>f \<in> set (trFolders t). tfVault f = v \<and> teKey env (tfPath f) = k \<and> r = toFolder f"
  by (auto simp: folderByKey_def dest!: oldestFolder_in)

lemma toFolder_sel [simp]:
  "rfId (toFolder f) = tfId f" "rfParent (toFolder f) = tfParent f" "rfName (toFolder f) = tfName f"
  "rfPath (toFolder f) = tfPath f" "rfColor (toFolder f) = tfColor f"
  by (simp_all add: toFolder_def)

definition folder_cache :: "tree_env \<Rightarrow> tree \<Rightarrow> string \<Rightarrow> (string \<rightharpoonup> reg_folder option) \<Rightarrow> bool" where
  "folder_cache env t v m \<longleftrightarrow>
     (\<forall>p hit. m (treePathKey env p) = Some hit \<longrightarrow> hit = folderByKey env t v (teKey env p))"

lemma folder_cacheD: "folder_cache env t v m \<Longrightarrow> m (treePathKey env p) = Some hit \<Longrightarrow> hit = folderByKey env t v (teKey env p)"
  by (simp add: folder_cache_def)

lemma folder_cache_empty [simp]: "folder_cache env t v Map.empty"
  by (simp add: folder_cache_def)

lemma keys_same: "keys_agree env \<Longrightarrow> treePathKey env a = treePathKey env b \<longleftrightarrow> teKey env a = teKey env b"
  by (auto simp: keys_agree_def)

lemma folder_cache_upd:
  assumes "keys_agree env" "folder_cache env t v m"
  shows "folder_cache env t v (m(treePathKey env p \<mapsto> folderByKey env t v (teKey env p)))"
  using assms(2) keys_same [OF assms(1)] by (auto simp: folder_cache_def)

lemma folderByPath_spec:
  assumes "keys_agree env" "folder_cache env t (rxVault ctx) (rxFolders ctx)"
  shows "\<exists>m. folderByPath env t ctx path fresh = (folderByKey env t (rxVault ctx) (teKey env path), ctx\<lparr>rxFolders := m\<rparr>) \<and>
    folder_cache env t (rxVault ctx) m"
proof (cases "if fresh then None else rxFolders ctx (treePathKey env path)")
  case None
  then show ?thesis
    using folder_cache_upd [OF assms, of path] by (auto simp: folderByPath_def Let_def)
next
  case (Some hit)
  then have "rxFolders ctx (treePathKey env path) = Some hit" by (simp split: if_splits)
  then show ?thesis
    using Some folder_cacheD [OF assms(2)] assms(2)
    by (intro exI [of _ "rxFolders ctx"]) (simp add: folderByPath_def)
qed

section \<open>Prefetching\<close>

definition keys_stable :: "tree_env \<Rightarrow> bool" where
  "keys_stable env \<longleftrightarrow> (\<forall>p. treePathKey env (treePathKey env p) = treePathKey env p)"

lemma fold_None: "fold (\<lambda>k m. m(k \<mapsto> None)) ks m = (\<lambda>k. if k \<in> set ks then Some None else m k)"
  by (induction ks arbitrary: m) auto

lemma fold_rows_other:
  "(\<And>r. r \<in> set rows \<Longrightarrow> key r \<noteq> k) \<Longrightarrow> fold (\<lambda>r m. m(key r \<mapsto> Some r)) rows m k = m k"
  by (induction rows arbitrary: m) auto

lemma fold_rows_hit:
  assumes "r \<in> set rows" "key r = k" "\<And>r'. r' \<in> set rows \<Longrightarrow> key r' = k \<Longrightarrow> r' = r"
  shows "fold (\<lambda>r m. m(key r \<mapsto> Some r)) rows m k = Some (Some r)"
  using assms
proof (induction rows arbitrary: m)
  case (Cons x rows)
  show ?case
  proof (cases "r \<in> set rows")
    case True
    have "r' = r" if "r' \<in> set rows" "key r' = k" for r' using Cons.prems(3) that by simp
    then show ?thesis using Cons.IH [OF True Cons.prems(2)] by simp
  next
    case False
    then have x: "x = r" using Cons.prems(1) by simp
    have "key r' \<noteq> k" if "r' \<in> set rows" for r' using Cons.prems(3) [of r'] False that by auto
    then show ?thesis unfolding fold_Cons comp_def x by (subst fold_rows_other) (use Cons.prems(2) in auto)
  qed
qed simp

lemma set_map_filter_fn: "set (List.map_filter q ks) = {r. \<exists>k \<in> set ks. q k = Some r}"
  by (induction ks) (auto simp: List.map_filter_simps split: option.splits)

text \<open>A prefill from one query: \<open>q\<close> answers by database key, each row at its own key.\<close>

lemma prefilled:
  assumes K: "keys_agree env" and stable: "keys_stable env"
    and q: "\<And>k r. q k = Some r \<Longrightarrow> teKey env (path r) = k"
    and m: "\<And>p hit. m (treePathKey env p) = Some hit \<Longrightarrow> hit = q (teKey env p)"
    and ks: "\<And>k. k \<in> set ks \<Longrightarrow> \<exists>p. k = treePathKey env p"
    and hit: "fold (\<lambda>r m. m(treePathKey env (path r) \<mapsto> Some r)) (List.map_filter q (remdups (map (teKey env) ks)))
       (fold (\<lambda>k m. m(k \<mapsto> None)) ks m) (treePathKey env p) = Some h"
  shows "h = q (teKey env p)"
proof -
  let ?rows = "List.map_filter q (remdups (map (teKey env) ks))"
  have self: "teKey env (treePathKey env p') = teKey env p'" for p'
    using stable keys_same [OF K, of "treePathKey env p'" p'] by (simp add: keys_stable_def)
  have in_ks: "teKey env p \<in> teKey env ` set ks \<longleftrightarrow> treePathKey env p \<in> set ks"
  proof
    assume "teKey env p \<in> teKey env ` set ks"
    then obtain k where k: "k \<in> set ks" "teKey env p = teKey env k" by blast
    obtain p' where p': "k = treePathKey env p'" using ks [OF k(1)] by blast
    then have "teKey env p = teKey env p'" using k(2) self by simp
    then show "treePathKey env p \<in> set ks" using k(1) p' keys_same [OF K] by metis
  next
    assume "treePathKey env p \<in> set ks"
    then show "teKey env p \<in> teKey env ` set ks" using self [of p, symmetric] by (rule rev_image_eqI)
  qed
  have rows: "r \<in> set ?rows \<longleftrightarrow> (\<exists>k \<in> set ks. q (teKey env k) = Some r)" for r
    by (auto simp: set_map_filter_fn)
  show ?thesis
  proof (cases "treePathKey env p \<in> set ks")
    case True
    show ?thesis
    proof (cases "q (teKey env p)")
      case None
      have "treePathKey env (path r) \<noteq> treePathKey env p" if "r \<in> set ?rows" for r
        using that rows q None keys_same [OF K] by (metis option.distinct(1))
      then have "h = None" using hit True by (simp add: fold_rows_other fold_None)
      then show ?thesis using None by simp
    next
      case (Some r)
      have key: "treePathKey env (path r) = treePathKey env p" using q [OF Some] keys_same [OF K] by simp
      have row: "r \<in> set ?rows" using rows Some True self by metis
      have uniq: "r' = r" if "r' \<in> set ?rows" "treePathKey env (path r') = treePathKey env p" for r'
        using that rows q Some keys_same [OF K] by (metis option.inject)
      have "fold (\<lambda>r m. m(treePathKey env (path r) \<mapsto> Some r)) ?rows
          (fold (\<lambda>k m. m(k \<mapsto> None)) ks m) (treePathKey env p) = Some (Some r)"
        by (rule fold_rows_hit [where key = "\<lambda>r. treePathKey env (path r)", OF row key uniq])
      then show ?thesis using hit Some by simp
    qed
  next
    case False
    have "treePathKey env (path r) \<noteq> treePathKey env p" if r: "r \<in> set ?rows" for r
    proof
      assume "treePathKey env (path r) = treePathKey env p"
      then have "teKey env (path r) = teKey env p" using keys_same [OF K] by simp
      moreover obtain k where "k \<in> set ks" "q (teKey env k) = Some r" using r rows by blast
      ultimately have "teKey env p \<in> teKey env ` set ks" using q by (metis image_eqI)
      then show False using in_ks False by blast
    qed
    then have "m (treePathKey env p) = Some h" using hit False by (simp add: fold_rows_other fold_None)
    then show ?thesis by (rule m)
  qed
qed

lemma prefetchFolders_cache:
  assumes "keys_agree env" "keys_stable env" "folder_cache env t (rxVault ctx) (rxFolders ctx)"
  shows "\<exists>m. prefetchFolders env t ctx paths = ctx\<lparr>rxFolders := m\<rparr> \<and> folder_cache env t (rxVault ctx) m"
proof -
  let ?ks = "filter (\<lambda>k. rxFolders ctx k = None) (remdups (map (treePathKey env) (filter (\<lambda>p. p \<noteq> []) paths)))"
  let ?m = "fold (\<lambda>r m. m(treePathKey env (rfPath r) \<mapsto> Some r))
    (List.map_filter (folderByKey env t (rxVault ctx)) (remdups (map (teKey env) ?ks)))
    (fold (\<lambda>k m. m(k \<mapsto> None)) ?ks (rxFolders ctx))"
  have "folder_cache env t (rxVault ctx) ?m"
    unfolding folder_cache_def
  proof (intro allI impI)
    fix p hit assume hit: "?m (treePathKey env p) = Some hit"
    show "hit = folderByKey env t (rxVault ctx) (teKey env p)"
      by (rule prefilled [OF assms(1,2) _ _ _ hit])
         (use folderByKey_Some folder_cacheD [OF assms(3)] in fastforce)+
  qed
  then show ?thesis by (intro exI [of _ ?m]) (simp add: prefetchFolders_def Let_def)
qed

end
