(* ===== verification/Reg_Folders.thy ===== *)
theory Reg_Folders
  imports Reg_Cache
begin

text \<open>
  Registering folders: \<open>registerFolder\<close> answers and writes what a description without caches says
  (\<open>folderOutcome\<close>), and keeps the tree well formed.
\<close>

lemma keys_segmental: "keys_agree env \<Longrightarrow> segmental (teKey env)"
  by (simp add: keys_agree_def)

lemma key_empty: "keys_agree env \<Longrightarrow> teKey env p = teKey env [] \<longleftrightarrow> p = []"
  by (auto simp: keys_agree_def)

section \<open>The cached lookup is the query\<close>

lemma folderByKey_info:
  "findFolderByPath env t v path = map_option (\<lambda>r. \<lparr>fiId = rfId r, fiVault = v, fiPath = rfPath r, fiParent = rfParent r\<rparr>)
     (folderByKey env t v (teKey env path))"
  unfolding findFolderByPath_def folderByKey_def option.map_comp comp_def
  by (cases "oldestFolder (filter (\<lambda>f. tfVault f = v \<and> teKey env (tfPath f) = teKey env path) (trFolders t))")
     (auto simp: folderInfo_def dest!: oldestFolder_in)

lemma cachedFolderLookup_spec:
  assumes "keys_agree env" "folder_cache env t (rxVault ctx) (rxFolders ctx)"
  shows "\<exists>m. cachedFolderLookup env t ctx v path = (findFolderByPath env t (rxVault ctx) path, ctx\<lparr>rxFolders := m\<rparr>) \<and>
    folder_cache env t (rxVault ctx) m"
proof -
  obtain m where "folderByPath env t ctx path False =
      (folderByKey env t (rxVault ctx) (teKey env path), ctx\<lparr>rxFolders := m\<rparr>)" "folder_cache env t (rxVault ctx) m"
    using folderByPath_spec [OF assms] by blast
  then show ?thesis by (intro exI [of _ m]) (simp add: cachedFolderLookup_def folderByKey_info)
qed

abbreviation plainResolve :: "tree_env \<Rightarrow> tree \<Rightarrow> string \<Rightarrow> string \<Rightarrow> string option \<Rightarrow> tree_error + location" where
  "plainResolve env t v path q \<equiv> fst (resolveParentFolder env t (plainLookup env t) () v path q)"

lemma cachedResolve_spec:
  assumes "keys_agree env" "folder_cache env t (rxVault ctx) (rxFolders ctx)"
  shows "\<exists>m. resolveParentFolder env t (cachedFolderLookup env t) ctx (rxVault ctx) path q =
    (plainResolve env t (rxVault ctx) path q, ctx\<lparr>rxFolders := m\<rparr>) \<and> folder_cache env t (rxVault ctx) m"
proof -
  obtain m where m: "cachedFolderLookup env t ctx (rxVault ctx) (dirname path) =
      (findFolderByPath env t (rxVault ctx) (dirname path), ctx\<lparr>rxFolders := m\<rparr>)" "folder_cache env t (rxVault ctx) m"
    using cachedFolderLookup_spec [OF assms] by blast
  show ?thesis
  proof (cases "\<not> badRelPath path \<and> q = None \<and> dirname path \<noteq> []")
    case True
    then show ?thesis
      using m by (intro exI [of _ m]) (simp add: resolveParentFolder_def plainLookup_def Let_def split: option.splits)
  next
    case False
    show ?thesis
      using False assms(2) by (intro exI [of _ "rxFolders ctx"])
        (auto simp: resolveParentFolder_def Let_def split: option.splits)
  qed
qed

text \<open>The path stored is the requested one up to its key.\<close>

lemma resolved_key:
  assumes K: "keys_agree env" and ok: "tree_ok env t" and r: "plainResolve env t v path q = Inr loc"
  shows "teKey env (lcPath loc) = teKey env path"
proof -
  have good: "goodPath path" using r by (auto simp: resolveParentFolder_def badRelPath_iff split: if_splits)
  have in_folder: "teKey env (joinPath (tfPath g) (basename path)) = teKey env path"
    if g: "g \<in> set (trFolders t)" "teKey env (tfPath g) = teKey env (dirname path)" for g
  proof -
    have ne: "tfPath g \<noteq> []" using folder_placed [OF ok g(1)] placed_good good_nonempty by blast
    then have "dirname path \<noteq> []" using g(2) key_empty [OF K, of "tfPath g"] by auto
    then have "path = dirname path @ CHR ''/'' # basename path"
      by (cases path rule: path_cases) auto
    then have "teKey env path = teKey env (dirname path) @ CHR ''/'' # teKey env (basename path)"
      by (metis segmental_join [OF keys_segmental [OF K]])
    then show ?thesis
      using ne g(2) by (simp add: joinPath_def segmental_join [OF keys_segmental [OF K]])
  qed
  show ?thesis
  proof (cases q)
    case (Some i)
    then obtain f where f: "findFolder t i = Some f" "treeSamePath env (fiPath f) (dirname path)"
      "loc = \<lparr>lcFolder = Some (fiId f), lcPath = joinPath (fiPath f) (basename path)\<rparr>"
      using r by (auto simp: resolveParentFolder_def Let_def split: if_splits option.splits)
    obtain g where g: "g \<in> set (trFolders t)" "f = folderInfo g" using findFolder_Some [OF f(1)] by blast
    then show ?thesis using f(2,3) in_folder [OF g(1)] key_same [OF K] by simp
  next
    case None
    show ?thesis
    proof (cases "dirname path = []")
      case True
      then show ?thesis using r None by (auto simp: resolveParentFolder_def Let_def split: if_splits)
    next
      case False
      then obtain f where f: "findFolderByPath env t v (dirname path) = Some f"
        "loc = \<lparr>lcFolder = Some (fiId f), lcPath = joinPath (fiPath f) (basename path)\<rparr>"
        using r None by (auto simp: resolveParentFolder_def plainLookup_def Let_def split: if_splits option.splits prod.splits)
      obtain g where g: "g \<in> set (trFolders t)" "teKey env (tfPath g) = teKey env (dirname path)" "f = folderInfo g"
        using findFolderByPath_Some [OF f(1)] by blast
      then show ?thesis using f(2) in_folder [OF g(1,2)] by simp
    qed
  qed
qed

lemma plainResolve_placed:
  "tree_ok env t \<Longrightarrow> plainResolve env t v path q = Inr loc \<Longrightarrow> placed (folderItems t) v (lcFolder loc) (lcPath loc)"
  using resolveParentFolder_placed [OF _ plainLookup_ok] by (metis prod.collapse)

section \<open>Registering one folder\<close>

definition newFolder :: "tree_env \<Rightarrow> tree \<Rightarrow> reg_ctx \<Rightarrow> string \<Rightarrow> folder_input \<Rightarrow> location \<Rightarrow> tree_folder" where
  "newFolder env t ctx newId input loc = \<lparr>tfId = newId, tfVault = rxVault ctx, tfParent = lcFolder loc, tfName = fnName input,
     tfPath = lcPath loc, tfColor = (case normalizeColor env (fnColor input) of None \<Rightarrow> None | Some c \<Rightarrow> c),
     tfSort = (case fnSort input of None \<Rightarrow> 0 | Some n \<Rightarrow> n), tfCreatedBy = Some (rxUser ctx), tfCreatedAt = trNow t\<rparr>"

definition folderOutcome :: "tree_env \<Rightarrow> reg_gates \<Rightarrow> string \<Rightarrow> folder_input \<Rightarrow> tree \<Rightarrow> reg_ctx \<Rightarrow> reg_folder reg_result \<times> tree" where
  "folderOutcome env g newId input t ctx =
     (case folderByKey env t (rxVault ctx) (teKey env (fnPath input)) of
        Some existing \<Rightarrow> (if canSeeFolder g ctx (rfId existing) then Adopted existing False else Refused NotReadable, t)
      | None \<Rightarrow>
          (case plainResolve env t (rxVault ctx) (fnPath input) (fnParent input) of
             Inl e \<Rightarrow> (Refused (PathFolderMismatch e), t)
           | Inr loc \<Rightarrow>
               if \<not> rgCanCreateIn g (lcFolder loc) then (Refused NoWriteAccess, t)
               else if lcFolder loc = None \<and> rgRootFrozen g then (Refused RootFrozen, t)
               else (Created (toFolder (newFolder env t ctx newId input loc)),
                     t\<lparr>trFolders := trFolders t @ [newFolder env t ctx newId input loc]\<rparr>)))"

definition created_ids :: "'r reg_result \<Rightarrow> string \<Rightarrow> string list" where
  "created_ids r i = (case r of Created _ \<Rightarrow> [i] | _ \<Rightarrow> [])"

lemma canSeeFolder_cache [simp]: "canSeeFolder g (ctx\<lparr>rxFolders := m\<rparr>) i = canSeeFolder g ctx i"
  by (simp add: canSeeFolder_def)

lemma newFolder_sel [simp]:
  "tfId (newFolder env t ctx i x loc) = i" "tfVault (newFolder env t ctx i x loc) = rxVault ctx"
  "tfParent (newFolder env t ctx i x loc) = lcFolder loc" "tfPath (newFolder env t ctx i x loc) = lcPath loc"
  by (simp_all add: newFolder_def)

lemma newFolder_cache [simp]: "newFolder env t (ctx\<lparr>rxFolders := m\<rparr>) i x loc = newFolder env t ctx i x loc"
  by (simp add: newFolder_def)

lemma folderByKey_append:
  "folderByKey env (t\<lparr>trFolders := trFolders t @ [f]\<rparr>) v k =
     (if tfVault f = v \<and> teKey env (tfPath f) = k
      then (if folderByKey env t v k = None then Some (toFolder f)
            else folderByKey env (t\<lparr>trFolders := trFolders t @ [f]\<rparr>) v k)
      else folderByKey env t v k)"
  by (simp add: folderByKey_def)

lemma folder_cache_append:
  assumes K: "keys_agree env" and c: "folder_cache env t v m"
    and none: "folderByKey env t v (teKey env (tfPath f)) = None" and v: "tfVault f = v"
  shows "folder_cache env (t\<lparr>trFolders := trFolders t @ [f]\<rparr>) v (m(treePathKey env (tfPath f) \<mapsto> Some (toFolder f)))"
  unfolding folder_cache_def
proof (intro allI impI)
  fix p hit assume hit: "(m(treePathKey env (tfPath f) \<mapsto> Some (toFolder f))) (treePathKey env p) = Some hit"
  show "hit = folderByKey env (t\<lparr>trFolders := trFolders t @ [f]\<rparr>) v (teKey env p)"
  proof (cases "teKey env p = teKey env (tfPath f)")
    case True
    then have "treePathKey env p = treePathKey env (tfPath f)" using keys_same [OF K] by simp
    then show ?thesis using hit none v True by (simp add: folderByKey_append [where k = "teKey env (tfPath f)"])
  next
    case False
    then have "treePathKey env p \<noteq> treePathKey env (tfPath f)" using keys_same [OF K] by simp
    then have "hit = folderByKey env t v (teKey env p)" using hit folder_cacheD [OF c] by simp
    then show ?thesis using False by (simp add: folderByKey_append)
  qed
qed

lemma registerFolder_spec:
  assumes K: "keys_agree env" and ok: "tree_ok env t"
    and c: "folder_cache env t (rxVault ctx) (rxFolders ctx)"
  obtains m where "registerFolder env g newId input (t, ctx) =
      (fst (folderOutcome env g newId input t ctx), snd (folderOutcome env g newId input t ctx),
       ctx\<lparr>rxFolders := m, rxCreated := rxCreated ctx @ created_ids (fst (folderOutcome env g newId input t ctx)) newId\<rparr>)"
    "folder_cache env (snd (folderOutcome env g newId input t ctx)) (rxVault ctx) m"
proof -
  obtain m1 where l: "folderByPath env t ctx (fnPath input) False =
      (folderByKey env t (rxVault ctx) (teKey env (fnPath input)), ctx\<lparr>rxFolders := m1\<rparr>)" "folder_cache env t (rxVault ctx) m1"
    using folderByPath_spec [OF K c] by blast
  show thesis
  proof (cases "folderByKey env t (rxVault ctx) (teKey env (fnPath input))")
    case (Some existing)
    then show thesis
      using l by (intro that [of m1]) (simp_all add: registerFolder_def folderOutcome_def created_ids_def)
  next
    case None
    obtain m2 where r: "resolveParentFolder env t (cachedFolderLookup env t) (ctx\<lparr>rxFolders := m1\<rparr>) (rxVault ctx) (fnPath input) (fnParent input) =
        (plainResolve env t (rxVault ctx) (fnPath input) (fnParent input), ctx\<lparr>rxFolders := m2\<rparr>)" "folder_cache env t (rxVault ctx) m2"
      using cachedResolve_spec [OF K, of t "ctx\<lparr>rxFolders := m1\<rparr>" "fnPath input" "fnParent input"] l(2) by auto
    show thesis
    proof (cases "plainResolve env t (rxVault ctx) (fnPath input) (fnParent input)")
      case (Inl e)
      then show thesis
        using l None r by (intro that [of m2]) (simp_all add: registerFolder_def folderOutcome_def created_ids_def resolve_same)
    next
      case (Inr loc)
      let ?row = "newFolder env t ctx newId input loc"
      have key: "teKey env (lcPath loc) = teKey env (fnPath input)" by (rule resolved_key [OF K ok Inr])
      have free: "insertFolder env t ?row = Some (t\<lparr>trFolders := trFolders t @ [?row]\<rparr>)"
        using None unfolding folderByKey_None insertFolder_def by (auto simp: key list_ex_iff)
      have row: "?row = \<lparr>tfId = newId, tfVault = rxVault ctx, tfParent = lcFolder loc, tfName = fnName input,
          tfPath = lcPath loc, tfColor = (case normalizeColor env (fnColor input) of None \<Rightarrow> None | Some c \<Rightarrow> c),
          tfSort = (case fnSort input of None \<Rightarrow> 0 | Some n \<Rightarrow> n), tfCreatedBy = Some (rxUser ctx), tfCreatedAt = trNow t\<rparr>"
        by (simp add: newFolder_def)
      have cache: "folder_cache env (t\<lparr>trFolders := trFolders t @ [?row]\<rparr>) (rxVault ctx)
          (m2(treePathKey env (lcPath loc) \<mapsto> Some (toFolder ?row)))"
        using folder_cache_append [OF K r(2), of ?row] None key by simp
      show thesis
      proof (cases "rgCanCreateIn g (lcFolder loc) \<and> \<not> (lcFolder loc = None \<and> rgRootFrozen g)")
        case True
        have "registerFolder env g newId input (t, ctx) =
          (Created (toFolder ?row), t\<lparr>trFolders := trFolders t @ [?row]\<rparr>,
           (noteCreated newId (ctx\<lparr>rxFolders := m2\<rparr>))\<lparr>rxFolders := m2(treePathKey env (lcPath loc) \<mapsto> Some (toFolder ?row))\<rparr>)"
          using l(1) None r(1) Inr True free unfolding registerFolder_def by (simp add: resolve_same Let_def row [symmetric])
        then show thesis
          using cache True Inr None by (intro that [of "m2(treePathKey env (lcPath loc) \<mapsto> Some (toFolder ?row))"])
            (auto simp: folderOutcome_def created_ids_def noteCreated_def)
      next
        case False
        then show thesis
          using l None r Inr by (intro that [of m2]) (auto simp: registerFolder_def folderOutcome_def created_ids_def resolve_same)
      qed
    qed
  qed
qed

end
