(* ===== verification/Reg_Lands.thy ===== *)
theory Reg_Lands
  imports Reg_Folders
begin

text \<open>
  A batch of folders: it answers item by item what single registrations with no cache would, keeps
  the tree well formed, and lands a whole tree sent in one request in any order.
\<close>

section \<open>Adding an item\<close>

lemma placed_mono: "placed F v q p \<Longrightarrow> set F \<subseteq> set F' \<Longrightarrow> placed F' v q p"
  by (auto simp: placed_def split: option.splits)

lemma items_mono: "items_ok K F X \<Longrightarrow> set F \<subseteq> set F' \<Longrightarrow> items_ok K F' X"
  unfolding items_ok_def using placed_mono by blast

lemma items_added:
  assumes X: "items_ok K F X" and new: "itId x \<notin> itId ` set X"
    and place: "placed F (itVault x) (itParent x) (itPath x)"
    and free: "\<And>y. y \<in> set X \<Longrightarrow> itVault y = itVault x \<Longrightarrow> K (itPath y) \<noteq> K (itPath x)"
  shows "items_ok K F (X @ [x])"
proof -
  have "y = z" if yz: "y \<in> set (X @ [x])" "z \<in> set (X @ [x])" "itVault y = itVault z" "K (itPath y) = K (itPath z)" for y z
  proof (cases "y = x"; cases "z = x")
    assume "y = x" "z \<noteq> x"
    then show ?thesis using free [of z] yz by auto
  next
    assume "y \<noteq> x" "z = x"
    then show ?thesis using free [of y] yz by auto
  next
    assume "y \<noteq> x" "z \<noteq> x"
    then show ?thesis using items_unique [OF X] yz by auto
  qed simp
  then show ?thesis using X new place unfolding items_ok_def by auto
qed

lemma tree_ok_folder_added:
  assumes ok: "tree_ok env t" and new: "tfId f \<notin> tfId ` set (trFolders t)"
    and place: "placed (folderItems t) (tfVault f) (tfParent f) (tfPath f)"
    and free: "\<And>h. h \<in> set (trFolders t) \<Longrightarrow> tfVault h = tfVault f \<Longrightarrow> teKey env (tfPath h) \<noteq> teKey env (tfPath f)"
  shows "tree_ok env (t\<lparr>trFolders := trFolders t @ [f]\<rparr>)"
proof -
  let ?F = "folderItems t @ [folderItem f]"
  have F: "folderItems (t\<lparr>trFolders := trFolders t @ [f]\<rparr>) = ?F" by (simp add: folderItems_def)
  have N: "noteItems (t\<lparr>trFolders := trFolders t @ [f]\<rparr>) = noteItems t" "fileItems (t\<lparr>trFolders := trFolders t @ [f]\<rparr>) = fileItems t"
    by (simp_all add: noteItems_def fileItems_def)
  have "items_ok (teKey env) (folderItems t) ?F"
    by (rule items_added [OF tree_ok_parts(1) [OF ok]]) (use new place free in \<open>auto simp: set_folderItems\<close>)
  then show ?thesis
    using items_mono [OF tree_ok_parts(2) [OF ok], of ?F] items_mono [OF tree_ok_parts(3) [OF ok], of ?F]
      items_mono [of _ "folderItems t" ?F ?F] tree_ok_parts(4) [OF ok] unfolding tree_ok_def F N by auto
qed

lemma folderOutcome_ok:
  assumes K: "keys_agree env" and ok: "tree_ok env t" and new: "newId \<notin> tfId ` set (trFolders t)"
  shows "tree_ok env (snd (folderOutcome env g newId input t ctx))"
proof (cases "folderByKey env t (rxVault ctx) (teKey env (fnPath input))")
  case None
  show ?thesis
  proof (cases "plainResolve env t (rxVault ctx) (fnPath input) (fnParent input)")
    case (Inr loc)
    have "tree_ok env (t\<lparr>trFolders := trFolders t @ [newFolder env t ctx newId input loc]\<rparr>)"
    proof (rule tree_ok_folder_added [OF ok])
      fix h assume "h \<in> set (trFolders t)" "tfVault h = tfVault (newFolder env t ctx newId input loc)"
      then show "teKey env (tfPath h) \<noteq> teKey env (tfPath (newFolder env t ctx newId input loc))"
        using None resolved_key [OF K ok Inr] by (simp add: folderByKey_None)
    qed (use new plainResolve_placed [OF ok Inr] in simp_all)
    then show ?thesis using None Inr ok by (simp add: folderOutcome_def)
  qed (use None ok in \<open>simp add: folderOutcome_def\<close>)
qed (use ok in \<open>simp add: folderOutcome_def\<close>)

section \<open>A batch\<close>

text \<open>Item by item with no cache kept.\<close>

fun folderOutcomes :: "tree_env \<Rightarrow> reg_gates \<Rightarrow> (nat \<Rightarrow> string) \<Rightarrow> (nat \<times> folder_input) list \<Rightarrow> tree \<Rightarrow> reg_ctx
    \<Rightarrow> (nat \<times> reg_folder reg_result) list \<times> tree" where
  "folderOutcomes env g newIds [] t ctx = ([], t)"
| "folderOutcomes env g newIds ((i, x) # xs) t ctx =
     (let (r, t') = folderOutcome env g (newIds i) x t ctx;
          (rs, t'') = folderOutcomes env g newIds xs t' (ctx\<lparr>rxCreated := rxCreated ctx @ created_ids r (newIds i)\<rparr>)
      in ((i, r) # rs, t''))"

lemma ctx_cache:
  "rxVault (ctx\<lparr>rxFolders := m\<rparr>) = rxVault ctx" "rxUser (ctx\<lparr>rxFolders := m\<rparr>) = rxUser ctx"
  "rxCreated (ctx\<lparr>rxFolders := m\<rparr>) = rxCreated ctx"
  by simp_all

lemma folderOutcome_cache: "folderOutcome env g i x t (ctx\<lparr>rxFolders := m\<rparr>) = folderOutcome env g i x t ctx"
  unfolding folderOutcome_def canSeeFolder_cache newFolder_cache ctx_cache ..

lemma folderOutcome_ids:
  "tfId ` set (trFolders (snd (folderOutcome env g newId x t ctx))) \<subseteq> tfId ` set (trFolders t) \<union> {newId}"
  by (auto simp: folderOutcome_def split: option.splits sum.splits)

lemma folderOutcomes_cache: "folderOutcomes env g newIds xs t (ctx\<lparr>rxFolders := m\<rparr>) = folderOutcomes env g newIds xs t ctx"
proof (induction xs arbitrary: t ctx)
  case (Cons ix xs)
  obtain i x where ix: "ix = (i, x)" by (cases ix)
  obtain r t' where o: "folderOutcome env g (newIds i) x t ctx = (r, t')" by fastforce
  have swap: "ctx\<lparr>rxFolders := m, rxCreated := c\<rparr> = (ctx\<lparr>rxCreated := c\<rparr>)\<lparr>rxFolders := m\<rparr>" for c by simp
  show ?case
    unfolding ix folderOutcomes.simps folderOutcome_cache o Let_def prod.case ctx_cache swap Cons.IH ..
qed simp

definition fresh_ids :: "(nat \<Rightarrow> string) \<Rightarrow> (nat \<times> folder_input) list \<Rightarrow> tree \<Rightarrow> bool" where
  "fresh_ids newIds xs t \<longleftrightarrow> distinct (map (newIds \<circ> fst) xs) \<and> (newIds \<circ> fst) ` set xs \<inter> tfId ` set (trFolders t) = {}"

lemma disjoint_step: "A \<inter> B = {} \<Longrightarrow> C \<subseteq> B \<union> {n} \<Longrightarrow> n \<notin> A \<Longrightarrow> A \<inter> C = {}"
  by blast

lemma fresh_ids_step:
  assumes "fresh_ids newIds ((i, x) # xs) t"
  shows "newIds i \<notin> tfId ` set (trFolders t)" "fresh_ids newIds xs (snd (folderOutcome env g (newIds i) x t ctx))"
proof -
  have a: "newIds i \<notin> (newIds \<circ> fst) ` set xs" "distinct (map (newIds \<circ> fst) xs)"
    "newIds i \<notin> tfId ` set (trFolders t)" "(newIds \<circ> fst) ` set xs \<inter> tfId ` set (trFolders t) = {}"
    using assms by (auto simp: fresh_ids_def)
  show "newIds i \<notin> tfId ` set (trFolders t)" by (rule a(3))
  show "fresh_ids newIds xs (snd (folderOutcome env g (newIds i) x t ctx))"
    unfolding fresh_ids_def
  proof
    show "(newIds \<circ> fst) ` set xs \<inter> tfId ` set (trFolders (snd (folderOutcome env g (newIds i) x t ctx))) = {}"
      by (rule disjoint_step [OF a(4) folderOutcome_ids a(1)])
  qed (rule a(2))
qed

lemma registerFolderList_spec:
  assumes K: "keys_agree env"
  shows "tree_ok env t \<Longrightarrow> fresh_ids newIds xs t \<Longrightarrow> folder_cache env t (rxVault ctx) (rxFolders ctx) \<Longrightarrow>
    (\<exists>ctx'. registerFolderList env g newIds xs (t, ctx) =
       (fst (folderOutcomes env g newIds xs t ctx), snd (folderOutcomes env g newIds xs t ctx), ctx') \<and>
       rxVault ctx' = rxVault ctx) \<and>
    tree_ok env (snd (folderOutcomes env g newIds xs t ctx))"
proof (induction xs arbitrary: t ctx)
  case (Cons ix xs)
  obtain i x where ix: "ix = (i, x)" by (cases ix)
  obtain r t' where o: "folderOutcome env g (newIds i) x t ctx = (r, t')" by fastforce
  note fresh = fresh_ids_step [OF Cons.prems(2) [unfolded ix]]
  let ?c = "\<lambda>m. ctx\<lparr>rxFolders := m, rxCreated := rxCreated ctx @ created_ids r (newIds i)\<rparr>"
  obtain m where m: "registerFolder env g (newIds i) x (t, ctx) = (r, t', ?c m)" "folder_cache env t' (rxVault ctx) m"
    using registerFolder_spec [OF K Cons.prems(1,3), of g "newIds i" x] unfolding o by auto
  have ok: "tree_ok env t'" using folderOutcome_ok [OF K Cons.prems(1) fresh(1)] o by (metis snd_conv)
  have fresh': "fresh_ids newIds xs t'" using fresh(2) [where env = env and g = g and ctx = ctx] by (simp add: o)
  have swap: "ctx\<lparr>rxFolders := m, rxCreated := c\<rparr> = (ctx\<lparr>rxCreated := c\<rparr>)\<lparr>rxFolders := m\<rparr>" for c by simp
  have "folderOutcomes env g newIds xs t' (?c m) =
      folderOutcomes env g newIds xs t' (ctx\<lparr>rxCreated := rxCreated ctx @ created_ids r (newIds i)\<rparr>)"
    unfolding swap folderOutcomes_cache ..
  then show ?case
    using Cons.IH [OF ok fresh', of "?c m"] m by (auto simp: ix o split: prod.splits)
qed simp

lemma set_folderBatchOrder:
  "set (folderBatchOrder items) = {(i, items ! i) | i. i < length items \<and> fnPath (items ! i) \<noteq> [] \<and> fnName (items ! i) \<noteq> []}"
  by (auto simp: folderBatchOrder_def in_set_enumerate_eq)

lemma distinct_folderBatchOrder: "distinct (map fst (folderBatchOrder items))"
  unfolding folderBatchOrder_def
  by (metis (no_types, lifting) distinct_enumerate distinct_map_filter map_fst_enumerate distinct_upt set_sort distinct_map distinct_sort)

lemma sorted_folderBatchOrder: "sorted (map (\<lambda>(i, x). pathDepth (fnPath x)) (folderBatchOrder items))"
  unfolding folderBatchOrder_def by (rule sorted_sort_key)

section \<open>A whole tree lands\<close>

lemma pathDepth_slashes: "pathDepth p = 1 + int (count_list p CHR ''/'')"
proof -
  have "fold (\<lambda>c n. if c = CHR ''/'' then n + 1 else n) p m = m + int (count_list p CHR ''/'')" for m :: int
    by (induction p arbitrary: m) auto
  then show ?thesis by (simp add: pathDepth_def)
qed

definition open_gates :: "reg_gates \<Rightarrow> bool" where
  "open_gates g \<longleftrightarrow> (\<forall>q. rgCanCreateIn g q) \<and> (\<forall>i. rgVisibleFolder g i) \<and> \<not> rgRootFrozen g"

definition landed :: "reg_folder reg_result \<Rightarrow> bool" where
  "landed r \<longleftrightarrow> (case r of Created _ \<Rightarrow> True | Adopted _ _ \<Rightarrow> True | _ \<Rightarrow> False)"

definition folder_at :: "tree_env \<Rightarrow> string \<Rightarrow> string \<Rightarrow> tree \<Rightarrow> bool" where
  "folder_at env v k t \<longleftrightarrow> (\<exists>f \<in> set (trFolders t). tfVault f = v \<and> teKey env (tfPath f) = k)"

lemma folderOutcome_lands:
  assumes K: "keys_agree env" and ok: "tree_ok env t" and g: "open_gates g"
    and path: "goodPath (fnPath x)" "fnParent x = None"
    and parent: "dirname (fnPath x) \<noteq> [] \<Longrightarrow> folder_at env (rxVault ctx) (teKey env (dirname (fnPath x))) t"
    and o: "folderOutcome env g i x t ctx = (r, t')"
  shows "landed r" "folder_at env (rxVault ctx) (teKey env (fnPath x)) t'" "set (trFolders t) \<subseteq> set (trFolders t')"
proof -
  have "landed r \<and> folder_at env (rxVault ctx) (teKey env (fnPath x)) t' \<and> set (trFolders t) \<subseteq> set (trFolders t')"
  proof (cases "folderByKey env t (rxVault ctx) (teKey env (fnPath x))")
    case (Some e)
    then show ?thesis
      using o g folderByKey_Some [OF Some] by (auto simp: folderOutcome_def landed_def folder_at_def open_gates_def canSeeFolder_def)
  next
    case None
    have "\<exists>loc. plainResolve env t (rxVault ctx) (fnPath x) None = Inr loc"
    proof (cases "dirname (fnPath x) = []")
      case True
      then show ?thesis using path(1) by (simp add: resolveParentFolder_def badRelPath_iff)
    next
      case False
      then have "folderByKey env t (rxVault ctx) (teKey env (dirname (fnPath x))) \<noteq> None"
        using parent unfolding folderByKey_None folder_at_def by blast
      then obtain f where "findFolderByPath env t (rxVault ctx) (dirname (fnPath x)) = Some f"
        by (auto simp: folderByKey_info)
      then show ?thesis using path(1) False by (simp add: resolveParentFolder_def badRelPath_iff plainLookup_def Let_def)
    qed
    then obtain loc where loc: "plainResolve env t (rxVault ctx) (fnPath x) None = Inr loc" by blast
    then have "(r, t') = (Created (toFolder (newFolder env t ctx i x loc)), t\<lparr>trFolders := trFolders t @ [newFolder env t ctx i x loc]\<rparr>)"
      using o None g path(2) by (simp add: folderOutcome_def open_gates_def)
    then show ?thesis using resolved_key [OF K ok loc] by (auto simp: landed_def folder_at_def)
  qed
  then show "landed r" "folder_at env (rxVault ctx) (teKey env (fnPath x)) t'" "set (trFolders t) \<subseteq> set (trFolders t')"
    by blast+
qed

lemma dirname_depth: "goodPath p \<Longrightarrow> dirname p \<noteq> [] \<Longrightarrow> pathDepth p = pathDepth (dirname p) + 1"
  by (cases p rule: path_cases) (auto simp: pathDepth_slashes)

lemma folder_at_mono: "folder_at env v k t \<Longrightarrow> set (trFolders t) \<subseteq> set (trFolders t') \<Longrightarrow> folder_at env v k t'"
  by (auto simp: folder_at_def)

lemma folderOutcomes_land:
  assumes K: "keys_agree env" and g: "open_gates g"
  shows "tree_ok env t \<Longrightarrow> fresh_ids newIds xs t \<Longrightarrow> sorted (map (\<lambda>(i, x). pathDepth (fnPath x)) xs) \<Longrightarrow>
    (\<And>i x. (i, x) \<in> set xs \<Longrightarrow> goodPath (fnPath x) \<and> fnParent x = None) \<Longrightarrow>
    (\<And>i x. (i, x) \<in> set xs \<Longrightarrow> dirname (fnPath x) \<noteq> [] \<Longrightarrow>
       folder_at env (rxVault ctx) (teKey env (dirname (fnPath x))) t \<or>
       (\<exists>j y. (j, y) \<in> set xs \<and> teKey env (fnPath y) = teKey env (dirname (fnPath x)))) \<Longrightarrow>
    (\<forall>(i, r) \<in> set (fst (folderOutcomes env g newIds xs t ctx)). landed r) \<and>
    (\<forall>(i, x) \<in> set xs. folder_at env (rxVault ctx) (teKey env (fnPath x)) (snd (folderOutcomes env g newIds xs t ctx))) \<and>
    set (trFolders t) \<subseteq> set (trFolders (snd (folderOutcomes env g newIds xs t ctx)))"
proof (induction xs arbitrary: t ctx)
  case (Cons ix xs)
  obtain i x where ix: "ix = (i, x)" by (cases ix)
  obtain r t' where o: "folderOutcome env g (newIds i) x t ctx = (r, t')" by fastforce
  note fresh = fresh_ids_step [OF Cons.prems(2) [unfolded ix]]
  have x: "goodPath (fnPath x)" "fnParent x = None" using Cons.prems(4) [of i x] ix by auto
  have parent: "folder_at env (rxVault ctx) (teKey env (dirname (fnPath x))) t" if d: "dirname (fnPath x) \<noteq> []"
  proof (rule ccontr)
    assume "\<not> ?thesis"
    then obtain j y where y: "(j, y) \<in> set (ix # xs)" "teKey env (fnPath y) = teKey env (dirname (fnPath x))"
      using Cons.prems(5) [of i x] d ix by auto
    then have "pathDepth (fnPath y) = pathDepth (dirname (fnPath x))"
      using key_slashes [OF keys_segmental [OF K]] by (metis pathDepth_slashes)
    then have "pathDepth (fnPath y) < pathDepth (fnPath x)" using dirname_depth [OF x(1) d] by simp
    moreover have "pathDepth (fnPath x) \<le> pathDepth (fnPath y)" using Cons.prems(3) y(1) ix by auto
    ultimately show False by simp
  qed
  note l = folderOutcome_lands [OF K Cons.prems(1) g x parent o]
  let ?ctx = "ctx\<lparr>rxCreated := rxCreated ctx @ created_ids r (newIds i)\<rparr>"
  have ok: "tree_ok env t'" using folderOutcome_ok [OF K Cons.prems(1) fresh(1)] o by (metis snd_conv)
  have fresh': "fresh_ids newIds xs t'" using fresh(2) [where env = env and g = g and ctx = ctx] by (simp add: o)
  have IH: "(\<forall>(i, r) \<in> set (fst (folderOutcomes env g newIds xs t' ?ctx)). landed r) \<and>
    (\<forall>(i, x) \<in> set xs. folder_at env (rxVault ?ctx) (teKey env (fnPath x)) (snd (folderOutcomes env g newIds xs t' ?ctx))) \<and>
    set (trFolders t') \<subseteq> set (trFolders (snd (folderOutcomes env g newIds xs t' ?ctx)))"
  proof (rule Cons.IH [OF ok fresh'])
    show "sorted (map (\<lambda>(i, x). pathDepth (fnPath x)) xs)" using Cons.prems(3) by simp
    show "goodPath (fnPath y) \<and> fnParent y = None" if "(j, y) \<in> set xs" for j y
      using Cons.prems(4) [of j y] that by simp
    fix j y assume y: "(j, y) \<in> set xs" "dirname (fnPath y) \<noteq> []"
    then have "folder_at env (rxVault ctx) (teKey env (dirname (fnPath y))) t \<or>
        teKey env (fnPath x) = teKey env (dirname (fnPath y)) \<or>
        (\<exists>k z. (k, z) \<in> set xs \<and> teKey env (fnPath z) = teKey env (dirname (fnPath y)))"
      using Cons.prems(5) [of j y] ix by auto
    then show "folder_at env (rxVault ?ctx) (teKey env (dirname (fnPath y))) t' \<or>
        (\<exists>k z. (k, z) \<in> set xs \<and> teKey env (fnPath z) = teKey env (dirname (fnPath y)))"
      using l(2,3) folder_at_mono by auto
  qed
  have "folder_at env (rxVault ctx) (teKey env (fnPath x)) (snd (folderOutcomes env g newIds xs t' ?ctx))"
    using l(2) IH folder_at_mono by blast
  then show ?case using IH l(1,3) by (auto simp: ix o split: prod.splits)
qed simp

end
