(* ===== verification/Reg_Notes.thy ===== *)
theory Reg_Notes
  imports Reg_Lands
begin

text \<open>
  Registering notes: the rows a batch adds are first plans of fresh ids, each placed, within what is
  left of the quota and, with the root frozen, inside a folder.
\<close>

section \<open>Planning\<close>

definition note_ids :: "tree \<Rightarrow> string set" where
  "note_ids t = tnId ` set (trNotes t)"

lemma probeIds_iff: "i \<in> set (probeIds t ids) \<longleftrightarrow> i \<in> set ids \<and> i \<in> note_ids t"
  by (auto simp: probeIds_def note_ids_def list_ex_iff)

text \<open>With the root frozen a plan at the root has an id the table has, or one planned before.\<close>

fun latched :: "string set \<Rightarrow> note_plan list \<Rightarrow> bool" where
  "latched T [] = True"
| "latched T (p # ps) = ((npFolder p = None \<longrightarrow> npId p \<in> T) \<and> latched (insert (npId p) T) ps)"

lemma latched_append: "latched T (ps @ [p]) \<longleftrightarrow> latched T ps \<and> (npFolder p = None \<longrightarrow> npId p \<in> T \<union> npId ` set ps)"
  by (induction ps arbitrary: T) auto

lemma firstPlans_in: "p \<in> set (firstPlans seen ps) \<Longrightarrow> p \<in> set ps \<and> npId p \<notin> set seen"
proof (induction ps arbitrary: seen)
  case (Cons x ps)
  then show ?case using Cons.IH [of seen] Cons.IH [of "npId x # seen"] by (auto split: if_splits)
qed simp

lemma firstPlans_ids: "npId ` set (firstPlans seen ps) = npId ` set ps - set seen"
  by (induction ps arbitrary: seen) auto

lemma firstPlans_latched:
  "latched (T \<union> set seen) ps \<Longrightarrow> p \<in> set (firstPlans seen ps) \<Longrightarrow> npFolder p = None \<Longrightarrow> npId p \<in> T"
proof (induction ps arbitrary: seen)
  case (Cons x ps)
  show ?case
  proof (cases "npId x \<in> set seen")
    case True
    then have "latched (T \<union> set seen) ps" using Cons.prems(1) by (simp add: insert_absorb)
    then show ?thesis using Cons True by simp
  next
    case False
    show ?thesis
    proof (cases "p = x")
      case True
      then show ?thesis using Cons.prems False by auto
    next
      case False2: False
      have "latched (T \<union> set (npId x # seen)) ps" using Cons.prems(1) by simp
      then show ?thesis using Cons.IH [of "npId x # seen"] Cons.prems(2,3) False False2 by simp
    qed
  qed
qed simp

text \<open>What holds of the loop's state; \<open>r0\<close> is the quota's rest at the start.\<close>

definition quota_ok :: "int option \<Rightarrow> int option \<Rightarrow> string set \<Rightarrow> bool" where
  "quota_ok r0 rem A \<longleftrightarrow> (case r0 of None \<Rightarrow> rem = None
     | Some r \<Rightarrow> \<exists>r'. rem = Some r' \<and> 0 \<le> r' \<and> int (card A) \<le> r - r')"

definition plans_ok :: "tree_env \<Rightarrow> reg_gates \<Rightarrow> tree \<Rightarrow> string \<Rightarrow> int option \<Rightarrow> note_loop \<Rightarrow> bool" where
  "plans_ok env g t v r0 st \<longleftrightarrow>
     rxVault (nlCtx st) = v \<and> folder_cache env t v (rxFolders (nlCtx st)) \<and>
     set (nlKnown st) = npId ` set (nlPlans st) \<and>
     (\<forall>p \<in> set (nlPlans st). placed (folderItems t) v (npFolder p) (npPath p)) \<and>
     (rgRootFrozen g \<longrightarrow> latched (note_ids t) (nlPlans st)) \<and>
     quota_ok r0 (nlRemaining st) (npId ` set (nlPlans st) - note_ids t)"

lemma plans_ok_decided:
  "plans_ok env g t v r0 st \<Longrightarrow> rxVault ctx = v \<Longrightarrow> folder_cache env t v (rxFolders ctx) \<Longrightarrow> plans_ok env g t v r0 (decided i r ctx st)"
  by (simp add: plans_ok_def decided_def)

lemma card_insert_le: "int (card (insert x A - B)) \<le> (if x \<in> A \<union> B then int (card (A - B)) else int (card (A - B)) + 1)"
  if "finite A"
  using that by (auto simp: insert_Diff_if insert_absorb card_insert_if)

lemma plans_ok_planned:
  assumes st: "plans_ok env g t v r0 st" and ctx: "rxVault ctx = v" "folder_cache env t v (rxFolders ctx)"
    and place: "placed (folderItems t) v (npFolder p) (npPath p)"
    and frozen: "rgRootFrozen g \<Longrightarrow> npFolder p = None \<Longrightarrow> npId p \<in> note_ids t \<or> npId p \<in> set (nlKnown st)"
    and rem: "rem = (if c then Some (the (nlRemaining st) - 1) else nlRemaining st)"
    and c: "c \<Longrightarrow> nlRemaining st \<noteq> None \<and> 0 < the (nlRemaining st)"
      "\<not> c \<Longrightarrow> nlRemaining st \<noteq> None \<Longrightarrow> npId p \<in> note_ids t \<or> npId p \<in> set (nlKnown st)"
  shows "plans_ok env g t v r0 (planned env p rem ctx st)"
proof -
  have known: "set (nlKnown st) = npId ` set (nlPlans st)" using st by (simp add: plans_ok_def)
  have quota: "quota_ok r0 rem (insert (npId p) (npId ` set (nlPlans st)) - note_ids t)"
  proof (cases r0)
    case None
    then have "nlRemaining st = None" using st by (simp add: plans_ok_def quota_ok_def)
    then show ?thesis using None rem c(1) by (cases c) (auto simp: quota_ok_def)
  next
    case (Some r)
    then obtain r' where r': "nlRemaining st = Some r'" "0 \<le> r'" "int (card (npId ` set (nlPlans st) - note_ids t)) \<le> r - r'"
      using st by (auto simp: plans_ok_def quota_ok_def)
    have fin: "finite (npId ` set (nlPlans st))" by simp
    show ?thesis
    proof (cases c)
      case True
      then have "0 < r'" "rem = Some (r' - 1)" using c(1) r'(1) rem by auto
      then show ?thesis using Some r'(3) card_insert_le [OF fin, of "npId p" "note_ids t"] by (auto simp: quota_ok_def split: if_splits)
    next
      case False
      then have "npId p \<in> npId ` set (nlPlans st) \<union> note_ids t" "rem = Some r'" using c(2) r'(1) rem known by auto
      then show ?thesis using Some r'(2,3) card_insert_le [OF fin, of "npId p" "note_ids t"] by (auto simp: quota_ok_def)
    qed
  qed
  show ?thesis
    using st ctx place frozen quota known unfolding plans_ok_def planned_def
    by (auto simp: latched_append)
qed

lemma liveNoteByPath_ctx:
  "liveNoteByPath env t ctx p fresh = (r, ctx') \<Longrightarrow> \<exists>m. ctx' = ctx\<lparr>rxNotes := m\<rparr>"
  by (auto simp: liveNoteByPath_def Let_def split: option.splits if_splits intro: exI [of _ "rxNotes ctx"])

lemma planNoteInsert_ok:
  assumes K: "keys_agree env" and ok: "tree_ok env t" and st: "plans_ok env g t v r0 st"
  shows "plans_ok env g t v r0 (planNoteInsert env g t supplied i newId x st)"
proof -
  define docId where "docId = suppliedId (niDocId x) newId"
  obtain h ctx1 where l: "liveNoteByPath env t (nlCtx st) (niPath x) False = (h, ctx1)" by fastforce
  obtain m where ctx1: "ctx1 = (nlCtx st)\<lparr>rxNotes := m\<rparr>" using liveNoteByPath_ctx [OF l] by blast
  have c1: "rxVault ctx1 = v" "folder_cache env t v (rxFolders ctx1)" using st by (simp_all add: plans_ok_def ctx1)
  show ?thesis
  proof (cases h)
    case (Some n)
    then show ?thesis using plans_ok_decided [OF st c1] by (simp add: planNoteInsert_def l)
  next
    case None
    obtain m2 where r: "resolveParentFolder env t (cachedFolderLookup env t) ctx1 (rxVault ctx1) (niPath x) (niFolder x) =
        (plainResolve env t v (niPath x) (niFolder x), ctx1\<lparr>rxFolders := m2\<rparr>)" "folder_cache env t v m2"
      using cachedResolve_spec [OF K, of t ctx1 "niPath x" "niFolder x"] c1 by auto
    let ?ctx2 = "ctx1\<lparr>rxFolders := m2\<rparr>"
    have c2: "rxVault ?ctx2 = v" "folder_cache env t v (rxFolders ?ctx2)" using c1 r(2) by simp_all
    show ?thesis
    proof (cases "plainResolve env t v (niPath x) (niFolder x)")
      case (Inl e)
      then show ?thesis using plans_ok_decided [OF st c2] None r(1) by (simp add: planNoteInsert_def l)
    next
      case (Inr loc)
      define counts where "counts \<longleftrightarrow> nlRemaining st \<noteq> None \<and> docId \<notin> set (probeIds t supplied) \<and> docId \<notin> set (nlKnown st)"
      define p where "p = \<lparr>npIndex = i, npId = docId, npFolder = lcFolder loc, npTitle = niTitle x, npPath = lcPath loc,
        npColor = (case normalizeColor env (niColor x) of None \<Rightarrow> None | Some c \<Rightarrow> c)\<rparr>"
      define refuse where "refuse \<longleftrightarrow> lcFolder loc = None \<and> rgRootFrozen g \<and> docId \<notin> set (probeIds t supplied) \<and> docId \<notin> set (nlKnown st)"
      have plan: "planNoteInsert env g t supplied i newId x st =
        (if \<not> rgCanCreateIn g (lcFolder loc) then decided i (Refused NoWriteAccess) ?ctx2 st
         else if refuse then decided i (Refused RootFrozen) ?ctx2 st
         else if counts \<and> the (nlRemaining st) \<le> 0 then decided i (Refused NoteLimitReached) ?ctx2 st
         else planned env p (if counts then Some (the (nlRemaining st) - 1) else nlRemaining st) ?ctx2 st)"
        unfolding planNoteInsert_def l prod.case None option.case r(1) Inr sum.case Let_def docId_def [symmetric]
          counts_def [symmetric] refuse_def [symmetric] p_def [symmetric] ..
      have "plans_ok env g t v r0 (planned env p (if counts then Some (the (nlRemaining st) - 1) else nlRemaining st) ?ctx2 st)"
        if "\<not> refuse" "\<not> (counts \<and> the (nlRemaining st) \<le> 0)"
        by (rule plans_ok_planned [OF st c2 _ _ refl])
           (use that plainResolve_placed [OF ok Inr] in \<open>auto simp: p_def refuse_def counts_def probeIds_iff\<close>)
      then show ?thesis unfolding plan using plans_ok_decided [OF st c2] by simp
    qed
  qed
qed

lemma planNoteInserts_ok:
  "keys_agree env \<Longrightarrow> tree_ok env t \<Longrightarrow> plans_ok env g t v r0 st \<Longrightarrow> plans_ok env g t v r0 (planNoteInserts env g t supplied newIds i xs st)"
  by (induction xs arbitrary: i st) (simp_all add: planNoteInsert_ok)

section \<open>Inserting\<close>

text \<open>What every insert of a plan keeps, the batch keeps.\<close>

definition insert_closed :: "tree_env \<Rightarrow> string \<Rightarrow> note_plan list \<Rightarrow> (tree \<Rightarrow> bool) \<Rightarrow> bool" where
  "insert_closed env v ps P \<longleftrightarrow> (\<forall>t t' c. \<forall>p \<in> set ps. rxVault c = v \<longrightarrow> P t \<longrightarrow>
     insertNote env t (noteRow t c p) = Inserted t' \<longrightarrow> P t')"

lemma insert_closed_Cons: "insert_closed env v (p # ps) P \<Longrightarrow> insert_closed env v ps P"
  unfolding insert_closed_def by (intro allI ballI, drule spec, drule spec, drule spec, erule bspec) simp

lemma insert_closedD:
  assumes "insert_closed env v ps P" "p \<in> set ps" "rxVault c = v" "P t"
    and "insertNote env t (noteRow t c p) = Inserted t'"
  shows "P t'"
  by (rule assms(1) [unfolded insert_closed_def, rule_format, OF assms(2,3,4,5)])

lemma insertNotes_keeps:
  "insert_closed env (rxVault ctx) ps P \<Longrightarrow> P t \<Longrightarrow> insertNotes env ctx ps t = Some (t', ids) \<Longrightarrow> P t'"
proof (induction ps arbitrary: t ids)
  case (Cons p ps)
  have closed: "insert_closed env (rxVault ctx) ps P" by (rule insert_closed_Cons [OF Cons.prems(1)])
  show ?case
  proof (cases "insertNote env t (noteRow t ctx p)")
    case (Inserted u)
    have u: "P u" by (rule insert_closedD [OF Cons.prems(1) _ refl Cons.prems(2) Inserted]) simp
    obtain ids' where "insertNotes env ctx ps u = Some (t', ids')" using Cons.prems(3) Inserted by auto
    then show ?thesis by (rule Cons.IH [OF closed u])
  next
    case Skipped
    then have "insertNotes env ctx ps t = Some (t', ids)" using Cons.prems(3) by simp
    then show ?thesis by (rule Cons.IH [OF closed Cons.prems(2)])
  next
    case Violates
    then show ?thesis using Cons.prems(3) by simp
  qed
next
  case Nil
  then show ?case by simp
qed

lemma replayNotes_keeps:
  "insert_closed env (rxVault (rpCtx st)) ps P \<Longrightarrow> P (rpTree st) \<Longrightarrow> P (rpTree (replayNotes env g ps st))"
proof (induction ps arbitrary: st)
  case (Cons p ps)
  have closed: "insert_closed env (rxVault (rpCtx st)) ps P" by (rule insert_closed_Cons [OF Cons.prems(1)])
  show ?case
  proof (cases "insertNote env (rpTree st) (noteRow (rpTree st) (rpCtx st) p)")
    case (Inserted u)
    let ?st = "st\<lparr>rpTree := u, rpInserted := rpInserted st @ [npId p], rpCtx := noteCreated (npId p) (rpCtx st)\<rparr>"
    have u: "P u" by (rule insert_closedD [OF Cons.prems(1) _ refl Cons.prems(2) Inserted]) simp
    have "replayNotes env g (p # ps) st = replayNotes env g ps ?st" using Inserted by simp
    moreover have "P (rpTree (replayNotes env g ps ?st))"
      by (rule Cons.IH) (use closed u in \<open>simp_all add: noteCreated_def\<close>)
    ultimately show ?thesis by (simp only:)
  next
    case Skipped
    then have "replayNotes env g (p # ps) st = replayNotes env g ps st" by simp
    then show ?thesis using Cons.IH [OF closed Cons.prems(2)] by (simp only:)
  next
    case Violates
    obtain w ctx where w: "liveNoteByPath env (rpTree st) (rpCtx st) (npPath p) True = (w, ctx)" by fastforce
    then obtain m where ctx: "ctx = (rpCtx st)\<lparr>rxNotes := m\<rparr>" using liveNoteByPath_ctx by blast
    show ?thesis
    proof (cases w)
      case None
      then show ?thesis using Violates w Cons.prems(2) by simp
    next
      case (Some n)
      let ?st = "st\<lparr>rpResults := (rpResults st)(npIndex p \<mapsto>
          (if canAdoptDoc g ctx (rnId n) then Adopted n False else Refused NotReadable)),
        rpCtx := ctx\<lparr>rxNotes := (rxNotes ctx)(treePathKey env (rnPath n) \<mapsto> Some n)\<rparr>\<rparr>"
      have "replayNotes env g (p # ps) st = replayNotes env g ps ?st" using Violates w Some by simp
      moreover have "P (rpTree (replayNotes env g ps ?st))"
        by (rule Cons.IH) (use closed Cons.prems(2) in \<open>simp_all add: ctx\<close>)
      ultimately show ?thesis by (simp only:)
    qed
  qed
next
  case Nil
  then show ?case by simp
qed

lemma applyNoteInserts_keeps:
  assumes "insert_closed env (rxVault ctx) (firstPlans [] plans) P" "P t"
  shows "P (fst (snd (applyNoteInserts env g ctx plans results t)))"
proof (cases "insertNotes env ctx (firstPlans [] plans) t")
  case None
  let ?st = "\<lparr>rpTree = t, rpCtx = ctx, rpInserted = [], rpResults = results, rpThrown = False\<rparr>"
  have "fst (snd (applyNoteInserts env g ctx plans results t)) = rpTree (replayNotes env g (firstPlans [] plans) ?st)"
    using None by (simp add: applyNoteInserts_def Let_def)
  moreover have "P (rpTree (replayNotes env g (firstPlans [] plans) ?st))"
    by (rule replayNotes_keeps) (use assms in simp_all)
  ultimately show ?thesis by (simp only:)
next
  case (Some a)
  have "fst (snd (applyNoteInserts env g ctx plans results t)) = fst a"
    using Some by (cases a) (simp add: applyNoteInserts_def Let_def)
  moreover have "P (fst a)" by (rule insertNotes_keeps [OF assms, of _ "snd a"]) (use Some in simp)
  ultimately show ?thesis by (simp only:)
qed

lemma prefetchNotes_spec:
  assumes "keys_agree env" "keys_stable env" "folder_cache env t (rxVault ctx) (rxFolders ctx)"
  shows "rxVault (prefetchNotes env t ctx ps) = rxVault ctx"
    and "folder_cache env t (rxVault ctx) (rxFolders (prefetchNotes env t ctx ps))"
proof -
  obtain n where n: "prefetchNotes env t ctx ps = prefetchFolders env t (ctx\<lparr>rxNotes := n\<rparr>) (map dirname ps)"
    unfolding prefetchNotes_def Let_def by blast
  obtain m where m: "prefetchFolders env t (ctx\<lparr>rxNotes := n\<rparr>) (map dirname ps) = (ctx\<lparr>rxNotes := n\<rparr>)\<lparr>rxFolders := m\<rparr>"
    "folder_cache env t (rxVault ctx) m"
    using prefetchFolders_cache [OF assms(1,2), of t "ctx\<lparr>rxNotes := n\<rparr>" "map dirname ps"] assms(3) by auto
  show "rxVault (prefetchNotes env t ctx ps) = rxVault ctx"
    "folder_cache env t (rxVault ctx) (rxFolders (prefetchNotes env t ctx ps))"
    using m by (simp_all add: n)
qed

lemma registerNotes_plans:
  assumes K: "keys_agree env" "keys_stable env" and ok: "tree_ok env t"
    and c: "folder_cache env t (rxVault ctx) (rxFolders ctx)"
    and r: "registerNotes env g newIds inputs cap (t, ctx) = (r, t', ctx')"
  obtains st where "plans_ok env g t (rxVault ctx) (noteRemaining t (rxVault ctx) cap) st"
    "\<And>P. insert_closed env (rxVault ctx) (firstPlans [] (nlPlans st)) P \<Longrightarrow> P t \<Longrightarrow> P t'"
proof -
  let ?ctx = "(registerCtx (rxVault ctx) (rxUser ctx))\<lparr>rxFolders := rxFolders ctx, rxFiles := rxFiles ctx\<rparr>"
  let ?rem = "noteRemaining t (rxVault ctx) cap"
  define st where "st = planNoteInserts env g t (suppliedIds inputs) newIds 0 inputs
    \<lparr>nlCtx = prefetchNotes env t ?ctx (map niPath inputs), nlRemaining = ?rem, nlKnown = [], nlPlans = [], nlResults = Map.empty\<rparr>"
  have v: "rxVault ?ctx = rxVault ctx" "folder_cache env t (rxVault ?ctx) (rxFolders ?ctx)"
    using c by (simp_all add: registerCtx_def)
  have "plans_ok env g t (rxVault ctx) ?rem
    \<lparr>nlCtx = prefetchNotes env t ?ctx (map niPath inputs), nlRemaining = ?rem, nlKnown = [], nlPlans = [], nlResults = Map.empty\<rparr>"
    using prefetchNotes_spec [OF K v(2), of "map niPath inputs"] v(1)
    by (simp add: plans_ok_def quota_ok_def noteRemaining_def split: option.splits)
  then have st: "plans_ok env g t (rxVault ctx) ?rem st" unfolding st_def by (rule planNoteInserts_ok [OF K(1) ok])
  have t': "t' = (if nlPlans st = [] then t else fst (snd (applyNoteInserts env g (nlCtx st) (nlPlans st) (nlResults st) t)))"
    using r by (auto simp: registerNotes_def registerNotesWithinQuota_def st_def [symmetric] Let_def split: prod.splits option.splits if_splits)
  show thesis
  proof (rule that [OF st])
    fix P assume P: "insert_closed env (rxVault ctx) (firstPlans [] (nlPlans st)) P" "P t"
    have "P (fst (snd (applyNoteInserts env g (nlCtx st) (nlPlans st) (nlResults st) t)))"
      by (rule applyNoteInserts_keeps [where P = P, OF _ P(2)]) (use P(1) st in \<open>simp add: plans_ok_def\<close>)
    then show "P t'" using P(2) by (simp add: t')
  qed
qed

end
