(* ===== verification/Reg_Register.thy ===== *)
theory Reg_Register
  imports Reg_Notes
begin

text \<open>
  What registrations keep: a well-formed tree, for notes the quota of the vault, and with the root
  frozen the notes and folders at the root.
\<close>

section \<open>Notes\<close>

lemma insertNote_Inserted:
  assumes "insertNote env t row = Inserted t'"
  shows "t' = t\<lparr>trNotes := trNotes t @ [row]\<rparr>" "tnId row \<notin> note_ids t" "liveNotesAt env t (tnVault row) (teKey env (tnPath row)) = []"
  using assms by (auto simp: insertNote_def note_ids_def list_ex_iff split: if_splits)

lemma noteRow_sel [simp]:
  "tnId (noteRow t c p) = npId p" "tnVault (noteRow t c p) = rxVault c" "tnFolder (noteRow t c p) = npFolder p"
  "tnPath (noteRow t c p) = npPath p" "tnDeletedAt (noteRow t c p) = None"
  by (simp_all add: noteRow_def)

lemma tree_ok_note_added:
  assumes ok: "tree_ok env t" and live: "tnDeletedAt n = None" and new: "tnId n \<notin> note_ids t"
    and place: "placed (folderItems t) (tnVault n) (tnFolder n) (tnPath n)"
    and free: "liveNotesAt env t (tnVault n) (teKey env (tnPath n)) = []"
  shows "tree_ok env (t\<lparr>trNotes := trNotes t @ [n]\<rparr>)"
proof -
  have N: "noteItems (t\<lparr>trNotes := trNotes t @ [n]\<rparr>) = noteItems t @ [noteItem n]" by (simp add: noteItems_def live)
  have F: "folderItems (t\<lparr>trNotes := trNotes t @ [n]\<rparr>) = folderItems t" "fileItems (t\<lparr>trNotes := trNotes t @ [n]\<rparr>) = fileItems t"
    by (simp_all add: folderItems_def fileItems_def)
  have "items_ok (teKey env) (folderItems t) (noteItems t @ [noteItem n])"
    by (rule items_added [OF tree_ok_parts(2) [OF ok]])
       (use new place free in \<open>auto simp: set_noteItems note_ids_def liveNotesAt_def filter_empty_conv\<close>)
  then show ?thesis using tree_ok_parts [OF ok] new unfolding tree_ok_def N F by (simp add: note_ids_def)
qed

lemma plans_ok_first:
  "plans_ok env g t v r0 st \<Longrightarrow> p \<in> set (firstPlans [] (nlPlans st)) \<Longrightarrow> placed (folderItems t) v (npFolder p) (npPath p)"
  using firstPlans_in unfolding plans_ok_def by blast

lemma registerNotes_ok:
  assumes K: "keys_agree env" "keys_stable env" and ok: "tree_ok env t"
    and c: "folder_cache env t (rxVault ctx) (rxFolders ctx)"
    and r: "registerNotes env g newIds inputs cap (t, ctx) = (r, t', ctx')"
  shows "tree_ok env t'"
  using registerNotes_plans [OF K ok c r]
proof cases
  case (1 st)
  let ?P = "\<lambda>u. tree_ok env u \<and> trFolders u = trFolders t"
  have "insert_closed env (rxVault ctx) (firstPlans [] (nlPlans st)) ?P"
    unfolding insert_closed_def
  proof (intro allI ballI impI)
    fix u u' c p assume p: "p \<in> set (firstPlans [] (nlPlans st))" and c: "rxVault c = rxVault ctx"
      and u: "?P u" and i: "insertNote env u (noteRow u c p) = Inserted u'"
    note i' = insertNote_Inserted [OF i]
    have "folderItems u = folderItems t" using u by (simp add: folderItems_def)
    then have place: "placed (folderItems u) (tnVault (noteRow u c p)) (tnFolder (noteRow u c p)) (tnPath (noteRow u c p))"
      using plans_ok_first [OF 1(1) p] c by simp
    have "tree_ok env (u\<lparr>trNotes := trNotes u @ [noteRow u c p]\<rparr>)"
      by (rule tree_ok_note_added [OF conjunct1 [OF u] _ i'(2) place i'(3)]) simp
    then show "?P u'" using u i'(1) by simp
  qed
  then have "?P t'" by (rule 1(2)) (use ok in simp)
  then show ?thesis by simp
qed

text \<open>The rows a batch adds are of fresh planned ids, in the vault, and with the root frozen in a folder.\<close>

definition rows_added :: "reg_gates \<Rightarrow> tree \<Rightarrow> string \<Rightarrow> string set \<Rightarrow> tree \<Rightarrow> bool" where
  "rows_added g t v A u \<longleftrightarrow> (\<exists>rows. trNotes u = trNotes t @ rows \<and> distinct (map tnId rows) \<and>
     tnId ` set rows \<subseteq> A - note_ids t \<and>
     (\<forall>n \<in> set rows. tnVault n = v \<and> (rgRootFrozen g \<longrightarrow> tnFolder n \<noteq> None)))"

lemma registerNotes_rows:
  assumes K: "keys_agree env" "keys_stable env" and ok: "tree_ok env t"
    and c: "folder_cache env t (rxVault ctx) (rxFolders ctx)"
    and r: "registerNotes env g newIds inputs cap (t, ctx) = (r, t', ctx')"
  obtains st where "plans_ok env g t (rxVault ctx) (noteRemaining t (rxVault ctx) cap) st"
    "rows_added g t (rxVault ctx) (npId ` set (nlPlans st)) t'"
  using registerNotes_plans [OF K ok c r]
proof cases
  case (1 st)
  let ?P = "rows_added g t (rxVault ctx) (npId ` set (nlPlans st))"
  have "insert_closed env (rxVault ctx) (firstPlans [] (nlPlans st)) ?P"
    unfolding insert_closed_def
  proof (intro allI ballI impI)
    fix u u' c p assume p: "p \<in> set (firstPlans [] (nlPlans st))" and c: "rxVault c = rxVault ctx"
      and u: "?P u" and i: "insertNote env u (noteRow u c p) = Inserted u'"
    note i' = insertNote_Inserted [OF i]
    obtain rows where rows: "trNotes u = trNotes t @ rows" "distinct (map tnId rows)"
      "tnId ` set rows \<subseteq> npId ` set (nlPlans st) - note_ids t"
      "\<forall>n \<in> set rows. tnVault n = rxVault ctx \<and> (rgRootFrozen g \<longrightarrow> tnFolder n \<noteq> None)"
      using u unfolding rows_added_def by blast
    have new: "npId p \<notin> note_ids t" "npId p \<notin> tnId ` set rows" using i'(2) rows(1) by (auto simp: note_ids_def)
    have "rgRootFrozen g \<Longrightarrow> npFolder p \<noteq> None"
      using firstPlans_latched [of "note_ids t" "[]" "nlPlans st" p] 1(1) p new(1) by (auto simp: plans_ok_def)
    then show "?P u'"
      using rows new i'(1) c firstPlans_in [OF p] unfolding rows_added_def
      by (intro exI [of _ "rows @ [noteRow u c p]"]) auto
  qed
  moreover have "?P t" by (simp add: rows_added_def)
  ultimately have "?P t'" by (rule 1(2))
  then show ?thesis using that 1(1) by blast
qed

definition live_count :: "tree \<Rightarrow> string \<Rightarrow> int" where
  "live_count t v = int (length (filter (\<lambda>n. tnVault n = v \<and> tnDeletedAt n = None) (trNotes t)))"

lemma registerNotes_quota:
  assumes K: "keys_agree env" "keys_stable env" and ok: "tree_ok env t"
    and c: "folder_cache env t (rxVault ctx) (rxFolders ctx)"
    and r: "registerNotes env g newIds inputs (Some cap) (t, ctx) = (r, t', ctx')"
  shows "live_count t' (rxVault ctx) \<le> max cap (live_count t (rxVault ctx))"
  using registerNotes_rows [OF K ok c r]
proof cases
  case (1 st)
  obtain rows where rows: "trNotes t' = trNotes t @ rows" "distinct (map tnId rows)"
    "tnId ` set rows \<subseteq> npId ` set (nlPlans st) - note_ids t"
    using 1(2) unfolding rows_added_def by blast
  have "length rows = card (tnId ` set rows)" using rows(2) by (metis distinct_card length_map set_map)
  also have "\<dots> \<le> card (npId ` set (nlPlans st) - note_ids t)" by (rule card_mono) (use rows(3) in auto)
  finally have "int (length rows) \<le> max 0 (cap - live_count t (rxVault ctx))"
    using 1(1) by (auto simp: plans_ok_def quota_ok_def noteRemaining_def live_count_def)
  moreover have "live_count t' (rxVault ctx) \<le> live_count t (rxVault ctx) + int (length rows)"
    by (simp add: live_count_def rows(1))
  ultimately show ?thesis by simp
qed

section \<open>Files\<close>

lemma set_fileItems: "set (fileItems t) = fileItem ` set (trFiles t)"
  by (simp add: fileItems_def)

lemma tree_ok_files:
  assumes ok: "tree_ok env t" and X: "items_ok (teKey env) (folderItems t) (map fileItem fs)"
  shows "tree_ok env (t\<lparr>trFiles := fs\<rparr>)"
proof -
  have "folderItems (t\<lparr>trFiles := fs\<rparr>) = folderItems t" "noteItems (t\<lparr>trFiles := fs\<rparr>) = noteItems t"
    "fileItems (t\<lparr>trFiles := fs\<rparr>) = map fileItem fs"
    by (simp_all add: folderItems_def noteItems_def fileItems_def)
  then show ?thesis using tree_ok_parts [OF ok] X unfolding tree_ok_def by simp
qed

lemma placeFile_ok:
  assumes K: "keys_agree env" and ok: "tree_ok env t"
    and place: "placed (folderItems t) (rxVault ctx) (lcFolder loc) (lcPath loc)"
  shows "tree_ok env (fst (snd (placeFile env g i loc (t, ctx))))"
proof -
  let ?new = "\<lparr>tlId = i, tlVault = rxVault ctx, tlFolder = lcFolder loc, tlPath = lcPath loc, tlCreatedBy = Some (rxUser ctx)\<rparr>"
  let ?mv = "\<lambda>f. f\<lparr>tlFolder := lcFolder loc, tlPath := lcPath loc\<rparr>"
  have moved: "tree_ok env (t\<lparr>trFiles := map (\<lambda>f. if tlId f = i then ?mv f else f) (trFiles t)\<rparr>)"
    if f: "f \<in> set (trFiles t)" "tlId f = i" "tlVault f = rxVault ctx"
      and free: "\<not> filePathTaken env t (rxVault ctx) (lcPath loc) i" for f :: tree_file
  proof (rule tree_ok_files [OF ok])
    have same: "h = f" if h: "h \<in> set (trFiles t)" "tlId h = i" for h
      using tree_ok_parts(3) [OF ok] f h unfolding items_ok_def fileItems_def by (auto simp: comp_def distinct_map inj_on_def)
    have "map fileItem (map (\<lambda>f. if tlId f = i then ?mv f else f) (trFiles t)) =
        map (\<lambda>y. if itId y = itId (fileItem f) then fileItem (?mv f) else y) (fileItems t)"
      using f(2) same by (auto simp: fileItems_def)
    also have "items_ok (teKey env) (folderItems t) \<dots>"
    proof (rule items_replaced [OF tree_ok_parts(3) [OF ok]])
      fix y assume y: "y \<in> set (fileItems t)" "itVault y = itVault (fileItem f)" "teKey env (itPath y) = teKey env (itPath (fileItem (?mv f)))"
      then obtain h where h: "h \<in> set (trFiles t)" "y = fileItem h" by (auto simp: set_fileItems)
      then have "tlId h = i" using free y(2,3) f(3) by (auto simp: filePathTaken_def list_ex_iff)
      then show "y = fileItem f" using same [OF h(1)] h(2) by simp
    qed (use f place in \<open>simp_all add: set_fileItems\<close>)
    finally show "items_ok (teKey env) (folderItems t) (map fileItem (map (\<lambda>f. if tlId f = i then ?mv f else f) (trFiles t)))" .
  qed
  have added: "tree_ok env (t\<lparr>trFiles := trFiles t @ [?new]\<rparr>)"
    if new: "\<not> list_ex (\<lambda>f. tlId f = i) (trFiles t)" and free: "\<not> filePathTaken env t (rxVault ctx) (lcPath loc) i"
  proof (rule tree_ok_files [OF ok])
    have "items_ok (teKey env) (folderItems t) (fileItems t @ [fileItem ?new])"
      by (rule items_added [OF tree_ok_parts(3) [OF ok]])
         (use new free place in \<open>auto simp: set_fileItems list_ex_iff filePathTaken_def\<close>)
    then show "items_ok (teKey env) (folderItems t) (map fileItem (trFiles t @ [?new]))" by (simp add: fileItems_def)
  qed
  show ?thesis
  proof (cases "first_row (\<lambda>f. tlId f = i \<and> tlVault f = rxVault ctx) (trFiles t)")
    case None
    then show ?thesis using ok added by (simp add: placeFile_def Let_def split: prod.splits)
  next
    case (Some f)
    then have "f \<in> set (trFiles t)" "tlId f = i" "tlVault f = rxVault ctx" by (auto dest: first_row_Some)
    then show ?thesis using Some ok moved by (simp add: placeFile_def Let_def split: prod.splits)
  qed
qed

lemma fileByPath_ctx: "fileByPath env t ctx p fresh = (r, ctx') \<Longrightarrow> \<exists>m. ctx' = ctx\<lparr>rxFiles := m\<rparr>"
  by (auto simp: fileByPath_def Let_def split: option.splits if_splits intro: exI [of _ "rxFiles ctx"])

lemma registerFile_ok:
  assumes K: "keys_agree env" and ok: "tree_ok env t"
    and c: "folder_cache env t (rxVault ctx) (rxFolders ctx)"
    and r: "registerFile env g newId input (t, ctx) = (r, t', ctx')"
  shows "tree_ok env t'"
proof -
  obtain h ctx1 where l: "fileByPath env t ctx (fePath input) False = (h, ctx1)" by fastforce
  obtain m where ctx1: "ctx1 = ctx\<lparr>rxFiles := m\<rparr>" using fileByPath_ctx [OF l] by blast
  show ?thesis
  proof (cases "h \<noteq> None \<or> isTransientPath env (fePath input)")
    case True
    then show ?thesis using r ok l by (auto simp: registerFile_def Let_def split: option.splits)
  next
    case False
    obtain m2 where s: "resolveParentFolder env t (cachedFolderLookup env t) ctx1 (rxVault ctx1) (fePath input) (feFolder input) =
        (plainResolve env t (rxVault ctx) (fePath input) (feFolder input), ctx1\<lparr>rxFolders := m2\<rparr>)"
      using cachedResolve_spec [OF K, of t ctx1 "fePath input" "feFolder input"] c ctx1 by auto
    show ?thesis
    proof (cases "plainResolve env t (rxVault ctx) (fePath input) (feFolder input)")
      case (Inl e)
      then show ?thesis using r ok l s False by (auto simp: registerFile_def Let_def)
    next
      case (Inr loc)
      obtain h2 ctx3 where l2: "(if treeSamePath env (lcPath loc) (fePath input) then (None, ctx1\<lparr>rxFolders := m2\<rparr>)
          else fileByPath env t (ctx1\<lparr>rxFolders := m2\<rparr>) (lcPath loc) False) = (h2, ctx3)" by fastforce
      have v: "rxVault ctx3 = rxVault ctx"
        using l2 fileByPath_ctx [of env t "ctx1\<lparr>rxFolders := m2\<rparr>" "lcPath loc" False h2 ctx3] ctx1 by (auto split: if_splits)
      have "registerFile env g newId input (t, ctx) = (case h2 of Some canonical \<Rightarrow> (adoptFile g ctx3 canonical, t, ctx3)
          | None \<Rightarrow> placeFile env g (suppliedId (feDocId input) newId) loc (t, ctx3))"
        using False unfolding registerFile_def Let_def l prod.case s Inr sum.case l2 by simp
      moreover have "tree_ok env (fst (snd (placeFile env g (suppliedId (feDocId input) newId) loc (t, ctx3))))"
        by (rule placeFile_ok [OF K ok]) (use plainResolve_placed [OF ok Inr] v in simp)
      ultimately have "tree_ok env (fst (snd (registerFile env g newId input (t, ctx))))" using ok by (cases h2) simp_all
      then show ?thesis by (simp add: r)
    qed
  qed
qed

end
