(* ===== verification/Reg_Routes.thy ===== *)
theory Reg_Routes
  imports Reg_Register "HOL-Library.Sublist"
begin

text \<open>
  The registry's HTTP surface over the tree (\<open>server/src/http/routes/registry.ts\<close>): renames and moves
  of folders and notes with the brakes on renaming other people's notes
  (\<open>server/src/registry/rename-guard.ts\<close>), and deletes behind the deletion rule
  (\<open>permissions/http-gates.ts canDeleteItem\<close>). An answer is its status; the permission gates are
  functions of the caller and the item.
\<close>

section \<open>Renaming other people's notes\<close>

definition FOREIGN_RENAME_MAX :: nat where "FOREIGN_RENAME_MAX = 100"
definition FOREIGN_RENAME_WINDOW_MS :: int where "FOREIGN_RENAME_WINDOW_MS = 5 * 60000"

text \<open>\<open> (conflict YYYY-MM-DD)\<close> before the extension or at the end.\<close>

definition isDigit :: "char \<Rightarrow> bool" where
  "isDigit c \<longleftrightarrow> (let n = of_char c :: nat in 48 \<le> n \<and> n \<le> 57)"

definition conflictTail :: "string \<Rightarrow> bool" where
  "conflictTail s \<longleftrightarrow>
     (let date = take 10 (drop 11 s); rest = drop 22 s
      in starts_with '' (conflict '' s \<and> length date = 10 \<and>
         list_all isDigit (take 4 date) \<and> date ! 4 = CHR ''-'' \<and>
         list_all isDigit (take 2 (drop 5 date)) \<and> date ! 7 = CHR ''-'' \<and>
         list_all isDigit (drop 8 date) \<and> take 1 (drop 21 s) = '')'' \<and>
         (rest = [] \<or> (hd rest = CHR ''.'' \<and> list_all (\<lambda>c. c \<noteq> CHR ''.'' \<and> c \<noteq> CHR ''/'') (tl rest))))"

definition hasConflictSuffix :: "string \<Rightarrow> bool" where
  "hasConflictSuffix name \<longleftrightarrow> list_ex conflictTail (suffixes name)"

definition gainsConflictSuffix :: "string \<Rightarrow> string \<Rightarrow> bool" where
  "gainsConflictSuffix source to \<longleftrightarrow> hasConflictSuffix (basename to) \<and> \<not> hasConflictSuffix (basename source)"

type_synonym rename_windows = "(string, int list) js_map"

datatype rename_budget = BudgetOk | RetryAfter int

definition renameKey :: "string \<Rightarrow> string \<Rightarrow> string" where
  "renameKey userId vaultId = userId @ [CHR 0x00] @ vaultId"

definition takeForeignRename :: "string \<Rightarrow> string \<Rightarrow> int \<Rightarrow> rename_windows \<Rightarrow> rename_budget \<times> rename_windows" where
  "takeForeignRename userId vaultId now windows =
     (let key = renameKey userId vaultId;
          cutoff = now - FOREIGN_RENAME_WINDOW_MS;
          hits = filter (\<lambda>t. t > cutoff) (case js_get windows key of None \<Rightarrow> [] | Some ts \<Rightarrow> ts)
      in if length hits \<ge> FOREIGN_RENAME_MAX
         then (RetryAfter (max 1 (- ((- (hd hits - cutoff)) div 1000))), js_put key hits windows)
         else
           (let w = js_put key (hits @ [now]) windows
            in (BudgetOk, if length w > 10000 then filter (\<lambda>(k, ts). list_ex (\<lambda>t. t > cutoff) ts) w else w)))"

section \<open>The deletion rule\<close>

record route_gates =
  ogEditFolder :: "string \<Rightarrow> string \<Rightarrow> bool"
  ogEditDoc :: "string \<Rightarrow> string \<Rightarrow> bool"
  ogReadOnly :: "string option \<Rightarrow> bool"
  ogRootFrozen :: "string \<Rightarrow> bool"
  ogRole :: "string \<Rightarrow> string \<Rightarrow> string option"
  ogWriteBlob :: "string \<Rightarrow> tree_file \<Rightarrow> bool"

datatype item_kind = KNote | KFile | KFolder
datatype delete_gate = DeleteOk | DeleteNotCreator | FolderHasOthersItems | AccountReadOnly

definition isManagerRole :: "string option \<Rightarrow> bool" where
  "isManagerRole role \<longleftrightarrow> truthy role \<and>
     list_ex (\<lambda>r. js_trim r = ''owner'' \<or> js_trim r = ''admin'') (split_on CHR '','' (the role))"

definition folderHit :: "string list \<Rightarrow> tree_folder \<Rightarrow> string \<Rightarrow> string option \<Rightarrow> string \<Rightarrow> bool" where
  "folderHit subtree f vault fld path \<longleftrightarrow>
     vault = tfVault f \<and> (inIds subtree fld \<or> path = tfPath f \<or> likeUnder (tfPath f) path)"

definition canDeleteItem :: "route_gates \<Rightarrow> tree \<Rightarrow> string \<Rightarrow> string \<Rightarrow> item_kind \<Rightarrow> string \<Rightarrow> delete_gate" where
  "canDeleteItem g t orgId userId kind i =
     (if ogReadOnly g (Some orgId) then AccountReadOnly
      else if isManagerRole (ogRole g orgId userId) then DeleteOk
      else case kind of
        KNote \<Rightarrow>
          (case first_row (\<lambda>n. tnId n = i) (trNotes t) of
             None \<Rightarrow> DeleteNotCreator
           | Some n \<Rightarrow> if tnCreatedBy n = Some userId then DeleteOk else DeleteNotCreator)
      | KFile \<Rightarrow>
          (case first_row (\<lambda>f. tlId f = i) (trFiles t) of
             None \<Rightarrow> DeleteNotCreator
           | Some f \<Rightarrow> if tlCreatedBy f = Some userId then DeleteOk else DeleteNotCreator)
      | KFolder \<Rightarrow>
          (case first_row (\<lambda>f. tfId f = i) (trFolders t) of
             None \<Rightarrow> DeleteNotCreator
           | Some f \<Rightarrow>
               if tfCreatedBy f \<noteq> Some userId then DeleteNotCreator
               else
                 (let subtree = folderSubtree t i;
                      foreign =
                        list_ex (\<lambda>h. tfId h \<in> set subtree \<and> tfCreatedBy h \<noteq> Some userId) (trFolders t) \<or>
                        list_ex (\<lambda>n. tnDeletedAt n = None \<and> folderHit subtree f (tnVault n) (tnFolder n) (tnPath n) \<and>
                          tnCreatedBy n \<noteq> Some userId) (trNotes t) \<or>
                        list_ex (\<lambda>x. folderHit subtree f (tlVault x) (tlFolder x) (tlPath x) \<and>
                          tlCreatedBy x \<noteq> Some userId) (trFiles t)
                  in if foreign then FolderHasOthersItems else DeleteOk)))"

section \<open>Routes\<close>

definition treeOrg :: "tree \<Rightarrow> string \<Rightarrow> string option" where
  "treeOrg t vaultId = map_option vtOrg (first_row (\<lambda>v. vtId v = vaultId) (trVaults t))"

definition setFolderColor :: "string \<Rightarrow> string option \<Rightarrow> tree \<Rightarrow> tree" where
  "setFolderColor i color t = t\<lparr>trFolders := map (\<lambda>f. if tfId f = i then f\<lparr>tfColor := color\<rparr> else f) (trFolders t)\<rparr>"

definition setNoteColor :: "string \<Rightarrow> string option \<Rightarrow> tree \<Rightarrow> tree" where
  "setNoteColor i color t = t\<lparr>trNotes := map (\<lambda>n. if tnId n = i then n\<lparr>tnColor := color\<rparr> else n) (trNotes t)\<rparr>"

definition billingOr :: "route_gates \<Rightarrow> tree \<Rightarrow> string \<Rightarrow> nat" where
  "billingOr g t vaultId = (if ogReadOnly g (treeOrg t vaultId) then 402 else 403)"

record folder_patch =
  fpMove :: move_folder_input
  fpColor :: color_input

text \<open>\<open>PATCH /folders/:id\<close>.\<close>

definition patchFolder :: "tree_env \<Rightarrow> route_gates \<Rightarrow> string option \<Rightarrow> string \<Rightarrow> folder_patch \<Rightarrow> tree \<Rightarrow> nat \<times> tree" where
  "patchFolder env g session i body t =
     (case session of
        None \<Rightarrow> (401, t)
      | Some userId \<Rightarrow>
          (case findFolder t i of
             None \<Rightarrow> (404, t)
           | Some current \<Rightarrow>
               if \<not> ogEditFolder g userId i then (billingOr g t (fiVault current), t)
               else
                 (case planFolderMove env t current (fpMove body) of
                    Inl e \<Rightarrow> (400, t)
                  | Inr (newPath, parentId) \<Rightarrow>
                      if parentId \<noteq> None \<and> parentId \<noteq> fiParent current \<and> \<not> ogEditFolder g userId (the parentId)
                      then (billingOr g t (fiVault current), t)
                      else if parentId = None \<and> fiParent current \<noteq> None \<and> ogRootFrozen g (fiVault current)
                      then (403, t)
                      else
                        (let t1 = (case normalizeColor env (fpColor body) of None \<Rightarrow> t | Some c \<Rightarrow> setFolderColor i c t)
                         in case moveFolder env t1 i (fpMove body) of
                              Inl e \<Rightarrow> (400, t1)
                            | Inr (t2, _) \<Rightarrow> (200, t2)))))"

text \<open>\<open>DELETE /folders/:id\<close>.\<close>

definition deleteFolder :: "tree_env \<Rightarrow> route_gates \<Rightarrow> string option \<Rightarrow> string \<Rightarrow> tree \<Rightarrow> nat \<times> tree" where
  "deleteFolder env g session i t =
     (case session of
        None \<Rightarrow> (401, t)
      | Some userId \<Rightarrow>
          (case findFolder t i of
             None \<Rightarrow> (404, t)
           | Some row \<Rightarrow>
               if \<not> ogEditFolder g userId i then (billingOr g t (fiVault row), t)
               else
                 (case (case treeOrg t (fiVault row) of
                          None \<Rightarrow> DeleteNotCreator
                        | Some org \<Rightarrow> canDeleteItem g t org userId KFolder i) of
                    AccountReadOnly \<Rightarrow> (402, t)
                  | DeleteOk \<Rightarrow>
                      (case deleteFolderCascade env t i (Some userId) of
                         Inl e \<Rightarrow> (500, t)
                       | Inr (t', _) \<Rightarrow> (200, t'))
                  | _ \<Rightarrow> (403, t))))"

record note_patch =
  ntMove :: move_note_input
  ntColor :: color_input

text \<open>\<open>PATCH /notes/:id\<close>, with the windows of the rename guard.\<close>

definition patchNote :: "tree_env \<Rightarrow> route_gates \<Rightarrow> string option \<Rightarrow> string \<Rightarrow> note_patch \<Rightarrow> tree \<times> rename_windows
    \<Rightarrow> nat \<times> tree \<times> rename_windows" where
  "patchNote env g session i body s =
     (case s of (t, w) \<Rightarrow>
       (case session of
          None \<Rightarrow> (401, t, w)
        | Some userId \<Rightarrow>
            (case findNote t i of
               None \<Rightarrow> (404, t, w)
             | Some note \<Rightarrow>
                 if \<not> ogEditDoc g userId i then (billingOr g t (tnVault note), t, w)
                 else
                   (let foreign = mnPath (ntMove body) \<noteq> None \<and> mnPath (ntMove body) \<noteq> Some (tnPath note) \<and>
                          tnCreatedBy note \<noteq> Some userId
                    in if foreign \<and> gainsConflictSuffix (tnPath note) (the (mnPath (ntMove body))) then (409, t, w)
                       else
                         (case (if foreign then takeForeignRename userId (tnVault note) (trNow t) w else (BudgetOk, w)) of
                            (RetryAfter _, w1) \<Rightarrow> (429, t, w1)
                          | (BudgetOk, w1) \<Rightarrow>
                              (case planNoteMove env t note (ntMove body) of
                                 Inl e \<Rightarrow> (400, t, w1)
                               | Inr loc \<Rightarrow>
                                   if lcFolder loc \<noteq> None \<and> lcFolder loc \<noteq> tnFolder note \<and>
                                     \<not> ogEditFolder g userId (the (lcFolder loc))
                                   then (billingOr g t (tnVault note), t, w1)
                                   else if lcFolder loc = None \<and> tnFolder note \<noteq> None \<and> ogRootFrozen g (tnVault note)
                                   then (403, t, w1)
                                   else
                                     (let t1 = (case normalizeColor env (ntColor body) of None \<Rightarrow> t | Some c \<Rightarrow> setNoteColor i c t)
                                      in case moveNote env t1 i (ntMove body) of
                                           Inl e \<Rightarrow> (400, t1, w1)
                                         | Inr (t2, _) \<Rightarrow> (200, t2, w1))))))))"

definition softDeleteNote :: "tree_env \<Rightarrow> string \<Rightarrow> string option \<Rightarrow> tree \<Rightarrow> tree" where
  "softDeleteNote env i deletedBy t = t\<lparr>trNotes := map (\<lambda>n. if tnId n = i
      then n\<lparr>tnDeletedAt := Some (trNow t), tnDeletedBy := deletedBy, tnPurgeAfter := Some (trNow t + teRetention env)\<rparr>
      else n) (trNotes t)\<rparr>"

text \<open>\<open>DELETE /notes/:id\<close>.\<close>

definition deleteNote :: "tree_env \<Rightarrow> route_gates \<Rightarrow> string option \<Rightarrow> string \<Rightarrow> tree \<Rightarrow> nat \<times> tree" where
  "deleteNote env g session i t =
     (case session of
        None \<Rightarrow> (401, t)
      | Some userId \<Rightarrow>
          (case findNote t i of
             None \<Rightarrow> (404, t)
           | Some note \<Rightarrow>
               if \<not> ogEditDoc g userId i then (billingOr g t (tnVault note), t)
               else
                 (case (case treeOrg t (tnVault note) of
                          None \<Rightarrow> DeleteNotCreator
                        | Some org \<Rightarrow> canDeleteItem g t org userId KNote i) of
                    AccountReadOnly \<Rightarrow> (402, t)
                  | DeleteOk \<Rightarrow> (200, softDeleteNote env i (Some userId) t)
                  | _ \<Rightarrow> (403, t))))"

datatype file_delete = FileGone | FileNotMember | FileForbidden | FileReadOnly | FileNotCreator | FileDeleted string string

definition deleteDocBlobs :: "string \<Rightarrow> string \<Rightarrow> tree \<Rightarrow> tree" where
  "deleteDocBlobs docId vaultId t = t\<lparr>trBlobs := filter (\<lambda>b. \<not> (tbDoc b = Some docId \<and> tbVault b = vaultId)) (trBlobs t)\<rparr>"

definition deleteRegisteredFile :: "route_gates \<Rightarrow> string \<Rightarrow> string \<Rightarrow> string option \<Rightarrow> tree \<Rightarrow> file_delete \<times> tree" where
  "deleteRegisteredFile g userId i allowedOrg t =
     (case first_row (\<lambda>f. tlId f = i) (trFiles t) of
        None \<Rightarrow> (FileGone, t)
      | Some row \<Rightarrow>
          (case treeOrg t (tlVault row) of
             None \<Rightarrow> (FileNotMember, t)
           | Some org \<Rightarrow>
               if (truthy allowedOrg \<and> allowedOrg \<noteq> Some org) \<or> \<not> truthy (ogRole g org userId) then (FileNotMember, t)
               else if \<not> ogWriteBlob g userId row
               then (if ogReadOnly g (Some org) then FileReadOnly else FileForbidden, t)
               else
                 (case canDeleteItem g t org userId KFile i of
                    DeleteOk \<Rightarrow>
                      (let t1 = tombstoneFile (deleteDocBlobs i (tlVault row) t) i
                       in (FileDeleted (tlVault row) (tlPath row), t1\<lparr>trFiles := filter (\<lambda>f. tlId f \<noteq> i) (trFiles t1)\<rparr>))
                  | AccountReadOnly \<Rightarrow> (FileReadOnly, t)
                  | _ \<Rightarrow> (FileNotCreator, t))))"

text \<open>\<open>DELETE /files/:id\<close>.\<close>

definition deleteFile :: "route_gates \<Rightarrow> string option \<Rightarrow> string \<Rightarrow> tree \<Rightarrow> nat \<times> tree" where
  "deleteFile g session i t =
     (case session of
        None \<Rightarrow> (401, t)
      | Some userId \<Rightarrow>
          (case deleteRegisteredFile g userId i None t of
             (out, t') \<Rightarrow>
               (case out of FileGone \<Rightarrow> 204 | FileNotMember \<Rightarrow> 403 | FileReadOnly \<Rightarrow> 402 | FileForbidden \<Rightarrow> 403
                | FileNotCreator \<Rightarrow> 403 | FileDeleted _ _ \<Rightarrow> 204, t')))"

end
