(* ===== verification/Reg_Guard.thy ===== *)
theory Reg_Guard
  imports Reg_Routes
begin

text \<open>
  The brake on renames as a machine over its calls, the subtree the cascade and the deletion rule
  walk, and the deletion rule against what the cascade removes.
\<close>

section \<open>The rename budget\<close>

record guard =
  gdClock :: int
  gdWindows :: rename_windows
  gdGranted :: "(string \<times> int) list"

definition guardStep :: "string \<times> string \<times> nat \<Rightarrow> guard \<Rightarrow> guard" where
  "guardStep e s =
     (case e of (userId, vaultId, d) \<Rightarrow>
       (let now = gdClock s + int d
        in case takeForeignRename userId vaultId now (gdWindows s) of
             (b, w) \<Rightarrow> s\<lparr>gdClock := now, gdWindows := w,
               gdGranted := (if b = BudgetOk then gdGranted s @ [(renameKey userId vaultId, now)] else gdGranted s)\<rparr>))"

definition times :: "string \<Rightarrow> (string \<times> int) list \<Rightarrow> int list" where
  "times k granted = map snd (filter (\<lambda>x. fst x = k) granted)"

definition recent :: "int \<Rightarrow> int list \<Rightarrow> int list" where
  "recent now ts = filter (\<lambda>t. t > now - FOREIGN_RENAME_WINDOW_MS) ts"

definition stored :: "rename_windows \<Rightarrow> string \<Rightarrow> int list" where
  "stored w k = (case js_get w k of None \<Rightarrow> [] | Some ts \<Rightarrow> ts)"

definition within :: "int \<Rightarrow> int list \<Rightarrow> int list" where
  "within T ts = filter (\<lambda>t. T - FOREIGN_RENAME_WINDOW_MS < t \<and> t \<le> T) ts"

definition guard_ok :: "guard \<Rightarrow> bool" where
  "guard_ok s \<longleftrightarrow> distinct (map fst (gdWindows s)) \<and>
     (\<forall>k. \<forall>t \<in> set (times k (gdGranted s)). t \<le> gdClock s) \<and>
     (\<forall>k. recent (gdClock s) (stored (gdWindows s) k) = recent (gdClock s) (times k (gdGranted s))) \<and>
     (\<forall>k T. length (within T (times k (gdGranted s))) \<le> FOREIGN_RENAME_MAX)"

lemma recent_recent: "a \<le> b \<Longrightarrow> recent b (recent a ts) = recent b ts"
  unfolding recent_def filter_filter by (rule filter_cong) auto

lemma recent_later:
  assumes "recent a xs = recent a ys" "a \<le> b" shows "recent b xs = recent b ys"
  by (metis assms recent_recent)

lemma stored_swept:
  assumes "distinct (map fst w)"
  shows "recent now (stored (filter (\<lambda>(k, ts). list_ex (\<lambda>t. t > now - FOREIGN_RENAME_WINDOW_MS) ts) w) k) = recent now (stored w k)"
  unfolding stored_def js_get_filter_distinct [OF assms]
  by (auto simp: recent_def filter_empty_conv list_ex_iff split: option.splits)

lemma takeForeignRename_cases:
  fixes userId vaultId now w
  defines "k \<equiv> renameKey userId vaultId"
  assumes "takeForeignRename userId vaultId now w = (b, w')" and d: "distinct (map fst w)"
  shows "distinct (map fst w')"
    and "b = BudgetOk \<longleftrightarrow> length (recent now (stored w k)) < FOREIGN_RENAME_MAX"
    and "recent now (stored w' j) = recent now (if j = k then stored w k @ (if b = BudgetOk then [now] else []) else stored w j)"
proof -
  define hits where "hits = recent now (stored w k)"
  define sweep where "sweep = (\<lambda>w :: rename_windows. if length w > 10000
    then filter (\<lambda>(k, ts). list_ex (\<lambda>t. t > now - FOREIGN_RENAME_WINDOW_MS) ts) w else w)"
  have eq: "takeForeignRename userId vaultId now w = (if length hits \<ge> FOREIGN_RENAME_MAX
      then (RetryAfter (max 1 (- ((- (hd hits - (now - FOREIGN_RENAME_WINDOW_MS))) div 1000))), js_put k hits w)
      else (BudgetOk, sweep (js_put k (hits @ [now]) w)))"
    unfolding takeForeignRename_def Let_def recent_def stored_def k_def hits_def sweep_def ..
  have put: "distinct (map fst (js_put k v w))" for v using d by (simp add: distinct_update)
  have swept: "distinct (map fst (sweep u))" "recent now (stored (sweep u) j) = recent now (stored u j)"
    if "distinct (map fst u)" for u j
    using that unfolding sweep_def by (simp_all add: distinct_fst_filter stored_swept)
  have st: "stored (js_put k v w) j = (if j = k then v else stored w j)" for v j by (simp add: stored_def)
  have app: "recent now (xs @ ys) = recent now xs @ recent now ys" for xs ys by (simp add: recent_def)
  have idem: "recent now hits = hits" "recent now [now] = [now]" "recent now [] = []"
    by (simp_all add: hits_def recent_recent) (simp_all add: recent_def FOREIGN_RENAME_WINDOW_MS_def)
  show "distinct (map fst w')" "b = BudgetOk \<longleftrightarrow> length (recent now (stored w k)) < FOREIGN_RENAME_MAX"
    "recent now (stored w' j) = recent now (if j = k then stored w k @ (if b = BudgetOk then [now] else []) else stored w j)"
  proof (atomize (full), cases "length hits \<ge> FOREIGN_RENAME_MAX")
    case True
    then have "w' = js_put k hits w" "b \<noteq> BudgetOk" using assms(2) unfolding eq by auto
    then show "distinct (map fst w') \<and> (b = BudgetOk) = (length (recent now (stored w k)) < FOREIGN_RENAME_MAX) \<and>
      recent now (stored w' j) = recent now (if j = k then stored w k @ (if b = BudgetOk then [now] else []) else stored w j)"
      using True put idem by (simp add: st hits_def [symmetric])
  next
    case False
    then have "w' = sweep (js_put k (hits @ [now]) w)" "b = BudgetOk" using assms(2) unfolding eq by auto
    then show "distinct (map fst w') \<and> (b = BudgetOk) = (length (recent now (stored w k)) < FOREIGN_RENAME_MAX) \<and>
      recent now (stored w' j) = recent now (if j = k then stored w k @ (if b = BudgetOk then [now] else []) else stored w j)"
      using False swept [OF put] idem by (simp add: st app hits_def [symmetric])
  qed
qed

lemma times_append: "times k (xs @ [(k', t)]) = times k xs @ (if k' = k then [t] else [])"
  by (simp add: times_def)

lemma within_append: "within T (xs @ ys) = within T xs @ within T ys"
  by (simp add: within_def)

lemma within_recent: "now \<le> T \<Longrightarrow> length (within T ts) \<le> length (recent now ts)"
  unfolding within_def recent_def
  by (induction ts) auto

lemma guardStep_ok: "guard_ok s \<Longrightarrow> guard_ok (guardStep e s)"
proof -
  assume ok: "guard_ok s"
  obtain u v d where e: "e = (u, v, d)" by (cases e)
  let ?now = "gdClock s + int d"
  let ?k = "renameKey u v"
  obtain b w where tk: "takeForeignRename u v ?now (gdWindows s) = (b, w)" by fastforce
  have d: "distinct (map fst (gdWindows s))" and past: "\<And>k t. t \<in> set (times k (gdGranted s)) \<Longrightarrow> t \<le> gdClock s"
    and same: "\<And>k. recent (gdClock s) (stored (gdWindows s) k) = recent (gdClock s) (times k (gdGranted s))"
    and bound: "\<And>k T. length (within T (times k (gdGranted s))) \<le> FOREIGN_RENAME_MAX"
    using ok by (auto simp: guard_ok_def)
  note c = takeForeignRename_cases [OF tk d]
  have later: "recent ?now (stored (gdWindows s) j) = recent ?now (times j (gdGranted s))" for j
    by (rule recent_later [OF same]) simp
  let ?log = "if b = BudgetOk then gdGranted s @ [(?k, ?now)] else gdGranted s"
  have log: "times j ?log = (if j = ?k \<and> b = BudgetOk then times j (gdGranted s) @ [?now] else times j (gdGranted s))" for j
    by (auto simp: times_append)
  have app: "recent ?now (xs @ ys) = recent ?now xs @ recent ?now ys" for xs ys by (simp add: recent_def)
  have one: "length (within T [?now]) \<le> 1" and none: "\<not> ?now \<le> T \<Longrightarrow> within T [?now] = []" for T
    by (simp_all add: within_def)
  have "guardStep e s = \<lparr>gdClock = ?now, gdWindows = w, gdGranted = ?log\<rparr>"
    by (simp add: guardStep_def e tk Let_def)
  moreover have "guard_ok \<lparr>gdClock = ?now, gdWindows = w, gdGranted = ?log\<rparr>"
    unfolding guard_ok_def guard.simps
  proof (intro conjI allI ballI)
    show "distinct (map fst w)" by (rule c(1))
    fix j
    show "t \<le> ?now" if "t \<in> set (times j ?log)" for t
      using that past [of t j] unfolding log by (auto split: if_splits)
    show "recent ?now (stored w j) = recent ?now (times j ?log)"
      unfolding c(3) log using later by (auto simp: app)
    fix T
    show "length (within T (times j ?log)) \<le> FOREIGN_RENAME_MAX"
    proof (cases "j = ?k \<and> b = BudgetOk \<and> ?now \<le> T")
      case True
      then have "length (recent ?now (times j (gdGranted s))) < FOREIGN_RENAME_MAX" using c(2) later by simp
      then have "length (within T (times j (gdGranted s))) < FOREIGN_RENAME_MAX"
        using within_recent [of ?now T "times j (gdGranted s)"] True by simp
      then show ?thesis unfolding log within_append using True one [of T] by (simp add: within_append)
    next
      case False
      then have "within T (times j ?log) = within T (times j (gdGranted s))"
        unfolding log using none [of T] by (auto simp: within_append)
      then show ?thesis using bound by simp
    qed
  qed
  ultimately show ?thesis by simp
qed

interpretation rgm: invariant_machine guardStep guard_ok
  by unfold_locales (rule guardStep_ok)

section \<open>The subtree of a folder\<close>

lemma subtree_iff:
  assumes ok: "tree_ok env t" and f: "f \<in> set (trFolders t)" and g: "g \<in> set (trFolders t)"
  shows "tfId g \<in> set (folderSubtree t (tfId f)) \<longleftrightarrow>
    tfVault g = tfVault f \<and> (tfPath g = tfPath f \<or> under (tfPath f) (tfPath g))"
proof
  let ?P = "\<lambda>j. \<exists>h \<in> set (trFolders t). tfId h = j \<and> tfVault h = tfVault f \<and> (tfPath h = tfPath f \<or> under (tfPath f) (tfPath h))"
  have child: "?P k" if w: "\<forall>j \<in> set work. ?P j" and k: "k \<in> set (childRound t acc work)" for acc work k
  proof -
    obtain x where x: "x \<in> set (trFolders t)" "tfId x = k" "tfParent x \<in> Some ` set work"
      using k unfolding set_childRound by blast
    then obtain p where p: "tfParent x = Some p" "p \<in> set work" by blast
    then obtain y where y: "y \<in> set (trFolders t)" "tfId y = p" "tfVault y = tfVault f"
      "tfPath y = tfPath f \<or> under (tfPath f) (tfPath y)" using w by blast
    obtain z where z: "z \<in> set (trFolders t)" "tfId z = p" "tfVault z = tfVault x" "tfPath z = dirname (tfPath x)" "dirname (tfPath x) \<noteq> []"
      using folder_placed [OF ok x(1)] p(1) by (auto simp: placed_def set_folderItems)
    have zy: "z = y" by (rule folder_id_eq [OF ok z(1) y(1)]) (simp add: z(2) y(2))
    have "under (tfPath f) (tfPath x)"
    proof (cases "tfPath x" rule: path_cases)
      case flat
      then show ?thesis using z(5) by simp
    next
      case (nested d b)
      then show ?thesis using y(4) z(4) zy under_dirname by fastforce
    qed
    then show ?thesis using x y z zy by auto
  qed
  show "tfVault g = tfVault f \<and> (tfPath g = tfPath f \<or> under (tfPath f) (tfPath g))"
    if i: "tfId g \<in> set (folderSubtree t (tfId f))"
  proof -
    have "\<forall>j \<in> set (folderSubtree t (tfId f)). ?P j"
      unfolding folderSubtree_def Let_def
    proof (rule childLoop_all)
      show "?P i" if "\<forall>j \<in> set work. ?P j" "i \<in> set (childRound t acc work)" for acc work i
        by (rule child [OF that])
    qed (use f in auto)
    then obtain h where h: "h \<in> set (trFolders t)" "tfId h = tfId g" "tfVault h = tfVault f"
      "tfPath h = tfPath f \<or> under (tfPath f) (tfPath h)" using i by blast
    have "h = g" by (rule folder_id_eq [OF ok h(1) g h(2)])
    then show ?thesis using h by simp
  qed
  have found: "under (tfPath f) (tfPath h) \<Longrightarrow> h \<in> set (trFolders t) \<Longrightarrow> tfVault h = tfVault f \<Longrightarrow>
      tfId h \<in> set (folderSubtree t (tfId f))" for h
  proof (induction "length (tfPath h)" arbitrary: h rule: less_induct)
    case less
    from folder_placed [OF ok less.prems(2)] show ?case
    proof (cases rule: placed_split)
      case root
      then show ?thesis using less.prems(1) under_flat by blast
    next
      case (inside p b)
      then obtain q where q: "q \<in> set (trFolders t)" "p = folderItem q" by (auto simp: set_folderItems)
      have "tfPath q = tfPath f \<or> under (tfPath f) (tfPath q)"
        using less.prems(1) inside(4,5) q(2) under_dirname by fastforce
      then have "tfId q \<in> set (folderSubtree t (tfId f))"
      proof
        assume "tfPath q = tfPath f"
        then have "folderItem q = folderItem f"
          by (intro items_unique [OF tree_ok_parts(1) [OF ok]]) (use q f inside(3) less.prems(3) in \<open>simp_all add: set_folderItems\<close>)
        then have "tfId q = tfId f" by (metis folderItem_sel(1))
        then show ?thesis using folderSubtree_closed(2) [of "tfId f" t] f by simp
      next
        assume "under (tfPath f) (tfPath q)"
        then show ?thesis using less.hyps [of q] q inside(3,4) less.prems(3) by simp
      qed
      then show ?thesis
        using folderSubtree_closed(1) [of t "tfId f"] less.prems(2) inside(2) q(2) unfolding child_closed_def by simp
    qed
  qed
  show "tfId g \<in> set (folderSubtree t (tfId f))"
    if "tfVault g = tfVault f \<and> (tfPath g = tfPath f \<or> under (tfPath f) (tfPath g))"
  proof (cases "tfPath g = tfPath f")
    case True
    have "folderItem g = folderItem f"
      by (intro items_unique [OF tree_ok_parts(1) [OF ok]]) (use f g that True in \<open>simp_all add: set_folderItems\<close>)
    then have "tfId g = tfId f" by (metis folderItem_sel(1))
    then show ?thesis using folderSubtree_closed(2) [of "tfId f" t] f by simp
  next
    case False
    then show ?thesis using found g that by blast
  qed
qed

end
