(* ===== verification/Reg_Steps.thy ===== *)
theory Reg_Steps
  imports Reg_Guard
begin

text \<open>
  The registry as a machine: a request to any of its routes, or time passing, is a step; \<open>admits\<close> says
  which PATCH bodies for folders a run may see. The tables stay well formed along every run whose folder
  renames name a single valid segment, provided that Unicode keys behave, no character lies outside the
  basic plane and minted ids are new. The code asks for neither of the first two: without them a rename
  answered 200 leaves paths no parent explains (\<open>folder_rename_breaks_paths\<close>).
\<close>

section \<open>Conditions\<close>

definition good_env :: "tree_env \<Rightarrow> bool" where
  "good_env env \<longleftrightarrow> keys_agree env \<and> keys_stable env \<and> (\<forall>c. \<not> teWide env c)"

lemma good_env_plane: "good_env env \<Longrightarrow> basic_plane env p"
  by (simp add: good_env_def basic_plane_def list_all_iff)

definition named_ids :: "tree \<Rightarrow> bool" where
  "named_ids t \<longleftrightarrow> [] \<notin> tfId ` set (trFolders t)"

section \<open>The remaining writes\<close>

lemma colors_items [simp]:
  "folderItems (setFolderColor i c t) = folderItems t" "noteItems (setFolderColor i c t) = noteItems t"
  "fileItems (setFolderColor i c t) = fileItems t" "trNotes (setFolderColor i c t) = trNotes t"
  "folderItems (setNoteColor i c t) = folderItems t" "noteItems (setNoteColor i c t) = noteItems t"
  "fileItems (setNoteColor i c t) = fileItems t" "map tnId (trNotes (setNoteColor i c t)) = map tnId (trNotes t)"
  "map tfId (trFolders (setFolderColor i c t)) = map tfId (trFolders t)" "trFolders (setNoteColor i c t) = trFolders t"
proof -
  show "noteItems (setNoteColor i c t) = noteItems t"
    unfolding noteItems_def setNoteColor_def by (auto intro!: map_filter_map simp: noteItem_def split: if_splits)
qed (auto simp: folderItems_def noteItems_def fileItems_def setFolderColor_def setNoteColor_def folderItem_def noteItem_def)

lemma setFolderColor_ok: "tree_ok env t \<Longrightarrow> tree_ok env (setFolderColor i c t)"
  by (simp add: tree_ok_def)

lemma setNoteColor_ok: "tree_ok env t \<Longrightarrow> tree_ok env (setNoteColor i c t)"
  by (simp add: tree_ok_def)

lemma softDeleteNote_ok:
  assumes ok: "tree_ok env t" shows "tree_ok env (softDeleteNote env i by t)"
proof -
  have N: "noteItems (softDeleteNote env i by t) = map noteItem (filter (\<lambda>n. tnDeletedAt n = None \<and> tnId n \<noteq> i) (trNotes t))"
    unfolding noteItems_def softDeleteNote_def by (auto intro!: map_filter_map split: if_splits)
  have "items_ok (teKey env) (folderItems t) (noteItems (softDeleteNote env i by t))"
  proof (rule items_sub [OF tree_ok_parts(2) [OF ok]])
    show "set (noteItems (softDeleteNote env i by t)) \<subseteq> set (noteItems t)" unfolding N by (auto simp: set_noteItems)
    show "distinct (map itId (noteItems (softDeleteNote env i by t)))"
      using tree_ok_parts(4) [OF ok] unfolding N by (simp add: comp_def distinct_map_filter)
  qed
  moreover have "folderItems (softDeleteNote env i by t) = folderItems t" "fileItems (softDeleteNote env i by t) = fileItems t"
    "map tnId (trNotes (softDeleteNote env i by t)) = map tnId (trNotes t)"
    by (simp_all add: folderItems_def fileItems_def softDeleteNote_def)
  ultimately show ?thesis using ok unfolding tree_ok_def by simp
qed

lemma files_removed_ok:
  assumes ok: "tree_ok env t"
    and t': "folderItems t' = folderItems t" "trNotes t' = trNotes t" "trFiles t' = filter P (trFiles t)"
  shows "tree_ok env t'"
proof -
  have "items_ok (teKey env) (folderItems t) (fileItems t')"
  proof (rule items_sub [OF tree_ok_parts(3) [OF ok]])
    show "set (fileItems t') \<subseteq> set (fileItems t)" using t'(3) by (auto simp: fileItems_def)
    show "distinct (map itId (fileItems t'))"
      using tree_ok_parts(3) [OF ok] by (simp add: items_ok_def fileItems_def t'(3) comp_def distinct_map_filter)
  qed
  then show ?thesis using ok t' unfolding tree_ok_def noteItems_def by simp
qed

lemma deleteRegisteredFile_ok:
  assumes "tree_ok env t" shows "tree_ok env (snd (deleteRegisteredFile g u i org t))"
proof -
  have "tree_ok env ((tombstoneFile (deleteDocBlobs i v t) i)\<lparr>trFiles := filter (\<lambda>f. tlId f \<noteq> i) (trFiles (tombstoneFile (deleteDocBlobs i v t) i))\<rparr>)" for v
    by (rule files_removed_ok [OF assms]) (simp_all add: folderItems_def tombstoneFile_def deleteDocBlobs_def)
  then show ?thesis using assms by (auto simp: deleteRegisteredFile_def Let_def split: option.splits delete_gate.splits)
qed

section \<open>Folder ids\<close>

lemma moveFolder_ids:
  assumes "moveFolder env t i input = Inr (t', r)"
  shows "map tfId (trFolders t') = map tfId (trFolders t)"
  using assms
proof (cases rule: moveFolder_cases)
  case (1 f new q)
  show ?thesis
    unfolding 1(7) Let_def rewriteDescendantPaths_def by (auto simp: comp_def)
qed

lemma moveNote_folders: "moveNote env t i input = Inr (t', r) \<Longrightarrow> trFolders t' = trFolders t"
  by (auto simp: moveNote_def Let_def split: option.splits sum.splits if_splits)

lemma deleteFolderCascade_folders:
  "deleteFolderCascade env t i by = Inr (t', r) \<Longrightarrow> set (trFolders t') \<subseteq> set (trFolders t)"
  by (auto simp: deleteFolderCascade_def Let_def split: option.splits)

lemma registerNotes_folders:
  assumes K: "keys_agree env" "keys_stable env" and ok: "tree_ok env t"
    and c: "folder_cache env t (rxVault ctx) (rxFolders ctx)"
    and r: "registerNotes env g newIds inputs cap (t, ctx) = (r, t', ctx')"
  shows "trFolders t' = trFolders t"
  using registerNotes_plans [OF K ok c r]
proof cases
  case (1 st)
  have "insert_closed env (rxVault ctx) (firstPlans [] (nlPlans st)) (\<lambda>u. trFolders u = trFolders t)"
    unfolding insert_closed_def
  proof (intro allI ballI impI)
    fix u u' c p assume "trFolders u = trFolders t" "insertNote env u (noteRow u c p) = Inserted u'"
    then show "trFolders u' = trFolders t" using insertNote_Inserted(1) by fastforce
  qed
  then show ?thesis by (rule 1(2)) simp
qed

lemma placeFile_folders: "trFolders (fst (snd (placeFile env g i loc (t, ctx)))) = trFolders t"
  by (auto simp: placeFile_def Let_def split: option.splits prod.splits)

lemma registerFile_folders:
  assumes "registerFile env g newId input (t, ctx) = (r, t', ctx')"
  shows "trFolders t' = trFolders t"
proof -
  have "trFolders (fst (snd (registerFile env g newId input (t, ctx)))) = trFolders t"
    by (auto simp: registerFile_def Let_def placeFile_folders split: option.splits prod.splits sum.splits)
  then show ?thesis by (simp add: assms)
qed

section \<open>Steps\<close>

text \<open>The state is the tables and the rename guard's windows.\<close>

inductive tree_step :: "tree_env \<Rightarrow> (folder_patch \<Rightarrow> bool) \<Rightarrow> tree \<times> rename_windows \<Rightarrow> tree \<times> rename_windows \<Rightarrow> bool" for env admits where
  patched_folder: "admits body \<Longrightarrow> tree_step env admits (t, w) (snd (patchFolder env g session i body t), w)"
| deleted_folder: "tree_step env admits (t, w) (snd (deleteFolder env g session i t), w)"
| patched_note: "patchNote env g session i note_body (t, w) = (status, s) \<Longrightarrow> tree_step env admits (t, w) s"
| deleted_note: "tree_step env admits (t, w) (snd (deleteNote env g session i t), w)"
| deleted_file: "tree_step env admits (t, w) (snd (deleteFile g session i t), w)"
| registered_folder: "newId \<noteq> [] \<Longrightarrow> newId \<notin> tfId ` set (trFolders t) \<Longrightarrow>
    registerFolder env rg newId folder (t, registerCtx v u) = (r1, t', ctx) \<Longrightarrow> tree_step env admits (t, w) (t', w)"
| registered_folders: "fresh_ids newIds (enumerate 0 items) t \<Longrightarrow> [] \<notin> range newIds \<Longrightarrow>
    tree_step env admits (t, w) (snd (foldersBatch env rg newIds v u items t), w)"
| registered_notes: "registerNotes env rg newIds inputs cap (t, registerCtx v u) = (r2, t', ctx) \<Longrightarrow> tree_step env admits (t, w) (t', w)"
| registered_file: "registerFile env rg newId file_row (t, registerCtx v u) = (r3, t', ctx) \<Longrightarrow> tree_step env admits (t, w) (t', w)"
| clock: "tree_step env admits (t, w) (t\<lparr>trNow := now\<rparr>, w)"

inductive_cases tree_stepE: "tree_step env admits (t, w) s"

definition registry_ok :: "tree_env \<Rightarrow> tree \<Rightarrow> bool" where
  "registry_ok env t \<longleftrightarrow> tree_ok env t \<and> named_ids t"

lemma named_ids_mono: "named_ids t \<Longrightarrow> tfId ` set (trFolders t') \<subseteq> tfId ` set (trFolders t) \<union> A \<Longrightarrow> [] \<notin> A \<Longrightarrow> named_ids t'"
  by (auto simp: named_ids_def)

lemma named_ids_same: "named_ids t \<Longrightarrow> map tfId (trFolders t') = map tfId (trFolders t) \<Longrightarrow> named_ids t'"
  unfolding named_ids_def by (metis list.set_map)

lemma registered_ctx [simp]: "rxVault (registerCtx v u) = v" "rxUser (registerCtx v u) = u" "rxFolders (registerCtx v u) = Map.empty"
  "rxCreated (registerCtx v u) = []"
  by (simp_all add: registerCtx_def)

lemma patchFolder_ok:
  assumes env: "good_env env" and ok: "registry_ok env t" and names: "names_ok (fpMove body)"
  shows "registry_ok env (snd (patchFolder env g session i body t))"
proof -
  define t1 where "t1 = (case normalizeColor env (fpColor body) of None \<Rightarrow> t | Some c \<Rightarrow> setFolderColor i c t)"
  have t1: "registry_ok env t1"
    using ok setFolderColor_ok named_ids_same [of t "setFolderColor i c t" for c]
    by (auto simp: t1_def registry_ok_def split: option.splits)
  have "registry_ok env t2" if "moveFolder env t1 i (fpMove body) = Inr (t2, r)" for t2 r
    using moveFolder_ok [OF _ _ names good_env_plane [OF env] that] moveFolder_ids [OF that] t1 env
    by (auto simp: registry_ok_def good_env_def intro: named_ids_same)
  then show ?thesis
    using ok t1 unfolding patchFolder_def Let_def t1_def [symmetric]
    by (auto split: option.splits sum.splits if_splits)
qed

lemma deleteFolder_ok:
  assumes ok: "registry_ok env t"
  shows "registry_ok env (snd (deleteFolder env g session i t))"
proof -
  have "registry_ok env t'" if "deleteFolderCascade env t i (Some u) = Inr (t', r)" for t' r u
    using deleteFolderCascade_ok [OF _ that] deleteFolderCascade_folders [OF that] ok
    by (auto simp: registry_ok_def named_ids_def)
  then show ?thesis
    using ok unfolding deleteFolder_def
    by (auto split: option.splits sum.splits if_splits delete_gate.splits)
qed

lemma patchNote_ok:
  assumes env: "good_env env" and ok: "registry_ok env t"
  shows "registry_ok env (fst (snd (patchNote env g session i body (t, w))))"
proof -
  define t1 where "t1 = (case normalizeColor env (ntColor body) of None \<Rightarrow> t | Some c \<Rightarrow> setNoteColor i c t)"
  have t1: "registry_ok env t1"
    using ok setNoteColor_ok by (auto simp: t1_def registry_ok_def named_ids_def split: option.splits)
  have "registry_ok env t2" if "moveNote env t1 i (ntMove body) = Inr (t2, r)" for t2 r
    using moveNote_ok [OF _ _ that] moveNote_folders [OF that] t1 env
    by (auto simp: registry_ok_def good_env_def named_ids_def)
  then have moved: "registry_ok env (fst (snd (case moveNote env t1 i (ntMove body) of Inl e \<Rightarrow> (400, t1, w1) | Inr (t2, _) \<Rightarrow> (200, t2, w1))))"
    for w1 :: rename_windows using t1 by (auto split: sum.splits)
  have pick: "registry_ok env (fst (snd (case p of (RetryAfter _, w1) \<Rightarrow> (429, t, w1) | (BudgetOk, w1) \<Rightarrow> f w1)))"
    if "\<And>w1. registry_ok env (fst (snd (f w1)))" for p :: "rename_budget \<times> rename_windows" and f :: "rename_windows \<Rightarrow> nat \<times> tree \<times> rename_windows"
    using that ok by (cases p; cases "fst p") auto
  show ?thesis
  proof (cases "session = None \<or> findNote t i = None")
    case True
    then show ?thesis using ok by (auto simp: patchNote_def split: option.splits)
  next
    case False
    then obtain u n where un: "session = Some u" "findNote t i = Some n" by auto
    show ?thesis
      unfolding patchNote_def un prod.case option.case Let_def t1_def [symmetric]
      using ok moved by (auto intro!: pick split: sum.splits)
  qed
qed

lemma fresh_ids_batch:
  assumes "fresh_ids newIds (enumerate 0 items) t"
  shows "fresh_ids newIds (folderBatchOrder (map h items)) t"
proof -
  have sub: "fst ` set (folderBatchOrder (map h items)) \<subseteq> fst ` set (enumerate 0 items)"
  proof -
    have "fst ` set (enumerate 0 items) = {0 ..< length items}"
      by (metis add_0 list.set_map map_fst_enumerate set_upt)
    then show ?thesis unfolding set_folderBatchOrder by auto
  qed
  have inj: "inj_on newIds (fst ` set (enumerate 0 items))"
    using assms unfolding fresh_ids_def by (auto simp: distinct_map inj_on_def)
  have "distinct (map newIds (map fst (folderBatchOrder (map h items))))"
    unfolding distinct_map [of newIds] using distinct_folderBatchOrder inj_on_subset [OF inj] sub by auto
  moreover have "newIds ` fst ` set (folderBatchOrder (map h items)) \<inter> tfId ` set (trFolders t) = {}"
  proof -
    have "newIds ` fst ` set (enumerate 0 items) \<inter> tfId ` set (trFolders t) = {}"
      using assms by (simp add: fresh_ids_def image_comp)
    then show ?thesis using image_mono [OF sub, of newIds] by blast
  qed
  ultimately show ?thesis by (simp add: fresh_ids_def image_comp)
qed

lemma folderOutcomes_ids:
  "tfId ` set (trFolders (snd (folderOutcomes env g newIds xs t ctx))) \<subseteq> tfId ` set (trFolders t) \<union> range newIds"
proof (induction xs arbitrary: t ctx)
  case (Cons ix xs)
  obtain i x where ix: "ix = (i, x)" by (cases ix)
  obtain r t' where o: "folderOutcome env g (newIds i) x t ctx = (r, t')" by fastforce
  have "tfId ` set (trFolders t') \<subseteq> tfId ` set (trFolders t) \<union> {newIds i}"
    using folderOutcome_ids [of env g "newIds i" x t ctx] by (simp add: o)
  then have "tfId ` set (trFolders t') \<subseteq> tfId ` set (trFolders t) \<union> range newIds" by blast
  moreover have "snd (folderOutcomes env g newIds (ix # xs) t ctx) =
      snd (folderOutcomes env g newIds xs t' (ctx\<lparr>rxCreated := rxCreated ctx @ created_ids r (newIds i)\<rparr>))"
    by (simp add: ix o case_prod_beta)
  ultimately show ?case
    using Cons.IH [of t' "ctx\<lparr>rxCreated := rxCreated ctx @ created_ids r (newIds i)\<rparr>"] by (simp only:) blast
qed simp

lemma foldersBatch_spec:
  assumes env: "keys_agree env" "keys_stable env" and ok: "tree_ok env t" and fresh: "fresh_ids newIds (enumerate 0 items) t"
  defines "ordered \<equiv> folderBatchOrder (map (\<lambda>x. x\<lparr>fnParent := None, fnSort := None\<rparr>) items)"
  shows "foldersBatch env g newIds v u items t =
    (map (map_of (fst (folderOutcomes env g newIds ordered t (registerCtx v u)))) [0 ..< length items],
     snd (folderOutcomes env g newIds ordered t (registerCtx v u)))"
    and "tree_ok env (snd (folderOutcomes env g newIds ordered t (registerCtx v u)))"
proof -
  have f: "fresh_ids newIds ordered t" unfolding ordered_def by (rule fresh_ids_batch [OF fresh])
  obtain m where m: "prefetchFolders env t (registerCtx v u) (map (\<lambda>(i, x). fnPath x) ordered @ map (\<lambda>(i, x). dirname (fnPath x)) ordered) =
      (registerCtx v u)\<lparr>rxFolders := m\<rparr>" "folder_cache env t v m"
    using prefetchFolders_cache [OF env, of t "registerCtx v u"] by fastforce
  note l = registerFolderList_spec [OF env(1) ok f, of "(registerCtx v u)\<lparr>rxFolders := m\<rparr>" g]
  obtain ctx' where "registerFolderList env g newIds ordered (t, (registerCtx v u)\<lparr>rxFolders := m\<rparr>) =
      (fst (folderOutcomes env g newIds ordered t (registerCtx v u)), snd (folderOutcomes env g newIds ordered t (registerCtx v u)), ctx')"
    using l m(2) by (auto simp: folderOutcomes_cache)
  then show "foldersBatch env g newIds v u items t =
    (map (map_of (fst (folderOutcomes env g newIds ordered t (registerCtx v u)))) [0 ..< length items],
     snd (folderOutcomes env g newIds ordered t (registerCtx v u)))"
    unfolding foldersBatch_def ordered_def [symmetric] Let_def m(1) by simp
  show "tree_ok env (snd (folderOutcomes env g newIds ordered t (registerCtx v u)))"
    using l m(2) by (simp add: folderOutcomes_cache)
qed

lemma tree_step_ok:
  assumes env: "good_env env" and names: "\<And>body. admits body \<Longrightarrow> names_ok (fpMove body)"
  shows "tree_step env admits s s' \<Longrightarrow> registry_ok env (fst s) \<Longrightarrow> registry_ok env (fst s')"
proof (induction rule: tree_step.induct)
  case (patched_folder body t w g session i)
  then show ?case using patchFolder_ok [OF env] names by simp
next
  case (deleted_folder t w g session i)
  then show ?case using deleteFolder_ok by simp
next
  case (patched_note g session i body t w status s)
  then show ?case using patchNote_ok [OF env, of t g session i body w] by simp
next
  case (deleted_note t w g session i)
  have "registry_ok env (softDeleteNote env i (Some u) t)" for u
    using deleted_note softDeleteNote_ok by (auto simp: registry_ok_def named_ids_def softDeleteNote_def)
  then show ?case using deleted_note
    by (auto simp: deleteNote_def split: option.splits delete_gate.splits)
next
  case (deleted_file t w g session i)
  have "registry_ok env (snd (deleteRegisteredFile g u i None t))" for u
    using deleted_file deleteRegisteredFile_ok [of env t g u i None]
    by (auto simp: registry_ok_def named_ids_def deleteRegisteredFile_def tombstoneFile_def deleteDocBlobs_def Let_def
        split: option.splits delete_gate.splits)
  then show ?case using deleted_file
    by (cases session) (simp_all add: deleteFile_def case_prod_beta)
next
  case (registered_folder newId t rg folder v u r1 t' ctx w)
  have K: "keys_agree env" using env by (simp add: good_env_def)
  have ok: "tree_ok env t" "named_ids t" using registered_folder by (simp_all add: registry_ok_def)
  have "t' = snd (folderOutcome env rg newId folder t (registerCtx v u))"
    using registerFolder_spec [OF K ok(1), of "registerCtx v u" rg newId folder] registered_folder(3) by auto
  then show ?case
    using folderOutcome_ok [OF K ok(1) registered_folder(2)] folderOutcome_ids [of env rg newId folder t "registerCtx v u"]
      registered_folder(1) named_ids_mono [OF ok(2), of t' "{newId}"]
    by (simp add: registry_ok_def)
next
  case (registered_folders newIds items t w rg v u)
  have K: "keys_agree env" "keys_stable env" using env by (simp_all add: good_env_def)
  have ok: "tree_ok env t" "named_ids t" using registered_folders by (simp_all add: registry_ok_def)
  note b = foldersBatch_spec [OF K ok(1) registered_folders(1), of rg v u]
  have "named_ids (snd (foldersBatch env rg newIds v u items t))"
    unfolding b(1) snd_conv by (rule named_ids_mono [OF ok(2) folderOutcomes_ids registered_folders(2)])
  moreover have "tree_ok env (snd (foldersBatch env rg newIds v u items t))"
    unfolding b(1) snd_conv by (rule b(2))
  ultimately show ?case by (simp add: registry_ok_def)
next
  case (registered_notes rg newIds inputs cap t v u r2 t' ctx w)
  have K: "keys_agree env" "keys_stable env" using env by (simp_all add: good_env_def)
  have ok: "tree_ok env t" "named_ids t" using registered_notes by (simp_all add: registry_ok_def)
  have c: "folder_cache env t (rxVault (registerCtx v u)) (rxFolders (registerCtx v u))" by simp
  show ?case
    using registerNotes_ok [OF K ok(1) c registered_notes(1)] registerNotes_folders [OF K ok(1) c registered_notes(1)] ok(2)
    by (simp add: registry_ok_def named_ids_def)
next
  case (registered_file rg newId file_row t v u r3 t' ctx w)
  have K: "keys_agree env" using env by (simp add: good_env_def)
  have ok: "tree_ok env t" "named_ids t" using registered_file by (simp_all add: registry_ok_def)
  have c: "folder_cache env t (rxVault (registerCtx v u)) (rxFolders (registerCtx v u))" by simp
  show ?case
    using registerFile_ok [OF K ok(1) c registered_file(1)] registerFile_folders [OF registered_file(1)] ok(2)
    by (simp add: registry_ok_def named_ids_def)
next
  case (clock t w now)
  then show ?case by (simp add: registry_ok_def tree_ok_def named_ids_def folderItems_def noteItems_def fileItems_def)
qed

lemma tree_steps_ok:
  assumes env: "good_env env" and names: "\<And>body. admits body \<Longrightarrow> names_ok (fpMove body)"
  shows "rtranclp (tree_step env admits) s s' \<Longrightarrow> registry_ok env (fst s) \<Longrightarrow> registry_ok env (fst s')"
  by (induction rule: rtranclp_induct) (auto intro: tree_step_ok [OF env names])

end
