(* ===== verification/Reg_Demo.thy ===== *)
theory Reg_Demo
  imports Reg_Steps
begin

text \<open>
  A concrete environment (ASCII keys), trees, gates and requests for the runs of the registry.
\<close>

section \<open>A concrete environment and tree\<close>

definition plainEnv :: tree_env where
  "plainEnv = \<lparr>teNfc = id, teKey = to_lower_case, teLower = to_lower_case, teWide = (\<lambda>_. False), teRetention = 2592000000\<rparr>"

lemma lower_char_slash: "lower_char c = CHR ''/'' \<longleftrightarrow> c = CHR ''/''"
proof
  assume a: "lower_char c = CHR ''/''"
  show "c = CHR ''/''"
  proof (rule ccontr)
    assume ne: "c \<noteq> CHR ''/''"
    let ?n = "of_char c :: nat"
    have r: "(65 \<le> ?n \<and> ?n \<le> 90) \<or> (192 \<le> ?n \<and> ?n \<le> 222 \<and> ?n \<noteq> 215)"
      using a ne by (auto simp: lower_char_def Let_def split: if_splits)
    then have "of_char (lower_char c) = (?n + 32) mod 256"
      by (auto simp: lower_char_def Let_def of_char_of)
    then have "47 = (?n + 32) mod 256" using a by simp
    then show False using r by auto
  qed
qed (simp add: lower_char_def)

lemma lower_char_idem: "lower_char (lower_char c) = lower_char c"
proof -
  let ?n = "of_char c :: nat"
  show ?thesis
  proof (cases "(65 \<le> ?n \<and> ?n \<le> 90) \<or> (192 \<le> ?n \<and> ?n \<le> 222 \<and> ?n \<noteq> 215)")
    case True
    then have e: "lower_char c = char_of (?n + 32)" by (simp add: lower_char_def)
    have "of_char (char_of (?n + 32) :: char) = ?n + 32" using True by (auto simp: of_char_of)
    then show ?thesis unfolding e using True by (simp add: lower_char_def [of "char_of (?n + 32)"] Let_def) arith
  next
    case False
    then have "lower_char c = c" by (auto simp: lower_char_def Let_def)
    then show ?thesis by simp
  qed
qed

lemma plain_segmental: "segmental to_lower_case"
proof -
  have keep: "CHR ''/'' \<notin> set (map lower_char a)" if fresh: "CHR ''/'' \<notin> set a" for a
  proof
    assume "CHR ''/'' \<in> set (map lower_char a)"
    then obtain c where c: "c \<in> set a" "lower_char c = CHR ''/''" by auto
    from c(2) have "c = CHR ''/''" by (rule lower_char_slash [THEN iffD1])
    then show False using c(1) fresh by simp
  qed
  have slash: "lower_char CHR ''/'' = CHR ''/''" by (rule lower_char_slash [THEN iffD2]) (rule refl)
  show ?thesis using keep slash unfolding segmental_def to_lower_case_def by auto
qed

lemma lower_idem: "to_lower_case (to_lower_case p) = to_lower_case p"
  by (simp add: to_lower_case_def lower_char_idem)

lemma plainEnv_ok: "good_env plainEnv"
  unfolding good_env_def keys_agree_def keys_stable_def
  using plain_segmental lower_idem by (auto simp: plainEnv_def treePathKey_def to_lower_case_def)

lemma plainEnv_keys: "keys_agree plainEnv" "keys_stable plainEnv"
  using plainEnv_ok by (simp_all add: good_env_def)

definition demoFolder :: "string \<Rightarrow> string option \<Rightarrow> string \<Rightarrow> tree_folder" where
  "demoFolder i q p = \<lparr>tfId = i, tfVault = ''v'', tfParent = q, tfName = basename p, tfPath = p, tfColor = None,
     tfSort = 0, tfCreatedBy = Some ''ann'', tfCreatedAt = 0\<rparr>"

definition demoNote :: "string \<Rightarrow> string option \<Rightarrow> string \<Rightarrow> tree_note" where
  "demoNote i q p = \<lparr>tnId = i, tnVault = ''v'', tnFolder = q, tnTitle = None, tnPath = p, tnColor = None,
     tnCreatedBy = Some ''ann'', tnCreatedAt = 0, tnUpdatedAt = 0, tnDeletedAt = None, tnDeletedBy = None, tnPurgeAfter = None\<rparr>"

definition demoFile :: "string \<Rightarrow> string \<Rightarrow> string option \<Rightarrow> string \<Rightarrow> tree_file" where
  "demoFile i v q p = \<lparr>tlId = i, tlVault = v, tlFolder = q, tlPath = p, tlCreatedBy = Some ''ann''\<rparr>"

definition demoTree :: "tree_folder list \<Rightarrow> tree_note list \<Rightarrow> tree_file list \<Rightarrow> tree" where
  "demoTree fs ns ls = \<lparr>trVaults = [\<lparr>vtId = ''v'', vtOrg = ''o''\<rparr>], trFolders = fs, trNotes = ns, trFiles = ls,
     trBlobs = [], trFolderTombs = [], trFileTombs = [], trPins = [], trNow = 0\<rparr>"

definition openGates :: route_gates where
  "openGates = \<lparr>ogEditFolder = (\<lambda>_ _. True), ogEditDoc = (\<lambda>_ _. True), ogReadOnly = (\<lambda>_. False),
     ogRootFrozen = (\<lambda>_. False), ogRole = (\<lambda>_ _. Some ''member''), ogWriteBlob = (\<lambda>_ _. True)\<rparr>"

definition openReg :: reg_gates where
  "openReg = \<lparr>rgCanCreateIn = (\<lambda>_. True), rgVisibleFolder = (\<lambda>_. True), rgHiddenDoc = (\<lambda>_. False),
     rgReadableDoc = (\<lambda>_. True), rgCanEditDoc = (\<lambda>_. True), rgRootFrozen = False\<rparr>"

definition renameTo :: "string \<Rightarrow> move_folder_input" where
  "renameTo n = \<lparr>mfPath = None, mfName = Some n, mfParent = None\<rparr>"

lemmas demo_defs = demoTree_def demoFolder_def demoNote_def demoFile_def plainEnv_def openGates_def openReg_def renameTo_def

text \<open>A vault with \<open>a\<close>, \<open>a/b\<close> and the note \<open>a/b/n\<close>.\<close>

definition demo3 :: tree where
  "demo3 = demoTree [demoFolder ''fa'' None ''a'', demoFolder ''fb'' (Some ''fa'') ''a/b''] [demoNote ''n'' (Some ''fb'') ''a/b/n''] []"

lemmas path_eval = basename_def dirname_def last_index_of_def goodPath_def badSegment_def to_lower_case_def lower_char_def

lemma demo3_ok: "registry_ok plainEnv demo3"
  by (simp add: registry_ok_def named_ids_def tree_ok_def items_ok_def placed_def folderItems_def noteItems_def fileItems_def
      demo3_def demo_defs folderItem_def noteItem_def fileItem_def path_eval)

lemma demo3_tree: "tree_ok plainEnv demo3"
  using demo3_ok by (simp add: registry_ok_def)

definition noteIn :: "string \<Rightarrow> string \<Rightarrow> note_input" where
  "noteIn p i = \<lparr>niPath = p, niDocId = Some i, niFolder = None, niTitle = None, niColor = ColorAbsent\<rparr>"

end
