(* ===== verification/Reg_Props.thy ===== *)
theory Reg_Props
  imports Reg_Demo Acl_Chain
begin

text \<open>
  The properties of the registry tree: its invariant along every run of its routes, what the
  permission walks may rely on, registration batches, the quota, the frozen root and the rename
  budget, each with a concrete run.
\<close>

lemma collapse3: "x = (fst x, fst (snd x), snd (snd x))"
  by simp

section \<open>Every run keeps the tables well formed\<close>

lemma demo_reaches:
  "rtranclp (tree_step plainEnv (\<lambda>body. names_ok (fpMove body))) (demo3, [])
     (snd (patchFolder plainEnv openGates (Some ''ann'') ''fa'' \<lparr>fpMove = renameTo ''c'', fpColor = ColorAbsent\<rparr> demo3), [])"
  by (rule r_into_rtranclp, rule tree_step.patched_folder) (simp add: names_ok_def renameTo_def okName_def badSegment_def)

lemma demo_renamed:
  "snd (patchFolder plainEnv openGates (Some ''ann'') ''fa'' \<lparr>fpMove = renameTo ''c'', fpColor = ColorAbsent\<rparr> demo3) =
     demoTree [(demoFolder ''fa'' None ''a'')\<lparr>tfPath := ''c'', tfName := ''c''\<rparr>, (demoFolder ''fb'' (Some ''fa'') ''a/b'')\<lparr>tfPath := ''c/b''\<rparr>]
       [(demoNote ''n'' (Some ''fb'') ''a/b/n'')\<lparr>tnPath := ''c/b/n''\<rparr>] []"
  by code_simp

text \<open>C10: along every run of requests to the registry's routes, in any order and under any permissions,
  in which the PATCH bodies for folders name one valid path segment (\<open>names_ok\<close>) and no character lies
  outside the basic plane (\<open>teWide\<close>), every folder, live note and file keeps a valid path whose directory
  is the path of its parent row, in its own vault (or no parent, at the root), no two rows of a table
  share a path key in a vault, and ids stay unique and nonempty. The two restrictions are hypotheses
  because the code does not check them: a PATCH with a name that has a slash, or over a path with an
  emoji, is answered 200 and breaks the invariant (\<open>folder_rename_breaks_paths\<close>).\<close>

theorem registry_tree_stays_ok:
  assumes "keys_agree env" "keys_stable env" "\<And>c. \<not> teWide env c" "\<And>body. admits body \<Longrightarrow> names_ok (fpMove body)"
    and "registry_ok env t" "rtranclp (tree_step env admits) (t, w) (t', w')"
  shows "registry_ok env t'"
proof -
  have "good_env env" using assms(1-3) by (simp add: good_env_def)
  from tree_steps_ok [OF this assms(4,6)] show ?thesis using assms(5) by simp
qed

theorem registry_tree_stays_ok_witness:
  "registry_ok plainEnv (demoTree [(demoFolder ''fa'' None ''a'')\<lparr>tfPath := ''c'', tfName := ''c''\<rparr>,
       (demoFolder ''fb'' (Some ''fa'') ''a/b'')\<lparr>tfPath := ''c/b''\<rparr>]
     [(demoNote ''n'' (Some ''fb'') ''a/b/n'')\<lparr>tnPath := ''c/b/n''\<rparr>] [])"
  using registry_tree_stays_ok [OF plainEnv_ok [unfolded good_env_def, THEN conjunct1]
      plainEnv_ok [unfolded good_env_def, THEN conjunct2, THEN conjunct1]
      plainEnv_ok [unfolded good_env_def, THEN conjunct2, THEN conjunct2, THEN spec] _ demo3_ok demo_reaches]
  unfolding demo_renamed by simp

section \<open>The permission walks\<close>

text \<open>The folder table as the permission resolver reads it.\<close>

definition treeDb :: "tree \<Rightarrow> database \<Rightarrow> database" where
  "treeDb t db = db\<lparr>folders := map (\<lambda>f. \<lparr>fdId = tfId f, fdParent = tfParent f, fdVault = tfVault f,
     fdCreatedBy = tfCreatedBy f, fdCreatedAt = tfCreatedAt f\<rparr>) (trFolders t)\<rparr>"

lemma treeDb_folders:
  "set (folders (treeDb t db)) = (\<lambda>f. \<lparr>fdId = tfId f, fdParent = tfParent f, fdVault = tfVault f,
     fdCreatedBy = tfCreatedBy f, fdCreatedAt = tfCreatedAt f\<rparr>) ` set (trFolders t)"
  by (simp add: treeDb_def)

lemma treeDb_ok:
  assumes "registry_ok env t" shows "unique_folders (treeDb t db)" "named_folders (treeDb t db)"
  using assms distinct_folder_ids [of env t]
  by (auto simp: registry_ok_def named_ids_def unique_folders_def named_folders_def treeDb_def comp_def image_iff)

lemma parent_shorter:
  assumes ok: "tree_ok env t" and f: "f \<in> set (trFolders t)" "tfParent f = Some p"
  obtains g where "g \<in> set (trFolders t)" "tfId g = p" "tfVault g = tfVault f" "under (tfPath g) (tfPath f)"
  using folder_placed [OF ok f(1)]
proof (cases rule: placed_split)
  case root
  then show thesis using f(2) by simp
next
  case (inside h b)
  then obtain g where "g \<in> set (trFolders t)" "h = folderItem g" by (auto simp: set_folderItems)
  then show thesis using inside f(2) by (intro that [of g]) simp_all
qed

lemma chain_above:
  assumes ok: "tree_ok env t"
  shows "chain_from (treeDb t db) x ids \<Longrightarrow> x = Some (tfId f) \<Longrightarrow> f \<in> set (trFolders t) \<Longrightarrow> i \<in> set ids \<Longrightarrow>
    \<exists>g \<in> set (trFolders t). tfId g = i \<and> tfVault g = tfVault f \<and> (g = f \<or> under (tfPath g) (tfPath f))"
proof (induction arbitrary: f rule: chain_from.induct)
  case (chain_step r ids)
  obtain h where h: "h \<in> set (trFolders t)" "fdId r = tfId h" "fdParent r = tfParent h"
    using chain_step.hyps(1) unfolding treeDb_folders by auto
  have hf: "h = f" by (rule folder_id_eq [OF ok h(1) chain_step.prems(2)]) (use chain_step.prems(1) h(2) in simp)
  show ?case
  proof (cases "i = fdId r")
    case True
    then show ?thesis using h hf by auto
  next
    case False
    then have i: "i \<in> set ids" using chain_step.prems(3) by simp
    show ?thesis
    proof (cases "tfParent h")
      case None
      then show ?thesis using chain_step.hyps(2) h(3) i by (auto elim: chain_from.cases)
    next
      case (Some p)
      then obtain g where g: "g \<in> set (trFolders t)" "tfId g = p" "tfVault g = tfVault h" "under (tfPath g) (tfPath h)"
        using parent_shorter [OF ok h(1)] by blast
      then show ?thesis
        using chain_step.IH [of g] Some h(3) i hf under_trans by fastforce
    qed
  qed
qed auto

lemma tree_chain:
  assumes ok: "tree_ok env t" shows "\<exists>ids. chain_from (treeDb t db) x ids"
proof (rule chain_exists)
  let ?rank = "\<lambda>i. case first_row (\<lambda>f. tfId f = i) (trFolders t) of None \<Rightarrow> 0 | Some f \<Rightarrow> length (tfPath f)"
  have rank: "?rank (tfId f) = length (tfPath f)" if f: "f \<in> set (trFolders t)" for f
  proof (cases "first_row (\<lambda>g. tfId g = tfId f) (trFolders t)")
    case None
    then have "\<not> tfId f = tfId f" by (rule first_row_None [THEN iffD1, THEN bspec]) (rule f)
    then show ?thesis by simp
  next
    case (Some g)
    note g = first_row_Some [OF Some]
    have "g = f" by (rule folder_id_eq [OF ok conjunct1 [OF g] f conjunct2 [OF g]])
    then show ?thesis unfolding Some by simp
  qed
  show "\<forall>f \<in> set (folders (treeDb t db)). \<forall>p. fdParent f = Some p \<longrightarrow> ?rank p < ?rank (fdId f)"
  proof (intro ballI allI impI)
    fix r p assume r: "r \<in> set (folders (treeDb t db))" "fdParent r = Some p"
    then obtain f where f: "f \<in> set (trFolders t)" "fdId r = tfId f" "tfParent f = Some p"
      unfolding treeDb_folders by auto
    obtain g where g: "g \<in> set (trFolders t)" "tfId g = p" "under (tfPath g) (tfPath f)"
      using parent_shorter [OF ok f(1,3)] by blast
    show "?rank p < ?rank (fdId r)"
      unfolding f(2) rank [OF f(1)] g(2) [symmetric] rank [OF g(1)] by (rule under_longer [OF g(3)])
  qed
qed

text \<open>C11: the permission resolver's recursive query over the folder tree, which has no guard against
  cycles, returns for every folder after any run of the registry's routes in which the PATCH bodies for
  folders name one valid path segment and no character lies outside the basic plane (neither is checked
  by the code, see C10); it meets each folder at most once, and only the folder itself and folders of its
  vault whose path is a prefix of its path.\<close>

theorem registry_walks_return:
  assumes "keys_agree env" "keys_stable env" "\<And>c. \<not> teWide env c" "\<And>body. admits body \<Longrightarrow> names_ok (fpMove body)"
    and "registry_ok env t0" "rtranclp (tree_step env admits) (t0, w0) (t, w)" "f \<in> set (trFolders t)"
  shows "\<exists>ids. ancestorFolderIds (treeDb t db) (Some (tfId f)) = Some ids \<and> distinct ids \<and>
    (\<forall>i \<in> set ids. \<exists>g \<in> set (trFolders t). tfId g = i \<and> tfVault g = tfVault f \<and> (g = f \<or> under (tfPath g) (tfPath f)))"
proof -
  have "good_env env" using assms(1-3) by (simp add: good_env_def)
  from tree_steps_ok [OF this assms(4,6)] have ok: "registry_ok env t" using assms(5) by simp
  then have tree: "tree_ok env t" by (simp add: registry_ok_def)
  obtain ids where ids: "chain_from (treeDb t db) (Some (tfId f)) ids" using tree_chain [OF tree] by blast
  show ?thesis
    using ids chain_above [OF tree ids refl assms(7)] chain_from_distinct [OF treeDb_ok(1) [OF ok] ids]
      ancestorFolderIds_iff [OF treeDb_ok [OF ok]] by blast
qed


definition emptyDb :: database where
  "emptyDb = \<lparr>organizations = [], users = [], members = [], memberSnapshots = [], invitations = [], vaults = [], folders = [],
     noteRows = [], fileRows = [], shares = [], billingAccounts = [], accountOrgs = [], subscriptions = [],
     accountEntitlements = [], dbNow = 0, dbLower = id, dbMd5 = id, dbShareOrg = \<lambda>_. []\<rparr>"

theorem registry_walks_return_witness:
  "\<exists>ids. ancestorFolderIds (treeDb (demoTree [(demoFolder ''fa'' None ''a'')\<lparr>tfPath := ''c'', tfName := ''c''\<rparr>,
       (demoFolder ''fb'' (Some ''fa'') ''a/b'')\<lparr>tfPath := ''c/b''\<rparr>]
     [(demoNote ''n'' (Some ''fb'') ''a/b/n'')\<lparr>tnPath := ''c/b/n''\<rparr>] []) emptyDb) (Some ''fb'') = Some ids \<and> distinct ids"
  using registry_walks_return [OF plainEnv_ok [unfolded good_env_def, THEN conjunct1]
      plainEnv_ok [unfolded good_env_def, THEN conjunct2, THEN conjunct1]
      plainEnv_ok [unfolded good_env_def, THEN conjunct2, THEN conjunct2, THEN spec] _ demo3_ok demo_reaches [unfolded demo_renamed],
      of "(demoFolder ''fb'' (Some ''fa'') ''a/b'')\<lparr>tfPath := ''c/b''\<rparr>" emptyDb]
  by (auto simp: demoTree_def demoFolder_def)

section \<open>Batches of folders\<close>

text \<open>The valid items of a batch as single registrations, one after the other, each on caches of its own.\<close>

fun registerEach :: "tree_env \<Rightarrow> reg_gates \<Rightarrow> (nat \<Rightarrow> string) \<Rightarrow> string \<Rightarrow> string \<Rightarrow> (nat \<times> folder_input) list \<Rightarrow> string list
    \<Rightarrow> tree \<Rightarrow> (nat \<times> reg_folder reg_result) list \<times> tree" where
  "registerEach env g newIds v u [] made t = ([], t)"
| "registerEach env g newIds v u ((i, x) # xs) made t =
     (case registerFolder env g (newIds i) x (t, (registerCtx v u)\<lparr>rxCreated := made\<rparr>) of
        (r, t', ctx) \<Rightarrow> (case registerEach env g newIds v u xs (rxCreated ctx) t' of (rs, t'') \<Rightarrow> ((i, r) # rs, t'')))"

definition batchItems :: "folder_input list \<Rightarrow> (nat \<times> folder_input) list" where
  "batchItems items = folderBatchOrder (map (\<lambda>x. x\<lparr>fnParent := None, fnSort := None\<rparr>) items)"

lemma registerEach_outcomes:
  assumes K: "keys_agree env"
  shows "tree_ok env t \<Longrightarrow> fresh_ids newIds xs t \<Longrightarrow>
    registerEach env g newIds v u xs made t = folderOutcomes env g newIds xs t ((registerCtx v u)\<lparr>rxCreated := made\<rparr>)"
proof (induction xs arbitrary: t made)
  case (Cons ix xs)
  obtain i x where ix: "ix = (i, x)" by (cases ix)
  let ?ctx = "(registerCtx v u)\<lparr>rxCreated := made\<rparr>"
  obtain r t' where o: "folderOutcome env g (newIds i) x t ?ctx = (r, t')" by fastforce
  note fresh = fresh_ids_step [OF Cons.prems(2) [unfolded ix]]
  have c: "folder_cache env t (rxVault ?ctx) (rxFolders ?ctx)" by simp
  obtain m where m: "registerFolder env g (newIds i) x (t, ?ctx) =
      (r, t', ?ctx\<lparr>rxFolders := m, rxCreated := rxCreated ?ctx @ created_ids r (newIds i)\<rparr>)"
    using registerFolder_spec [OF K Cons.prems(1) c, of g "newIds i" x] unfolding o by auto
  have "tree_ok env t'" using folderOutcome_ok [OF K Cons.prems(1) fresh(1)] o by (metis snd_conv)
  moreover have "fresh_ids newIds xs t'" using fresh(2) [where env = env and g = g and ctx = ?ctx] by (simp add: o)
  ultimately show ?case using Cons.IH by (simp add: ix m o case_prod_beta)
qed simp

text \<open>C12: a batch of folders answers, item by item, and leaves the tables, exactly as registering its
  valid items one by one would, shallowest paths first, with nothing cached between them: the prefetch and
  the caches change no answer.\<close>

theorem folders_batch_is_singles:
  assumes "keys_agree env" "keys_stable env" "tree_ok env t" "fresh_ids newIds (enumerate 0 items) t"
  shows "foldersBatch env g newIds v u items t =
    (case registerEach env g newIds v u (batchItems items) [] t of
       (rs, t') \<Rightarrow> (map (map_of rs) [0 ..< length items], t'))"
proof -
  have "fresh_ids newIds (batchItems items) t" unfolding batchItems_def by (rule fresh_ids_batch [OF assms(4)])
  then have each: "registerEach env g newIds v u (batchItems items) [] t =
      folderOutcomes env g newIds (batchItems items) t (registerCtx v u)"
    using registerEach_outcomes [OF assms(1,3)] by (simp add: registerCtx_def)
  show ?thesis
    unfolding foldersBatch_spec(1) [OF assms] batchItems_def [symmetric] each by (simp add: case_prod_beta)
qed

definition folderIn :: "string \<Rightarrow> folder_input" where
  "folderIn p = \<lparr>fnPath = p, fnName = basename p, fnParent = None, fnColor = ColorAbsent, fnSort = None\<rparr>"

definition demoIds :: "nat \<Rightarrow> string" where
  "demoIds n = ''id'' @ replicate n CHR ''x''"

lemma demoIds_fresh: "fresh_ids demoIds (enumerate 0 [folderIn ''a/b/c'', folderIn ''d'', folderIn ''a'']) demo3"
  by (simp add: fresh_ids_def demoIds_def demo3_def demo_defs)

theorem folders_batch_is_singles_witness:
  "foldersBatch plainEnv openReg demoIds ''v'' ''bob'' [folderIn ''a/b/c'', folderIn ''d'', folderIn ''a''] demo3 =
    (case registerEach plainEnv openReg demoIds ''v'' ''bob'' (batchItems [folderIn ''a/b/c'', folderIn ''d'', folderIn ''a'']) [] demo3 of
       (rs, t') \<Rightarrow> (map (map_of rs) [0 ..< length [folderIn ''a/b/c'', folderIn ''d'', folderIn ''a'']], t'))"
  by (rule folders_batch_is_singles [OF plainEnv_keys demo3_tree demoIds_fresh])

lemma folderOutcomes_keys: "map fst (fst (folderOutcomes env g newIds xs t ctx)) = map fst xs"
proof (induction xs arbitrary: t ctx)
  case (Cons ix xs)
  then show ?case by (cases ix) (simp add: case_prod_beta)
qed simp

text \<open>C13: a batch of valid folders sent in any order, each of whose parents is in the batch or on the
  server, lands whole where the caller may create: every item is answered created or adopted, and a folder
  of every path is on the server afterwards.\<close>

theorem folders_batch_lands:
  assumes env: "keys_agree env" "keys_stable env" "tree_ok env t" "fresh_ids newIds (enumerate 0 items) t"
    and g: "open_gates g"
    and valid: "\<And>x. x \<in> set items \<Longrightarrow> goodPath (fnPath x) \<and> fnName x \<noteq> []"
    and closed: "\<And>x. x \<in> set items \<Longrightarrow> dirname (fnPath x) \<noteq> [] \<Longrightarrow>
      folder_at env v (teKey env (dirname (fnPath x))) t \<or> (\<exists>y \<in> set items. teKey env (fnPath y) = teKey env (dirname (fnPath x)))"
  shows "list_all (\<lambda>r. r \<noteq> None \<and> landed (the r)) (fst (foldersBatch env g newIds v u items t)) \<and>
    length (fst (foldersBatch env g newIds v u items t)) = length items \<and>
    list_all (\<lambda>x. folder_at env v (teKey env (fnPath x)) (snd (foldersBatch env g newIds v u items t))) items"
proof -
  let ?strip = "\<lambda>x::folder_input. x\<lparr>fnParent := None, fnSort := None\<rparr>"
  let ?out = "folderOutcomes env g newIds (batchItems items) t (registerCtx v u)"
  have members: "(i, x) \<in> set (batchItems items) \<longleftrightarrow> i < length items \<and> x = ?strip (items ! i)" for i x
  proof -
    have "fnPath (items ! j) \<noteq> [] \<and> fnName (items ! j) \<noteq> []" if "j < length items" for j
      using valid [OF nth_mem [OF that]] good_nonempty by blast
    then show ?thesis unfolding batchItems_def set_folderBatchOrder by auto
  qed
  have fresh: "fresh_ids newIds (batchItems items) t" unfolding batchItems_def by (rule fresh_ids_batch [OF env(4)])
  have L: "(\<forall>(i, r) \<in> set (fst ?out). landed r) \<and>
    (\<forall>(i, x) \<in> set (batchItems items). folder_at env (rxVault (registerCtx v u)) (teKey env (fnPath x)) (snd ?out)) \<and>
    set (trFolders t) \<subseteq> set (trFolders (snd ?out))"
  proof (rule folderOutcomes_land [OF env(1) g env(3) fresh])
    show "sorted (map (\<lambda>(i, x). pathDepth (fnPath x)) (batchItems items))"
      unfolding batchItems_def by (rule sorted_folderBatchOrder)
    show "goodPath (fnPath x) \<and> fnParent x = None" if "(i, x) \<in> set (batchItems items)" for i x
      using that valid unfolding members by auto
    show "folder_at env (rxVault (registerCtx v u)) (teKey env (dirname (fnPath x))) t \<or>
        (\<exists>j y. (j, y) \<in> set (batchItems items) \<and> teKey env (fnPath y) = teKey env (dirname (fnPath x)))"
      if x: "(i, x) \<in> set (batchItems items)" "dirname (fnPath x) \<noteq> []" for i x
    proof -
      have i: "i < length items" "fnPath x = fnPath (items ! i)" using x(1) unfolding members by auto
      from closed [of "items ! i"] i x(2) consider "folder_at env v (teKey env (dirname (fnPath x))) t"
        | y where "y \<in> set items" "teKey env (fnPath y) = teKey env (dirname (fnPath x))" by auto
      then show ?thesis
      proof cases
        case (2 y)
        then obtain j where "j < length items" "items ! j = y" by (auto simp: in_set_conv_nth)
        then have "(j, ?strip y) \<in> set (batchItems items)" unfolding members by simp
        then show ?thesis using 2(2) by (intro disjI2 exI [of _ j] exI [of _ "?strip y"]) simp
      qed simp
    qed
  qed
  have hit: "map_of (fst ?out) i \<noteq> None \<and> landed (the (map_of (fst ?out) i))" if i: "i < length items" for i
  proof -
    have "i \<in> fst ` set (fst ?out)"
      using i members [of i "?strip (items ! i)"] folderOutcomes_keys [of env g newIds "batchItems items" t "registerCtx v u"]
      by (metis (no_types, lifting) fst_conv image_eqI list.set_map)
    then obtain r where "map_of (fst ?out) i = Some r" by (auto simp: map_of_eq_None_iff [symmetric] dest: weak_map_of_SomeI)
    then show ?thesis using L map_of_SomeD [of "fst ?out" i] by fastforce
  qed
  have "folder_at env v (teKey env (fnPath x)) (snd ?out)" if x: "x \<in> set items" for x
  proof -
    obtain i where "i < length items" "items ! i = x" using x by (auto simp: in_set_conv_nth)
    then have "(i, ?strip x) \<in> set (batchItems items)" unfolding members by simp
    then show ?thesis using L by fastforce
  qed
  then show ?thesis
    unfolding foldersBatch_spec(1) [OF env] batchItems_def [symmetric] fst_conv snd_conv
    using hit by (auto simp: list_all_iff)
qed

theorem folders_batch_lands_witness:
  "list_all (\<lambda>r. r \<noteq> None \<and> landed (the r))
     (fst (foldersBatch plainEnv openReg demoIds ''v'' ''bob'' [folderIn ''a/b/c'', folderIn ''d'', folderIn ''a''] demo3))"
proof -
  have "open_gates openReg" by (simp add: open_gates_def openReg_def)
  note r = folders_batch_lands [OF plainEnv_keys demo3_tree demoIds_fresh this]
  have "list_all (\<lambda>r. r \<noteq> None \<and> landed (the r))
      (fst (foldersBatch plainEnv openReg demoIds ''v'' ''bob'' [folderIn ''a/b/c'', folderIn ''d'', folderIn ''a''] demo3)) \<and>
    length (fst (foldersBatch plainEnv openReg demoIds ''v'' ''bob'' [folderIn ''a/b/c'', folderIn ''d'', folderIn ''a''] demo3)) =
      length [folderIn ''a/b/c'', folderIn ''d'', folderIn ''a''] \<and>
    list_all (\<lambda>x. folder_at plainEnv ''v'' (teKey plainEnv (fnPath x))
      (snd (foldersBatch plainEnv openReg demoIds ''v'' ''bob'' [folderIn ''a/b/c'', folderIn ''d'', folderIn ''a''] demo3)))
      [folderIn ''a/b/c'', folderIn ''d'', folderIn ''a'']"
    by (rule r) (auto simp: folderIn_def folder_at_def demo3_def demo_defs path_eval)
  then show ?thesis by (rule conjunct1)
qed

section \<open>Quota and frozen root\<close>

text \<open>C14: however many notes a request brings, and whatever else is in it (items of known ids, repeated ids,
  paths that exist), the live notes of the vault are afterwards at most the plan's number, or what they
  were when the vault was over it already.\<close>

theorem notes_quota_holds:
  assumes "keys_agree env" "keys_stable env" "tree_ok env t"
    and "registerNotes env g newIds inputs (Some cap) (t, registerCtx v u) = (r, t', ctx)"
  shows "live_count t' v \<le> max cap (live_count t v)"
  using registerNotes_quota [OF assms(1-3) _ assms(4)] by simp

text \<open>Three notes against a quota of two, one of them of an id the batch repeats.\<close>

theorem notes_quota_holds_witness:
  "live_count (fst (snd (registerNotes plainEnv openReg demoIds [noteIn ''m'' ''m1'', noteIn ''k'' ''m1'', noteIn ''l'' ''l1'']
     (Some 2) (demo3, registerCtx ''v'' ''bob'')))) ''v'' \<le> max 2 (live_count demo3 ''v'')"
  by (rule notes_quota_holds [OF plainEnv_keys demo3_tree]) (rule collapse3)

definition rooted :: "tree \<Rightarrow> string list" where
  "rooted t = map tfId (filter (\<lambda>f. tfParent f = None) (trFolders t)) @ map tnId (filter (\<lambda>n. tnFolder n = None) (trNotes t))"

lemma folderOutcomes_rooted:
  assumes g: "rgRootFrozen g"
  shows "rooted (snd (folderOutcomes env g newIds xs t ctx)) = rooted t"
proof (induction xs arbitrary: t ctx)
  case (Cons ix xs)
  obtain i x where ix: "ix = (i, x)" by (cases ix)
  have "rooted (snd (folderOutcome env g (newIds i) x t ctx)) = rooted t"
    using g by (auto simp: folderOutcome_def rooted_def split: option.splits sum.splits)
  then show ?case using Cons.IH by (simp add: ix case_prod_beta)
qed simp

text \<open>While the root of a vault is frozen, no batch of folders and no batch of notes puts a folder or
  a note at the root.\<close>

theorem frozen_root_holds:
  assumes env: "keys_agree env" "keys_stable env" "tree_ok env t" "fresh_ids newIds (enumerate 0 items) t" and g: "rgRootFrozen g"
  shows "rooted (snd (foldersBatch env g newIds v u items t)) = rooted t \<and>
    rooted (fst (snd (registerNotes env g noteIds inputs cap (t, registerCtx v u)))) = rooted t"
proof
  show "rooted (snd (foldersBatch env g newIds v u items t)) = rooted t"
    unfolding foldersBatch_spec(1) [OF env] snd_conv by (rule folderOutcomes_rooted [OF g])
  obtain r t' ctx' where r: "registerNotes env g noteIds inputs cap (t, registerCtx v u) = (r, t', ctx')"
    by (cases "registerNotes env g noteIds inputs cap (t, registerCtx v u)") auto
  have c: "folder_cache env t (rxVault (registerCtx v u)) (rxFolders (registerCtx v u))" by simp
  obtain A where "rows_added g t v A t'"
    using registerNotes_rows [OF env(1-3) c r] by auto
  then obtain rows where "trNotes t' = trNotes t @ rows" "\<forall>n \<in> set rows. tnFolder n \<noteq> None"
    using g unfolding rows_added_def by blast
  then show "rooted (fst (snd (registerNotes env g noteIds inputs cap (t, registerCtx v u)))) = rooted t"
    using registerNotes_folders [OF env(1-3) c r] by (simp add: r rooted_def filter_empty_conv)
qed

theorem frozen_root_holds_witness:
  "rooted (snd (foldersBatch plainEnv (openReg\<lparr>rgRootFrozen := True\<rparr>) demoIds ''v'' ''bob''
      [folderIn ''a/b/c'', folderIn ''d'', folderIn ''a''] demo3)) = rooted demo3 \<and>
   rooted (fst (snd (registerNotes plainEnv (openReg\<lparr>rgRootFrozen := True\<rparr>) demoIds [noteIn ''m'' ''m1'', noteIn ''a/k'' ''k1''] None
      (demo3, registerCtx ''v'' ''bob'')))) = rooted demo3"
  by (rule frozen_root_holds [OF plainEnv_keys demo3_tree demoIds_fresh]) simp

end
