(* ===== verification/Reg_Gone.thy ===== *)
theory Reg_Gone
  imports Reg_Demo
begin

text \<open>
  The properties of moves and deletes in the registry tree, the rename budget, and the runs where the
  registry does not do what its comments say it does.
\<close>

section \<open>Moving a folder\<close>

lemma folder_move_outside:
  assumes "folder_move K F f new q" shows "\<not> under (itPath f) new"
  using fm_target [OF assms]
proof (cases rule: placed_split)
  case root
  then show ?thesis using under_flat by blast
next
  case (inside g b)
  then show ?thesis unfolding inside(4) under_dirname [OF inside(5)] using fm_outside [OF assms inside(1,2)] by auto
qed

text \<open>C15: on well formed tables, moving a folder or renaming it to a name that is one valid path segment
  (\<open>names_ok\<close>), where the folder's old path has no character outside the basic plane (\<open>basic_plane\<close>),
  changes the path of the folder, of everything in the vault whose path begins with the folder's path and
  a slash (that prefix replaced by the new one, the rest kept), the folder's parent, and no other path or
  parent. Characters that are wildcards of SQL patterns in the folder's path match only themselves. The
  code checks neither the name nor the path; without them it rewrites other paths too, or cuts them
  (\<open>folder_rename_breaks_paths\<close>).\<close>

theorem move_rewrites_exactly:
  assumes "tree_ok env t" "keys_agree env" "names_ok input" "pred_option (\<lambda>f. basic_plane env (fiPath f)) (findFolder t i)"
    and "moveFolder env t i input = Inr (t', r)"
  shows "\<exists>f q. f \<in> set (trFolders t) \<and> tfId f = i \<and> \<not> under (tfPath f) (mdPath r) \<and>
    folderItems t' = map (\<lambda>x. if itId x = i then x\<lparr>itPath := mdPath r, itParent := q\<rparr>
      else if itVault x = tfVault f \<and> under (tfPath f) (itPath x)
      then x\<lparr>itPath := mdPath r @ drop (length (tfPath f)) (itPath x)\<rparr> else x) (folderItems t) \<and>
    noteItems t' = map (\<lambda>x. if itVault x = tfVault f \<and> under (tfPath f) (itPath x)
      then x\<lparr>itPath := mdPath r @ drop (length (tfPath f)) (itPath x)\<rparr> else x) (noteItems t) \<and>
    fileItems t' = map (\<lambda>x. if itVault x = tfVault f \<and> under (tfPath f) (itPath x)
      then x\<lparr>itPath := mdPath r @ drop (length (tfPath f)) (itPath x)\<rparr> else x) (fileItems t)"
  using moveFolder_items [OF assms]
proof cases
  case (1 f q)
  have "\<not> under (tfPath f) (mdPath r)" using folder_move_outside [OF 1(3)] by simp
  then show ?thesis
    using 1 by (intro exI [of _ f] exI [of _ q]) (simp add: relocate_def shift_def moveTo_def)
qed

definition renamed3 :: tree where
  "renamed3 = demoTree [(demoFolder ''fa'' None ''a'')\<lparr>tfPath := ''c'', tfName := ''c''\<rparr>, (demoFolder ''fb'' (Some ''fa'') ''a/b'')\<lparr>tfPath := ''c/b''\<rparr>]
     [(demoNote ''n'' (Some ''fb'') ''a/b/n'')\<lparr>tnPath := ''c/b/n''\<rparr>] []"

theorem move_rewrites_exactly_witness:
  "\<exists>f. f \<in> set (trFolders demo3) \<and> tfId f = ''fa'' \<and>
     noteItems renamed3 = map (\<lambda>x. if itVault x = tfVault f \<and> under (tfPath f) (itPath x)
       then x\<lparr>itPath := ''c'' @ drop (length (tfPath f)) (itPath x)\<rparr> else x) (noteItems demo3)"
proof -
  have "moveFolder plainEnv demo3 ''fa'' (renameTo ''c'') =
      Inr (renamed3, \<lparr>mdId = ''fa'', mdVault = ''v'', mdName = ''c'', mdPath = ''c''\<rparr>)"
    by code_simp
  from move_rewrites_exactly [OF demo3_tree plainEnv_keys(1) _ _ this] show ?thesis
    by (auto simp: names_ok_def renameTo_def okName_def badSegment_def basic_plane_def plainEnv_def list_all_iff pred_option_def)
qed

section \<open>Deleting a folder\<close>

lemma cascadeHit_placed:
  assumes ok: "tree_ok env t" and f: "f \<in> set (trFolders t)" and p: "placed (folderItems t) v q p"
  shows "cascadeHit t (folderInfo f) v q p \<longleftrightarrow> v = tfVault f \<and> (p = tfPath f \<or> under (tfPath f) p)"
proof -
  have "under (tfPath f) p" if s: "inIds (folderSubtree t (tfId f)) q"
  proof -
    obtain g where g: "g \<in> set (trFolders t)" "tfId g \<in> set (folderSubtree t (tfId f))" "dirname p \<noteq> []" "tfPath g = dirname p"
      using subtree_row [OF ok f p s] by metis
    have up: "dirname p = tfPath f \<or> under (tfPath f) (dirname p)" using subtree_iff [OF ok f g(1)] g(2,4) by simp
    show ?thesis
    proof (cases p rule: path_cases)
      case flat
      then show ?thesis using g(3) by simp
    next
      case (nested d b)
      then show ?thesis using up under_dirname by fastforce
    qed
  qed
  then show ?thesis by (auto simp: cascadeHit_def)
qed

lemma addTombs_keeps: "i \<in> ttId ` set tombs \<Longrightarrow> i \<in> ttId ` set (addTombs new tombs)"
  by (induction new arbitrary: tombs) (auto simp: addTombs_def)

lemma addTombs_has: "y \<in> set new \<Longrightarrow> ttId y \<in> ttId ` set (addTombs new tombs)"
proof (induction new arbitrary: tombs)
  case (Cons z new)
  let ?next = "if list_ex (\<lambda>y. ttId y = ttId z) tombs then tombs else tombs @ [z]"
  have e: "addTombs (z # new) tombs = addTombs new ?next" by (simp add: addTombs_def)
  have z: "ttId z \<in> ttId ` set ?next"
  proof (cases "list_ex (\<lambda>y. ttId y = ttId z) tombs")
    case True
    then obtain w where "w \<in> set tombs" "ttId w = ttId z" by (auto simp: list_ex_iff)
    then have "ttId z \<in> ttId ` set tombs" by (intro rev_image_eqI [of w]) simp_all
    then show ?thesis using True by simp
  qed simp
  show ?case
    unfolding e using Cons.prems Cons.IH [of ?next] addTombs_keeps [OF z, of new] by auto
qed simp

definition outsideOf :: "tree_folder \<Rightarrow> item \<Rightarrow> bool" where
  "outsideOf f x \<longleftrightarrow> \<not> (itVault x = tfVault f \<and> (itPath x = tfPath f \<or> under (tfPath f) (itPath x)))"

text \<open>C16: deleting a folder leaves exactly the folders, live notes and files of the vault that are not at or
  below its path, each where it was, and a tombstone for every folder and every file that is gone.\<close>

theorem cascade_complete:
  assumes ok: "tree_ok env t" and d: "deleteFolderCascade env t i by = Inr (t', r)"
  shows "\<exists>f. f \<in> set (trFolders t) \<and> tfId f = i \<and>
    folderItems t' = filter (outsideOf f) (folderItems t) \<and>
    noteItems t' = filter (outsideOf f) (noteItems t) \<and>
    fileItems t' = filter (outsideOf f) (fileItems t) \<and>
    itId ` {x \<in> set (folderItems t). \<not> outsideOf f x} \<subseteq> ttId ` set (trFolderTombs t') \<and>
    itId ` {x \<in> set (fileItems t). \<not> outsideOf f x} \<subseteq> ttId ` set (trFileTombs t')"
  using cascade_items [OF ok d]
proof cases
  case (1 f)
  have gone: "tfId g \<in> set (folderSubtree t i) \<longleftrightarrow> \<not> outsideOf f (folderItem g)" if "g \<in> set (trFolders t)" for g
    using subtree_iff [OF ok 1(1) that] by (simp add: 1(2) outsideOf_def)
  have noteHit: "cascadeHit t (folderInfo f) (tnVault n) (tnFolder n) (tnPath n) \<longleftrightarrow> \<not> outsideOf f (noteItem n)"
    if "n \<in> set (trNotes t)" "tnDeletedAt n = None" for n
    using cascadeHit_placed [OF ok 1(1) note_placed [OF ok that]] by (simp add: outsideOf_def)
  have "placed (folderItems t) (tlVault x) (tlFolder x) (tlPath x)" if "x \<in> set (trFiles t)" for x
    using items_placed [OF tree_ok_parts(3) [OF ok], of "fileItem x"] that by (simp add: fileItems_def)
  then have fileHit: "cascadeHit t (folderInfo f) (tlVault x) (tlFolder x) (tlPath x) \<longleftrightarrow> \<not> outsideOf f (fileItem x)"
    if "x \<in> set (trFiles t)" for x
    using cascadeHit_placed [OF ok 1(1)] that by (simp add: outsideOf_def)
  have F: "folderItems t' = filter (outsideOf f) (folderItems t)"
    unfolding 1(3) unfolding folderItems_def filter_map comp_def by (rule map_cong [OF filter_cong]) (simp_all add: gone)
  have N: "noteItems t' = filter (outsideOf f) (noteItems t)"
    unfolding 1(4) unfolding noteItems_def filter_map comp_def filter_filter by (rule map_cong [OF filter_cong]) (auto simp: noteHit)
  have L: "fileItems t' = filter (outsideOf f) (fileItems t)"
    unfolding 1(5) unfolding fileItems_def filter_map comp_def by (rule map_cong [OF filter_cong]) (simp_all add: fileHit)
  from d have T: "itId ` {x \<in> set (folderItems t). \<not> outsideOf f x} \<subseteq> ttId ` set (trFolderTombs t') \<and>
    itId ` {x \<in> set (fileItems t). \<not> outsideOf f x} \<subseteq> ttId ` set (trFileTombs t')"
  proof (cases rule: deleteFolderCascade_cases)
    case (1 f')
    have same: "f' = f" by (rule folder_id_eq [OF ok 1(1) \<open>f \<in> set (trFolders t)\<close>]) (simp add: 1(2) \<open>tfId f = i\<close>)
    show ?thesis
    proof (intro conjI subsetI; elim imageE CollectE conjE)
      fix j x assume x: "j = itId x" "x \<in> set (folderItems t)" "\<not> outsideOf f x"
      then obtain g where g: "g \<in> set (trFolders t)" "x = folderItem g" by (auto simp: set_folderItems)
      then have "\<lparr>ttId = tfId g, ttVault = tfVault g, ttPath = tfPath g\<rparr> \<in>
          set (map (\<lambda>f. \<lparr>ttId = tfId f, ttVault = tfVault f, ttPath = tfPath f\<rparr>)
            (filter (\<lambda>f. tfId f \<in> set (folderSubtree t i)) (trFolders t)))"
        using gone [OF g(1)] x(3) by simp
      from addTombs_has [OF this, of "trFolderTombs t"] show "j \<in> ttId ` set (trFolderTombs t')"
        unfolding 1(8) using x(1) g(2) by simp
    next
      fix j x assume x: "j = itId x" "x \<in> set (fileItems t)" "\<not> outsideOf f x"
      then obtain g where g: "g \<in> set (trFiles t)" "x = fileItem g" by (auto simp: fileItems_def)
      have "tlId g \<in> set (dfFiles r)" unfolding 1(6) using fileHit [OF g(1)] x(3) g same by auto
      then have "\<lparr>ttId = tlId g, ttVault = tlVault g, ttPath = tlPath g\<rparr> \<in>
          set (map (\<lambda>f. \<lparr>ttId = tlId f, ttVault = tlVault f, ttPath = tlPath f\<rparr>)
            (filter (\<lambda>f. tlId f \<in> set (dfFiles r)) (trFiles t)))"
        using g(1) by simp
      from addTombs_has [OF this, of "trFileTombs t"] show "j \<in> ttId ` set (trFileTombs t')"
        unfolding 1(9) using x(1) g(2) by simp
    qed
  qed
  show ?thesis using 1(1,2) F N L T by blast
qed

definition erased3 :: tree where
  "erased3 = (demoTree [demoFolder ''fa'' None ''a''] [(demoNote ''n'' (Some ''fb'') ''a/b/n'')
     \<lparr>tnFolder := None, tnDeletedAt := Some 0, tnDeletedBy := Some ''ann'', tnPurgeAfter := Some 2592000000\<rparr>] [])
     \<lparr>trFolderTombs := [\<lparr>ttId = ''fb'', ttVault = ''v'', ttPath = ''a/b''\<rparr>]\<rparr>"

lemma demo3_erased:
  "deleteFolderCascade plainEnv demo3 ''fb'' (Some ''ann'') =
     Inr (erased3, \<lparr>dfVault = ''v'', dfPath = ''a/b'', dfNotes = [''n''], dfFiles = []\<rparr>)"
  by code_simp

theorem cascade_complete_witness:
  "\<exists>f. f \<in> set (trFolders demo3) \<and> tfId f = ''fb'' \<and> noteItems erased3 = filter (outsideOf f) (noteItems demo3)"
  using cascade_complete [OF demo3_tree demo3_erased] by blast

text \<open>C17: a member who is no manager of the organization, and whom the deletion rule lets delete a folder,
  created everything that the cascade then removes: the folders, the live notes and the files.\<close>

theorem delete_gate_covers_cascade:
  assumes ok: "tree_ok env t" and gate: "canDeleteItem g t org u KFolder i = DeleteOk"
    and role: "\<not> isManagerRole (ogRole g org u)" and d: "deleteFolderCascade env t i (Some u) = Inr (t', r)"
  shows "(\<forall>f \<in> set (trFolders t). folderItem f \<notin> set (folderItems t') \<longrightarrow> tfCreatedBy f = Some u) \<and>
    (\<forall>n \<in> set (trNotes t). tnDeletedAt n = None \<and> noteItem n \<notin> set (noteItems t') \<longrightarrow> tnCreatedBy n = Some u) \<and>
    (\<forall>x \<in> set (trFiles t). fileItem x \<notin> set (fileItems t') \<longrightarrow> tlCreatedBy x = Some u)"
  using cascade_items [OF ok d]
proof cases
  case (1 f)
  obtain f0 where f0: "first_row (\<lambda>f. tfId f = i) (trFolders t) = Some f0"
    using gate role by (auto simp: canDeleteItem_def split: if_splits option.splits)
  have "f0 = f"
    using first_row_Some [OF f0] 1(1,2) by (intro folder_id_eq [OF ok _ 1(1)]) simp_all
  then have gate': "\<not> list_ex (\<lambda>h. tfId h \<in> set (folderSubtree t i) \<and> tfCreatedBy h \<noteq> Some u) (trFolders t)"
    "\<not> list_ex (\<lambda>n. tnDeletedAt n = None \<and> folderHit (folderSubtree t i) f (tnVault n) (tnFolder n) (tnPath n) \<and>
       tnCreatedBy n \<noteq> Some u) (trNotes t)"
    "\<not> list_ex (\<lambda>x. folderHit (folderSubtree t i) f (tlVault x) (tlFolder x) (tlPath x) \<and> tlCreatedBy x \<noteq> Some u) (trFiles t)"
    using gate role f0 by (simp_all add: canDeleteItem_def Let_def split: if_splits)
  have hit: "folderHit (folderSubtree t i) f v q p = cascadeHit t (folderInfo f) v q p" for v q p
    by (simp add: folderHit_def cascadeHit_def 1(2))
  show ?thesis
  proof (intro conjI ballI impI)
    fix h assume "h \<in> set (trFolders t)" "folderItem h \<notin> set (folderItems t')"
    then show "tfCreatedBy h = Some u" using gate'(1) unfolding 1(3) list_ex_iff by auto
  next
    fix n assume "n \<in> set (trNotes t)" "tnDeletedAt n = None \<and> noteItem n \<notin> set (noteItems t')"
    then show "tnCreatedBy n = Some u" using gate'(2) unfolding 1(4) list_ex_iff hit by auto
  next
    fix x assume "x \<in> set (trFiles t)" "fileItem x \<notin> set (fileItems t')"
    then show "tlCreatedBy x = Some u" using gate'(3) unfolding 1(5) list_ex_iff hit by auto
  qed
qed

theorem delete_gate_covers_cascade_witness:
  "list_all (\<lambda>n. tnCreatedBy n = Some ''ann'') (trNotes demo3) \<and> noteItems erased3 = []"
proof -
  have "canDeleteItem openGates demo3 ''o'' ''ann'' KFolder ''fb'' = DeleteOk" by code_simp
  moreover have "\<not> isManagerRole (ogRole openGates ''o'' ''ann'')" by code_simp
  ultimately have "\<forall>n \<in> set (trNotes demo3). tnDeletedAt n = None \<and> noteItem n \<notin> set (noteItems erased3) \<longrightarrow> tnCreatedBy n = Some ''ann''"
    using delete_gate_covers_cascade [OF demo3_tree _ _ demo3_erased] by blast
  moreover have empty: "noteItems erased3 = []" by (simp add: noteItems_def erased3_def demoTree_def demoNote_def)
  moreover have "list_all (\<lambda>n. tnDeletedAt n = None) (trNotes demo3)" by (simp add: demo3_def demoTree_def demoNote_def)
  ultimately show ?thesis by (simp add: list_all_iff)
qed

section \<open>The rename budget\<close>

text \<open>The counter by itself: whatever sequence of calls, at whatever pace, \<open>takeForeignRename\<close> grants no
  person more than a hundred renames in a vault within any five minutes of one process. Which routes ask it
  is not part of this (\<open>patchNote\<close> does; a folder's move and the MCP tools do not).\<close>

lemma rename_budget:
  "length (within T (times k (gdGranted (fold guardStep es \<lparr>gdClock = 0, gdWindows = [], gdGranted = []\<rparr>)))) \<le> FOREIGN_RENAME_MAX"
proof -
  have "guard_ok \<lparr>gdClock = 0, gdWindows = [], gdGranted = []\<rparr>"
    by (simp add: guard_ok_def times_def within_def recent_def stored_def)
  from rgm.run_inv [OF this, of es] show ?thesis by (simp add: guard_ok_def)
qed


section \<open>Where the registry does not do what it means to\<close>

definition patchName :: "string \<Rightarrow> folder_patch" where
  "patchName n = \<lparr>fpMove = renameTo n, fpColor = ColorAbsent\<rparr>"

text \<open>An environment where the one character \<open>0xFF\<close> is outside the basic plane, as an emoji is: two units of
  JavaScript's \<open>length\<close>, one character for the database.\<close>

definition wideEnv :: tree_env where
  "wideEnv = plainEnv\<lparr>teWide := (\<lambda>c. c = CHR 0xFF)\<rparr>"

text \<open>A rename can leave paths that no parent explains. The name of a folder is not checked: renaming
  \<open>x\<close> to \<open>x/y\<close> is answered 200, and the subfolder \<open>x/c\<close> becomes \<open>x/y/c\<close> while the renamed folder,
  itself caught by the rewriting of what is below \<open>x\<close>, becomes \<open>x/y/y\<close>. And renaming a folder whose name
  holds a character outside the basic plane eats a character of every path below it: the note \<open>[U]/x\<close> of the
  folder \<open>[U]\<close> renamed \<open>b\<close> becomes \<open>bx\<close>.\<close>

lemma folder_rename_breaks_paths:
  "(case patchFolder plainEnv openGates (Some ''ann'') ''fx'' (patchName ''x/y'')
       (demoTree [demoFolder ''fx'' None ''x'', demoFolder ''fc'' (Some ''fx'') ''x/c''] [] []) of
      (s, t) \<Rightarrow> s = 200 \<and> map tfPath (trFolders t) = [''x/y/y'', ''x/y/c''] \<and> map tfParent (trFolders t) = [None, Some ''fx'']) \<and>
   (case patchFolder wideEnv openGates (Some ''ann'') ''fx'' (patchName ''b'')
       (demoTree [demoFolder ''fx'' None [CHR 0xFF]] [demoNote ''n'' (Some ''fx'') [CHR 0xFF, CHR ''/'', CHR ''x'']] []) of
      (s, t) \<Rightarrow> s = 200 \<and> map tfPath (trFolders t) = [''b''] \<and> map tnPath (trNotes t) = [''bx''])"
proof (rule conjI)
  show "case patchFolder plainEnv openGates (Some ''ann'') ''fx'' (patchName ''x/y'')
       (demoTree [demoFolder ''fx'' None ''x'', demoFolder ''fc'' (Some ''fx'') ''x/c''] [] []) of
      (s, t) \<Rightarrow> s = 200 \<and> map tfPath (trFolders t) = [''x/y/y'', ''x/y/c''] \<and> map tfParent (trFolders t) = [None, Some ''fx'']"
    by code_simp
  show "case patchFolder wideEnv openGates (Some ''ann'') ''fx'' (patchName ''b'')
       (demoTree [demoFolder ''fx'' None [CHR 0xFF]] [demoNote ''n'' (Some ''fx'') [CHR 0xFF, CHR ''/'', CHR ''x'']] []) of
      (s, t) \<Rightarrow> s = 200 \<and> map tfPath (trFolders t) = [''b''] \<and> map tnPath (trNotes t) = [''bx'']"
    by code_simp
qed

definition fileAt :: "string \<Rightarrow> string \<Rightarrow> file_input" where
  "fileAt p d = \<lparr>fePath = p, feDocId = Some d, feFolder = None\<rparr>"

text \<open>Three registrations answer or write something other than their comments say. A batch of two notes
  at one path, the first of an id that already lives elsewhere, answers the second with the first's note and
  creates nothing, where registering the second alone creates it. A file registered under an id that belongs to
  another vault is answered created, and no row is written. And a file's registration moves the file from a
  folder to the root of a vault whose root is frozen.\<close>

lemma registration_answers_wrong:
  "(case registerNotes plainEnv openReg (\<lambda>_. ''new'') [noteIn ''a'' ''x'', noteIn ''a'' ''y''] None
       (demoTree [] [demoNote ''x'' None ''b''] [], registerCtx ''v'' ''ann'') of
      (rs, t, c) \<Rightarrow> (case the rs ! 1 of Adopted n _ \<Rightarrow> rnId n = ''x'' | _ \<Rightarrow> False) \<and> map tnId (trNotes t) = [''x'']) \<and>
   (case registerNotes plainEnv openReg (\<lambda>_. ''new'') [noteIn ''a'' ''y''] None
       (demoTree [] [demoNote ''x'' None ''b''] [], registerCtx ''v'' ''ann'') of
      (rs, t, c) \<Rightarrow> (case the rs ! 0 of Created n \<Rightarrow> rnId n = ''y'' | _ \<Rightarrow> False) \<and> map tnId (trNotes t) = [''x'', ''y'']) \<and>
   (case registerFile plainEnv openReg ''new'' (fileAt ''a'' ''x'')
       (demoTree [] [] [demoFile ''x'' ''w'' None ''b''], registerCtx ''v'' ''ann'') of
      (r, t, c) \<Rightarrow> (case r of Created _ \<Rightarrow> True | _ \<Rightarrow> False) \<and> trFiles t = [demoFile ''x'' ''w'' None ''b'']) \<and>
   (case registerFile plainEnv (openReg\<lparr>rgRootFrozen := True\<rparr>) ''new'' (fileAt ''b'' ''l'')
       (demoTree [demoFolder ''fx'' None ''x''] [] [demoFile ''l'' ''v'' (Some ''fx'') ''x/b''], registerCtx ''v'' ''ann'') of
      (r, t, c) \<Rightarrow> trFiles t = [demoFile ''l'' ''v'' None ''b''])"
  by (intro conjI; code_simp)

end
