(* ===== verification/Gates.thy ===== *)
theory Gates
  imports Vault_Docs
begin

text \<open>
  The gates of the HTTP routes (\<open>server/src/permissions/http-gates.ts\<close>): who may change a note, a
  folder, a blob, and where one may create; and the rows a folder batch preloads for them
  (\<open>preloadFolders\<close>, \<open>preloadedFolder\<close>, \<open>seedFolder\<close> of \<open>permissions/resolver.ts\<close>). The memo is
  threaded through as in the resolver; an outer \<open>None\<close> is a query that does not return.
\<close>

section \<open>Preloaded folders\<close>

text \<open>The row \<open>canEditFolder\<close> selects.\<close>

record gate_row =
  grCreatedBy :: "string option"
  grOrg :: string
  grCreatedAt :: int

record folder_preload =
  plVaultOrgs :: "(string, string) js_map"
  plIndexes :: "(string, access_index) js_map"
  plRows :: "(string, gate_row) js_map"
  plVaultLoaded :: "string list"

definition emptyPreload :: folder_preload where
  "emptyPreload = \<lparr>plVaultOrgs = [], plIndexes = [], plRows = [], plVaultLoaded = []\<rparr>"

definition emptyIndex :: "string \<Rightarrow> access_index" where
  "emptyIndex orgId = \<lparr>ixOrg = orgId, ixShares = [], ixFolders = [], ixNotes = [], ixFiles = []\<rparr>"

definition indexFolder :: "folder_row \<Rightarrow> index_folder" where
  "indexFolder f = \<lparr>ixParent = fdParent f, ixVault = fdVault f, ixCreatedAt = fdCreatedAt f\<rparr>"

definition gateRow :: "string \<Rightarrow> folder_row \<Rightarrow> gate_row" where
  "gateRow orgId f = \<lparr>grCreatedBy = fdCreatedBy f, grOrg = orgId, grCreatedAt = fdCreatedAt f\<rparr>"

definition preloadRow :: "database \<Rightarrow> string \<Rightarrow> folder_row \<Rightarrow> (string, gate_row) js_map \<Rightarrow> (string, gate_row) js_map" where
  "preloadRow db orgId f rows =
     (if vaultOrg db (fdVault f) = Some orgId then js_put (fdId f) (gateRow orgId f) rows else rows)"

definition preloadFolders :: "database \<Rightarrow> string \<Rightarrow> string list \<Rightarrow> folder_preload \<Rightarrow> folder_preload" where
  "preloadFolders db vaultId folderIds pl =
     (case vaultOrg db vaultId of
        None \<Rightarrow> pl
      | Some orgId \<Rightarrow>
          if orgId = [] then pl
          else
            (let index = (case js_get (plIndexes pl) orgId of Some ix \<Rightarrow> ix | None \<Rightarrow> emptyIndex orgId);
                 wanted = filter (\<lambda>i. \<not> js_has (ixFolders index) i) (js_set_of folderIds);
                 fresh = filter (\<lambda>f. \<not> js_has (ixFolders index) (fdId f)) (folderAncestry db wanted);
                 loaded = map fdId fresh;
                 rows = filter (\<lambda>r. (srResourceType r = RFolder \<and> srResourceId r \<in> set loaded) \<or>
                     (orgId \<notin> set (plVaultLoaded pl) \<and> srResourceType r = RVault \<and> srResourceId r = orgId)) (shares db);
                 index' = index\<lparr>ixFolders := fold (\<lambda>f. js_put (fdId f) (indexFolder f)) fresh (ixFolders index),
                     ixShares := fold addShare rows (ixShares index)\<rparr>
             in pl\<lparr>plVaultOrgs := js_put vaultId orgId (plVaultOrgs pl),
                  plIndexes := js_put orgId index' (plIndexes pl),
                  plRows := fold (preloadRow db orgId) fresh (plRows pl),
                  plVaultLoaded := js_add orgId (plVaultLoaded pl)\<rparr>))"

record preloaded_folder =
  pfRow :: gate_row
  pfChain :: "string list"
  pfIndex :: access_index

definition preloadedFolder :: "folder_preload \<Rightarrow> string \<Rightarrow> preloaded_folder option" where
  "preloadedFolder pl folderId =
     (case js_get (plRows pl) folderId of
        None \<Rightarrow> None
      | Some row \<Rightarrow>
          (case js_get (plIndexes pl) (grOrg row) of
             None \<Rightarrow> None
           | Some index \<Rightarrow>
               (case indexedAncestors index (Some folderId) of
                  None \<Rightarrow> None
                | Some chain \<Rightarrow> Some \<lparr>pfRow = row, pfChain = chain, pfIndex = index\<rparr>)))"

text \<open>A folder the batch has just inserted.\<close>

definition seedFolder :: "folder_row \<Rightarrow> folder_preload \<Rightarrow> folder_preload" where
  "seedFolder f pl =
     (case js_get (plVaultOrgs pl) (fdVault f) of
        None \<Rightarrow> pl
      | Some orgId \<Rightarrow>
          if orgId = [] then pl
          else
            (case js_get (plIndexes pl) orgId of
               None \<Rightarrow> pl
             | Some index \<Rightarrow>
                 if js_has (ixFolders index) (fdId f) then pl
                 else pl\<lparr>plIndexes := js_put orgId (index\<lparr>ixFolders := js_put (fdId f) (indexFolder f) (ixFolders index)\<rparr>) (plIndexes pl),
                      plRows := js_put (fdId f) (gateRow orgId f) (plRows pl)\<rparr>))"

section \<open>Editing a note or a folder\<close>

definition canEditDoc :: "deployment \<Rightarrow> database \<Rightarrow> string \<Rightarrow> string \<Rightarrow> bool option" where
  "canEditDoc env db userId docId = map_option (\<lambda>(p, _). p = PermEdit) (effectivePermission env db userId docId None False)"

definition folderGateRow :: "database \<Rightarrow> string \<Rightarrow> gate_row option" where
  "folderGateRow db folderId =
     map_option (\<lambda>f. gateRow (the (vaultOrg db (fdVault f))) f)
       (first_row (\<lambda>f. fdId f = folderId \<and> vaultOrg db (fdVault f) \<noteq> None) (folders db))"

definition readBilling :: "deployment \<Rightarrow> database \<Rightarrow> string \<Rightarrow> resolver_cache option \<Rightarrow> bool \<times> resolver_cache option" where
  "readBilling env db orgId cache = (case cache of
       Some c \<Rightarrow> (let (v, c') = cacheBillingReadOnly env db orgId c in (v, Some c'))
     | None \<Rightarrow> (isAccountReadOnly env db orgId, None))"

definition readRole :: "database \<Rightarrow> string \<Rightarrow> string \<Rightarrow> resolver_cache option \<Rightarrow> string option \<times> resolver_cache option" where
  "readRole db orgId userId cache = (case cache of
       Some c \<Rightarrow> (let (v, c') = cacheRole db orgId userId c in (v, Some c'))
     | None \<Rightarrow> (memberRole db orgId userId, None))"

definition gateDenied :: "database \<Rightarrow> preloaded_folder option \<Rightarrow> string list \<Rightarrow> principal_type \<Rightarrow> string \<Rightarrow> bool" where
  "gateDenied db pre chain pt pid = (case pre of
       Some p \<Rightarrow> indexedIsDenied (pfIndex p) pt pid None chain
     | None \<Rightarrow> isDenied db pt pid None chain)"

definition gateLocked :: "database \<Rightarrow> preloaded_folder option \<Rightarrow> string list \<Rightarrow> string \<Rightarrow> bool" where
  "gateLocked db pre chain userId = (case pre of
       Some p \<Rightarrow> indexedIsLocked (pfIndex p) userId None chain
     | None \<Rightarrow> isLocked db userId None chain)"

text \<open>The share lookup: the folder's access context, resolved.\<close>

definition gateContext :: "database \<Rightarrow> preloaded_folder option \<Rightarrow> string \<Rightarrow> resolver_cache option
    \<Rightarrow> (access_context option \<times> resolver_cache option) option" where
  "gateContext db pre folderId cache = (case pre of
       Some p \<Rightarrow> buildAccessContextFromIndex (pfIndex p) db CtxFolder folderId cache
     | None \<Rightarrow> buildAccessContext db CtxFolder folderId cache)"

definition gateResolved :: "deployment \<Rightarrow> database \<Rightarrow> preloaded_folder option \<Rightarrow> string \<Rightarrow> string \<Rightarrow> string option
    \<Rightarrow> resolver_cache option \<Rightarrow> (bool \<times> resolver_cache option) option" where
  "gateResolved env db pre userId folderId role cache =
     (case gateContext db pre folderId cache of
        None \<Rightarrow> None
      | Some (None, cache') \<Rightarrow> Some (False, cache')
      | Some (Some ctx, cache') \<Rightarrow>
          (let (r, cache'') = resolveAccessForUser env db ctx userId role cache' (map_option pfIndex pre)
           in Some (raPermission r = PermEdit, cache'')))"

definition canEditFolder :: "deployment \<Rightarrow> database \<Rightarrow> string \<Rightarrow> string \<Rightarrow> resolver_cache option \<Rightarrow> folder_preload
    \<Rightarrow> (bool \<times> resolver_cache option) option" where
  "canEditFolder env db userId folderId cache preload =
     (let pre = preloadedFolder preload folderId
      in case (case pre of Some p \<Rightarrow> Some (pfRow p) | None \<Rightarrow> folderGateRow db folderId) of
           None \<Rightarrow> Some (False, cache)
         | Some row \<Rightarrow>
             (let (readOnly, cache1) = readBilling env db (grOrg row) cache;
                  (role, cache2) = readRole db (grOrg row) userId cache1
              in if readOnly then Some (False, cache1)
                 else if role = None then Some (False, cache2)
                 else
                   (case (case pre of Some p \<Rightarrow> Some (pfChain p, cache2) | None \<Rightarrow> contextChain db (Some folderId) cache2) of
                      None \<Rightarrow> None
                    | Some (chain, cache3) \<Rightarrow>
                        if gateDenied db pre chain PUser userId then Some (False, cache3)
                        else if gateLocked db pre chain userId then Some (False, cache3)
                        else
                          (let itemPrivate = gateDenied db pre chain POrg (grOrg row);
                               (baseline, cache4) = readBaseline db (grOrg row) cache3;
                               (snapshot, cache5) = readSnapshot db (grOrg row) userId cache4;
                               existingAtJoin = (case snapshot of None \<Rightarrow> False | Some s \<Rightarrow> grCreatedAt row \<le> snAt s);
                               (personal, cache6) = readPersonal db (grOrg row) userId None cache5
                           in if personal \<noteq> None \<or> itemPrivate \<or> baseline = Some PostureView \<or>
                                baseline = Some PostureSealed \<or> existingAtJoin
                              then gateResolved env db pre userId folderId role cache6
                              else if baseline \<noteq> None \<and> (role = Some ''owner'' \<or> role = Some ''admin'') then Some (True, cache6)
                              else if truthy (grCreatedBy row) \<and> grCreatedBy row = Some userId then Some (True, cache6)
                              else gateResolved env db pre userId folderId role cache6))))"

section \<open>Creating\<close>

definition vaultRootWritable :: "deployment \<Rightarrow> database \<Rightarrow> string \<Rightarrow> string \<Rightarrow> resolver_cache option \<Rightarrow> bool \<times> resolver_cache option" where
  "vaultRootWritable env db userId orgId cache =
     (let (readOnly, cache1) = readBilling env db orgId cache;
          (personal, cache2) = readPersonal db orgId userId None cache1;
          (posture, cache3) = readBaseline db orgId cache2
      in if readOnly then (False, cache1)
         else if personal \<noteq> None then (personal = Some PersonalEdit, cache2)
         else if posture \<noteq> Some PostureView \<and> posture \<noteq> Some PostureSealed then (True, cache3)
         else (list_ex (\<lambda>r. srResourceType r = RVault \<and> srResourceId r = orgId \<and> srPrincipalType r = PUser \<and>
                 srPrincipalId r = userId \<and> srPermission r = SEdit) (shares db), cache3))"

definition canCreateIn :: "deployment \<Rightarrow> database \<Rightarrow> string \<Rightarrow> string \<Rightarrow> string option \<Rightarrow> resolver_cache option \<Rightarrow> folder_preload
    \<Rightarrow> (bool \<times> resolver_cache option) option" where
  "canCreateIn env db userId vaultId folderId cache preload =
     (if truthy folderId then canEditFolder env db userId (the folderId) cache preload
      else
        (case vaultOrg db vaultId of
           None \<Rightarrow> Some (False, cache)
         | Some orgId \<Rightarrow>
             if orgId = [] then Some (False, cache)
             else
               (let (role, cache1) = readRole db orgId userId cache
                in if role = None then Some (False, cache1)
                   else Some (vaultRootWritable env db userId orgId cache1))))"

section \<open>Blobs\<close>

definition fileDoc :: "database \<Rightarrow> string \<Rightarrow> string \<Rightarrow> file_row option" where
  "fileDoc db vaultId docId = first_row (\<lambda>f. flId f = docId \<and> flVault f = vaultId) (fileRows db)"

definition EMBED_GRANT_PROBE_LIMIT :: nat where "EMBED_GRANT_PROBE_LIMIT = 25"

text \<open>The candidate grants, the user's own first (\<open>ORDER BY ... DESC\<close>).\<close>

definition editGrants :: "database \<Rightarrow> string \<Rightarrow> string \<Rightarrow> string \<Rightarrow> share_row list" where
  "editGrants db userId orgId vaultId =
     (let rows = filter (\<lambda>s. dbShareOrg db s = orgId \<and> srPermission s = SEdit \<and>
            ((srPrincipalType s = PUser \<and> srPrincipalId s = userId) \<or>
             (srPrincipalType s = POrg \<and> srPrincipalId s = orgId)) \<and>
            ((srResourceType s = RFolder \<and> list_ex (\<lambda>f. fdId f = srResourceId s \<and> fdVault f = vaultId) (folders db)) \<or>
             (srResourceType s = RFile \<and>
                (list_ex (\<lambda>n. ntId n = srResourceId s \<and> ntVault n = vaultId \<and> ntDeletedAt n = None) (noteRows db) \<or>
                 list_ex (\<lambda>f. flId f = srResourceId s \<and> flVault f = vaultId) (fileRows db))))) (shares db)
      in take EMBED_GRANT_PROBE_LIMIT
           (filter (\<lambda>s. srPrincipalType s = PUser) rows @ filter (\<lambda>s. srPrincipalType s \<noteq> PUser) rows))"

definition confirmGrant :: "deployment \<Rightarrow> database \<Rightarrow> string \<Rightarrow> share_row \<Rightarrow> bool option" where
  "confirmGrant env db userId r =
     (if srResourceType r = RFolder then map_option fst (canEditFolder env db userId (srResourceId r) None emptyPreload)
      else canEditDoc env db userId (srResourceId r))"

fun anyGrant :: "deployment \<Rightarrow> database \<Rightarrow> string \<Rightarrow> share_row list \<Rightarrow> bool option" where
  "anyGrant env db userId [] = Some False"
| "anyGrant env db userId (r # rs) =
     (case confirmGrant env db userId r of
        None \<Rightarrow> None
      | Some ok \<Rightarrow> if ok then Some True else anyGrant env db userId rs)"

definition editsSomethingInVault :: "deployment \<Rightarrow> database \<Rightarrow> string \<Rightarrow> string \<Rightarrow> string \<Rightarrow> bool option" where
  "editsSomethingInVault env db userId orgId vaultId = anyGrant env db userId (editGrants db userId orgId vaultId)"

definition canWriteAttachment :: "deployment \<Rightarrow> database \<Rightarrow> string \<Rightarrow> string \<Rightarrow> bool option" where
  "canWriteAttachment env db userId vaultId =
     (case vaultAccess db userId vaultId of
        None \<Rightarrow> Some False
      | Some access \<Rightarrow>
          if vaRole access = None then Some False
          else if fst (vaultRootWritable env db userId (vaOrg access) None) then Some True
          else editsSomethingInVault env db userId (vaOrg access) vaultId)"

record blob_row =
  bbVault :: "string option"
  bbPath :: "string option"
  bbDoc :: "string option"

definition canWriteBlob :: "deployment \<Rightarrow> database \<Rightarrow> string \<Rightarrow> blob_row \<Rightarrow> bool option" where
  "canWriteBlob env db userId blob =
     (if \<not> truthy (bbVault blob) then Some False
      else
        (let vaultId = the (bbVault blob);
             docFile = (if truthy (bbDoc blob) then fileDoc db vaultId (the (bbDoc blob)) else None)
         in case docFile of
              Some f \<Rightarrow>
                (case canEditDoc env db userId (the (bbDoc blob)) of
                   None \<Rightarrow> None
                 | Some True \<Rightarrow> Some True
                 | Some False \<Rightarrow>
                     (case effectivePermission env db userId (the (bbDoc blob)) None False of
                        None \<Rightarrow> None
                      | Some (p, _) \<Rightarrow>
                          if p = PermView then Some False
                          else map_option fst (canCreateIn env db userId vaultId (flFolder f) None emptyPreload)))
            | None \<Rightarrow> canWriteAttachment env db userId vaultId))"

end
