(* ===== verification/Gates_Agree.thy ===== *)
theory Gates_Agree
  imports Gates Acl_Agree Reg_Guard
begin

text \<open>
  The folder gate answers the same from queries, through the memo and from the rows a batch
  preloaded. \<open>preload_ok\<close> says what the preloaded rows hold; loading more of them and seeding a new
  folder keep it. The preloaded share lists are a \<open>share_source\<close>, so their answers are the
  queries'; \<open>freshGate\<close> is the common answer.
\<close>

section \<open>Preloaded rows\<close>

definition keyRows :: "database \<Rightarrow> resource_type \<Rightarrow> string \<Rightarrow> share_row set" where
  "keyRows db ty i = {r \<in> set (shares db). srResourceType r = ty \<and> srResourceId r = i}"

definition index_ok :: "database \<Rightarrow> string \<Rightarrow> bool \<Rightarrow> access_index \<Rightarrow> bool" where
  "index_ok db orgId vaultDone ix \<longleftrightarrow>
     ixOrg ix = orgId \<and>
     (\<forall>i fo. js_get (ixFolders ix) i = Some fo \<longrightarrow> (\<exists>f \<in> set (folders db). fdId f = i \<and> indexFolder f = fo)) \<and>
     (\<forall>ty i. set (rowsAt (ixShares ix) ty i) \<subseteq> keyRows db ty i) \<and>
     (\<forall>i. js_has (ixFolders ix) i \<longrightarrow> keyRows db RFolder i \<subseteq> set (rowsAt (ixShares ix) RFolder i)) \<and>
     (vaultDone \<longrightarrow> keyRows db RVault orgId \<subseteq> set (rowsAt (ixShares ix) RVault orgId))"

definition row_ok :: "database \<Rightarrow> string \<Rightarrow> gate_row \<Rightarrow> bool" where
  "row_ok db i row \<longleftrightarrow> (\<exists>f \<in> set (folders db). fdId f = i \<and> vaultOrg db (fdVault f) = Some (grOrg row) \<and>
     row = gateRow (grOrg row) f)"

definition preload_ok :: "database \<Rightarrow> folder_preload \<Rightarrow> bool" where
  "preload_ok db pl \<longleftrightarrow>
     (\<forall>orgId ix. js_get (plIndexes pl) orgId = Some ix \<longrightarrow> index_ok db orgId True ix) \<and>
     (\<forall>orgId \<in> set (plVaultLoaded pl). js_has (plIndexes pl) orgId) \<and>
     (\<forall>i row. js_get (plRows pl) i = Some row \<longrightarrow> row_ok db i row) \<and>
     (\<forall>v orgId. js_get (plVaultOrgs pl) v = Some orgId \<longrightarrow> vaultOrg db v = Some orgId)"

lemma preload_ok_empty: "preload_ok db emptyPreload"
  by (simp add: preload_ok_def emptyPreload_def)

lemma index_ok_empty: "index_ok db orgId False (emptyIndex orgId)"
  by (simp add: index_ok_def emptyIndex_def rowsAt_def js_has_def)

lemma js_get_fold_folders:
  "js_get (fold (\<lambda>f. js_put (fdId f) (g f)) fs m) i = Some v \<Longrightarrow>
     (\<exists>f \<in> set fs. fdId f = i \<and> g f = v) \<or> js_get m i = Some v"
proof (induction fs arbitrary: m)
  case (Cons a fs)
  have "js_get (fold (\<lambda>f. js_put (fdId f) (g f)) fs (js_put (fdId a) (g a) m)) i = Some v"
    using Cons.prems by simp
  from Cons.IH [OF this] show ?case by (auto split: if_splits)
qed simp

lemma ancestry_folders: "set (folderAncestry db ids) \<subseteq> set (folders db)"
proof -
  have "ancestry_inv db [] (js_set_of ids) (js_set_of ids)" by (simp add: ancestry_inv_def)
  from ancestryLoop_closed [OF this] show ?thesis by (auto simp: folderAncestry_def Let_def)
qed

lemma index_ok_load:
  assumes ix: "index_ok db orgId vaultDone ix" and fresh: "set fresh \<subseteq> set (folders db)"
    and rows: "set rows = {r \<in> set (shares db). srResourceType r = RFolder \<and> srResourceId r \<in> set (map fdId fresh) \<or>
      \<not> vaultDone \<and> srResourceType r = RVault \<and> srResourceId r = orgId}"
  shows "index_ok db orgId True (ix\<lparr>ixFolders := fold (\<lambda>f. js_put (fdId f) (indexFolder f)) fresh (ixFolders ix),
    ixShares := fold addShare rows (ixShares ix)\<rparr>)" (is "index_ok _ _ _ (ix\<lparr>ixFolders := ?fs, ixShares := _\<rparr>)")
proof -
  have at: "set (rowsAt (fold addShare rows (ixShares ix)) ty i) =
      set (rowsAt (ixShares ix) ty i) \<union> {r \<in> set rows. srResourceType r = ty \<and> srResourceId r = i}" for ty i
    by (simp add: rowsAt_fold)
  have folder: "\<exists>f \<in> set (folders db). fdId f = i \<and> indexFolder f = fo" if "js_get ?fs i = Some fo" for i fo
    using js_get_fold_folders [OF that] fresh ix unfolding index_ok_def by blast
  have known: "js_has (ixFolders ix) i \<or> i \<in> set (map fdId fresh)" if "js_has ?fs i" for i
    using that by (auto simp: js_has_def dest: js_get_fold_folders)
  have "keyRows db RFolder i \<subseteq> set (rowsAt (fold addShare rows (ixShares ix)) RFolder i)" if "js_has ?fs i" for i
    using known [OF that] ix unfolding at rows keyRows_def index_ok_def by blast
  moreover have "set (rowsAt (fold addShare rows (ixShares ix)) ty i) \<subseteq> keyRows db ty i" for ty i
    using ix unfolding at rows index_ok_def keyRows_def by blast
  moreover have "keyRows db RVault orgId \<subseteq> set (rowsAt (fold addShare rows (ixShares ix)) RVault orgId)"
    using ix unfolding at rows index_ok_def keyRows_def by blast
  ultimately show ?thesis using folder ix by (simp add: index_ok_def)
qed

lemma preloadRow_ok:
  assumes "set fs \<subseteq> set (folders db)" "\<forall>i row. js_get m i = Some row \<longrightarrow> row_ok db i row"
  shows "\<forall>i row. js_get (fold (preloadRow db orgId) fs m) i = Some row \<longrightarrow> row_ok db i row"
proof (rule fold_invariant_mem)
  fix f m assume "f \<in> set fs" "\<forall>i row. js_get m i = Some row \<longrightarrow> row_ok db i row"
  then show "\<forall>i row. js_get (preloadRow db orgId f m) i = Some row \<longrightarrow> row_ok db i row"
    using assms(1) by (auto simp: preloadRow_def row_ok_def gateRow_def)
qed (rule assms(2))

theorem preloadFolders_ok:
  assumes pl: "preload_ok db pl"
  shows "preload_ok db (preloadFolders db vaultId folderIds pl)"
proof (cases "truthy (vaultOrg db vaultId)")
  case False
  then show ?thesis using pl by (auto simp: preloadFolders_def truthy_def split: option.split)
next
  case True
  then obtain orgId where o': "vaultOrg db vaultId = Some orgId" "orgId \<noteq> []" by (auto simp: truthy_def)
  define index where "index = (case js_get (plIndexes pl) orgId of Some ix \<Rightarrow> ix | None \<Rightarrow> emptyIndex orgId)"
  define wanted where "wanted = filter (\<lambda>i. \<not> js_has (ixFolders index) i) (js_set_of folderIds)"
  define fresh where "fresh = filter (\<lambda>f. \<not> js_has (ixFolders index) (fdId f)) (folderAncestry db wanted)"
  define rows where "rows = filter (\<lambda>r. (srResourceType r = RFolder \<and> srResourceId r \<in> set (map fdId fresh)) \<or>
    (orgId \<notin> set (plVaultLoaded pl) \<and> srResourceType r = RVault \<and> srResourceId r = orgId)) (shares db)"
  have ix: "index_ok db orgId (orgId \<in> set (plVaultLoaded pl)) index"
  proof (cases "js_get (plIndexes pl) orgId")
    case None
    then have "orgId \<notin> set (plVaultLoaded pl)" using pl by (auto simp: preload_ok_def js_has_def)
    then show ?thesis using None index_ok_empty by (simp add: index_def)
  next
    case (Some ix)
    then show ?thesis using pl by (simp add: index_def preload_ok_def) (simp add: index_ok_def)
  qed
  have fresh: "set fresh \<subseteq> set (folders db)" using ancestry_folders unfolding fresh_def by fastforce
  have loaded: "index_ok db orgId True (index\<lparr>ixFolders := fold (\<lambda>f. js_put (fdId f) (indexFolder f)) fresh (ixFolders index),
      ixShares := fold addShare rows (ixShares index)\<rparr>)"
    by (rule index_ok_load [OF ix fresh]) (auto simp: rows_def)
  have "preloadFolders db vaultId folderIds pl =
      pl\<lparr>plVaultOrgs := js_put vaultId orgId (plVaultOrgs pl),
         plIndexes := js_put orgId (index\<lparr>ixFolders := fold (\<lambda>f. js_put (fdId f) (indexFolder f)) fresh (ixFolders index),
           ixShares := fold addShare rows (ixShares index)\<rparr>) (plIndexes pl),
         plRows := fold (preloadRow db orgId) fresh (plRows pl), plVaultLoaded := js_add orgId (plVaultLoaded pl)\<rparr>"
    unfolding preloadFolders_def Let_def o' option.case index_def [symmetric] wanted_def [symmetric]
      fresh_def [symmetric] rows_def [symmetric] using o'(2) by simp
  moreover have "\<forall>i row. js_get (fold (preloadRow db orgId) fresh (plRows pl)) i = Some row \<longrightarrow> row_ok db i row"
    by (rule preloadRow_ok [OF fresh]) (use pl in \<open>simp add: preload_ok_def\<close>)
  ultimately show ?thesis using pl loaded o'(1) by (simp add: preload_ok_def js_has_def)
qed

text \<open>The insert the batch makes before it seeds: the row is there, under a fresh id.\<close>

definition withFolder :: "folder_row \<Rightarrow> database \<Rightarrow> database" where
  "withFolder f db = db\<lparr>folders := folders db @ [f]\<rparr>"

lemma withFolder_sel [simp]:
  "folders (withFolder f db) = folders db @ [f]" "shares (withFolder f db) = shares db"
  "vaultOrg (withFolder f db) v = vaultOrg db v" "keyRows (withFolder f db) ty i = keyRows db ty i"
  by (simp_all add: withFolder_def vaultOrg_def keyRows_def)

theorem seedFolder_ok:
  assumes pl: "preload_ok db pl" and new: "keyRows db RFolder (fdId f) = {}"
  shows "preload_ok (withFolder f db) (seedFolder f pl)"
proof -
  have ix: "index_ok (withFolder f db) o' True ix" if "index_ok db o' True ix" for o' ix
    using that by (auto simp: index_ok_def)
  have row: "row_ok (withFolder f db) i r" if "row_ok db i r" for i r
    using that by (auto simp: row_ok_def)
  have keep: "preload_ok (withFolder f db) pl" using pl ix row by (simp add: preload_ok_def)
  show ?thesis
  proof (cases "truthy (js_get (plVaultOrgs pl) (fdVault f)) \<and>
      js_get (plIndexes pl) (the (js_get (plVaultOrgs pl) (fdVault f))) \<noteq> None")
    case False
    then show ?thesis using keep by (auto simp: seedFolder_def truthy_def split: option.split)
  next
    case True
    then obtain o' index where o': "js_get (plVaultOrgs pl) (fdVault f) = Some o'" "o' \<noteq> []"
      "js_get (plIndexes pl) o' = Some index" by (auto simp: truthy_def)
    have org: "vaultOrg db (fdVault f) = Some o'" using pl o'(1) by (simp add: preload_ok_def)
    have old: "index_ok db o' True index" using pl o'(3) by (simp add: preload_ok_def)
    have "index_ok (withFolder f db) o' True (index\<lparr>ixFolders := js_put (fdId f) (indexFolder f) (ixFolders index)\<rparr>)"
      using old new by (auto simp: index_ok_def js_has_def split: if_splits)
    moreover have "row_ok (withFolder f db) (fdId f) (gateRow o' f)"
      using org by (auto simp: row_ok_def gateRow_def)
    ultimately show ?thesis using keep o' by (auto simp: seedFolder_def preload_ok_def js_has_def split: if_splits)
  qed
qed

section \<open>The preloaded index answers as the queries do\<close>

definition listed :: "access_index \<Rightarrow> string option \<Rightarrow> string list \<Rightarrow> bool" where
  "listed ix docId ids \<longleftrightarrow> docId = None \<and> (\<forall>i \<in> set ids. js_has (ixFolders ix) i)"

lemma indexedRows_at:
  "indexedRows ix None ids vault = concat (map (rowsAt (ixShares ix) RFolder) ids) @
     (case vault of None \<Rightarrow> [] | Some v \<Rightarrow> rowsAt (ixShares ix) RVault v)"
proof -
  have "rowsAt (ixShares ix) = (\<lambda>ty i. case js_get (ixShares ix) (ty, i) of None \<Rightarrow> [] | Some rs \<Rightarrow> rs)"
    by (intro ext) (simp add: rowsAt_def)
  then show ?thesis by (cases vault) (simp_all add: indexedRows_def Let_def)
qed

lemma preload_coversItem:
  assumes "index_ok db orgId True ix" "listed ix docId ids"
  shows "coversItem db userId docId ids (indexedRows ix docId ids None)"
proof -
  have "set (indexedRows ix docId ids None) = (\<Union>i \<in> set ids. set (rowsAt (ixShares ix) RFolder i))"
    using assms(2) by (simp add: listed_def indexedRows_at)
  also have "\<dots> = (\<Union>i \<in> set ids. keyRows db RFolder i)"
    using assms unfolding index_ok_def listed_def by (intro SUP_cong refl) blast
  finally show ?thesis
    using assms(2) by (auto simp: coversItem_def keyRows_def onItem_def listed_def)
qed

lemma covers_add_vault:
  assumes item: "coversItem db userId docId ids rows"
    and rows': "set rows' = set rows \<union> keyRows db RVault orgId"
  shows "covers db userId docId ids orgId rows'"
  unfolding covers_def coversItem_def
proof (intro conjI ballI impI)
  show "set rows' \<subseteq> set (shares db)" using item unfolding rows' by (auto simp: coversItem_def keyRows_def)
  show "onItem docId ids r" if "r \<in> set rows'" "isItemRow r" for r
    using item that unfolding rows' by (auto simp: coversItem_def keyRows_def isItemRow_def)
  show "r \<in> set rows'" if "r \<in> set (shares db)" "forUser userId r \<and> onItem docId ids r" for r
    using item that unfolding rows' by (simp add: coversItem_def)
  show "r \<in> set rows'" if "r \<in> set (shares db)" "forUser userId r \<and> vaultRow orgId r" for r
    using that unfolding rows' by (simp add: keyRows_def vaultRow_def)
qed

lemma preload_covers:
  assumes "index_ok db orgId True ix" "listed ix docId ids"
  shows "covers db userId docId ids orgId (indexedRows ix docId ids (Some orgId))"
proof -
  have v: "set (rowsAt (ixShares ix) RVault orgId) = keyRows db RVault orgId"
    using assms(1) unfolding index_ok_def by blast
  have "indexedRows ix docId ids (Some orgId) = indexedRows ix docId ids None @ rowsAt (ixShares ix) RVault orgId"
    using assms(2) by (simp add: indexedRows_at listed_def)
  then have "set (indexedRows ix docId ids (Some orgId)) =
      set (indexedRows ix docId ids None) \<union> keyRows db RVault orgId" using v by simp
  then show ?thesis by (rule covers_add_vault [OF preload_coversItem [OF assms]])
qed

text \<open>One index of the preload, as a source of rows (asked only for what it holds).\<close>

definition presetRows :: "access_index \<Rightarrow> database \<Rightarrow> string \<Rightarrow> string option \<Rightarrow> string list \<Rightarrow> string \<Rightarrow> share_row list" where
  "presetRows ix db userId docId ids orgId = indexedRows ix docId ids (Some orgId)"

definition presetValid :: "access_index \<Rightarrow> database \<Rightarrow> string option \<Rightarrow> string list \<Rightarrow> string \<Rightarrow> bool" where
  "presetValid ix db docId ids orgId \<longleftrightarrow> index_ok db orgId True ix \<and> listed ix docId ids"

interpretation preset: share_source "presetRows ix" "presetValid ix" for ix
  by unfold_locales (simp add: presetRows_def presetValid_def preload_covers)

lemma preset_same:
  assumes u: "unique_shares db" and ix: "index_ok db orgId True ix" "listed ix None ids"
  shows "indexedIsDenied ix PUser userId None ids = isDenied db PUser userId None ids"
    and "indexedIsDenied ix POrg orgId None ids = isDenied db POrg orgId None ids"
    and "indexedIsLocked ix userId None ids = isLocked db userId None ids"
    and "indexedPersonalVault ix userId = personalVaultLevel db orgId userId"
    and "sharePermission db userId None ids orgId isMember oga s t (Some ix) ovc =
      sharePermission db userId None ids orgId isMember oga s t None ovc"
proof -
  have item: "coversItem db userId None ids (indexedRows ix None ids None)" by (rule preload_coversItem [OF ix])
  show "indexedIsDenied ix PUser userId None ids = isDenied db PUser userId None ids"
    "indexedIsDenied ix POrg orgId None ids = isDenied db POrg orgId None ids"
    "indexedIsLocked ix userId None ids = isLocked db userId None ids"
    using covers_denied [OF u item] covers_locked [OF u item]
    by (simp_all add: indexedIsDenied_def indexedIsLocked_def)
  have "indexedPersonalVault ix userId = rowsPersonalVault (rowsAt (ixShares ix) RVault orgId) userId orgId"
    using ix(1) by (simp add: indexedPersonalVault_def rowsAt_def index_ok_def)
  also have "\<dots> = personalVaultLevel db orgId userId"
  proof (rule personal_eq [OF u])
    have v: "set (rowsAt (ixShares ix) RVault orgId) = keyRows db RVault orgId"
      using ix(1) unfolding index_ok_def by blast
    show "set (rowsAt (ixShares ix) RVault orgId) \<subseteq> set (shares db)" unfolding v by (auto simp: keyRows_def)
    show "r \<in> set (rowsAt (ixShares ix) RVault orgId)" if "r \<in> set (shares db)" "vaultRow orgId r" for r
      using that unfolding v by (simp add: keyRows_def vaultRow_def)
  qed
  finally show "indexedPersonalVault ix userId = personalVaultLevel db orgId userId" .
  have "presetValid ix db None ids orgId" using ix by (simp add: presetValid_def)
  from preset.fetch_grant [OF u this, of userId isMember oga ovc s t]
  show "sharePermission db userId None ids orgId isMember oga s t (Some ix) ovc =
      sharePermission db userId None ids orgId isMember oga s t None ovc"
    by (simp add: presetRows_def sharePermission_def [of db userId None ids orgId isMember oga s t "Some _"])
qed

section \<open>The resolver over any source that answers the same\<close>

definition answers_same :: "database \<Rightarrow> access_context \<Rightarrow> string \<Rightarrow> access_index option \<Rightarrow> bool" where
  "answers_same db ctx userId index \<longleftrightarrow>
     ctxDenied db ctx index PUser userId = ctxDenied db ctx None PUser userId \<and>
     ctxDenied db ctx index POrg (cxOrg ctx) = ctxDenied db ctx None POrg (cxOrg ctx) \<and>
     ctxLocked db ctx index userId = ctxLocked db ctx None userId \<and>
     ctxGrant db ctx index userId = ctxGrant db ctx None userId \<and>
     (\<forall>ix. index = Some ix \<longrightarrow> indexedPersonalVault ix userId = personalVaultLevel db (cxOrg ctx) userId)"

lemma resolve_inner_same:
  assumes c: "ok_cache env db cache" and same: "answers_same db ctx userId (matchingIndex ctx ix)"
  shows "fst (resolveAccessForUserInner db ctx userId role cache ix) =
      fst (resolveAccessForUserInner db ctx userId role None None) \<and>
    ok_cache env db (snd (resolveAccessForUserInner db ctx userId role cache ix))"
proof -
  define index where "index = matchingIndex ctx ix"
  have none: "matchingIndex ctx None = None" by (simp add: matchingIndex_def)
  have asks: "ctxDenied db ctx index PUser userId = ctxDenied db ctx None PUser userId"
    "ctxDenied db ctx index POrg (cxOrg ctx) = ctxDenied db ctx None POrg (cxOrg ctx)"
    "ctxLocked db ctx index userId = ctxLocked db ctx None userId"
    "ctxGrant db ctx index userId = ctxGrant db ctx None userId"
    using same by (simp_all add: answers_same_def index_def)
  obtain p c1 where p: "readPersonal db (cxOrg ctx) userId index cache = (p, c1)" by (meson surj_pair)
  have "fst (readPersonal db (cxOrg ctx) userId index cache) = personalVaultLevel db (cxOrg ctx) userId"
    using read_facts(1) [OF c, of "cxOrg ctx" userId] same
    by (cases index) (simp_all add: readPersonal_def answers_same_def index_def)
  then have p': "p = personalVaultLevel db (cxOrg ctx) userId" "ok_cache env db c1"
    using p read_facts(2) [OF c, of "cxOrg ctx" userId index] by auto
  obtain s c2 where s: "readSnapshot db (cxOrg ctx) userId c1 = (s, c2)" by (meson surj_pair)
  have s': "s = memberAccessSnapshot db (cxOrg ctx) userId" "ok_cache env db c2"
    using s read_facts(3,4) [OF p'(2), of "cxOrg ctx" userId] by auto
  obtain b c3 where b: "readBaseline db (cxOrg ctx) c2 = (b, c3)" by (meson surj_pair)
  have b': "b = vaultBaseline db (cxOrg ctx)" "ok_cache env db c3"
    using b read_facts(5,6) [OF s'(2), of "cxOrg ctx"] by auto
  have fresh: "readPersonal db (cxOrg ctx) userId None None = (p, None)"
    "readSnapshot db (cxOrg ctx) userId None = (s, None)" "readBaseline db (cxOrg ctx) None = (b, None)"
    by (simp_all add: readPersonal_def readSnapshot_def readBaseline_def p' s' b')
  show ?thesis
    unfolding resolveAccessForUserInner_def none index_def [symmetric] Let_def asks
    by (simp add: p s b fresh p'(2) s'(2) b'(2) c split: option.splits)
qed

lemma resolve_user_same:
  assumes c: "ok_cache env db cache" and same: "answers_same db ctx userId (matchingIndex ctx ix)"
  shows "fst (resolveAccessForUser env db ctx userId role cache ix) =
      fst (resolveAccessForUser env db ctx userId role None None) \<and>
    ok_cache env db (snd (resolveAccessForUser env db ctx userId role cache ix))"
proof -
  obtain r c1 where r: "resolveAccessForUserInner db ctx userId role cache ix = (r, c1)" by (meson surj_pair)
  obtain c2 where r2: "resolveAccessForUserInner db ctx userId role None None = (r, c2)" "ok_cache env db c1"
    using resolve_inner_same [OF c same, of role] r by (metis fst_conv snd_conv surj_pair)
  have none: "ok_cache env db None" by (simp add: ok_cache_def)
  have c2: "ok_cache env db c2"
    using resolve_inner_same [OF none, of ctx userId None role] r2(1)
    by (auto simp: answers_same_def matchingIndex_def)
  have ro: "fst (cacheBillingReadOnly env db o' (case x of Some c \<Rightarrow> c | None \<Rightarrow> createResolverCache)) =
      isAccountReadOnly env db o' \<and>
      cache_ok env db (snd (cacheBillingReadOnly env db o' (case x of Some c \<Rightarrow> c | None \<Rightarrow> createResolverCache)))"
    if "ok_cache env db x" for x o'
    using that cacheBillingReadOnly_ok cache_ok_create by (auto simp: ok_cache_def split: option.splits)
  have keeps: "ok_cache env db (map_option (\<lambda>_. snd (cacheBillingReadOnly env db (cxOrg ctx)
      (case c1 of Some c \<Rightarrow> c | None \<Rightarrow> createResolverCache))) c1)"
    using ro [OF r2(2), of "cxOrg ctx"] by (cases c1) (simp_all add: ok_cache_def)
  show ?thesis
    using ro [OF r2(2), of "cxOrg ctx"] ro [OF c2, of "cxOrg ctx"] r2(2) keeps
    by (simp add: resolveAccessForUser_def r r2(1) case_prod_beta Let_def)
qed

end
