(* ===== verification/Gates_Same.thy ===== *)
theory Gates_Same
  imports Gates_Agree
begin

text \<open>
  \<open>freshGate\<close> is the folder gate read off the tables, with no memo and no preloaded rows.
  \<open>canEditFolder\<close> computes it through any coherent memo and any coherent preload.
\<close>

definition folderContext :: "gate_row \<Rightarrow> string list \<Rightarrow> access_context" where
  "folderContext row ids = \<lparr>cxOrg = grOrg row, cxDoc = None, cxFolderIds = ids, cxCreatedBy = None,
     cxCreatedAt = grCreatedAt row\<rparr>"

definition gateShares :: "deployment \<Rightarrow> database \<Rightarrow> string \<Rightarrow> gate_row \<Rightarrow> string list \<Rightarrow> bool" where
  "gateShares env db userId row ids \<longleftrightarrow>
     raPermission (fst (resolveAccessForUser env db (folderContext row ids) userId
       (memberRole db (grOrg row) userId) None None)) = PermEdit"

definition gateOverlay :: "database \<Rightarrow> string \<Rightarrow> gate_row \<Rightarrow> string list \<Rightarrow> bool" where
  "gateOverlay db userId row ids \<longleftrightarrow>
     personalVaultLevel db (grOrg row) userId \<noteq> None \<or> isDenied db POrg (grOrg row) None ids \<or>
     vaultBaseline db (grOrg row) = Some PostureView \<or> vaultBaseline db (grOrg row) = Some PostureSealed \<or>
     (case memberAccessSnapshot db (grOrg row) userId of None \<Rightarrow> False | Some s \<Rightarrow> grCreatedAt row \<le> snAt s)"

definition gateShortcut :: "database \<Rightarrow> string \<Rightarrow> gate_row \<Rightarrow> bool" where
  "gateShortcut db userId row \<longleftrightarrow>
     vaultBaseline db (grOrg row) \<noteq> None \<and>
       (memberRole db (grOrg row) userId = Some ''owner'' \<or> memberRole db (grOrg row) userId = Some ''admin'') \<or>
     truthy (grCreatedBy row) \<and> grCreatedBy row = Some userId"

definition gateDecision :: "deployment \<Rightarrow> database \<Rightarrow> string \<Rightarrow> gate_row \<Rightarrow> string list \<Rightarrow> bool" where
  "gateDecision env db userId row ids \<longleftrightarrow>
     \<not> isDenied db PUser userId None ids \<and> \<not> isLocked db userId None ids \<and>
     (\<not> gateOverlay db userId row ids \<and> gateShortcut db userId row \<or> gateShares env db userId row ids)"

definition freshGate :: "deployment \<Rightarrow> database \<Rightarrow> string \<Rightarrow> string \<Rightarrow> bool option" where
  "freshGate env db userId folderId =
     (case folderGateRow db folderId of
        None \<Rightarrow> Some False
      | Some row \<Rightarrow>
          if isAccountReadOnly env db (grOrg row) \<or> memberRole db (grOrg row) userId = None then Some False
          else map_option (gateDecision env db userId row) (ancestorFolderIds db (Some folderId)))"

lemma folderGateRow_unique:
  assumes "unique_folders db" "row_ok db i row"
  shows "folderGateRow db i = Some row"
proof -
  obtain f where f: "f \<in> set (folders db)" "fdId f = i" "vaultOrg db (fdVault f) = Some (grOrg row)"
    "row = gateRow (grOrg row) f" using assms(2) by (auto simp: row_ok_def)
  have "first_row (\<lambda>g. fdId g = i \<and> vaultOrg db (fdVault g) \<noteq> None) (folders db) = Some f"
    using f folder_unique [OF assms(1)] by (intro first_row_unique) auto
  then show ?thesis using f(3,4) by (simp add: folderGateRow_def)
qed

lemma preloaded_facts:
  assumes s: "unique_folders db" "named_folders db" and pl: "preload_ok db pl" and p: "preloadedFolder pl i = Some p"
  shows "folderGateRow db i = Some (pfRow p)" "index_ok db (grOrg (pfRow p)) True (pfIndex p)"
    "ancestorFolderIds db (Some i) = Some (pfChain p)" "listed (pfIndex p) None (pfChain p)"
    "\<exists>fo. js_get (ixFolders (pfIndex p)) i = Some fo \<and> ixCreatedAt fo = grCreatedAt (pfRow p)"
    "indexedAncestors (pfIndex p) (Some i) = Some (pfChain p)"
proof -
  have p': "js_get (plRows pl) i = Some (pfRow p)" "js_get (plIndexes pl) (grOrg (pfRow p)) = Some (pfIndex p)"
    "indexedAncestors (pfIndex p) (Some i) = Some (pfChain p)"
    using p by (auto simp: preloadedFolder_def split: option.splits)
  have row: "row_ok db i (pfRow p)" using pl p'(1) by (simp add: preload_ok_def)
  show "folderGateRow db i = Some (pfRow p)" by (rule folderGateRow_unique [OF s(1) row])
  show ix: "index_ok db (grOrg (pfRow p)) True (pfIndex p)" using pl p'(2) by (simp add: preload_ok_def)
  obtain f where f: "f \<in> set (folders db)" "fdId f = i" "pfRow p = gateRow (grOrg (pfRow p)) f"
    using row by (auto simp: row_ok_def)
  have "i \<noteq> []" using f(1,2) s(2) unfolding named_folders_def by (metis imageI)
  then have climb: "climbStrict (ixFolders (pfIndex p)) [] (Some i) = Some (pfChain p)"
    using p'(3) by (simp add: indexedAncestors_def truthy_def)
  have parents: "\<exists>f \<in> set (folders db). fdId f = j \<and> fdParent f = ixParent fo"
    if "js_get (ixFolders (pfIndex p)) j = Some fo" for j fo
    using ix that unfolding index_ok_def indexFolder_def by (metis index_folder.select_convs(1))
  obtain js where js: "pfChain p = [] @ js" "chain_from db (Some i) js" "set js \<subseteq> fst ` set (ixFolders (pfIndex p))"
    using climbStrict_chain [OF parents climb] by blast
  then show "ancestorFolderIds db (Some i) = Some (pfChain p)" "listed (pfIndex p) None (pfChain p)"
    using ancestorFolderIds_iff [OF s] by (auto simp: listed_def js_has_iff)
  obtain fo where fo: "js_get (ixFolders (pfIndex p)) i = Some fo"
    using climb by (auto simp: climbStrict.simps split: option.splits)
  then obtain g where g: "g \<in> set (folders db)" "fdId g = i" "indexFolder g = fo"
    using ix by (auto simp: index_ok_def)
  then have "g = f" using f folder_unique [OF s(1)] by metis
  then show "\<exists>fo. js_get (ixFolders (pfIndex p)) i = Some fo \<and> ixCreatedAt fo = grCreatedAt (pfRow p)"
    using fo g f(3) by (auto simp: indexFolder_def gateRow_def) (metis gate_row.select_convs(3))
  show "indexedAncestors (pfIndex p) (Some i) = Some (pfChain p)" by (rule p'(3))
qed

lemma contextChain_same:
  assumes "ok_cache env db cache"
  shows "map_option fst (contextChain db x cache) = ancestorFolderIds db x"
    and "contextChain db x cache = Some (ids, cache') \<Longrightarrow> ok_cache env db cache'"
proof -
  show "map_option fst (contextChain db x cache) = ancestorFolderIds db x"
    using assms cacheAncestors_ok(1) [of env db]
    by (cases cache) (auto simp: contextChain_def ok_cache_def option.map_comp o_def case_prod_beta option.map_ident)
  show "contextChain db x cache = Some (ids, cache') \<Longrightarrow> ok_cache env db cache'"
    using assms cacheAncestors_ok(2) [of env db]
    by (cases cache) (auto simp: contextChain_def ok_cache_def)
qed

text \<open>What the gate knows when it asks for shares: the row, the chain, and that both are right.\<close>

definition gate_known :: "database \<Rightarrow> string \<Rightarrow> gate_row \<Rightarrow> string list \<Rightarrow> preloaded_folder option \<Rightarrow> bool" where
  "gate_known db i row ids pre \<longleftrightarrow>
     folderGateRow db i = Some row \<and> ancestorFolderIds db (Some i) = Some ids \<and>
     (\<forall>p. pre = Some p \<longrightarrow> pfRow p = row \<and> pfChain p = ids \<and> index_ok db (grOrg row) True (pfIndex p) \<and>
        listed (pfIndex p) None ids \<and> indexedAncestors (pfIndex p) (Some i) = Some ids \<and>
        (\<exists>fo. js_get (ixFolders (pfIndex p)) i = Some fo \<and> ixCreatedAt fo = grCreatedAt row))"

lemma known_asks:
  assumes u: "unique_shares db" and k: "gate_known db i row ids pre"
  shows "gateDenied db pre ids PUser userId = isDenied db PUser userId None ids"
    and "gateDenied db pre ids POrg (grOrg row) = isDenied db POrg (grOrg row) None ids"
    and "gateLocked db pre ids userId = isLocked db userId None ids"
    and "answers_same db (folderContext row ids) userId (matchingIndex (folderContext row ids) (map_option pfIndex pre))"
proof -
  have some: "index_ok db (grOrg row) True (pfIndex p)" "listed (pfIndex p) None ids" if "pre = Some p" for p
    using k that by (simp_all add: gate_known_def)
  show "gateDenied db pre ids PUser userId = isDenied db PUser userId None ids"
    "gateDenied db pre ids POrg (grOrg row) = isDenied db POrg (grOrg row) None ids"
    "gateLocked db pre ids userId = isLocked db userId None ids"
    using preset_same [OF u some] by (cases pre; simp add: gateDenied_def gateLocked_def)+
  show "answers_same db (folderContext row ids) userId (matchingIndex (folderContext row ids) (map_option pfIndex pre))"
  proof (cases pre)
    case (Some p)
    note same = preset_same [OF u some [OF Some]]
    have "ctxGrant db (folderContext row ids) (Some (pfIndex p)) userId = ctxGrant db (folderContext row ids) None userId"
      by (intro ext) (simp add: ctxGrant_def folderContext_def same(5))
    then show ?thesis using Some same(1-4)
      by (simp add: answers_same_def matchingIndex_def) (simp add: folderContext_def ctxDenied_def ctxLocked_def)
  qed (simp add: answers_same_def matchingIndex_def)
qed

lemma known_context:
  assumes k: "gate_known db i row ids pre" and c: "ok_cache env db cache"
  shows "\<exists>cache'. gateContext db pre i cache = Some (Some (folderContext row ids), cache') \<and> ok_cache env db cache'"
proof (cases pre)
  case None
  obtain f where f: "first_row (\<lambda>f. fdId f = i \<and> vaultOrg db (fdVault f) \<noteq> None) (folders db) = Some f"
    "row = gateRow (the (vaultOrg db (fdVault f))) f"
    using k by (auto simp: gate_known_def folderGateRow_def)
  have "map_option fst (contextChain db (Some i) cache) = Some ids"
    using contextChain_same(1) [OF c] k by (simp add: gate_known_def)
  then obtain cache' where "contextChain db (Some i) cache = Some (ids, cache')" by auto
  then show ?thesis using None f contextChain_same(2) [OF c]
    by (auto simp: gateContext_def buildAccessContext_def folderContext_def gateRow_def)
next
  case (Some p)
  then obtain fo where "js_get (ixFolders (pfIndex p)) i = Some fo" "ixCreatedAt fo = grCreatedAt row"
    "indexedAncestors (pfIndex p) (Some i) = Some ids" "ixOrg (pfIndex p) = grOrg row"
    using k by (auto simp: gate_known_def index_ok_def)
  then show ?thesis using Some c
    by (simp add: gateContext_def buildAccessContextFromIndex_def folderContext_def)
qed

lemma known_resolved:
  assumes u: "unique_shares db" and k: "gate_known db i row ids pre" and c: "ok_cache env db cache"
  shows "\<exists>cache'. gateResolved env db pre userId i (memberRole db (grOrg row) userId) cache =
    Some (gateShares env db userId row ids, cache') \<and> ok_cache env db cache'"
proof -
  obtain cache' where ctx: "gateContext db pre i cache = Some (Some (folderContext row ids), cache')" "ok_cache env db cache'"
    using known_context [OF k c] by blast
  obtain r cache'' where r: "resolveAccessForUser env db (folderContext row ids) userId
      (memberRole db (grOrg row) userId) cache' (map_option pfIndex pre) = (r, cache'')" by (meson surj_pair)
  have "r = fst (resolveAccessForUser env db (folderContext row ids) userId (memberRole db (grOrg row) userId) None None)"
    "ok_cache env db cache''"
    using resolve_user_same [OF ctx(2) known_asks(4) [OF u k, of userId], of "memberRole db (grOrg row) userId"] r by auto
  then show ?thesis by (simp add: gateResolved_def ctx(1) r gateShares_def)
qed

lemma read_billing:
  assumes "ok_cache env db cache"
  shows "fst (readBilling env db o' cache) = isAccountReadOnly env db o'"
    "ok_cache env db (snd (readBilling env db o' cache))"
    "fst (readRole db o' u cache) = memberRole db o' u" "ok_cache env db (snd (readRole db o' u cache))"
  using assms cacheBillingReadOnly_ok
  by (auto simp: ok_cache_def readBilling_def readRole_def Let_def case_prod_beta cache_steps split: option.splits)

section \<open>The gate\<close>

lemma gate_ifs:
  "P c \<Longrightarrow> P c6 \<Longrightarrow> P c7 \<Longrightarrow>
   \<exists>c'. (if d then Some (False, c) else if l then Some (False, c)
     else if A then Some (g, c7) else if B then Some (True, c6) else if C then Some (True, c6) else Some (g, c7)) =
     Some (\<not> d \<and> \<not> l \<and> (\<not> A \<and> (B \<or> C) \<or> g), c') \<and> P c'"
  by auto

text \<open>The part of \<open>canEditFolder\<close> after the membership checks.\<close>

lemma gate_decides:
  assumes u: "unique_shares db" and k: "gate_known db i row ids pre" and c: "ok_cache env db cache"
  shows "\<exists>cache'.
    (if gateDenied db pre ids PUser userId then Some (False, cache)
     else if gateLocked db pre ids userId then Some (False, cache)
     else
       (let itemPrivate = gateDenied db pre ids POrg (grOrg row);
            (baseline, cache4) = readBaseline db (grOrg row) cache;
            (snapshot, cache5) = readSnapshot db (grOrg row) userId cache4;
            existingAtJoin = (case snapshot of None \<Rightarrow> False | Some s \<Rightarrow> grCreatedAt row \<le> snAt s);
            (personal, cache6) = readPersonal db (grOrg row) userId None cache5
        in if personal \<noteq> None \<or> itemPrivate \<or> baseline = Some PostureView \<or>
             baseline = Some PostureSealed \<or> existingAtJoin
           then gateResolved env db pre userId i (memberRole db (grOrg row) userId) cache6
           else if baseline \<noteq> None \<and> (memberRole db (grOrg row) userId = Some ''owner'' \<or>
                memberRole db (grOrg row) userId = Some ''admin'') then Some (True, cache6)
           else if truthy (grCreatedBy row) \<and> grCreatedBy row = Some userId then Some (True, cache6)
           else gateResolved env db pre userId i (memberRole db (grOrg row) userId) cache6)) =
    Some (gateDecision env db userId row ids, cache') \<and> ok_cache env db cache'"
proof -
  obtain b c4 where b: "readBaseline db (grOrg row) cache = (b, c4)" by (meson surj_pair)
  have b': "vaultBaseline db (grOrg row) = b" "ok_cache env db c4" using b read_facts(5,6) [OF c, of "grOrg row"] by auto
  obtain s c5 where s: "readSnapshot db (grOrg row) userId c4 = (s, c5)" by (meson surj_pair)
  have s': "memberAccessSnapshot db (grOrg row) userId = s" "ok_cache env db c5"
    using s read_facts(3,4) [OF b'(2), of "grOrg row" userId] by auto
  obtain p c6 where p: "readPersonal db (grOrg row) userId None c5 = (p, c6)" by (meson surj_pair)
  have p': "personalVaultLevel db (grOrg row) userId = p" "ok_cache env db c6"
    using p read_facts(1,2) [OF s'(2), of "grOrg row" userId] by (metis fst_conv, metis snd_conv)
  obtain c7 where r: "gateResolved env db pre userId i (memberRole db (grOrg row) userId) c6 =
      Some (gateShares env db userId row ids, c7)" "ok_cache env db c7"
    using known_resolved [OF u k p'(2), of userId] by blast
  show ?thesis
    unfolding known_asks [OF u k] b s p Let_def prod.case gateDecision_def gateOverlay_def gateShortcut_def b'(1) s'(1) p'(1) r(1)
    by (rule gate_ifs [where P = "ok_cache env db"]) (fact c p'(2) r(2))+
qed

lemma canEditFolder_fresh:
  assumes u: "unique_shares db" "unique_folders db" "named_folders db"
    and c: "ok_cache env db cache" and pl: "preload_ok db pl"
  shows "map_option fst (canEditFolder env db userId i cache pl) = freshGate env db userId i"
    and "canEditFolder env db userId i cache pl = Some (ok, cache') \<Longrightarrow> ok_cache env db cache'"
proof -
  define pre where "pre = preloadedFolder pl i"
  have row: "(case pre of Some p \<Rightarrow> Some (pfRow p) | None \<Rightarrow> folderGateRow db i) = folderGateRow db i"
    using preloaded_facts(1) [OF u(2,3) pl] by (auto simp: pre_def split: option.split)
  have "map_option fst (canEditFolder env db userId i cache pl) = freshGate env db userId i \<and>
    (\<forall>ok cache'. canEditFolder env db userId i cache pl = Some (ok, cache') \<longrightarrow> ok_cache env db cache')"
  proof (cases "folderGateRow db i")
    case None
    then show ?thesis using c by (simp add: canEditFolder_def pre_def [symmetric] Let_def row freshGate_def)
  next
    case (Some r)
    obtain ro c1 where ro: "readBilling env db (grOrg r) cache = (ro, c1)" by (meson surj_pair)
    have ro': "isAccountReadOnly env db (grOrg r) = ro" "ok_cache env db c1"
      using ro read_billing(1,2) [OF c, of "grOrg r"] by auto
    obtain role c2 where role: "readRole db (grOrg r) userId c1 = (role, c2)" by (meson surj_pair)
    have role': "role = memberRole db (grOrg r) userId" "ok_cache env db c2"
      using role read_billing(3,4) [OF ro'(2), of "grOrg r" userId] by auto
    define chain where "chain = (case pre of Some p \<Rightarrow> Some (pfChain p, c2) | None \<Rightarrow> contextChain db (Some i) c2)"
    have chain': "map_option fst chain = ancestorFolderIds db (Some i)"
      "\<And>ids c3. chain = Some (ids, c3) \<Longrightarrow> gate_known db i r ids pre \<and> ok_cache env db c3"
    proof -
      show "map_option fst chain = ancestorFolderIds db (Some i)"
        using preloaded_facts(3) [OF u(2,3) pl] contextChain_same(1) [OF role'(2)]
        by (auto simp: chain_def pre_def split: option.split)
      then show "gate_known db i r ids pre \<and> ok_cache env db c3" if "chain = Some (ids, c3)" for ids c3
        using that Some preloaded_facts [OF u(2,3) pl] contextChain_same(2) [OF role'(2)] role'(2)
        by (auto simp: chain_def pre_def gate_known_def split: option.splits)
    qed
    have sel: "(case pre of Some p \<Rightarrow> Some (pfRow p) | None \<Rightarrow> folderGateRow db i) = Some r" using row Some by simp
    have fresh: "freshGate env db userId i = (if ro \<or> role = None then Some False
        else map_option (gateDecision env db userId r) (ancestorFolderIds db (Some i)))"
      by (simp add: freshGate_def Some ro'(1) role'(1))
    note step = canEditFolder_def Let_def pre_def [symmetric] sel ro role prod.case option.case chain_def [symmetric]
    show ?thesis
    proof (cases "ro \<or> role = None")
      case True
      then show ?thesis unfolding step fresh using ro'(2) role'(2) by auto
    next
      case False
      show ?thesis
      proof (cases chain)
        case None
        then have "ancestorFolderIds db (Some i) = None" using chain'(1) by simp
        then show ?thesis unfolding step fresh using False None by auto
      next
        case chained: (Some x)
        then obtain ids c3 where x: "chain = Some (ids, c3)" by (cases x) auto
        obtain cache' where "canEditFolder env db userId i cache pl = Some (gateDecision env db userId r ids, cache')"
          "ok_cache env db cache'"
          using gate_decides [OF u(1) conjunct1 [OF chain'(2) [OF x]] conjunct2 [OF chain'(2) [OF x]], of userId] False
          unfolding step role'(1) [symmetric] x by (auto simp: Let_def)
        moreover have "ancestorFolderIds db (Some i) = Some ids" using chain'(1) x by simp
        then have "freshGate env db userId i = Some (gateDecision env db userId r ids)"
          unfolding fresh using False by auto
        ultimately show ?thesis by simp
      qed
    qed
  qed
  then show "map_option fst (canEditFolder env db userId i cache pl) = freshGate env db userId i"
    "canEditFolder env db userId i cache pl = Some (ok, cache') \<Longrightarrow> ok_cache env db cache'" by blast+
qed

end
