(* ===== verification/Gates_Frame.thy ===== *)
theory Gates_Frame
  imports Gates_Same Acl_Props
begin

text \<open>
  What the answers do not depend on: billing reads neither shares nor the tree, the folder gate reads
  no share row of a document, and a document's own rows decide apart from its folders'.
\<close>

text \<open>The columns billing reads.\<close>

definition same_billing :: "database \<Rightarrow> database \<Rightarrow> bool" where
  "same_billing db db' \<longleftrightarrow>
     organizations db' = organizations db \<and> users db' = users db \<and> members db' = members db \<and>
     invitations db' = invitations db \<and> billingAccounts db' = billingAccounts db \<and>
     accountOrgs db' = accountOrgs db \<and> subscriptions db' = subscriptions db \<and>
     accountEntitlements db' = accountEntitlements db \<and> dbNow db' = dbNow db \<and> dbLower db' = dbLower db"

lemma same_parts:
  assumes "same_billing db db'"
  shows "accountIdFor db' t = accountIdFor db t" "attachedOrgs db' x = attachedOrgs db x"
    "peopleOf db' xs = peopleOf db xs" "pendingInvite db' i = pendingInvite db i"
    "orgHasActiveSubscription db' x = orgHasActiveSubscription db x"
    "memberCount db' x = memberCount db x"
  using assms
  by (simp_all add: same_billing_def accountIdFor_def attachedOrgs_def peopleOf_def pendingInvite_def
      orgHasActiveSubscription_def memberCount_def cong: plan_target.case_cong)

lemma same_rows:
  assumes s: "same_billing db db'"
  shows "reservedEmails db' xs = reservedEmails db xs" "pendingCount db' x = pendingCount db x"
proof -
  have inv: "pendingInvite db' = pendingInvite db" by (intro ext) (rule same_parts [OF s])
  show "reservedEmails db' xs = reservedEmails db xs" "pendingCount db' x = pendingCount db x"
    unfolding reservedEmails_def pendingCount_def inv same_parts [OF s]
    using s by (simp_all add: same_billing_def)
qed

lemma same_account:
  assumes s: "same_billing db db'"
  shows "loadAccount db' a = loadAccount db a" "unattachedRow db' x = unattachedRow db x"
    "legacyPlan env db' t = legacyPlan env db t"
proof -
  have t: "billingAccounts db' = billingAccounts db" "subscriptions db' = subscriptions db"
    "invitations db' = invitations db" "dbLower db' = dbLower db"
    using s by (simp_all add: same_billing_def)
  show "loadAccount db' a = loadAccount db a"
    unfolding loadAccount_def same_parts [OF s] same_rows [OF s] t ..
  show "unattachedRow db' x = unattachedRow db x"
    unfolding unattachedRow_def same_parts [OF s] same_rows [OF s] t ..
  show "legacyPlan env db' t = legacyPlan env db t"
    unfolding legacyPlan_def legacyStorageLimitBytes_def legacyCanSyncAttachments_def same_parts [OF s] same_rows [OF s] ..
qed

lemma billing_same:
  assumes s: "same_billing db db'"
  shows "isAccountReadOnly env db' o' = isAccountReadOnly env db o'"
proof -
  have now: "dbNow db' = dbNow db" using s by (simp add: same_billing_def)
  show ?thesis
    unfolding isAccountReadOnly_def resolveAccountPlan_def same_parts [OF s] same_account [OF s] now ..
qed

lemma billing_frame [simp]:
  "isAccountReadOnly env (db\<lparr>shares := a\<rparr>) o' = isAccountReadOnly env db o'"
  "isAccountReadOnly env (db\<lparr>noteRows := b\<rparr>) o' = isAccountReadOnly env db o'"
  "isAccountReadOnly env (db\<lparr>memberSnapshots := c\<rparr>) o' = isAccountReadOnly env db o'"
  by (rule billing_same; simp add: same_billing_def)+

end
