(* ===== verification/Gates_Create.thy ===== *)
theory Gates_Create
  imports Gates_Frame
begin

text \<open>
  What the create gate promises: a note made where \<open>canCreateIn\<close> allows one is editable by its
  author. The gate asks about the folder, the resolver about the note; a new note has no rows of its
  own, so its rows are the folder's.
\<close>

section \<open>A document without rows\<close>

lemma no_rows_item:
  assumes "keyRows db RFile d = {}" "r \<in> set (shares db)"
  shows "onItem (Some d) ids r \<longleftrightarrow> onItem None ids r"
  using assms by (auto simp: keyRows_def onItem_def)

lemma no_rows_verdict:
  assumes "keyRows db RFile d = {}"
  shows "itemVerdict db u (Some d) ids = itemVerdict db u None ids"
proof -
  have "userRow (shares db) u (RFile, d) = None"
    using assms by (auto simp: userRow_def first_row_None keyRows_def)
  then show ?thesis by (simp add: itemVerdict_def userItemVerdict_def itemOrder_def)
qed

lemma no_rows_asks:
  assumes u: "unique_shares db" and none: "keyRows db RFile d = {}"
  shows "isDenied db PUser user (Some d) ids = isDenied db PUser user None ids"
    and "isDenied db POrg o' (Some d) ids = isDenied db POrg o' None ids"
    and "isLocked db user (Some d) ids = isLocked db user None ids"
    and "sharePermission db user (Some d) ids o' m oga s t None ovc = sharePermission db user None ids o' m oga s t None ovc"
proof -
  show "isDenied db PUser user (Some d) ids = isDenied db PUser user None ids"
    by (simp add: isDenied_user [OF u] no_rows_verdict [OF none])
  show "isDenied db POrg o' (Some d) ids = isDenied db POrg o' None ids"
    unfolding isDenied_org using no_rows_item [OF none] by blast
  have "orgLocked db (Some d) ids = orgLocked db None ids"
    unfolding orgLocked_def using no_rows_item [OF none] by blast
  then show "isLocked db user (Some d) ids = isLocked db user None ids"
    by (simp add: isLocked_iff [OF u] no_rows_verdict [OF none])
  have "grantRows db user (Some d) ids o' x ovc = grantRows db user None ids o' x ovc" for x
    unfolding grantRows_def using no_rows_item [OF none] by blast
  then show "sharePermission db user (Some d) ids o' m oga s t None ovc = sharePermission db user None ids o' m oga s t None ovc"
    by (simp add: sharePermission_query [OF u] grantNF_def no_rows_verdict [OF none])
qed

section \<open>The folder's answer carries over\<close>

lemma gateShares_inner:
  assumes "gateShares env db u row ids"
  shows "raPermission (fst (resolveAccessForUserInner db (folderContext row ids) u (memberRole db (grOrg row) u) None None)) = PermEdit"
  using assms by (auto simp: gateShares_def resolveAccessForUser_def Let_def case_prod_beta split: if_splits)

text \<open>The grant the decision would fall back on, in each of its branches, is edit.\<close>

definition grants_edit :: "database \<Rightarrow> string \<Rightarrow> string \<Rightarrow> string list \<Rightarrow> bool" where
  "grants_edit db o' u ids \<longleftrightarrow>
     (\<forall>level. personalVaultLevel db o' u = Some level \<longrightarrow>
        sharePermission db u None ids o' True (\<not> isDenied db POrg o' None ids \<and> level \<noteq> PersonalDenied) None None None False = PermEdit) \<and>
     (personalVaultLevel db o' u = None \<longrightarrow> isDenied db POrg o' None ids \<longrightarrow>
        sharePermission db u None ids o' False False None None None True = PermEdit) \<and>
     (personalVaultLevel db o' u = None \<longrightarrow> vaultBaseline db o' = Some PostureView \<or> vaultBaseline db o' = Some PostureSealed \<longrightarrow>
        \<not> isDenied db POrg o' None ids \<longrightarrow> sharePermission db u None ids o' True True None None None True = PermEdit)"

definition joined_before :: "database \<Rightarrow> string \<Rightarrow> string \<Rightarrow> int \<Rightarrow> bool" where
  "joined_before db orgId u t \<longleftrightarrow> (case memberAccessSnapshot db orgId u of None \<Rightarrow> True | Some s \<Rightarrow> snAt s < t)"

definition authored :: "string \<Rightarrow> string \<Rightarrow> string option \<Rightarrow> string \<Rightarrow> int \<Rightarrow> doc_location" where
  "authored u v q o' t = \<lparr>dlVault = v, dlFolder = q, dlOrg = o', dlCreatedBy = Some u, dlCreatedAt = t\<rparr>"

lemma decide_authored:
  assumes u: "unique_shares db" and none: "keyRows db RFile d = {}" and user: "u \<noteq> []"
    and nl: "\<not> isLocked db u None ids" and role: "memberRole db o' u \<noteq> None" and j: "joined_before db o' u t"
    and grants: "grants_edit db o' u ids"
  shows "decideDoc db u d (authored u v q o' t) ids None (freshFacts db o' u) = PermEdit"
proof -
  have late: "(case memberAccessSnapshot db o' u of None \<Rightarrow> False | Some s \<Rightarrow> t \<le> snAt s) = False"
    using j by (auto simp: joined_before_def split: option.splits)
  have asks: "askDenied db d ids None POrg o' = isDenied db POrg o' None ids" "askLocked db u d ids None = False"
    "askGrant db u d ids o' None m oga s t' ovc = sharePermission db u None ids o' m oga s t' None ovc"
    "askPersonal db u o' None = personalVaultLevel db o' u" for m oga s t' ovc
    using nl by (simp_all add: askDenied_def askLocked_def askGrant_def askPersonal_def no_rows_asks [OF u none])
  have sel: "dlOrg (authored u v q o' t) = o'" "dlCreatedBy (authored u v q o' t) = Some u" "dlCreatedAt (authored u v q o' t) = t"
    "mfRole (freshFacts db o' u) = memberRole db o' u" "mfSnapshot (freshFacts db o' u) = memberAccessSnapshot db o' u"
    "mfBaseline (freshFacts db o' u) = vaultBaseline db o'" "truthy (Some u)"
    using user by (simp_all add: authored_def freshFacts_def truthy_def)
  have grant: "\<And>level. personalVaultLevel db o' u = Some level \<Longrightarrow>
        sharePermission db u None ids o' True (\<not> isDenied db POrg o' None ids \<and> level \<noteq> PersonalDenied) None None None False = PermEdit"
      "personalVaultLevel db o' u = None \<Longrightarrow> isDenied db POrg o' None ids \<Longrightarrow>
        sharePermission db u None ids o' False False None None None True = PermEdit"
      "personalVaultLevel db o' u = None \<Longrightarrow> vaultBaseline db o' = Some PostureView \<or> vaultBaseline db o' = Some PostureSealed \<Longrightarrow>
        \<not> isDenied db POrg o' None ids \<Longrightarrow> sharePermission db u None ids o' True True None None None True = PermEdit"
    using grants by (simp_all add: grants_edit_def)
  show ?thesis
  proof (cases "personalVaultLevel db o' u")
    case (Some level)
    then show ?thesis using grant(1) [OF Some] role
      unfolding decideDoc_def Let_def sel asks Some option.case by simp
  next
    case None
    then show ?thesis using grant(2,3) [OF None] role sel(7)
      unfolding decideDoc_def Let_def sel asks None option.case late by auto
  qed
qed

lemma shares_decide:
  assumes inner: "raPermission (fst (resolveAccessForUserInner db (folderContext row ids) u (memberRole db (grOrg row) u) None None)) = PermEdit"
    and role: "memberRole db (grOrg row) u \<noteq> None" and j: "joined_before db (grOrg row) u (grCreatedAt row)"
  shows "grants_edit db (grOrg row) u ids"
proof -
  have late: "(case memberAccessSnapshot db (grOrg row) u of None \<Rightarrow> False | Some s \<Rightarrow> grCreatedAt row \<le> snAt s) = False"
    using j by (auto simp: joined_before_def split: option.splits)
  have sel: "cxOrg (folderContext row ids) = grOrg row" "cxDoc (folderContext row ids) = None"
    "cxFolderIds (folderContext row ids) = ids" "cxCreatedBy (folderContext row ids) = None"
    "cxCreatedAt (folderContext row ids) = grCreatedAt row"
    by (simp_all add: folderContext_def)
  note unfolded = resolveAccessForUserInner_def matchingIndex_def ctxDenied_def ctxLocked_def ctxGrant_def sel Let_def
    option.case readPersonal_def readSnapshot_def readBaseline_def prod.case late
  have edit: "raPermission (if g = PermNone then \<lparr>raPermission = PermNone, raCapped = a, raDenied = b\<rparr> else capped l g) = PermEdit
      \<Longrightarrow> g = PermEdit" for g a b l
    by (cases l) (auto split: if_splits)
  have "sharePermission db u None ids (grOrg row) True (\<not> isDenied db POrg (grOrg row) None ids \<and> level \<noteq> PersonalDenied) None None None False = PermEdit"
    if "personalVaultLevel db (grOrg row) u = Some level" for level
    using inner role unfolding unfolded that by (auto split: if_splits dest: edit)
  moreover have "sharePermission db u None ids (grOrg row) False False None None None True = PermEdit"
    if "personalVaultLevel db (grOrg row) u = None" "isDenied db POrg (grOrg row) None ids"
    using inner role that(2) unfolding unfolded that(1) by (auto split: if_splits dest: edit)
  moreover have "sharePermission db u None ids (grOrg row) True True None None None True = PermEdit"
    if "personalVaultLevel db (grOrg row) u = None"
      "vaultBaseline db (grOrg row) = Some PostureView \<or> vaultBaseline db (grOrg row) = Some PostureSealed"
      "\<not> isDenied db POrg (grOrg row) None ids"
    using inner role that(2,3) unfolding unfolded that(1) by (auto split: if_splits dest: edit)
  ultimately show ?thesis unfolding grants_edit_def by blast
qed

section \<open>The new note\<close>

definition withNote :: "note_row \<Rightarrow> database \<Rightarrow> database" where
  "withNote n db = db\<lparr>noteRows := noteRows db @ [n]\<rparr>"

lemma ancestorLevels_frame:
  "folders db' = folders db \<Longrightarrow> ancestorLevels db' fuel level = ancestorLevels db fuel level"
  by (induction fuel arbitrary: level) (simp_all add: Let_def)

lemma withNote_frame [simp]:
  "shares (withNote n db) = shares db" "isAccountReadOnly env (withNote n db) o' = isAccountReadOnly env db o'"
  "vaultOrg (withNote n db) v = vaultOrg db v" "memberRole (withNote n db) o' u = memberRole db o' u"
  "memberAccessSnapshot (withNote n db) o' u = memberAccessSnapshot db o' u"
  "vaultBaseline (withNote n db) o' = vaultBaseline db o'" "personalVaultLevel (withNote n db) o' u = personalVaultLevel db o' u"
  "isDenied (withNote n db) pt p x ids = isDenied db pt p x ids" "isLocked (withNote n db) u x ids = isLocked db u x ids"
  "sharePermission (withNote n db) u x ids o' m oga s t None ovc = sharePermission db u x ids o' m oga s t None ovc"
  "keyRows (withNote n db) ty i = keyRows db ty i" "unique_shares (withNote n db) = unique_shares db"
  "ancestorFolderIds (withNote n db) q = ancestorFolderIds db q"
proof -
  show "isAccountReadOnly env (withNote n db) o' = isAccountReadOnly env db o'" by (simp add: withNote_def)
  show "ancestorFolderIds (withNote n db) q = ancestorFolderIds db q"
    using ancestorLevels_frame [of "withNote n db" db] by (simp add: ancestorFolderIds_def withNote_def)
qed (simp_all add: withNote_def vaultOrg_def memberRole_def memberAccessSnapshot_def vaultBaseline_def
    personalVaultLevel_def isDenied_def userItemRows_def isLocked_def sharePermission_def shareQuery_def keyRows_def unique_shares_def)

lemma withNote_located:
  assumes "ntId n = d" "ntVault n = v" "ntDeletedAt n = None" "d \<notin> ntId ` set (noteRows db)" "vaultOrg db v = Some o'"
    and "d \<notin> flId ` set (fileRows db)"
  shows "locateDoc (withNote n db) d False =
    Some \<lparr>dlVault = v, dlFolder = ntFolder n, dlOrg = o', dlCreatedBy = ntCreatedBy n, dlCreatedAt = ntCreatedAt n\<rparr>"
proof -
  have "filter (\<lambda>n. ntId n = d \<and> ntDeletedAt n = None) (noteRows db) = []"
    "filter (\<lambda>f. flId f = d) (fileRows db) = []"
    using assms(4,6) by (auto simp: filter_empty_conv)
  moreover have "noteLocation (withNote n db) n =
      Some \<lparr>dlVault = v, dlFolder = ntFolder n, dlOrg = o', dlCreatedBy = ntCreatedBy n, dlCreatedAt = ntCreatedAt n\<rparr>"
    using assms(2,5) by (simp add: noteLocation_def)
  ultimately show ?thesis
    using assms(1,3) by (simp add: locateDoc_def locatedRows_def first_row_def map_filter_simps) (simp add: withNote_def map_filter_simps)
qed

text \<open>What the create gate established, at the root or in a folder.\<close>

lemma canCreateIn_grants:
  assumes s: "unique_shares db" "unique_folders db" "named_folders db"
    and create: "map_option fst (canCreateIn env db u v q None emptyPreload) = Some True"
    and org: "vaultOrg db v = Some o'"
    and home: "\<forall>f \<in> set (folders db). q = Some (fdId f) \<longrightarrow> fdVault f = v \<and> joined_before db o' u (fdCreatedAt f)"
    and q: "q \<noteq> Some []"
  shows "\<exists>ids. ancestorFolderIds db q = Some ids \<and> \<not> isDenied db PUser u None ids \<and> \<not> isLocked db u None ids \<and>
    memberRole db o' u \<noteq> None \<and> \<not> isAccountReadOnly env db o' \<and> grants_edit db o' u ids"
proof (cases q)
  case (Some i)
  then have i: "truthy q" using q by (simp add: truthy_def)
  have none: "ok_cache env db None" by (simp add: ok_cache_def)
  have gate: "canCreateIn env db u v q None emptyPreload = canEditFolder env db u i None emptyPreload"
    using i Some by (simp add: canCreateIn_def)
  have "freshGate env db u i = Some True"
    using create unfolding gate canEditFolder_fresh(1) [OF s none preload_ok_empty] .
  then obtain row ids where row: "folderGateRow db i = Some row" "\<not> isAccountReadOnly env db (grOrg row)"
    "memberRole db (grOrg row) u \<noteq> None" "ancestorFolderIds db (Some i) = Some ids" "gateDecision env db u row ids"
    by (auto simp: freshGate_def split: option.splits if_splits)
  obtain f where f: "f \<in> set (folders db)" "fdId f = i" "vaultOrg db (fdVault f) = Some (grOrg row)" "grCreatedAt row = fdCreatedAt f"
    using row(1) by (auto simp: folderGateRow_def gateRow_def dest: first_row_Some)
  have o': "grOrg row = o'" using home f(1,2,3) Some org by auto
  have j: "joined_before db o' u (grCreatedAt row)" using home f(1,2,4) Some by auto
  have clear: "\<not> isDenied db PUser u None ids" "\<not> isLocked db u None ids"
    using row(5) by (simp_all add: gateDecision_def)
  consider (plain) "\<not> gateOverlay db u row ids" | (shares) "gateShares env db u row ids"
    using row(5) by (auto simp: gateDecision_def)
  then show ?thesis
  proof cases
    case plain
    then show ?thesis using row(2,3,4) clear Some by (auto simp: gateOverlay_def o' grants_edit_def)
  next
    case shares
    have role: "memberRole db (grOrg row) u \<noteq> None" by (rule row(3))
    note carried = shares_decide [OF gateShares_inner [OF shares] role, unfolded o', OF j]
    show ?thesis using row(2,3,4) clear Some carried o' by auto
  qed
next
  case None
  then have root: "memberRole db o' u \<noteq> None" "fst (vaultRootWritable env db u o' None)"
    using create org by (auto simp: canCreateIn_def truthy_def readRole_def split: if_splits)
  have nil: "ancestorFolderIds db q = Some []" using None by (simp add: ancestorFolderIds_def truthy_def)
  have off: "\<not> onItem None [] r" for r by (simp add: onItem_def)
  have clear: "\<not> isDenied db pt p None []" "\<not> isLocked db u None []" for pt p
    by (simp_all add: isDenied_def userItemVerdict_def itemOrder_def list_ex_iff off isLocked_def rowsLocked_def)
  have writable: "\<not> isAccountReadOnly env db o'"
    "personalVaultLevel db o' u \<noteq> None \<Longrightarrow> personalVaultLevel db o' u = Some PersonalEdit"
    "personalVaultLevel db o' u = None \<Longrightarrow> vaultBaseline db o' = Some PostureView \<or> vaultBaseline db o' = Some PostureSealed \<Longrightarrow>
      \<exists>r \<in> set (shares db). vaultRow o' r \<and> srPrincipalType r = PUser \<and> srPrincipalId r = u \<and> srPermission r = SEdit"
    using root(2) by (auto simp: vaultRootWritable_def readBilling_def readPersonal_def readBaseline_def Let_def vaultRow_def
        list_ex_iff split: if_splits)
  have own: "personalVaultLevel db o' u = Some PersonalEdit"
    if "r \<in> set (shares db)" "vaultRow o' r" "srPrincipalType r = PUser" "srPrincipalId r = u" "srPermission r = SEdit" for r
  proof -
    have "first_row (personalRow u o') (shares db) = Some r"
      using that by (intro first_row_unique) (auto simp: personalRow_def vaultRow_def share_key_def intro: unique_shares_eq [OF s(1)])
    then show ?thesis using that(5) by (simp add: personalVaultLevel_def personalLevelOf_def)
  qed
  have grant: "sharePermission db u None [] o' m oga None None None ovc = PermEdit" if p: "personalVaultLevel db o' u = Some PersonalEdit" for m oga ovc
  proof -
    obtain r where "first_row (personalRow u o') (shares db) = Some r" "srPermission r = SEdit"
      using p by (auto simp: personalVaultLevel_def personalLevelOf_def split: if_splits)
    then have r: "r \<in> set (shares db)" "personalRow u o' r" "srPermission r = SEdit" by (auto dest: first_row_Some)
    then have "r \<in> grantRows db u None [] o' (m \<and> oga) ovc"
      by (auto simp: grantRows_def grantBase_def personalRow_def vaultRow_def)
    moreover have "liveGrant None None r" using r(2) by (simp add: liveGrant_def)
    ultimately show ?thesis using r(3) by (auto simp: sharePermission_query [OF s(1)] grantNF_def grantOf_def)
  qed
  show ?thesis
    using nil clear root(1) writable grant own unfolding grants_edit_def by fastforce
qed

end
