(* ===== verification/Gates_Frozen.thy ===== *)
theory Gates_Frozen
  imports Gates_Create Reg_Demo Vault_Agree
begin

text \<open>
  The registry's routes over the gates the server gives them: \<open>httpGates\<close> instantiates the gate
  record of the routes with this library's gates over the permission tables; \<open>mirrors\<close> says that the
  registry's tables and the permission tables are the same rows.
\<close>

definition yes :: "bool option \<Rightarrow> bool" where
  "yes r \<longleftrightarrow> r = Some True"

definition httpGates :: "deployment \<Rightarrow> database \<Rightarrow> (string \<Rightarrow> bool) \<Rightarrow> route_gates" where
  "httpGates env db rootFrozen =
     \<lparr>ogEditFolder = (\<lambda>u i. yes (map_option fst (canEditFolder env db u i None emptyPreload))),
      ogEditDoc = (\<lambda>u d. yes (canEditDoc env db u d)),
      ogReadOnly = (\<lambda>o'. truthy o' \<and> isAccountReadOnly env db (the o')),
      ogRootFrozen = rootFrozen,
      ogRole = memberRole db,
      ogWriteBlob = (\<lambda>u f. yes (canWriteBlob env db u
        \<lparr>bbVault = Some (tlVault f), bbPath = Some (tlPath f), bbDoc = Some (tlId f)\<rparr>))\<rparr>"

definition folderRowOf :: "tree_folder \<Rightarrow> folder_row" where
  "folderRowOf f = \<lparr>fdId = tfId f, fdParent = tfParent f, fdVault = tfVault f, fdCreatedBy = tfCreatedBy f,
     fdCreatedAt = tfCreatedAt f\<rparr>"

definition noteRowOf :: "tree_note \<Rightarrow> note_row" where
  "noteRowOf n = \<lparr>ntId = tnId n, ntVault = tnVault n, ntFolder = tnFolder n, ntCreatedBy = tnCreatedBy n,
     ntCreatedAt = tnCreatedAt n, ntDeletedAt = tnDeletedAt n\<rparr>"

definition fileMatches :: "tree_file \<Rightarrow> file_row \<Rightarrow> bool" where
  "fileMatches f r \<longleftrightarrow> flId r = tlId f \<and> flVault r = tlVault f \<and> flFolder r = tlFolder f \<and> flCreatedBy r = tlCreatedBy f"

definition mirrors :: "database \<Rightarrow> tree \<Rightarrow> bool" where
  "mirrors db t \<longleftrightarrow> vaults db = trVaults t \<and> folders db = map folderRowOf (trFolders t) \<and>
     noteRows db = map noteRowOf (trNotes t) \<and> list_all2 fileMatches (trFiles t) (fileRows db)"

section \<open>A lapsed account closes every gate\<close>

definition lapsed :: "deployment \<Rightarrow> database \<Rightarrow> string \<Rightarrow> bool" where
  "lapsed env db v \<longleftrightarrow> (\<exists>o'. vaultOrg db v = Some o' \<and> o' \<noteq> [] \<and> isAccountReadOnly env db o')"

lemma lapsed_folder:
  assumes u: "unique_folders db" and l: "lapsed env db v" and f: "f \<in> set (folders db)" "fdId f = i" "fdVault f = v"
  shows "canEditFolder env db user i None emptyPreload = Some (False, None)"
proof -
  obtain o' where o': "vaultOrg db v = Some o'" "isAccountReadOnly env db o'" using l by (auto simp: lapsed_def)
  have "row_ok db i (gateRow o' f)" using f o'(1) by (auto simp: row_ok_def gateRow_def)
  then have "folderGateRow db i = Some (gateRow o' f)" by (rule folderGateRow_unique [OF u])
  then show ?thesis using o'(2)
    by (simp add: canEditFolder_def preloadedFolder_def emptyPreload_def readBilling_def gateRow_def Let_def split: prod.split)
qed

lemma lapsed_doc:
  assumes l: "lapsed env db v" and v: "\<And>loc. locateDoc db d False = Some loc \<Longrightarrow> dlVault loc = v"
  shows "canEditDoc env db user d \<noteq> Some True"
    and "effectivePermission env db user d None False \<noteq> Some (PermEdit, c)"
proof -
  have none: "effectivePermission env db user d None False \<noteq> Some (PermEdit, c)" for c
  proof (cases "locateDoc db d False")
    case None
    then show ?thesis by (simp add: effectivePermission_def uncached_inner)
  next
    case (Some loc)
    have "vaultOrg db (dlVault loc) = Some (dlOrg loc)"
      using locateDoc_cases [OF Some] by (auto simp: noteLocation_def fileLocation_def)
    then have "dlOrg loc \<noteq> []" "isAccountReadOnly env db (dlOrg loc)"
      using l v [OF Some] by (auto simp: lapsed_def)
    then show ?thesis
      using plain_permission [OF Some, of _ env user]
      by (cases "ancestorFolderIds db (dlFolder loc)") (auto simp: effectivePermission_def uncached_inner Some split: if_splits)
  qed
  then show "effectivePermission env db user d None False \<noteq> Some (PermEdit, c)" .
  show "canEditDoc env db user d \<noteq> Some True" using none by (auto simp: canEditDoc_def)
qed

lemma lapsed_root:
  assumes "vaultOrg db v = Some o'" "isAccountReadOnly env db o'"
  shows "fst (vaultRootWritable env db user o' None) = False"
  using assms by (simp add: vaultRootWritable_def readBilling_def Let_def split: prod.split)

lemma lapsed_create:
  assumes u: "unique_folders db" and l: "lapsed env db v"
    and home: "\<And>i f. q = Some i \<Longrightarrow> f \<in> set (folders db) \<Longrightarrow> fdId f = i \<Longrightarrow> fdVault f = v"
  shows "map_option fst (canCreateIn env db user v q None emptyPreload) \<noteq> Some True"
proof (cases "truthy q")
  case True
  then obtain i where i: "q = Some i" by (auto simp: truthy_def)
  show ?thesis
  proof (cases "folderGateRow db i")
    case None
    then show ?thesis using True i by (simp add: canCreateIn_def canEditFolder_def preloadedFolder_def emptyPreload_def Let_def)
  next
    case (Some row)
    then obtain f where "f \<in> set (folders db)" "fdId f = i" by (auto simp: folderGateRow_def dest: first_row_Some)
    then have "canEditFolder env db user i None emptyPreload = Some (False, None)"
      using lapsed_folder [OF u l] home [OF i] by blast
    then show ?thesis using True i by (simp add: canCreateIn_def)
  qed
next
  case False
  obtain o' where o': "vaultOrg db v = Some o'" "isAccountReadOnly env db o'" using l by (auto simp: lapsed_def)
  show ?thesis using False o' lapsed_root [OF o', of user] by (auto simp: canCreateIn_def readRole_def Let_def)
qed

lemma unique_docs_located:
  assumes u: "unique_docs db" and loc: "locateDoc db d incl = Some loc"
  shows "n \<in> set (noteRows db) \<Longrightarrow> ntId n = d \<Longrightarrow> dlVault loc = ntVault n"
    and "f \<in> set (fileRows db) \<Longrightarrow> flId f = d \<Longrightarrow> dlVault loc = flVault f"
proof -
  note same = note_id_unique [OF u] file_id_unique [OF u] note_not_file [OF u]
  show "n \<in> set (noteRows db) \<Longrightarrow> ntId n = d \<Longrightarrow> dlVault loc = ntVault n"
    using locateDoc_cases [OF loc] same by (auto simp: noteLocation_def fileLocation_def) metis+
  show "f \<in> set (fileRows db) \<Longrightarrow> flId f = d \<Longrightarrow> dlVault loc = flVault f"
    using locateDoc_cases [OF loc] same by (auto simp: noteLocation_def fileLocation_def) metis+
qed

lemma lapsed_file:
  assumes u: "unique_folders db" "unique_docs db" "same_vault db" and l: "lapsed env db v"
    and f: "f \<in> set (fileRows db)" "flId f = i" "flVault f = v" and named: "i \<noteq> []" "v \<noteq> []"
  shows "canWriteBlob env db user \<lparr>bbVault = Some v, bbPath = p, bbDoc = Some i\<rparr> \<noteq> Some True"
proof -
  have "first_row (\<lambda>g. flId g = i \<and> flVault g = v) (fileRows db) = Some f"
    using f u(2) by (intro first_row_unique) (auto simp: unique_docs_def distinct_map dest: inj_onD)
  then have doc: "fileDoc db v i = Some f" by (simp add: fileDoc_def)
  have here: "dlVault loc = v" if "locateDoc db i False = Some loc" for loc
    using unique_docs_located(2) [OF u(2) that f(1,2)] f(3) by simp
  have "fdVault g = v" if "flFolder f = Some j" "g \<in> set (folders db)" "fdId g = j" for j g
    using u(3) f(1,3) that by (auto simp: same_vault_def)
  then have "map_option fst (canCreateIn env db user v (flFolder f) None emptyPreload) \<noteq> Some True"
    by (intro lapsed_create [OF u(1) l])
  moreover have "canEditDoc env db user i \<noteq> Some True" by (rule lapsed_doc(1) [OF l here])
  ultimately show ?thesis
    using named doc by (auto simp: canWriteBlob_def truthy_def split: option.splits if_splits bool.splits)
qed

end
