(* ===== verification/Gates_Props.thy ===== *)
theory Gates_Props
  imports Gates_Frozen
begin

text \<open>
  The properties of the HTTP gates: a batch's preloaded rows change no verdict, what you may create
  you may edit, a lapsed account freezes the registry, and what a per-user deny on a file does not
  close.
\<close>

section \<open>Batches\<close>

text \<open>The preload a batch may hold: it starts empty, loads folders of a vault, and seeds every
  folder it has just inserted (a new row, on which no share row can exist yet).\<close>

inductive batch_state :: "database \<Rightarrow> folder_preload \<Rightarrow> bool" where
  batch_start: "batch_state db emptyPreload"
| batch_load: "batch_state db pl \<Longrightarrow> batch_state db (preloadFolders db vaultId folderIds pl)"
| batch_insert: "batch_state db pl \<Longrightarrow> keyRows db RFolder (fdId f) = {} \<Longrightarrow>
    batch_state (withFolder f db) (seedFolder f pl)"

lemma batch_ok: "batch_state db pl \<Longrightarrow> preload_ok db pl"
  by (induction rule: batch_state.induct) (simp_all add: preload_ok_empty preloadFolders_ok seedFolder_ok)

text \<open>C18: A batch's preloaded rows and the request's memo change no verdict: whatever folders were
  preloaded and whatever folders the batch inserted and seeded on the way, \<open>canEditFolder\<close> answers
  what it answers from the tables alone (and returns exactly when that does), and leaves the memo
  coherent.\<close>

theorem gates_agree:
  assumes "unique_shares db" "unique_folders db" "named_folders db"
    and "batch_state db pl" "ok_cache env db cache"
  shows "map_option fst (canEditFolder env db u i cache pl) = map_option fst (canEditFolder env db u i None emptyPreload) \<and>
    pred_option (\<lambda>r. ok_cache env db (snd r)) (canEditFolder env db u i cache pl)"
proof -
  have none: "ok_cache env db None" by (simp add: ok_cache_def)
  have "map_option fst (canEditFolder env db u i cache pl) = map_option fst (canEditFolder env db u i None emptyPreload)"
    by (simp only: canEditFolder_fresh(1) [OF assms(1-3) assms(5) batch_ok [OF assms(4)]]
        canEditFolder_fresh(1) [OF assms(1-3) none preload_ok_empty])
  then show ?thesis
    using canEditFolder_fresh(2) [OF assms(1-3) assms(5) batch_ok [OF assms(4)], of u i]
    by (cases "canEditFolder env db u i cache pl") auto
qed

definition grownVault :: database where
  "grownVault = withFolder \<lparr>fdId = ''f3'', fdParent = Some ''f2'', fdVault = ''v'', fdCreatedBy = Some ''bob'', fdCreatedAt = 7\<rparr>
     (demo [share RVault ''o'' POrg ''o'' SView, share RFolder ''f1'' PUser ''bob'' SEdit])"

definition grownPreload :: folder_preload where
  "grownPreload = seedFolder \<lparr>fdId = ''f3'', fdParent = Some ''f2'', fdVault = ''v'', fdCreatedBy = Some ''bob'', fdCreatedAt = 7\<rparr>
     (preloadFolders (demo [share RVault ''o'' POrg ''o'' SView, share RFolder ''f1'' PUser ''bob'' SEdit]) ''v'' [''f2''] emptyPreload)"

theorem gates_agree_witness:
  "map_option fst (canEditFolder self_hosted grownVault ''bob'' ''f3'' (Some createResolverCache) grownPreload) = Some True"
proof -
  have "batch_state grownVault grownPreload"
    unfolding grownVault_def grownPreload_def
    by (intro batch_insert batch_load batch_start) (auto simp: keyRows_def share_def)
  moreover have "unique_shares grownVault" "unique_folders grownVault" "named_folders grownVault"
    by (simp_all add: grownVault_def unique_shares_def share_key_def share_def unique_folders_def named_folders_def)
      (simp_all add: demo_def)
  moreover have "ok_cache self_hosted grownVault (Some createResolverCache)"
    by (simp add: ok_cache_def cache_ok_create)
  moreover have "map_option fst (canEditFolder self_hosted grownVault ''bob'' ''f3'' None emptyPreload) = Some True"
    by code_simp
  ultimately show ?thesis
    using gates_agree [of grownVault grownPreload self_hosted "Some createResolverCache" "''bob''" "''f3''"] by simp
qed

section \<open>Creating\<close>

text \<open>C19: What you may create you may edit: where \<open>canCreateIn\<close> lets a user create (at the root or in
  a folder of the vault), a note made there is \<open>edit\<close> for its author under every posture, personal
  level, deny, lock and grant, as long as the folder is not older than the author's membership (an
  older folder is answered by the join snapshot, the new note is not).\<close>

theorem created_note_is_editable:
  assumes "unique_shares db" "unique_folders db" "named_folders db"
    and create: "map_option fst (canCreateIn env db u v q None emptyPreload) = Some True"
    and org: "vaultOrg db v = Some o'" and q: "q \<noteq> Some []" and u: "u \<noteq> []"
    and home: "\<forall>f \<in> set (folders db). q = Some (fdId f) \<longrightarrow> fdVault f = v \<and> joined_before db o' u (fdCreatedAt f)"
    and n: "ntVault n = v" "ntFolder n = q" "ntCreatedBy n = Some u" "ntDeletedAt n = None"
    and j: "joined_before db o' u (ntCreatedAt n)"
    and fresh: "ntId n \<notin> ntId ` set (noteRows db)" "ntId n \<notin> flId ` set (fileRows db)" "keyRows db RFile (ntId n) = {}"
  shows "effectivePermission env (withNote n db) u (ntId n) None False = Some (PermEdit, None)"
proof -
  obtain ids where ids: "ancestorFolderIds db q = Some ids" "\<not> isDenied db PUser u None ids" "\<not> isLocked db u None ids"
      "memberRole db o' u \<noteq> None" "\<not> isAccountReadOnly env db o'"
    and grants: "grants_edit db o' u ids"
    using canCreateIn_grants [OF assms(1-3) create org home q] by blast
  define loc where "loc = authored u v q o' (ntCreatedAt n)"
  have located: "locateDoc (withNote n db) (ntId n) False = Some loc"
    using withNote_located [OF refl n(1,4) fresh(1) org fresh(2)] n(2,3) by (simp add: loc_def authored_def)
  have "decideDoc (withNote n db) u (ntId n) loc ids None (freshFacts (withNote n db) o' u) = PermEdit"
    unfolding loc_def
    by (rule decide_authored) (use assms(1) fresh(3) u ids(3,4) j grants in \<open>simp_all add: joined_before_def grants_edit_def\<close>)
  moreover have "\<not> isDenied (withNote n db) PUser u (Some (ntId n)) ids"
    using no_rows_asks(1) [OF assms(1) fresh(3)] ids(2) by simp
  moreover have "dlOrg loc = o'" "dlFolder loc = q" by (simp_all add: loc_def authored_def)
  ultimately show ?thesis
    using plain_permission [OF located, of ids env u] ids(1,5) by (simp add: freshDecision_def)
qed

definition bobsNote :: "string option \<Rightarrow> note_row" where
  "bobsNote q = \<lparr>ntId = ''k'', ntVault = ''v'', ntFolder = q, ntCreatedBy = Some ''bob'', ntCreatedAt = 9, ntDeletedAt = None\<rparr>"

theorem created_note_is_editable_witness:
  "effectivePermission self_hosted
     (withNote (bobsNote (Some ''f2'')) (demo [share RVault ''o'' POrg ''o'' SDenied, share RFolder ''f1'' PUser ''bob'' SEdit]))
     ''bob'' ''k'' None False = Some (PermEdit, None)"
proof -
  let ?db = "demo [share RVault ''o'' POrg ''o'' SDenied, share RFolder ''f1'' PUser ''bob'' SEdit]"
  have "map_option fst (canCreateIn self_hosted ?db ''bob'' ''v'' (Some ''f2'') None emptyPreload) = Some True" by code_simp
  moreover have "unique_shares ?db" by (simp add: unique_shares_def share_key_def share_def)
  ultimately have "effectivePermission self_hosted (withNote (bobsNote (Some ''f2'')) ?db) ''bob'' (ntId (bobsNote (Some ''f2''))) None False = Some (PermEdit, None)"
    using demo_constraints
    by (intro created_note_is_editable [where v = "''v''" and q = "Some ''f2''" and o' = "''o''"])
      (auto simp: bobsNote_def demo_def vaultOrg_def first_row_def joined_before_def memberAccessSnapshot_def keyRows_def share_def)
  then show ?thesis by (simp add: bobsNote_def)
qed

text \<open>Without that condition it fails: a member whose join snapshot says Open may create a note in an
  old folder of a sealed vault, and the note they made is \<open>none\<close> for them.\<close>

lemma created_note_vanishes:
  "let db = (demo [share RVault ''o'' POrg ''o'' SDenied])\<lparr>memberSnapshots :=
       [\<lparr>msOrg = ''o'', msUser = ''bob'', msMode = MOpen, msRevision = 0, msAt = 3\<rparr>]\<rparr>
   in map_option fst (canCreateIn self_hosted db ''bob'' ''v'' (Some ''f2'') None emptyPreload) = Some True \<and>
      map_option fst (effectivePermission self_hosted (withNote (bobsNote (Some ''f2'')) db) ''bob'' ''k'' None False) = Some PermNone"
  by code_simp

section \<open>The lapse\<close>

lemma frozen_folder:
  assumes m: "mirrors db t" and u: "unique_folders db" and l: "lapsed env db v" and f: "f \<in> set (trFolders t)" "tfVault f = v"
  shows "ogEditFolder (httpGates env db frozen) user (tfId f) = False" "findFolder t (tfId f) = Some (folderInfo f)"
proof -
  have row: "folderRowOf f \<in> set (folders db)" using m f(1) by (simp add: mirrors_def)
  have "canEditFolder env db user (tfId f) None emptyPreload = Some (False, None)"
    by (rule lapsed_folder [OF u l row]) (simp_all add: folderRowOf_def f(2))
  then show "ogEditFolder (httpGates env db frozen) user (tfId f) = False" by (simp add: httpGates_def yes_def)
  have "distinct (map tfId (trFolders t))"
    using u m by (simp add: unique_folders_def mirrors_def folderRowOf_def comp_def)
  then have "first_row (\<lambda>g. tfId g = tfId f) (trFolders t) = Some f"
    using f(1) by (intro first_row_unique) (auto simp: distinct_map dest: inj_onD)
  then show "findFolder t (tfId f) = Some (folderInfo f)" by (simp add: findFolder_def)
qed

lemma frozen_note:
  assumes m: "mirrors db t" and u: "unique_docs db" and l: "lapsed env db v"
    and n: "n \<in> set (trNotes t)" "tnVault n = v" "tnDeletedAt n = None"
  shows "ogEditDoc (httpGates env db frozen) user (tnId n) = False" "findNote t (tnId n) = Some n"
proof -
  have row: "noteRowOf n \<in> set (noteRows db)" "ntId (noteRowOf n) = tnId n" using m n(1) by (simp_all add: mirrors_def noteRowOf_def)
  have "dlVault loc = v" if "locateDoc db (tnId n) False = Some loc" for loc
    using unique_docs_located(1) [OF u that row] n(2) by (simp add: noteRowOf_def)
  then have "canEditDoc env db user (tnId n) \<noteq> Some True" by (rule lapsed_doc(1) [OF l])
  then show "ogEditDoc (httpGates env db frozen) user (tnId n) = False" by (simp add: httpGates_def yes_def)
  have "distinct (map tnId (trNotes t))"
    using u m by (simp add: unique_docs_def mirrors_def noteRowOf_def comp_def)
  then have "first_row (\<lambda>x. tnId x = tnId n \<and> tnDeletedAt x = None) (trNotes t) = Some n"
    using n by (intro first_row_unique) (auto simp: distinct_map dest: inj_onD)
  then show "findNote t (tnId n) = Some n" by (simp add: findNote_def)
qed

lemma frozen_file:
  assumes m: "mirrors db t" and u: "unique_folders db" "unique_docs db" "same_vault db" and l: "lapsed env db v"
    and x: "x \<in> set (trFiles t)" "tlVault x = v" "tlId x \<noteq> []" "v \<noteq> []"
  shows "ogWriteBlob (httpGates env db frozen) user x = False" "first_row (\<lambda>f. tlId f = tlId x) (trFiles t) = Some x"
proof -
  have all2: "list_all2 fileMatches (trFiles t) (fileRows db)" using m by (simp add: mirrors_def)
  then obtain k where "k < length (trFiles t)" "trFiles t ! k = x" "k < length (fileRows db)"
    using x(1) by (metis in_set_conv_nth list_all2_lengthD)
  then have r: "fileRows db ! k \<in> set (fileRows db)" "fileMatches x (fileRows db ! k)"
    using all2 by (auto simp: list_all2_conv_all_nth)
  then have "canWriteBlob env db user \<lparr>bbVault = Some v, bbPath = Some (tlPath x), bbDoc = Some (tlId x)\<rparr> \<noteq> Some True"
    using x by (intro lapsed_file [OF u l]) (auto simp: fileMatches_def)
  then show "ogWriteBlob (httpGates env db frozen) user x = False" using x(2) by (simp add: httpGates_def yes_def)
  have "map tlId (trFiles t) = map flId (fileRows db)"
    using all2 by (induction rule: list_all2_induct) (auto simp: fileMatches_def)
  then have "distinct (map tlId (trFiles t))" using u(2) by (simp add: unique_docs_def)
  then show "first_row (\<lambda>f. tlId f = tlId x) (trFiles t) = Some x"
    using x(1) by (intro first_row_unique) (auto simp: distinct_map dest: inj_onD)
qed

lemma frozen_billing:
  assumes "mirrors db t" "lapsed env db v"
  shows "billingOr (httpGates env db frozen) t v = 402"
  using assms by (auto simp: billingOr_def httpGates_def lapsed_def mirrors_def treeOrg_def vaultOrg_def truthy_def)

text \<open>C20: A lapsed account freezes its vaults' trees: with the server's own gates behind the registry's
  routes, every rename, move and delete of a folder or live note of such a vault answers 402 (401
  without a session), and together with file deletes leaves the tables exactly as they were, for
  owners, authors and grantees alike.\<close>

theorem lapsed_vault_is_frozen:
  assumes "mirrors db t" "unique_folders db" "unique_docs db" "same_vault db" "lapsed env db v" "v \<noteq> []"
  shows "(\<forall>f \<in> set (trFolders t). tfVault f = v \<longrightarrow>
      patchFolder tenv (httpGates env db frozen) session (tfId f) fbody t = (if session = None then 401 else 402, t) \<and>
      deleteFolder tenv (httpGates env db frozen) session (tfId f) t = (if session = None then 401 else 402, t)) \<and>
    (\<forall>n \<in> set (trNotes t). tnVault n = v \<and> tnDeletedAt n = None \<longrightarrow>
      patchNote tenv (httpGates env db frozen) session (tnId n) nbody (t, w) = (if session = None then 401 else 402, t, w) \<and>
      deleteNote tenv (httpGates env db frozen) session (tnId n) t = (if session = None then 401 else 402, t)) \<and>
    (\<forall>x \<in> set (trFiles t). tlVault x = v \<and> tlId x \<noteq> [] \<longrightarrow>
      snd (deleteFile (httpGates env db frozen) session (tlId x) t) = t)"
proof (intro conjI ballI impI)
  note b = frozen_billing [OF assms(1,5)]
  show "patchFolder tenv (httpGates env db frozen) session (tfId f) fbody t = (if session = None then 401 else 402, t)"
    "deleteFolder tenv (httpGates env db frozen) session (tfId f) t = (if session = None then 401 else 402, t)"
    if "f \<in> set (trFolders t)" "tfVault f = v" for f
    using frozen_folder [OF assms(1,2,5) that] b that(2)
    by (simp_all add: patchFolder_def deleteFolder_def folderInfo_def split: option.split)
  show "patchNote tenv (httpGates env db frozen) session (tnId n) nbody (t, w) = (if session = None then 401 else 402, t, w)"
    "deleteNote tenv (httpGates env db frozen) session (tnId n) t = (if session = None then 401 else 402, t)"
    if "n \<in> set (trNotes t)" "tnVault n = v \<and> tnDeletedAt n = None" for n
    using frozen_note [OF assms(1,3,5) that(1) conjunct1 [OF that(2)] conjunct2 [OF that(2)]] b that(2)
    by (simp_all add: patchNote_def deleteNote_def split: option.split)
  show "snd (deleteFile (httpGates env db frozen) session (tlId x) t) = t"
    if "x \<in> set (trFiles t)" "tlVault x = v \<and> tlId x \<noteq> []" for x
    using frozen_file [OF assms(1-5) that(1) conjunct1 [OF that(2)] conjunct2 [OF that(2)] assms(6)]
    by (auto simp: deleteFile_def deleteRegisteredFile_def split: option.split)
qed

definition overdue :: database where
  "overdue = (demo [share RVault ''o'' POrg ''o'' SEdit])
     \<lparr>folders := map folderRowOf (trFolders demo3), noteRows := map noteRowOf (trNotes demo3),
      billingAccounts := [\<lparr>baId = ''A'', baOwner = ''ann'', baFreePeople = None, baFreeVaults = None,
        baOverride = None, baComplimentaryUntil = None\<rparr>],
      accountOrgs := [\<lparr>aoOrg = ''o'', aoAccount = ''A'', aoAttachedAt = 0, aoAttachedBy = None\<rparr>,
        \<lparr>aoOrg = ''p'', aoAccount = ''A'', aoAttachedAt = 0, aoAttachedBy = None\<rparr>],
      subscriptions := [\<lparr>sbOrg = None, sbAccount = Some ''A'', sbStatus = ''canceled'', sbSeats = Some 3, sbPeriodEnd = Some 2,
        sbCancelAtEnd = False, sbCustomer = None, sbSubscription = None, sbInterval = None, sbAmount = None, sbCurrency = None\<rparr>]\<rparr>"

definition paying :: deployment where
  "paying = \<lparr>requiresCloudPlan = True, billingEnabled = True, billingTeam = True, abuseMaxNotes = 100,
     abuseMaxStorageMb = 10, freeMaxVaults = 2, freeMaxMembers = 3, freeMaxStorageMb = 1\<rparr>"

theorem lapsed_vault_is_frozen_witness:
  "deleteFolder plainEnv (httpGates paying overdue (\<lambda>_. False)) (Some ''ann'') ''fa'' demo3 = (402, demo3)"
proof -
  have "lapsed paying overdue ''v''"
  proof -
    have "isAccountReadOnly paying overdue ''o''" by code_simp
    moreover have "vaultOrg overdue ''v'' = Some ''o''" by code_simp
    ultimately show ?thesis by (simp add: lapsed_def)
  qed
  moreover have "mirrors overdue demo3" "unique_folders overdue" "unique_docs overdue" "same_vault overdue"
    by (simp_all add: mirrors_def unique_folders_def unique_docs_def same_vault_def overdue_def demo_def demo3_def
        demoTree_def demoFolder_def demoNote_def folderRowOf_def noteRowOf_def)
  moreover have "demoFolder ''fa'' None ''a'' \<in> set (trFolders demo3)" "tfVault (demoFolder ''fa'' None ''a'') = ''v''"
    "tfId (demoFolder ''fa'' None ''a'') = ''fa''"
    by (simp_all add: demo3_def demoTree_def demoFolder_def)
  ultimately show ?thesis
    using lapsed_vault_is_frozen [of overdue demo3 paying "''v''" plainEnv "\<lambda>_. False" "Some ''ann''" undefined undefined undefined]
    by auto
qed

section \<open>Denied and still writing\<close>

text \<open>C21: A person's No access on a file does not close the file's bytes to them: whoever may create in
  the file's folder may replace or delete its content although the resolver answers \<open>none\<close> for it
  (the blob gate refuses only an explicit \<open>view\<close>).\<close>

theorem file_denial_leaves_writing:
  assumes u: "unique_shares db" "unique_docs db"
    and f: "f \<in> set (fileRows db)" "flId f = i" "flVault f = v" "i \<noteq> []" "v \<noteq> []"
    and org: "vaultOrg db v = Some o'" and ids: "ancestorFolderIds db (flFolder f) = Some ids"
    and deny: "r \<in> set (shares db)" "srResourceType r = RFile" "srResourceId r = i"
      "srPrincipalType r = PUser" "srPrincipalId r = user" "srPermission r = SDenied"
    and create: "map_option fst (canCreateIn env db user v (flFolder f) None emptyPreload) = Some True"
  shows "effectivePermission env db user i None False = Some (PermNone, None) \<and>
    canWriteBlob env db user \<lparr>bbVault = Some v, bbPath = p, bbDoc = Some i\<rparr> = Some True"
proof -
  let ?loc = "\<lparr>dlVault = v, dlFolder = flFolder f, dlOrg = o', dlCreatedBy = flCreatedBy f, dlCreatedAt = flCreatedAt f\<rparr>"
  have at: "fileLocation db f = Some ?loc" using f(3) org by (simp add: fileLocation_def)
  have same: "g = f" if "g \<in> set (fileRows db)" "flId g = i" for g
    using that f(1,2) u(2) by (auto simp: unique_docs_def distinct_map dest: inj_onD)
  have "\<not> (\<exists>n \<in> set (noteRows db). ntId n = i)"
    using u(2) f(1,2) by (auto simp: unique_docs_def)
  moreover have "locateDoc db i False \<noteq> None"
  proof -
    have "?loc \<in> set (List.map_filter (fileLocation db) (filter (\<lambda>g. flId g = i) (fileRows db)))"
      using f(1,2) at by (auto simp: List.map_filter_def image_iff)
    then show ?thesis by (auto simp: locateDoc_def locatedRows_def first_row_None)
  qed
  ultimately have loc: "locateDoc db i False = Some ?loc"
  proof -
    obtain l where l: "locateDoc db i False = Some l" using \<open>locateDoc db i False \<noteq> None\<close> by blast
    then obtain g where "g \<in> set (fileRows db)" "flId g = i" "fileLocation db g = Some l"
      using locateDoc_cases [OF l] \<open>\<not> (\<exists>n \<in> set (noteRows db). ntId n = i)\<close> by blast
    moreover have "g = f" by (rule same) (fact calculation)+
    ultimately show ?thesis using l at by simp
  qed
  have "first_row (\<lambda>x. srResourceType x = RFile \<and> srResourceId x = i \<and> srPrincipalType x = PUser \<and> srPrincipalId x = user) (shares db) = Some r"
    using deny by (intro first_row_unique) (auto simp: share_key_def intro: unique_shares_eq [OF u(1)])
  then have "uvDeny (itemVerdict db user (Some i) ids)"
    using deny(6) by (simp add: itemVerdict_def userItemVerdict_def itemOrder_def userRow_def)
  then have "freshDecision db user i ?loc ids = PermNone" by (simp add: freshDecision_def isDenied_user [OF u(1)])
  then have none: "effectivePermission env db user i None False = Some (PermNone, None)"
    using plain_none [OF loc] ids by simp
  have "fileDoc db v i = Some f"
    unfolding fileDoc_def by (rule first_row_unique) (use f(1-3) in simp, use f(1-3) in simp, rule same, simp_all)
  then show ?thesis using none create f(4,5) by (simp add: canWriteBlob_def canEditDoc_def truthy_def)
qed

definition sheetVault :: database where
  "sheetVault = (demo [share RVault ''o'' POrg ''o'' SEdit, share RFile ''x'' PUser ''bob'' SDenied])
     \<lparr>fileRows := [\<lparr>flId = ''x'', flVault = ''v'', flFolder = Some ''f2'', flCreatedBy = Some ''ann'', flCreatedAt = 5\<rparr>]\<rparr>"

theorem file_denial_leaves_writing_witness:
  "effectivePermission self_hosted sheetVault ''bob'' ''x'' None False = Some (PermNone, None) \<and>
   canWriteBlob self_hosted sheetVault ''bob'' \<lparr>bbVault = Some ''v'', bbPath = None, bbDoc = Some ''x''\<rparr> = Some True"
proof (rule file_denial_leaves_writing [where ids = "[''f2'', ''f1'']" and o' = "''o''" and r = "share RFile ''x'' PUser ''bob'' SDenied"])
  show "ancestorFolderIds sheetVault
      (flFolder \<lparr>flId = ''x'', flVault = ''v'', flFolder = Some ''f2'', flCreatedBy = Some ''ann'', flCreatedAt = 5\<rparr>) = Some [''f2'', ''f1'']"
    by code_simp
  show "map_option fst (canCreateIn self_hosted sheetVault ''bob'' ''v''
      (flFolder \<lparr>flId = ''x'', flVault = ''v'', flFolder = Some ''f2'', flCreatedBy = Some ''ann'', flCreatedAt = 5\<rparr>) None emptyPreload) = Some True"
    by code_simp
qed (simp_all add: sheetVault_def unique_shares_def share_key_def share_def unique_docs_def vaultOrg_def first_row_def demo_def)

end
