(* ===== verification/Access_Manage.thy ===== *)
theory Access_Manage
  imports Vault_Agree
begin

text \<open>
  Changing access (\<open>server/src/permissions/access-management.ts\<close>, with the lookups of
  \<open>permissions/lookup.ts\<close>): who may change whose access, the join default and the revision counter,
  and the bulk change that replaces the rows of one audience on a set of folders, documents or on
  the whole vault. A stored share is a share row with the columns only this side reads and writes.
  An error is the left of a sum: the transaction rolls back, so the caller keeps the old state.
  Auditing is left out.
\<close>

section \<open>State\<close>

record stored_share =
  ssId :: string
  ssOrg :: string
  ssCreatedBy :: "string option"
  ssRow :: share_row

record access_settings =
  asOrg :: string
  asJoinDefault :: join_mode
  asRevision :: int

record access_state =
  acDb :: database
  acShares :: "stored_share list"
  acSettings :: "access_settings list"

text \<open>The tables the permission resolver reads.\<close>

definition accessDb :: "access_state \<Rightarrow> database" where
  "accessDb st = (acDb st)\<lparr>shares := map ssRow (acShares st)\<rparr>"

datatype manage_error =
    AccessManagerRequired
  | VaultNotFound
  | InvalidResources
  | MixedVaultSelection
  | ResourceNotFound string
  | InvalidAudience
  | MemberNotFound
  | UniqueViolation

record access_resource =
  rsType :: resource_type
  rsId :: string

datatype access_audience = Everyone | People "string list"

section \<open>Lookups\<close>

record resource_info =
  riVault :: string
  riOrg :: string
  riCreatedBy :: "string option"

definition resolveResource :: "database \<Rightarrow> resource_type \<Rightarrow> string \<Rightarrow> resource_info option" where
  "resolveResource db ty i =
     (case ty of
        RVault \<Rightarrow>
          map_option (\<lambda>_. \<lparr>riVault = [], riOrg = i, riCreatedBy = None\<rparr>) (first_row (\<lambda>x. x = i) (organizations db))
      | RFolder \<Rightarrow>
          map_option (\<lambda>f. \<lparr>riVault = fdVault f, riOrg = the (vaultOrg db (fdVault f)), riCreatedBy = None\<rparr>)
            (first_row (\<lambda>f. fdId f = i \<and> vaultOrg db (fdVault f) \<noteq> None) (folders db))
      | RFile \<Rightarrow>
          first_row (\<lambda>_. True)
            (List.map_filter (\<lambda>n. map_option (\<lambda>o'. \<lparr>riVault = ntVault n, riOrg = o', riCreatedBy = ntCreatedBy n\<rparr>)
                (vaultOrg db (ntVault n))) (filter (\<lambda>n. ntId n = i) (noteRows db)) @
             List.map_filter (\<lambda>f. map_option (\<lambda>o'. \<lparr>riVault = flVault f, riOrg = o', riCreatedBy = None\<rparr>)
                (vaultOrg db (flVault f))) (filter (\<lambda>f. flId f = i) (fileRows db))))"

text \<open>The folders under some seeds, the seeds included, by \<open>parent_id\<close> alone (\<open>UNION\<close>: each once).\<close>

definition descendRound :: "database \<Rightarrow> string list \<Rightarrow> string list \<Rightarrow> string list" where
  "descendRound db acc work =
     remdups (map fdId (filter (\<lambda>f. fdParent f \<in> Some ` set work \<and> fdId f \<notin> set acc) (folders db)))"

lemma descend_measure:
  assumes "descendRound db acc work \<noteq> []"
  shows "card (fdId ` set (folders db) - set (acc @ descendRound db acc work)) < card (fdId ` set (folders db) - set acc)"
proof -
  obtain i where i: "i \<in> set (descendRound db acc work)" using assms by (meson last_in_set)
  then have "i \<in> fdId ` set (folders db) - set acc" by (auto simp: descendRound_def)
  then have "fdId ` set (folders db) - set (acc @ descendRound db acc work) \<subset> fdId ` set (folders db) - set acc"
    using i by auto
  then show ?thesis by (intro psubset_card_mono) simp_all
qed

function descendLoop :: "database \<Rightarrow> string list \<Rightarrow> string list \<Rightarrow> string list" where
  "descendLoop db acc work =
     (let more = descendRound db acc work in if more = [] then acc else descendLoop db (acc @ more) more)"
  by pat_completeness auto

termination descendLoop
  by (relation "measure (\<lambda>(db, acc, work). card (fdId ` set (folders db) - set acc))")
     (simp_all add: descend_measure del: set_append)

declare descendLoop.simps [simp del]

definition descendants :: "database \<Rightarrow> string list \<Rightarrow> string list" where
  "descendants db seeds =
     (let start = remdups (map fdId (filter (\<lambda>f. fdId f \<in> set seeds) (folders db))) in descendLoop db start start)"

text \<open>The documents whose live editors are told, with their vaults: of the whole vault, and of many
  folders and documents.\<close>

definition docsForVault :: "database \<Rightarrow> string \<Rightarrow> (string \<times> string) list" where
  "docsForVault db orgId =
     remdups
       (map (\<lambda>n. (ntId n, ntVault n)) (filter (\<lambda>n. vaultOrg db (ntVault n) = Some orgId \<and> ntDeletedAt n = None) (noteRows db)) @
        map (\<lambda>f. (flId f, flVault f)) (filter (\<lambda>f. vaultOrg db (flVault f) = Some orgId) (fileRows db)))"

definition docsForResources :: "database \<Rightarrow> access_resource list \<Rightarrow> (string \<times> string) list" where
  "docsForResources db resources =
     (let folderIds = js_set_of (map rsId (filter (\<lambda>r. rsType r = RFolder) resources));
          fileIds = js_set_of (map rsId (filter (\<lambda>r. rsType r = RFile) resources));
          subtree = descendants db folderIds;
          below = (if folderIds = [] then []
             else remdups
               (map (\<lambda>n. (ntId n, ntVault n)) (filter (\<lambda>n. inFolders subtree (ntFolder n) \<and> ntDeletedAt n = None) (noteRows db)) @
                map (\<lambda>f. (flId f, flVault f)) (filter (\<lambda>f. inFolders subtree (flFolder f)) (fileRows db))));
          direct = (if fileIds = [] then []
             else remdups
               (map (\<lambda>n. (ntId n, ntVault n)) (filter (\<lambda>n. ntId n \<in> set fileIds) (noteRows db)) @
                map (\<lambda>f. (flId f, flVault f)) (filter (\<lambda>f. flId f \<in> set fileIds) (fileRows db))))
      in js_map_of (below @ direct))"

section \<open>Who may change access\<close>

definition requireAccessManager :: "database \<Rightarrow> string \<Rightarrow> string \<Rightarrow> manage_error option" where
  "requireAccessManager db orgId userId =
     (let role = memberRole db orgId userId
      in if role \<noteq> Some ''owner'' \<and> role \<noteq> Some ''admin'' then Some AccessManagerRequired else None)"

definition canManageMemberAccess :: "string option \<Rightarrow> string option \<Rightarrow> bool \<Rightarrow> bool" where
  "canManageMemberAccess viewerRole targetRole isSelf =
     (if viewerRole = Some ''owner'' then True
      else if viewerRole = Some ''admin'' then isSelf \<or> targetRole = Some ''member'' \<or> targetRole = Some ''admin''
      else False)"

section \<open>Settings\<close>

definition ensureSettings :: "string \<Rightarrow> access_state \<Rightarrow> access_state" where
  "ensureSettings orgId st =
     (if orgId \<in> set (organizations (acDb st)) \<and> \<not> list_ex (\<lambda>s. asOrg s = orgId) (acSettings st)
      then st\<lparr>acSettings := acSettings st @ [\<lparr>asOrg = orgId, asJoinDefault = MPrivate, asRevision = 0\<rparr>]\<rparr>
      else st)"

definition findSettings :: "access_state \<Rightarrow> string \<Rightarrow> access_settings option" where
  "findSettings st orgId = first_row (\<lambda>s. asOrg s = orgId) (acSettings st)"

definition getJoinDefault :: "string \<Rightarrow> string \<Rightarrow> access_state \<Rightarrow> (manage_error + join_mode) \<times> access_state" where
  "getJoinDefault orgId userId st =
     (case requireAccessManager (acDb st) orgId userId of
        Some e \<Rightarrow> (Inl e, st)
      | None \<Rightarrow>
          (let st1 = ensureSettings orgId st
           in case findSettings st1 orgId of
                None \<Rightarrow> (Inl VaultNotFound, st1)
              | Some s \<Rightarrow> (Inr (asJoinDefault s), st1)))"

definition updateSettings :: "string \<Rightarrow> (access_settings \<Rightarrow> access_settings) \<Rightarrow> access_state \<Rightarrow> access_state" where
  "updateSettings orgId f st = st\<lparr>acSettings := map (\<lambda>s. if asOrg s = orgId then f s else s) (acSettings st)\<rparr>"

definition setJoinDefault :: "string \<Rightarrow> string \<Rightarrow> join_mode \<Rightarrow> access_state \<Rightarrow> manage_error + join_mode \<times> access_state" where
  "setJoinDefault orgId userId mode st =
     (case requireAccessManager (acDb st) orgId userId of
        Some e \<Rightarrow> Inl e
      | None \<Rightarrow>
          (let st1 = updateSettings orgId (\<lambda>s. s\<lparr>asJoinDefault := mode\<rparr>) (ensureSettings orgId st)
           in case findSettings st1 orgId of
                None \<Rightarrow> Inl VaultNotFound
              | Some s \<Rightarrow> Inr (asJoinDefault s, st1)))"

definition nextAccessRevision :: "string \<Rightarrow> access_state \<Rightarrow> manage_error + int \<times> access_state" where
  "nextAccessRevision orgId st =
     (let st1 = updateSettings orgId (\<lambda>s. s\<lparr>asRevision := asRevision s + 1\<rparr>) (ensureSettings orgId st)
      in case findSettings st1 orgId of
           None \<Rightarrow> Inl VaultNotFound
         | Some s \<Rightarrow> Inr (asRevision s, st1))"

section \<open>Validation\<close>

fun checkResources :: "database \<Rightarrow> string \<Rightarrow> access_resource list \<Rightarrow> manage_error option" where
  "checkResources db orgId [] = None"
| "checkResources db orgId (r # rs) =
     (case resolveResource db (rsType r) (rsId r) of
        None \<Rightarrow> Some (ResourceNotFound (rsId r))
      | Some info \<Rightarrow> if riOrg info \<noteq> orgId then Some (ResourceNotFound (rsId r)) else checkResources db orgId rs)"

definition validateResources :: "database \<Rightarrow> string \<Rightarrow> access_resource list \<Rightarrow> manage_error option" where
  "validateResources db orgId resources =
     (if length resources = 0 \<or> length resources > 1000 then Some InvalidResources
      else
        (let vaultRows = filter (\<lambda>r. rsType r = RVault) resources
         in if vaultRows \<noteq> [] \<and> (length resources \<noteq> 1 \<or> rsId (hd vaultRows) \<noteq> orgId) then Some MixedVaultSelection
            else checkResources db orgId resources))"

definition validateAudience :: "database \<Rightarrow> string \<Rightarrow> access_audience \<Rightarrow> string \<Rightarrow> manage_error + string list" where
  "validateAudience db orgId audience actor =
     (case audience of
        Everyone \<Rightarrow> Inr []
      | People userIds \<Rightarrow>
          (let ids = js_set_of (filter (\<lambda>u. u \<noteq> []) userIds)
           in if length ids = 0 \<or> length ids > 500 then Inl InvalidAudience
              else
                (let rows = filter (\<lambda>m. mbOrg m = orgId \<and> mbUser m \<in> set ids) (members db);
                     actorRole = memberRole db orgId actor
                 in if length rows \<noteq> length ids then Inl MemberNotFound
                    else if list_all (\<lambda>m. canManageMemberAccess actorRole (Some (mbRole m)) (mbUser m = actor)) rows
                    then Inr ids
                    else Inl AccessManagerRequired)))"

section \<open>The bulk change\<close>

text \<open>The rows of one resource the change replaces: for people, theirs; for Everyone, all of them.\<close>

definition onFolderTree :: "database \<Rightarrow> string \<Rightarrow> share_row \<Rightarrow> bool" where
  "onFolderTree db folderId r \<longleftrightarrow>
     (let subtree = descendants db [folderId] in
      (srResourceType r = RFolder \<and> srResourceId r \<in> set subtree) \<or>
      (srResourceType r = RFile \<and>
         (list_ex (\<lambda>n. ntId n = srResourceId r \<and> inFolders subtree (ntFolder n)) (noteRows db) \<or>
          list_ex (\<lambda>f. flId f = srResourceId r \<and> inFolders subtree (flFolder f)) (fileRows db))))"

definition onWholeVault :: "database \<Rightarrow> string \<Rightarrow> share_row \<Rightarrow> bool" where
  "onWholeVault db orgId r \<longleftrightarrow>
     (srResourceType r = RVault \<and> srResourceId r = orgId) \<or>
     (srResourceType r = RFolder \<and> list_ex (\<lambda>f. fdId f = srResourceId r \<and> vaultOrg db (fdVault f) = Some orgId) (folders db)) \<or>
     (srResourceType r = RFile \<and>
        (list_ex (\<lambda>n. ntId n = srResourceId r \<and> vaultOrg db (ntVault n) = Some orgId) (noteRows db) \<or>
         list_ex (\<lambda>f. flId f = srResourceId r \<and> vaultOrg db (flVault f) = Some orgId) (fileRows db)))"

definition overrideOn :: "database \<Rightarrow> string \<Rightarrow> access_resource \<Rightarrow> share_row \<Rightarrow> bool" where
  "overrideOn db orgId resource r =
     (case rsType resource of
        RFile \<Rightarrow> srResourceType r = RFile \<and> srResourceId r = rsId resource
      | RFolder \<Rightarrow> onFolderTree db (rsId resource) r
      | RVault \<Rightarrow> onWholeVault db orgId r)"

definition inAudience :: "string list \<Rightarrow> share_row \<Rightarrow> bool" where
  "inAudience userIds r \<longleftrightarrow> (userIds \<noteq> [] \<longrightarrow> srPrincipalType r = PUser \<and> srPrincipalId r \<in> set userIds)"

definition clearResourceOverrides :: "string \<Rightarrow> access_resource \<Rightarrow> string list \<Rightarrow> access_state \<Rightarrow> nat \<times> access_state" where
  "clearResourceOverrides orgId resource userIds st =
     (let gone = (\<lambda>s. ssOrg s = orgId \<and> overrideOn (acDb st) orgId resource (ssRow s) \<and> inAudience userIds (ssRow s))
      in (length (filter gone (acShares st)), st\<lparr>acShares := filter (\<lambda>s. \<not> gone s) (acShares st)\<rparr>))"

definition storedPermission :: "join_mode \<Rightarrow> stored_permission" where
  "storedPermission mode = (if mode = MPrivate then SDenied else if mode = MReadonly then SReadonly else SEdit)"

definition bulkPermission :: "resource_type \<Rightarrow> join_mode \<Rightarrow> stored_permission" where
  "bulkPermission ty mode = (if ty = RVault \<and> mode = MReadonly then SView else storedPermission mode)"

text \<open>\<open>INSERT\<close> under the table's unique index.\<close>

definition insertShare :: "stored_share \<Rightarrow> stored_share list \<Rightarrow> stored_share list option" where
  "insertShare s rows =
     (if list_ex (\<lambda>x. share_key (ssRow x) = share_key (ssRow s) \<or> ssId x = ssId s) rows then None else Some (rows @ [s]))"

fun insertShares :: "stored_share list \<Rightarrow> stored_share list \<Rightarrow> stored_share list option" where
  "insertShares [] rows = Some rows"
| "insertShares (s # ss) rows =
     (case insertShare s rows of None \<Rightarrow> None | Some rows' \<Rightarrow> insertShares ss rows')"

definition newShares :: "(nat \<Rightarrow> string) \<Rightarrow> string \<Rightarrow> string \<Rightarrow> access_resource list \<Rightarrow> principal_type \<Rightarrow> string list
    \<Rightarrow> join_mode \<Rightarrow> int \<Rightarrow> stored_share list" where
  "newShares newIds orgId actor resources principalType principalIds mode revision =
     map (\<lambda>(k, r, p). \<lparr>ssId = newIds k, ssOrg = orgId, ssCreatedBy = Some actor,
         ssRow = \<lparr>srResourceType = rsType r, srResourceId = rsId r, srPrincipalType = principalType, srPrincipalId = p,
           srPermission = bulkPermission (rsType r) mode, srRevision = revision\<rparr>\<rparr>)
       (enumerate 0 (concat (map (\<lambda>r. map (\<lambda>p. (r, p)) principalIds) resources)))"

definition clearSnapshots :: "string \<Rightarrow> access_audience \<Rightarrow> string list \<Rightarrow> access_state \<Rightarrow> access_state" where
  "clearSnapshots orgId audience selected st =
     st\<lparr>acDb := (acDb st)\<lparr>memberSnapshots := filter (\<lambda>s. \<not> (msOrg s = orgId \<and>
         (case audience of Everyone \<Rightarrow> True | People _ \<Rightarrow> msUser s \<in> set selected))) (memberSnapshots (acDb st))\<rparr>\<rparr>"

definition clearAll :: "string \<Rightarrow> access_resource list \<Rightarrow> string list \<Rightarrow> nat \<times> access_state \<Rightarrow> nat \<times> access_state" where
  "clearAll orgId resources userIds =
     fold (\<lambda>r s. case clearResourceOverrides orgId r userIds (snd s) of (n, st) \<Rightarrow> (fst s + n, st)) resources"

record bulk_result =
  brMode :: join_mode
  brResources :: nat
  brCleared :: nat
  brMembers :: nat
  brDisconnected :: nat

text \<open>The hooks of the caller: \<open>disconnectDoc\<close> may be absent (\<open>None\<close>) or throw (\<open>False\<close>); the calls made
  are recorded, as are the vaults announced.\<close>

record bulk_calls =
  bcDisconnect :: "(string \<times> string) list"
  bcAclChanged :: "string list"

definition uniqueResources :: "access_resource list \<Rightarrow> access_resource list" where
  "uniqueResources resources = map snd (js_map_of (map (\<lambda>r. ((rsType r, rsId r), r)) resources))"

definition bulkWrite :: "(nat \<Rightarrow> string) \<Rightarrow> string \<Rightarrow> string \<Rightarrow> access_resource list \<Rightarrow> access_audience \<Rightarrow> string list
    \<Rightarrow> join_mode \<Rightarrow> access_state \<Rightarrow> manage_error + nat \<times> access_state" where
  "bulkWrite newIds orgId actor resources audience selected mode st =
     (case nextAccessRevision orgId st of
        Inl e \<Rightarrow> Inl e
      | Inr (revision, st1) \<Rightarrow>
          (case clearAll orgId resources selected (0, st1) of
             (cleared, st2) \<Rightarrow>
               (let st3 = (if rsType (hd resources) = RVault then clearSnapshots orgId audience selected st2 else st2);
                    principalIds = (case audience of Everyone \<Rightarrow> [orgId] | People _ \<Rightarrow> selected);
                    principalType = (case audience of Everyone \<Rightarrow> POrg | People _ \<Rightarrow> PUser)
                in case insertShares (newShares newIds orgId actor resources principalType principalIds mode revision) (acShares st3) of
                     None \<Rightarrow> Inl UniqueViolation
                   | Some rows \<Rightarrow> Inr (cleared, st3\<lparr>acShares := rows\<rparr>))))"

definition bulkDocs :: "database \<Rightarrow> string \<Rightarrow> access_resource list \<Rightarrow> (string \<times> string) list" where
  "bulkDocs db orgId resources =
     (if rsType (hd resources) = RVault then docsForVault db orgId
      else docsForResources db (filter (\<lambda>r. rsType r \<noteq> RVault) resources))"

definition applyBulkAccess :: "(nat \<Rightarrow> string) \<Rightarrow> (string \<times> string \<Rightarrow> bool) option \<Rightarrow> string \<Rightarrow> string
    \<Rightarrow> access_resource list \<Rightarrow> access_audience \<Rightarrow> join_mode \<Rightarrow> access_state
    \<Rightarrow> manage_error + bulk_result \<times> bulk_calls \<times> access_state" where
  "applyBulkAccess newIds disconnectDoc orgId actor input audience mode st =
     (let resources = uniqueResources input; db = acDb st
      in case requireAccessManager db orgId actor of
           Some e \<Rightarrow> Inl e
         | None \<Rightarrow>
             (case validateResources db orgId resources of
                Some e \<Rightarrow> Inl e
              | None \<Rightarrow>
                  (case validateAudience db orgId audience actor of
                     Inl e \<Rightarrow> Inl e
                   | Inr selected \<Rightarrow>
                       (case bulkWrite newIds orgId actor resources audience selected mode st of
                          Inl e \<Rightarrow> Inl e
                        | Inr (cleared, st') \<Rightarrow>
                            (let docs = bulkDocs (acDb st') orgId resources
                             in Inr (\<lparr>brMode = mode, brResources = length resources, brCleared = cleared,
                                  brMembers = (case audience of
                                      Everyone \<Rightarrow> length (filter (\<lambda>m. mbOrg m = orgId) (members db))
                                    | People _ \<Rightarrow> length selected),
                                  brDisconnected = (case disconnectDoc of None \<Rightarrow> 0 | Some ok \<Rightarrow> length (filter ok docs))\<rparr>,
                                \<lparr>bcDisconnect = (if disconnectDoc = None then [] else docs),
                                 bcAclChanged = js_set_of (map snd docs)\<rparr>, st'))))))"

end
