(* ===== verification/Access_Rows.thy ===== *)
theory Access_Rows
  imports Access_Manage
begin

text \<open>
  What a bulk change leaves in the share table: the rows it does not replace, and one new row per
  selected resource and principal. The table stays well formed (\<open>stored_ok\<close>): one row per resource
  and principal, filed under the organization its resource belongs to.
\<close>

section \<open>Well-formed tables\<close>

definition resource_of :: "database \<Rightarrow> string \<Rightarrow> share_row \<Rightarrow> bool" where
  "resource_of db orgId r \<longleftrightarrow>
     (case srResourceType r of
        RVault \<Rightarrow> srResourceId r = orgId
      | RFolder \<Rightarrow> (\<forall>f \<in> set (folders db). fdId f = srResourceId r \<longrightarrow> vaultOrg db (fdVault f) = Some orgId)
      | RFile \<Rightarrow> (\<forall>n \<in> set (noteRows db). ntId n = srResourceId r \<longrightarrow> vaultOrg db (ntVault n) = Some orgId) \<and>
          (\<forall>f \<in> set (fileRows db). flId f = srResourceId r \<longrightarrow> vaultOrg db (flVault f) = Some orgId))"

definition stored_ok :: "access_state \<Rightarrow> bool" where
  "stored_ok st \<longleftrightarrow> distinct (map (\<lambda>s. share_key (ssRow s)) (acShares st)) \<and>
     (\<forall>s \<in> set (acShares st). resource_of (acDb st) (ssOrg s) (ssRow s))"

lemma accessDb_sel [simp]:
  "shares (accessDb st) = map ssRow (acShares st)" "folders (accessDb st) = folders (acDb st)"
  "noteRows (accessDb st) = noteRows (acDb st)" "fileRows (accessDb st) = fileRows (acDb st)"
  "vaults (accessDb st) = vaults (acDb st)" "members (accessDb st) = members (acDb st)"
  "memberSnapshots (accessDb st) = memberSnapshots (acDb st)"
  by (simp_all add: accessDb_def)

lemma stored_unique: "stored_ok st \<Longrightarrow> unique_shares (accessDb st)"
  by (simp add: stored_ok_def unique_shares_def comp_def)

section \<open>Subtrees\<close>

lemma descendLoop_closed:
  "set work \<subseteq> set acc \<Longrightarrow>
   (\<forall>f \<in> set (folders db). \<forall>p. fdParent f = Some p \<and> p \<in> set acc - set work \<longrightarrow> fdId f \<in> set acc) \<Longrightarrow>
   set acc \<subseteq> set (descendLoop db acc work) \<and>
   (\<forall>f \<in> set (folders db). \<forall>p. fdParent f = Some p \<and> p \<in> set (descendLoop db acc work) \<longrightarrow>
      fdId f \<in> set (descendLoop db acc work))"
proof (induction db acc work rule: descendLoop.induct)
  case (1 db acc work)
  have more: "set (descendRound db acc work) = {fdId f | f. f \<in> set (folders db) \<and> fdParent f \<in> Some ` set work \<and> fdId f \<notin> set acc}"
    by (auto simp: descendRound_def)
  show ?case
  proof (cases "descendRound db acc work = []")
    case True
    then have loop: "descendLoop db acc work = acc" by (simp add: descendLoop.simps)
    have "set (descendRound db acc work) = {}" using True by simp
    then show ?thesis using "1.prems"(2) unfolding loop more by auto
  next
    case False
    have loop: "descendLoop db acc work = descendLoop db (acc @ descendRound db acc work) (descendRound db acc work)"
      using False by (subst descendLoop.simps) (simp add: Let_def)
    have "\<forall>f \<in> set (folders db). \<forall>p. fdParent f = Some p \<and>
        p \<in> set (acc @ descendRound db acc work) - set (descendRound db acc work) \<longrightarrow> fdId f \<in> set (acc @ descendRound db acc work)"
      using "1.prems"(2) more by auto
    then show ?thesis using "1.IH" [OF refl False] unfolding loop by auto
  qed
qed

lemma descendants_closed:
  shows "f \<in> set (folders db) \<Longrightarrow> fdId f \<in> set seeds \<Longrightarrow> fdId f \<in> set (descendants db seeds)"
    and "f \<in> set (folders db) \<Longrightarrow> fdParent f = Some p \<Longrightarrow> p \<in> set (descendants db seeds) \<Longrightarrow> fdId f \<in> set (descendants db seeds)"
proof -
  define start where "start = remdups (map fdId (filter (\<lambda>f. fdId f \<in> set seeds) (folders db)))"
  have "set start \<subseteq> set (descendLoop db start start) \<and>
      (\<forall>f \<in> set (folders db). \<forall>p. fdParent f = Some p \<and> p \<in> set (descendLoop db start start) \<longrightarrow>
        fdId f \<in> set (descendLoop db start start))"
    by (rule descendLoop_closed) auto
  moreover have "descendants db seeds = descendLoop db start start" by (simp add: descendants_def start_def Let_def)
  moreover have "f \<in> set (folders db) \<Longrightarrow> fdId f \<in> set seeds \<Longrightarrow> fdId f \<in> set start" by (auto simp: start_def)
  ultimately show "f \<in> set (folders db) \<Longrightarrow> fdId f \<in> set seeds \<Longrightarrow> fdId f \<in> set (descendants db seeds)"
    "f \<in> set (folders db) \<Longrightarrow> fdParent f = Some p \<Longrightarrow> p \<in> set (descendants db seeds) \<Longrightarrow> fdId f \<in> set (descendants db seeds)"
    by auto
qed

text \<open>On a chain that passes a folder, everything up to it is in the folder's subtree.\<close>

lemma chain_descends:
  "chain_from db x ids \<Longrightarrow> i \<in> set ids \<Longrightarrow>
   (\<exists>j. x = Some j \<and> j \<in> set (descendants db [i])) \<and>
   (\<exists>as bs. ids = as @ i # bs \<and> set as \<subseteq> set (descendants db [i]))"
proof (induction rule: chain_from.induct)
  case (chain_step f ids)
  show ?case
  proof (cases "fdId f = i")
    case True
    have "fdId f \<in> set (descendants db [i])" using descendants_closed(1) [OF chain_step.hyps(1)] True by simp
    moreover have "\<exists>as bs. fdId f # ids = as @ i # bs \<and> set as \<subseteq> set (descendants db [i])"
      using True by (intro exI [of _ "[]"] exI [of _ ids]) simp
    ultimately show ?thesis by blast
  next
    case False
    then have "i \<in> set ids" using chain_step.prems by simp
    then obtain j as bs where j: "fdParent f = Some j" "j \<in> set (descendants db [i])" "ids = as @ i # bs" "set as \<subseteq> set (descendants db [i])"
      using chain_step.IH by blast
    have "fdId f \<in> set (descendants db [i])" by (rule descendants_closed(2) [OF chain_step.hyps(1) j(1,2)])
    moreover have "fdId f # ids = (fdId f # as) @ i # bs" using j(3) by simp
    ultimately show ?thesis using j(4) by (intro conjI exI) (rule refl, assumption+, simp)
  qed
qed simp_all

section \<open>The rows after a bulk change\<close>

definition replaced :: "database \<Rightarrow> string \<Rightarrow> access_resource list \<Rightarrow> string list \<Rightarrow> stored_share \<Rightarrow> bool" where
  "replaced db orgId resources userIds s \<longleftrightarrow>
     ssOrg s = orgId \<and> inAudience userIds (ssRow s) \<and> (\<exists>r \<in> set resources. overrideOn db orgId r (ssRow s))"

lemma clearAll_rows:
  "acShares (snd (clearAll orgId resources userIds (n, st))) = filter (\<lambda>s. \<not> replaced (acDb st) orgId resources userIds s) (acShares st) \<and>
   acDb (snd (clearAll orgId resources userIds (n, st))) = acDb st \<and>
   acSettings (snd (clearAll orgId resources userIds (n, st))) = acSettings st"
proof (induction resources arbitrary: n st)
  case Nil
  then show ?case by (simp add: clearAll_def replaced_def)
next
  case (Cons r resources)
  define st1 where "st1 = snd (clearResourceOverrides orgId r userIds st)"
  have step: "clearAll orgId (r # resources) userIds (n, st) =
      clearAll orgId resources userIds (n + fst (clearResourceOverrides orgId r userIds st), st1)"
    by (simp add: clearAll_def st1_def case_prod_beta)
  have st1: "acDb st1 = acDb st" "acSettings st1 = acSettings st"
    "acShares st1 = filter (\<lambda>s. \<not> (ssOrg s = orgId \<and> overrideOn (acDb st) orgId r (ssRow s) \<and> inAudience userIds (ssRow s))) (acShares st)"
    by (simp_all add: st1_def clearResourceOverrides_def Let_def)
  have "filter (\<lambda>s. \<not> replaced (acDb st) orgId resources userIds s) (acShares st1) =
      filter (\<lambda>s. \<not> replaced (acDb st) orgId (r # resources) userIds s) (acShares st)"
    unfolding st1 filter_filter by (rule filter_cong) (auto simp: replaced_def)
  then show ?case unfolding step using Cons.IH [of _ st1] st1 by simp
qed

lemma insertShares_rows:
  "insertShares ss rows = Some rows' \<Longrightarrow> distinct (map (\<lambda>s. share_key (ssRow s)) rows) \<Longrightarrow>
   rows' = rows @ ss \<and> distinct (map (\<lambda>s. share_key (ssRow s)) rows')"
proof (induction ss arbitrary: rows)
  case (Cons s ss)
  obtain r1 where r1: "insertShare s rows = Some r1" "insertShares ss r1 = Some rows'"
    using Cons.prems(1) by (auto split: option.splits)
  then have "r1 = rows @ [s]" "share_key (ssRow s) \<notin> (\<lambda>s. share_key (ssRow s)) ` set rows"
    by (auto simp: insertShare_def list_ex_iff split: if_splits)
  then have "distinct (map (\<lambda>s. share_key (ssRow s)) r1)" using Cons.prems(2) by simp
  note ih = Cons.IH [OF r1(2) this]
  have "rows' = r1 @ ss" "distinct (map (\<lambda>s. share_key (ssRow s)) rows')" by (rule ih [THEN conjunct1], rule ih [THEN conjunct2])
  then show ?case using \<open>r1 = rows @ [s]\<close> by simp
qed simp

lemma set_newShares:
  "s \<in> set (newShares newIds orgId actor resources pt pids mode rv) \<Longrightarrow>
     ssOrg s = orgId \<and> (\<exists>r \<in> set resources. \<exists>p \<in> set pids.
       ssRow s = \<lparr>srResourceType = rsType r, srResourceId = rsId r, srPrincipalType = pt, srPrincipalId = p,
         srPermission = bulkPermission (rsType r) mode, srRevision = rv\<rparr>)"
  and newShares_has: "r \<in> set resources \<Longrightarrow> p \<in> set pids \<Longrightarrow>
     \<lparr>srResourceType = rsType r, srResourceId = rsId r, srPrincipalType = pt, srPrincipalId = p,
       srPermission = bulkPermission (rsType r) mode, srRevision = rv\<rparr> \<in>
     ssRow ` set (newShares newIds orgId actor resources pt pids mode rv)"
proof -
  let ?xs = "concat (map (\<lambda>r. map (\<lambda>p. (r, p)) pids) resources)"
  have rows: "map ssRow (newShares newIds orgId actor resources pt pids mode rv) =
      map (\<lambda>(r, p). \<lparr>srResourceType = rsType r, srResourceId = rsId r, srPrincipalType = pt, srPrincipalId = p,
        srPermission = bulkPermission (rsType r) mode, srRevision = rv\<rparr>) ?xs"
    unfolding newShares_def by (subst (2) map_snd_enumerate [of 0 ?xs, symmetric]) (simp add: case_prod_beta del: map_snd_enumerate)
  show "\<lparr>srResourceType = rsType r, srResourceId = rsId r, srPrincipalType = pt, srPrincipalId = p,
       srPermission = bulkPermission (rsType r) mode, srRevision = rv\<rparr> \<in>
     ssRow ` set (newShares newIds orgId actor resources pt pids mode rv)"
    if "r \<in> set resources" "p \<in> set pids"
    unfolding set_map [symmetric] rows using that by force
  assume s: "s \<in> set (newShares newIds orgId actor resources pt pids mode rv)"
  then have "ssRow s \<in> set (map ssRow (newShares newIds orgId actor resources pt pids mode rv))" by simp
  moreover have "ssOrg s = orgId" using s by (auto simp: newShares_def)
  ultimately show "ssOrg s = orgId \<and> (\<exists>r \<in> set resources. \<exists>p \<in> set pids.
       ssRow s = \<lparr>srResourceType = rsType r, srResourceId = rsId r, srPrincipalType = pt, srPrincipalId = p,
         srPermission = bulkPermission (rsType r) mode, srRevision = rv\<rparr>)"
    unfolding rows by auto
qed

lemma nextAccessRevision_frame:
  "nextAccessRevision orgId st = Inr (rv, st1) \<Longrightarrow> acDb st1 = acDb st \<and> acShares st1 = acShares st"
  by (auto simp: nextAccessRevision_def Let_def updateSettings_def ensureSettings_def split: option.splits if_splits)

end
