(* ===== verification/Access_Effect.thy ===== *)
theory Access_Effect
  imports Access_Rows Gates_Frame
begin

text \<open>
  A bulk change, seen from the resolver: what \<open>applyBulkAccess\<close> checked, the share table it leaves,
  and the verdict of a selected person's rows along a document's folder chain.
\<close>

section \<open>A successful call\<close>

definition audiencePrincipals :: "string \<Rightarrow> access_audience \<Rightarrow> string list \<Rightarrow> string list" where
  "audiencePrincipals orgId audience selected = (case audience of Everyone \<Rightarrow> [orgId] | People _ \<Rightarrow> selected)"

definition audienceType :: "access_audience \<Rightarrow> principal_type" where
  "audienceType audience = (case audience of Everyone \<Rightarrow> POrg | People _ \<Rightarrow> PUser)"

lemma bulkWrite_rows:
  assumes w: "bulkWrite newIds orgId actor resources audience selected mode st = Inr (n, st')"
    and d: "distinct (map (\<lambda>s. share_key (ssRow s)) (acShares st))"
  shows "\<exists>rv. acShares st' = filter (\<lambda>s. \<not> replaced (acDb st) orgId resources selected s) (acShares st) @
      newShares newIds orgId actor resources (audienceType audience) (audiencePrincipals orgId audience selected) mode rv \<and>
    distinct (map (\<lambda>s. share_key (ssRow s)) (acShares st')) \<and>
    acDb st' = (if rsType (hd resources) = RVault
      then (acDb st)\<lparr>memberSnapshots := filter (\<lambda>s. \<not> (msOrg s = orgId \<and>
         (case audience of Everyone \<Rightarrow> True | People _ \<Rightarrow> msUser s \<in> set selected))) (memberSnapshots (acDb st))\<rparr>
      else acDb st)"
proof -
  obtain rv st1 where r: "nextAccessRevision orgId st = Inr (rv, st1)"
    using w by (auto simp: bulkWrite_def split: sum.splits)
  obtain m st2 where c: "clearAll orgId resources selected (0, st1) = (m, st2)" by fastforce
  have st1: "acDb st1 = acDb st" "acShares st1 = acShares st" using nextAccessRevision_frame [OF r] by auto
  have st2: "acShares st2 = filter (\<lambda>s. \<not> replaced (acDb st) orgId resources selected s) (acShares st)" "acDb st2 = acDb st"
    using clearAll_rows [of orgId resources selected 0 st1] c st1 by simp_all
  define st3 where "st3 = (if rsType (hd resources) = RVault then clearSnapshots orgId audience selected st2 else st2)"
  define ss where "ss = newShares newIds orgId actor resources (audienceType audience) (audiencePrincipals orgId audience selected) mode rv"
  have st3: "acShares st3 = acShares st2" by (simp add: st3_def clearSnapshots_def)
  obtain rows where ins: "insertShares ss (acShares st3) = Some rows" "st' = st3\<lparr>acShares := rows\<rparr>"
    using w by (auto simp: bulkWrite_def r c Let_def st3_def [symmetric] ss_def audienceType_def audiencePrincipals_def split: option.splits)
  have "distinct (map (\<lambda>s. share_key (ssRow s)) (acShares st3))"
    unfolding st3 st2(1) using d by (simp add: distinct_map_filter)
  note rows = insertShares_rows [OF ins(1) this]
  have "rows = acShares st3 @ ss" "distinct (map (\<lambda>s. share_key (ssRow s)) rows)"
    by (rule rows [THEN conjunct1], rule rows [THEN conjunct2])
  then show ?thesis
    using ins(2) st3 st2 by (intro exI [of _ rv]) (simp add: ss_def st3_def clearSnapshots_def)
qed

lemma bulk_facts:
  assumes "applyBulkAccess newIds hook orgId actor input audience mode st = Inr (res, calls, st')"
  shows "\<exists>selected. requireAccessManager (acDb st) orgId actor = None \<and>
    validateResources (acDb st) orgId (uniqueResources input) = None \<and>
    validateAudience (acDb st) orgId audience actor = Inr selected \<and>
    (\<exists>n. bulkWrite newIds orgId actor (uniqueResources input) audience selected mode st = Inr (n, st'))"
  using assms by (auto simp: applyBulkAccess_def Let_def split: option.splits sum.splits)

text \<open>Deduplication keeps one resource of each kind and id.\<close>

lemma set_js_put: "set (js_put k v m) \<subseteq> insert (k, v) (set m)"
  by (induction m) auto

lemma set_js_map_of: "set (js_map_of xs) \<subseteq> set xs"
proof -
  have "set (fold (\<lambda>(k, v). js_put k v) xs m) \<subseteq> set m \<union> set xs" for m
  proof (induction xs arbitrary: m)
    case (Cons x xs)
    obtain k v where x: "x = (k, v)" by fastforce
    show ?case using Cons.IH [of "js_put k v m"] set_js_put [of k v m] by (auto simp: x)
  qed simp
  from this [of "[]"] show ?thesis by (simp add: js_map_of_def)
qed

lemma uniqueResources_iff:
  "(\<exists>r \<in> set (uniqueResources input). rsType r = ty \<and> rsId r = i) \<longleftrightarrow> (\<exists>r \<in> set input. rsType r = ty \<and> rsId r = i)"
proof
  let ?xs = "map (\<lambda>r. ((rsType r, rsId r), r)) input"
  assume "\<exists>r \<in> set (uniqueResources input). rsType r = ty \<and> rsId r = i"
  then obtain k r where r: "(k, r) \<in> set (js_map_of ?xs)" "rsType r = ty" "rsId r = i"
    by (auto simp: uniqueResources_def)
  have "(k, r) \<in> set ?xs" using r(1) set_js_map_of by fast
  then show "\<exists>r \<in> set input. rsType r = ty \<and> rsId r = i" using r(2,3) by auto
next
  let ?xs = "map (\<lambda>r. ((rsType r, rsId r), r)) input"
  assume "\<exists>r \<in> set input. rsType r = ty \<and> rsId r = i"
  then have "(ty, i) \<in> fst ` set ?xs" by force
  then obtain r where r: "js_get (js_map_of ?xs) (ty, i) = Some r" using js_get_map_of_None [of ?xs "(ty, i)"] by fastforce
  have "((ty, i), r) \<in> set ?xs" by (rule js_get_map_of_mem [OF r])
  then have "rsType r = ty" "rsId r = i" by auto
  moreover have "r \<in> set (uniqueResources input)" using map_of_SomeD [OF r] by (force simp: uniqueResources_def)
  ultimately show "\<exists>r \<in> set (uniqueResources input). rsType r = ty \<and> rsId r = i" by blast
qed

lemma checkResources_info:
  "checkResources db orgId rs = None \<Longrightarrow> r \<in> set rs \<Longrightarrow>
     \<exists>info. resolveResource db (rsType r) (rsId r) = Some info \<and> riOrg info = orgId"
  by (induction rs) (auto split: option.splits if_splits)

lemma validated_resource:
  assumes "validateResources db orgId rs = None" "r \<in> set rs"
  shows "\<exists>info. resolveResource db (rsType r) (rsId r) = Some info \<and> riOrg info = orgId"
    and "rsType r = RVault \<Longrightarrow> rs = [r] \<and> rsId r = orgId"
proof -
  let ?v = "filter (\<lambda>r. rsType r = RVault) rs"
  have c: "checkResources db orgId rs = None" "rs \<noteq> []" "?v \<noteq> [] \<Longrightarrow> length rs = 1 \<and> rsId (hd ?v) = orgId"
    using assms(1) by (auto simp: validateResources_def Let_def split: if_splits)
  show "\<exists>info. resolveResource db (rsType r) (rsId r) = Some info \<and> riOrg info = orgId"
    by (rule checkResources_info [OF c(1) assms(2)])
  assume v: "rsType r = RVault"
  then have "?v \<noteq> []" using assms(2) by (auto simp: filter_empty_conv)
  then have "length rs = 1" "rsId (hd ?v) = orgId" using c(3) by auto
  moreover from \<open>length rs = 1\<close> have "rs = [r]" using assms(2) by (cases rs) auto
  ultimately show "rs = [r] \<and> rsId r = orgId" using v by simp
qed

section \<open>Verdicts\<close>

definition verdictOf :: "join_mode \<Rightarrow> user_item_verdict" where
  "verdictOf mode = (case mode of
       MPrivate \<Rightarrow> \<lparr>uvDeny = True, uvGrant = PermNone, uvCap = False\<rparr>
     | MReadonly \<Rightarrow> \<lparr>uvDeny = False, uvGrant = PermView, uvCap = True\<rparr>
     | MOpen \<Rightarrow> \<lparr>uvDeny = False, uvGrant = PermEdit, uvCap = False\<rparr>)"

lemma verdict_first:
  assumes "\<And>x r. x \<in> set xs \<Longrightarrow> row x = Some r \<Longrightarrow> srPermission r = storedPermission mode"
    and "row y = Some r" "srPermission r = storedPermission mode"
  shows "verdictLoop row (xs @ y # ys) False False = verdictOf mode"
  using assms(1)
proof (induction xs)
  case Nil
  then show ?case using assms(2,3) by (cases mode) (simp_all add: storedPermission_def verdictOf_def)
next
  case (Cons x xs)
  show ?case
  proof (cases "row x")
    case None
    have "verdictLoop row (xs @ y # ys) False False = verdictOf mode"
      by (rule Cons.IH) (rule Cons.prems, simp_all)
    then show ?thesis using None by simp
  next
    case (Some r')
    then have "srPermission r' = storedPermission mode" using Cons.prems [of x r'] by simp
    then show ?thesis using Some by (cases mode) (simp_all add: storedPermission_def verdictOf_def)
  qed
qed

text \<open>The resolver's answer when a person's own rows grant on the document.\<close>

lemma decide_own_grant:
  assumes u: "unique_shares db" and g: "uvGrant (itemVerdict db user (Some d) ids) = g" "g \<noteq> PermNone"
    and edit: "g = PermEdit \<or> isLocked db user (Some d) ids"
  shows "decideDoc db user d loc ids None facts = (if isLocked db user (Some d) ids then PermView else PermEdit)"
proof -
  define lk where "lk = isLocked db user (Some d) ids"
  have ne: "askGrant db user d ids o' None m oga s t ovc \<noteq> PermNone" for o' m oga s t ovc
    using g by (simp add: askGrant_def sharePermission_query [OF u] grantNF_def)
  have full: "askGrant db user d ids o' None m oga s t ovc = PermEdit" if "\<not> lk" for o' m oga s t ovc
    using that edit g by (auto simp: lk_def askGrant_def sharePermission_query [OF u] grantNF_def)
  have lock: "askLocked db user d ids None = lk" by (simp add: askLocked_def lk_def)
  have cap: "(if x \<noteq> PermNone \<and> lk then PermView else x) = (if lk then PermView else PermEdit)"
    if "x \<noteq> PermNone" "\<not> lk \<Longrightarrow> x = PermEdit" for x using that by simp
  have out: "(if lk then PermView else PermEdit) = (if isLocked db user (Some d) ids then PermView else PermEdit)" by (simp add: lk_def)
  show ?thesis
    unfolding decideDoc_def Let_def lock out [symmetric]
    by (cases "askPersonal db user (dlOrg loc) None"; 
        cases "case mfSnapshot facts of None \<Rightarrow> False | Some s \<Rightarrow> dlCreatedAt loc \<le> snAt s")
       (simp only: option.case if_True if_False; intro cap; simp add: ne full)+
qed

end
