(* ===== verification/Access_Cover.thy ===== *)
theory Access_Cover
  imports Access_Effect
begin

text \<open>
  What a bulk change leaves on one document: the rows of a selected person from the document up to a
  selected folder are all the new ones, and after a change of the whole vault only the new row is left.
\<close>

section \<open>Well-formed trees\<close>

definition tree_ok :: "database \<Rightarrow> bool" where
  "tree_ok db \<longleftrightarrow> unique_folders db \<and> named_folders db \<and> same_vault db \<and> unique_docs db \<and> named_vaults db"

definition covered :: "access_resource list \<Rightarrow> string \<Rightarrow> string list \<Rightarrow> bool" where
  "covered resources d ids \<longleftrightarrow>
     (\<exists>r \<in> set resources. (rsType r = RFile \<and> rsId r = d) \<or> (rsType r = RFolder \<and> rsId r \<in> set ids))"

lemma covered_unique [simp]: "covered (uniqueResources input) d ids \<longleftrightarrow> covered input d ids"
proof -
  have "covered rs d ids \<longleftrightarrow> (\<exists>r \<in> set rs. rsType r = RFile \<and> rsId r = d) \<or>
      (\<exists>i \<in> set ids. \<exists>r \<in> set rs. rsType r = RFolder \<and> rsId r = i)" for rs
    unfolding covered_def by blast
  then show ?thesis by (simp only: uniqueResources_iff)
qed

section \<open>The document and its folders\<close>

definition placed :: "database \<Rightarrow> string \<Rightarrow> string option \<Rightarrow> string \<Rightarrow> string list \<Rightarrow> bool" where
  "placed db d x orgId ids \<longleftrightarrow>
     (\<exists>v. vaultOrg db v = Some orgId \<and>
        ((\<exists>n \<in> set (noteRows db). ntId n = d \<and> ntVault n = v \<and> ntFolder n = x) \<or>
         (\<exists>f \<in> set (fileRows db). flId f = d \<and> flVault f = v \<and> flFolder f = x))) \<and> chain_from db x ids"

lemma located_placed:
  assumes "tree_ok db" "locateDoc db d False = Some loc" "ancestorFolderIds db (dlFolder loc) = Some ids"
  shows "placed db d (dlFolder loc) (dlOrg loc) ids"
proof -
  have u: "unique_folders db" "named_folders db" using assms(1) by (simp_all add: tree_ok_def)
  have "chain_from db (dlFolder loc) ids" using assms(3) ancestorFolderIds_iff [OF u] by blast
  then show ?thesis using located_liveDoc [OF assms(2)] unfolding placed_def liveDoc_def by blast
qed

lemma placed_folders:
  assumes t: "tree_ok db" and p: "placed db d x orgId ids" and i: "i \<in> set ids" "f \<in> set (folders db)" "fdId f = i"
  shows "vaultOrg db (fdVault f) = Some orgId"
proof -
  have sv: "same_vault db" and u: "unique_folders db" using t by (simp_all add: tree_ok_def)
  obtain v where v: "vaultOrg db v = Some orgId" "chain_from db x ids"
    "(\<exists>n \<in> set (noteRows db). ntId n = d \<and> ntVault n = v \<and> ntFolder n = x) \<or>
     (\<exists>f \<in> set (fileRows db). flId f = d \<and> flVault f = v \<and> flFolder f = x)"
    using p unfolding placed_def by blast
  have "fdVault g = v" if "g \<in> set (folders db)" "x = Some (fdId g)" for g
    using v(3) sv that by (auto simp: same_vault_def)
  then obtain g where g: "g \<in> set (folders db)" "fdId g = i" "fdVault g = v"
    using chain_same_vault [OF sv v(2)] i(1) by blast
  have "f = g" by (rule folder_unique [OF u i(2) g(1)]) (simp add: i(3) g(2))
  then show ?thesis using g(3) v(1) by simp
qed

lemma placed_notes:
  assumes t: "tree_ok db" and p: "placed db d x orgId ids"
  shows "n \<in> set (noteRows db) \<Longrightarrow> ntId n = d \<Longrightarrow> vaultOrg db (ntVault n) = Some orgId"
    and "f \<in> set (fileRows db) \<Longrightarrow> flId f = d \<Longrightarrow> vaultOrg db (flVault f) = Some orgId"
proof -
  have u: "unique_docs db" using t by (simp add: tree_ok_def)
  obtain v where v: "vaultOrg db v = Some orgId"
    "(\<exists>n \<in> set (noteRows db). ntId n = d \<and> ntVault n = v \<and> ntFolder n = x) \<or>
     (\<exists>f \<in> set (fileRows db). flId f = d \<and> flVault f = v \<and> flFolder f = x)"
    using p unfolding placed_def by blast
  show "vaultOrg db (ntVault n) = Some orgId" if n: "n \<in> set (noteRows db)" "ntId n = d" for n
    using v(2)
  proof (elim disjE bexE conjE)
    fix m assume m: "m \<in> set (noteRows db)" "ntId m = d" "ntVault m = v"
    have "n = m" by (rule note_id_unique [OF u n(1) m(1)]) (simp add: n(2) m(2))
    then show ?thesis using m(3) v(1) by simp
  next
    fix m assume m: "m \<in> set (fileRows db)" "flId m = d"
    then show ?thesis using note_not_file [OF u n(1) m(1)] n(2) by simp
  qed
  show "vaultOrg db (flVault f) = Some orgId" if f: "f \<in> set (fileRows db)" "flId f = d" for f
    using v(2)
  proof (elim disjE bexE conjE)
    fix m assume m: "m \<in> set (fileRows db)" "flId m = d" "flVault m = v"
    have "f = m" by (rule file_id_unique [OF u f(1) m(1)]) (simp add: f(2) m(2))
    then show ?thesis using m(3) v(1) by simp
  next
    fix m assume m: "m \<in> set (noteRows db)" "ntId m = d"
    then show ?thesis using note_not_file [OF u m(1) f(1)] f(2) by simp
  qed
qed

text \<open>What is filed on the document or its folders is filed under its organization.\<close>

lemma placed_resource:
  assumes t: "tree_ok db" and p: "placed db d x orgId ids" and on: "onItem (Some d) ids q" and res: "resource_of db o' q"
  shows "o' = orgId"
proof (cases "srResourceType q")
  case RFolder
  have c: "chain_from db x ids" using p by (simp add: placed_def)
  have i: "srResourceId q \<in> set ids" using on RFolder by (simp add: onItem_def)
  then obtain f where f: "f \<in> set (folders db)" "fdId f = srResourceId q"
    using chain_from_folders [OF c] by fastforce
  have "vaultOrg db (fdVault f) = Some orgId" by (rule placed_folders [OF t p i f])
  moreover have "vaultOrg db (fdVault f) = Some o'" using res f RFolder by (simp add: resource_of_def)
  ultimately show ?thesis by simp
next
  case RFile
  then have d: "srResourceId q = d" using on by (simp add: onItem_def)
  have "(\<exists>n \<in> set (noteRows db). ntId n = d) \<or> (\<exists>f \<in> set (fileRows db). flId f = d)"
    using p unfolding placed_def by blast
  then show ?thesis
  proof (elim disjE bexE)
    fix n assume n: "n \<in> set (noteRows db)" "ntId n = d"
    then show ?thesis using placed_notes(1) [OF t p n] res RFile d by (simp add: resource_of_def)
  next
    fix n assume n: "n \<in> set (fileRows db)" "flId n = d"
    then show ?thesis using placed_notes(2) [OF t p n] res RFile d by (simp add: resource_of_def)
  qed
qed (use on in \<open>simp add: onItem_def\<close>)

lemma placed_org:
  assumes "tree_ok (acDb st)" "stored_ok st" "placed (acDb st) d x orgId ids"
    and "s \<in> set (acShares st)" "onItem (Some d) ids (ssRow s)"
  shows "ssOrg s = orgId"
  by (rule placed_resource [OF assms(1,3,5)]) (use assms(2,4) in \<open>simp add: stored_ok_def\<close>)

section \<open>What a resource resolves to\<close>

lemma resolved_org:
  assumes t: "tree_ok db" and i: "resolveResource db (srResourceType r) (srResourceId r) = Some info"
  shows "resource_of db (riOrg info) r"
proof (cases "srResourceType r")
  case RVault
  then show ?thesis using i by (auto simp: resolveResource_def resource_of_def)
next
  case RFolder
  have u: "unique_folders db" using t by (simp add: tree_ok_def)
  obtain f where f: "first_row (\<lambda>f. fdId f = srResourceId r \<and> vaultOrg db (fdVault f) \<noteq> None) (folders db) = Some f"
    "riOrg info = the (vaultOrg db (fdVault f))" using i RFolder by (auto simp: resolveResource_def)
  have f': "f \<in> set (folders db)" "fdId f = srResourceId r" "vaultOrg db (fdVault f) \<noteq> None"
    using first_row_Some [OF f(1)] by auto
  have "vaultOrg db (fdVault g) = Some (riOrg info)" if g: "g \<in> set (folders db)" "fdId g = srResourceId r" for g
  proof -
    have "g = f" by (rule folder_unique [OF u g(1) f'(1)]) (simp add: g(2) f'(2))
    then show ?thesis using f(2) f'(3) by auto
  qed
  then show ?thesis using RFolder by (simp add: resource_of_def)
next
  case RFile
  have u: "unique_docs db" using t by (simp add: tree_ok_def)
  let ?N = "\<lambda>n. map_option (\<lambda>o'. \<lparr>riVault = ntVault n, riOrg = o', riCreatedBy = ntCreatedBy n\<rparr>) (vaultOrg db (ntVault n))"
  let ?F = "\<lambda>f. map_option (\<lambda>o'. \<lparr>riVault = flVault f, riOrg = o', riCreatedBy = None\<rparr>) (vaultOrg db (flVault f))"
  have "info \<in> set (List.map_filter ?N (filter (\<lambda>n. ntId n = srResourceId r) (noteRows db)) @
      List.map_filter ?F (filter (\<lambda>f. flId f = srResourceId r) (fileRows db)))"
    using i RFile by (auto simp: resolveResource_def dest: first_row_Some)
  then have "(\<exists>n. n \<in> set (noteRows db) \<and> ntId n = srResourceId r \<and> vaultOrg db (ntVault n) = Some (riOrg info)) \<or>
      (\<exists>f. f \<in> set (fileRows db) \<and> flId f = srResourceId r \<and> vaultOrg db (flVault f) = Some (riOrg info))"
    unfolding set_append Un_iff List.map_filter_def set_map set_filter by fastforce
  then show ?thesis
  proof (elim disjE exE conjE)
    fix n assume n: "n \<in> set (noteRows db)" "ntId n = srResourceId r" "vaultOrg db (ntVault n) = Some (riOrg info)"
    have "m = n" if "m \<in> set (noteRows db)" "ntId m = srResourceId r" for m
      by (rule note_id_unique [OF u that(1) n(1)]) (simp add: n(2) that(2))
    moreover have "flId f \<noteq> srResourceId r" if "f \<in> set (fileRows db)" for f
      using note_not_file [OF u n(1) that] n(2) by simp
    ultimately show ?thesis using RFile n(3) unfolding resource_of_def by auto
  next
    fix f assume f: "f \<in> set (fileRows db)" "flId f = srResourceId r" "vaultOrg db (flVault f) = Some (riOrg info)"
    have "g = f" if "g \<in> set (fileRows db)" "flId g = srResourceId r" for g
      by (rule file_id_unique [OF u that(1) f(1)]) (simp add: f(2) that(2))
    moreover have "ntId n \<noteq> srResourceId r" if "n \<in> set (noteRows db)" for n
      using note_not_file [OF u that f(1)] f(2) by simp
    ultimately show ?thesis using RFile f(3) unfolding resource_of_def by auto
  qed
qed

lemma resource_of_frame:
  "folders db' = folders db \<Longrightarrow> noteRows db' = noteRows db \<Longrightarrow> fileRows db' = fileRows db \<Longrightarrow> vaults db' = vaults db \<Longrightarrow>
   resource_of db' o' r = resource_of db o' r"
  by (simp add: resource_of_def vaultOrg_def cong: resource_type.case_cong)

text \<open>The organization a selected resource resolves to is the document's.\<close>

lemma covered_org:
  assumes t: "tree_ok db" and p: "placed db d x o' ids" and v: "validateResources db orgId rs = None" and c: "covered rs d ids"
  shows "o' = orgId" and "rsType (hd rs) \<noteq> RVault"
proof -
  obtain r where r: "r \<in> set rs" "(rsType r = RFile \<and> rsId r = d) \<or> (rsType r = RFolder \<and> rsId r \<in> set ids)"
    using c unfolding covered_def by blast
  let ?q = "\<lparr>srResourceType = rsType r, srResourceId = rsId r, srPrincipalType = PUser, srPrincipalId = [], srPermission = SView, srRevision = 0\<rparr>"
  obtain info where info: "resolveResource db (rsType r) (rsId r) = Some info" "riOrg info = orgId"
    using validated_resource(1) [OF v r(1)] by blast
  have "resource_of db (riOrg info) ?q" by (rule resolved_org [OF t]) (simp add: info(1))
  moreover have "onItem (Some d) ids ?q" using r(2) by (auto simp: onItem_def)
  ultimately have "riOrg info = o'" using placed_resource [OF t p] by blast
  then show "o' = orgId" using info(2) by simp
  show "rsType (hd rs) \<noteq> RVault"
  proof
    assume h: "rsType (hd rs) = RVault"
    have "rs \<noteq> []" using r(1) by auto
    then have "rs = [hd rs]" using validated_resource(2) [OF v, of "hd rs"] h by simp
    then have "r = hd rs" using r(1) by (metis list.set_sel(1) list.simps(15) set_ConsD empty_iff empty_set)
    then show False using r(2) h by simp
  qed
qed

end
