(* ===== verification/Access_People.thy ===== *)
theory Access_People
  imports Access_Cover
begin

text \<open>
  A bulk change for named people: their verdict on a covered document is the chosen mode.
\<close>

text \<open>The item order, split at a selected resource: everything up to it is replaced.\<close>

lemma covered_split:
  assumes p: "placed db d x o' ids" and c: "covered rs d ids"
  shows "\<exists>xs r ys. r \<in> set rs \<and> rsType r \<noteq> RVault \<and> itemOrder (Some d) ids = xs @ (rsType r, rsId r) # ys \<and>
    (\<forall>q. (srResourceType q, srResourceId q) \<in> set (xs @ [(rsType r, rsId r)]) \<longrightarrow> overrideOn db orgId r q)"
proof -
  obtain r where r: "r \<in> set rs" "(rsType r = RFile \<and> rsId r = d) \<or> (rsType r = RFolder \<and> rsId r \<in> set ids)"
    using c unfolding covered_def by blast
  show ?thesis using r(2)
  proof
    assume f: "rsType r = RFile \<and> rsId r = d"
    show ?thesis
      by (intro exI [of _ "[]"] exI [of _ r] exI [of _ "map (Pair RFolder) ids"])
         (use f r(1) in \<open>simp add: itemOrder_def overrideOn_def\<close>)
  next
    assume f: "rsType r = RFolder \<and> rsId r \<in> set ids"
    let ?F = "rsId r"
    have ch: "chain_from db x ids" using p by (simp add: placed_def)
    obtain j as bs where j: "x = Some j" "j \<in> set (descendants db [?F])" "ids = as @ ?F # bs" "set as \<subseteq> set (descendants db [?F])"
      using chain_descends [OF ch] f by blast
    obtain g where "g \<in> set (folders db)" "fdId g = ?F" using chain_from_folders [OF ch] f by fastforce
    then have self: "?F \<in> set (descendants db [?F])" using descendants_closed(1) [of g db "[?F]"] by simp
    have doc: "(\<exists>n \<in> set (noteRows db). ntId n = d \<and> inFolders (descendants db [?F]) (ntFolder n)) \<or>
        (\<exists>n \<in> set (fileRows db). flId n = d \<and> inFolders (descendants db [?F]) (flFolder n))"
      using p j(1,2) by (fastforce simp: placed_def inFolders_def)
    let ?xs = "(RFile, d) # map (Pair RFolder) as"
    have "overrideOn db orgId r q" if q: "(srResourceType q, srResourceId q) \<in> set (?xs @ [(RFolder, ?F)])" for q
    proof -
      have "(srResourceType q = RFile \<and> srResourceId q = d) \<or> (srResourceType q = RFolder \<and> srResourceId q \<in> set (descendants db [?F]))"
        using q j(4) self by auto
      then show ?thesis using doc f unfolding overrideOn_def onFolderTree_def list_ex_iff Let_def by auto
    qed
    moreover have "itemOrder (Some d) ids = ?xs @ (RFolder, ?F) # map (Pair RFolder) bs"
      unfolding j(3) itemOrder_def by simp
    ultimately show ?thesis using r(1) f by (intro exI [of _ ?xs] exI [of _ r] exI [of _ "map (Pair RFolder) bs"]) simp
  qed
qed

lemma userRow_mem:
  "userRow rows u z = Some q \<Longrightarrow> q \<in> set rows \<and> (srResourceType q, srResourceId q) = z \<and> srPrincipalType q = PUser \<and> srPrincipalId q = u"
  by (cases z) (auto simp: userRow_def dest: first_row_Some)

lemma userRow_exists:
  "q \<in> set rows \<Longrightarrow> srPrincipalType q = PUser \<Longrightarrow> srPrincipalId q = u \<Longrightarrow>
     \<exists>q'. userRow rows u (srResourceType q, srResourceId q) = Some q'"
  by (cases "userRow rows u (srResourceType q, srResourceId q)") (auto simp: userRow_def first_row_None)

lemma people_verdict:
  assumes t: "tree_ok (acDb st)" and ok: "stored_ok st" and p: "placed (acDb st) d x orgId ids"
    and w: "bulkWrite newIds orgId actor rs (People us) sel mode st = Inr (n, st')"
    and c: "covered rs d ids" and u: "user \<in> set sel"
  shows "unique_shares (accessDb st')" and "itemVerdict (accessDb st') user (Some d) ids = verdictOf mode"
proof -
  obtain rv where rows: "acShares st' = filter (\<lambda>s. \<not> replaced (acDb st) orgId rs sel s) (acShares st) @
      newShares newIds orgId actor rs PUser sel mode rv" "distinct (map (\<lambda>s. share_key (ssRow s)) (acShares st'))"
    using bulkWrite_rows [OF w] ok by (auto simp: stored_ok_def audienceType_def audiencePrincipals_def)
  show "unique_shares (accessDb st')" using rows(2) by (simp add: unique_shares_def comp_def)
  obtain xs r ys where r: "r \<in> set rs" "rsType r \<noteq> RVault" "itemOrder (Some d) ids = xs @ (rsType r, rsId r) # ys"
    "\<forall>q. (srResourceType q, srResourceId q) \<in> set (xs @ [(rsType r, rsId r)]) \<longrightarrow> overrideOn (acDb st) orgId r q"
    using covered_split [OF p c] by blast
  let ?row = "userRow (shares (accessDb st')) user"
  have mode: "srPermission q = storedPermission mode" if z: "z \<in> set (xs @ [(rsType r, rsId r)])" "?row z = Some q" for z q
  proof -
    have q: "q \<in> set (shares (accessDb st'))" "(srResourceType q, srResourceId q) = z" "srPrincipalType q = PUser" "srPrincipalId q = user"
      using userRow_mem [OF z(2)] by auto
    then obtain s where s: "s \<in> set (acShares st')" "q = ssRow s" by auto
    have item: "z \<in> set (itemOrder (Some d) ids)" using z(1) r(3) by auto
    have on: "onItem (Some d) ids q" using item q(2) itemOrder_onItem by blast
    have over: "overrideOn (acDb st) orgId r q" using r(4) z(1) q(2) by blast
    have "replaced (acDb st) orgId rs sel s" if "s \<in> set (acShares st)"
      unfolding replaced_def inAudience_def using placed_org [OF t ok p that] on s(2) over r(1) q(3,4) u by blast
    then have "s \<in> set (newShares newIds orgId actor rs PUser sel mode rv)" using s(1) rows(1) by auto
    then have "srPermission q = bulkPermission (srResourceType q) mode" unfolding s(2) by (auto dest: set_newShares)
    moreover have "srResourceType q \<noteq> RVault" using on by (auto simp: onItem_def)
    ultimately show ?thesis by (simp add: bulkPermission_def)
  qed
  let ?new = "\<lparr>srResourceType = rsType r, srResourceId = rsId r, srPrincipalType = PUser, srPrincipalId = user,
       srPermission = bulkPermission (rsType r) mode, srRevision = rv\<rparr>"
  have "?new \<in> set (shares (accessDb st'))"
    using newShares_has [OF r(1) u, of PUser mode rv newIds orgId actor] rows(1) by auto
  from userRow_exists [OF this, of user] obtain q where q: "?row (rsType r, rsId r) = Some q" by auto
  have "verdictLoop ?row (xs @ (rsType r, rsId r) # ys) False False = verdictOf mode"
    by (rule verdict_first [where row = ?row and y = "(rsType r, rsId r)" and r = q]) (use mode q in auto)
  then show "itemVerdict (accessDb st') user (Some d) ids = verdictOf mode"
    by (simp add: itemVerdict_def userItemVerdict_def r(3))
qed

text \<open>The tree a change leaves is the tree it found.\<close>

lemma placed_frame:
  "folders db' = folders db \<Longrightarrow> noteRows db' = noteRows db \<Longrightarrow> fileRows db' = fileRows db \<Longrightarrow> vaults db' = vaults db \<Longrightarrow>
   chain_from db' x ids \<Longrightarrow> chain_from db x ids"
proof (rotate_tac -1, induction rule: chain_from.induct)
  case (chain_step f ids)
  then show ?case by (intro chain_from.chain_step) simp_all
qed (auto intro: chain_from.intros)

lemma tree_ok_frame:
  assumes "folders db' = folders db" "noteRows db' = noteRows db" "fileRows db' = fileRows db" "vaults db' = vaults db"
  shows "tree_ok db' = tree_ok db" and "placed db' d x o' ids = placed db d x o' ids"
proof -
  have v: "vaultOrg db' = vaultOrg db" by (intro ext) (simp add: vaultOrg_def assms)
  show "tree_ok db' = tree_ok db"
    by (simp add: tree_ok_def unique_folders_def named_folders_def same_vault_def unique_docs_def named_vaults_def assms)
  have "chain_from db' x ids = chain_from db x ids"
    using placed_frame [of db' db x ids] placed_frame [of db db' x ids] assms by auto
  then show "placed db' d x o' ids = placed db d x o' ids" by (simp add: placed_def v assms)
qed

end
