(* ===== verification/Access_Vault.thy ===== *)
theory Access_Vault
  imports Access_People
begin

text \<open>
  A bulk change of the whole vault for everyone: one row decides every document of it.
\<close>

definition onlyRow :: "database \<Rightarrow> string \<Rightarrow> string \<Rightarrow> string list \<Rightarrow> share_row \<Rightarrow> bool" where
  "onlyRow db d orgId ids q \<longleftrightarrow> q \<in> set (shares db) \<and> srResourceType q = RVault \<and> srResourceId q = orgId \<and>
     srPrincipalType q = POrg \<and> srPrincipalId q = orgId \<and>
     (\<forall>r \<in> set (shares db). onItem (Some d) ids r \<or> vaultRow orgId r \<longrightarrow> r = q)"

lemma onlyRow_verdict:
  assumes "onlyRow db d orgId ids q"
  shows "itemVerdict db user (Some d) ids = \<lparr>uvDeny = False, uvGrant = PermNone, uvCap = False\<rparr>"
proof -
  have q: "srResourceType q = RVault" using assms by (simp add: onlyRow_def)
  have "userRow (shares db) user z = None" if z: "z \<in> set (itemOrder (Some d) ids)" for z
  proof (rule ccontr)
    assume "userRow (shares db) user z \<noteq> None"
    then obtain r where r: "userRow (shares db) user z = Some r" by blast
    have "onItem (Some d) ids r" using userRow_mem [OF r] z itemOrder_onItem [of r "Some d" ids] by simp
    then have "r = q" using userRow_mem [OF r] assms by (simp add: onlyRow_def)
    then show False using \<open>onItem (Some d) ids r\<close> q by (simp add: onItem_def)
  qed
  then have "itemVerdict db user (Some d) ids = verdictLoop (\<lambda>_. None) (itemOrder (Some d) ids) False False"
    unfolding itemVerdict_def userItemVerdict_def by (rule verdictLoop_cong)
  then show ?thesis by (simp add: verdictLoop_none)
qed

lemma onlyRow_facts:
  assumes u: "unique_shares db" and q: "onlyRow db d orgId ids q"
  shows "isDenied db PUser user (Some d) ids = False" "isDenied db POrg orgId (Some d) ids = False"
    "isLocked db user (Some d) ids = False" "personalVaultLevel db orgId user = None"
    "vaultBaseline db orgId = postureOf (Some (srPermission q))"
    "sharePermission db user (Some d) ids orgId m oga s t None True =
       (if m \<and> oga then grantOf (liveGrant s t) (if srPermission q = SDenied \<or> srPermission q = SLocked then {} else {q}) else PermNone)"
proof -
  have only: "r = q" if "r \<in> set (shares db)" "onItem (Some d) ids r \<or> vaultRow orgId r" for r
    using q that unfolding onlyRow_def by blast
  have sel: "q \<in> set (shares db)" "srResourceType q = RVault" "srResourceId q = orgId" "srPrincipalType q = POrg" "srPrincipalId q = orgId"
    using q by (simp_all add: onlyRow_def)
  have no: "\<not> onItem (Some d) ids r" if "r \<in> set (shares db)" for r
    using only [OF that] sel(2) by (auto simp: onItem_def)
  show "isDenied db PUser user (Some d) ids = False" by (simp add: isDenied_user [OF u] onlyRow_verdict [OF q])
  show "isDenied db POrg orgId (Some d) ids = False" unfolding isDenied_org using no by blast
  show "isLocked db user (Some d) ids = False"
    using no by (simp add: isLocked_iff [OF u] onlyRow_verdict [OF q] orgLocked_def)
  have "first_row (personalRow user orgId) (shares db) = None"
    unfolding first_row_None
  proof (intro ballI notI)
    fix r assume r: "r \<in> set (shares db)" "personalRow user orgId r"
    have "r = q" by (rule only [OF r(1)]) (use r(2) in \<open>simp add: personalRow_def vaultRow_def\<close>)
    then show False using r(2) sel(4) by (simp add: personalRow_def)
  qed
  then show "personalVaultLevel db orgId user = None" by (simp add: personalVaultLevel_def personalLevelOf_def)
  show "vaultBaseline db orgId = postureOf (Some (srPermission q))"
  proof (cases "srPermission q = SView \<or> srPermission q = SEdit \<or> srPermission q = SDenied")
    case True
    have "first_row (\<lambda>r. srResourceType r = RVault \<and> srResourceId r = orgId \<and> srPrincipalType r = POrg \<and>
        (srPermission r = SView \<or> srPermission r = SEdit \<or> srPermission r = SDenied)) (shares db) = Some q"
      by (rule first_row_unique [OF sel(1)]; (rule only)?) (use sel True in \<open>simp_all add: vaultRow_def\<close>)
    then show ?thesis by (simp add: vaultBaseline_def)
  next
    case False
    have "first_row (\<lambda>r. srResourceType r = RVault \<and> srResourceId r = orgId \<and> srPrincipalType r = POrg \<and>
        (srPermission r = SView \<or> srPermission r = SEdit \<or> srPermission r = SDenied)) (shares db) = None"
      unfolding first_row_None using only False unfolding vaultRow_def by blast
    then show ?thesis using False by (simp add: vaultBaseline_def postureOf_def)
  qed
  have "grantRows db user (Some d) ids orgId oc True =
      (if oc \<and> srPermission q \<noteq> SDenied \<and> srPermission q \<noteq> SLocked then {q} else {})" for oc
  proof -
    have "r \<in> grantRows db user (Some d) ids orgId oc True \<longleftrightarrow> r = q \<and> oc \<and> srPermission q \<noteq> SDenied \<and> srPermission q \<noteq> SLocked" for r
    proof
      assume r: "r \<in> grantRows db user (Some d) ids orgId oc True"
      then have "r = q" unfolding grantRows_def mem_Collect_eq by (intro only) blast+
      then show "r = q \<and> oc \<and> srPermission q \<noteq> SDenied \<and> srPermission q \<noteq> SLocked"
        using r sel(4) by (auto simp: grantRows_def grantBase_def)
    next
      assume "r = q \<and> oc \<and> srPermission q \<noteq> SDenied \<and> srPermission q \<noteq> SLocked"
      then show "r \<in> grantRows db user (Some d) ids orgId oc True"
        using sel by (cases "srPermission q") (simp_all add: grantRows_def grantBase_def vaultRow_def)
    qed
    then show ?thesis by (intro set_eqI) simp
  qed
  then show "sharePermission db user (Some d) ids orgId m oga s t None True =
       (if m \<and> oga then grantOf (liveGrant s t) (if srPermission q = SDenied \<or> srPermission q = SLocked then {} else {q}) else PermNone)"
    by (cases "m \<and> oga") (auto simp: sharePermission_query [OF u] grantNF_def onlyRow_verdict [OF q] grantOf_def)
qed

lemma onlyRow_decision:
  assumes u: "unique_shares db" and q: "onlyRow db d (dlOrg loc) ids q"
    and snap: "memberAccessSnapshot db (dlOrg loc) user = None" and m: "srPermission q = bulkPermission RVault mode"
  shows "freshDecision db user d loc ids =
    (if memberRole db (dlOrg loc) user = None then PermNone
     else case mode of MPrivate \<Rightarrow> PermNone | MReadonly \<Rightarrow> PermView | MOpen \<Rightarrow> PermEdit)"
proof -
  note f = onlyRow_facts [OF u q]
  have asks: "askDenied db d ids None POrg (dlOrg loc) = False" "askLocked db user d ids None = False"
    "askPersonal db user (dlOrg loc) None = None"
    "askGrant db user d ids (dlOrg loc) None m' oga s t True =
      (if m' \<and> oga then grantOf (liveGrant s t) (if srPermission q = SDenied \<or> srPermission q = SLocked then {} else {q}) else PermNone)"
    for m' oga s t by (simp_all add: askDenied_def askLocked_def askPersonal_def askGrant_def f)
  have facts: "mfRole (freshFacts db (dlOrg loc) user) = memberRole db (dlOrg loc) user"
    "mfSnapshot (freshFacts db (dlOrg loc) user) = None"
    "mfBaseline (freshFacts db (dlOrg loc) user) = postureOf (Some (bulkPermission RVault mode))"
    by (simp_all add: freshFacts_def snap f(5) m)
  show ?thesis
    unfolding freshDecision_def f(1) if_False decideDoc_def Let_def asks facts option.case m
    by (cases mode) (simp_all add: bulkPermission_def storedPermission_def postureOf_def grantOf_def liveGrant_def m)
qed

section \<open>The row the change leaves\<close>

lemma vault_rows:
  assumes t: "tree_ok (acDb st)" and ok: "stored_ok st" and p: "placed (acDb st) d x orgId ids"
    and w: "bulkWrite newIds orgId actor [\<lparr>rsType = RVault, rsId = orgId\<rparr>] Everyone [] mode st = Inr (n, st')"
  shows "\<exists>q. onlyRow (accessDb st') d orgId ids q \<and> srPermission q = bulkPermission RVault mode"
    and "unique_shares (accessDb st')" and "memberAccessSnapshot (accessDb st') orgId user = None"
proof -
  let ?rs = "[\<lparr>rsType = RVault, rsId = orgId\<rparr>]"
  obtain rv where rows: "acShares st' = filter (\<lambda>s. \<not> replaced (acDb st) orgId ?rs [] s) (acShares st) @
      newShares newIds orgId actor ?rs POrg [orgId] mode rv" "distinct (map (\<lambda>s. share_key (ssRow s)) (acShares st'))"
    "acDb st' = (acDb st)\<lparr>memberSnapshots := filter (\<lambda>s. msOrg s \<noteq> orgId) (memberSnapshots (acDb st))\<rparr>"
    using bulkWrite_rows [OF w] ok by (auto simp: stored_ok_def audienceType_def audiencePrincipals_def)
  show "unique_shares (accessDb st')" using rows(2) by (simp add: unique_shares_def comp_def)
  show "memberAccessSnapshot (accessDb st') orgId user = None"
    using rows(3) by (auto simp: memberAccessSnapshot_def first_row_None)
  let ?q = "\<lparr>srResourceType = RVault, srResourceId = orgId, srPrincipalType = POrg, srPrincipalId = orgId,
       srPermission = bulkPermission RVault mode, srRevision = rv\<rparr>"
  have new: "ssRow s = ?q" if "s \<in> set (newShares newIds orgId actor ?rs POrg [orgId] mode rv)" for s
    using set_newShares [OF that] by simp
  have gone: "replaced (acDb st) orgId ?rs [] s"
    if s: "s \<in> set (acShares st)" "onItem (Some d) ids (ssRow s) \<or> vaultRow orgId (ssRow s)" for s
  proof -
    have res: "resource_of (acDb st) (ssOrg s) (ssRow s)" using ok s(1) by (simp add: stored_ok_def)
    have "ssOrg s = orgId \<and> onWholeVault (acDb st) orgId (ssRow s)"
    proof (cases "onItem (Some d) ids (ssRow s)")
      case True
      have o': "ssOrg s = orgId" by (rule placed_org [OF t ok p s(1) True])
      have "onWholeVault (acDb st) orgId (ssRow s)"
      proof (cases "srResourceType (ssRow s)")
        case RFolder
        then have i: "srResourceId (ssRow s) \<in> set ids" using True by (simp add: onItem_def)
        have c: "chain_from (acDb st) x ids" using p by (simp add: placed_def)
        obtain f where f: "f \<in> set (folders (acDb st))" "fdId f = srResourceId (ssRow s)"
          using chain_from_folders [OF c] i by fastforce
        show ?thesis using placed_folders [OF t p i f] f RFolder by (auto simp: onWholeVault_def list_ex_iff)
      next
        case RFile
        then have "srResourceId (ssRow s) = d" using True by (simp add: onItem_def)
        then show ?thesis using p RFile by (auto simp: onWholeVault_def list_ex_iff placed_def)
      qed (use True in \<open>simp add: onItem_def\<close>)
      then show ?thesis using o' by simp
    next
      case False
      then have "vaultRow orgId (ssRow s)" using s(2) by simp
      then show ?thesis using res by (simp add: vaultRow_def resource_of_def onWholeVault_def)
    qed
    then show ?thesis by (simp add: replaced_def inAudience_def overrideOn_def)
  qed
  have mem: "?q \<in> set (shares (accessDb st'))"
    using newShares_has [of "\<lparr>rsType = RVault, rsId = orgId\<rparr>" ?rs orgId "[orgId]" POrg mode rv newIds orgId actor] rows(1) by auto
  have uniq: "r = ?q" if r: "r \<in> set (shares (accessDb st'))" "onItem (Some d) ids r \<or> vaultRow orgId r" for r
  proof -
    obtain s where s: "s \<in> set (acShares st')" "r = ssRow s" using r(1) by auto
    have "replaced (acDb st) orgId ?rs [] s" if "s \<in> set (acShares st)"
      by (rule gone [OF that]) (use r(2) s(2) in simp)
    then have "s \<in> set (newShares newIds orgId actor ?rs POrg [orgId] mode rv)"
      using s(1) unfolding rows(1) set_append set_filter by blast
    from new [OF this] show ?thesis using s(2) by simp
  qed
  have "onlyRow (accessDb st') d orgId ids ?q"
    unfolding onlyRow_def by (intro conjI ballI impI; (rule mem | (rule uniq, assumption, assumption))?) simp_all
  then show "\<exists>q. onlyRow (accessDb st') d orgId ids q \<and> srPermission q = bulkPermission RVault mode"
    by (intro exI [of _ ?q] conjI) simp_all
qed

end
