(* ===== verification/Access_Props.thy ===== *)
theory Access_Props
  imports Access_Vault
begin

text \<open>
  The properties of the bulk change: it takes effect for the people it names on everything it covers,
  for everyone on the whole vault, and it changes nothing else.
\<close>

section \<open>Named people\<close>





section \<open>The whole vault\<close>



section \<open>What the change keeps\<close>

lemma bulk_rows:
  assumes ok: "stored_ok st" and a: "applyBulkAccess newIds hook orgId actor input audience mode st = Inr (res, calls, st')"
  shows "\<exists>sel rv. validateResources (acDb st) orgId (uniqueResources input) = None \<and>
    validateAudience (acDb st) orgId audience actor = Inr sel \<and>
    acShares st' = filter (\<lambda>s. \<not> replaced (acDb st) orgId (uniqueResources input) sel s) (acShares st) @
      newShares newIds orgId actor (uniqueResources input) (audienceType audience) (audiencePrincipals orgId audience sel) mode rv \<and>
    distinct (map (\<lambda>s. share_key (ssRow s)) (acShares st')) \<and>
    folders (acDb st') = folders (acDb st) \<and> noteRows (acDb st') = noteRows (acDb st) \<and>
    fileRows (acDb st') = fileRows (acDb st) \<and> vaults (acDb st') = vaults (acDb st)"
proof -
  obtain sel n where b: "validateResources (acDb st) orgId (uniqueResources input) = None"
    "validateAudience (acDb st) orgId audience actor = Inr sel"
    "bulkWrite newIds orgId actor (uniqueResources input) audience sel mode st = Inr (n, st')"
    using bulk_facts [OF a] by blast
  show ?thesis using b(1,2) bulkWrite_rows [OF b(3)] ok by (auto simp: stored_ok_def)
qed

text \<open>C24: a bulk change keeps the tables well formed: one share row per resource and principal, each row filed
  under the organization its resource belongs to, and the tree untouched.\<close>

theorem bulk_access_well_formed:
  assumes "tree_ok (acDb st)" "stored_ok st"
    and "applyBulkAccess newIds hook orgId actor input audience mode st = Inr (res, calls, st')"
  shows "stored_ok st' \<and> tree_ok (acDb st')"
proof -
  obtain sel rv where b: "validateResources (acDb st) orgId (uniqueResources input) = None"
    "acShares st' = filter (\<lambda>s. \<not> replaced (acDb st) orgId (uniqueResources input) sel s) (acShares st) @
      newShares newIds orgId actor (uniqueResources input) (audienceType audience) (audiencePrincipals orgId audience sel) mode rv"
    "distinct (map (\<lambda>s. share_key (ssRow s)) (acShares st'))"
    and frame: "folders (acDb st') = folders (acDb st)" "noteRows (acDb st') = noteRows (acDb st)"
    "fileRows (acDb st') = fileRows (acDb st)" "vaults (acDb st') = vaults (acDb st)"
    using bulk_rows [OF assms(2,3)] by blast
  have "resource_of (acDb st) (ssOrg s) (ssRow s)" if s: "s \<in> set (acShares st')" for s
  proof (cases "s \<in> set (acShares st)")
    case True
    then show ?thesis using assms(2) by (simp add: stored_ok_def)
  next
    case False
    then have "s \<in> set (newShares newIds orgId actor (uniqueResources input) (audienceType audience)
        (audiencePrincipals orgId audience sel) mode rv)" using s unfolding b(2) set_append set_filter by blast
    from set_newShares [OF this] obtain r where r: "ssOrg s = orgId" "r \<in> set (uniqueResources input)"
      "srResourceType (ssRow s) = rsType r" "srResourceId (ssRow s) = rsId r" by auto
    obtain info where info: "resolveResource (acDb st) (rsType r) (rsId r) = Some info" "riOrg info = orgId"
      using validated_resource(1) [OF b(1) r(2)] by blast
    have "resource_of (acDb st) (riOrg info) (ssRow s)"
      by (rule resolved_org [OF assms(1)]) (simp add: r(3,4) info(1))
    then show ?thesis using info(2) r(1) by simp
  qed
  then have "stored_ok st'" using b(3) resource_of_frame [OF frame] by (simp add: stored_ok_def)
  moreover have "tree_ok (acDb st')" using tree_ok_frame(1) [OF frame] assms(1) by simp
  ultimately show ?thesis by simp
qed

definition unique_members :: "database \<Rightarrow> bool" where
  "unique_members db \<longleftrightarrow> distinct (map (\<lambda>m. (mbOrg m, mbUser m)) (members db))"

lemma member_rows:
  assumes u: "unique_members db" and v: "validateAudience db orgId (People us) actor = Inr sel" and x: "user \<in> set us" "user \<noteq> []"
  shows "canManageMemberAccess (memberRole db orgId actor) (memberRole db orgId user) (user = actor)"
    and "set sel = {u \<in> set us. u \<noteq> []}"
proof -
  let ?rows = "filter (\<lambda>m. mbOrg m = orgId \<and> mbUser m \<in> set sel) (members db)"
  have sel: "sel = js_set_of (filter (\<lambda>u. u \<noteq> []) us)" "length ?rows = length sel"
    "list_all (\<lambda>m. canManageMemberAccess (memberRole db orgId actor) (Some (mbRole m)) (mbUser m = actor)) ?rows"
    using v by (auto simp: validateAudience_def Let_def split: if_splits)
  show sel': "set sel = {u \<in> set us. u \<noteq> []}" by (simp add: sel(1))
  have inj: "distinct (map (\<lambda>m. (mbOrg m, mbUser m)) (members db))" using u by (simp add: unique_members_def)
  have "distinct (map mbUser ?rows)"
  proof -
    have "distinct (map (\<lambda>m. (mbOrg m, mbUser m)) ?rows)" by (rule distinct_map_filter [OF inj])
    moreover have "map (\<lambda>m. (mbOrg m, mbUser m)) ?rows = map (Pair orgId) (map mbUser ?rows)" by (simp cong: map_cong)
    ultimately show ?thesis by (simp add: distinct_map inj_on_def)
  qed
  from distinct_card [OF this] have "card (mbUser ` set ?rows) = length ?rows" by simp
  also have "\<dots> = card (set sel)" unfolding sel(2) by (rule distinct_card [symmetric]) (simp add: sel(1))
  finally have "mbUser ` set ?rows = set sel" by (intro card_subset_eq) auto
  moreover have "user \<in> set sel" using x sel' by simp
  ultimately have "user \<in> mbUser ` set ?rows" by simp
  then obtain m where m: "m \<in> set ?rows" "mbUser m = user" unfolding image_iff by blast
  have "first_row (\<lambda>m. mbOrg m = orgId \<and> mbUser m = user) (members db) = Some m"
  proof (rule first_row_unique)
    fix m' assume "m' \<in> set (members db)" "mbOrg m' = orgId \<and> mbUser m' = user"
    then show "m' = m" using inj m by (intro inj_onD [OF conjunct2 [OF inj [unfolded distinct_map]]]) auto
  qed (use m in auto)
  then have role: "memberRole db orgId user = Some (mbRole m)" by (simp add: memberRole_def)
  have "canManageMemberAccess (memberRole db orgId actor) (Some (mbRole m)) (mbUser m = actor)"
    using sel(3) m(1) unfolding list_all_iff by blast
  then show "canManageMemberAccess (memberRole db orgId actor) (memberRole db orgId user) (user = actor)"
    unfolding role m(2) .
qed

definition ofPeople :: "string list \<Rightarrow> stored_share \<Rightarrow> bool" where
  "ofPeople us s \<longleftrightarrow> srPrincipalType (ssRow s) = PUser \<and> srPrincipalId (ssRow s) \<in> set us"

text \<open>C25: a bulk change for named people stays in scope. It succeeds for owners and admins only; an admin reaches
  members, admins and themselves, never an owner; and the rows of other organizations and of everyone not named,
  Everyone rows included, are what they were.\<close>

theorem bulk_access_stays_in_scope:
  assumes "stored_ok st" "unique_members (acDb st)"
    and "applyBulkAccess newIds hook orgId actor input (People us) mode st = Inr (res, calls, st')"
  shows "(memberRole (acDb st) orgId actor = Some ''owner'' \<or> memberRole (acDb st) orgId actor = Some ''admin'') \<and>
    (\<forall>user \<in> set us. user \<noteq> [] \<longrightarrow>
       memberRole (acDb st) orgId actor = Some ''owner'' \<or> user = actor \<or>
       memberRole (acDb st) orgId user = Some ''member'' \<or> memberRole (acDb st) orgId user = Some ''admin'') \<and>
    filter (\<lambda>s. ssOrg s \<noteq> orgId \<or> \<not> ofPeople us s) (acShares st') = filter (\<lambda>s. ssOrg s \<noteq> orgId \<or> \<not> ofPeople us s) (acShares st)"
proof -
  obtain sel rv where b: "validateAudience (acDb st) orgId (People us) actor = Inr sel"
    "acShares st' = filter (\<lambda>s. \<not> replaced (acDb st) orgId (uniqueResources input) sel s) (acShares st) @
      newShares newIds orgId actor (uniqueResources input) PUser sel mode rv"
    using bulk_rows [OF assms(1,3)] by (auto simp: audienceType_def audiencePrincipals_def)
  have role: "memberRole (acDb st) orgId actor = Some ''owner'' \<or> memberRole (acDb st) orgId actor = Some ''admin''"
    using bulk_facts [OF assms(3)] by (auto simp: requireAccessManager_def Let_def split: if_splits)
  have people: "memberRole (acDb st) orgId actor = Some ''owner'' \<or> user = actor \<or>
       memberRole (acDb st) orgId user = Some ''member'' \<or> memberRole (acDb st) orgId user = Some ''admin''"
    if "user \<in> set us" "user \<noteq> []" for user
    using member_rows(1) [OF assms(2) b(1) that] by (auto simp: canManageMemberAccess_def split: if_splits)
  have sel: "sel \<noteq> []" "set sel \<subseteq> set us"
    using b(1) by (auto simp: validateAudience_def Let_def split: if_splits)
  have "filter (\<lambda>s. ssOrg s \<noteq> orgId \<or> \<not> ofPeople us s) (newShares newIds orgId actor (uniqueResources input) PUser sel mode rv) = []"
    unfolding filter_empty_conv using sel(2) by (auto dest!: set_newShares simp: ofPeople_def)
  moreover have "filter (\<lambda>s. ssOrg s \<noteq> orgId \<or> \<not> ofPeople us s)
      (filter (\<lambda>s. \<not> replaced (acDb st) orgId (uniqueResources input) sel s) (acShares st)) =
      filter (\<lambda>s. ssOrg s \<noteq> orgId \<or> \<not> ofPeople us s) (acShares st)"
    unfolding filter_filter by (rule filter_cong) (use sel in \<open>auto simp: replaced_def inAudience_def ofPeople_def\<close>)
  ultimately have "filter (\<lambda>s. ssOrg s \<noteq> orgId \<or> \<not> ofPeople us s) (acShares st') = filter (\<lambda>s. ssOrg s \<noteq> orgId \<or> \<not> ofPeople us s) (acShares st)"
    unfolding b(2) filter_append by simp
  then show ?thesis using role people by blast
qed

section \<open>Runs\<close>

text \<open>Bob may edit the note by its own row; Ann makes the folder above it read-only for him, then the
  whole vault for everyone.\<close>

definition access_demo :: access_state where
  "access_demo = \<lparr>acDb = demo [], acShares =
     [\<lparr>ssId = ''x1'', ssOrg = ''o'', ssCreatedBy = None, ssRow = share RFile ''n'' PUser ''bob'' SEdit\<rparr>,
      \<lparr>ssId = ''x2'', ssOrg = ''o'', ssCreatedBy = None, ssRow = share RFile ''n'' PUser ''ann'' SView\<rparr>],
     acSettings = []\<rparr>"

definition freshId :: "nat \<Rightarrow> string" where
  "freshId k = replicate (Suc k) CHR ''k''"

definition people_run :: "join_mode \<Rightarrow> manage_error + bulk_result \<times> bulk_calls \<times> access_state" where
  "people_run mode = applyBulkAccess freshId None ''o'' ''ann'' [\<lparr>rsType = RFolder, rsId = ''f1''\<rparr>] (People [''bob'']) mode access_demo"

definition vault_run :: "join_mode \<Rightarrow> manage_error + bulk_result \<times> bulk_calls \<times> access_state" where
  "vault_run mode = applyBulkAccess freshId None ''o'' ''ann'' [\<lparr>rsType = RVault, rsId = ''o''\<rparr>] Everyone mode access_demo"

definition run_state :: "manage_error + bulk_result \<times> bulk_calls \<times> access_state \<Rightarrow> access_state" where
  "run_state run = snd (snd (projr run))"

lemma access_demo_ok: "tree_ok (acDb access_demo)" "stored_ok access_demo" "unique_members (acDb access_demo)"
  by (simp_all add: tree_ok_def unique_folders_def named_folders_def same_vault_def unique_docs_def named_vaults_def
      unique_members_def stored_ok_def resource_of_def vaultOrg_def first_row_def share_key_def share_def access_demo_def demo_def)

lemma run_splits:
  "people_run MReadonly = Inr (fst (projr (people_run MReadonly)), fst (snd (projr (people_run MReadonly))), run_state (people_run MReadonly))"
  "vault_run MOpen = Inr (fst (projr (vault_run MOpen)), fst (snd (projr (vault_run MOpen))), run_state (vault_run MOpen))"
proof -
  have "\<not> isl (people_run MReadonly)" "\<not> isl (vault_run MOpen)" by code_simp+
  then show "people_run MReadonly = Inr (fst (projr (people_run MReadonly)), fst (snd (projr (people_run MReadonly))), run_state (people_run MReadonly))"
    "vault_run MOpen = Inr (fst (projr (vault_run MOpen)), fst (snd (projr (vault_run MOpen))), run_state (vault_run MOpen))"
    by (simp_all add: run_state_def isl_def split: sum.splits)
qed




theorem bulk_access_well_formed_witness:
  "stored_ok (run_state (people_run MReadonly)) \<and> tree_ok (acDb (run_state (people_run MReadonly)))"
  by (rule bulk_access_well_formed [OF access_demo_ok(1,2) run_splits(1) [unfolded people_run_def], folded people_run_def])

theorem bulk_access_stays_in_scope_witness:
  "filter (\<lambda>s. ssOrg s \<noteq> ''o'' \<or> \<not> ofPeople [''bob''] s) (acShares (run_state (people_run MReadonly))) =
     [\<lparr>ssId = ''x2'', ssOrg = ''o'', ssCreatedBy = None, ssRow = share RFile ''n'' PUser ''ann'' SView\<rparr>]"
  using bulk_access_stays_in_scope [OF access_demo_ok(2,3) run_splits(1) [unfolded people_run_def], folded people_run_def]
  by (simp add: access_demo_def ofPeople_def share_def)

end
