(* ===== verification/Csv.thy ===== *)
theory Csv
  imports Bytes "HOL-Library.Sublist"
begin

text \<open>
  The delimited-text reader of the table viewer (\<open>desktop/src/lib/csv.ts\<close>): one pass over UTF-16
  units with the caps applied while parsing. The position in the text is the rest of the text; an
  empty delimiter matches everywhere without moving on, which is a call that does not return (\<open>None\<close>).
  A cap of \<open>None\<close> is the default \<open>Infinity\<close>.
\<close>

section \<open>State\<close>

record parsed_table =
  tbRows :: "text16 list list"
  tbTotalRows :: nat
  tbTotalCols :: nat
  tbTruncated :: bool

record csv_state =
  cvRows :: "text16 list list"
  cvTotalRows :: nat
  cvTotalCols :: nat
  cvColsDropped :: bool
  cvRow :: "text16 list"
  cvFieldCount :: nat
  cvField :: text16
  cvStarted :: bool
  cvAtFieldStart :: bool

definition QUOTE :: "16 word" where "QUOTE = 34"
definition LF :: "16 word" where "LF = 10"
definition CR :: "16 word" where "CR = 13"
definition BOM :: "16 word" where "BOM = 0xFEFF"

text \<open>\<open>/\\.tsv$/i\<close>.\<close>

definition asciiLower :: "16 word \<Rightarrow> 16 word" where
  "asciiLower c = (if 65 \<le> c \<and> c \<le> 90 then c + 32 else c)"

definition delimiterFor :: "text16 \<Rightarrow> text16" where
  "delimiterFor path =
     (if length path \<ge> 4 \<and> map asciiLower (drop (length path - 4) path) = [46, 116, 115, 118] then [9] else [44])"

section \<open>Steps\<close>

definition below :: "nat option \<Rightarrow> nat \<Rightarrow> bool" where
  "below cap n \<longleftrightarrow> (case cap of None \<Rightarrow> True | Some m \<Rightarrow> n < m)"

definition keepingRow :: "nat option \<Rightarrow> csv_state \<Rightarrow> bool" where
  "keepingRow maxRows st \<longleftrightarrow> below maxRows (length (cvRows st))"

definition endField :: "nat option \<Rightarrow> nat option \<Rightarrow> csv_state \<Rightarrow> csv_state" where
  "endField maxRows maxCols st =
     (let st1 = st\<lparr>cvFieldCount := cvFieldCount st + 1\<rparr>;
          st2 = (if below maxCols (cvFieldCount st)
             then (if keepingRow maxRows st1 then st1\<lparr>cvRow := cvRow st1 @ [cvField st1]\<rparr> else st1)
             else st1\<lparr>cvColsDropped := True\<rparr>)
      in st2\<lparr>cvField := [], cvAtFieldStart := True\<rparr>)"

definition endRow :: "nat option \<Rightarrow> nat option \<Rightarrow> csv_state \<Rightarrow> csv_state" where
  "endRow maxRows maxCols st =
     (let st1 = endField maxRows maxCols st;
          st2 = st1\<lparr>cvTotalRows := cvTotalRows st1 + 1,
             cvTotalCols := (if cvFieldCount st1 > cvTotalCols st1 then cvFieldCount st1 else cvTotalCols st1)\<rparr>;
          st3 = (if keepingRow maxRows st2 then st2\<lparr>cvRows := cvRows st2 @ [cvRow st2]\<rparr> else st2)
      in st3\<lparr>cvRow := [], cvFieldCount := 0, cvStarted := False\<rparr>)"

text \<open>The text of a quoted field and what follows its closing quote: up to the next quote, which
  is kept when it is doubled; without one the rest of the text is the field.\<close>

function quotedField :: "text16 \<Rightarrow> text16 \<times> text16" where
  "quotedField cs =
     (case dropWhile (\<lambda>c. c \<noteq> QUOTE) cs of
        [] \<Rightarrow> (cs, [])
      | q # rest \<Rightarrow>
          if rest \<noteq> [] \<and> hd rest = QUOTE then
            (let (field, after) = quotedField (tl rest) in (takeWhile (\<lambda>c. c \<noteq> QUOTE) cs @ q # field, after))
          else (takeWhile (\<lambda>c. c \<noteq> QUOTE) cs, rest))"
  by pat_completeness auto

lemma dropWhile_shorter: "dropWhile P xs = y # ys \<Longrightarrow> length ys < length xs"
  by (metis Suc_le_lessD length_Cons length_dropWhile_le)

termination quotedField
  by (relation "measure length") (auto dest!: dropWhile_shorter simp: less_imp_diff_less)

declare quotedField.simps [simp del]

text \<open>An unquoted run: up to the next line end or delimiter.\<close>

fun unquotedRun :: "text16 \<Rightarrow> text16 \<Rightarrow> text16 \<times> text16" where
  "unquotedRun delimiter [] = ([], [])"
| "unquotedRun delimiter (c # cs) =
     (if c = LF \<or> c = CR \<or> prefix delimiter (c # cs) then ([], c # cs)
      else (let (run, rest) = unquotedRun delimiter cs in (c # run, rest)))"

lemma unquotedRun_append: "fst (unquotedRun delimiter cs) @ snd (unquotedRun delimiter cs) = cs"
  by (induction cs) (auto simp: Let_def case_prod_beta)

lemma quotedField_cases:
  "dropWhile (\<lambda>c. c \<noteq> QUOTE) cs = [] \<Longrightarrow> quotedField cs = (cs, [])"
  "dropWhile (\<lambda>c. c \<noteq> QUOTE) cs = q # rest \<Longrightarrow> rest \<noteq> [] \<and> hd rest = QUOTE \<Longrightarrow>
     quotedField cs = (takeWhile (\<lambda>c. c \<noteq> QUOTE) cs @ q # fst (quotedField (tl rest)), snd (quotedField (tl rest)))"
  "dropWhile (\<lambda>c. c \<noteq> QUOTE) cs = q # rest \<Longrightarrow> \<not> (rest \<noteq> [] \<and> hd rest = QUOTE) \<Longrightarrow>
     quotedField cs = (takeWhile (\<lambda>c. c \<noteq> QUOTE) cs, rest)"
  unfolding quotedField.simps [of cs] by (simp_all only: list.case if_True if_False simp_thms case_prod_beta Let_def)

lemma quotedField_shorter: "length (snd (quotedField cs)) \<le> length cs"
proof (induction cs rule: quotedField.induct)
  case (1 cs)
  show ?case
  proof (cases "dropWhile (\<lambda>c. c \<noteq> QUOTE) cs")
    case (Cons q rest)
    note len = dropWhile_shorter [OF Cons]
    show ?thesis
    proof (cases "rest \<noteq> [] \<and> hd rest = QUOTE")
      case True
      then show ?thesis using "1.IH" [OF Cons True] len by (simp add: quotedField_cases(2) [OF Cons True])
    next
      case False
      then show ?thesis using len by (simp add: quotedField_cases(3) [OF Cons False])
    qed
  qed (simp add: quotedField_cases(1))
qed

function csvLoop :: "text16 \<Rightarrow> nat option \<Rightarrow> nat option \<Rightarrow> text16 \<Rightarrow> csv_state \<Rightarrow> csv_state option" where
  "csvLoop delimiter maxRows maxCols cs st =
     (case cs of
        [] \<Rightarrow> Some st
      | ch # rest \<Rightarrow>
          if ch = QUOTE \<and> cvAtFieldStart st then
            (let (field, after) = quotedField rest
             in csvLoop delimiter maxRows maxCols after
                  (st\<lparr>cvStarted := True, cvField := cvField st @ field, cvAtFieldStart := False\<rparr>))
          else if prefix delimiter cs then
            (if delimiter = [] then None
             else csvLoop delimiter maxRows maxCols (drop (length delimiter) cs)
                    (endField maxRows maxCols (st\<lparr>cvStarted := True\<rparr>)))
          else if ch = LF \<or> ch = CR then
            csvLoop delimiter maxRows maxCols (if ch = CR \<and> rest \<noteq> [] \<and> hd rest = LF then tl rest else rest)
              (endRow maxRows maxCols st)
          else
            (let (run, after) = unquotedRun delimiter cs
             in csvLoop delimiter maxRows maxCols after
                  (st\<lparr>cvField := cvField st @ run, cvStarted := True, cvAtFieldStart := False\<rparr>)))"
  by pat_completeness auto

lemma unquotedRun_shorter:
  assumes "\<not> prefix delimiter (c # cs)" "c \<noteq> LF" "c \<noteq> CR"
  shows "length (snd (unquotedRun delimiter (c # cs))) < Suc (length cs)"
  using assms arg_cong [OF unquotedRun_append [of delimiter cs], of length] by (simp add: Let_def case_prod_beta)

termination csvLoop
proof (relation "measure (\<lambda>(delimiter, maxRows, maxCols, cs, st). length cs)", goal_cases)
  case (2 delimiter maxRows maxCols cs st ch rest p field after)
  then show ?case using quotedField_shorter [of rest] by (cases "quotedField rest") auto
next
  case (5 delimiter maxRows maxCols cs st ch rest p run after)
  then show ?case using unquotedRun_shorter [of delimiter ch rest] by (cases "unquotedRun delimiter (ch # rest)") auto
qed auto

declare csvLoop.simps [simp del]

text \<open>One step, by what is next.\<close>

lemma csvLoop_nil: "csvLoop d mr mc [] st = Some st"
  by (simp add: csvLoop.simps)

lemma csvLoop_quote:
  assumes "cvAtFieldStart st"
  shows "csvLoop d mr mc (QUOTE # rest) st =
    csvLoop d mr mc (snd (quotedField rest)) (st\<lparr>cvStarted := True, cvField := cvField st @ fst (quotedField rest), cvAtFieldStart := False\<rparr>)"
  using assms by (subst csvLoop.simps) (simp add: case_prod_beta)

lemma csvLoop_delimiter:
  assumes "\<not> (ch = QUOTE \<and> cvAtFieldStart st)" "prefix d (ch # rest)"
  shows "csvLoop d mr mc (ch # rest) st =
    (if d = [] then None else csvLoop d mr mc (drop (length d) (ch # rest)) (endField mr mc (st\<lparr>cvStarted := True\<rparr>)))"
  by (subst csvLoop.simps) (simp only: list.case assms if_True if_False)

lemma csvLoop_newline:
  assumes "\<not> prefix d (ch # rest)" "ch = LF \<or> ch = CR"
  shows "csvLoop d mr mc (ch # rest) st =
    csvLoop d mr mc (if ch = CR \<and> rest \<noteq> [] \<and> hd rest = LF then tl rest else rest) (endRow mr mc st)"
proof -
  have nq: "\<not> (ch = QUOTE \<and> cvAtFieldStart st)" using assms(2) by (auto simp: QUOTE_def LF_def CR_def)
  show ?thesis by (subst csvLoop.simps) (simp only: list.case nq assms if_True if_False)
qed

lemma csvLoop_run:
  assumes "\<not> (ch = QUOTE \<and> cvAtFieldStart st)" "\<not> prefix d (ch # rest)" "\<not> (ch = LF \<or> ch = CR)"
  shows "csvLoop d mr mc (ch # rest) st = csvLoop d mr mc (snd (unquotedRun d (ch # rest)))
    (st\<lparr>cvField := cvField st @ fst (unquotedRun d (ch # rest)), cvStarted := True, cvAtFieldStart := False\<rparr>)"
  by (subst csvLoop.simps) (simp only: list.case assms if_True if_False Let_def case_prod_beta)

definition csvStart :: csv_state where
  "csvStart = \<lparr>cvRows = [], cvTotalRows = 0, cvTotalCols = 0, cvColsDropped = False, cvRow = [], cvFieldCount = 0,
     cvField = [], cvStarted = False, cvAtFieldStart = True\<rparr>"

definition csvEnd :: "nat option \<Rightarrow> nat option \<Rightarrow> csv_state \<Rightarrow> parsed_table" where
  "csvEnd maxRows maxCols st =
     (let st1 = (if cvStarted st \<or> cvField st \<noteq> [] \<or> cvFieldCount st > 0 then endRow maxRows maxCols st else st)
      in \<lparr>tbRows = cvRows st1, tbTotalRows = cvTotalRows st1, tbTotalCols = cvTotalCols st1,
           tbTruncated = (cvColsDropped st1 \<or> cvTotalRows st1 > length (cvRows st1))\<rparr>)"

definition parseDelimited :: "text16 \<Rightarrow> text16 \<Rightarrow> nat option \<Rightarrow> nat option \<Rightarrow> parsed_table option" where
  "parseDelimited text' delimiter maxRows maxCols =
     (let src = (if text' \<noteq> [] \<and> hd text' = BOM then tl text' else text')
      in map_option (csvEnd maxRows maxCols) (csvLoop delimiter maxRows maxCols src csvStart))"

end
