(* ===== verification/Csv_Cut.thy ===== *)
theory Csv_Cut
  imports Csv
begin

text \<open>
  The caps of the reader: cutting while parsing is parsing and then cutting. \<open>cutState\<close> maps the state
  of the uncapped run to the state of the capped one, and every step commutes with it.
\<close>

definition takeO :: "nat option \<Rightarrow> 'a list \<Rightarrow> 'a list" where
  "takeO cap xs = (case cap of None \<Rightarrow> xs | Some m \<Rightarrow> take m xs)"

definition exceeds :: "nat option \<Rightarrow> 'a list \<Rightarrow> bool" where
  "exceeds cap xs \<longleftrightarrow> (case cap of None \<Rightarrow> False | Some m \<Rightarrow> m < length xs)"

definition widest :: "'a list list \<Rightarrow> nat" where
  "widest rows = foldr max (map length rows) 0"

lemma below_None [simp]: "below None n" by (simp add: below_def)

lemma below_takeO [simp]: "below cap (length (takeO cap xs)) \<longleftrightarrow> below cap (length xs)"
  by (auto simp: below_def takeO_def split: option.splits)

lemma takeO_append: "takeO cap (xs @ [x]) = (if below cap (length xs) then takeO cap xs @ [x] else takeO cap xs)"
  by (auto simp: below_def takeO_def split: option.splits)

lemma takeO_below: "below cap (length xs) \<Longrightarrow> takeO cap xs = xs"
  by (auto simp: below_def takeO_def split: option.splits)

lemma exceeds_append: "exceeds cap (xs @ [x]) \<longleftrightarrow> \<not> below cap (length xs)"
  by (auto simp: below_def exceeds_def split: option.splits)

lemma exceeds_below: "exceeds cap xs \<Longrightarrow> \<not> below cap (length xs)"
  by (auto simp: below_def exceeds_def split: option.splits)

lemma exceeds_takeO: "exceeds cap xs \<longleftrightarrow> takeO cap xs \<noteq> xs"
  by (auto simp: exceeds_def takeO_def not_less split: option.splits dest: arg_cong [where f = length])

lemma takeO_simps [simp]: "takeO cap [] = []" "takeO None xs = xs" "\<not> exceeds cap []" "\<not> exceeds None xs"
  by (auto simp: takeO_def exceeds_def split: option.splits)

lemma widest_snoc [simp]: "widest (rows @ [row]) = max (widest rows) (length row)"
proof -
  have "foldr max (xs :: nat list) a = max (foldr max xs 0) a" for xs a
    by (induction xs) (simp_all add: max.assoc)
  from this [of "map length rows" "max (length row) 0"] show ?thesis by (simp add: widest_def)
qed

section \<open>The uncapped run\<close>

definition full_ok :: "csv_state \<Rightarrow> bool" where
  "full_ok u \<longleftrightarrow> cvFieldCount u = length (cvRow u) \<and> cvTotalRows u = length (cvRows u) \<and>
     cvTotalCols u = widest (cvRows u) \<and> \<not> cvColsDropped u"

definition cutState :: "nat option \<Rightarrow> nat option \<Rightarrow> csv_state \<Rightarrow> csv_state" where
  "cutState maxRows maxCols u = u\<lparr>cvRows := map (takeO maxCols) (takeO maxRows (cvRows u)),
     cvRow := (if below maxRows (length (cvRows u)) then takeO maxCols (cvRow u) else []),
     cvColsDropped := (\<exists>row \<in> insert (cvRow u) (set (cvRows u)). exceeds maxCols row)\<rparr>"

lemma cutState_sel [simp]:
  "cvField (cutState mr mc u) = cvField u" "cvStarted (cutState mr mc u) = cvStarted u"
  "cvAtFieldStart (cutState mr mc u) = cvAtFieldStart u" "cvFieldCount (cutState mr mc u) = cvFieldCount u"
  "cvTotalRows (cutState mr mc u) = cvTotalRows u" "cvTotalCols (cutState mr mc u) = cvTotalCols u"
  "cvRows (cutState mr mc u) = map (takeO mc) (takeO mr (cvRows u))"
  by (simp_all add: cutState_def)

lemma cutState_upd:
  "(cutState mr mc u)\<lparr>cvField := f\<rparr> = cutState mr mc (u\<lparr>cvField := f\<rparr>)"
  "(cutState mr mc u)\<lparr>cvStarted := b\<rparr> = cutState mr mc (u\<lparr>cvStarted := b\<rparr>)"
  "(cutState mr mc u)\<lparr>cvAtFieldStart := b\<rparr> = cutState mr mc (u\<lparr>cvAtFieldStart := b\<rparr>)"
  by (simp_all add: cutState_def)

lemma full_ok_upd [simp]:
  "full_ok (u\<lparr>cvField := f\<rparr>) = full_ok u" "full_ok (u\<lparr>cvStarted := b\<rparr>) = full_ok u"
  "full_ok (u\<lparr>cvAtFieldStart := b\<rparr>) = full_ok u"
  by (simp_all add: full_ok_def)

lemma endField_cut:
  assumes "full_ok u"
  shows "endField mr mc (cutState mr mc u) = cutState mr mc (endField None None u)" and "full_ok (endField None None u)"
proof -
  have ok: "cvFieldCount u = length (cvRow u)" "\<not> cvColsDropped u" using assms by (simp_all add: full_ok_def)
  show "endField mr mc (cutState mr mc u) = cutState mr mc (endField None None u)"
    using ok by (auto simp: endField_def keepingRow_def cutState_def exceeds_def Let_def below_def takeO_def split: option.splits)
  show "full_ok (endField None None u)" using assms by (simp add: full_ok_def endField_def keepingRow_def Let_def)
qed

lemma endRow_cut:
  assumes "full_ok u"
  shows "endRow mr mc (cutState mr mc u) = cutState mr mc (endRow None None u)" and "full_ok (endRow None None u)"
proof -
  note f = endField_cut [OF assms]
  define v where "v = endField None None u"
  have v: "full_ok v" using f(2) by (simp add: v_def)
  have e: "endField mr mc (cutState mr mc u) = cutState mr mc v" using f(1) by (simp add: v_def)
  show "endRow mr mc (cutState mr mc u) = cutState mr mc (endRow None None u)"
    unfolding endRow_def e v_def [symmetric] using v
    by (auto simp: full_ok_def keepingRow_def cutState_def takeO_append Let_def)
  show "full_ok (endRow None None u)"
    unfolding endRow_def v_def [symmetric] using v by (auto simp: full_ok_def keepingRow_def Let_def)
qed

lemma csvLoop_cut:
  "full_ok u \<Longrightarrow> csvLoop d mr mc cs (cutState mr mc u) = map_option (cutState mr mc) (csvLoop d None None cs u) \<and>
     (\<forall>v. csvLoop d None None cs u = Some v \<longrightarrow> full_ok v) \<and> (d \<noteq> [] \<longrightarrow> csvLoop d None None cs u \<noteq> None)"
proof (induction "length cs" arbitrary: cs u rule: less_induct)
  case less
  note IH = less.hyps
  show ?case
  proof (cases cs)
    case Nil
    then show ?thesis using less.prems by (simp add: csvLoop.simps)
  next
    case (Cons ch rest)
    show ?thesis
    proof (cases "ch = QUOTE \<and> cvAtFieldStart u")
      case True
      have "length (snd (quotedField rest)) < length cs" using quotedField_shorter [of rest] Cons by simp
      from IH [OF this, of "u\<lparr>cvStarted := True, cvField := cvField u @ fst (quotedField rest), cvAtFieldStart := False\<rparr>"] less.prems
      show ?thesis using True unfolding Cons by (simp add: csvLoop_quote cutState_upd)
    next
      case nq: False
      then have nq': "\<not> (ch = QUOTE \<and> cvAtFieldStart (cutState mr mc u))" by simp
      show ?thesis
      proof (cases "prefix d (ch # rest)")
        case True
        note step = csvLoop_delimiter [OF nq True] csvLoop_delimiter [OF nq' True]
        show ?thesis
        proof (cases "d = []")
          case True
          then show ?thesis unfolding Cons step by simp
        next
          case False
          let ?v = "endField None None (u\<lparr>cvStarted := True\<rparr>)"
          have len: "length (drop (length d) cs) < length cs" using Cons False by (cases d) auto
          have "endField mr mc ((cutState mr mc u)\<lparr>cvStarted := True\<rparr>) = cutState mr mc ?v" "full_ok ?v"
            unfolding cutState_upd by (rule endField_cut; simp add: less.prems)+
          then show ?thesis using IH [OF len, of ?v] False unfolding Cons step by simp
        qed
      next
        case nd: False
        show ?thesis
        proof (cases "ch = LF \<or> ch = CR")
          case True
          let ?v = "endRow None None u"
          have len: "length (if ch = CR \<and> rest \<noteq> [] \<and> hd rest = LF then tl rest else rest) < length cs" using Cons by auto
          have "endRow mr mc (cutState mr mc u) = cutState mr mc ?v" "full_ok ?v"
            by (rule endRow_cut; simp add: less.prems)+
          then show ?thesis using IH [OF len, of ?v] unfolding Cons csvLoop_newline [OF nd True] by simp
        next
          case False
          let ?v = "u\<lparr>cvField := cvField u @ fst (unquotedRun d (ch # rest)), cvStarted := True, cvAtFieldStart := False\<rparr>"
          have len: "length (snd (unquotedRun d (ch # rest))) < length cs" using unquotedRun_shorter [OF nd] False Cons by simp
          show ?thesis using IH [OF len, of ?v] less.prems
            unfolding Cons csvLoop_run [OF nq nd False] csvLoop_run [OF nq' nd False] by (simp add: cutState_upd)
        qed
      qed
    qed
  qed
qed

end
