(* ===== verification/Csv_Props.thy ===== *)
theory Csv_Props
  imports Csv_Cut
begin

text \<open>
  The properties of the reader: the caps only cut, and every table one can spell is read back.
\<close>

section \<open>Spelling a table\<close>

text \<open>RFC 4180: a field is written as it is or between quotes with its quotes doubled; fields are
  separated by the delimiter, rows end in a line feed or a carriage return and a line feed.\<close>

definition spellField :: "bool \<times> text16 \<Rightarrow> text16" where
  "spellField = (\<lambda>(quoted, f).
     if quoted then QUOTE # concat (map (\<lambda>c. if c = QUOTE then [QUOTE, QUOTE] else [c]) f) @ [QUOTE] else f)"

fun spellRow :: "16 word \<Rightarrow> (bool \<times> text16) list \<Rightarrow> text16" where
  "spellRow d [] = []"
| "spellRow d [f] = spellField f"
| "spellRow d (f # g # fs) = spellField f @ d # spellRow d (g # fs)"

definition spellTable :: "16 word \<Rightarrow> (bool \<times> (bool \<times> text16) list) list \<Rightarrow> text16" where
  "spellTable d rows = concat (map (\<lambda>(crlf, row). spellRow d row @ (if crlf then [CR, LF] else [LF])) rows)"

definition plainField :: "16 word \<Rightarrow> text16 \<Rightarrow> bool" where
  "plainField d f \<longleftrightarrow> (f \<noteq> [] \<longrightarrow> hd f \<noteq> QUOTE) \<and> d \<notin> set f \<and> LF \<notin> set f \<and> CR \<notin> set f"

definition spellable :: "16 word \<Rightarrow> (bool \<times> (bool \<times> text16) list) list \<Rightarrow> bool" where
  "spellable d rows \<longleftrightarrow> d \<noteq> QUOTE \<and> d \<noteq> LF \<and> d \<noteq> CR \<and>
     (\<forall>(crlf, row) \<in> set rows. row \<noteq> [] \<and> (\<forall>(quoted, f) \<in> set row. quoted \<or> plainField d f))"

definition contents :: "(bool \<times> (bool \<times> text16) list) list \<Rightarrow> text16 list list" where
  "contents rows = map (\<lambda>(crlf, row). map snd row) rows"

section \<open>Reading a field\<close>

lemma quotedField_other:
  assumes "c \<noteq> QUOTE"
  shows "quotedField (c # cs) = (c # fst (quotedField cs), snd (quotedField cs))"
proof (cases "dropWhile (\<lambda>c. c \<noteq> QUOTE) cs")
  case Nil
  then have "dropWhile (\<lambda>c. c \<noteq> QUOTE) (c # cs) = []" using assms by simp
  then show ?thesis using quotedField_cases(1) Nil by (metis fst_conv snd_conv)
next
  case (Cons q rest)
  then have c: "dropWhile (\<lambda>c. c \<noteq> QUOTE) (c # cs) = q # rest" using assms by simp
  show ?thesis
  proof (cases "rest \<noteq> [] \<and> hd rest = QUOTE")
    case True
    show ?thesis using quotedField_cases(2) [OF c True] quotedField_cases(2) [OF Cons True] assms by simp
  next
    case False
    show ?thesis using quotedField_cases(3) [OF c False] quotedField_cases(3) [OF Cons False] assms by simp
  qed
qed

lemma quotedField_double: "quotedField (QUOTE # QUOTE # cs) = (QUOTE # fst (quotedField cs), snd (quotedField cs))"
  using quotedField_cases(2) [of "QUOTE # QUOTE # cs" QUOTE "QUOTE # cs"] by simp

lemma quotedField_close: "cs = [] \<or> hd cs \<noteq> QUOTE \<Longrightarrow> quotedField (QUOTE # cs) = ([], cs)"
  using quotedField_cases(3) [of "QUOTE # cs" QUOTE cs] by auto

lemma quotedField_spelled:
  assumes "c \<noteq> QUOTE"
  shows "quotedField (concat (map (\<lambda>c. if c = QUOTE then [QUOTE, QUOTE] else [c]) f) @ QUOTE # c # rest) = (f, c # rest)"
  by (induction f) (simp_all add: quotedField_other quotedField_double quotedField_close assms)

lemma unquotedRun_plain:
  assumes "d \<notin> set f" "LF \<notin> set f" "CR \<notin> set f" "c = d \<or> c = LF \<or> c = CR"
  shows "unquotedRun [d] (f @ c # rest) = (f, c # rest)"
  using assms by (induction f) auto

section \<open>Reading a table\<close>

definition midway :: "text16 list list \<Rightarrow> text16 list \<Rightarrow> bool \<Rightarrow> csv_state" where
  "midway rows row started = \<lparr>cvRows = rows, cvTotalRows = length rows, cvTotalCols = widest rows, cvColsDropped = False,
     cvRow = row, cvFieldCount = length row, cvField = [], cvStarted = started, cvAtFieldStart = True\<rparr>"

lemma read_field:
  assumes d: "d \<noteq> QUOTE" "d \<noteq> LF" "d \<noteq> CR" and f: "fst f \<or> plainField d (snd f)" and c: "c = d \<or> c = LF \<or> c = CR"
  shows "\<exists>b b'. csvLoop [d] None None (spellField f @ c # rest) (midway rows row s) =
    csvLoop [d] None None (c # rest) ((midway rows row s)\<lparr>cvField := snd f, cvStarted := b, cvAtFieldStart := b'\<rparr>)"
proof -
  have cq: "c \<noteq> QUOTE" using c d by (auto simp: QUOTE_def LF_def CR_def)
  obtain quoted g where fg: "f = (quoted, g)" by fastforce
  show ?thesis
  proof (cases quoted)
    case True
    have "csvLoop [d] None None (spellField f @ c # rest) (midway rows row s) =
        csvLoop [d] None None (c # rest) ((midway rows row s)\<lparr>cvStarted := True, cvField := g, cvAtFieldStart := False\<rparr>)"
      using True quotedField_spelled [OF cq, of g rest] by (simp add: spellField_def fg csvLoop_quote midway_def)
    then show ?thesis by (intro exI [of _ True] exI [of _ False]) (simp add: fg midway_def)
  next
    case nq: False
    then have plain: "plainField d g" using f by (simp add: fg)
    show ?thesis
    proof (cases g)
      case Nil
      then show ?thesis using nq by (intro exI [of _ s] exI [of _ True]) (simp add: fg spellField_def midway_def)
    next
      case (Cons x xs)
      have x: "x \<noteq> QUOTE" "x \<noteq> d" "\<not> (x = LF \<or> x = CR)" using plain Cons by (auto simp: plainField_def)
      have run: "unquotedRun [d] (x # xs @ c # rest) = (g, c # rest)"
        using unquotedRun_plain [of d g c rest] plain c Cons by (auto simp: plainField_def)
      have "csvLoop [d] None None (x # xs @ c # rest) (midway rows row s) = csvLoop [d] None None (c # rest)
          ((midway rows row s)\<lparr>cvField := g, cvStarted := True, cvAtFieldStart := False\<rparr>)"
        using csvLoop_run [of x "midway rows row s" "[d]" "xs @ c # rest" None None] x run by (simp add: midway_def)
      then show ?thesis using nq by (intro exI [of _ True] exI [of _ False]) (simp add: fg spellField_def Cons)
    qed
  qed
qed

lemma read_row:
  "d \<noteq> QUOTE \<Longrightarrow> d \<noteq> LF \<Longrightarrow> d \<noteq> CR \<Longrightarrow> fs \<noteq> [] \<Longrightarrow> \<forall>f \<in> set fs. fst f \<or> plainField d (snd f) \<Longrightarrow>
    csvLoop [d] None None (spellRow d fs @ (if crlf then [CR, LF] else [LF]) @ rest) (midway rows row s) =
    csvLoop [d] None None rest (midway (rows @ [row @ map snd fs]) [] False)"
proof (induction d fs arbitrary: row s rule: spellRow.induct)
  case (2 d f)
  let ?c = "if crlf then CR else LF" and ?r = "if crlf then LF # rest else rest"
  have dd: "d \<noteq> QUOTE" "d \<noteq> LF" "d \<noteq> CR" and ff: "fst f \<or> plainField d (snd f)" using 2 by auto
  have cc: "?c = d \<or> ?c = LF \<or> ?c = CR" by simp
  have spelt: "spellRow d [f] @ (if crlf then [CR, LF] else [LF]) @ rest = spellField f @ ?c # ?r" by simp
  obtain b b' where step: "csvLoop [d] None None (spellField f @ ?c # ?r) (midway rows row s) =
      csvLoop [d] None None (?c # ?r) ((midway rows row s)\<lparr>cvField := snd f, cvStarted := b, cvAtFieldStart := b'\<rparr>)"
    using read_field [OF dd ff cc, of ?r rows row s] by blast
  have nl: "\<not> prefix [d] (?c # ?r)" "?c = LF \<or> ?c = CR" using dd by auto
  have lf: "LF \<noteq> CR" by (simp add: LF_def CR_def)
  have "endRow None None ((midway rows row s)\<lparr>cvField := snd f, cvStarted := b, cvAtFieldStart := b'\<rparr>) =
      midway (rows @ [row @ [snd f]]) [] False"
    by (simp add: endRow_def endField_def keepingRow_def midway_def Let_def max_def)
  then show ?case unfolding spelt step csvLoop_newline [OF nl] using lf by simp
next
  case (3 d f g fs)
  have dd: "d \<noteq> QUOTE" "d \<noteq> LF" "d \<noteq> CR" and ff: "fst f \<or> plainField d (snd f)" using 3 by auto
  have cc: "d = d \<or> d = LF \<or> d = CR" by simp
  have spelt: "spellRow d (f # g # fs) @ (if crlf then [CR, LF] else [LF]) @ rest =
      spellField f @ d # (spellRow d (g # fs) @ (if crlf then [CR, LF] else [LF]) @ rest)" by simp
  obtain b b' where step: "csvLoop [d] None None (spellField f @ d # (spellRow d (g # fs) @ (if crlf then [CR, LF] else [LF]) @ rest)) (midway rows row s) =
      csvLoop [d] None None (d # (spellRow d (g # fs) @ (if crlf then [CR, LF] else [LF]) @ rest))
        ((midway rows row s)\<lparr>cvField := snd f, cvStarted := b, cvAtFieldStart := b'\<rparr>)"
    using read_field [OF dd ff cc, of "spellRow d (g # fs) @ (if crlf then [CR, LF] else [LF]) @ rest" rows row s] by blast
  let ?st = "(midway rows row s)\<lparr>cvField := snd f, cvStarted := b, cvAtFieldStart := b'\<rparr>"
  have dl: "\<not> (d = QUOTE \<and> cvAtFieldStart ?st)" "prefix [d] (d # xs)" for xs using 3 by auto
  have "endField None None (?st\<lparr>cvStarted := True\<rparr>) = midway rows (row @ [snd f]) True"
    by (simp add: endField_def keepingRow_def midway_def Let_def)
  then show ?case
    unfolding spelt step csvLoop_delimiter [OF dl] using 3 by simp
qed simp

lemma read_rows:
  "spellable d rows \<Longrightarrow> csvLoop [d] None None (spellTable d rows) (midway before [] False) =
     Some (midway (before @ contents rows) [] False)"
proof (induction rows arbitrary: before)
  case Nil
  then show ?case by (simp add: spellTable_def contents_def csvLoop_nil)
next
  case (Cons x rows)
  obtain crlf row where x: "x = (crlf, row)" by fastforce
  have spelt: "spellTable d (x # rows) = spellRow d row @ (if crlf then [CR, LF] else [LF]) @ spellTable d rows"
    by (simp add: spellTable_def x)
  have row: "d \<noteq> QUOTE" "d \<noteq> LF" "d \<noteq> CR" "row \<noteq> []" "\<forall>f \<in> set row. fst f \<or> plainField d (snd f)" "spellable d rows"
    using Cons.prems by (auto simp: spellable_def x)
  show ?case
    unfolding spelt read_row [OF row(1-5)] using Cons.IH [OF row(6)] by (simp add: contents_def x)
qed

section \<open>Properties\<close>

text \<open>C39: The caps of the table viewer only cut. With any non-empty delimiter the reader returns, uncapped it reports as many
  rows and columns as it returns, and under caps it returns exactly the first \<open>maxRows\<close> rows cut to their
  first \<open>maxCols\<close> fields, the counts of the whole file, and says it truncated just when a row or a field is missing.\<close>

theorem csv_caps_only_cut:
  assumes "delimiter \<noteq> []"
  shows "\<exists>t. parseDelimited text' delimiter None None = Some t \<and>
    tbTotalRows t = length (tbRows t) \<and> tbTotalCols t = widest (tbRows t) \<and> \<not> tbTruncated t \<and>
    parseDelimited text' delimiter maxRows maxCols = Some \<lparr>tbRows = map (takeO maxCols) (takeO maxRows (tbRows t)),
      tbTotalRows = tbTotalRows t, tbTotalCols = tbTotalCols t,
      tbTruncated = (\<not> (takeO maxRows (tbRows t) = tbRows t \<and> (\<forall>row \<in> set (tbRows t). takeO maxCols row = row)))\<rparr>"
proof -
  let ?src = "if text' \<noteq> [] \<and> hd text' = BOM then tl text' else text'"
  have start: "full_ok csvStart" "cutState maxRows maxCols csvStart = csvStart"
    by (simp_all add: full_ok_def csvStart_def widest_def cutState_def)
  obtain v where v: "csvLoop delimiter None None ?src csvStart = Some v" "full_ok v"
    and cut: "csvLoop delimiter maxRows maxCols ?src csvStart = Some (cutState maxRows maxCols v)"
    using csvLoop_cut [OF start(1), of delimiter maxRows maxCols ?src] assms unfolding start(2) by auto
  define w where "w = (if cvStarted v \<or> cvField v \<noteq> [] \<or> cvFieldCount v > 0 then endRow None None v else v)"
  have w: "full_ok w" "cvRow w = []"
    using endRow_cut(2) [OF v(2)] v(2) by (auto simp: w_def full_ok_def endRow_def Let_def)
  have cw: "(if cvStarted (cutState maxRows maxCols v) \<or> cvField (cutState maxRows maxCols v) \<noteq> [] \<or>
      cvFieldCount (cutState maxRows maxCols v) > 0 then endRow maxRows maxCols (cutState maxRows maxCols v)
      else cutState maxRows maxCols v) = cutState maxRows maxCols w"
    using endRow_cut(1) [OF v(2)] by (simp add: w_def)
  let ?t = "\<lparr>tbRows = cvRows w, tbTotalRows = length (cvRows w), tbTotalCols = widest (cvRows w), tbTruncated = False\<rparr>"
  have t: "csvEnd None None v = ?t"
    using w(1) unfolding csvEnd_def w_def [symmetric] by (simp add: full_ok_def)
  have trunc: "length (takeO maxRows rows) < length rows \<longleftrightarrow> takeO maxRows rows \<noteq> rows" for rows :: "text16 list list"
    by (auto simp: takeO_def split: option.splits)
  have "csvEnd maxRows maxCols (cutState maxRows maxCols v) = \<lparr>tbRows = map (takeO maxCols) (takeO maxRows (cvRows w)),
      tbTotalRows = length (cvRows w), tbTotalCols = widest (cvRows w),
      tbTruncated = (\<not> (takeO maxRows (cvRows w) = cvRows w \<and> (\<forall>row \<in> set (cvRows w). takeO maxCols row = row)))\<rparr>"
    using w unfolding csvEnd_def cw
    by (auto simp: full_ok_def Let_def trunc cutState_def exceeds_takeO)
  then show ?thesis
    by (intro exI [of _ ?t]) (simp add: parseDelimited_def v(1) cut t del: cutState_sel)
qed

text \<open>C40: Every spelling of a table is read back: for a one-unit delimiter that is no quote and no line break,
  any rows of at least one field, each field written quoted with its quotes doubled, or as it is when it
  holds no delimiter and no line break and does not begin with a quote, each row ended by a line feed with or
  without a carriage return, with or without a byte order mark in front (a text that begins with one of its
  own needs it), come back as exactly those rows, fields and counts.\<close>

theorem csv_reads_back:
  assumes "spellable d rows" and "mark = [BOM] \<or> (mark = [] \<and> (spellTable d rows = [] \<or> hd (spellTable d rows) \<noteq> BOM))"
  shows "parseDelimited (mark @ spellTable d rows) [d] None None = Some \<lparr>tbRows = contents rows,
    tbTotalRows = length rows, tbTotalCols = widest (contents rows), tbTruncated = False\<rparr>"
proof -
  have src: "(if mark @ spellTable d rows \<noteq> [] \<and> hd (mark @ spellTable d rows) = BOM then tl (mark @ spellTable d rows)
      else mark @ spellTable d rows) = spellTable d rows" using assms(2) by auto
  have start: "csvStart = midway [] [] False" by (simp add: csvStart_def midway_def widest_def)
  show ?thesis
    unfolding parseDelimited_def src start read_rows [OF assms(1)] Let_def
    by (simp add: csvEnd_def midway_def contents_def)
qed

section \<open>Runs\<close>

lemma csv_caps_only_cut_witness:
  "\<exists>t. parseDelimited [97, 44, 98, 10, 34, 10, 34, 34] [44] None None = Some t \<and>
     parseDelimited [97, 44, 98, 10, 34, 10, 34, 34] [44] (Some 1) (Some 1) =
       Some \<lparr>tbRows = map (take 1) (take 1 (tbRows t)), tbTotalRows = length (tbRows t), tbTotalCols = widest (tbRows t), tbTruncated = True\<rparr>"
proof -
  have rows: "map_option tbRows (parseDelimited [97, 44, 98, 10, 34, 10, 34, 34] [44] None None) = Some [[[97], [98]], [[10, 34]]]"
    by code_simp
  show ?thesis
    using csv_caps_only_cut [of "[44]" "[97, 44, 98, 10, 34, 10, 34, 34]" "Some 1" "Some 1"] rows by (auto simp: takeO_def)
qed

lemma csv_reads_back_witness:
  "parseDelimited (spellTable 44 [(True, [(False, [97, 34]), (True, [44, 34, 10])]), (False, [(False, [])])]) [44] None None =
     Some \<lparr>tbRows = [[[97, 34], [44, 34, 10]], [[]]], tbTotalRows = 2, tbTotalCols = 2, tbTruncated = False\<rparr>"
proof -
  have "spellable 44 [(True, [(False, [97, 34]), (True, [44, 34, 10])]), (False, [(False, [])])]"
    by (simp add: spellable_def plainField_def QUOTE_def LF_def CR_def)
  moreover have "hd (spellTable 44 [(True, [(False, [97, 34]), (True, [44, 34, 10])]), (False, [(False, [])])]) \<noteq> BOM"
    by (simp add: spellTable_def spellField_def BOM_def)
  ultimately show ?thesis
    using csv_reads_back [of 44 "[(True, [(False, [97, 34]), (True, [44, 34, 10])]), (False, [(False, [])])]" "[]"]
    by (simp add: contents_def widest_def)
qed

end
