(* ===== verification/Frontmatter.thy ===== *)
theory Frontmatter
  imports Bytes
begin

text \<open>
  The properties of a note: the narrow reader of YAML frontmatter
  (\<open>desktop/src/lib/frontmatter/parse.ts\<close>), the region it reads (\<open>lib/editor/frontmatter.ts\<close>) and the
  edits of the panel as replacements of one span (\<open>frontmatter/edit.ts\<close>). A document is its lines of
  UTF-16 units, as the editor's \<open>Text\<close> has them; a line break counts as one unit. A scan position is
  the rest of the text. What JavaScript's \<open>Number\<close> and \<open>String\<close> make of a numeral is the environment.
\<close>

section \<open>Documents\<close>

type_synonym document = "text16 list"

definition isSpace :: "16 word \<Rightarrow> bool" where
  "isSpace c \<longleftrightarrow> (9 \<le> c \<and> c \<le> 13) \<or> c = 32 \<or> c = 160 \<or> c = 0x1680 \<or> (0x2000 \<le> c \<and> c \<le> 0x200A) \<or>
     c = 0x2028 \<or> c = 0x2029 \<or> c = 0x202F \<or> c = 0x205F \<or> c = 0x3000 \<or> c = 0xFEFF"

definition trimStart :: "text16 \<Rightarrow> text16" where "trimStart = dropWhile isSpace"
definition trimEnd :: "text16 \<Rightarrow> text16" where "trimEnd s = rev (dropWhile isSpace (rev s))"
definition trim :: "text16 \<Rightarrow> text16" where "trim s = trimEnd (trimStart s)"

fun docText :: "document \<Rightarrow> text16" where
  "docText [] = []"
| "docText [l] = l"
| "docText (l # ls) = l @ 10 # docText ls"

definition lineFrom :: "document \<Rightarrow> nat \<Rightarrow> nat" where
  "lineFrom doc n = sum_list (map (\<lambda>l. length l + 1) (take (n - 1) doc))"

definition lineText :: "document \<Rightarrow> nat \<Rightarrow> text16" where
  "lineText doc n = doc ! (n - 1)"

definition lineTo :: "document \<Rightarrow> nat \<Rightarrow> nat" where
  "lineTo doc n = lineFrom doc n + length (lineText doc n)"

definition sliceString :: "document \<Rightarrow> nat \<Rightarrow> nat \<Rightarrow> text16" where
  "sliceString doc a b = take (b - a) (drop a (docText doc))"

record frontmatter_range =
  fmFrom :: nat
  fmTo :: nat
  fmOpenLine :: nat
  fmCloseLine :: nat
  fmContentFrom :: nat
  fmContentTo :: nat

definition withoutCR :: "text16 \<Rightarrow> text16" where
  "withoutCR s = (if s \<noteq> [] \<and> last s = 13 then butlast s else s)"

definition isFence :: "text16 \<Rightarrow> bool" where
  "isFence s \<longleftrightarrow> withoutCR s = [45, 45, 45]"

definition findFrontmatter :: "document \<Rightarrow> frontmatter_range option" where
  "findFrontmatter doc =
     (if length doc < 2 \<or> \<not> isFence (lineText doc 1) then None
      else map_option (\<lambda>n. \<lparr>fmFrom = 0, fmTo = lineTo doc n, fmOpenLine = 1, fmCloseLine = n,
             fmContentFrom = lineFrom doc 2,
             fmContentTo = (if n = 2 then lineFrom doc n else lineTo doc (n - 1))\<rparr>)
           (find (\<lambda>n. isFence (lineText doc n)) [2..<length doc + 1]))"

section \<open>Values and entries\<close>

datatype 'n prop_value = PText text16 | PNumber 'n | PCheckbox bool | PDate text16 | PDatetime text16 | PList "text16 list"

datatype list_style = Flow | Block

datatype parse_failure = Nested | UnsupportedScalar | DuplicateKey | Malformed

record 'n fm_env =
  feNumber :: "text16 \<Rightarrow> 'n"
  feFinite :: "'n \<Rightarrow> bool"
  feShow :: "'n \<Rightarrow> text16"

record span =
  spFrom :: nat
  spTo :: nat

record 'n prop_entry =
  peKey :: text16
  peKeySpan :: span
  peLineSpan :: span
  peValueSpan :: span
  peValue :: "'n prop_value"
  peRaw :: text16
  peListStyle :: "list_style option"
  peListIndent :: "text16 option"

section \<open>Scanning\<close>

definition isQuote :: "16 word \<Rightarrow> bool" where "isQuote c \<longleftrightarrow> c = 34 \<or> c = 39"
definition isDigit :: "16 word \<Rightarrow> bool" where "isDigit c \<longleftrightarrow> 48 \<le> c \<and> c \<le> 57"
definition startsQuoted :: "text16 \<Rightarrow> bool" where "startsQuoted s \<longleftrightarrow> s \<noteq> [] \<and> isQuote (hd s)"
definition startsWith :: "16 word \<Rightarrow> text16 \<Rightarrow> bool" where "startsWith c s \<longleftrightarrow> s \<noteq> [] \<and> hd s = c"
definition refusedSigil :: "16 word \<Rightarrow> bool" where "refusedSigil c \<longleftrightarrow> c \<in> {124, 62, 38, 42, 33}"

text \<open>The length of a run up to a \<open>#\<close> at its start or after a space; \<open>fresh\<close>: the unit before is one.\<close>

fun unquotedScan :: "bool \<Rightarrow> text16 \<Rightarrow> nat" where
  "unquotedScan fresh [] = 0"
| "unquotedScan fresh (c # cs) = (if c = 35 \<and> fresh then 0 else Suc (unquotedScan (isSpace c) cs))"

definition unquotedEnd :: "text16 \<Rightarrow> nat" where "unquotedEnd = unquotedScan True"

text \<open>The units up to and with the closing quote.\<close>

function quotedScan :: "16 word \<Rightarrow> text16 \<Rightarrow> nat option" where
  "quotedScan q [] = None"
| "quotedScan q (c # cs) =
     (if q = 34 \<and> c = 92 then map_option (\<lambda>k. k + 2) (quotedScan q (tl cs))
      else if c = q then
        (if q = 39 \<and> startsWith 39 cs then map_option (\<lambda>k. k + 2) (quotedScan q (tl cs)) else Some 1)
      else map_option Suc (quotedScan q cs))"
  by pat_completeness auto
termination by (relation "measure (\<lambda>(q, cs). length cs)") auto

definition quotedEnd :: "text16 \<Rightarrow> nat option" where
  "quotedEnd s = map_option Suc (quotedScan (hd s) (tl s))"

lemma quotedEnd_pos: "quotedEnd s = Some k \<Longrightarrow> 0 < k"
  by (auto simp: quotedEnd_def)

function flowScan :: "text16 \<Rightarrow> nat option" where
  "flowScan [] = None"
| "flowScan (c # cs) =
     (if isQuote c then
        (case quotedEnd (c # cs) of None \<Rightarrow> None | Some k \<Rightarrow> map_option (\<lambda>j. k + j) (flowScan (drop k (c # cs))))
      else if c = 93 then Some 1
      else if c = 91 \<or> c = 123 then None
      else map_option Suc (flowScan cs))"
  by pat_completeness auto
termination by (relation "measure length") (auto dest: quotedEnd_pos)

definition flowEnd :: "text16 \<Rightarrow> nat option" where
  "flowEnd s = map_option Suc (flowScan (tl s))"

text \<open>\<open>replace(/ab/g, c)\<close> and \<open>replace(/\\\\(["\\\\/])/g, "$1")\<close>.\<close>

fun replacePair :: "16 word \<Rightarrow> 16 word \<Rightarrow> 16 word \<Rightarrow> text16 \<Rightarrow> text16" where
  "replacePair a b c (x # y # cs) = (if x = a \<and> y = b then c # replacePair a b c cs else x # replacePair a b c (y # cs))"
| "replacePair a b c cs = cs"

fun dropEscapes :: "text16 \<Rightarrow> text16" where
  "dropEscapes (x # y # cs) =
     (if x = 92 \<and> (y = 34 \<or> y = 92 \<or> y = 47) then y # dropEscapes cs else x # dropEscapes (y # cs))"
| "dropEscapes cs = cs"

definition unquote :: "text16 \<Rightarrow> text16" where
  "unquote token =
     (if length token \<ge> 2 \<and> hd token = 34 \<and> last token = 34
      then dropEscapes (replacePair 92 116 9 (replacePair 92 110 10 (butlast (tl token))))
      else if length token \<ge> 2 \<and> hd token = 39 \<and> last token = 39
      then replacePair 39 39 39 (butlast (tl token))
      else token)"

function splitScan :: "text16 \<Rightarrow> text16 \<Rightarrow> text16 list option" where
  "splitScan cur [] = Some [cur]"
| "splitScan cur (c # cs) =
     (if isQuote c then
        (case quotedEnd (c # cs) of None \<Rightarrow> None | Some k \<Rightarrow> splitScan (cur @ take k (c # cs)) (drop k (c # cs)))
      else if c = 44 then map_option (\<lambda>out. cur # out) (splitScan [] cs)
      else splitScan (cur @ [c]) cs)"
  by pat_completeness auto
termination by (relation "measure (\<lambda>(cur, cs). length cs)") (auto dest: quotedEnd_pos)

definition splitFlow :: "text16 \<Rightarrow> text16 list option" where
  "splitFlow body =
     map_option (\<lambda>out. (let items = map (\<lambda>s. unquote (trim s)) out in if items = [[]] then [] else items)) (splitScan [] body)"

section \<open>Scalars\<close>

text \<open>\<open>DATE_RE\<close>, \<open>DATETIME_RE\<close> and \<open>NUMBER_RE\<close>: each optional part is decided by its first unit.\<close>

definition digitsAt :: "nat \<Rightarrow> text16 \<Rightarrow> bool" where
  "digitsAt k s \<longleftrightarrow> length s \<ge> k \<and> list_all isDigit (take k s)"

definition dateAt :: "text16 \<Rightarrow> bool" where
  "dateAt s \<longleftrightarrow> length s \<ge> 10 \<and> digitsAt 4 s \<and> s ! 4 = 45 \<and> digitsAt 2 (drop 5 s) \<and> s ! 7 = 45 \<and> digitsAt 2 (drop 8 s)"

definition isDate :: "text16 \<Rightarrow> bool" where
  "isDate s \<longleftrightarrow> length s = 10 \<and> dateAt s"

definition isZone :: "text16 \<Rightarrow> bool" where
  "isZone s \<longleftrightarrow> s = [] \<or> s = [90] \<or>
     ((hd s = 43 \<or> hd s = 45) \<and> digitsAt 2 (tl s) \<and>
        (let r = drop 3 s; r' = (if startsWith 58 r then tl r else r) in length r' = 2 \<and> digitsAt 2 r'))"

definition isDatetime :: "text16 \<Rightarrow> bool" where
  "isDatetime s \<longleftrightarrow> dateAt s \<and> length s \<ge> 16 \<and> (s ! 10 = 84 \<or> s ! 10 = 32) \<and> digitsAt 2 (drop 11 s) \<and> s ! 13 = 58 \<and>
     digitsAt 2 (drop 14 s) \<and>
     (let r = drop 16 s;
          r1 = (if startsWith 58 r \<and> digitsAt 2 (tl r) then drop 3 r else r);
          r2 = (if startsWith 46 r1 \<and> digitsAt 1 (tl r1) then dropWhile isDigit (tl r1) else r1)
      in isZone r2)"

definition isNumeral :: "text16 \<Rightarrow> bool" where
  "isNumeral s \<longleftrightarrow>
     (let s1 = (if startsWith 45 s then tl s else s);
          ds = takeWhile isDigit s1;
          s2 = dropWhile isDigit s1;
          s3 = (if startsWith 46 s2 \<and> digitsAt 1 (tl s2) then dropWhile isDigit (tl s2) else s2);
          s4 = (if startsWith 101 s3 \<or> startsWith 69 s3
             then (let e = tl s3; e' = (if startsWith 43 e \<or> startsWith 45 e then tl e else e)
                   in if digitsAt 1 e' then dropWhile isDigit e' else s3)
             else s3)
      in ds \<noteq> [] \<and> (ds = [48] \<or> hd ds \<noteq> 48) \<and> s4 = [])"

definition classify :: "'n fm_env \<Rightarrow> text16 \<Rightarrow> 'n prop_value option" where
  "classify env token =
     (if token = [] then Some (PText [])
      else if refusedSigil (hd token) then None
      else if isQuote (hd token) then Some (PText (unquote token))
      else if token = [116, 114, 117, 101] \<or> token = [102, 97, 108, 115, 101]
        then Some (PCheckbox (token = [116, 114, 117, 101]))
      else if isNumeral token \<and> feFinite env (feNumber env token) then Some (PNumber (feNumber env token))
      else if isDate token then Some (PDate token)
      else if isDatetime token then Some (PDatetime token)
      else Some (PText token))"

section \<open>Reading\<close>

text \<open>A key: its name, whether it is quoted, and what follows its colon.\<close>

definition indexOf :: "16 word \<Rightarrow> text16 \<Rightarrow> nat option" where
  "indexOf c s = (if c \<in> set s then Some (length (takeWhile (\<lambda>x. x \<noteq> c) s)) else None)"

definition readKey :: "text16 \<Rightarrow> parse_failure + (text16 \<times> bool \<times> nat)" where
  "readKey rest =
     (case (if startsQuoted rest then quotedEnd rest else indexOf 58 rest) of
        None \<Rightarrow> Inl Malformed
      | Some keyEnd \<Rightarrow>
          (let keyToken = trim (take keyEnd rest); afterKey = drop keyEnd rest
           in if keyToken = [] then Inl Malformed
              else
                (case indexOf 58 afterKey of
                   None \<Rightarrow> Inl Malformed
                 | Some colon \<Rightarrow>
                     if trim (take colon afterKey) \<noteq> [] then Inl Malformed
                     else Inr (unquote keyToken, startsQuoted rest, keyEnd + colon + 1))))"

text \<open>A value after its colon: the value, its style, and where it ends after the colon (\<open>None\<close>: at the
  end of the line).\<close>

definition readValue :: "'n fm_env \<Rightarrow> text16 \<Rightarrow> parse_failure + ('n prop_value \<times> list_style option \<times> nat option)" where
  "readValue env tail =
     (let tailStart = length (takeWhile (\<lambda>c. c = 32) tail); token0 = drop tailStart tail
      in if token0 = [] \<or> startsWith 35 token0 then
           Inr (PText [], None, if startsWith 35 token0 then Some 0 else None)
         else if startsWith 91 token0 then
           (case flowEnd token0 of
              None \<Rightarrow> Inl Malformed
            | Some e \<Rightarrow>
                (case splitFlow (take (e - 2) (tl token0)) of
                   None \<Rightarrow> Inl Malformed
                 | Some items \<Rightarrow> Inr (PList items, Some Flow, Some (tailStart + e))))
         else if startsWith 123 token0 then Inl Nested
         else
           (case (if startsQuoted token0 then quotedEnd token0 else Some (unquotedEnd token0)) of
              None \<Rightarrow> Inl Malformed
            | Some e \<Rightarrow>
                (let token = trimEnd (take e token0)
                 in case classify env token of
                      None \<Rightarrow> Inl UnsupportedScalar
                    | Some v \<Rightarrow> Inr (v, None, Some (tailStart + length token)))))"

text \<open>One item of a block list.\<close>

definition hasColonSpace :: "text16 \<Rightarrow> bool" where
  "hasColonSpace s \<longleftrightarrow> list_ex (\<lambda>(a, b). a = 58 \<and> b = 32) (zip s (tl s))"

definition readItem :: "text16 \<Rightarrow> parse_failure + text16" where
  "readItem rest =
     (let itemText = (if rest = [45] then [] else trim (drop 2 rest))
      in case (if startsQuoted itemText then quotedEnd itemText else Some (unquotedEnd itemText)) of
           None \<Rightarrow> Inl Malformed
         | Some e \<Rightarrow>
             (let token = trim (take e itemText)
              in if token \<noteq> [] \<and> refusedSigil (hd token) then Inl UnsupportedScalar
                 else if startsWith 123 token then Inl Nested
                 else if hasColonSpace token \<or> (token \<noteq> [] \<and> last token = 58) then Inl Nested
                 else Inr (unquote token)))"

record 'n parse_state =
  psEntries :: "'n prop_entry list"
  psSeen :: "text16 list"
  psPending :: "'n prop_entry option"
  psItems :: "text16 list"

definition flushEntry :: "document \<Rightarrow> 'n parse_state \<Rightarrow> 'n parse_state" where
  "flushEntry doc st =
     (case psPending st of
        None \<Rightarrow> st
      | Some e \<Rightarrow>
          (let e' = (if peListStyle e = Some Block
             then e\<lparr>peValue := PList (psItems st),
                     peRaw := sliceString doc (spFrom (peValueSpan e)) (spTo (peValueSpan e))\<rparr> else e)
           in st\<lparr>psEntries := psEntries st @ [e'], psPending := None, psItems := []\<rparr>))"

definition itemLine :: "document \<Rightarrow> nat \<Rightarrow> text16 \<Rightarrow> text16 \<Rightarrow> 'n parse_state \<Rightarrow> parse_failure + 'n parse_state" where
  "itemLine doc n indent rest st =
     (case psPending st of
        None \<Rightarrow> Inl Malformed
      | Some e \<Rightarrow>
          if peListStyle e = Some Flow then Inl Malformed
          else
            (case readItem rest of
               Inl err \<Rightarrow> Inl err
             | Inr item \<Rightarrow>
                 Inr (st\<lparr>psPending := Some (e\<lparr>peListStyle := Some Block, peListIndent := Some indent,
                          peLineSpan := (peLineSpan e)\<lparr>spTo := lineTo doc n\<rparr>,
                          peValueSpan := (peValueSpan e)\<lparr>spTo := lineTo doc n\<rparr>\<rparr>),
                        psItems := psItems st @ [item]\<rparr>)))"

definition keyLine :: "'n fm_env \<Rightarrow> document \<Rightarrow> nat \<Rightarrow> text16 \<Rightarrow> 'n parse_state \<Rightarrow> parse_failure + 'n parse_state" where
  "keyLine env doc n rest st0 =
     (let st = flushEntry doc st0
      in case readKey rest of
           Inl err \<Rightarrow> Inl err
         | Inr (key, quotedKey, at) \<Rightarrow>
             if key \<in> set (psSeen st) then Inl DuplicateKey
             else
               (let keyFrom = lineFrom doc n + (if quotedKey then 1 else 0); valueFrom = lineFrom doc n + at
                in case readValue env (drop at rest) of
                     Inl err \<Rightarrow> Inl err
                   | Inr (v, style, len) \<Rightarrow>
                       (let valueTo = (case len of None \<Rightarrow> lineTo doc n | Some k \<Rightarrow> valueFrom + k)
                        in Inr (st\<lparr>psSeen := psSeen st @ [key],
                             psPending := Some \<lparr>peKey = key,
                               peKeySpan = \<lparr>spFrom = keyFrom, spTo = keyFrom + length key\<rparr>,
                               peLineSpan = \<lparr>spFrom = lineFrom doc n, spTo = lineTo doc n\<rparr>,
                               peValueSpan = \<lparr>spFrom = valueFrom, spTo = valueTo\<rparr>,
                               peValue = v, peRaw = sliceString doc valueFrom valueTo,
                               peListStyle = style, peListIndent = None\<rparr>\<rparr>))))"

definition stepLine :: "'n fm_env \<Rightarrow> document \<Rightarrow> nat \<Rightarrow> 'n parse_state \<Rightarrow> parse_failure + 'n parse_state" where
  "stepLine env doc n st =
     (let body = withoutCR (lineText doc n)
      in if trim body = [] then Inr st
         else
           (let indent = takeWhile (\<lambda>c. c = 32 \<or> c = 9) body; rest = drop (length indent) body
            in if 9 \<in> set indent then Inl Malformed
               else if startsWith 35 rest then Inr st
               else if rest = [45] \<or> take 2 rest = [45, 32] then itemLine doc n indent rest st
               else if indent \<noteq> [] then Inl Nested
               else if rest = [46, 46, 46] \<or> rest = [45, 45, 45] then Inl Malformed
               else keyLine env doc n rest st))"

fun parseLines :: "'n fm_env \<Rightarrow> document \<Rightarrow> nat list \<Rightarrow> 'n parse_state \<Rightarrow> parse_failure + 'n parse_state" where
  "parseLines env doc [] st = Inr st"
| "parseLines env doc (n # ns) st =
     (case stepLine env doc n st of Inl err \<Rightarrow> Inl err | Inr st' \<Rightarrow> parseLines env doc ns st')"

definition parseFrontmatter :: "'n fm_env \<Rightarrow> document \<Rightarrow> frontmatter_range \<Rightarrow> parse_failure + 'n prop_entry list" where
  "parseFrontmatter env doc fm =
     (case parseLines env doc [fmOpenLine fm + 1..<fmCloseLine fm]
             \<lparr>psEntries = [], psSeen = [], psPending = None, psItems = []\<rparr> of
        Inl err \<Rightarrow> Inl err
      | Inr st \<Rightarrow> Inr (psEntries (flushEntry doc st)))"

section \<open>Writing\<close>

record span_change =
  scFrom :: nat
  scTo :: nat
  scInsert :: text16

definition needsQuotes :: "text16 \<Rightarrow> bool" where
  "needsQuotes s \<longleftrightarrow> s \<noteq> [] \<and>
     (s \<noteq> trim s \<or>
      list_ex (\<lambda>c. c \<in> {58, 35, 44, 91, 93, 123, 125, 38, 42, 33, 124, 62, 39, 34, 37, 64, 96}) s \<or>
      hd s = 45 \<or> hd s = 63 \<or> list_ex (\<lambda>c. c \<in> {10, 13, 9}) s)"

definition replaceUnit :: "16 word \<Rightarrow> text16 \<Rightarrow> text16 \<Rightarrow> text16" where
  "replaceUnit c new s = concat (map (\<lambda>x. if x = c then new else [x]) s)"

definition quoteScalar :: "text16 \<Rightarrow> text16" where
  "quoteScalar s = 34 # replaceUnit 9 [92, 116] (replaceUnit 10 [92, 110] (replaceUnit 34 [92, 34] (replaceUnit 92 [92, 92] s))) @ [34]"

definition scalarToken :: "text16 \<Rightarrow> text16" where
  "scalarToken s = (if needsQuotes s then quoteScalar s else s)"

fun joinWith :: "text16 \<Rightarrow> text16 list \<Rightarrow> text16" where
  "joinWith sep [] = []"
| "joinWith sep [x] = x"
| "joinWith sep (x # y # ys) = x @ sep @ joinWith sep (y # ys)"

definition serializeText :: "text16 \<Rightarrow> text16" where
  "serializeText s = (if s = [] then [] else 32 # scalarToken s)"

definition serializeValue :: "'n fm_env \<Rightarrow> 'n prop_value \<Rightarrow> list_style \<Rightarrow> text16 \<Rightarrow> text16" where
  "serializeValue env v style indent =
     (case v of
        PCheckbox b \<Rightarrow> (if b then [32, 116, 114, 117, 101] else [32, 102, 97, 108, 115, 101])
      | PNumber x \<Rightarrow> 32 # feShow env x
      | PList items \<Rightarrow>
          if items = [] then [32, 91, 93]
          else if style = Block then 10 # joinWith [10] (map (\<lambda>i. indent @ [45, 32] @ scalarToken i) items)
          else 32 # 91 # joinWith [44, 32] (map scalarToken items) @ [93]
      | PText s \<Rightarrow> serializeText s
      | PDate s \<Rightarrow> serializeText s
      | PDatetime s \<Rightarrow> serializeText s)"

definition isList :: "'n prop_value \<Rightarrow> bool" where
  "isList v \<longleftrightarrow> (case v of PList _ \<Rightarrow> True | _ \<Rightarrow> False)"

definition planSetValue :: "'n fm_env \<Rightarrow> 'n prop_entry \<Rightarrow> 'n prop_value \<Rightarrow> span_change list" where
  "planSetValue env e v =
     (let insert' = serializeValue env v
            (if isList v then (case peListStyle e of Some s \<Rightarrow> s | None \<Rightarrow> Flow) else Flow)
            (case peListIndent e of Some i \<Rightarrow> i | None \<Rightarrow> [32, 32])
      in if insert' = peRaw e then [] else [\<lparr>scFrom = spFrom (peValueSpan e), scTo = spTo (peValueSpan e), scInsert = insert'\<rparr>])"

definition keyText :: "text16 \<Rightarrow> text16" where
  "keyText key = (if needsQuotes key then quoteScalar key else key)"

definition planRenameKey :: "'n prop_entry \<Rightarrow> text16 \<Rightarrow> span_change list" where
  "planRenameKey e nextKey =
     (let key = trim nextKey
      in if key = [] \<or> key = peKey e then []
         else [\<lparr>scFrom = spFrom (peKeySpan e), scTo = spTo (peKeySpan e), scInsert = keyText key\<rparr>])"

definition planDeleteProperty :: "document \<Rightarrow> 'n prop_entry \<Rightarrow> span_change list" where
  "planDeleteProperty doc e =
     [\<lparr>scFrom = spFrom (peLineSpan e), scTo = min (length (docText doc)) (spTo (peLineSpan e) + 1), scInsert = []\<rparr>]"

definition planAddProperty :: "'n fm_env \<Rightarrow> document \<Rightarrow> frontmatter_range option \<Rightarrow> 'n prop_entry list \<Rightarrow> text16
    \<Rightarrow> 'n prop_value \<Rightarrow> span_change list" where
  "planAddProperty env doc fm entries key v =
     (let line = keyText key @ 58 # serializeValue env v Flow [32, 32]
      in case fm of
           None \<Rightarrow> [\<lparr>scFrom = 0, scTo = 0, scInsert = [45, 45, 45, 10] @ line @ [10, 45, 45, 45, 10]\<rparr>]
         | Some r \<Rightarrow>
             if entries \<noteq> [] then
               (let at = spTo (peLineSpan (last entries)) in [\<lparr>scFrom = at, scTo = at, scInsert = 10 # line\<rparr>])
             else (let at = lineFrom doc (fmCloseLine r) in [\<lparr>scFrom = at, scTo = at, scInsert = line @ [10]\<rparr>]))"

text \<open>The editor (CodeMirror, not under src/) applies a change to its text and splits it into lines again; of its
  line breaks the line feed, the only one in the texts considered.\<close>

fun splitLines :: "text16 \<Rightarrow> document" where
  "splitLines [] = [[]]"
| "splitLines (c # cs) = (if c = 10 then [] # splitLines cs else (case splitLines cs of l # ls \<Rightarrow> (c # l) # ls | [] \<Rightarrow> [[c]]))"

definition applyChange :: "document \<Rightarrow> span_change \<Rightarrow> document" where
  "applyChange doc ch = splitLines (take (scFrom ch) (docText doc) @ scInsert ch @ drop (scTo ch) (docText doc))"

definition applyChanges :: "document \<Rightarrow> span_change list \<Rightarrow> document" where
  "applyChanges doc chs = foldr (\<lambda>ch d. applyChange d ch) chs doc"

end
