(* ===== verification/Fm_Read.thy ===== *)
theory Fm_Read
  imports Frontmatter
begin

text \<open>
  What the panel writes is what the reader reads: quoting and its inverse, scalars, flow lists.
\<close>

section \<open>Quoting\<close>

text \<open>The texts whose quoted form is read back: no carriage return and no backslash before n or t.\<close>

fun escapesSafe :: "text16 \<Rightarrow> bool" where
  "escapesSafe (x # y # cs) \<longleftrightarrow> \<not> (x = 92 \<and> (y = 110 \<or> y = 116)) \<and> escapesSafe (y # cs)"
| "escapesSafe cs \<longleftrightarrow> True"

text \<open>The unit a text's unit is written as between quotes.\<close>

definition quoted1 :: "16 word \<Rightarrow> text16" where
  "quoted1 c = (if c = 92 then [92, 92] else if c = 34 then [92, 34] else if c = 10 then [92, 110] else if c = 9 then [92, 116] else [c])"

lemma replaceUnit_simps [simp]:
  "replaceUnit c new [] = []" "replaceUnit c new (x # xs) = (if x = c then new else [x]) @ replaceUnit c new xs"
  "replaceUnit c new (xs @ ys) = replaceUnit c new xs @ replaceUnit c new ys"
  by (simp_all add: replaceUnit_def)

lemma quoteScalar_eq: "quoteScalar s = 34 # concat (map quoted1 s) @ [34]"
proof -
  have "replaceUnit 9 [92, 116] (replaceUnit 10 [92, 110] (replaceUnit 34 [92, 34] (replaceUnit 92 [92, 92] s))) = concat (map quoted1 s)"
    by (induction s) (auto simp: quoted1_def)
  then show ?thesis by (simp add: quoteScalar_def)
qed

text \<open>Undoing the escapes one kind at a time.\<close>

definition quoted2 :: "16 word \<Rightarrow> text16" where
  "quoted2 c = (if c = 92 then [92, 92] else if c = 34 then [92, 34] else if c = 9 then [92, 116] else [c])"

definition quoted3 :: "16 word \<Rightarrow> text16" where
  "quoted3 c = (if c = 92 then [92, 92] else if c = 34 then [92, 34] else [c])"

lemma replacePair_one: "x \<noteq> a \<Longrightarrow> replacePair a b c (x # xs) = x # replacePair a b c xs"
  by (cases xs) auto

lemma replacePair_two: "(y = a \<Longrightarrow> hd (xs @ [0]) \<noteq> b) \<Longrightarrow> y \<noteq> b \<Longrightarrow>
  replacePair a b c (a # y # xs) = a # y # replacePair a b c xs"
  by (cases xs; cases "y = a") (auto simp: replacePair_one)

lemma dropEscapes_one: "x \<noteq> 92 \<Longrightarrow> dropEscapes (x # xs) = x # dropEscapes xs"
  by (cases xs) auto

text \<open>What any quoted text reads back as: the three replacements behind the four of \<open>quoteScalar\<close>.\<close>

fun readBack :: "text16 \<Rightarrow> text16" where
  "readBack (x # y # cs) =
     (if x = 92 \<and> y = 110 then 92 # 10 # readBack cs
      else if x = 92 \<and> y = 116 then 92 # 9 # readBack cs
      else x # readBack (y # cs))"
| "readBack cs = cs"

text \<open>The text after the first and after the second replacement.\<close>

fun back1 :: "text16 \<Rightarrow> text16" where
  "back1 (x # y # cs) = (if x = 92 \<and> y = 110 then 92 # 10 # back1 cs else quoted2 x @ back1 (y # cs))"
| "back1 [x] = quoted2 x"
| "back1 [] = []"

fun back2 :: "text16 \<Rightarrow> text16" where
  "back2 (x # y # cs) =
     (if x = 92 \<and> y = 110 then 92 # 10 # back2 cs
      else if x = 92 \<and> y = 116 then 92 # 9 # back2 cs
      else quoted3 x @ back2 (y # cs))"
| "back2 [x] = quoted3 x"
| "back2 [] = []"

lemma back1_other: "x \<noteq> 92 \<Longrightarrow> back1 (x # cs) = quoted2 x @ back1 cs"
  by (cases cs) simp_all

lemma back1_hd: "y \<noteq> 116 \<Longrightarrow> hd (back1 (y # cs) @ [0]) \<noteq> 116"
  by (cases cs) (auto simp: quoted2_def)

lemma pass1: "replacePair 92 110 10 (concat (map quoted1 s)) = back1 s"
proof (induction s rule: back1.induct)
  case (1 x y cs)
  show ?case
  proof (cases "x = 92 \<and> y = 110")
    case True
    then show ?thesis using "1.IH"(1) [OF True] by (simp add: quoted1_def)
  next
    case False
    then have h: "x = 92 \<Longrightarrow> hd (concat (map quoted1 (y # cs)) @ [0]) \<noteq> 110" by (auto simp: quoted1_def)
    then have "replacePair 92 110 10 (quoted1 x @ concat (map quoted1 (y # cs))) = quoted2 x @ back1 (y # cs)"
      using "1.IH"(2) [OF False] replacePair_two [of 92 92 "concat (map quoted1 (y # cs))" 110 10]
      by (auto simp: quoted1_def [of x] quoted2_def [of x] replacePair_one)
    then show ?thesis using False by auto
  qed
qed (auto simp: quoted1_def quoted2_def)

lemma pass2: "replacePair 92 116 9 (back1 s) = back2 s"
proof (induction s rule: back2.induct)
  case (1 x y cs)
  consider "x = 92 \<and> y = 110" | "x = 92 \<and> y = 116" | "\<not> (x = 92 \<and> y = 110)" "\<not> (x = 92 \<and> y = 116)" by blast
  then show ?case
  proof cases
    case 1
    then show ?thesis using "1.IH"(1) by (simp add: replacePair_one)
  next
    case 2
    then show ?thesis using "1.IH"(2) by (simp add: back1_other quoted2_def)
  next
    case 3
    have "x = 92 \<Longrightarrow> hd (back1 (y # cs) @ [0]) \<noteq> 116" using back1_hd 3(2) by blast
    then have "replacePair 92 116 9 (quoted2 x @ back1 (y # cs)) = quoted3 x @ back2 (y # cs)"
      using "1.IH"(3) [OF 3] replacePair_two [of 92 92 "back1 (y # cs)" 116 9]
      by (auto simp: quoted2_def [of x] quoted3_def [of x] replacePair_one)
    then show ?thesis using 3 by auto
  qed
qed (auto simp: quoted2_def quoted3_def)

lemma pass3: "dropEscapes (back2 s) = readBack s"
  by (induction s rule: back2.induct) (auto simp: quoted3_def dropEscapes_one)

lemma unquote_any: "unquote (quoteScalar s) = readBack s"
  by (simp add: unquote_def quoteScalar_eq butlast_append pass1 pass2 pass3)

lemma readBack_id: "readBack s = s \<longleftrightarrow> escapesSafe s"
  by (induction s rule: readBack.induct) auto

lemma unquote_quoteScalar: "escapesSafe s \<Longrightarrow> unquote (quoteScalar s) = s"
  by (simp add: unquote_any readBack_id)

text \<open>The closing quote of a quoted text is the one it was given.\<close>

lemma quotedScan_escaped: "quotedScan 34 (concat (map quoted1 s) @ 34 # rest) = Some (length (concat (map quoted1 s)) + 1)"
  by (induction s) (auto simp: quoted1_def)

lemma quotedEnd_quoteScalar: "quotedEnd (quoteScalar s @ rest) = Some (length (quoteScalar s))"
  using quotedScan_escaped [of s rest] by (simp add: quotedEnd_def quoteScalar_eq)

section \<open>Spaces\<close>

lemma trimEnd_id: "s = [] \<or> \<not> isSpace (last s) \<Longrightarrow> trimEnd s = s"
  by (cases s rule: rev_cases) (auto simp: trimEnd_def)

lemma trim_id: "s \<noteq> [] \<Longrightarrow> \<not> isSpace (hd s) \<Longrightarrow> \<not> isSpace (last s) \<Longrightarrow> trim s = s"
  using trimEnd_id [of s] by (cases s) (auto simp: trim_def trimStart_def)

lemma trimEnd_spaces: "list_all isSpace sp \<Longrightarrow> trimEnd (s @ sp) = trimEnd s"
  by (simp add: trimEnd_def dropWhile_append list_all_iff)

lemma trim_spaces: "list_all isSpace a \<Longrightarrow> list_all isSpace b \<Longrightarrow> trim (a @ s @ b) = trim s"
proof -
  assume a: "list_all isSpace a" and b: "list_all isSpace b"
  have "dropWhile isSpace (a @ s @ b) = dropWhile isSpace (s @ b)" using a by (simp add: dropWhile_append list_all_iff)
  also have "trimEnd \<dots> = trimEnd (dropWhile isSpace s)"
  proof (cases "list_all isSpace s")
    case True
    then have e: "dropWhile isSpace (s @ b) = []" "dropWhile isSpace s = []"
      using b by (simp_all add: list_all_iff ball_Un dropWhile_eq_Nil_conv)
    show ?thesis unfolding e ..
  next
    case False
    then have "dropWhile isSpace (s @ b) = dropWhile isSpace s @ b" by (auto simp: dropWhile_append list_all_iff)
    then show ?thesis using b by (simp add: trimEnd_spaces)
  qed
  finally show ?thesis by (simp add: trim_def trimStart_def)
qed

lemma trim_ends: "s = trim s \<Longrightarrow> s \<noteq> [] \<Longrightarrow> \<not> isSpace (hd s) \<and> \<not> isSpace (last s)"
proof -
  assume s: "s = trim s" "s \<noteq> []"
  have len: "length (trimEnd x) \<le> length x" for x by (simp add: trimEnd_def) (metis length_dropWhile_le length_rev)
  have start: "\<not> isSpace (hd s)"
  proof
    assume h: "isSpace (hd s)"
    have "length (trim s) \<le> length (dropWhile isSpace s)" by (simp add: trim_def trimStart_def len)
    also have "\<dots> < length s" using h s(2) length_dropWhile_le [of isSpace "tl s"] by (cases s) (auto simp: le_imp_less_Suc)
    finally show False using s(1) by simp
  qed
  then have t: "trimStart s = s" using s(2) by (cases s) (auto simp: trimStart_def)
  have "\<not> isSpace (last s)"
  proof
    assume h: "isSpace (last s)"
    obtain y x where y: "s = y @ [x]" using s(2) by (metis rev_exhaust)
    then have "trimEnd s = trimEnd y" using h by (simp add: trimEnd_def)
    then have "length (trim s) \<le> length y" using t len [of y] by (simp add: trim_def)
    then show False using s(1) y by simp
  qed
  then show ?thesis using start by simp
qed

text \<open>What may follow a value on its line: spaces, then nothing or a comment.\<close>

definition quietRest :: "text16 \<Rightarrow> bool" where
  "quietRest rest \<longleftrightarrow> (\<exists>sp c. rest = sp @ c \<and> list_all isSpace sp \<and> (c = [] \<or> (sp \<noteq> [] \<and> hd c = 35)))"

lemma unquotedScan_spaces:
  "list_all isSpace sp \<Longrightarrow> c = [] \<or> (sp \<noteq> [] \<or> b) \<and> hd c = 35 \<Longrightarrow> unquotedScan b (sp @ c) = length sp"
proof (induction sp arbitrary: b)
  case Nil
  then show ?case by (cases c) auto
next
  case (Cons x sp)
  have "x \<noteq> 35" using Cons.prems(1) by (auto simp: isSpace_def)
  then show ?case using Cons by auto
qed

lemma unquotedScan_plain: "35 \<notin> set s \<Longrightarrow> \<exists>b'. unquotedScan b (s @ r) = length s + unquotedScan b' r"
proof (induction s arbitrary: b)
  case Nil
  then show ?case by auto
next
  case (Cons x s)
  then obtain b' where "unquotedScan (isSpace x) (s @ r) = length s + unquotedScan b' r" by auto
  then show ?case using Cons.prems by (intro exI [of _ b']) auto
qed

lemma unquoted_token:
  assumes "35 \<notin> set s" "s \<noteq> []" "\<not> isSpace (last s)" "quietRest rest"
  shows "trimEnd (take (unquotedEnd (s @ rest)) (s @ rest)) = s"
proof -
  obtain sp c where r: "rest = sp @ c" "list_all isSpace sp" "c = [] \<or> (sp \<noteq> [] \<and> hd c = 35)"
    using assms(4) by (auto simp: quietRest_def)
  obtain b' where "unquotedEnd (s @ rest) = length s + unquotedScan b' rest"
    using unquotedScan_plain [OF assms(1)] by (auto simp: unquotedEnd_def)
  also have "unquotedScan b' rest = length sp" unfolding r(1) by (rule unquotedScan_spaces) (use r in auto)
  finally have "take (unquotedEnd (s @ rest)) (s @ rest) = s @ sp" by (simp add: r(1))
  then show ?thesis using trimEnd_spaces [OF r(2)] trimEnd_id assms(3) by simp
qed

section \<open>Scalars\<close>

text \<open>The texts that are read back: those quoting can carry, written quoted or as they are when the
  reader takes them for text.\<close>

definition textOk :: "text16 \<Rightarrow> bool" where
  "textOk s \<longleftrightarrow> 13 \<notin> set s \<and> (needsQuotes s \<longrightarrow> escapesSafe s)"

definition storable :: "'n fm_env \<Rightarrow> 'n prop_value \<Rightarrow> bool" where
  "storable env v \<longleftrightarrow> (case v of
       PText s \<Rightarrow> textOk s \<and> (needsQuotes s \<or> classify env s = Some v)
     | PNumber x \<Rightarrow> \<not> needsQuotes (feShow env x) \<and> feShow env x \<noteq> [] \<and> classify env (feShow env x) = Some v
     | PCheckbox b \<Rightarrow> True
     | PDate s \<Rightarrow> \<not> needsQuotes s \<and> s \<noteq> [] \<and> classify env s = Some v
     | PDatetime s \<Rightarrow> False
     | PList items \<Rightarrow> items \<noteq> [[]] \<and> list_all textOk items)"

text \<open>What a unit of an unquoted text cannot be.\<close>

lemma unquoted_plain:
  assumes "\<not> needsQuotes s" "s \<noteq> []"
  shows "\<not> isSpace (hd s)" "\<not> isSpace (last s)" "trim s = s"
    "c \<in> set s \<Longrightarrow> c \<noteq> 35 \<and> c \<noteq> 44 \<and> c \<noteq> 91 \<and> c \<noteq> 93 \<and> c \<noteq> 123 \<and> c \<noteq> 34 \<and> c \<noteq> 39 \<and> c \<noteq> 10 \<and> c \<noteq> 13 \<and> c \<noteq> 58"
proof -
  have t: "s = trim s" using assms by (auto simp: needsQuotes_def)
  show "\<not> isSpace (hd s)" "\<not> isSpace (last s)" "trim s = s" using trim_ends [OF t assms(2)] t by simp_all
  show "c \<in> set s \<Longrightarrow> c \<noteq> 35 \<and> c \<noteq> 44 \<and> c \<noteq> 91 \<and> c \<noteq> 93 \<and> c \<noteq> 123 \<and> c \<noteq> 34 \<and> c \<noteq> 39 \<and> c \<noteq> 10 \<and> c \<noteq> 13 \<and> c \<noteq> 58"
    using assms by (auto simp: needsQuotes_def list_ex_iff)
qed

lemma readValue_token:
  assumes "s \<noteq> []" "hd s \<noteq> 32" "hd s \<noteq> 35" "hd s \<noteq> 91" "hd s \<noteq> 123"
    and e: "(if isQuote (hd s) then quotedEnd (s @ rest) else Some (unquotedEnd (s @ rest))) = Some k"
    and t: "trimEnd (take k (s @ rest)) = s" and c: "classify env s = Some v"
  shows "readValue env (32 # s @ rest) = Inr (v, None, Some (1 + length s))"
proof -
  have start: "length (takeWhile (\<lambda>c. c = 32) (32 # s @ rest)) = 1" using assms(1,2) by (cases s) auto
  have drop: "drop 1 (32 # s @ rest) = s @ rest" by simp
  have hd: "hd (s @ rest) = hd s" using assms(1) by simp
  have q: "(if startsQuoted (s @ rest) then quotedEnd (s @ rest) else Some (unquotedEnd (s @ rest))) = Some k"
    using e assms(1) by (simp add: startsQuoted_def)
  have ne: "\<not> (s @ rest = [] \<or> startsWith 35 (s @ rest))" "\<not> startsWith 91 (s @ rest)" "\<not> startsWith 123 (s @ rest)"
    using assms(1-5) by (auto simp: startsWith_def)
  show ?thesis
    unfolding readValue_def Let_def start drop q by (simp only: ne if_False option.case t c)
qed

lemma isQuote_space: "isSpace c \<Longrightarrow> \<not> isQuote c" "isSpace c \<Longrightarrow> c \<noteq> 35"
  by (auto simp: isSpace_def isQuote_def)

lemma readValue_unquoted:
  assumes "\<not> needsQuotes s" "s \<noteq> []" "classify env s = Some v" "quietRest rest"
  shows "readValue env (32 # s @ rest) = Inr (v, None, Some (1 + length s))"
proof -
  note p = unquoted_plain [OF assms(1,2)]
  have h: "hd s \<in> set s" using assms(2) by simp
  have sp: "hd s \<noteq> 32" using p(1) by (auto simp: isSpace_def)
  show ?thesis
    by (rule readValue_token [where k = "unquotedEnd (s @ rest)"])
       (use p(4) [OF h] sp assms unquoted_token [of s rest] p(2) p(4) [of 35] in \<open>auto simp: isQuote_def\<close>)
qed

lemma readValue_quoted:
  assumes "escapesSafe s"
  shows "readValue env (32 # quoteScalar s @ rest) = Inr (PText s, None, Some (1 + length (quoteScalar s)))"
proof (rule readValue_token [where k = "length (quoteScalar s)"])
  show "classify env (quoteScalar s) = Some (PText s)"
    using unquote_quoteScalar [OF assms] by (simp add: classify_def quoteScalar_eq refusedSigil_def isQuote_def)
  show "trimEnd (take (length (quoteScalar s)) (quoteScalar s @ rest)) = quoteScalar s"
    using trimEnd_id [of "quoteScalar s"] by (simp add: quoteScalar_eq isSpace_def)
qed (simp_all add: quotedEnd_quoteScalar, simp_all add: quoteScalar_eq isQuote_def)

text \<open>An empty value.\<close>

lemma spaces_prefix: "list_all isSpace sp \<Longrightarrow> \<exists>sp'. drop (length (takeWhile (\<lambda>c. c = 32) (sp @ c))) (sp @ c) = sp' @ c \<and> list_all isSpace sp' \<and> (sp' \<noteq> [] \<longrightarrow> hd sp' \<noteq> 32)
    \<or> drop (length (takeWhile (\<lambda>c. c = 32) (sp @ c))) (sp @ c) = drop (length (takeWhile (\<lambda>c. c = 32) c)) c \<and> list_all (\<lambda>c. c = 32) sp"
proof (induction sp)
  case (Cons x sp)
  show ?case
  proof (cases "x = 32")
    case True
    then show ?thesis using Cons by auto
  next
    case False
    then show ?thesis using Cons.prems by (intro exI [of _ "x # sp"]) auto
  qed
qed simp

lemma readValue_empty:
  assumes "quietRest rest"
  shows "\<exists>k. readValue env rest = Inr (PText [], None, k)"
proof -
  obtain sp c where r: "rest = sp @ c" "list_all isSpace sp" "c = [] \<or> (sp \<noteq> [] \<and> hd c = 35)"
    using assms by (auto simp: quietRest_def)
  define token0 where "token0 = drop (length (takeWhile (\<lambda>c. c = 32) rest)) rest"
  have "\<exists>sp'. token0 = sp' @ c \<and> list_all isSpace sp'"
  proof -
    have "takeWhile (\<lambda>c. c = 32) c = []" using r(3) by (cases c) auto
    then show ?thesis using spaces_prefix [OF r(2), of c] by (auto simp: token0_def r(1) intro: exI [of _ "[]"])
  qed
  then obtain sp' where t0: "token0 = sp' @ c" "list_all isSpace sp'" by blast
  show ?thesis
  proof (cases "token0 = [] \<or> startsWith 35 token0")
    case True
    then show ?thesis unfolding readValue_def Let_def token0_def [symmetric] by auto
  next
    case False
    then have sp': "sp' \<noteq> []" using t0(1) r(3) by (auto simp: startsWith_def)
    then have h: "isSpace (hd token0)" "token0 \<noteq> []" using t0 by (cases sp'; simp)+
    have no: "\<not> startsWith 91 token0" "\<not> startsWith 123 token0" "\<not> startsQuoted token0"
      using h isQuote_space(1) [OF h(1)] by (auto simp: startsWith_def startsQuoted_def isSpace_def)
    have "unquotedEnd token0 = length sp'"
      unfolding t0(1) unquotedEnd_def by (rule unquotedScan_spaces [OF t0(2)]) (use r(3) in auto)
    then have "trimEnd (take (unquotedEnd token0) token0) = []"
      using trimEnd_spaces [OF t0(2), of "[]"] by (simp add: t0(1) trimEnd_def)
    then show ?thesis
      unfolding readValue_def Let_def token0_def [symmetric] using False no by (simp add: classify_def)
  qed
qed

section \<open>Flow lists\<close>

lemma scalarToken_ends:
  assumes "s \<noteq> []"
  shows "scalarToken s \<noteq> []" "\<not> isSpace (hd (scalarToken s))" "\<not> isSpace (last (scalarToken s))"
  using assms unquoted_plain [of s] by (auto simp: scalarToken_def quoteScalar_eq isSpace_def)

lemma trim_token: "trim (scalarToken s) = scalarToken s" "trim (32 # scalarToken s) = scalarToken s"
proof -
  have "trim (scalarToken s) = scalarToken s"
  proof (cases "s = []")
    case True
    then show ?thesis by (simp add: scalarToken_def needsQuotes_def trim_def trimStart_def trimEnd_def)
  next
    case False
    then show ?thesis using trim_id scalarToken_ends [OF False] by blast
  qed
  moreover have "trim (32 # scalarToken s) = trim (scalarToken s)"
    using trim_spaces [of "[32]" "[]" "scalarToken s"] by (simp add: isSpace_def)
  ultimately show "trim (scalarToken s) = scalarToken s" "trim (32 # scalarToken s) = scalarToken s" by simp_all
qed

lemma unquote_token:
  assumes "textOk s"
  shows "unquote (scalarToken s) = s"
proof (cases "needsQuotes s")
  case True
  then show ?thesis using assms by (simp add: scalarToken_def textOk_def unquote_quoteScalar)
next
  case False
  show ?thesis
  proof (cases "s = []")
    case True
    then show ?thesis by (simp add: scalarToken_def needsQuotes_def unquote_def)
  next
    case ne: False
    then have "hd s \<noteq> 34 \<and> hd s \<noteq> 39" using unquoted_plain(4) [OF False ne, of "hd s"] by simp
    then show ?thesis using False by (simp add: scalarToken_def unquote_def)
  qed
qed

lemma token_scan:
  shows "flowScan (scalarToken s @ r) = map_option (\<lambda>j. length (scalarToken s) + j) (flowScan r)"
    and "splitScan cur (scalarToken s @ r) = splitScan (cur @ scalarToken s) r"
proof -
  have "flowScan (scalarToken s @ r) = map_option (\<lambda>j. length (scalarToken s) + j) (flowScan r) \<and>
      splitScan cur (scalarToken s @ r) = splitScan (cur @ scalarToken s) r"
  proof (cases "needsQuotes s")
    case True
    obtain m where q: "quoteScalar s = 34 # m" by (simp add: quoteScalar_eq)
    have e: "quotedEnd (34 # m @ r) = Some (length (quoteScalar s))" using quotedEnd_quoteScalar [of s r] q by simp
    have f: "flowScan (34 # m @ r) = map_option (\<lambda>j. length (34 # m) + j) (flowScan (drop (length (34 # m)) (34 # m @ r)))"
      unfolding flowScan.simps(2) [of 34 "m @ r"] e q by (cases "flowScan r") (simp_all add: isQuote_def)
    have g: "splitScan cur (34 # m @ r) = splitScan (cur @ take (length (34 # m)) (34 # m @ r)) (drop (length (34 # m)) (34 # m @ r))"
      unfolding splitScan.simps(2) [of cur 34 "m @ r"] e q by (simp add: isQuote_def)
    show ?thesis using f g True q by (simp add: scalarToken_def)
  next
    case False
    have plain: "\<forall>c \<in> set s. \<not> isQuote c \<and> c \<noteq> 93 \<and> c \<noteq> 91 \<and> c \<noteq> 123 \<and> c \<noteq> 44"
      using unquoted_plain(4) [OF False] by (cases "s = []") (auto simp: isQuote_def)
    have "flowScan (s @ r) = map_option (\<lambda>j. length s + j) (flowScan r)"
      using plain by (induction s) (simp, cases "flowScan r"; auto)+
    moreover have "splitScan cur (s @ r) = splitScan (cur @ s) r"
      using plain by (induction s arbitrary: cur) auto
    ultimately show ?thesis using False by (simp add: scalarToken_def)
  qed
  then show "flowScan (scalarToken s @ r) = map_option (\<lambda>j. length (scalarToken s) + j) (flowScan r)"
    "splitScan cur (scalarToken s @ r) = splitScan (cur @ scalarToken s) r" by simp_all
qed

lemma flowScan_items:
  "flowScan (joinWith [44, 32] (map scalarToken items) @ 93 # rest) = Some (length (joinWith [44, 32] (map scalarToken items)) + 1)"
proof (induction items)
  case Nil
  then show ?case by (simp add: isQuote_def)
next
  case (Cons s items)
  have close: "flowScan (93 # rest) = Some 1" by (simp add: isQuote_def)
  have sep: "flowScan (44 # 32 # r) = map_option (\<lambda>j. j + 2) (flowScan r)" for r
    by (simp add: isQuote_def option.map_comp comp_def)
  show ?case
  proof (cases items)
    case Nil
    then show ?thesis using close by (simp add: token_scan del: flowScan.simps)
  next
    case (Cons t ts)
    then show ?thesis using Cons.IH sep by (simp add: token_scan del: flowScan.simps)
  qed
qed

lemma splitScan_items:
  "splitScan cur (scalarToken s @ concat (map (\<lambda>t. [44, 32] @ scalarToken t) ts)) =
     Some ((cur @ scalarToken s) # map (\<lambda>t. 32 # scalarToken t) ts)"
proof (induction ts arbitrary: cur s)
  case Nil
  then show ?case using token_scan(2) [of cur s "[]"] by simp
next
  case (Cons t ts)
  have "splitScan cur' (44 # 32 # r) = map_option ((#) cur') (splitScan [32] r)" for cur' r
    by (simp add: isQuote_def)
  then show ?case using Cons.IH [of "[32]" t] by (simp add: token_scan(2) del: splitScan.simps)
qed

lemma joinWith_concat: "joinWith sep (x # xs) = x @ concat (map (\<lambda>y. sep @ y) xs)"
  by (induction xs arbitrary: x) auto

lemma splitFlow_items:
  assumes "list_all textOk items" "items \<noteq> [[]]"
  shows "splitFlow (joinWith [44, 32] (map scalarToken items)) = Some items"
proof (cases items)
  case Nil
  then show ?thesis by (simp add: splitFlow_def trim_def trimStart_def trimEnd_def unquote_def)
next
  case (Cons s ts)
  have "splitScan [] (joinWith [44, 32] (map scalarToken items)) = Some (scalarToken s # map (\<lambda>t. 32 # scalarToken t) ts)"
    using splitScan_items [of "[]" s ts] by (simp add: Cons joinWith_concat comp_def)
  moreover have "map (\<lambda>s. unquote (trim s)) (scalarToken s # map (\<lambda>t. 32 # scalarToken t) ts) = items"
    using assms(1) by (simp add: Cons trim_token unquote_token comp_def map_idI list_all_iff)
  ultimately show ?thesis using assms(2) by (simp add: splitFlow_def Let_def del: list.map)
qed

lemma readValue_list:
  assumes "list_all textOk items" "items \<noteq> [[]]"
  shows "readValue env (32 # 91 # joinWith [44, 32] (map scalarToken items) @ 93 # rest) =
    Inr (PList items, Some Flow, Some (3 + length (joinWith [44, 32] (map scalarToken items))))"
proof -
  let ?j = "joinWith [44, 32] (map scalarToken items)"
  have start: "length (takeWhile (\<lambda>c. c = 32) (32 # 91 # ?j @ 93 # rest)) = 1" by simp
  have drop: "drop 1 (32 # 91 # ?j @ 93 # rest) = 91 # ?j @ 93 # rest" by simp
  have e: "flowEnd (91 # ?j @ 93 # rest) = Some (length ?j + 2)" by (simp add: flowEnd_def flowScan_items)
  have tk: "take (length ?j + 2 - 2) (tl (91 # ?j @ 93 # rest)) = ?j" by simp
  show ?thesis
    unfolding readValue_def Let_def start drop by (simp add: startsWith_def e splitFlow_items [OF assms])
qed

section \<open>What is written is read\<close>

lemma serialize_list: "serializeValue env (PList items) Flow ind = 32 # 91 # joinWith [44, 32] (map scalarToken items) @ [93]"
  by (simp add: serializeValue_def)

lemma read_written:
  assumes "storable env v" "quietRest rest"
  shows "\<exists>style k. readValue env (serializeValue env v Flow ind @ rest) = Inr (v, style, k) \<and> style \<noteq> Some Block"
proof (cases v)
  case (PText s)
  show ?thesis
  proof (cases "s = []")
    case True
    then show ?thesis using readValue_empty [OF assms(2), of env] by (auto simp: PText serializeValue_def serializeText_def)
  next
    case ne: False
    have s: "textOk s" "needsQuotes s \<or> classify env s = Some v" using assms(1) by (auto simp: storable_def PText)
    show ?thesis
    proof (cases "needsQuotes s")
      case True
      then have "escapesSafe s" using s(1) by (simp add: textOk_def)
      from readValue_quoted [OF this, of env rest] show ?thesis
        using True ne by (simp add: PText serializeValue_def serializeText_def scalarToken_def)
    next
      case False
      then have "classify env s = Some v" using s(2) by simp
      from readValue_unquoted [OF False ne this assms(2)] show ?thesis
        using False ne by (simp add: PText serializeValue_def serializeText_def scalarToken_def)
    qed
  qed
next
  case (PNumber x)
  then have x: "\<not> needsQuotes (feShow env x)" "feShow env x \<noteq> []" "classify env (feShow env x) = Some v"
    using assms(1) by (simp_all add: storable_def)
  from readValue_unquoted [OF x assms(2)] show ?thesis by (simp add: PNumber serializeValue_def)
next
  case (PCheckbox b)
  let ?s = "if b then [116, 114, 117, 101] else [102, 97, 108, 115, 101] :: text16"
  have "\<not> needsQuotes ?s" "?s \<noteq> []" "classify env ?s = Some v"
    by (auto simp: PCheckbox needsQuotes_def trim_def trimStart_def trimEnd_def isSpace_def classify_def refusedSigil_def isQuote_def)
  from readValue_unquoted [OF this assms(2)] show ?thesis by (simp add: PCheckbox serializeValue_def split: if_splits)
next
  case (PDate s)
  then have s: "\<not> needsQuotes s" "s \<noteq> []" "classify env s = Some v"
    using assms(1) by (simp_all add: storable_def)
  from readValue_unquoted [OF s assms(2)] show ?thesis
    using s(1,2) by (simp add: PDate serializeValue_def serializeText_def scalarToken_def)
next
  case (PDatetime s)
  then show ?thesis using assms(1) by (simp add: storable_def)
next
  case (PList items)
  then have "list_all textOk items" "items \<noteq> [[]]" using assms(1) by (simp_all add: storable_def)
  from readValue_list [OF this, of env rest] show ?thesis unfolding PList serialize_list by simp
qed

end
