(* ===== verification/Fm_View.thy ===== *)
theory Fm_View
  imports Fm_Read
begin

text \<open>
  The reader without its positions: a run over the texts of the lines that keeps the keys, the values
  and the list styles. The reader refines it, and each entry comes from one key line and the item
  lines below it.
\<close>

section \<open>The view of a run\<close>

type_synonym 'n shown = "text16 \<times> 'n prop_value \<times> list_style option"
type_synonym 'n view_state = "'n shown list \<times> text16 list \<times> ('n shown \<times> text16 list) option"

datatype line_kind = SkipLine | ItemLine text16 | KeyLine text16 | BadLine parse_failure

definition lineKind :: "text16 \<Rightarrow> line_kind" where
  "lineKind l =
     (let body = withoutCR l
      in if trim body = [] then SkipLine
         else
           (let indent = takeWhile (\<lambda>c. c = 32 \<or> c = 9) body; rest = drop (length indent) body
            in if 9 \<in> set indent then BadLine Malformed
               else if startsWith 35 rest then SkipLine
               else if rest = [45] \<or> take 2 rest = [45, 32] then ItemLine rest
               else if indent \<noteq> [] then BadLine Nested
               else if rest = [46, 46, 46] \<or> rest = [45, 45, 45] then BadLine Malformed
               else KeyLine rest))"

definition closePend :: "('n shown \<times> text16 list) option \<Rightarrow> 'n shown list" where
  "closePend pend = (case pend of None \<Rightarrow> []
     | Some ((k, v, style), items) \<Rightarrow> [(k, if style = Some Block then PList items else v, style)])"

fun viewStep :: "'n fm_env \<Rightarrow> text16 \<Rightarrow> 'n view_state \<Rightarrow> parse_failure + 'n view_state" where
  "viewStep env l (out, seen, pend) =
     (case lineKind l of
        SkipLine \<Rightarrow> Inr (out, seen, pend)
      | BadLine err \<Rightarrow> Inl err
      | ItemLine rest \<Rightarrow>
          (case pend of
             None \<Rightarrow> Inl Malformed
           | Some ((k, v, style), items) \<Rightarrow>
               if style = Some Flow then Inl Malformed
               else (case readItem rest of Inl err \<Rightarrow> Inl err
                     | Inr item \<Rightarrow> Inr (out, seen, Some ((k, v, Some Block), items @ [item]))))
      | KeyLine rest \<Rightarrow>
          (case readKey rest of
             Inl err \<Rightarrow> Inl err
           | Inr (key, q, at) \<Rightarrow>
               if key \<in> set seen then Inl DuplicateKey
               else (case readValue env (drop at rest) of Inl err \<Rightarrow> Inl err
                     | Inr (v, style, len) \<Rightarrow> Inr (out @ closePend pend, seen @ [key], Some ((key, v, style), [])))))"

fun viewRun :: "'n fm_env \<Rightarrow> text16 list \<Rightarrow> 'n view_state \<Rightarrow> parse_failure + 'n view_state" where
  "viewRun env [] s = Inr s"
| "viewRun env (l # ls) s = (case viewStep env l s of Inl err \<Rightarrow> Inl err | Inr s' \<Rightarrow> viewRun env ls s')"

fun viewEnd :: "'n view_state \<Rightarrow> 'n shown list" where
  "viewEnd (out, seen, pend) = out @ closePend pend"

section \<open>The reader refines it\<close>

definition shown :: "'n prop_entry \<Rightarrow> 'n shown" where
  "shown e = (peKey e, peValue e, peListStyle e)"

definition absState :: "'n parse_state \<Rightarrow> 'n view_state" where
  "absState st = (map shown (psEntries st), psSeen st, map_option (\<lambda>e. (shown e, psItems st)) (psPending st))"

definition items_ok :: "'n parse_state \<Rightarrow> bool" where
  "items_ok st \<longleftrightarrow> (psPending st = None \<longrightarrow> psItems st = [])"

lemma abs_flush:
  "map shown (psEntries (flushEntry doc st)) = viewEnd (absState st)"
  "psSeen (flushEntry doc st) = psSeen st" "psPending (flushEntry doc st) = None"
  "items_ok st \<Longrightarrow> psItems (flushEntry doc st) = []"
  by (auto simp: flushEntry_def absState_def closePend_def shown_def items_ok_def Let_def split: option.splits)

lemma stepLine_kind:
  "stepLine env doc n st = (case lineKind (lineText doc n) of SkipLine \<Rightarrow> Inr st | BadLine err \<Rightarrow> Inl err
     | ItemLine rest \<Rightarrow> itemLine doc n (takeWhile (\<lambda>c. c = 32 \<or> c = 9) (withoutCR (lineText doc n))) rest st
     | KeyLine rest \<Rightarrow> keyLine env doc n rest st)"
  by (simp add: stepLine_def lineKind_def Let_def)

lemma step_abs:
  assumes "items_ok st"
  shows "map_sum id absState (stepLine env doc n st) = viewStep env (lineText doc n) (absState st)"
    and "stepLine env doc n st = Inr st' \<Longrightarrow> items_ok st'"
proof -
  have a: "map_sum id absState (stepLine env doc n st) = viewStep env (lineText doc n) (absState st) \<and>
      (stepLine env doc n st = Inr st' \<longrightarrow> items_ok st')"
  proof (cases "lineKind (lineText doc n)")
    case (KeyLine rest)
    have f: "psEntries (flushEntry doc st) = psEntries (flushEntry doc st)" ..
    have fl: "map shown (psEntries (flushEntry doc st)) = map shown (psEntries st) @ closePend (map_option (\<lambda>e. (shown e, psItems st)) (psPending st))"
      using abs_flush(1) [of doc st] by (simp add: absState_def)
    show ?thesis
      unfolding stepLine_kind KeyLine line_kind.case keyLine_def Let_def
      using fl abs_flush(2,3) [of doc st] abs_flush(4) [OF assms, of doc]
      by (auto simp: KeyLine absState_def shown_def items_ok_def split: sum.splits prod.splits)
  next
    case (ItemLine rest)
    show ?thesis
      unfolding stepLine_kind ItemLine line_kind.case itemLine_def
      using assms by (auto simp: ItemLine absState_def shown_def items_ok_def split: option.splits sum.splits)
  qed (use assms in \<open>auto simp: stepLine_kind absState_def\<close>)
  show "map_sum id absState (stepLine env doc n st) = viewStep env (lineText doc n) (absState st)" using a by simp
  show "stepLine env doc n st = Inr st' \<Longrightarrow> items_ok st'" using a by simp
qed

lemma run_abs:
  "items_ok st \<Longrightarrow> map_sum id absState (parseLines env doc ns st) = viewRun env (map (lineText doc) ns) (absState st) \<and>
     (\<forall>st'. parseLines env doc ns st = Inr st' \<longrightarrow> items_ok st')"
proof (induction ns arbitrary: st)
  case (Cons n ns)
  note s = step_abs [OF Cons.prems, of env doc n]
  show ?case
  proof (cases "stepLine env doc n st")
    case (Inl err)
    then have "viewStep env (lineText doc n) (absState st) = Inl err" using s(1) by simp
    then show ?thesis using Inl by simp
  next
    case (Inr st1)
    then have "viewStep env (lineText doc n) (absState st) = Inr (absState st1)" using s(1) by simp
    then show ?thesis using Cons.IH [OF s(2) [OF Inr]] Inr by simp
  qed
qed simp

definition parseStart :: "'n parse_state" where
  "parseStart = \<lparr>psEntries = [], psSeen = [], psPending = None, psItems = []\<rparr>"

lemma parse_view:
  "map_sum id (map shown) (parseFrontmatter env doc fm) =
     map_sum id viewEnd (viewRun env (map (lineText doc) [fmOpenLine fm + 1..<fmCloseLine fm]) ([], [], None))"
proof -
  have ok: "items_ok parseStart" "absState parseStart = ([], [], None)" by (simp_all add: items_ok_def absState_def parseStart_def)
  have r: "map_sum id absState (parseLines env doc [fmOpenLine fm + 1..<fmCloseLine fm] parseStart) =
      viewRun env (map (lineText doc) [fmOpenLine fm + 1..<fmCloseLine fm]) ([], [], None)"
    using run_abs [OF ok(1)] ok(2) by (metis conjunct1)
  show ?thesis
    unfolding parseFrontmatter_def r [symmetric] parseStart_def [symmetric]
    by (cases "parseLines env doc [fmOpenLine fm + 1..<fmCloseLine fm] parseStart") (simp_all add: abs_flush(1))
qed

section \<open>Runs in pieces\<close>

lemma viewRun_append:
  "viewRun env (ls @ ls') s = (case viewRun env ls s of Inl err \<Rightarrow> Inl err | Inr s' \<Rightarrow> viewRun env ls' s')"
  by (induction ls arbitrary: s) (auto split: sum.splits)

lemma parseLines_append:
  "parseLines env doc (ns @ ns') st = (case parseLines env doc ns st of Inl err \<Rightarrow> Inl err | Inr st' \<Rightarrow> parseLines env doc ns' st')"
  by (induction ns arbitrary: st) (auto split: sum.splits)

text \<open>The entries already out do not matter for what follows.\<close>

lemma viewRun_out:
  "viewRun env ls (out, seen, pend) = Inr (out', seen', pend') \<Longrightarrow>
     \<exists>new. out' = out @ new \<and> (\<forall>o2. viewRun env ls (o2, seen, pend) = Inr (o2 @ new, seen', pend'))"
proof (induction ls arbitrary: out seen pend)
  case (Cons l ls)
  obtain o1 s1 p1 where one: "viewStep env l (out, seen, pend) = Inr (o1, s1, p1)" "viewRun env ls (o1, s1, p1) = Inr (out', seen', pend')"
    using Cons.prems by (auto split: sum.splits)
  obtain n1 where n1: "o1 = out @ n1" "\<forall>o2. viewStep env l (o2, seen, pend) = Inr (o2 @ n1, s1, p1)"
    using one(1) by (auto split: line_kind.splits option.splits sum.splits prod.splits if_splits)
  obtain n2 where n2: "out' = o1 @ n2" "\<forall>o2. viewRun env ls (o2, s1, p1) = Inr (o2 @ n2, seen', pend')"
    using Cons.IH [OF one(2)] by blast
  show ?case by (intro exI [of _ "n1 @ n2"]) (use n1 n2 in simp)
qed simp

end
