(* ===== verification/Fm_Origin.thy ===== *)
theory Fm_Origin
  imports Fm_View
begin

text \<open>
  Where an entry comes from: its key line, the item lines below it, and nothing but comments and
  blank lines before the next key.
\<close>

definition keyFacts :: "'n fm_env \<Rightarrow> document \<Rightarrow> nat \<Rightarrow> 'n parse_state \<Rightarrow> 'n prop_entry \<Rightarrow> bool" where
  "keyFacts env doc n st1 e \<longleftrightarrow> (\<exists>rest q at v style len. lineKind (lineText doc n) = KeyLine rest \<and>
     readKey rest = Inr (peKey e, q, at) \<and> peKey e \<notin> set (psSeen st1) \<and>
     readValue env (drop at rest) = Inr (v, style, len) \<and> spFrom (peLineSpan e) = lineFrom doc n \<and>
     (peListStyle e \<noteq> Some Block \<longrightarrow> peValue e = v \<and> peListStyle e = style \<and>
        peValueSpan e = \<lparr>spFrom = lineFrom doc n + at,
          spTo = (case len of None \<Rightarrow> lineTo doc n | Some k \<Rightarrow> lineFrom doc n + at + k)\<rparr> \<and>
        peRaw e = sliceString doc (spFrom (peValueSpan e)) (spTo (peValueSpan e))))"

definition nonKey :: "document \<Rightarrow> nat \<Rightarrow> bool" where
  "nonKey doc n \<longleftrightarrow> lineKind (lineText doc n) = SkipLine \<or> (\<exists>r. lineKind (lineText doc n) = ItemLine r)"

definition origin :: "'n fm_env \<Rightarrow> document \<Rightarrow> nat list \<Rightarrow> nat \<Rightarrow> 'n prop_entry \<Rightarrow> nat list \<Rightarrow> nat \<Rightarrow> nat list \<Rightarrow> nat list
    \<Rightarrow> nat list \<Rightarrow> 'n parse_state \<Rightarrow> bool" where
  "origin env doc ns i e ns1 n mid sk rest st1 \<longleftrightarrow> ns = ns1 @ n # mid @ sk @ rest \<and>
     parseLines env doc ns1 parseStart = Inr st1 \<and> length (psEntries (flushEntry doc st1)) = i \<and>
     keyFacts env doc n st1 e \<and> (\<forall>x \<in> set mid. nonKey doc x) \<and> (mid \<noteq> [] \<longrightarrow> peListStyle e = Some Block) \<and>
     (\<forall>x \<in> set sk. lineKind (lineText doc x) = SkipLine) \<and>
     spTo (peLineSpan e) = lineTo doc (if mid = [] then n else last mid) \<and>
     (rest \<noteq> [] \<longrightarrow> (\<exists>r. lineKind (lineText doc (hd rest)) = KeyLine r))"

text \<open>With a later key line or, for the entry still open, without.\<close>

definition closedFrom :: "'n fm_env \<Rightarrow> document \<Rightarrow> nat list \<Rightarrow> nat \<Rightarrow> 'n prop_entry \<Rightarrow> bool" where
  "closedFrom env doc ns i e \<longleftrightarrow> (\<exists>ns1 n mid sk rest st1. rest \<noteq> [] \<and> origin env doc ns i e ns1 n mid sk rest st1)"

definition openFrom :: "'n fm_env \<Rightarrow> document \<Rightarrow> nat list \<Rightarrow> nat \<Rightarrow> 'n prop_entry \<Rightarrow> bool" where
  "openFrom env doc ns i e \<longleftrightarrow> (\<exists>ns1 n mid sk st1. origin env doc ns i e ns1 n mid sk [] st1)"

definition origins :: "'n fm_env \<Rightarrow> document \<Rightarrow> nat list \<Rightarrow> 'n parse_state \<Rightarrow> bool" where
  "origins env doc ns st \<longleftrightarrow> parseLines env doc ns parseStart = Inr st \<and> (psPending st = None \<longrightarrow> psEntries st = []) \<and>
     (\<forall>i < length (psEntries st). closedFrom env doc ns i (psEntries st ! i)) \<and>
     (\<forall>e. psPending st = Some e \<longrightarrow> openFrom env doc ns (length (psEntries st)) e)"

lemma origin_more: "origin env doc ns i e ns1 n mid sk rest st1 \<Longrightarrow> rest \<noteq> [] \<Longrightarrow>
  origin env doc (ns @ [m]) i e ns1 n mid sk (rest @ [m]) st1"
  by (auto simp: origin_def)

lemma origin_skip: "origin env doc ns i e ns1 n mid sk [] st1 \<Longrightarrow> lineKind (lineText doc m) = SkipLine \<Longrightarrow>
  origin env doc (ns @ [m]) i e ns1 n mid (sk @ [m]) [] st1"
  by (auto simp: origin_def)

lemma origin_key: "origin env doc ns i e ns1 n mid sk [] st1 \<Longrightarrow> lineKind (lineText doc m) = KeyLine r \<Longrightarrow>
  origin env doc (ns @ [m]) i e ns1 n mid sk [m] st1"
  by (auto simp: origin_def)

text \<open>The closing of a pending entry keeps its spans, key and style.\<close>

lemma origin_closed:
  "origin env doc ns i e ns1 n mid sk rest st1 \<Longrightarrow> peListStyle e = Some Block \<Longrightarrow>
   origin env doc ns i (e\<lparr>peValue := v, peRaw := w\<rparr>) ns1 n mid sk rest st1"
  unfolding origin_def keyFacts_def by simp

lemma origin_item:
  assumes "origin env doc ns i e ns1 n mid sk [] st1" "lineKind (lineText doc m) = ItemLine r"
  shows "origin env doc (ns @ [m]) i (e\<lparr>peListStyle := Some Block, peListIndent := ind,
      peLineSpan := (peLineSpan e)\<lparr>spTo := lineTo doc m\<rparr>, peValueSpan := vs\<rparr>) ns1 n (mid @ sk @ [m]) [] [] st1"
  using assms unfolding origin_def keyFacts_def nonKey_def by auto

lemma closedFrom_more: "closedFrom env doc ns i e \<Longrightarrow> closedFrom env doc (ns @ [m]) i e"
proof -
  assume "closedFrom env doc ns i e"
  then obtain ns1 n mid sk rest st1 where o: "rest \<noteq> []" "origin env doc ns i e ns1 n mid sk rest st1"
    unfolding closedFrom_def by blast
  have "rest @ [m] \<noteq> []" by simp
  with origin_more [OF o(2,1), of m] show ?thesis unfolding closedFrom_def by blast
qed

lemma openFrom_skip: "openFrom env doc ns i e \<Longrightarrow> lineKind (lineText doc m) = SkipLine \<Longrightarrow> openFrom env doc (ns @ [m]) i e"
  unfolding openFrom_def using origin_skip by blast

lemma openFrom_item: "openFrom env doc ns i e \<Longrightarrow> lineKind (lineText doc m) = ItemLine r \<Longrightarrow>
  openFrom env doc (ns @ [m]) i (e\<lparr>peListStyle := Some Block, peListIndent := ind,
      peLineSpan := (peLineSpan e)\<lparr>spTo := lineTo doc m\<rparr>, peValueSpan := vs\<rparr>)"
  unfolding openFrom_def using origin_item by blast

lemma openFrom_key:
  assumes "openFrom env doc ns i e" "lineKind (lineText doc m) = KeyLine r"
  shows "closedFrom env doc (ns @ [m]) i
    (if peListStyle e = Some Block then e\<lparr>peValue := v, peRaw := w\<rparr> else e)"
proof -
  obtain ns1 n mid sk st1 where o: "origin env doc ns i e ns1 n mid sk [] st1"
    using assms(1) unfolding openFrom_def by blast
  note k = origin_key [OF o assms(2)]
  have "origin env doc (ns @ [m]) i (if peListStyle e = Some Block then e\<lparr>peValue := v, peRaw := w\<rparr> else e) ns1 n mid sk [m] st1"
    using k origin_closed [OF k] by simp
  then show ?thesis unfolding closedFrom_def by blast
qed

lemma origins_step:
  assumes "origins env doc ns st" "stepLine env doc m st = Inr st'"
  shows "origins env doc (ns @ [m]) st'"
proof -
  have run: "parseLines env doc (ns @ [m]) parseStart = Inr st'"
    using assms by (simp add: origins_def parseLines_append)
  have old: "closedFrom env doc (ns @ [m]) i (psEntries st ! i)" if "i < length (psEntries st)" for i
    by (rule closedFrom_more) (use assms(1) that in \<open>simp add: origins_def\<close>)
  have pend: "psPending st = Some e \<Longrightarrow> openFrom env doc ns (length (psEntries st)) e" for e
    using assms(1) unfolding origins_def by simp
  show ?thesis
  proof (cases "lineKind (lineText doc m)")
    case SkipLine
    then have st': "st' = st" using assms(2) by (simp add: stepLine_kind)
    have "openFrom env doc (ns @ [m]) (length (psEntries st)) e" if "psPending st = Some e" for e
      by (rule openFrom_skip [OF pend [OF that] SkipLine])
    then show ?thesis using run old assms(1) unfolding origins_def st' by simp
  next
    case (BadLine err)
    then show ?thesis using assms(2) by (simp add: stepLine_kind)
  next
    case (ItemLine r)
    obtain e item ind where e: "psPending st = Some e" "readItem r = Inr item"
      "st' = st\<lparr>psPending := Some (e\<lparr>peListStyle := Some Block, peListIndent := Some ind,
          peLineSpan := (peLineSpan e)\<lparr>spTo := lineTo doc m\<rparr>, peValueSpan := (peValueSpan e)\<lparr>spTo := lineTo doc m\<rparr>\<rparr>),
        psItems := psItems st @ [item]\<rparr>"
      using assms(2) ItemLine by (auto simp: stepLine_kind itemLine_def split: option.splits if_splits sum.splits)
    show ?thesis unfolding origins_def
      using run old openFrom_item [OF pend [OF e(1)] ItemLine] e(3) by simp
  next
    case (KeyLine r)
    obtain key q at v style len where k: "readKey r = Inr (key, q, at)" "key \<notin> set (psSeen (flushEntry doc st))"
      "readValue env (drop at r) = Inr (v, style, len)"
      using assms(2) KeyLine by (auto simp: stepLine_kind keyLine_def Let_def split: sum.splits if_splits prod.splits)
    let ?vt = "case len of None \<Rightarrow> lineTo doc m | Some k \<Rightarrow> lineFrom doc m + at + k"
    let ?e = "\<lparr>peKey = key, peKeySpan = \<lparr>spFrom = lineFrom doc m + (if q then 1 else 0),
          spTo = lineFrom doc m + (if q then 1 else 0) + length key\<rparr>,
        peLineSpan = \<lparr>spFrom = lineFrom doc m, spTo = lineTo doc m\<rparr>,
        peValueSpan = \<lparr>spFrom = lineFrom doc m + at, spTo = ?vt\<rparr>, peValue = v,
        peRaw = sliceString doc (lineFrom doc m + at) ?vt, peListStyle = style, peListIndent = None\<rparr>"
    have st': "st' = (flushEntry doc st)\<lparr>psSeen := psSeen (flushEntry doc st) @ [key], psPending := Some ?e\<rparr>"
      using assms(2) KeyLine k by (simp add: stepLine_kind keyLine_def Let_def)
    have entries: "psEntries st' = psEntries (flushEntry doc st)" and pend': "psPending st' = Some ?e" using st' by simp_all
    have "keyFacts env doc m st ?e"
      unfolding keyFacts_def using KeyLine k abs_flush(2) [of doc st] by (intro exI [of _ r] exI [of _ q] exI [of _ at] exI [of _ v] exI [of _ style] exI [of _ len]) simp
    then have new: "openFrom env doc (ns @ [m]) (length (psEntries st')) ?e"
      using assms(1) unfolding openFrom_def origin_def origins_def entries by (intro exI [of _ ns] exI [of _ m] exI [of _ "[]"] exI [of _ st]) simp
    have "closedFrom env doc (ns @ [m]) i (psEntries st' ! i)" if i: "i < length (psEntries st')" for i
    proof (cases "psPending st")
      case None
      then have "psEntries st' = psEntries st" unfolding entries by (simp add: flushEntry_def)
      then show ?thesis using old i by simp
    next
      case (Some e)
      define e' where "e' = (if peListStyle e = Some Block
             then e\<lparr>peValue := PList (psItems st), peRaw := sliceString doc (spFrom (peValueSpan e)) (spTo (peValueSpan e))\<rparr> else e)"
      have es: "psEntries st' = psEntries st @ [e']" unfolding entries by (simp add: flushEntry_def Some e'_def)
      show ?thesis
      proof (cases "i < length (psEntries st)")
        case True
        then show ?thesis using old [OF True] es by (simp add: nth_append)
      next
        case False
        then have i': "i = length (psEntries st)" "psEntries st' ! i = e'" using i es by (simp_all add: nth_append)
        show ?thesis unfolding i'(2) unfolding i'(1) e'_def by (rule openFrom_key [OF pend [OF Some] KeyLine])
      qed
    qed
    then show ?thesis unfolding origins_def using run new pend' by simp
  qed
qed

lemma origins_run: "parseLines env doc ns parseStart = Inr st \<Longrightarrow> origins env doc ns st"
proof (induction ns arbitrary: st rule: rev_induct)
  case Nil
  then have "st = parseStart" by simp
  then show ?case by (simp add: origins_def parseStart_def)
next
  case (snoc m ns)
  obtain st0 where st0: "parseLines env doc ns parseStart = Inr st0" "stepLine env doc m st0 = Inr st"
    using snoc.prems by (auto simp: parseLines_append split: sum.splits)
  show ?case by (rule origins_step [OF snoc.IH [OF st0(1)] st0(2)])
qed

lemma entry_origin:
  assumes "parseFrontmatter env doc fm = Inr es" "i < length es"
  shows "\<exists>ns1 n mid sk rest st1. origin env doc [fmOpenLine fm + 1..<fmCloseLine fm] i (es ! i) ns1 n mid sk rest st1 \<and>
    (rest = [] \<longleftrightarrow> Suc i = length es)"
proof -
  obtain st where st: "parseLines env doc [fmOpenLine fm + 1..<fmCloseLine fm] parseStart = Inr st"
    and es: "es = psEntries (flushEntry doc st)"
    using assms(1) by (auto simp: parseFrontmatter_def parseStart_def split: sum.splits)
  note o = origins_run [OF st]
  show ?thesis
  proof (cases "psPending st")
    case None
    then have "es = []" using o by (simp add: es flushEntry_def origins_def)
    then show ?thesis using assms(2) by simp
  next
    case (Some e)
    define e' where "e' = (if peListStyle e = Some Block
           then e\<lparr>peValue := PList (psItems st), peRaw := sliceString doc (spFrom (peValueSpan e)) (spTo (peValueSpan e))\<rparr> else e)"
    have e: "es = psEntries st @ [e']" unfolding es by (simp add: flushEntry_def Some e'_def)
    show ?thesis
    proof (cases "i < length (psEntries st)")
      case True
      then have "closedFrom env doc [fmOpenLine fm + 1..<fmCloseLine fm] i (psEntries st ! i)"
        using o unfolding origins_def by simp
      moreover have i: "es ! i = psEntries st ! i" "Suc i \<noteq> length es" using True by (simp_all add: e nth_append)
      ultimately show ?thesis unfolding i(1) closedFrom_def using i(2) by blast
    next
      case False
      then have i: "i = length (psEntries st)" "es ! i = e'" "Suc i = length es" using assms(2) by (simp_all add: e nth_append)
      have "openFrom env doc [fmOpenLine fm + 1..<fmCloseLine fm] i e"
        using o Some i(1) unfolding origins_def by simp
      then obtain ns1 n mid sk st1 where b: "origin env doc [fmOpenLine fm + 1..<fmCloseLine fm] i e ns1 n mid sk [] st1"
        unfolding openFrom_def by blast
      have "origin env doc [fmOpenLine fm + 1..<fmCloseLine fm] i e' ns1 n mid sk [] st1"
        using b origin_closed [OF b] by (simp add: e'_def)
      then show ?thesis unfolding i(2) using i(3) by blast
    qed
  qed
qed

end
