(* ===== verification/Fm_Edit.thy ===== *)
theory Fm_Edit
  imports Fm_Origin
begin

text \<open>
  Edits of the text as edits of the lines, the region after an edit, and runs over edited lines.
\<close>

section \<open>Lines and text\<close>

definition linesBefore :: "text16 list \<Rightarrow> text16" where
  "linesBefore A = concat (map (\<lambda>x. x @ [10]) A)"

definition linesAfter :: "text16 list \<Rightarrow> text16" where
  "linesAfter B = concat (map (\<lambda>x. 10 # x) B)"

lemma linesBefore_simps [simp]:
  "linesBefore [] = []" "linesBefore (x # A) = x @ 10 # linesBefore A" "linesBefore (A @ B) = linesBefore A @ linesBefore B"
  "linesAfter [] = []" "linesAfter (x # A) = 10 # x @ linesAfter A" "linesAfter (A @ B) = linesAfter A @ linesAfter B"
  by (simp_all add: linesBefore_def linesAfter_def)

lemma docText_cons: "docText (l # B) = l @ linesAfter B"
  by (induction B arbitrary: l) auto

lemma docText_at: "docText (A @ l # B) = linesBefore A @ l @ linesAfter B"
proof (induction A)
  case (Cons a A)
  obtain b C where "A @ l # B = b # C" by (cases A) auto
  then show ?case using Cons by simp
qed (simp add: docText_cons)

lemma lineFrom_at: "lineFrom (A @ B) (Suc (length A)) = length (linesBefore A)"
  by (induction A) (simp_all add: lineFrom_def)

lemma lineText_at: "lineText (A @ l # B) (Suc (length A)) = l"
  by (simp add: lineText_def)

lemma lineTo_at: "lineTo (A @ l # B) (Suc (length A)) = length (linesBefore A) + length l"
  by (simp add: lineTo_def lineFrom_at lineText_at)

definition clean :: "document \<Rightarrow> bool" where
  "clean doc \<longleftrightarrow> doc \<noteq> [] \<and> (\<forall>l \<in> set doc. 10 \<notin> set l \<and> 13 \<notin> set l)"

lemma splitLines_before: "\<forall>l \<in> set A. 10 \<notin> set l \<Longrightarrow> splitLines (linesBefore A @ t) = A @ splitLines t"
proof (induction A)
  case (Cons a A)
  have "10 \<notin> set a \<Longrightarrow> splitLines (a @ 10 # linesBefore A @ t) = a # splitLines (linesBefore A @ t)"
    by (induction a) auto
  then show ?case using Cons by simp
qed simp

lemma splitLines_line: "10 \<notin> set l \<Longrightarrow> \<forall>x \<in> set B. 10 \<notin> set x \<Longrightarrow> splitLines (l @ linesAfter B) = l # B"
proof (induction B arbitrary: l)
  case Nil
  then show ?case by (induction l) auto
next
  case (Cons b B)
  have "10 \<notin> set l \<Longrightarrow> splitLines (l @ 10 # b @ linesAfter B) = l # splitLines (b @ linesAfter B)"
    by (induction l) auto
  then show ?case using Cons by simp
qed

section \<open>The region\<close>

lemma lineText_tail: "2 \<le> n \<Longrightarrow> lineText (f # T) n = T ! (n - 2)"
  by (cases n; cases "n - 1") (auto simp: lineText_def)

lemma lines_between: "map (lineText (f # Y @ B)) [2..<length Y + 2] = Y"
proof -
  have "map (lineText (f # Y @ B)) [2..<length Y + 2] = map (\<lambda>i. lineText (f # Y @ B) (i + 2)) [0..<length Y]"
    unfolding map_add_upt [of 2 "length Y", symmetric] by (simp only: map_map comp_def)
  also have "\<dots> = map ((!) Y) [0..<length Y]"
    by (rule map_cong [OF refl]) (simp add: lineText_tail nth_append del: add_2_eq_Suc')
  finally show ?thesis by (simp only: map_nth)
qed

lemma find_upt:
  "find P [a..<b] = Some n \<longleftrightarrow> a \<le> n \<and> n < b \<and> P n \<and> (\<forall>j. a \<le> j \<and> j < n \<longrightarrow> \<not> P j)"
proof -
  have "find P [a..<b] = Some n \<longleftrightarrow> (\<exists>i. i < b - a \<and> P (a + i) \<and> n = a + i \<and> (\<forall>j < i. \<not> P (a + j)))"
    by (auto simp: find_Some_iff)
  also have "\<dots> \<longleftrightarrow> a \<le> n \<and> n < b \<and> P n \<and> (\<forall>j. a \<le> j \<and> j < n \<longrightarrow> \<not> P j)"
  proof
    assume "\<exists>i. i < b - a \<and> P (a + i) \<and> n = a + i \<and> (\<forall>j < i. \<not> P (a + j))"
    then obtain i where i: "i < b - a" "P (a + i)" "n = a + i" "\<forall>j < i. \<not> P (a + j)" by blast
    have "\<not> P j" if "a \<le> j" "j < n" for j using i(4) that i(3) by (metis add_diff_inverse_nat linorder_not_less nat_add_left_cancel_less)
    then show "a \<le> n \<and> n < b \<and> P n \<and> (\<forall>j. a \<le> j \<and> j < n \<longrightarrow> \<not> P j)" using i by auto
  next
    assume "a \<le> n \<and> n < b \<and> P n \<and> (\<forall>j. a \<le> j \<and> j < n \<longrightarrow> \<not> P j)"
    then show "\<exists>i. i < b - a \<and> P (a + i) \<and> n = a + i \<and> (\<forall>j < i. \<not> P (a + j))"
      by (intro exI [of _ "n - a"]) auto
  qed
  finally show ?thesis .
qed

lemma find_region:
  assumes "isFence f" "isFence c" "\<forall>y \<in> set Y. \<not> isFence y"
  shows "\<exists>fm. findFrontmatter (f # Y @ c # R) = Some fm \<and> fmOpenLine fm = 1 \<and> fmCloseLine fm = length Y + 2"
proof -
  let ?doc = "f # Y @ c # R"
  have one: "lineText ?doc 1 = f" by (simp add: lineText_def)
  have close: "lineText ?doc (length Y + 2) = c" by (simp add: lineText_def nth_append)
  have between: "\<not> isFence (lineText ?doc j)" if "2 \<le> j" "j < length Y + 2" for j
  proof -
    have j: "lineText ?doc j = Y ! (j - 2)" "j - 2 < length Y" using that by (auto simp: lineText_tail nth_append)
    show ?thesis unfolding j(1) using assms(3) nth_mem [OF j(2)] by blast
  qed
  have "find (\<lambda>n. isFence (lineText ?doc n)) [2..<length ?doc + 1] = Some (length Y + 2)"
    unfolding find_upt using close assms(2) between by auto
  then show ?thesis using assms(1) one by (auto simp: findFrontmatter_def)
qed

lemma region_split:
  assumes "findFrontmatter doc = Some fm"
  shows "\<exists>f Y c R. doc = f # Y @ c # R \<and> isFence f \<and> isFence c \<and> (\<forall>y \<in> set Y. \<not> isFence y) \<and>
    fmOpenLine fm = 1 \<and> fmCloseLine fm = length Y + 2"
proof -
  obtain n where n: "find (\<lambda>n. isFence (lineText doc n)) [2..<length doc + 1] = Some n" "length doc \<ge> 2" "isFence (lineText doc 1)"
    "fmOpenLine fm = 1" "fmCloseLine fm = n"
    using assms by (auto simp: findFrontmatter_def split: if_splits)
  have n': "2 \<le> n" "n \<le> length doc" "isFence (lineText doc n)" "\<And>j. 2 \<le> j \<Longrightarrow> j < n \<Longrightarrow> \<not> isFence (lineText doc j)"
    using n(1) unfolding find_upt by auto
  obtain f T where T: "doc = f # T" using n(2) by (cases doc) auto
  let ?Y = "take (n - 2) T"
  have len: "n - 2 < length T" using n'(1,2) T by auto
  have split: "T = ?Y @ T ! (n - 2) # drop (Suc (n - 2)) T" by (rule id_take_nth_drop [OF len])
  have "isFence f" using n(3) T by (simp add: lineText_def)
  moreover have "isFence (T ! (n - 2))" using n'(1,3) T by (simp add: lineText_tail)
  moreover have "\<not> isFence y" if y: "y \<in> set ?Y" for y
  proof -
    obtain j where j: "j < n - 2" "y = T ! j" using y len by (auto simp: in_set_conv_nth)
    then have "y = lineText doc (j + 2)" using T by (simp add: lineText_def)
    then show ?thesis using n'(4) [of "j + 2"] j(1) by simp
  qed
  moreover have "length ?Y + 2 = n" using len n'(1) by simp
  ultimately show ?thesis using T split n(4,5) by (metis append_Cons)
qed

text \<open>What the panel shows: keys, values and styles in order; \<open>None\<close> when there is no region or it is refused.\<close>

definition propertiesOf :: "'n fm_env \<Rightarrow> document \<Rightarrow> 'n shown list option" where
  "propertiesOf env doc =
     (case findFrontmatter doc of
        None \<Rightarrow> None
      | Some fm \<Rightarrow> (case parseFrontmatter env doc fm of Inl err \<Rightarrow> None | Inr es \<Rightarrow> Some (map shown es)))"

lemma properties_run:
  assumes "isFence f" "isFence c" "\<forall>y \<in> set Y. \<not> isFence y"
  shows "propertiesOf env (f # Y @ c # R) = (case viewRun env Y ([], [], None) of Inl err \<Rightarrow> None | Inr s \<Rightarrow> Some (viewEnd s))"
proof -
  obtain fm where fm: "findFrontmatter (f # Y @ c # R) = Some fm" "fmOpenLine fm = 1" "fmCloseLine fm = length Y + 2"
    using find_region [OF assms] by blast
  have lines: "map (lineText (f # Y @ c # R)) [fmOpenLine fm + 1..<fmCloseLine fm] = Y"
    using lines_between [of f Y "c # R"] by (simp add: fm numeral_2_eq_2)
  show ?thesis
    using parse_view [of env "f # Y @ c # R" fm] unfolding lines propertiesOf_def fm(1) option.case
    by (cases "parseFrontmatter env (f # Y @ c # R) fm"; cases "viewRun env Y ([], [], None)") simp_all
qed

section \<open>Runs over edited lines\<close>

lemma skip_run: "\<forall>l \<in> set ls. lineKind l = SkipLine \<Longrightarrow> viewRun env ls s = Inr s"
  by (induction ls) (cases s; simp)+

lemma nonkey_run:
  "\<forall>l \<in> set ls. lineKind l = SkipLine \<or> (\<exists>r. lineKind l = ItemLine r) \<Longrightarrow>
   viewRun env ls (o', s, Some ((k, v, st), it)) = Inr t \<Longrightarrow> \<exists>v' st' it'. t = (o', s, Some ((k, v', st'), it'))"
proof (induction ls arbitrary: v st it)
  case (Cons l ls)
  obtain v1 st1 it1 where "viewStep env l (o', s, Some ((k, v, st), it)) = Inr (o', s, Some ((k, v1, st1), it1))"
    "viewRun env ls (o', s, Some ((k, v1, st1), it1)) = Inr t"
    using Cons.prems by (auto split: sum.splits if_splits)
  then show ?case using Cons.IH Cons.prems(1) by auto
qed auto

lemma viewRun_seen:
  "set s' \<subseteq> set s \<Longrightarrow> viewRun env ls (o', s, p) = Inr (o2, s2, p2) \<Longrightarrow>
   \<exists>s2'. viewRun env ls (o', s', p) = Inr (o2, s2', p2)"
proof (induction ls arbitrary: o' s s' p)
  case (Cons l ls)
  obtain o1 s1 p1 where one: "viewStep env l (o', s, p) = Inr (o1, s1, p1)" "viewRun env ls (o1, s1, p1) = Inr (o2, s2, p2)"
    using Cons.prems(2) by (auto split: sum.splits)
  have "\<exists>s1'. viewStep env l (o', s', p) = Inr (o1, s1', p1) \<and> set s1' \<subseteq> set s1"
    using one(1) Cons.prems(1) by (cases "lineKind l") (auto split: option.splits sum.splits prod.splits if_splits)
  then obtain s1' where "viewStep env l (o', s', p) = Inr (o1, s1', p1)" "set s1' \<subseteq> set s1" by blast
  then show ?case using Cons.IH [OF _ one(2)] by auto
qed auto

text \<open>From the end or the next key on, the open entry and what is out before it do not matter.\<close>

definition freshStart :: "text16 list \<Rightarrow> bool" where
  "freshStart ls \<longleftrightarrow> (ls \<noteq> [] \<longrightarrow> (\<exists>r. lineKind (hd ls) = KeyLine r))"

lemma fresh_run:
  assumes "freshStart ls" "viewRun env ls (o1, s, p) = Inr t"
  shows "\<exists>tail. viewEnd t = o1 @ closePend p @ tail \<and>
    (\<forall>o2 s' p'. set s' \<subseteq> set s \<longrightarrow> (\<exists>t'. viewRun env ls (o2, s', p') = Inr t' \<and> viewEnd t' = o2 @ closePend p' @ tail))"
proof (cases ls)
  case Nil
  then show ?thesis using assms(2) by auto
next
  case (Cons l ls')
  then obtain r where r: "lineKind l = KeyLine r" using assms(1) by (auto simp: freshStart_def)
  obtain key q at v style len where k: "readKey r = Inr (key, q, at)" "key \<notin> set s" "readValue env (drop at r) = Inr (v, style, len)"
    and rest: "viewRun env ls' (o1 @ closePend p, s @ [key], Some ((key, v, style), [])) = Inr t"
    using assms(2) r by (auto simp: Cons split: sum.splits prod.splits if_splits)
  obtain ot st pt where t: "t = (ot, st, pt)" by (cases t) auto
  obtain new where new: "ot = (o1 @ closePend p) @ new"
    "\<forall>o2. viewRun env ls' (o2, s @ [key], Some ((key, v, style), [])) = Inr (o2 @ new, st, pt)"
    using viewRun_out [OF rest [unfolded t]] by blast
  have "\<exists>t'. viewRun env ls (o2, s', p') = Inr t' \<and> viewEnd t' = o2 @ closePend p' @ new @ closePend pt"
    if sub: "set s' \<subseteq> set s" for o2 s' p'
  proof -
    have "set (s' @ [key]) \<subseteq> set (s @ [key])" using sub by auto
    from viewRun_seen [OF this new(2) [rule_format, of "o2 @ closePend p'"]]
    obtain s2 where "viewRun env ls' (o2 @ closePend p', s' @ [key], Some ((key, v, style), [])) = Inr ((o2 @ closePend p') @ new, s2, pt)" by blast
    moreover have "key \<notin> set s'" using sub k(2) by auto
    ultimately show ?thesis using r k by (simp add: Cons)
  qed
  then show ?thesis using t new(1) by (intro exI [of _ "new @ closePend pt"]) simp
qed

lemma seen_keys:
  "viewRun env ls (o1, map fst (o1 @ closePend p), p) = Inr (o2, s2, p2) \<Longrightarrow> s2 = map fst (o2 @ closePend p2)"
proof (induction ls arbitrary: o1 p)
  case (Cons l ls)
  obtain o3 s3 p3 where one: "viewStep env l (o1, map fst (o1 @ closePend p), p) = Inr (o3, s3, p3)" "viewRun env ls (o3, s3, p3) = Inr (o2, s2, p2)"
    using Cons.prems by (auto split: sum.splits)
  have "s3 = map fst (o3 @ closePend p3)"
    using one(1) by (auto simp: closePend_def split: line_kind.splits option.splits sum.splits prod.splits if_splits)
  then show ?case using Cons.IH one(2) by blast
qed simp

end
