(* ===== verification/Fm_Line.thy ===== *)
theory Fm_Line
  imports Fm_Edit
begin

text \<open>
  One key line: what makes a line one, that its key depends only on what is before the colon, and the
  line written for a key and a value.
\<close>

section \<open>Key lines\<close>

lemma trim_all_space: "trim s = [] \<Longrightarrow> c \<in> set s \<Longrightarrow> isSpace c"
proof -
  assume t: "trim s = []" and c: "c \<in> set s"
  have "list_all isSpace (dropWhile isSpace s)"
    using t by (simp add: trim_def trimEnd_def trimStart_def list_all_iff)
  then have d: "dropWhile isSpace s = []" by (cases "dropWhile isSpace s") (use hd_dropWhile [of isSpace s] in auto)
  then show "isSpace c" using c by simp
qed

lemma colon_not_space: "\<not> isSpace 58"
  by (simp add: isSpace_def)

lemma withoutCR_id: "13 \<notin> set l \<Longrightarrow> withoutCR l = l"
  by (cases l rule: rev_cases) (auto simp: withoutCR_def)

lemma set_withoutCR: "set l \<subseteq> insert 13 (set (withoutCR l))"
  by (cases l rule: rev_cases) (auto simp: withoutCR_def)

lemma lineKind_key:
  assumes "13 \<notin> set l" "l \<noteq> []" "hd l \<noteq> 32" "hd l \<noteq> 9" "hd l \<noteq> 35" "take 2 l \<noteq> [45, 32]" "58 \<in> set l"
  shows "lineKind l = KeyLine l"
proof -
  have w: "withoutCR l = l" by (rule withoutCR_id [OF assms(1)])
  have t: "trim l \<noteq> []" using trim_all_space [OF _ assms(7)] colon_not_space by blast
  have i: "takeWhile (\<lambda>c. c = 32 \<or> c = 9) l = []" using assms(2-4) by (cases l) auto
  have "l \<noteq> [45]" "l \<noteq> [46, 46, 46]" "l \<noteq> [45, 45, 45]" using assms(7) by auto
  then show ?thesis using t i assms(2,5,6) by (simp add: lineKind_def w startsWith_def Let_def)
qed

lemma key_lineKind:
  assumes "13 \<notin> set l" "lineKind l = KeyLine r"
  shows "r = l" "l \<noteq> []" "hd l \<noteq> 32" "hd l \<noteq> 9" "hd l \<noteq> 35" "take 2 l \<noteq> [45, 32]"
proof -
  have w: "withoutCR l = l" by (rule withoutCR_id [OF assms(1)])
  have t: "trim l \<noteq> []" and i: "takeWhile (\<lambda>c. c = 32 \<or> c = 9) l = []" and k: "r = l" "\<not> startsWith 35 l" "take 2 l \<noteq> [45, 32]"
    using assms(2) unfolding lineKind_def w by (auto simp: Let_def split: if_splits)
  show n: "l \<noteq> []" using t by (auto simp: trim_def trimStart_def trimEnd_def)
  show "r = l" "take 2 l \<noteq> [45, 32]" using k by simp_all
  show "hd l \<noteq> 32" "hd l \<noteq> 9" "hd l \<noteq> 35" using n i k(2) by (cases l; auto simp: startsWith_def split: if_splits)+
qed

lemma colon_no_fence: "58 \<in> set l \<Longrightarrow> \<not> isFence l"
  using set_withoutCR [of l] by (auto simp: isFence_def)

section \<open>The key of a line is decided before its value\<close>

lemma quotedScan_prefix:
  "quotedScan q s = Some k \<Longrightarrow> k < m \<Longrightarrow> m \<le> length s \<Longrightarrow> quotedScan q (take m s @ x) = Some k"
proof (induction q s arbitrary: k m rule: quotedScan.induct)
  case (2 q c cs)
  obtain m' where m: "m = Suc m'" using "2.prems"(2) by (cases m) auto
  have head: "take m (c # cs) @ x = c # (take m' cs @ x)" by (simp add: m)
  show ?case
  proof (cases "q = 34 \<and> c = 92")
    case True
    then obtain k' where k': "quotedScan q (tl cs) = Some k'" "k = k' + 2" using "2.prems"(1) by auto
    obtain y ys where y: "cs = y # ys" using k'(1) by (cases cs) auto
    obtain m'' where m'': "m' = Suc m''" using "2.prems"(2) k'(2) m by (cases m') auto
    have "quotedScan q (take m'' (tl cs) @ x) = Some k'"
      by (rule "2.IH"(1) [OF True k'(1)]) (use "2.prems"(2,3) k'(2) m m'' y in auto)
    then show ?thesis using True k'(2) unfolding head by (simp add: m'' y)
  next
    case esc: False
    show ?thesis
    proof (cases "c = q")
      case True
      show ?thesis
      proof (cases "q = 39 \<and> startsWith 39 cs")
        case dbl: True
        then obtain k' where k': "quotedScan q (tl cs) = Some k'" "k = k' + 2" using "2.prems"(1) True esc by auto
        obtain y ys where y: "cs = y # ys" using k'(1) by (cases cs) auto
        obtain m'' where m'': "m' = Suc m''" using "2.prems"(2) k'(2) m by (cases m') auto
        have "quotedScan q (take m'' (tl cs) @ x) = Some k'"
          by (rule "2.IH"(2) [OF esc True dbl k'(1)]) (use "2.prems"(2,3) k'(2) m m'' y in auto)
        then show ?thesis using True dbl k'(2) unfolding head by (simp add: m'' y startsWith_def)
      next
        case False
        moreover have nq: "\<not> (q = 34 \<and> q = 92)" by auto
        ultimately have k: "k = 1" using "2.prems"(1) unfolding quotedScan.simps True if_not_P [OF nq] if_not_P [OF False] by simp
        obtain m'' where m'': "m' = Suc m''" using "2.prems"(2) k m by (cases m') auto
        obtain y ys where y: "cs = y # ys" using "2.prems"(3) m m'' by (cases cs) auto
        have "\<not> (q = 39 \<and> startsWith 39 (take m' cs @ x))" using False by (auto simp: m'' y startsWith_def)
        moreover have "\<not> (q = 34 \<and> q = 92)" by auto
        ultimately show ?thesis unfolding head k using True by (metis quotedScan.simps(2))
      qed
    next
      case False
      then obtain k' where k': "quotedScan q cs = Some k'" "k = Suc k'" using "2.prems"(1) esc by auto
      have "quotedScan q (take m' cs @ x) = Some k'"
        by (rule "2.IH"(3) [OF esc False k'(1)]) (use "2.prems"(2,3) k'(2) m in auto)
      then show ?thesis using False esc k'(2) unfolding head by auto
    qed
  qed
qed simp

lemma quotedEnd_prefix:
  assumes "quotedEnd s = Some k" "k < m" "m \<le> length s"
  shows "quotedEnd (take m s @ x) = Some k"
proof -
  obtain c cs where s: "s = c # cs" using assms(2,3) by (cases s) auto
  obtain m' where m: "m = Suc m'" using assms(2) by (cases m) auto
  obtain k' where k: "quotedScan c cs = Some k'" "k = Suc k'" using assms(1) by (auto simp: quotedEnd_def s)
  have "quotedScan c (take m' cs @ x) = Some k'" by (rule quotedScan_prefix [OF k(1)]) (use assms(2,3) in \<open>auto simp: k m s\<close>)
  then show ?thesis by (simp add: quotedEnd_def s m k(2))
qed

lemma indexOf_less: "indexOf c s = Some k \<Longrightarrow> k < length s"
  by (induction s arbitrary: k) (auto simp: indexOf_def split: if_splits)

lemma indexOf_prefix: "indexOf c s = Some k \<Longrightarrow> k < m \<Longrightarrow> indexOf c (take m s @ x) = Some k"
proof (induction s arbitrary: k m)
  case (Cons y s)
  obtain m' where m: "m = Suc m'" using Cons.prems(2) by (cases m) auto
  show ?case
  proof (cases "y = c")
    case False
    then obtain k' where k: "indexOf c s = Some k'" "k = Suc k'" using Cons.prems(1) by (auto simp: indexOf_def split: if_splits)
    then have "indexOf c (take m' s @ x) = Some k'" using Cons.IH Cons.prems(2) m by simp
    then show ?thesis using False k(2) by (auto simp: indexOf_def m split: if_splits)
  qed (use Cons.prems in \<open>auto simp: indexOf_def m\<close>)
qed (simp add: indexOf_def)

lemma readKey_parts:
  assumes "readKey s = Inr (key, q, at)"
  shows "\<exists>keyEnd colon. (if startsQuoted s then quotedEnd s else indexOf 58 s) = Some keyEnd \<and> at = keyEnd + colon + 1 \<and>
    trim (take keyEnd s) \<noteq> [] \<and> indexOf 58 (drop keyEnd s) = Some colon \<and> trim (take colon (drop keyEnd s)) = [] \<and>
    key = unquote (trim (take keyEnd s)) \<and> q = startsQuoted s"
  using assms unfolding readKey_def by (auto simp: Let_def split: option.splits if_splits)

lemma readKey_at:
  assumes "readKey s = Inr (key, q, at)"
  shows "2 \<le> at" "at \<le> length s" "58 \<in> set (take at s)"
proof -
  obtain keyEnd colon where p: "at = keyEnd + colon + 1" "trim (take keyEnd s) \<noteq> []" "indexOf 58 (drop keyEnd s) = Some colon"
    using readKey_parts [OF assms] by blast
  have "keyEnd \<noteq> 0" using p(2) by (cases keyEnd) (simp_all add: trim_def trimStart_def trimEnd_def)
  then show "2 \<le> at" using p(1) by simp
  note c = indexOf_less [OF p(3)]
  show len: "at \<le> length s" using c p(1) by simp
  have "indexOf 58 (take (Suc colon) (drop keyEnd s) @ []) = Some colon" by (rule indexOf_prefix [OF p(3)]) simp
  then have "58 \<in> set (take (Suc colon) (drop keyEnd s))" by (auto simp: indexOf_def split: if_splits)
  moreover have "take at s = take keyEnd s @ take (Suc colon) (drop keyEnd s)" using take_add [of keyEnd "Suc colon" s] by (simp add: p(1))
  ultimately show "58 \<in> set (take at s)" by simp
qed

lemma readKey_prefix:
  assumes "readKey s = Inr (key, q, at)"
  shows "readKey (take at s @ x) = Inr (key, q, at)"
proof -
  obtain keyEnd colon where p: "(if startsQuoted s then quotedEnd s else indexOf 58 s) = Some keyEnd" "at = keyEnd + colon + 1"
    "trim (take keyEnd s) \<noteq> []" "indexOf 58 (drop keyEnd s) = Some colon" "trim (take colon (drop keyEnd s)) = []"
    "key = unquote (trim (take keyEnd s))" "q = startsQuoted s"
    using readKey_parts [OF assms] by blast
  note at = readKey_at(1,2) [OF assms]
  have lt: "keyEnd < at" using p(2) by simp
  obtain y ys where s: "s = y # ys" using at by (cases s) auto
  have sq: "startsQuoted (take at s @ x) = startsQuoted s" using at(1) by (cases at) (auto simp: s startsQuoted_def)
  have ke: "(if startsQuoted s then quotedEnd (take at s @ x) else indexOf 58 (take at s @ x)) = Some keyEnd"
    using p(1) quotedEnd_prefix [OF _ lt at(2)] indexOf_prefix [OF _ lt] by (auto split: if_splits)
  have tk: "take keyEnd (take at s @ x) = take keyEnd s" using lt at(2) by simp
  have dr: "drop keyEnd (take at s @ x) = take (Suc colon) (drop keyEnd s) @ x"
    using p(2) at(2) by (simp add: drop_take)
  have ix: "indexOf 58 (take (Suc colon) (drop keyEnd s) @ x) = Some colon" by (rule indexOf_prefix [OF p(4)]) simp
  have tc: "take colon (take (Suc colon) (drop keyEnd s) @ x) = take colon (drop keyEnd s)"
    using indexOf_less [OF p(4)] by simp
  show ?thesis unfolding readKey_def sq ke option.case Let_def tk dr ix tc using p(2,3,5,6,7) by simp
qed

end
