(* ===== verification/Fm_Exact.thy ===== *)
theory Fm_Exact
  imports Fm_Line
begin

text \<open>
  The line written for a property, and the lines an entry of the reader stands on.
\<close>

section \<open>Written lines\<close>

lemma keyText_token: "keyText key = scalarToken key"
  by (simp add: keyText_def scalarToken_def)

lemma token_breaks:
  assumes "13 \<notin> set s"
  shows "10 \<notin> set (scalarToken s)" "13 \<notin> set (scalarToken s)"
proof -
  have "10 \<notin> set (quoteScalar s)" "13 \<notin> set (quoteScalar s)"
    using assms by (auto simp: quoteScalar_eq quoted1_def split: if_splits)
  moreover have "10 \<notin> set s" if "\<not> needsQuotes s"
    using unquoted_plain(4) [OF that, of 10] by (cases "s = []") auto
  ultimately show "10 \<notin> set (scalarToken s)" "13 \<notin> set (scalarToken s)" using assms by (auto simp: scalarToken_def)
qed

lemma join_breaks:
  assumes "list_all textOk items"
  shows "10 \<notin> set (joinWith [44, 32] (map scalarToken items))" "13 \<notin> set (joinWith [44, 32] (map scalarToken items))"
proof -
  have "10 \<notin> set (scalarToken s) \<and> 13 \<notin> set (scalarToken s)" if "s \<in> set items" for s
    using token_breaks [of s] assms that by (auto simp: list_all_iff textOk_def)
  then show "10 \<notin> set (joinWith [44, 32] (map scalarToken items))" "13 \<notin> set (joinWith [44, 32] (map scalarToken items))"
    by (cases items; auto simp: joinWith_concat)+
qed

lemma serialize_breaks:
  assumes "storable env v"
  shows "10 \<notin> set (serializeValue env v Flow ind)" "13 \<notin> set (serializeValue env v Flow ind)"
proof -
  have plain: "10 \<notin> set s \<and> 13 \<notin> set s" if "\<not> needsQuotes s" "s \<noteq> []" for s
    using unquoted_plain(4) [OF that, of 10] unquoted_plain(4) [OF that, of 13] by auto
  have "10 \<notin> set (serializeValue env v Flow ind) \<and> 13 \<notin> set (serializeValue env v Flow ind)"
  proof (cases v)
    case (PText s)
    then show ?thesis using assms token_breaks [of s] by (auto simp: storable_def textOk_def serializeValue_def serializeText_def)
  next
    case (PNumber x)
    then show ?thesis using assms plain [of "feShow env x"] by (auto simp: storable_def serializeValue_def)
  next
    case (PDate s)
    then show ?thesis using assms plain [of s] by (auto simp: storable_def serializeValue_def serializeText_def scalarToken_def)
  next
    case (PList items)
    then show ?thesis using assms join_breaks [of items] by (auto simp: storable_def serialize_list)
  qed (use assms in \<open>auto simp: storable_def serializeValue_def\<close>)
  then show "10 \<notin> set (serializeValue env v Flow ind)" "13 \<notin> set (serializeValue env v Flow ind)" by simp_all
qed

definition keyOk :: "text16 \<Rightarrow> bool" where
  "keyOk key \<longleftrightarrow> key \<noteq> [] \<and> textOk key"

lemma readKey_written:
  assumes "keyOk key"
  shows "\<exists>q. readKey (keyText key @ 58 # x) = Inr (key, q, Suc (length (keyText key)))"
proof -
  have ok: "key \<noteq> []" "textOk key" using assms by (simp_all add: keyOk_def)
  have t: "trim (scalarToken key) = scalarToken key" "scalarToken key \<noteq> []" "unquote (scalarToken key) = key"
    using trim_token(1) [of key] scalarToken_ends(1) [OF ok(1)] unquote_token [OF ok(2)] by simp_all
  have "(if startsQuoted (scalarToken key @ 58 # x) then quotedEnd (scalarToken key @ 58 # x)
      else indexOf 58 (scalarToken key @ 58 # x)) = Some (length (scalarToken key))"
  proof (cases "needsQuotes key")
    case True
    then show ?thesis using quotedEnd_quoteScalar [of key "58 # x"]
      by (simp add: scalarToken_def startsQuoted_def isQuote_def quoteScalar_eq)
  next
    case False
    note p = unquoted_plain(4) [OF False ok(1)]
    have "58 \<notin> set key" using p by auto
    moreover have "\<not> startsQuoted (key @ 58 # x)" using p [of "hd key"] ok(1) by (auto simp: startsQuoted_def isQuote_def)
    moreover have "takeWhile (\<lambda>c. c \<noteq> 58) (key @ 58 # x) = key" using \<open>58 \<notin> set key\<close> by (subst takeWhile_append2) auto
    ultimately show ?thesis using False by (simp add: scalarToken_def indexOf_def)
  qed
  then show ?thesis
    using t by (simp add: readKey_def keyText_token Let_def indexOf_def trim_def trimStart_def trimEnd_def)
qed

lemma lineKind_written:
  assumes "keyOk key" "storable env v"
  shows "lineKind (keyText key @ 58 # serializeValue env v Flow ind) = KeyLine (keyText key @ 58 # serializeValue env v Flow ind)"
proof (rule lineKind_key)
  have ok: "key \<noteq> []" "13 \<notin> set key" using assms(1) by (simp_all add: keyOk_def textOk_def)
  show "13 \<notin> set (keyText key @ 58 # serializeValue env v Flow ind)"
    using token_breaks(2) [OF ok(2)] serialize_breaks(2) [OF assms(2)] by (simp add: keyText_token)
  note e = scalarToken_ends [OF ok(1)]
  have h: "hd (scalarToken key) \<noteq> 32" "hd (scalarToken key) \<noteq> 9" using e(2) by (auto simp: isSpace_def)
  have h': "hd (scalarToken key) \<noteq> 35 \<and> hd (scalarToken key) \<noteq> 45"
  proof (cases "needsQuotes key")
    case False
    then show ?thesis using unquoted_plain(4) [OF False ok(1), of "hd key"] ok(1) by (auto simp: scalarToken_def needsQuotes_def)
  qed (simp add: scalarToken_def quoteScalar_eq)
  obtain c cs where c: "scalarToken key = c # cs" using e(1) by (cases "scalarToken key") auto
  show "hd (keyText key @ 58 # serializeValue env v Flow ind) \<noteq> 32" "hd (keyText key @ 58 # serializeValue env v Flow ind) \<noteq> 9"
    "hd (keyText key @ 58 # serializeValue env v Flow ind) \<noteq> 35" "take 2 (keyText key @ 58 # serializeValue env v Flow ind) \<noteq> [45, 32]"
    using h h' by (auto simp: keyText_token c)
qed auto

section \<open>The lines of an entry\<close>

lemma key_step:
  assumes "lineKind l = KeyLine l" "readKey l = Inr (key, q, at)" "key \<notin> set seen" "readValue env (drop at l) = Inr (v, style, len)"
  shows "viewRun env (l # ls) (o1, seen, p) = viewRun env ls (o1 @ closePend p, seen @ [key], Some ((key, v, style), []))"
  using assms by simp

lemma lineTo_last: "X \<noteq> [] \<Longrightarrow> lineTo (X @ B) (length X) + 1 = length (linesBefore X)"
  by (cases X rule: rev_cases) (simp_all add: lineTo_at)

lemma upt_nth: "[a..<b] = xs @ n # ys \<Longrightarrow> n = a + length xs"
proof -
  assume e: "[a..<b] = xs @ n # ys"
  have "length [a..<b] = Suc (length xs + length ys)" unfolding e by simp
  then have "[a..<b] ! length xs = a + length xs" by (intro nth_upt) simp
  then show "n = a + length xs" unfolding e by simp
qed

definition lineOf :: "'n fm_env \<Rightarrow> document \<Rightarrow> text16 list \<Rightarrow> nat \<Rightarrow> text16 \<Rightarrow> 'n prop_entry \<Rightarrow> bool" where
  "lineOf env doc seen start L e \<longleftrightarrow> (\<exists>q at v style len. lineKind L = KeyLine L \<and>
     readKey L = Inr (peKey e, q, at) \<and> peKey e \<notin> set seen \<and> readValue env (drop at L) = Inr (v, style, len) \<and>
     (peListStyle e \<noteq> Some Block \<longrightarrow> peValue e = v \<and> peListStyle e = style \<and>
        peValueSpan e = \<lparr>spFrom = start + at, spTo = (case len of None \<Rightarrow> start + length L | Some k \<Rightarrow> start + at + k)\<rparr> \<and>
        peRaw e = sliceString doc (spFrom (peValueSpan e)) (spTo (peValueSpan e))))"

definition continues :: "'n fm_env \<Rightarrow> text16 list \<Rightarrow> text16 list \<Rightarrow> 'n shown list \<Rightarrow> bool" where
  "continues env Rs seen tail \<longleftrightarrow> (\<forall>o2 s' p'. set s' \<subseteq> set seen \<longrightarrow>
     (\<exists>t'. viewRun env Rs (o2, s', p') = Inr t' \<and> viewEnd t' = o2 @ closePend p' @ tail))"

lemma parseStart_abs: "items_ok parseStart" "absState parseStart = ([], [], None)"
  by (simp_all add: items_ok_def absState_def parseStart_def)

lemma entry_lines:
  assumes doc: "findFrontmatter doc = Some fm" "clean doc" and es: "parseFrontmatter env doc fm = Inr es" and i: "i < length es"
  obtains f A L M S Rs c R o1 p1 where "doc = (f # A) @ L # M @ S @ Rs @ c # R"
    "isFence f" "isFence c" "\<forall>y \<in> set (A @ L # M @ S @ Rs). \<not> isFence y"
    "viewRun env A ([], [], None) = Inr (o1, map fst (o1 @ closePend p1), p1)"
    "o1 @ closePend p1 = take i (map shown es)"
    "lineOf env doc (map fst (o1 @ closePend p1)) (length (linesBefore (f # A))) L (es ! i)"
    "spFrom (peLineSpan (es ! i)) = length (linesBefore (f # A))"
    "spTo (peLineSpan (es ! i)) + 1 = length (linesBefore (f # A @ L # M))"
    "M = [] \<or> peListStyle (es ! i) = Some Block"
    "\<forall>l \<in> set S. lineKind l = SkipLine" "Rs = [] \<longleftrightarrow> Suc i = length es"
    "\<exists>x. viewRun env (A @ L # M) ([], [], None) = Inr x \<and> viewEnd x = take (Suc i) (map shown es)"
    "continues env Rs (map fst (o1 @ closePend p1) @ [peKey (es ! i)]) (drop (Suc i) (map shown es))"
proof -
  obtain f Y c R where Y: "doc = f # Y @ c # R" "isFence f" "isFence c" "\<forall>y \<in> set Y. \<not> isFence y"
    "fmOpenLine fm = 1" "fmCloseLine fm = length Y + 2"
    using region_split [OF doc(1)] by blast
  obtain ns1 n mid sk rest st1 where o: "origin env doc [fmOpenLine fm + 1..<fmCloseLine fm] i (es ! i) ns1 n mid sk rest st1"
    "rest = [] \<longleftrightarrow> Suc i = length es"
    using entry_origin [OF es i] by blast
  have ns: "[2..<length Y + 2] = ns1 @ n # mid @ sk @ rest" using o(1) Y(5,6) unfolding origin_def by (simp add: numeral_2_eq_2)
  define A where "A = map (lineText doc) ns1"
  define L where "L = lineText doc n"
  define M where "M = map (lineText doc) mid"
  define S where "S = map (lineText doc) sk"
  define Rs where "Rs = map (lineText doc) rest"
  have Ycut: "Y = A @ L # M @ S @ Rs"
    using lines_between [of f Y "c # R"] unfolding ns Y(1) [symmetric] by (simp add: A_def L_def M_def S_def Rs_def)
  have cut: "doc = (f # A) @ L # M @ S @ Rs @ c # R" using Y(1) Ycut by simp
  have n: "n = Suc (length (f # A))" using upt_nth [OF ns] by (simp add: A_def)
  obtain o1 s1 p1 where abs: "absState st1 = (o1, s1, p1)" by (cases "absState st1") auto
  have ran: "parseLines env doc ns1 parseStart = Inr st1" using o(1) by (simp add: origin_def)
  have run1: "viewRun env A ([], [], None) = Inr (o1, s1, p1)"
    using conjunct1 [OF run_abs [OF parseStart_abs(1), of env doc ns1]] unfolding ran parseStart_abs(2) A_def by (simp add: abs)
  have s1: "s1 = map fst (o1 @ closePend p1)" using seen_keys [of env A "[]" None] run1 by (simp add: closePend_def)
  have leni: "length (o1 @ closePend p1) = i"
    using arg_cong [OF abs_flush(1) [of doc st1], of length] o(1) unfolding abs origin_def by simp
  have L13: "13 \<notin> set L" using doc(2) unfolding clean_def cut by simp
  have at: "lineFrom doc n = length (linesBefore (f # A))" "lineTo doc n = length (linesBefore (f # A)) + length L"
    using lineFrom_at [of "f # A" "L # M @ S @ Rs @ c # R"] lineTo_at [of "f # A" L "M @ S @ Rs @ c # R"] unfolding n cut by simp_all
  have facts: "keyFacts env doc n st1 (es ! i)" and psSeen: "psSeen st1 = s1"
    using o(1) abs by (simp_all add: origin_def absState_def)
  have line: "lineOf env doc s1 (length (linesBefore (f # A))) L (es ! i)"
    using facts key_lineKind(1) [OF L13] unfolding keyFacts_def psSeen at L_def [symmetric] lineOf_def by metis
  obtain q k v style len where K: "lineKind L = KeyLine L" "readKey L = Inr (peKey (es ! i), q, k)" "peKey (es ! i) \<notin> set s1"
    "readValue env (drop k L) = Inr (v, style, len)" using line unfolding lineOf_def by blast
  obtain t where t: "viewRun env Y ([], [], None) = Inr t" "map shown es = viewEnd t"
    using parse_view [of env doc fm] es lines_between [of f Y "c # R"] Y(1,5,6)
    by (cases "viewRun env Y ([], [], None)") (simp_all add: numeral_2_eq_2)
  have t2: "viewRun env (M @ S @ Rs) (o1 @ closePend p1, s1 @ [peKey (es ! i)], Some ((peKey (es ! i), v, style), [])) = Inr t"
    using t(1) unfolding Ycut viewRun_append run1 sum.case key_step [OF K] .
  have M: "\<forall>l \<in> set M. lineKind l = SkipLine \<or> (\<exists>r. lineKind l = ItemLine r)" and S: "\<forall>l \<in> set S. lineKind l = SkipLine"
    using o(1) by (auto simp: M_def S_def origin_def nonKey_def)
  obtain u where u: "viewRun env M (o1 @ closePend p1, s1 @ [peKey (es ! i)], Some ((peKey (es ! i), v, style), [])) = Inr u"
    "viewRun env Rs u = Inr t"
    using t2 unfolding viewRun_append skip_run [OF S] by (auto split: sum.splits)
  obtain v' st' it' where u': "u = (o1 @ closePend p1, s1 @ [peKey (es ! i)], Some ((peKey (es ! i), v', st'), it'))"
    using nonkey_run [OF M u(1)] by blast
  have fresh: "freshStart Rs" using o(1) by (auto simp: freshStart_def Rs_def origin_def hd_map)
  define x where "x = closePend (Some ((peKey (es ! i), v', st'), it'))"
  obtain tail where tail: "viewEnd t = (o1 @ closePend p1) @ x @ tail" "continues env Rs (s1 @ [peKey (es ! i)]) tail"
    using fresh_run [OF fresh u(2) [unfolded u']] unfolding x_def continues_def by blast
  have x: "length x = 1" by (simp add: x_def closePend_def)
  have pieces: "take i (map shown es) = o1 @ closePend p1" "take (Suc i) (map shown es) = (o1 @ closePend p1) @ x"
    "drop (Suc i) (map shown es) = tail"
    unfolding t(2) tail(1) using leni x by auto
  have upto: "viewRun env (A @ L # M) ([], [], None) = Inr u"
    unfolding viewRun_append run1 sum.case key_step [OF K] u(1) ..
  show ?thesis
  proof (rule that [of f A L M S Rs c R o1 p1])
    show "spTo (peLineSpan (es ! i)) + 1 = length (linesBefore (f # A @ L # M))"
    proof (cases "mid = []")
      case True
      then show ?thesis using o(1) at(2) by (simp add: M_def origin_def)
    next
      case False
      have l: "last mid = length (f # A @ L # M)"
      proof -
        obtain m' where m': "mid = m' @ [last mid]" using False by (metis append_butlast_last_id)
        have "[2..<length Y + 2] = (ns1 @ n # m') @ last mid # sk @ rest" using ns m' by simp
        from upt_nth [OF this] show ?thesis using arg_cong [OF m', of length] by (simp add: A_def M_def)
      qed
      have d: "doc = (f # A @ L # M) @ S @ Rs @ c # R" using cut by simp
      show ?thesis
        using lineTo_last [of "f # A @ L # M" "S @ Rs @ c # R"] o(1) False unfolding d [symmetric] l [symmetric] origin_def by simp
    qed
    show "\<exists>x. viewRun env (A @ L # M) ([], [], None) = Inr x \<and> viewEnd x = take (Suc i) (map shown es)"
      using upto unfolding pieces(2) by (intro exI [of _ u]) (simp add: u' x_def)
    show "doc = (f # A) @ L # M @ S @ Rs @ c # R" by (rule cut)
    show "isFence f" "isFence c" "\<forall>y \<in> set (A @ L # M @ S @ Rs). \<not> isFence y" using Y(2-4) Ycut by simp_all
    show "viewRun env A ([], [], None) = Inr (o1, map fst (o1 @ closePend p1), p1)" using run1 s1 by simp
    show "o1 @ closePend p1 = take i (map shown es)" using pieces(1) by simp
    show "lineOf env doc (map fst (o1 @ closePend p1)) (length (linesBefore (f # A))) L (es ! i)" using line s1 by simp
    show "spFrom (peLineSpan (es ! i)) = length (linesBefore (f # A))" using facts at(1) by (auto simp: keyFacts_def)
    show "M = [] \<or> peListStyle (es ! i) = Some Block" using o(1) by (auto simp: M_def origin_def)
    show "\<forall>l \<in> set S. lineKind l = SkipLine" by (rule S)
    show "Rs = [] \<longleftrightarrow> Suc i = length es" using o(2) by (simp add: Rs_def)
    show "continues env Rs (map fst (o1 @ closePend p1) @ [peKey (es ! i)]) (drop (Suc i) (map shown es))"
      using tail(2) pieces(3) s1 by simp
  qed
qed

end
