(* ===== verification/Fm_Span.thy ===== *)
theory Fm_Span
  imports Fm_Exact
begin

text \<open>
  The span of a value lies within its line, and what replacing a span, a run of lines or an empty span
  does to the lines of the document.
\<close>

section \<open>Spans stay in the line\<close>

lemma quotedScan_le: "quotedScan q s = Some k \<Longrightarrow> k \<le> length s"
proof (induction q s arbitrary: k rule: quotedScan.induct)
  case (2 q c cs)
  show ?case
  proof (cases "q = 34 \<and> c = 92")
    case True
    then obtain j where j: "quotedScan q (tl cs) = Some j" "k = j + 2" using "2.prems" by auto
    then show ?thesis using "2.IH"(1) [OF True j(1)] by (cases cs) auto
  next
    case esc: False
    show ?thesis
    proof (cases "c = q \<and> q = 39 \<and> startsWith 39 cs")
      case True
      then obtain j where j: "quotedScan q (tl cs) = Some j" "k = j + 2" using "2.prems" esc by auto
      then show ?thesis using "2.IH"(2) [OF esc _ _ j(1)] True by (cases cs) auto
    next
      case plain: False
      show ?thesis
      proof (cases "c = q")
        case True
        have "\<not> (q = 34 \<and> q = 92)" "\<not> (q = 39 \<and> startsWith 39 cs)" using plain True by auto
        then have "k = 1" using "2.prems" unfolding quotedScan.simps True by (simp only: if_False if_True simp_thms option.inject)
        then show ?thesis by simp
      next
        case False
        then obtain j where j: "quotedScan q cs = Some j" "k = Suc j" using "2.prems" esc by auto
        then show ?thesis using "2.IH"(3) [OF esc False j(1)] by simp
      qed
    qed
  qed
qed simp

lemma quotedEnd_le: "s \<noteq> [] \<Longrightarrow> quotedEnd s = Some k \<Longrightarrow> k \<le> length s"
  using quotedScan_le [of "hd s" "tl s"] by (cases s) (auto simp: quotedEnd_def)

lemma flowScan_le: "flowScan s = Some k \<Longrightarrow> k \<le> length s"
proof (induction s arbitrary: k rule: flowScan.induct)
  case (2 c cs)
  show ?case
  proof (cases "isQuote c")
    case True
    then obtain a j where a: "quotedEnd (c # cs) = Some a" "flowScan (drop a (c # cs)) = Some j" "k = a + j"
      using "2.prems" by (auto split: option.splits)
    then show ?thesis using "2.IH"(1) [OF True a(1,2)] quotedEnd_le [OF _ a(1)] by simp
  next
    case False
    then show ?thesis using "2.prems" "2.IH"(2) [OF False] by (auto split: if_splits)
  qed
qed simp

lemma trimEnd_le: "length (trimEnd s) \<le> length s"
  by (simp add: trimEnd_def) (metis length_dropWhile_le length_rev)

lemma readValue_len:
  assumes "readValue env s = Inr (v, style, Some k)"
  shows "k \<le> length s"
proof -
  define b where "b = length (takeWhile (\<lambda>c. c = 32) s)"
  define t where "t = drop b s"
  have b: "b \<le> length s" "length t = length s - b" by (simp_all add: b_def t_def length_takeWhile_le)
  have u: "readValue env s =
     (if t = [] \<or> startsWith 35 t then Inr (PText [], None, if startsWith 35 t then Some 0 else None)
      else if startsWith 91 t then
        (case flowEnd t of None \<Rightarrow> Inl Malformed
         | Some e \<Rightarrow> (case splitFlow (take (e - 2) (tl t)) of None \<Rightarrow> Inl Malformed | Some items \<Rightarrow> Inr (PList items, Some Flow, Some (b + e))))
      else if startsWith 123 t then Inl Nested
      else (case (if startsQuoted t then quotedEnd t else Some (unquotedEnd t)) of None \<Rightarrow> Inl Malformed
        | Some e \<Rightarrow> (let token = trimEnd (take e t) in case classify env token of None \<Rightarrow> Inl UnsupportedScalar
            | Some v \<Rightarrow> Inr (v, None, Some (b + length token)))))"
    unfolding readValue_def Let_def b_def t_def ..
  have flow: "e \<le> length t" if "flowEnd t = Some e" "t \<noteq> []" for e
    using that flowScan_le [of "tl t"] by (cases t) (auto simp: flowEnd_def)
  have token: "length (trimEnd (take e t)) \<le> length t" for e using trimEnd_le [of "take e t"] by simp
  consider "k = 0" | e where "flowEnd t = Some e" "k = b + e" "t \<noteq> []" | e where "k = b + length (trimEnd (take e t))"
    using assms unfolding u by (auto simp: Let_def split: if_splits option.splits)
  then show ?thesis using flow token b by cases (auto simp: add.commute le_diff_conv2 intro: order_trans)
qed

section \<open>Edits of lines\<close>

lemma line_edit:
  assumes "clean (X @ L # B)" "a \<le> b" "b \<le> length L" "10 \<notin> set ins"
  shows "applyChange (X @ L # B) \<lparr>scFrom = length (linesBefore X) + a, scTo = length (linesBefore X) + b, scInsert = ins\<rparr> =
    X @ (take a L @ ins @ drop b L) # B"
proof -
  have c: "\<forall>l \<in> set X. 10 \<notin> set l" "10 \<notin> set L" "\<forall>l \<in> set B. 10 \<notin> set l" using assms(1) by (auto simp: clean_def)
  have t: "take (length (linesBefore X) + a) (docText (X @ L # B)) @ ins @ drop (length (linesBefore X) + b) (docText (X @ L # B)) =
    linesBefore X @ (take a L @ ins @ drop b L) @ linesAfter B"
    using assms(2,3) by (simp add: docText_at)
  have n: "10 \<notin> set (take a L @ ins @ drop b L)" using c(2) assms(4) by (auto dest: in_set_takeD in_set_dropD)
  show ?thesis
    unfolding applyChange_def span_change.simps t splitLines_before [OF c(1)] splitLines_line [OF n c(3)] ..
qed

lemma line_slice:
  assumes "b \<le> length L"
  shows "sliceString (X @ L # B) (length (linesBefore X) + a) (length (linesBefore X) + b) = take (b - a) (drop a L)"
  using assms by (simp add: sliceString_def docText_at)

lemma docText_more: "B \<noteq> [] \<Longrightarrow> docText (X @ B) = linesBefore X @ docText B"
  by (cases B) (simp_all add: docText_at docText_cons)

lemma splitLines_docText: "B \<noteq> [] \<Longrightarrow> \<forall>l \<in> set B. 10 \<notin> set l \<Longrightarrow> splitLines (docText B) = B"
  by (cases B) (simp_all add: docText_cons splitLines_line)

lemma lines_edit:
  assumes "clean (X @ D @ B)" "B \<noteq> []" "\<forall>l \<in> set I. 10 \<notin> set l"
  shows "applyChange (X @ D @ B) \<lparr>scFrom = length (linesBefore X), scTo = length (linesBefore (X @ D)), scInsert = linesBefore I\<rparr> = X @ I @ B"
proof -
  have c: "\<forall>l \<in> set (X @ I). 10 \<notin> set l" "\<forall>l \<in> set B. 10 \<notin> set l" using assms(1,3) by (auto simp: clean_def)
  have "docText (X @ D @ B) = linesBefore X @ linesBefore D @ docText B"
    using docText_more [OF assms(2), of "X @ D"] by simp
  then have "take (length (linesBefore X)) (docText (X @ D @ B)) @ linesBefore I @ drop (length (linesBefore (X @ D))) (docText (X @ D @ B)) =
    linesBefore (X @ I) @ docText B" by simp
  then show ?thesis
    using splitLines_before [OF c(1), of "docText B"] splitLines_docText [OF assms(2) c(2)] by (simp add: applyChange_def)
qed

lemma line_after:
  assumes "clean (X @ B)" "X \<noteq> []" "B \<noteq> []" "10 \<notin> set l" "Suc at = length (linesBefore X)"
  shows "applyChange (X @ B) \<lparr>scFrom = at, scTo = at, scInsert = 10 # l\<rparr> = X @ l # B"
proof -
  obtain Y y where X: "X = Y @ [y]" using assms(2) by (cases X rule: rev_cases) auto
  have c: "\<forall>x \<in> set (X @ [l]). 10 \<notin> set x" "\<forall>x \<in> set B. 10 \<notin> set x" using assms(1,4) by (auto simp: clean_def)
  have at: "at = length (linesBefore Y @ y)" using assms(5) X by simp
  have "take at (docText (X @ B)) @ (10 # l) @ drop at (docText (X @ B)) = linesBefore (X @ [l]) @ docText B"
    using docText_more [OF assms(3), of X] unfolding at by (simp add: X)
  then show ?thesis
    using splitLines_before [OF c(1), of "docText B"] splitLines_docText [OF assms(3) c(2)] by (simp add: applyChange_def)
qed

end
