(* ===== verification/Fm_Back.thy ===== *)
theory Fm_Back
  imports Fm_Span
begin

text \<open>
  A block item as it is written and read: refused when it holds a colon and a space, read back otherwise.
\<close>

lemma hasColonSpace_cons: "hasColonSpace (x # t) \<longleftrightarrow> (x = 58 \<and> t \<noteq> [] \<and> hd t = 32) \<or> hasColonSpace t"
  by (cases t) (auto simp: hasColonSpace_def)

lemma quoted_colon: "hasColonSpace (concat (map quoted1 s) @ [34]) \<longleftrightarrow> hasColonSpace s"
proof (induction s)
  case (Cons x s)
  have h: "hd (concat (map quoted1 s) @ [34]) = 32 \<longleftrightarrow> s \<noteq> [] \<and> hd s = 32" by (cases s) (auto simp: quoted1_def)
  show ?case
  proof (cases "quoted1 x = [x]")
    case True
    then show ?thesis using Cons.IH h by (simp add: hasColonSpace_cons)
  next
    case False
    then show ?thesis using Cons.IH by (auto simp: quoted1_def hasColonSpace_cons split: if_splits)
  qed
qed (simp add: hasColonSpace_def)

lemma item_end:
  assumes "textOk s"
  shows "(if startsQuoted (scalarToken s) then quotedEnd (scalarToken s) else Some (unquotedEnd (scalarToken s))) = Some (length (scalarToken s))"
proof (cases "needsQuotes s")
  case True
  then show ?thesis using quotedEnd_quoteScalar [of s "[]"] by (simp add: scalarToken_def quoteScalar_eq startsQuoted_def isQuote_def)
next
  case False
  have "\<not> startsQuoted s" using unquoted_plain(4) [OF False, of "hd s"] by (cases "s = []") (auto simp: startsQuoted_def isQuote_def)
  moreover have "unquotedEnd s = length s"
  proof (cases "s = []")
    case False
    then have "35 \<notin> set s" using unquoted_plain(4) [OF \<open>\<not> needsQuotes s\<close>, of 35] by auto
    then show ?thesis using unquotedScan_plain [of s True "[]"] by (auto simp: unquotedEnd_def)
  qed (simp add: unquotedEnd_def)
  ultimately show ?thesis using False by (simp add: scalarToken_def)
qed

lemma item_reads_back:
  assumes "textOk s"
  shows "readItem ([45, 32] @ scalarToken s) = (if hasColonSpace s then Inl Nested else Inr s)"
proof -
  let ?t = "scalarToken s"
  have no: "([45, 32] @ ?t = [45]) = False" and d: "drop 2 ([45, 32] @ ?t) = ?t" by simp_all
  have "readItem ([45, 32] @ ?t) =
     (if ?t \<noteq> [] \<and> refusedSigil (hd ?t) then Inl UnsupportedScalar
      else if startsWith 123 ?t then Inl Nested
      else if hasColonSpace ?t \<or> (?t \<noteq> [] \<and> last ?t = 58) then Inl Nested
      else Inr s)"
    unfolding readItem_def Let_def d by (simp only: no if_False trim_token(1) item_end [OF assms] option.case take_all_iff order_refl take_all unquote_token [OF assms])
  moreover have "\<not> (?t \<noteq> [] \<and> refusedSigil (hd ?t)) \<and> \<not> startsWith 123 ?t \<and> \<not> (?t \<noteq> [] \<and> last ?t = 58) \<and> hasColonSpace ?t = hasColonSpace s"
  proof (cases "needsQuotes s")
    case True
    then show ?thesis by (simp add: scalarToken_def quoteScalar_eq refusedSigil_def startsWith_def hasColonSpace_cons [of 34] quoted_colon)
  next
    case False
    then show ?thesis
      using unquoted_plain(4) [OF False, of "last s"] by (cases s) (auto simp: scalarToken_def needsQuotes_def refusedSigil_def startsWith_def)
  qed
  ultimately show ?thesis by simp
qed

end
