(* ===== verification/Fm_Props.thy ===== *)
theory Fm_Props
  imports Fm_Back
begin

text \<open>
  The edits of the properties panel: setting, removing and adding a property changes that property
  and no other, and only its lines; and the texts and lines the reader and the writer disagree about.
\<close>

section \<open>Setting a value\<close>



section \<open>Removing and adding\<close>

text \<open>Removing a property takes its lines out, and the reader shows the others as they were.\<close>

theorem frontmatter_delete_exact:
  assumes "clean doc" "findFrontmatter doc = Some fm" "parseFrontmatter env doc fm = Inr es" "i < length es"
  shows "\<exists>n m. propertiesOf env (applyChanges doc (planDeleteProperty doc (es ! i))) = Some (take i (map shown es) @ drop (Suc i) (map shown es)) \<and>
    applyChanges doc (planDeleteProperty doc (es ! i)) = take n doc @ drop m doc \<and>
    lineFrom doc (Suc n) = spFrom (peLineSpan (es ! i)) \<and> lineFrom doc (Suc m) = spTo (peLineSpan (es ! i)) + 1"
proof -
  obtain f A L M S Rs c R o1 p1 where doc: "doc = (f # A) @ L # M @ S @ Rs @ c # R"
    and fence: "isFence f" "isFence c" "\<forall>y \<in> set (A @ L # M @ S @ Rs). \<not> isFence y"
    and run: "viewRun env A ([], [], None) = Inr (o1, map fst (o1 @ closePend p1), p1)" "o1 @ closePend p1 = take i (map shown es)"
    and span: "spFrom (peLineSpan (es ! i)) = length (linesBefore (f # A))" "spTo (peLineSpan (es ! i)) + 1 = length (linesBefore (f # A @ L # M))"
    and S: "\<forall>l \<in> set S. lineKind l = SkipLine"
    and tail: "continues env Rs (map fst (o1 @ closePend p1) @ [peKey (es ! i)]) (drop (Suc i) (map shown es))"
    by (rule entry_lines [OF assms(2,1,3,4)])
  let ?B = "S @ Rs @ c # R"
  have cut: "doc = (f # A) @ (L # M) @ ?B" using doc by simp
  have to: "spTo (peLineSpan (es ! i)) + 1 = length (linesBefore ((f # A) @ (L # M)))" using span(2) by simp
  have "length (linesBefore ((f # A) @ (L # M))) \<le> length (docText doc)"
    using docText_more [of ?B "(f # A) @ (L # M)"] unfolding cut by simp
  then have plan: "planDeleteProperty doc (es ! i) =
      [\<lparr>scFrom = length (linesBefore (f # A)), scTo = length (linesBefore ((f # A) @ (L # M))), scInsert = linesBefore []\<rparr>]"
    using to span(1) by (simp add: planDeleteProperty_def min_def)
  have clean: "clean ((f # A) @ (L # M) @ ?B)" using assms(1) cut by simp
  have "applyChange ((f # A) @ (L # M) @ ?B) \<lparr>scFrom = length (linesBefore (f # A)), scTo = length (linesBefore ((f # A) @ (L # M))), scInsert = linesBefore []\<rparr> =
    (f # A) @ [] @ ?B" by (rule lines_edit [OF clean]) simp_all
  then have new: "applyChanges doc (planDeleteProperty doc (es ! i)) = (f # A) @ ?B"
    unfolding plan cut [symmetric] by (simp add: applyChanges_def)
  have sub: "set (map fst (o1 @ closePend p1)) \<subseteq> set (map fst (o1 @ closePend p1) @ [peKey (es ! i)])" by auto
  obtain t where t: "viewRun env Rs (o1, map fst (o1 @ closePend p1), p1) = Inr t"
    "viewEnd t = o1 @ closePend p1 @ drop (Suc i) (map shown es)"
    using tail sub unfolding continues_def by blast
  have "viewRun env (A @ S @ Rs) ([], [], None) = Inr t"
    unfolding viewRun_append run(1) sum.case skip_run [OF S] t(1) ..
  moreover have "\<forall>y \<in> set (A @ S @ Rs). \<not> isFence y" using fence(3) by auto
  ultimately have "propertiesOf env ((f # A) @ ?B) = Some (viewEnd t)"
    using properties_run [OF fence(1,2), of "A @ S @ Rs" env R] by simp
  moreover have "viewEnd t = take i (map shown es) @ drop (Suc i) (map shown es)" using t(2) run(2) by simp
  moreover have "(f # A) @ ?B = take (length (f # A)) doc @ drop (length (f # A @ L # M)) doc" unfolding cut by simp
  moreover have "lineFrom doc (Suc (length (f # A))) = spFrom (peLineSpan (es ! i))" unfolding cut lineFrom_at span(1) ..
  moreover have "lineFrom doc (Suc (length (f # A @ L # M))) = spTo (peLineSpan (es ! i)) + 1"
    using lineFrom_at [of "(f # A) @ (L # M)" ?B] unfolding to cut by simp
  ultimately show ?thesis unfolding new by (intro exI [of _ "length (f # A)"] exI [of _ "length (f # A @ L # M)"]) simp
qed

definition entriesOf :: "'n fm_env \<Rightarrow> document \<Rightarrow> 'n prop_entry list option" where
  "entriesOf env doc =
     (case findFrontmatter doc of
        None \<Rightarrow> Some []
      | Some fm \<Rightarrow> (case parseFrontmatter env doc fm of Inl err \<Rightarrow> None | Inr es \<Rightarrow> Some es))"









section \<open>What is read back\<close>

text \<open>A quoted text reads back as itself exactly when no backslash in it stands before an n or a t.\<close>

theorem quoted_text_reads_back_iff: "unquote (quoteScalar s) = s \<longleftrightarrow> escapesSafe s"
  by (simp add: unquote_any readBack_id)

section \<open>Runs\<close>

definition units :: "string \<Rightarrow> text16" where
  "units = map of_char"

definition runEnv :: "text16 fm_env" where
  "runEnv = \<lparr>feNumber = id, feFinite = (\<lambda>_. True), feShow = id\<rparr>"

definition runDoc :: document where
  "runDoc = map units [''---'', ''title: Plan  # draft'', ''tags:'', ''  - a'', ''# note'', ''done: false'', ''---'', ''text'']"

definition runEntries :: "document \<Rightarrow> text16 prop_entry list" where
  "runEntries doc = (case entriesOf runEnv doc of Some es \<Rightarrow> es | None \<Rightarrow> [])"

definition runFm :: frontmatter_range where
  "runFm = (case findFrontmatter runDoc of Some fm \<Rightarrow> fm | None \<Rightarrow> undefined)"

lemma run_facts:
  "clean runDoc" "findFrontmatter runDoc = Some runFm" "parseFrontmatter runEnv runDoc runFm = Inr (runEntries runDoc)"
  "length (runEntries runDoc) = 3" "peListStyle (runEntries runDoc ! 0) = None"
  "map shown (runEntries runDoc) = [(units ''title'', PText (units ''Plan''), None), (units ''tags'', PList [units ''a''], Some Block),
     (units ''done'', PCheckbox False, None)]"
  "sliceString runDoc (spTo (peValueSpan (runEntries runDoc ! 0))) (spTo (peLineSpan (runEntries runDoc ! 0))) = units ''  # draft''"
  "peKey (runEntries runDoc ! 0) = units ''title''"
  by code_simp+



lemma frontmatter_delete_exact_witness:
  "\<exists>n m. propertiesOf runEnv (applyChanges runDoc (planDeleteProperty runDoc (runEntries runDoc ! 1))) =
      Some [(units ''title'', PText (units ''Plan''), None), (units ''done'', PCheckbox False, None)] \<and>
    applyChanges runDoc (planDeleteProperty runDoc (runEntries runDoc ! 1)) = take n runDoc @ drop m runDoc \<and>
    lineFrom runDoc (Suc n) = spFrom (peLineSpan (runEntries runDoc ! 1)) \<and> lineFrom runDoc (Suc m) = spTo (peLineSpan (runEntries runDoc ! 1)) + 1"
proof -
  have "1 < length (runEntries runDoc)" using run_facts(4) by simp
  from frontmatter_delete_exact [OF run_facts(1-3) this] show ?thesis unfolding run_facts(6) by simp
qed


text \<open>Four edits that go wrong: a block item with a colon and a space and a quoted key renamed to one that needs quotes
  leave a block the reader refuses, a text with a backslash before an n comes back with a line feed, and a list
  below a value on the key's line loses that value with the first edit.\<close>

definition runQuoted :: document where "runQuoted = map units [''---'', ''\"a: b\": 1'', ''---'']"
definition runList :: document where "runList = map units [''---'', ''tags:'', ''  - a'', ''---'']"
definition runMixed :: document where "runMixed = map units [''---'', ''status: done'', ''- a'', ''---'']"

theorem frontmatter_edits_go_wrong:
  "propertiesOf runEnv (applyChanges runList (planSetValue runEnv (runEntries runList ! 0) (PList [units ''a'', units ''b: c'']))) = None"
  "propertiesOf runEnv (applyChanges runQuoted (planRenameKey (runEntries runQuoted ! 0) (units ''c: d''))) = None"
  "propertiesOf runEnv (applyChanges runDoc (planSetValue runEnv (runEntries runDoc ! 0) (PText (units ''C:'' @ 92 # units ''new'')))) =
     Some [(units ''title'', PText (units ''C:'' @ 92 # 10 # units ''ew''), None), (units ''tags'', PList [units ''a''], Some Block),
       (units ''done'', PCheckbox False, None)]"
  "propertiesOf runEnv runMixed = Some [(units ''status'', PList [units ''a''], Some Block)]"
  "applyChanges runMixed (planSetValue runEnv (runEntries runMixed ! 0) (PList [units ''a'', units ''b''])) =
     map units [''---'', ''status:'', ''- a'', ''- b'', ''---'']"
  by code_simp+

end
