(* ===== verification/Spec2Isabelle.thy ===== *)
theory Spec2Isabelle
  imports Inbound_Safety Billing_Props Acl_Props Shrink_Props Key_Cache_Props Codec_Props Bridge_Props Vault_Props Reg_Props Reg_Gone Gates_Props Access_Props Csv_Props Fm_Props
begin

text \<open>
  A verification library for baalda, a local-first notes application: a desktop client (Tauri and
  React, \<open>app/apps/desktop\<close>) that keeps a folder of Markdown files in step with a server
  (\<open>app/apps/server\<close>) through a CRDT. The development models the TypeScript that decides: what a
  sync pass may do to the files on disk, who may read and write what, who pays for how many
  people, when writes are held, which keys stay in memory, and the bytes the two sides exchange.

  \<^bold>\<open>Parts and theories.\<close>
  \<^item> \<open>Prelude\<close>: JavaScript's maps, sets and strings; the interfaces (locales) the parts share: an
    insertion-ordered map, a machine with an invariant, byte codecs.
  \<^item> \<open>Bytes\<close>: integers of a \<open>DataView\<close>, \<open>TextEncoder\<close> and \<open>TextDecoder\<close>.
  \<^item> \<open>Inbound\<close> (\<open>desktop/src/lib/sync/inbound.ts\<close>, \<open>pathIdentity.ts\<close>): the planner that turns the
    server's listing, the local files and the last agreed baseline into moves, removals and
    folder operations, under circuit breakers. \<open>Inbound_Props\<close>, \<open>Inbound_Complete\<close> and
    \<open>Inbound_Safety\<close>: a pass never removes more than its ceilings, only what the server's answer
    justifies, accounts for what it refused, and is quiet on a settled vault.
  \<^item> \<open>Database\<close>: the tables the server's decisions read, as records of rows; queries are list
    comprehensions over them.
  \<^item> \<open>Billing\<close> (\<open>server/src/billing/plan.ts\<close>), \<open>Accounts\<close> (\<open>entitlements.ts\<close>, \<open>note-quota.ts\<close>,
    \<open>accounts.ts\<close>, \<open>lapse.ts\<close>), \<open>Billing_Props\<close>: plan resolution, seat gates, the lapse memory;
    the join gate keeps the people limit, accounts and attachments stay unique.
  \<^item> \<open>Acl\<close>, \<open>Acl_Cache\<close>, \<open>Acl_Resolve\<close> (\<open>server/src/permissions/resolver.ts\<close>): share rows, the
    verdict of a user's rows along the folder chain, postures, snapshots, the memo and the
    prefetch, and the resolver. \<open>Acl_Chain\<close>: the recursive folder query as an inductive chain.
    \<open>Acl_Rows\<close>, \<open>Acl_Coherent\<close>, \<open>Acl_Agree\<close>: every path (plain, memoised, prefetched, indexed)
    gives one answer. \<open>Acl_Props\<close>: what outsiders, locks, denies, grants and private items mean.
  \<^item> \<open>Vault_Docs\<close> (\<open>server/src/permissions/vault-docs.ts\<close>): the set of a vault's documents a user may
    read, computed by queries over the whole vault. \<open>Vault_Agree\<close>: what the subtree walks and the
    per-user decision compute in terms of a document's folder chain. \<open>Vault_Props\<close>: the set is the
    resolver's, and both implement one declarative rule (\<open>mayRead\<close>).
  \<^item> \<open>Shrink_Brake\<close>, \<open>Shrink_Props\<close> (\<open>server/src/versions/shrink-guard.ts\<close>): the brake on bursts of
    emptied notes: a burst is held, a hold is earned, holds are separate.
  \<^item> \<open>Key_Cache\<close>, \<open>Key_Cache_Props\<close> (\<open>server/src/crypto/key-cache.ts\<close>): vault keys in memory with
    their buffers, so that zeroing and aliasing are visible; no key outlives its entry.
  \<^item> \<open>Codecs\<close>, \<open>Codec_Props\<close> (\<open>server/src/sync/vault-protocol.ts\<close>, \<open>bulk-protocol.ts\<close>,
    \<open>desktop/src/lib/sync/vaultProtocol.ts\<close>, \<open>bootstrapCodec.ts\<close>): update frames and bootstrap
    pages, round trips between the two sides, damaged pages.
  \<^item> \<open>Bridge_Diff\<close> (\<open>desktop/src/lib/bridge/diff.ts\<close>, \<open>blankFile.ts\<close>), \<open>Note_Bridge\<close>
    (\<open>noteBridge.ts\<close>): one note's shared text and its file, as a machine with one step per await:
    the pull wait, ingest and egest passes, seeding, opening. Beside the code's state the model records
    the fate (\<open>verdict\<close>) of every file content the bridge has looked at. \<open>Bridge_Inv\<close>: every digest the
    bridge acts on belongs to bytes with a fate. \<open>Bridge_Open\<close>: bytes seen at opening count as settled
    only when merged, kept in a copy, behind the note, blank or named by a counted refusal; bytes whose
    copy failed at opening stay \<open>Unproven\<close>. \<open>Bridge_Props\<close>: what is overwritten is accounted
    for, a waiting note is quiet, a file that is behind is written over; runs in which refused bytes are lost.

  \<^item> \<open>Reg_Tree\<close> (\<open>server/src/registry/tree-ops.ts\<close>): the tables of folders, notes and files of
    vaults, resolving a path to its parent, moves, renames and the cascade of a delete. \<open>Reg_Path\<close>,
    \<open>Reg_Inv\<close>: path segments, prefixes and keys, and what a well-formed table is over an abstract
    item (id, vault, parent, path). \<open>Reg_Move\<close>, \<open>Reg_Delete\<close>: each operation as an action on items.
  \<^item> \<open>Reg_Batch\<close> (\<open>registry/batch-ops.ts\<close>, \<open>transient.ts\<close>, the folder batch of \<open>http/routes/bulk.ts\<close>):
    registering folders, notes and files with the request's caches, the note quota and the replay
    after a unique violation. \<open>Reg_Cache\<close>, \<open>Reg_Folders\<close>, \<open>Reg_Lands\<close>, \<open>Reg_Notes\<close>, \<open>Reg_Register\<close>:
    the caches answer what the queries would, what a registration writes.
  \<^item> \<open>Reg_Routes\<close> (\<open>http/routes/registry.ts\<close>, \<open>registry/rename-guard.ts\<close>, \<open>canDeleteItem\<close> of
    \<open>permissions/http-gates.ts\<close>): the routes that change the tree, with the permission answers as
    parameters. \<open>Reg_Guard\<close>: the rename budget as a machine, subtrees by path. \<open>Reg_Steps\<close>: the
    routes as one step relation and its invariant. \<open>Reg_Demo\<close>: concrete trees. \<open>Reg_Props\<close>,
    \<open>Reg_Gone\<close>: what every run keeps, what the permission walks rely on, batches, quota, moves,
    deletes, and runs where the code does not do what it means to. Folder renames of a run carry one
    valid path segment and the paths hold no character JavaScript counts twice: the route checks neither,
    and \<open>folder_rename_breaks_paths\<close> shows the invariant lost without them.

  \<^item> \<open>Gates\<close> (\<open>permissions/http-gates.ts\<close> and the folder preload of \<open>resolver.ts\<close>): who may change a
    note, a folder or a blob and where one may create. \<open>Gates_Agree\<close>, \<open>Gates_Same\<close>: the preloaded
    rows are one more source of rows, and through any memo and preload the folder gate is one
    function of the tables (\<open>freshGate\<close>). \<open>Gates_Frame\<close>, \<open>Gates_Create\<close>: billing reads no share, and
    what the create gate grants carries over to the new note. \<open>Gates_Frozen\<close>: the routes of
    \<open>Reg_Routes\<close> over these gates. \<open>Gates_Props\<close>: preloading changes nothing, what you may create you
    may edit, a lapsed account freezes the tree, a denied file stays writable.

  \<^item> \<open>Access_Manage\<close> (\<open>permissions/access-management.ts\<close>, \<open>lookup.ts\<close>): who may change access, the
    join default, and the bulk change that replaces the share rows of one audience on folders,
    documents or the whole vault. \<open>Access_Rows\<close>, \<open>Access_Effect\<close>: the share table it leaves and what
    those rows say to the resolver. \<open>Access_Cover\<close>, \<open>Access_People\<close>, \<open>Access_Vault\<close>: one document
    under a selected folder, and under a selected vault. \<open>Access_Props\<close>: the change takes effect,
    keeps the tables well formed and touches nobody else.

  \<^item> \<open>Csv\<close> (\<open>desktop/src/lib/csv.ts\<close>): the capped one-pass reader of the table viewer. \<open>Csv_Cut\<close>: the
    capped pass is the uncapped one, cut. \<open>Csv_Props\<close>: the caps only cut, every spelling is read back.
  \<^item> \<open>Frontmatter\<close> (\<open>desktop/src/lib/frontmatter/parse.ts\<close>, \<open>edit.ts\<close>, the region of
    \<open>lib/editor/frontmatter.ts\<close>): the narrow YAML reader with its spans, and the edits of the properties
    panel as replacements of one span. \<open>Fm_Read\<close>: what quoting carries. \<open>Fm_View\<close>: the reader refines a
    run over lines that knows no positions. \<open>Fm_Origin\<close>, \<open>Fm_Span\<close>, \<open>Fm_Line\<close>: every entry's spans are
    its line's. \<open>Fm_Edit\<close>, \<open>Fm_Exact\<close>, \<open>Fm_Back\<close>: an edit of a span is an edit of lines, and what is
    written is read. \<open>Fm_Props\<close>: setting, removing and adding a property change that property only; and
    edits the reader and the writer disagree about.

  \<^bold>\<open>How the code is rendered.\<close> A JavaScript \<open>Map\<close> is an association list under \<open>AList.update\<close>, a
  \<open>Set\<close> a list without repetition; mutable state is passed explicitly; a thrown error is the left
  of a sum, a null or undefined answer is None. The clock is an argument. Numbers that are counts
  are \<open>nat\<close> or \<open>int\<close>, bytes are \<open>8 word\<close>. Strings are code units: \<open>char\<close> lists (units below 256)
  where only their identity and ASCII content matter, \<open>16 word\<close> lists in the codecs. In the registry
  a \<open>char\<close> is a character of the database, and \<open>teWide\<close> says which characters JavaScript counts twice.
  The delete of a folder row removes its descendants and detaches the rows of its notes and files,
  as the schema's foreign keys do; unique indexes are branches of the inserts.

  Document ids are unique per table only: a note and a file may share one. The listing of a vault and the
  resolver then differ (\<open>Vault_Props.shared_id_differs\<close>), so their agreement is stated for the other ids.

  \<^bold>\<open>Parameters.\<close> Unicode normalisation (\<open>nfc\<close>), the database's \<open>lower\<close> and \<open>md5\<close> and the
  organization column of the share table (\<open>dbShareOrg\<close>) are arguments
  of the definitions that use them; what is relied on is a premise of the theorem. The frontmatter reader
  takes JavaScript's \<open>Number\<close> and the text of a number (\<open>fm_env\<close>). The note bridge
  takes its environment as a record: the shared text (the Yjs package) by its operations, the diff
  package, the digest, and the configuration.

  \<^bold>\<open>Bounds and fuel.\<close> The recursive folder query runs on fuel, one more than the number of folder
  rows; \<open>Acl_Props.acl_ancestors_return\<close> shows it suffices on every acyclic table. Every other
  recursion is structural, a fold, or a loop with a termination proof (the subtree walk, over the
  rows not met yet).

  \<^bold>\<open>Not modelled.\<close> The CRDT itself (the Yjs package), sockets, HTTP parsing, SQL transactions and
  locks (a request's statements run undisturbed), the lengths of timers, the React interface and the Rust backend. Of the HTTP gates, the
  attachment reads (they search note text); of the channel protocol, the JSON control frames.
  Of a folder's move, the unique violation of the rewriting UPDATEs: it needs two rows with one path key,
  which the well-formed tables do not have. Of the editor, everything but the text it holds: a change is
  applied to the lines of the document.
\<close>

end
